(* ===== verification/TP_Prelude.thy ===== *)
theory TP_Prelude
  imports
    Main
    "HOL-Library.Word"
    "HOL-Library.List_Lexorder"
    "HOL-Library.Product_Lexorder"
    "HOL-Library.AList"
    "HOL-Library.Multiset"
begin

unbundle bit_operations_syntax

text \<open>
  What every component of the model shares.

  \<^item> Python exceptions are values: \<open>'a res\<close> is \<open>py_error + 'a\<close>, \<open>bnd\<close> sequences two
    computations (an exception skips the second), \<open>ensure\<close> is \<open>if not c: raise e\<close>, \<open>each\<close> is a
    loop that maps a fallible function over a sequence, and \<open>wrap_error\<close> is the idiom
    \<open>except (TypeError, ValueError) as exc: raise E from exc\<close>. The class of an exception is kept,
    its message is not. Checks of the form \<open>isinstance\<close> are discharged by the HOL types.
  \<^item> \<open>bytes\<close> is a list of 8-bit words, ordered lexicographically as Python orders \<open>bytes\<close>;
    \<open>int\<close> is Python's unbounded integer; \<open>to_bytes\<close> raises \<open>OverflowError\<close> outside the width.
  \<^item> A \<open>dict\<close> is an association list in insertion order: assigning to a key that is present keeps
    its position, a new key goes to the end (\<open>AList.update\<close>).
  \<^item> The three \<open>_Reader\<close> classes of the wire formats differ in the exception they raise only, so
    one record \<open>reader\<close> with the exception as an argument models them, and the locale
    \<open>wire_format\<close> states what an encoder and its decoder promise each other.
\<close>

section \<open>Exceptions as values\<close>

datatype py_error =
    TypeError | ValueError | KeyError | IndexError | OverflowError | AssertionError
  | ScriptError | TxDecodeError | HeaderDecodeError | BlockDecodeError
  | ShardTreeDecodeError | StorageError | GenesisError | PowInputError | RuntimeError | PowBackendUnavailableError
  | AddressDecodeError "nat option" | UTXOReconciliationError | DuplicateChangeKeys

type_synonym 'a res = "py_error + 'a"

text \<open>The classes an \<open>except (TypeError, ValueError)\<close> clause catches: every decode error of the
  code base derives from \<open>ValueError\<close>; \<open>KeyError\<close>, \<open>IndexError\<close>, \<open>OverflowError\<close>,
  \<open>AssertionError\<close> and \<open>RuntimeError\<close> with its subclass for a missing backend do not.\<close>

fun type_or_value_error :: "py_error \<Rightarrow> bool" where
  "type_or_value_error KeyError = False"
| "type_or_value_error IndexError = False"
| "type_or_value_error OverflowError = False"
| "type_or_value_error AssertionError = False"
| "type_or_value_error RuntimeError = False"
| "type_or_value_error PowBackendUnavailableError = False"
| "type_or_value_error _ = True"

definition bnd :: "'e + 'a \<Rightarrow> ('a \<Rightarrow> 'e + 'b) \<Rightarrow> 'e + 'b" where
  "bnd m f = (case m of Inl e \<Rightarrow> Inl e | Inr x \<Rightarrow> f x)"

definition ensure :: "bool \<Rightarrow> 'e \<Rightarrow> 'e + unit" where
  "ensure c e = (if c then Inr () else Inl e)"

fun each :: "('a \<Rightarrow> 'e + 'b) \<Rightarrow> 'a list \<Rightarrow> 'e + 'b list" where
  "each f [] = Inr []"
| "each f (x # xs) = bnd (f x) (\<lambda>y. bnd (each f xs) (\<lambda>ys. Inr (y # ys)))"

definition wrap_error :: "py_error \<Rightarrow> 'a res \<Rightarrow> 'a res" where
  "wrap_error E m = (case m of
     Inl e \<Rightarrow> if type_or_value_error e then Inl E else Inl e
   | Inr x \<Rightarrow> Inr x)"

definition is_ok :: "'e + 'a \<Rightarrow> bool" where
  "is_ok m = (case m of Inl _ \<Rightarrow> False | Inr _ \<Rightarrow> True)"

text \<open>\<open>raises_only P m\<close>: if \<open>m\<close> raises, its exception is in the class \<open>P\<close>; \<open>value_errors m\<close>: a clause
  \<open>except (TypeError, ValueError)\<close> catches it.\<close>

definition raises_only :: "('e \<Rightarrow> bool) \<Rightarrow> 'e + 'a \<Rightarrow> bool" where
  "raises_only P m \<longleftrightarrow> (\<forall>e. m = Inl e \<longrightarrow> P e)"

abbreviation value_errors :: "'a res \<Rightarrow> bool" where
  "value_errors \<equiv> raises_only type_or_value_error"

section \<open>Bytes and integers\<close>

type_synonym byte = "8 word"
type_synonym bytes = "byte list"

definition U8_MAX :: int where "U8_MAX = 0xFF"
definition U16_MAX :: int where "U16_MAX = 0xFFFF"
definition U32_MAX :: int where "U32_MAX = 0xFFFFFFFF"
definition U64_MAX :: int where "U64_MAX = 0xFFFFFFFFFFFFFFFF"

text \<open>\<open>int.to_bytes(n, "little")\<close> on a value in range, and \<open>int.from_bytes\<close> in both orders.\<close>

fun le_bytes :: "nat \<Rightarrow> int \<Rightarrow> bytes" where
  "le_bytes 0 v = []"
| "le_bytes (Suc n) v = word_of_int v # le_bytes n (v div 256)"

fun from_le :: "bytes \<Rightarrow> int" where
  "from_le [] = 0"
| "from_le (b # bs) = uint b + 256 * from_le bs"

definition from_be :: "bytes \<Rightarrow> int" where
  "from_be bs = from_le (rev bs)"

definition to_bytes :: "nat \<Rightarrow> int \<Rightarrow> bytes res" where
  "to_bytes n v = (if 0 \<le> v \<and> v < 256 ^ n then Inr (le_bytes n v) else Inl OverflowError)"

definition zero_bytes :: "nat \<Rightarrow> bytes" where
  "zero_bytes n = replicate n 0"

text \<open>\<open>data[a:b]\<close> for \<open>0 <= a <= b\<close>.\<close>

definition slice :: "'a list \<Rightarrow> nat \<Rightarrow> nat \<Rightarrow> 'a list" where
  "slice xs a b = take (b - a) (drop a xs)"

definition require_uint :: "int \<Rightarrow> int \<Rightarrow> unit res" where
  "require_uint v max_value = ensure (0 \<le> v \<and> v \<le> max_value) ValueError"

section \<open>Dictionaries\<close>

type_synonym ('k, 'v) dict = "('k \<times> 'v) list"

abbreviation dict_get :: "('k, 'v) dict \<Rightarrow> 'k \<Rightarrow> 'v option" where
  "dict_get \<equiv> map_of"

abbreviation dict_set :: "'k \<Rightarrow> 'v \<Rightarrow> ('k, 'v) dict \<Rightarrow> ('k, 'v) dict" where
  "dict_set \<equiv> AList.update"

abbreviation dict_del :: "'k \<Rightarrow> ('k, 'v) dict \<Rightarrow> ('k, 'v) dict" where
  "dict_del \<equiv> AList.delete"

abbreviation dict_ok :: "('k, 'v) dict \<Rightarrow> bool" where
  "dict_ok d \<equiv> distinct (map fst d)"

section \<open>Readers\<close>

record reader =
  rd_data :: bytes
  rd_offset :: nat

definition reader_of :: "bytes \<Rightarrow> reader" where
  "reader_of data = \<lparr>rd_data = data, rd_offset = 0\<rparr>"

definition rd_bytes :: "py_error \<Rightarrow> reader \<Rightarrow> int \<Rightarrow> (bytes \<times> reader) res" where
  "rd_bytes err r n =
     bnd (require_uint n U32_MAX) (\<lambda>_.
       let e = rd_offset r + nat n in
       if e > length (rd_data r) then Inl err
       else Inr (slice (rd_data r) (rd_offset r) e, r\<lparr>rd_offset := e\<rparr>))"

definition rd_uint :: "py_error \<Rightarrow> int \<Rightarrow> reader \<Rightarrow> (int \<times> reader) res" where
  "rd_uint err width r = bnd (rd_bytes err r width) (\<lambda>(bs, r'). Inr (from_le bs, r'))"

definition rd_finish :: "py_error \<Rightarrow> reader \<Rightarrow> unit res" where
  "rd_finish err r = ensure (rd_offset r = length (rd_data r)) err"

text \<open>\<open>tuple(read(reader) for _ in range(n))\<close>\<close>

fun rd_many :: "(reader \<Rightarrow> ('a \<times> reader) res) \<Rightarrow> nat \<Rightarrow> reader \<Rightarrow> ('a list \<times> reader) res" where
  "rd_many f 0 r = Inr ([], r)"
| "rd_many f (Suc n) r =
     bnd (f r) (\<lambda>(x, r1). bnd (rd_many f n r1) (\<lambda>(xs, r2). Inr (x # xs, r2)))"

definition remaining :: "reader \<Rightarrow> bytes" where
  "remaining r = drop (rd_offset r) (rd_data r)"

definition rd_wf :: "reader \<Rightarrow> bool" where
  "rd_wf r \<longleftrightarrow> rd_offset r \<le> length (rd_data r)"

definition advance :: "nat \<Rightarrow> reader \<Rightarrow> reader" where
  "advance n r = r\<lparr>rd_offset := rd_offset r + n\<rparr>"

text \<open>
  \<open>parses dec x bs\<close>: wherever the remaining bytes start with \<open>bs\<close>, the read \<open>dec\<close> returns \<open>x\<close> and
  consumes \<open>bs\<close>. \<open>reads dec Q\<close>: whenever \<open>dec\<close> succeeds, what it returned and what it consumed
  satisfy \<open>Q\<close>. Both compose along the sequences of reads of a decoder.
\<close>

definition parses :: "(reader \<Rightarrow> ('a \<times> reader) res) \<Rightarrow> 'a \<Rightarrow> bytes \<Rightarrow> bool" where
  "parses dec x bs \<longleftrightarrow> (\<forall>r rest. rd_wf r \<longrightarrow> remaining r = bs @ rest \<longrightarrow>
     dec r = Inr (x, advance (length bs) r))"

definition reads :: "(reader \<Rightarrow> ('a \<times> reader) res) \<Rightarrow> ('a \<Rightarrow> bytes \<Rightarrow> bool) \<Rightarrow> bool" where
  "reads dec Q \<longleftrightarrow> (\<forall>r x r'. rd_wf r \<longrightarrow> dec r = Inr (x, r') \<longrightarrow>
     (\<exists>bs rest. Q x bs \<and> remaining r = bs @ rest \<and> r' = advance (length bs) r))"

section \<open>Lemma collections\<close>

named_theorems uint_limits "the numeric value of the integer limits"
named_theorems model_defs "small definitions unfolded by the component proofs"

declare U8_MAX_def [uint_limits] U16_MAX_def [uint_limits] U32_MAX_def [uint_limits]
  U64_MAX_def [uint_limits]

subsection \<open>Results\<close>

lemma bnd_simps [simp]:
  "bnd (Inl e) f = Inl e"
  "bnd (Inr x) f = f x"
  by (simp_all add: bnd_def)

lemma bnd_Inr_iff: "bnd m f = Inr y \<longleftrightarrow> (\<exists>x. m = Inr x \<and> f x = Inr y)"
  by (cases m) auto

lemma bnd_Inl_iff: "bnd m f = Inl e \<longleftrightarrow> m = Inl e \<or> (\<exists>x. m = Inr x \<and> f x = Inl e)"
  by (cases m) auto

lemma bnd_cong [fundef_cong]:
  "m = m' \<Longrightarrow> (\<And>x. m' = Inr x \<Longrightarrow> f x = f' x) \<Longrightarrow> bnd m f = bnd m' f'"
  by (cases m') auto

lemma bnd_assoc: "bnd (bnd m f) g = bnd m (\<lambda>x. bnd (f x) g)"
  by (cases m) simp_all

lemma ensure_Inr_iff [simp]: "ensure c e = Inr u \<longleftrightarrow> c"
  by (simp add: ensure_def)

lemma ensure_Inl_iff [simp]: "ensure c e = Inl e' \<longleftrightarrow> \<not> c \<and> e' = e"
  by (auto simp: ensure_def)

lemma bnd_ensure: "bnd (ensure c e) f = (if c then f () else Inl e)"
  by (simp add: ensure_def)

lemma ensure_True [simp]: "ensure True e = Inr ()"
  by (simp add: ensure_def)

lemma require_uint_Inr_iff [simp]: "require_uint v m = Inr u \<longleftrightarrow> 0 \<le> v \<and> v \<le> m"
  by (simp add: require_uint_def)

lemma require_uint_Inl_iff [simp]:
  "require_uint v m = Inl e \<longleftrightarrow> \<not> (0 \<le> v \<and> v \<le> m) \<and> e = ValueError"
  by (auto simp: require_uint_def)

lemma bnd_require_uint:
  "bnd (require_uint v m) f = (if 0 \<le> v \<and> v \<le> m then f () else Inl ValueError)"
  by (simp add: require_uint_def bnd_ensure)

lemma each_Inr_length: "each f xs = Inr ys \<Longrightarrow> length ys = length xs"
  by (induction xs arbitrary: ys) (auto simp: bnd_Inr_iff)

lemma each_Inr_all:
  "(\<And>x. x \<in> set xs \<Longrightarrow> f x = Inr (g x)) \<Longrightarrow> each f xs = Inr (map g xs)"
  by (induction xs) auto

lemma each_Inr_nth: "each f xs = Inr ys \<Longrightarrow> i < length xs \<Longrightarrow> f (xs ! i) = Inr (ys ! i)"
  by (induction xs arbitrary: ys i) (auto simp: bnd_Inr_iff nth_Cons split: nat.splits)

lemma each_unit_Inr_iff:
  "(\<exists>us. each (\<lambda>x. ensure (P x) e) xs = Inr us) \<longleftrightarrow> (\<forall>x \<in> set xs. P x)"
  by (induction xs) (auto simp: bnd_Inr_iff)

lemma each_Inl: "each f xs = Inl e \<Longrightarrow> \<exists>x \<in> set xs. f x = Inl e"
  by (induction xs) (auto simp: bnd_Inl_iff)

lemma wrap_error_Inr [simp]: "wrap_error E m = Inr x \<longleftrightarrow> m = Inr x"
  by (auto simp: wrap_error_def split: sum.splits)

lemma is_ok_simps [simp]: "is_ok (Inr x)" "\<not> is_ok (Inl e)"
  by (simp_all add: is_ok_def)

lemma is_ok_iff: "is_ok m \<longleftrightarrow> (\<exists>x. m = Inr x)"
  by (cases m) auto

lemmas res_iffs = bnd_Inr_iff bnd_Inl_iff bnd_ensure bnd_require_uint

subsection \<open>Little-endian integers\<close>

lemma length_le_bytes [simp]: "length (le_bytes n v) = n"
  by (induction n arbitrary: v) auto

lemma from_le_nonneg [simp]: "0 \<le> from_le bs"
  by (induction bs) auto

lemma uint_byte_less: "uint (b :: byte) < 256"
  using uint_lt2p [of b] by simp

lemma from_le_less: "from_le bs < 256 ^ length bs"
proof (induction bs)
  case Nil
  then show ?case by simp
next
  case (Cons b bs)
  then have "from_le bs + 1 \<le> 256 ^ length bs" by simp
  moreover have "uint b \<le> 255" using uint_byte_less [of b] by simp
  ultimately show ?case by simp
qed

lemma from_le_less': "length bs = n \<Longrightarrow> from_le bs < 256 ^ n"
  using from_le_less by blast

lemma from_le_bytes: "0 \<le> v \<Longrightarrow> v < 256 ^ n \<Longrightarrow> from_le (le_bytes n v) = v"
proof (induction n arbitrary: v)
  case 0
  then show ?case by simp
next
  case (Suc n)
  have "v div 256 < 256 ^ n" using Suc.prems(2) by (simp add: div_less_iff_less_mult mult.commute)
  then have "from_le (le_bytes n (v div 256)) = v div 256"
    using Suc.IH Suc.prems(1) by (simp add: pos_imp_zdiv_nonneg_iff)
  then show ?case by (simp add: uint_word_of_int)
qed

lemma le_bytes_from_le: "le_bytes (length bs) (from_le bs) = bs"
proof (induction bs)
  case Nil
  then show ?case by simp
next
  case (Cons b bs)
  have b: "0 \<le> uint b" "uint b < 256" using uint_byte_less [of b] by simp_all
  have "(uint b + 256 * from_le bs) div 256 = from_le bs" using b by simp
  moreover have "word_of_int (uint b + 256 * from_le bs) = b"
  proof (rule word_uint_eqI)
    show "uint (word_of_int (uint b + 256 * from_le bs) :: byte) = uint b"
      using b by (simp only: uint_word_of_int) simp
  qed
  ultimately show ?case using Cons.IH by simp
qed

lemma from_le_inject: "length xs = length ys \<Longrightarrow> from_le xs = from_le ys \<longleftrightarrow> xs = ys"
  by (metis le_bytes_from_le)

lemma le_bytes_inject:
  "0 \<le> v \<Longrightarrow> v < 256 ^ n \<Longrightarrow> 0 \<le> w \<Longrightarrow> w < 256 ^ n \<Longrightarrow> le_bytes n v = le_bytes n w \<longleftrightarrow> v = w"
  by (metis from_le_bytes)

lemma to_bytes_Inr_iff:
  "to_bytes n v = Inr bs \<longleftrightarrow> 0 \<le> v \<and> v < 256 ^ n \<and> bs = le_bytes n v"
  by (auto simp: to_bytes_def)

lemma to_bytes_ok: "0 \<le> v \<Longrightarrow> v < 256 ^ n \<Longrightarrow> to_bytes n v = Inr (le_bytes n v)"
  by (simp add: to_bytes_def)

lemma from_le_append: "from_le (xs @ ys) = from_le xs + 256 ^ length xs * from_le ys"
  by (induction xs) (auto simp: algebra_simps)

subsection \<open>Slices\<close>

lemma slice_drop: "a \<le> b \<Longrightarrow> slice xs a b @ drop b xs = drop a xs"
  unfolding slice_def by (metis append_take_drop_id drop_drop le_add_diff_inverse2)

lemma length_slice: "b \<le> length xs \<Longrightarrow> length (slice xs a b) = b - a"
  by (simp add: slice_def)

lemma le_bytes_slice: "b \<le> length xs \<Longrightarrow> n = b - a \<Longrightarrow> le_bytes n (from_le (slice xs a b)) = slice xs a b"
  using le_bytes_from_le [of "slice xs a b"] by (simp add: length_slice)

subsection \<open>Readers\<close>

lemma rd_wf_reader_of [simp]: "rd_wf (reader_of data)"
  by (simp add: rd_wf_def reader_of_def)

lemma remaining_reader_of [simp]: "remaining (reader_of data) = data"
  by (simp add: remaining_def reader_of_def)

lemma remaining_advance [simp]: "remaining (advance n r) = drop n (remaining r)"
  by (simp add: remaining_def advance_def add.commute)

lemma advance_advance [simp]: "advance m (advance n r) = advance (n + m) r"
  by (simp add: advance_def add.assoc)

lemma advance_0 [simp]: "advance 0 r = r"
  by (simp add: advance_def)

lemma rd_wf_advance: "rd_wf r \<Longrightarrow> n \<le> length (remaining r) \<Longrightarrow> rd_wf (advance n r)"
  by (auto simp: rd_wf_def advance_def remaining_def)

lemma rd_bytes_eq:
  assumes "rd_wf r"
  shows "rd_bytes err r n =
    (if 0 \<le> n \<and> n \<le> U32_MAX then
       if nat n \<le> length (remaining r)
       then Inr (take (nat n) (remaining r), advance (nat n) r) else Inl err
     else Inl ValueError)"
  using assms
  by (auto simp: rd_bytes_def bnd_require_uint remaining_def rd_wf_def slice_def advance_def
      Let_def)

lemma rd_bytes_Inr_iff:
  assumes "rd_wf r"
  shows "rd_bytes err r n = Inr (bs, r') \<longleftrightarrow>
    0 \<le> n \<and> n \<le> U32_MAX \<and> (\<exists>rest. remaining r = bs @ rest) \<and> int (length bs) = n
    \<and> r' = advance (length bs) r"
  (is "?L \<longleftrightarrow> ?R")
proof
  assume ?L
  then have n: "0 \<le> n" "n \<le> U32_MAX" "nat n \<le> length (remaining r)"
    and bs: "bs = take (nat n) (remaining r)" and r': "r' = advance (nat n) r"
    using assms by (auto simp: rd_bytes_eq split: if_splits)
  have "length bs = nat n" using bs n by simp
  moreover have "remaining r = bs @ drop (nat n) (remaining r)" using bs by simp
  ultimately show ?R using n r' by auto
next
  assume ?R
  then show ?L using assms by (auto simp: rd_bytes_eq)
qed

lemma rd_uint_eq:
  assumes "rd_wf r" and "0 \<le> w" and "w \<le> U32_MAX"
  shows "rd_uint err w r =
    (if nat w \<le> length (remaining r)
     then Inr (from_le (take (nat w) (remaining r)), advance (nat w) r) else Inl err)"
  using assms by (simp add: rd_uint_def rd_bytes_eq)

lemma rd_finish_iff: "rd_wf r \<Longrightarrow> rd_finish err r = Inr u \<longleftrightarrow> remaining r = []"
  by (auto simp: rd_finish_def rd_wf_def remaining_def)

lemma rd_finish_eq: "rd_wf r \<Longrightarrow> rd_finish err r = (if remaining r = [] then Inr () else Inl err)"
  by (auto simp: rd_finish_def rd_wf_def remaining_def ensure_def)

subsection \<open>Which exceptions escape\<close>

lemma wrap_error_Inl:
  "value_errors m \<Longrightarrow> wrap_error E m = Inl e \<Longrightarrow> e = E"
  by (auto simp: wrap_error_def raises_only_def split: sum.splits if_splits)

lemma raises_Inr: "raises_only P (Inr x)"
  by (simp add: raises_only_def)

lemma raises_Inl: "P e \<Longrightarrow> raises_only P (Inl e)"
  by (simp add: raises_only_def)

lemma raises_bnd:
  "raises_only P m \<Longrightarrow> (\<And>x. m = Inr x \<Longrightarrow> raises_only P (f x)) \<Longrightarrow> raises_only P (bnd m f)"
  by (auto simp: raises_only_def bnd_Inl_iff)

lemma raises_ensure: "P e \<Longrightarrow> raises_only P (ensure c e)"
  by (simp add: raises_only_def)

lemma raises_require_uint: "P ValueError \<Longrightarrow> raises_only P (require_uint v m)"
  by (simp add: raises_only_def)

lemma raises_if: "raises_only P a \<Longrightarrow> raises_only P b \<Longrightarrow> raises_only P (if c then a else b)"
  by simp

lemma raises_case_prod:
  "(\<And>x y. p = (x, y) \<Longrightarrow> raises_only P (f x y)) \<Longrightarrow> raises_only P (case p of (x, y) \<Rightarrow> f x y)"
  by (cases p) simp

lemma raises_case_prod_app:
  "(\<And>x y. p = (x, y) \<Longrightarrow> raises_only P (f x y z)) \<Longrightarrow> raises_only P ((case p of (x, y) \<Rightarrow> f x y) z)"
  by (cases p) simp

lemma raises_case_option:
  "(x = None \<Longrightarrow> raises_only P a) \<Longrightarrow> (\<And>y. x = Some y \<Longrightarrow> raises_only P (f y)) \<Longrightarrow>
   raises_only P (case x of None \<Rightarrow> a | Some y \<Rightarrow> f y)"
  by (cases x) simp_all

lemma raises_each: "(\<And>x. x \<in> set xs \<Longrightarrow> raises_only P (f x)) \<Longrightarrow> raises_only P (each f xs)"
  by (auto simp: raises_only_def dest!: each_Inl)

lemma raises_rd_bytes: "P err \<Longrightarrow> P ValueError \<Longrightarrow> raises_only P (rd_bytes err r n)"
  by (auto simp: raises_only_def rd_bytes_def bnd_Inl_iff Let_def split: if_splits)

lemma raises_rd_finish: "P err \<Longrightarrow> raises_only P (rd_finish err r)"
  by (simp add: rd_finish_def raises_ensure)

lemma raises_rd_uint: "P err \<Longrightarrow> P ValueError \<Longrightarrow> raises_only P (rd_uint err w r)"
  by (auto simp: rd_uint_def intro!: raises_bnd raises_rd_bytes raises_Inr)

lemma raises_rd_many: "(\<And>r. raises_only P (f r)) \<Longrightarrow> raises_only P (rd_many f n r)"
  by (induction n arbitrary: r) (auto intro!: raises_bnd raises_Inr)

lemma raises_Let: "raises_only P (f x) \<Longrightarrow> raises_only P (Let x f)"
  by simp

lemma value_error_classes:
  "type_or_value_error TypeError" "type_or_value_error ValueError" "type_or_value_error ScriptError"
  "type_or_value_error TxDecodeError" "type_or_value_error HeaderDecodeError"
  "type_or_value_error BlockDecodeError" "type_or_value_error ShardTreeDecodeError"
  by simp_all

lemmas raises_intros = raises_Inr raises_Inl raises_bnd raises_ensure raises_require_uint raises_if
  raises_case_prod raises_case_prod_app raises_case_option raises_each raises_rd_bytes raises_rd_finish
  raises_rd_uint raises_rd_many raises_Let

lemmas value_errors_intros = raises_intros value_error_classes

section \<open>The contract of a wire format\<close>

subsection \<open>Decoders as sequences of reads\<close>

lemma parses_return: "parses (\<lambda>r. Inr (x, r)) x []"
  by (simp add: parses_def)

lemma parses_bnd:
  assumes "parses d x b1" and "parses (f x) y b2"
  shows "parses (\<lambda>r. bnd (d r) (\<lambda>(x, r'). f x r')) y (b1 @ b2)"
  unfolding parses_def
proof (intro allI impI)
  fix r rest
  assume r: "rd_wf r" "remaining r = (b1 @ b2) @ rest"
  then have "d r = Inr (x, advance (length b1) r)" using assms(1) by (auto simp: parses_def)
  moreover have "rd_wf (advance (length b1) r)" using r by (simp add: rd_wf_advance)
  ultimately show "bnd (d r) (\<lambda>(x, r'). f x r') = Inr (y, advance (length (b1 @ b2)) r)"
    using assms(2) r by (auto simp: parses_def)
qed

lemma parses_check: "m = Inr x \<Longrightarrow> parses (f x) y bs \<Longrightarrow> parses (\<lambda>r. bnd m (\<lambda>x. f x r)) y bs"
  by (simp add: parses_def)

lemma parses_uint: "0 \<le> v \<Longrightarrow> v < 256 ^ w \<Longrightarrow> w \<le> 8 \<Longrightarrow> parses (rd_uint err (int w)) v (le_bytes w v)"
  by (auto simp: parses_def rd_uint_eq U32_MAX_def from_le_bytes)

lemma parses_bytes: "int (length bs) = n \<Longrightarrow> n \<le> U32_MAX \<Longrightarrow> parses (\<lambda>r. rd_bytes err r n) bs bs"
  by (auto simp: parses_def rd_bytes_eq)

lemma reads_return: "reads (\<lambda>r. Inr (x, r)) (\<lambda>y bs. y = x \<and> bs = [])"
  by (simp add: reads_def)

lemma reads_bnd:
  assumes "reads d Q" and "\<And>x b. Q x b \<Longrightarrow> reads (f x) (R x b)"
  shows "reads (\<lambda>r. bnd (d r) (\<lambda>(x, r'). f x r'))
    (\<lambda>y bs. \<exists>x b1 b2. bs = b1 @ b2 \<and> Q x b1 \<and> R x b1 y b2)"
  unfolding reads_def
proof (intro allI impI)
  fix r y r'
  assume r: "rd_wf r" and "bnd (d r) (\<lambda>(x, r'). f x r') = Inr (y, r')"
  then obtain x r1 where d: "d r = Inr (x, r1)" "f x r1 = Inr (y, r')" by (auto simp: bnd_Inr_iff)
  then obtain b1 rest where b1: "Q x b1" "remaining r = b1 @ rest" "r1 = advance (length b1) r"
    using assms(1) r unfolding reads_def by blast
  then have wf1: "rd_wf r1" using r by (simp add: rd_wf_advance)
  from assms(2) [OF b1(1)] wf1 d(2) obtain b2 rest2 where
    b2: "R x b1 y b2" "remaining r1 = b2 @ rest2" "r' = advance (length b2) r1"
    unfolding reads_def by blast
  have "remaining r = (b1 @ b2) @ rest2" using b1 b2 by simp
  then show "\<exists>bs rest. (\<exists>x b1 b2. bs = b1 @ b2 \<and> Q x b1 \<and> R x b1 y b2) \<and> remaining r = bs @ rest
      \<and> r' = advance (length bs) r"
    using b1 b2 by (intro exI [of _ "b1 @ b2"] exI [of _ rest2]) auto
qed

lemma reads_check: "(\<And>x. m = Inr x \<Longrightarrow> reads (f x) (Q x)) \<Longrightarrow>
  reads (\<lambda>r. bnd m (\<lambda>x. f x r)) (\<lambda>y bs. \<exists>x. m = Inr x \<and> Q x y bs)"
  unfolding reads_def by (fastforce simp: bnd_Inr_iff)

lemma reads_uint: "w \<le> 8 \<Longrightarrow> reads (rd_uint err (int w)) (\<lambda>v bs. 0 \<le> v \<and> v < 256 ^ w \<and> bs = le_bytes w v)"
  unfolding reads_def
proof (intro allI impI)
  fix r v r'
  assume w: "w \<le> 8" and "rd_wf r" "rd_uint err (int w) r = Inr (v, r')"
  then have l: "w \<le> length (remaining r)" and v: "v = from_le (take w (remaining r))" "r' = advance w r"
    by (auto simp: rd_uint_eq U32_MAX_def split: if_splits)
  have "le_bytes w v = take w (remaining r)"
    using le_bytes_from_le [of "take w (remaining r)"] l v by (simp add: min_absorb2)
  moreover have "v < 256 ^ w" using from_le_less' [of "take w (remaining r)" w] l v by simp
  ultimately show "\<exists>bs rest. (0 \<le> v \<and> v < 256 ^ w \<and> bs = le_bytes w v) \<and> remaining r = bs @ rest
      \<and> r' = advance (length bs) r"
    using v by (intro exI [of _ "take w (remaining r)"] exI [of _ "drop w (remaining r)"]) (simp add: l)
qed

lemma reads_bytes: "reads (\<lambda>r. rd_bytes err r n) (\<lambda>x bs. bs = x \<and> int (length x) = n)"
  by (auto simp: reads_def rd_bytes_Inr_iff)

lemma reads_mono: "reads d Q \<Longrightarrow> (\<And>x bs. Q x bs \<Longrightarrow> R x bs) \<Longrightarrow> reads d R"
  unfolding reads_def by blast

lemmas parses_intros = parses_bnd parses_check parses_return
lemmas reads_intros = reads_bnd reads_check reads_return

text \<open>Decoding a whole message: read, then refuse trailing bytes.\<close>

lemma parses_whole:
  "parses dec x bs \<Longrightarrow> bnd (dec (reader_of bs)) (\<lambda>(x, r). bnd (rd_finish err r) (\<lambda>_. f x)) = f x"
  by (simp add: parses_def rd_finish_def reader_of_def advance_def rd_wf_def remaining_def)

lemma reads_whole:
  assumes "reads dec Q" "dec (reader_of bs) = Inr (x, r)" "rd_finish err r = Inr ()"
  shows "Q x bs"
proof -
  obtain cs rest where c: "Q x cs" "remaining (reader_of bs) = cs @ rest" "r = advance (length cs) (reader_of bs)"
    using assms(1,2) unfolding reads_def by (metis rd_wf_reader_of)
  then have "rest = []" using assms(3) by (auto simp: rd_finish_def reader_of_def advance_def remaining_def)
  then show ?thesis using c by simp
qed

text \<open>
  An encoder, its decoder over a reader, and the values the decoder builds. Decoding what was
  encoded gives the value back and consumes exactly its bytes; a decoder that succeeds has read the
  encoding of what it returns, so no value has two encodings.
\<close>

locale wire_format =
  fixes enc :: "'a \<Rightarrow> bytes res"
    and dec :: "reader \<Rightarrow> ('a \<times> reader) res"
    and ok :: "'a \<Rightarrow> bool"
  assumes enc_total: "ok x \<Longrightarrow> \<exists>bs. enc x = Inr bs"
    and dec_enc: "ok x \<Longrightarrow> enc x = Inr bs \<Longrightarrow> rd_wf r \<Longrightarrow> remaining r = bs @ rest \<Longrightarrow>
      dec r = Inr (x, advance (length bs) r)"
    and enc_dec: "rd_wf r \<Longrightarrow> dec r = Inr (x, r') \<Longrightarrow>
      ok x \<and> (\<exists>bs rest. enc x = Inr bs \<and> remaining r = bs @ rest \<and> r' = advance (length bs) r)"
begin

lemma parses_enc: "ok x \<Longrightarrow> enc x = Inr bs \<Longrightarrow> parses dec x bs"
  using dec_enc by (auto simp: parses_def)

lemma reads_dec: "reads dec (\<lambda>x bs. ok x \<and> enc x = Inr bs)"
  using enc_dec unfolding reads_def by blast

lemma enc_inject: "ok x \<Longrightarrow> ok y \<Longrightarrow> enc x = Inr bs \<Longrightarrow> enc y = Inr bs \<Longrightarrow> x = y"
  using dec_enc [of x bs "reader_of bs" "[]"] dec_enc [of y bs "reader_of bs" "[]"] by simp

lemma enc_list_inject:
  "\<forall>x \<in> set xs. ok x \<Longrightarrow> \<forall>y \<in> set ys. ok y \<Longrightarrow> each enc xs = Inr bss \<Longrightarrow> each enc ys = Inr bss \<Longrightarrow> xs = ys"
proof (induction xs arbitrary: ys bss)
  case Nil
  then show ?case by (cases ys) (auto simp: bnd_Inr_iff)
next
  case (Cons x xs)
  then obtain b bs where x: "enc x = Inr b" "each enc xs = Inr bs" "bss = b # bs" by (auto simp: bnd_Inr_iff)
  then obtain y ys' where y: "ys = y # ys'" "enc y = Inr b" "each enc ys' = Inr bs"
    using Cons.prems(4) by (cases ys) (auto simp: bnd_Inr_iff)
  have "xs = ys'" using Cons.IH [OF _ _ x(2) y(3)] Cons.prems(1,2) y(1) by simp
  moreover have "x = y" using enc_inject [OF _ _ x(1) y(2)] Cons.prems(1,2) y(1) by simp
  ultimately show ?case using y(1) by simp
qed

lemma enc_each_total: "\<forall>x \<in> set xs. ok x \<Longrightarrow> \<exists>bss. each enc xs = Inr bss"
proof (induction xs)
  case Nil
  then show ?case by simp
next
  case (Cons x xs)
  then obtain bss where "each enc xs = Inr bss" by auto
  moreover from Cons.prems enc_total obtain bs where "enc x = Inr bs" by auto
  ultimately show ?case by simp
qed

lemma dec_many_enc:
  "\<forall>x \<in> set xs. ok x \<Longrightarrow> each enc xs = Inr bss \<Longrightarrow> rd_wf r \<Longrightarrow> remaining r = concat bss @ rest \<Longrightarrow>
   rd_many dec (length xs) r = Inr (xs, advance (length (concat bss)) r)"
proof (induction xs arbitrary: bss r)
  case Nil
  then show ?case by simp
next
  case (Cons x xs)
  from Cons.prems(2) obtain bs bss' where
    e: "enc x = Inr bs" "each enc xs = Inr bss'" "bss = bs # bss'"
    by (auto simp: bnd_Inr_iff)
  let ?r = "advance (length bs) r"
  have d: "dec r = Inr (x, ?r)"
    using Cons.prems e by (intro dec_enc) auto
  have wf: "rd_wf ?r" using Cons.prems e by (intro rd_wf_advance) auto
  have rem: "remaining ?r = concat bss' @ rest" using Cons.prems e by simp
  have "rd_many dec (length xs) ?r = Inr (xs, advance (length (concat bss')) ?r)"
    using Cons.prems(1) wf rem e(2) by (intro Cons.IH) auto
  then show ?case using d e by simp
qed

lemma enc_many_dec:
  "rd_wf r \<Longrightarrow> rd_many dec n r = Inr (xs, r') \<Longrightarrow>
   length xs = n \<and> (\<forall>x \<in> set xs. ok x) \<and>
   (\<exists>bss rest. each enc xs = Inr bss \<and> remaining r = concat bss @ rest
     \<and> r' = advance (length (concat bss)) r)"
proof (induction n arbitrary: r xs)
  case 0
  then show ?case by auto
next
  case (Suc n)
  from Suc.prems(2) obtain x r1 ys where
    d: "dec r = Inr (x, r1)" and m: "rd_many dec n r1 = Inr (ys, r')" and xs: "xs = x # ys"
    by (auto simp: bnd_Inr_iff split: prod.splits)
  from enc_dec [OF Suc.prems(1) d] obtain bs rest where
    x: "ok x" "enc x = Inr bs" "remaining r = bs @ rest" "r1 = advance (length bs) r"
    by blast
  have wf: "rd_wf r1" using Suc.prems(1) x by (simp add: rd_wf_advance)
  from Suc.IH [OF wf m] obtain bss rest' where
    y: "length ys = n" "\<forall>x \<in> set ys. ok x" "each enc ys = Inr bss" "remaining r1 = concat bss @ rest'"
      "r' = advance (length (concat bss)) r1"
    by blast
  have "remaining r = concat (bs # bss) @ rest'" using x y by simp
  then show ?case using x y xs by auto
qed

lemma parses_many:
  "\<forall>x \<in> set xs. ok x \<Longrightarrow> each enc xs = Inr bss \<Longrightarrow> parses (rd_many dec (length xs)) xs (concat bss)"
  using dec_many_enc by (auto simp: parses_def)

lemma reads_many:
  "reads (rd_many dec n) (\<lambda>xs bs. length xs = n \<and> (\<forall>x \<in> set xs. ok x)
     \<and> (\<exists>bss. each enc xs = Inr bss \<and> bs = concat bss))"
  using enc_many_dec unfolding reads_def by blast

end

lemma wire_formatI:
  assumes "\<And>x. ok x \<Longrightarrow> \<exists>bs. enc x = Inr bs \<and> parses dec x bs"
    and "reads dec (\<lambda>x bs. ok x \<and> enc x = Inr bs)"
  shows "wire_format enc dec ok"
proof
  fix x bs r rest
  show "ok x \<Longrightarrow> \<exists>bs. enc x = Inr bs" using assms(1) by blast
  assume "ok x" "enc x = Inr bs" "rd_wf r" "remaining r = bs @ rest"
  then show "dec r = Inr (x, advance (length bs) r)" using assms(1) [of x] by (auto simp: parses_def)
next
  fix r x r'
  assume "rd_wf r" "dec r = Inr (x, r')"
  then show "ok x \<and> (\<exists>bs rest. enc x = Inr bs \<and> remaining r = bs @ rest \<and> r' = advance (length bs) r)"
    using assms(2) unfolding reads_def by blast
qed

text \<open>Fixed-width little-endian integers, and raw byte strings of a fixed length.\<close>

lemma wire_uint: "w \<le> 4294967295 \<Longrightarrow>
  wire_format (to_bytes w) (rd_uint err (int w)) (\<lambda>v. 0 \<le> v \<and> v < 256 ^ w)"
proof unfold_locales
  fix v :: int and bs r rest
  assume w: "w \<le> 4294967295" and v: "0 \<le> v \<and> v < 256 ^ w"
  show "\<exists>bs. to_bytes w v = Inr bs" using v by (simp add: to_bytes_def)
  assume "to_bytes w v = Inr bs" "rd_wf r" "remaining r = bs @ rest"
  then show "rd_uint err (int w) r = Inr (v, advance (length bs) r)"
    using w v by (auto simp: to_bytes_Inr_iff rd_uint_eq U32_MAX_def from_le_bytes)
next
  fix v r r'
  assume w: "w \<le> 4294967295" and r: "rd_wf r" "rd_uint err (int w) r = Inr (v, r')"
  let ?b = "take w (remaining r)"
  have l: "length ?b = w" and v: "v = from_le ?b" "r' = advance w r"
    using r w by (auto simp: rd_uint_eq U32_MAX_def split: if_splits)
  have "to_bytes w v = Inr ?b"
    using from_le_less' [OF l] v(1) le_bytes_from_le [of ?b] unfolding l by (simp add: to_bytes_def)
  moreover have "remaining r = ?b @ drop w (remaining r)" by simp
  ultimately have "\<exists>bs rest. to_bytes w v = Inr bs \<and> remaining r = bs @ rest \<and> r' = advance (length bs) r"
    using v(2) l by metis
  then show "(0 \<le> v \<and> v < 256 ^ w) \<and>
      (\<exists>bs rest. to_bytes w v = Inr bs \<and> remaining r = bs @ rest \<and> r' = advance (length bs) r)"
    using v(1) from_le_less' [OF l] by simp
qed

end
