(* ===== verification/Hashing.thy ===== *)
theory Hashing
  imports TP_Prelude
begin

text \<open>
  \<^verbatim>\<open>src/src/tensorpow/crypto/hash.py\<close>: the domain bytes and the hashing helpers.

  BLAKE3 is a third-party package, so the 32-byte digest is a parameter \<open>H\<close> of every definition
  that hashes, the keyed and the key-derivation modes are parameters \<open>K\<close> and \<open>D\<close>. What the code
  relies on is a named hypothesis where a theorem needs it: \<open>digest_ok H\<close> says that
  \<open>digest(length=32)\<close> returns 32 bytes. Freedom from collisions is never assumed of all inputs
  (no 32-byte digest has it): theorems that rest on it ask for injectivity on the finite set of
  preimages at hand. A domain is a \<open>byte\<close>, which is the range check of \<open>_domain_byte\<close>.
\<close>

type_synonym hash_fn = "bytes \<Rightarrow> bytes"

definition HASH_LEN_BYTES :: nat where "HASH_LEN_BYTES = 32"
definition GENESIS_PARENT_HASH :: bytes where "GENESIS_PARENT_HASH = zero_bytes HASH_LEN_BYTES"
definition MERKLE_DEPTH_BITS :: nat where "MERKLE_DEPTH_BITS = HASH_LEN_BYTES * 8"

definition DOMAIN_POW_CHALLENGE_FRUIT :: byte where "DOMAIN_POW_CHALLENGE_FRUIT = 0x00"
definition DOMAIN_POW_CHALLENGE_ANCHOR :: byte where "DOMAIN_POW_CHALLENGE_ANCHOR = 0x01"
definition DOMAIN_POW_OUTPUT :: byte where "DOMAIN_POW_OUTPUT = 0x02"
definition DOMAIN_POW_MATRIX_A :: byte where "DOMAIN_POW_MATRIX_A = 0x03"
definition DOMAIN_POW_MATRIX_B :: byte where "DOMAIN_POW_MATRIX_B = 0x04"
definition DOMAIN_FRUIT_HEADER :: byte where "DOMAIN_FRUIT_HEADER = 0x10"
definition DOMAIN_ANCHOR_HEADER :: byte where "DOMAIN_ANCHOR_HEADER = 0x11"
definition DOMAIN_TX_MERKLE_ROOT :: byte where "DOMAIN_TX_MERKLE_ROOT = 0x12"
definition DOMAIN_FRUIT_SET_ROOT :: byte where "DOMAIN_FRUIT_SET_ROOT = 0x13"
definition DOMAIN_PARENT_CANDIDATE_ROOT :: byte where "DOMAIN_PARENT_CANDIDATE_ROOT = 0x14"
definition DOMAIN_ANCHOR_REWARD_ROOT :: byte where "DOMAIN_ANCHOR_REWARD_ROOT = 0x15"
definition DOMAIN_TX_ID :: byte where "DOMAIN_TX_ID = 0x20"
definition DOMAIN_TX_SIGHASH :: byte where "DOMAIN_TX_SIGHASH = 0x21"
definition DOMAIN_OUTPOINT :: byte where "DOMAIN_OUTPOINT = 0x22"
definition DOMAIN_UTXO :: byte where "DOMAIN_UTXO = 0x23"
definition DOMAIN_MERKLE_LEAF :: byte where "DOMAIN_MERKLE_LEAF = 0x30"
definition DOMAIN_MERKLE_NODE :: byte where "DOMAIN_MERKLE_NODE = 0x31"
definition DOMAIN_MERKLE_EMPTY :: byte where "DOMAIN_MERKLE_EMPTY = 0x32"
definition MERKLE_LEAF_TAG :: byte where "MERKLE_LEAF_TAG = 0x00"
definition MERKLE_NODE_TAG :: byte where "MERKLE_NODE_TAG = 0x01"
definition MERKLE_EMPTY_TAG :: byte where "MERKLE_EMPTY_TAG = 0x02"
definition DOMAIN_ADDRESS :: byte where "DOMAIN_ADDRESS = 0x40"
definition DOMAIN_GENESIS :: byte where "DOMAIN_GENESIS = 0x50"
definition DOMAIN_SHARD_TREE :: byte where "DOMAIN_SHARD_TREE = 0x60"
definition DOMAIN_FEE_FLOOR :: byte where "DOMAIN_FEE_FLOOR = 0x61"
definition DOMAIN_DAS_SAMPLE :: byte where "DOMAIN_DAS_SAMPLE = 0x70"

definition require_hash_len :: "bytes \<Rightarrow> unit res" where
  "require_hash_len value = ensure (length value = HASH_LEN_BYTES) ValueError"

definition hash_bytes :: "hash_fn \<Rightarrow> bytes \<Rightarrow> bytes" where
  "hash_bytes H data = H data"

definition domain_hash :: "hash_fn \<Rightarrow> byte \<Rightarrow> bytes \<Rightarrow> bytes" where
  "domain_hash H domain data = hash_bytes H ([domain] @ data)"

definition keyed_hash :: "(bytes \<Rightarrow> bytes \<Rightarrow> bytes) \<Rightarrow> bytes \<Rightarrow> bytes \<Rightarrow> bytes res" where
  "keyed_hash K key data = bnd (require_hash_len key) (\<lambda>_. Inr (K key data))"

definition derive_key :: "(string \<Rightarrow> bytes \<Rightarrow> bytes) \<Rightarrow> string \<Rightarrow> bytes \<Rightarrow> bytes res" where
  "derive_key D ctx key_material =
     bnd (ensure (ctx \<noteq> '''') ValueError) (\<lambda>_. Inr (D ctx key_material))"

definition digest_ok :: "hash_fn \<Rightarrow> bool" where
  "digest_ok H \<longleftrightarrow> (\<forall>x. length (H x) = HASH_LEN_BYTES)"

abbreviation require_hash :: "bytes \<Rightarrow> unit res" where
  "require_hash \<equiv> require_hash_len"

lemma require_hash_len_Inr_iff [simp]: "require_hash_len v = Inr u \<longleftrightarrow> length v = HASH_LEN_BYTES"
  by (simp add: require_hash_len_def)

lemma require_hash_len_Inl_iff [simp]:
  "require_hash_len v = Inl e \<longleftrightarrow> length v \<noteq> HASH_LEN_BYTES \<and> e = ValueError"
  by (auto simp: require_hash_len_def)

lemma bnd_require_hash_len:
  "bnd (require_hash_len v) f = (if length v = HASH_LEN_BYTES then f () else Inl ValueError)"
  by (simp add: require_hash_len_def bnd_ensure)

lemma length_domain_hash: "digest_ok H \<Longrightarrow> length (domain_hash H d x) = HASH_LEN_BYTES"
  by (simp add: digest_ok_def domain_hash_def hash_bytes_def)

end
