(* ===== verification/Shard_Tree.thy ===== *)
theory Shard_Tree
  imports Hashing
begin

text \<open>
  \<^verbatim>\<open>src/src/tensorpow/mempool/shard_tree.py\<close>: shard identifiers, the shard tree kept as its
  sorted tuple of leaves, split and merge, the utilisation policy, routing and the wire format.

  A shard identifier packs a depth (0 to 16) and the low \<open>depth\<close> bits of a transaction hash. The
  abstract view is the \<open>cylinder\<close> of a shard: the 16-bit hash suffixes it is responsible for. The
  constructor check of \<open>ShardTree\<close> is shown to accept exactly the sorted leaf lists whose cylinders
  partition all suffixes, from which routing, splitting and merging follow.
\<close>

section \<open>Definitions\<close>

definition SHARD_ID_DEPTH_SHIFT :: nat where "SHARD_ID_DEPTH_SHIFT = 16"
definition SHARD_MAX_DEPTH :: int where "SHARD_MAX_DEPTH = 16"
definition SHARD_ID_PATH_MASK :: int where
  "SHARD_ID_PATH_MASK = push_bit SHARD_ID_DEPTH_SHIFT 1 - 1"
definition ROOT_SHARD_ID :: int where "ROOT_SHARD_ID = 0"
definition MAX_FRUIT_PAYLOAD_BYTES :: int where "MAX_FRUIT_PAYLOAD_BYTES = 8192"
definition SHARD_SPLIT_THRESHOLD_PCT :: int where "SHARD_SPLIT_THRESHOLD_PCT = 80"
definition SHARD_SPLIT_WINDOW_ANCHORS :: nat where "SHARD_SPLIT_WINDOW_ANCHORS = 10"
definition SHARD_MERGE_THRESHOLD_PCT :: int where "SHARD_MERGE_THRESHOLD_PCT = 20"
definition SHARD_MERGE_WINDOW_ANCHORS :: nat where "SHARD_MERGE_WINDOW_ANCHORS = 1440"
definition SHARD_TREE_MAX_BYTES :: nat where "SHARD_TREE_MAX_BYTES = 262144"

definition require_nonneg :: "int \<Rightarrow> unit res" where
  "require_nonneg value = ensure (\<not> value < 0) ValueError"

definition path_mask :: "int \<Rightarrow> int" where
  "path_mask depth = push_bit (nat depth) 1 - 1"

definition encode_shard_id :: "int \<Rightarrow> int \<Rightarrow> int res" where
  "encode_shard_id depth path =
     bnd (require_nonneg depth) (\<lambda>_.
     bnd (require_nonneg path) (\<lambda>_.
     bnd (ensure (\<not> depth > SHARD_MAX_DEPTH) ValueError) (\<lambda>_.
     bnd (ensure (\<not> path \<ge> push_bit (nat depth) 1) ValueError) (\<lambda>_.
     Inr (push_bit SHARD_ID_DEPTH_SHIFT depth OR path)))))"

definition require_shard_id :: "int \<Rightarrow> int res" where
  "require_shard_id shard_id =
     bnd (require_nonneg shard_id) (\<lambda>_.
     bnd (ensure (\<not> shard_id > U32_MAX) ValueError) (\<lambda>_.
     let depth = drop_bit SHARD_ID_DEPTH_SHIFT shard_id;
         path = shard_id AND SHARD_ID_PATH_MASK in
     bnd (ensure (\<not> depth > SHARD_MAX_DEPTH) ValueError) (\<lambda>_.
     bnd (ensure (\<not> path \<ge> push_bit (nat depth) 1) ValueError) (\<lambda>_.
     Inr shard_id))))"

definition decode_shard_id :: "int \<Rightarrow> (int \<times> int) res" where
  "decode_shard_id shard_id =
     bnd (require_shard_id shard_id) (\<lambda>_.
     Inr (drop_bit SHARD_ID_DEPTH_SHIFT shard_id, shard_id AND SHARD_ID_PATH_MASK))"

definition parent_shard_id :: "int \<Rightarrow> int res" where
  "parent_shard_id shard_id =
     bnd (decode_shard_id shard_id) (\<lambda>(depth, path).
     bnd (ensure (depth \<noteq> 0) ValueError) (\<lambda>_.
     encode_shard_id (depth - 1) (path AND path_mask (depth - 1))))"

definition child_shard_ids :: "int \<Rightarrow> (int \<times> int) res" where
  "child_shard_ids shard_id =
     bnd (decode_shard_id shard_id) (\<lambda>(depth, path).
     bnd (ensure (\<not> depth \<ge> SHARD_MAX_DEPTH) ValueError) (\<lambda>_.
     let child_depth = depth + 1 in
     bnd (encode_shard_id child_depth path) (\<lambda>l.
     bnd (encode_shard_id child_depth (path OR push_bit (nat depth) 1)) (\<lambda>r.
     Inr (l, r)))))"

definition require_sibling_shards :: "int \<times> int \<Rightarrow> (int \<times> int) res" where
  "require_sibling_shards siblings = (case siblings of (left, right) \<Rightarrow>
     bnd (decode_shard_id left) (\<lambda>(left_depth, left_path).
     bnd (decode_shard_id right) (\<lambda>(right_depth, right_path).
     bnd (ensure (left \<noteq> right) ValueError) (\<lambda>_.
     bnd (ensure (left_depth = right_depth) ValueError) (\<lambda>_.
     bnd (ensure (left_depth \<noteq> 0) ValueError) (\<lambda>_.
     let parent_mask = path_mask (left_depth - 1) in
     bnd (ensure (left_path AND parent_mask = right_path AND parent_mask) ValueError) (\<lambda>_.
     bnd (ensure ({drop_bit (nat (left_depth - 1)) left_path,
                   drop_bit (nat (right_depth - 1)) right_path} = {0, 1}) ValueError) (\<lambda>_.
     Inr (min left right, max left right)))))))))"

subsection \<open>The tree\<close>

record shard_tree =
  leaf_shard_ids :: "int list"

definition leaf_set :: "shard_tree \<Rightarrow> int set" where
  "leaf_set t = set (leaf_shard_ids t)"

definition check_overlap :: "int \<Rightarrow> int set \<Rightarrow> int \<Rightarrow> unit res" where
  "check_overlap path seen ancestor_depth =
     bnd (encode_shard_id ancestor_depth (path AND path_mask ancestor_depth)) (\<lambda>ancestor.
     ensure (ancestor \<notin> seen) ValueError)"

fun partition_loop :: "int list \<Rightarrow> int set \<Rightarrow> int \<Rightarrow> int res" where
  "partition_loop [] seen coverage = Inr coverage"
| "partition_loop (shard_id # rest) seen coverage =
     bnd (decode_shard_id shard_id) (\<lambda>(depth, path).
     bnd (each (check_overlap path seen) (map int [0..<nat depth])) (\<lambda>_.
     partition_loop rest (insert shard_id seen)
       (coverage + push_bit (nat (SHARD_MAX_DEPTH - depth)) 1)))"

definition validate_leaf_partition :: "int list \<Rightarrow> unit res" where
  "validate_leaf_partition leaves =
     bnd (ensure (leaves \<noteq> []) ValueError) (\<lambda>_.
     bnd (ensure (sort leaves = leaves) ValueError) (\<lambda>_.
     bnd (ensure (card (set leaves) = length leaves) ValueError) (\<lambda>_.
     bnd (partition_loop leaves {} 0) (\<lambda>coverage.
     ensure (coverage = push_bit (nat SHARD_MAX_DEPTH) 1) ValueError))))"

definition ShardTree :: "int list \<Rightarrow> shard_tree res" where
  "ShardTree leaves =
     bnd (validate_leaf_partition leaves) (\<lambda>_. Inr \<lparr>leaf_shard_ids = leaves\<rparr>)"

definition default_tree :: shard_tree where
  "default_tree = \<lparr>leaf_shard_ids = [ROOT_SHARD_ID]\<rparr>"

fun route_loop :: "int \<Rightarrow> int list \<Rightarrow> int res" where
  "route_loop route_int [] = Inl AssertionError"
| "route_loop route_int (shard_id # rest) =
     bnd (decode_shard_id shard_id) (\<lambda>(depth, path).
     if path = route_int AND path_mask depth then Inr shard_id
     else route_loop route_int rest)"

definition route_tx :: "shard_tree \<Rightarrow> bytes \<Rightarrow> int res" where
  "route_tx t tx_hash =
     bnd (require_hash tx_hash) (\<lambda>_. route_loop (from_le tx_hash) (leaf_shard_ids t))"

definition serialize_tree :: "shard_tree \<Rightarrow> bytes res" where
  "serialize_tree t =
     bnd (to_bytes 4 (int (length (leaf_shard_ids t)))) (\<lambda>n.
     bnd (each (to_bytes 4) (leaf_shard_ids t)) (\<lambda>ids. Inr (n @ concat ids)))"

definition deserialize_tree :: "bytes \<Rightarrow> shard_tree res" where
  "deserialize_tree data =
     bnd (ensure (\<not> length data > SHARD_TREE_MAX_BYTES) ShardTreeDecodeError) (\<lambda>_.
     bnd (rd_uint ShardTreeDecodeError 4 (reader_of data)) (\<lambda>(leaf_count, r1).
     bnd (rd_many (rd_uint ShardTreeDecodeError 4) (nat leaf_count) r1) (\<lambda>(ids, r2).
     bnd (rd_finish ShardTreeDecodeError r2) (\<lambda>_.
     wrap_error ShardTreeDecodeError (ShardTree ids)))))"

definition shard_tree_root :: "hash_fn \<Rightarrow> bytes \<Rightarrow> bytes res" where
  "shard_tree_root H canonical_shard_tree_bytes =
     bnd (ensure (\<not> length canonical_shard_tree_bytes > SHARD_TREE_MAX_BYTES) ValueError) (\<lambda>_.
     Inr (domain_hash H DOMAIN_SHARD_TREE canonical_shard_tree_bytes))"

definition state_root :: "hash_fn \<Rightarrow> shard_tree \<Rightarrow> bytes res" where
  "state_root H t = bnd (serialize_tree t) (shard_tree_root H)"

subsection \<open>Split, merge and batches of operations\<close>

definition apply_split :: "shard_tree \<Rightarrow> int \<Rightarrow> shard_tree res" where
  "apply_split t shard_id =
     bnd (require_shard_id shard_id) (\<lambda>_.
     bnd (ensure (shard_id \<in> leaf_set t) ValueError) (\<lambda>_.
     bnd (child_shard_ids shard_id) (\<lambda>(l, r).
     ShardTree (sorted_list_of_set ((leaf_set t - {shard_id}) \<union> {l, r})))))"

definition apply_merge :: "shard_tree \<Rightarrow> int \<times> int \<Rightarrow> shard_tree res" where
  "apply_merge t siblings =
     bnd (require_sibling_shards siblings) (\<lambda>(left, right).
     bnd (ensure (left \<in> leaf_set t \<and> right \<in> leaf_set t) ValueError) (\<lambda>_.
     bnd (parent_shard_id left) (\<lambda>parent.
     ShardTree (sorted_list_of_set ((leaf_set t - {left, right}) \<union> {parent})))))"

datatype shard_op = ShardSplit int | ShardMerge "int \<times> int"

fun mk_shard_op :: "shard_op \<Rightarrow> shard_op res" where
  "mk_shard_op (ShardSplit shard_id) = bnd (require_shard_id shard_id) (\<lambda>_. Inr (ShardSplit shard_id))"
| "mk_shard_op (ShardMerge siblings) =
     bnd (require_sibling_shards siblings) (\<lambda>s. Inr (ShardMerge s))"

fun operation_parent :: "shard_op \<Rightarrow> int res" where
  "operation_parent (ShardSplit shard_id) = Inr shard_id"
| "operation_parent (ShardMerge siblings) = parent_shard_id (fst siblings)"

fun apply_operation :: "shard_tree \<Rightarrow> shard_op \<Rightarrow> shard_tree res" where
  "apply_operation t (ShardSplit shard_id) = apply_split t shard_id"
| "apply_operation t (ShardMerge siblings) = apply_merge t siblings"

record shard_tree_update =
  upd_tree :: shard_tree
  upd_applied :: "shard_op list"
  upd_queued :: "shard_op list"

fun operations_loop ::
  "shard_op list \<Rightarrow> shard_tree \<Rightarrow> int set \<Rightarrow> shard_op list \<Rightarrow> shard_op list \<Rightarrow>
   (shard_tree \<times> shard_op list \<times> shard_op list) res" where
  "operations_loop [] next_tree used applied queued = Inr (next_tree, applied, queued)"
| "operations_loop (operation # rest) next_tree used applied queued =
     bnd (operation_parent operation) (\<lambda>parent.
     if parent \<in> used then operations_loop rest next_tree used applied (queued @ [operation])
     else bnd (apply_operation next_tree operation) (\<lambda>t.
       operations_loop rest t (insert parent used) (applied @ [operation]) queued))"

definition apply_operations :: "shard_tree \<Rightarrow> shard_op list \<Rightarrow> shard_tree_update res" where
  "apply_operations t operations =
     bnd (operations_loop operations t {} [] []) (\<lambda>(next_tree, applied, queued).
     bnd (each operation_parent applied) (\<lambda>_.
     bnd (each operation_parent queued) (\<lambda>_.
     Inr \<lparr>upd_tree = next_tree, upd_applied = applied, upd_queued = queued\<rparr>)))"

subsection \<open>The utilisation policy\<close>

record shard_sample =
  smp_shard_id :: int
  payload_bytes_confirmed :: int
  fruit_slots_observed :: int

definition mk_sample :: "int \<Rightarrow> int \<Rightarrow> int \<Rightarrow> shard_sample res" where
  "mk_sample shard_id payload slots =
     bnd (require_shard_id shard_id) (\<lambda>_.
     bnd (require_nonneg payload) (\<lambda>_.
     bnd (require_nonneg slots) (\<lambda>_.
     bnd (ensure (slots \<noteq> 0) ValueError) (\<lambda>_.
     bnd (ensure (\<not> payload > MAX_FRUIT_PAYLOAD_BYTES * slots) ValueError) (\<lambda>_.
     Inr \<lparr>smp_shard_id = shard_id, payload_bytes_confirmed = payload,
       fruit_slots_observed = slots\<rparr>)))))"

definition recent_samples :: "int \<Rightarrow> shard_sample list \<Rightarrow> nat \<Rightarrow> shard_sample list" where
  "recent_samples shard_id history window =
     (let samples = filter (\<lambda>s. smp_shard_id s = shard_id) history
      in drop (length samples - window) samples)"

definition sample_meets_threshold :: "shard_sample \<Rightarrow> int \<Rightarrow> bool \<Rightarrow> bool" where
  "sample_meets_threshold sample threshold_pct at_least =
     (let numerator = payload_bytes_confirmed sample * 100;
          denominator = MAX_FRUIT_PAYLOAD_BYTES * fruit_slots_observed sample;
          threshold = denominator * threshold_pct
      in if at_least then numerator \<ge> threshold else numerator \<le> threshold)"

definition should_split :: "int \<Rightarrow> shard_sample list \<Rightarrow> bool res" where
  "should_split shard_id history =
     bnd (decode_shard_id shard_id) (\<lambda>(depth, path).
     if depth \<ge> SHARD_MAX_DEPTH then Inr False
     else let samples = recent_samples shard_id history SHARD_SPLIT_WINDOW_ANCHORS in
       if length samples < SHARD_SPLIT_WINDOW_ANCHORS then Inr False
       else Inr (\<forall>s \<in> set samples. sample_meets_threshold s SHARD_SPLIT_THRESHOLD_PCT True))"

definition should_merge :: "int \<times> int \<Rightarrow> shard_sample list \<Rightarrow> bool res" where
  "should_merge siblings history =
     bnd (require_sibling_shards siblings) (\<lambda>(left, right).
     let left_samples = recent_samples left history SHARD_MERGE_WINDOW_ANCHORS;
         right_samples = recent_samples right history SHARD_MERGE_WINDOW_ANCHORS in
     if length left_samples < SHARD_MERGE_WINDOW_ANCHORS
        \<or> length right_samples < SHARD_MERGE_WINDOW_ANCHORS then Inr False
     else Inr (\<forall>s \<in> set (left_samples @ right_samples).
       sample_meets_threshold s SHARD_MERGE_THRESHOLD_PCT False))"

section \<open>Shard identifiers\<close>

lemma path_mask_and [simp]: "x AND path_mask d = x mod 2 ^ nat d"
  by (simp add: path_mask_def flip: mask_eq_exp_minus_1 take_bit_eq_mask take_bit_eq_mod)

lemma id_mask_and [simp]: "x AND SHARD_ID_PATH_MASK = x mod 65536"
proof -
  have "x AND SHARD_ID_PATH_MASK = take_bit 16 x"
    by (simp add: SHARD_ID_PATH_MASK_def SHARD_ID_DEPTH_SHIFT_def take_bit_eq_mask mask_eq_exp_minus_1)
  then show ?thesis by (simp add: take_bit_eq_mod)
qed

lemma push_bit_or_add:
  fixes d p :: int
  assumes "0 \<le> p" and "p < 2 ^ n"
  shows "push_bit n d OR p = d * 2 ^ n + p"
proof -
  have p: "p = take_bit n p" using assms by (simp add: take_bit_int_eq_self)
  have "push_bit n d AND p = 0"
    by (rule bit_eqI, subst p) (auto simp: bit_simps)
  then show ?thesis by (metis disjunctive_add_eq_or push_bit_eq_mult)
qed

text \<open>The two fields of an identifier, and when it is well formed.\<close>

definition depth_of :: "int \<Rightarrow> int" where "depth_of s = s div 65536"
definition path_of :: "int \<Rightarrow> int" where "path_of s = s mod 65536"

definition shard_ok :: "int \<Rightarrow> bool" where
  "shard_ok s \<longleftrightarrow> 0 \<le> depth_of s \<and> depth_of s \<le> 16 \<and> path_of s < 2 ^ nat (depth_of s)"

lemma id_fields: "depth_of s * 65536 + path_of s = s"
  by (simp add: depth_of_def path_of_def)

lemma path_of_nonneg [simp]: "0 \<le> path_of s"
  by (simp add: path_of_def)

lemma pow2_depth_le: "0 \<le> d \<Longrightarrow> d \<le> 16 \<Longrightarrow> (2::int) ^ nat d \<le> 65536"
  using power_increasing [of "nat d" 16 "2::int"] by simp

lemma fields_of_pack:
  assumes "0 \<le> p" and "p < 65536"
  shows "depth_of (d * 65536 + p) = d" and "path_of (d * 65536 + p) = p"
  using assms by (simp_all add: depth_of_def path_of_def)

lemma shard_ok_pack:
  "0 \<le> d \<Longrightarrow> d \<le> 16 \<Longrightarrow> 0 \<le> p \<Longrightarrow> p < 2 ^ nat d \<Longrightarrow> shard_ok (d * 65536 + p)"
  using pow2_depth_le [of d] by (simp add: shard_ok_def fields_of_pack)

lemma require_shard_id_eq:
  "require_shard_id s = (if shard_ok s then Inr s else Inl ValueError)"
proof -
  have "0 \<le> s \<longleftrightarrow> 0 \<le> depth_of s" by (simp add: depth_of_def pos_imp_zdiv_nonneg_iff)
  moreover have "depth_of s \<le> 16 \<Longrightarrow> s \<le> U32_MAX"
    by (simp add: depth_of_def U32_MAX_def) 
  ultimately show ?thesis
    by (auto simp: require_shard_id_def require_nonneg_def bnd_ensure shard_ok_def Let_def
        SHARD_MAX_DEPTH_def SHARD_ID_DEPTH_SHIFT_def drop_bit_eq_div path_of_def depth_of_def)
qed

lemma decode_shard_id_eq:
  "decode_shard_id s = (if shard_ok s then Inr (depth_of s, path_of s) else Inl ValueError)"
  by (simp add: decode_shard_id_def require_shard_id_eq SHARD_ID_DEPTH_SHIFT_def drop_bit_eq_div
      depth_of_def path_of_def)

lemma encode_shard_id_eq:
  "encode_shard_id d p =
     (if 0 \<le> d \<and> d \<le> 16 \<and> 0 \<le> p \<and> p < 2 ^ nat d then Inr (d * 65536 + p) else Inl ValueError)"
  using pow2_depth_le [of d] push_bit_or_add [of p 16 d]
  by (auto simp: encode_shard_id_def require_nonneg_def bnd_ensure SHARD_MAX_DEPTH_def
      SHARD_ID_DEPTH_SHIFT_def not_less not_le)

section \<open>Cylinders\<close>

definition cylinder :: "int \<Rightarrow> int set" where
  "cylinder s = {x. 0 \<le> x \<and> x < 65536 \<and> x mod 2 ^ nat (depth_of s) = path_of s}"

definition anc :: "int \<Rightarrow> int \<Rightarrow> bool" where
  "anc a s \<longleftrightarrow> (\<exists>d. 0 \<le> d \<and> d < depth_of s \<and> a = d * 65536 + path_of s mod 2 ^ nat d)"

lemma cylinder_sub: "cylinder s \<subseteq> {0..<65536}"
  by (auto simp: cylinder_def)

lemma finite_cylinder [simp]: "finite (cylinder s)"
  using cylinder_sub finite_subset by blast

lemma path_in_cylinder: "shard_ok s \<Longrightarrow> path_of s \<in> cylinder s"
  by (simp add: cylinder_def shard_ok_def path_of_def)

lemma mod_pow2_mod:
  fixes x :: int
  assumes "m \<le> n"
  shows "x mod 2 ^ n mod 2 ^ m = x mod 2 ^ m"
  using assms by (simp add: le_imp_power_dvd mod_mod_cancel)

lemma pow2_split:
  assumes "0 \<le> d" and "d \<le> 16"
  shows "(2::int) ^ nat d * 2 ^ nat (16 - d) = 65536"
proof -
  have "nat d + nat (16 - d) = 16" using assms by simp
  then have "(2::int) ^ nat d * 2 ^ nat (16 - d) = 2 ^ 16" by (simp flip: power_add)
  then show ?thesis by simp
qed

lemma cylinder_image:
  assumes "shard_ok s"
  shows "cylinder s = (\<lambda>k. path_of s + 2 ^ nat (depth_of s) * k) ` {0..<2 ^ nat (16 - depth_of s)}"
    (is "_ = ?f ` ?K")
proof
  have d: "0 \<le> depth_of s" "depth_of s \<le> 16" "path_of s < 2 ^ nat (depth_of s)"
    using assms by (auto simp: shard_ok_def)
  let ?m = "(2::int) ^ nat (depth_of s)"
  have m: "0 < ?m" "?m * 2 ^ nat (16 - depth_of s) = 65536" using d by (simp_all add: pow2_split)
  show "cylinder s \<subseteq> ?f ` ?K"
  proof
    fix x assume "x \<in> cylinder s"
    then have x: "0 \<le> x" "x < 65536" "x mod ?m = path_of s" by (auto simp: cylinder_def)
    have "x = ?f (x div ?m)" using x(3) by (metis add.commute mult_div_mod_eq)
    moreover have "x div ?m < 2 ^ nat (16 - depth_of s)"
      by (rule ccontr) (use x m mult_left_mono [of "2 ^ nat (16 - depth_of s)" "x div ?m" ?m]
        mult_div_mod_eq [of ?m x] path_of_nonneg [of s] in \<open>simp add: not_less\<close>)
    moreover have "0 \<le> x div ?m" using x m by (simp add: pos_imp_zdiv_nonneg_iff)
    ultimately show "x \<in> ?f ` ?K" by (metis atLeastLessThan_iff image_eqI)
  qed
  show "?f ` ?K \<subseteq> cylinder s"
  proof
    fix x assume "x \<in> ?f ` ?K"
    then obtain k where k: "0 \<le> k" "k < 2 ^ nat (16 - depth_of s)" "x = path_of s + ?m * k" by auto
    have "?m * (k + 1) \<le> 65536"
      using k(2) m by (metis add1_zle_eq less_imp_le mult_left_mono)
    moreover have "0 \<le> ?m * k" using k m by simp
    moreover have "x mod ?m = path_of s" using k d by simp
    ultimately show "x \<in> cylinder s" using k(3) d by (auto simp: cylinder_def algebra_simps)
  qed
qed

lemma card_cylinder:
  assumes "shard_ok s"
  shows "int (card (cylinder s)) = 2 ^ nat (16 - depth_of s)"
proof -
  have "inj_on (\<lambda>k. path_of s + (2::int) ^ nat (depth_of s) * k) {0..<2 ^ nat (16 - depth_of s)}"
    by (auto simp: inj_on_def)
  then have "card (cylinder s) = card {0..<(2::int) ^ nat (16 - depth_of s)}"
    using cylinder_image [OF assms] by (simp add: card_image)
  then show ?thesis by simp
qed

lemma ancestor_less:
  assumes "shard_ok s" and "anc a s"
  shows "a < s"
proof -
  from assms(2) obtain d where d: "0 \<le> d" "d < depth_of s" "a = d * 65536 + path_of s mod 2 ^ nat d"
    by (auto simp: anc_def)
  have "path_of s mod 2 ^ nat d \<le> path_of s" by (simp add: zmod_le_nonneg_dividend)
  moreover have "d + 1 \<le> depth_of s" using d by simp
  moreover have "path_of s < 65536" by (simp add: path_of_def)
  ultimately show ?thesis using d id_fields [of s] by linarith
qed

lemma anc_iff:
  assumes "shard_ok a" and "shard_ok s"
  shows "anc a s \<longleftrightarrow> depth_of a < depth_of s \<and> path_of s mod 2 ^ nat (depth_of a) = path_of a"
proof
  assume "anc a s"
  then obtain d where d: "0 \<le> d" "d < depth_of s" "a = d * 65536 + path_of s mod 2 ^ nat d"
    by (auto simp: anc_def)
  have "path_of s mod 2 ^ nat d < 65536"
    using d assms(2) pow2_depth_le [of d] by (simp add: shard_ok_def) (smt (verit) pos_mod_bound zero_less_power)
  then show "depth_of a < depth_of s \<and> path_of s mod 2 ^ nat (depth_of a) = path_of a"
    using d by (simp add: fields_of_pack)
next
  assume "depth_of a < depth_of s \<and> path_of s mod 2 ^ nat (depth_of a) = path_of a"
  then show "anc a s" using assms id_fields [of a]
    unfolding anc_def by (intro exI [of _ "depth_of a"]) (auto simp: shard_ok_def)
qed

lemma cylinder_subset_or_disjoint:
  assumes "depth_of a \<le> depth_of s"
  shows "x \<in> cylinder a \<Longrightarrow> x \<in> cylinder s \<Longrightarrow> path_of s mod 2 ^ nat (depth_of a) = path_of a"
    and "path_of s mod 2 ^ nat (depth_of a) = path_of a \<Longrightarrow> cylinder s \<subseteq> cylinder a"
  using mod_pow2_mod [OF nat_mono [OF assms]] by (auto simp: cylinder_def dest: sym)

lemma cylinders_disjoint_iff:
  assumes "shard_ok a" and "shard_ok s" and "a \<noteq> s"
  shows "cylinder a \<inter> cylinder s = {} \<longleftrightarrow> \<not> anc a s \<and> \<not> anc s a"
proof -
  have *: "cylinder b \<inter> cylinder t = {} \<longleftrightarrow> \<not> anc b t"
    if "shard_ok b" "shard_ok t" "b \<noteq> t" "depth_of b \<le> depth_of t" for b t
  proof (cases "path_of t mod 2 ^ nat (depth_of b) = path_of b")
    case True
    then have "cylinder t \<subseteq> cylinder b" using that(4) by (intro cylinder_subset_or_disjoint(2))
    then have ne: "cylinder b \<inter> cylinder t \<noteq> {}" using path_in_cylinder [OF that(2)] by blast
    have "depth_of b \<noteq> depth_of t"
    proof
      assume e: "depth_of b = depth_of t"
      then have "path_of b = path_of t" using True that(2) by (simp add: shard_ok_def)
      then show False using e that(3) id_fields by metis
    qed
    then show ?thesis using ne True that by (simp add: anc_iff)
  next
    case False
    then have "cylinder b \<inter> cylinder t = {}"
      using cylinder_subset_or_disjoint(1) [OF that(4)] by blast
    then show ?thesis using False that by (simp add: anc_iff)
  qed
  show ?thesis
  proof (cases "depth_of a \<le> depth_of s")
    case True
    then show ?thesis using * [of a s] assms anc_iff [of s a] by auto
  next
    case False
    then show ?thesis using * [of s a] assms anc_iff [of a s] by auto
  qed
qed

section \<open>The tree invariant\<close>

text \<open>
  The abstract view: strictly ascending well-formed leaves whose cylinders partition the 16-bit
  suffixes.
\<close>

definition tree_ok :: "int list \<Rightarrow> bool" where
  "tree_ok leaves \<longleftrightarrow> sorted_wrt (<) leaves \<and> (\<forall>s \<in> set leaves. shard_ok s)
     \<and> (\<forall>a \<in> set leaves. \<forall>b \<in> set leaves. a \<noteq> b \<longrightarrow> cylinder a \<inter> cylinder b = {})
     \<and> (\<Union>s \<in> set leaves. cylinder s) = {0..<65536}"

lemma check_overlap_ok:
  assumes "shard_ok s"
  shows "(\<exists>u. each (check_overlap (path_of s) seen) (map int [0..<nat (depth_of s)]) = Inr u)
    \<longleftrightarrow> (\<forall>a. anc a s \<longrightarrow> a \<notin> seen)"
proof -
  have eq: "check_overlap (path_of s) seen (int i) =
      ensure (int i * 65536 + path_of s mod 2 ^ i \<notin> seen) ValueError" if "i < nat (depth_of s)" for i
  proof -
    have "i \<le> 16" using that assms unfolding shard_ok_def by linarith
    then show ?thesis by (simp add: check_overlap_def encode_shard_id_eq)
  qed
  have "(\<exists>u. each (check_overlap (path_of s) seen) (map int xs) = Inr u) \<longleftrightarrow>
      (\<forall>i \<in> set xs. int i * 65536 + path_of s mod 2 ^ i \<notin> seen)"
    if "\<forall>i \<in> set xs. i < nat (depth_of s)" for xs
    using that by (induction xs) (auto simp: bnd_Inr_iff eq)
  then have "(\<exists>u. each (check_overlap (path_of s) seen) (map int [0..<nat (depth_of s)]) = Inr u)
      \<longleftrightarrow> (\<forall>i < nat (depth_of s). int i * 65536 + path_of s mod 2 ^ i \<notin> seen)"
    by (simp add: Ball_def)
  also have "\<dots> \<longleftrightarrow> (\<forall>a. anc a s \<longrightarrow> a \<notin> seen)"
  proof (intro iffI allI impI)
    fix a assume "\<forall>i < nat (depth_of s). int i * 65536 + path_of s mod 2 ^ i \<notin> seen" "anc a s"
    then show "a \<notin> seen" by (auto simp: anc_def) (metis int_nat_eq nat_mono_iff order_le_less_trans)
  next
    fix i assume "\<forall>a. anc a s \<longrightarrow> a \<notin> seen" "i < nat (depth_of s)"
    then show "int i * 65536 + path_of s mod 2 ^ i \<notin> seen"
      by (auto simp: anc_def intro!: exI [of _ "int i"])
  qed
  finally show ?thesis .
qed

lemma partition_loop_ok:
  "sorted_wrt (<) ls \<Longrightarrow> partition_loop ls seen cov = Inr c \<longleftrightarrow>
     (\<forall>s \<in> set ls. shard_ok s \<and> (\<forall>a. anc a s \<longrightarrow> a \<notin> seen \<union> set ls))
     \<and> c = cov + (\<Sum>s\<leftarrow>ls. 2 ^ nat (16 - depth_of s))"
proof (induction ls arbitrary: seen cov)
  case Nil
  then show ?case by auto
next
  case (Cons s ls)
  show ?case
  proof (cases "shard_ok s")
    case False
    then show ?thesis by (simp add: decode_shard_id_eq)
  next
    case True
    have own: "\<not> anc a s" if "a \<in> insert s (set ls)" for a
      using ancestor_less [OF True, of a] that Cons.prems by auto
    have "partition_loop (s # ls) seen cov = Inr c \<longleftrightarrow>
        (\<exists>u. each (check_overlap (path_of s) seen) (map int [0..<nat (depth_of s)]) = Inr u) \<and>
        partition_loop ls (insert s seen) (cov + 2 ^ nat (16 - depth_of s)) = Inr c"
      using True by (auto simp: decode_shard_id_eq bnd_Inr_iff SHARD_MAX_DEPTH_def)
    also have "\<dots> \<longleftrightarrow> (\<forall>a. anc a s \<longrightarrow> a \<notin> seen) \<and>
        (\<forall>t \<in> set ls. shard_ok t \<and> (\<forall>a. anc a t \<longrightarrow> a \<notin> insert s seen \<union> set ls))
        \<and> c = cov + 2 ^ nat (16 - depth_of s) + (\<Sum>s\<leftarrow>ls. 2 ^ nat (16 - depth_of s))"
      using check_overlap_ok [OF True] Cons.IH Cons.prems by simp
    finally show ?thesis using True own by auto
  qed
qed

lemma strict_sorted_iff': "sort xs = xs \<and> card (set xs) = length xs \<longleftrightarrow> sorted_wrt (<) (xs :: int list)"
  by (metis card_distinct distinct_card sorted_sort sorted_sort_id strict_sorted_iff)

lemma partition_cards:
  assumes "distinct ls" and "\<forall>s \<in> set ls. shard_ok s"
    and "\<forall>a \<in> set ls. \<forall>b \<in> set ls. a \<noteq> b \<longrightarrow> cylinder a \<inter> cylinder b = {}"
  shows "(\<Sum>s\<leftarrow>ls. 2 ^ nat (16 - depth_of s)) = (65536 :: int) \<longleftrightarrow>
    (\<Union>s \<in> set ls. cylinder s) = {0..<65536}"
proof -
  let ?U = "\<Union>s \<in> set ls. cylinder s"
  have "(\<Sum>s\<leftarrow>ls. 2 ^ nat (16 - depth_of s)) = (\<Sum>s \<in> set ls. int (card (cylinder s)))"
    using assms(1,2) by (simp add: sum_list_distinct_conv_sum_set card_cylinder)
  also have "\<dots> = int (card ?U)"
    using assms(3) by (subst card_UN_disjoint) auto
  finally have sum: "(\<Sum>s\<leftarrow>ls. 2 ^ nat (16 - depth_of s)) = int (card ?U)" .
  have sub: "?U \<subseteq> {0..<65536}" using cylinder_sub by blast
  have "card ?U = 65536 \<longleftrightarrow> ?U = {0..<65536}"
    using card_subset_eq [OF _ sub] by auto
  then show ?thesis using sum by simp
qed

lemma ShardTree_eq:
  "ShardTree leaves = Inr t \<longleftrightarrow> t = \<lparr>leaf_shard_ids = leaves\<rparr> \<and> tree_ok leaves"
proof (cases "sorted_wrt (<) leaves")
  case False
  then have "\<not> (sort leaves = leaves \<and> card (set leaves) = length leaves)"
    using strict_sorted_iff' by blast
  then have "ShardTree leaves \<noteq> Inr t"
    by (auto simp: ShardTree_def validate_leaf_partition_def bnd_Inr_iff)
  then show ?thesis using False by (simp add: tree_ok_def)
next
  case True
  have "ShardTree leaves = Inr t \<longleftrightarrow> t = \<lparr>leaf_shard_ids = leaves\<rparr> \<and> leaves \<noteq> [] \<and>
      partition_loop leaves {} 0 = Inr 65536"
    using True strict_sorted_iff' [of leaves]
    by (auto simp: ShardTree_def validate_leaf_partition_def bnd_Inr_iff SHARD_MAX_DEPTH_def)
  also have "\<dots> \<longleftrightarrow> t = \<lparr>leaf_shard_ids = leaves\<rparr> \<and> tree_ok leaves"
  proof (cases "\<forall>s \<in> set leaves. shard_ok s")
    case False
    then show ?thesis using True by (auto simp: partition_loop_ok tree_ok_def)
  next
    case ok: True
    have dis: "distinct leaves" using True by (simp add: strict_sorted_iff)
    have no_anc: "(\<forall>s \<in> set leaves. \<forall>a. anc a s \<longrightarrow> a \<notin> set leaves) \<longleftrightarrow>
      (\<forall>a \<in> set leaves. \<forall>b \<in> set leaves. a \<noteq> b \<longrightarrow> cylinder a \<inter> cylinder b = {})"
      using ok cylinders_disjoint_iff by (metis ancestor_less less_irrefl)
    have "partition_loop leaves {} 0 = Inr 65536 \<longleftrightarrow> tree_ok leaves"
      using partition_loop_ok [OF True, of "{}" 0 65536] ok no_anc partition_cards [OF dis ok] True
      unfolding tree_ok_def by auto
    moreover have "leaves \<noteq> []" if "tree_ok leaves" using that by (auto simp: tree_ok_def)
    ultimately show ?thesis by blast
  qed
  finally show ?thesis .
qed

section \<open>Routing\<close>

lemma route_loop_Inr:
  "\<forall>s \<in> set ls. shard_ok s \<Longrightarrow> \<exists>s \<in> set ls. path_of s = x mod 2 ^ nat (depth_of s) \<Longrightarrow>
   \<exists>s \<in> set ls. route_loop x ls = Inr s \<and> path_of s = x mod 2 ^ nat (depth_of s)"
  by (induction ls) (auto simp: decode_shard_id_eq)

lemma cylinder_suffix:
  "shard_ok s \<Longrightarrow> 0 \<le> x \<Longrightarrow> x mod 65536 \<in> cylinder s \<longleftrightarrow> path_of s = x mod 2 ^ nat (depth_of s)"
  using mod_pow2_mod [of "nat (depth_of s)" 16 x] by (auto simp: cylinder_def shard_ok_def)

lemma route_tx_spec:
  assumes "tree_ok (leaf_shard_ids t)" and "length h = HASH_LEN_BYTES"
  shows "\<exists>!s. s \<in> leaf_set t \<and> from_le h mod 65536 \<in> cylinder s"
    and "\<exists>s. route_tx t h = Inr s \<and> s \<in> leaf_set t \<and> from_le h mod 65536 \<in> cylinder s"
proof -
  let ?x = "from_le h"
  have ok: "\<forall>s \<in> set (leaf_shard_ids t). shard_ok s" using assms(1) by (simp add: tree_ok_def)
  have "?x mod 65536 \<in> (\<Union>s \<in> set (leaf_shard_ids t). cylinder s)"
    using assms(1) by (simp add: tree_ok_def)
  then obtain s where s: "s \<in> leaf_set t" "?x mod 65536 \<in> cylinder s"
    by (auto simp: leaf_set_def)
  show "\<exists>!s. s \<in> leaf_set t \<and> ?x mod 65536 \<in> cylinder s"
    using s assms(1) unfolding tree_ok_def leaf_set_def by blast
  have "\<exists>s \<in> set (leaf_shard_ids t). path_of s = ?x mod 2 ^ nat (depth_of s)"
    using s ok cylinder_suffix [of s ?x] by (auto simp: leaf_set_def)
  from route_loop_Inr [OF ok this] show
    "\<exists>s. route_tx t h = Inr s \<and> s \<in> leaf_set t \<and> ?x mod 65536 \<in> cylinder s"
    using ok cylinder_suffix [of _ ?x] assms(2)
    by (auto simp: route_tx_def leaf_set_def bnd_require_hash_len)
qed

section \<open>Split and merge\<close>

definition left_child :: "int \<Rightarrow> int" where "left_child s = s + 65536"
definition right_child :: "int \<Rightarrow> int" where "right_child s = s + 65536 + 2 ^ nat (depth_of s)"

lemma child_fields:
  assumes "shard_ok s" and "depth_of s < 16"
  shows "depth_of (left_child s) = depth_of s + 1" "path_of (left_child s) = path_of s"
    and "depth_of (right_child s) = depth_of s + 1"
    and "path_of (right_child s) = path_of s + 2 ^ nat (depth_of s)"
    and "shard_ok (left_child s)" "shard_ok (right_child s)"
proof -
  let ?m = "(2::int) ^ nat (depth_of s)"
  have s: "0 \<le> depth_of s" "path_of s < ?m" using assms(1) by (auto simp: shard_ok_def)
  have m: "nat (depth_of s + 1) = Suc (nat (depth_of s))" using s by simp
  have le: "2 * ?m \<le> 65536" using pow2_depth_le [of "depth_of s + 1"] s assms(2) m by simp
  have l: "left_child s = (depth_of s + 1) * 65536 + path_of s"
    using id_fields [of s] by (simp add: left_child_def algebra_simps)
  have r: "right_child s = (depth_of s + 1) * 65536 + (path_of s + ?m)"
    using id_fields [of s] by (simp add: right_child_def algebra_simps)
  show "depth_of (left_child s) = depth_of s + 1" "path_of (left_child s) = path_of s"
    unfolding l using s le by (subst fields_of_pack; simp)+
  show "depth_of (right_child s) = depth_of s + 1" "path_of (right_child s) = path_of s + ?m"
    unfolding r using s le by (subst fields_of_pack; simp)+
  have "path_of s < 2 * ?m" using s path_of_nonneg [of s] by linarith
  then show "shard_ok (left_child s)" unfolding l using s assms(2) m
    by (intro shard_ok_pack) auto
  show "shard_ok (right_child s)" unfolding r using s assms(2) m
    by (intro shard_ok_pack) auto
qed

lemma child_shard_ids_eq:
  "child_shard_ids s = (if shard_ok s \<and> depth_of s < 16
     then Inr (left_child s, right_child s) else Inl ValueError)"
proof (cases "shard_ok s \<and> depth_of s < 16")
  case True
  let ?n = "nat (depth_of s)"
  have s: "0 \<le> depth_of s" "path_of s < 2 ^ ?n" using True by (auto simp: shard_ok_def)
  have n: "nat (depth_of s + 1) = Suc ?n" using s by simp
  have o: "path_of s OR push_bit ?n 1 = path_of s + 2 ^ ?n"
    using push_bit_or_add [of "path_of s" ?n 1] s by (simp add: or.commute add.commute)
  have "path_of s < 2 * 2 ^ ?n" using s path_of_nonneg [of s] by linarith
  then have "encode_shard_id (depth_of s + 1) (path_of s) = Inr (left_child s)"
    using s True n id_fields [of s] by (simp add: encode_shard_id_eq left_child_def algebra_simps)
  moreover have "encode_shard_id (depth_of s + 1) (path_of s + 2 ^ ?n) = Inr (right_child s)"
    using s True n id_fields [of s] by (simp add: encode_shard_id_eq right_child_def algebra_simps)
  ultimately show ?thesis
    using True o by (simp add: child_shard_ids_def decode_shard_id_eq SHARD_MAX_DEPTH_def)
next
  case False
  then show ?thesis
    by (auto simp: child_shard_ids_def decode_shard_id_eq SHARD_MAX_DEPTH_def bnd_ensure)
qed

lemma parent_of_child:
  assumes "shard_ok s" and "depth_of s < 16"
  shows "parent_shard_id (left_child s) = Inr s" "parent_shard_id (right_child s) = Inr s"
  using assms child_fields [OF assms] id_fields [of s]
  by (auto simp: parent_shard_id_def decode_shard_id_eq encode_shard_id_eq shard_ok_def)

lemma cylinder_children:
  assumes "shard_ok s" and "depth_of s < 16"
  shows "cylinder (left_child s) \<union> cylinder (right_child s) = cylinder s"
    and "cylinder (left_child s) \<inter> cylinder (right_child s) = {}"
proof -
  let ?n = "nat (depth_of s)"
  have s: "0 \<le> depth_of s" "path_of s < 2 ^ ?n" using assms(1) by (auto simp: shard_ok_def)
  have n: "nat (depth_of s + 1) = Suc ?n" using s by simp
  have "x mod 2 ^ Suc ?n = path_of s \<or> x mod 2 ^ Suc ?n = path_of s + 2 ^ ?n
      \<longleftrightarrow> x mod 2 ^ ?n = path_of s" for x :: int
  proof -
    let ?y = "x mod 2 ^ Suc ?n"
    have y: "0 \<le> ?y" "?y < 2 * 2 ^ ?n" by simp_all
    have "?y mod 2 ^ ?n = (if ?y < 2 ^ ?n then ?y else ?y - 2 ^ ?n)"
    proof (cases "?y < 2 ^ ?n")
      case False
      then have "(?y - 2 ^ ?n) mod 2 ^ ?n = ?y - 2 ^ ?n" using y by (intro mod_pos_pos_trivial) auto
      then show ?thesis using False by (metis minus_mod_self2)
    qed (use y in simp)
    moreover have "?y mod 2 ^ ?n = x mod 2 ^ ?n" by (rule mod_pow2_mod) simp
    ultimately have z: "x mod 2 ^ ?n = (if ?y < 2 ^ ?n then ?y else ?y - 2 ^ ?n)" by simp
    have "(y = p \<or> y = p + m) \<longleftrightarrow> z = p"
      if "y < 2 * m" "z = (if y < m then y else y - m)" "0 \<le> p" "p < m" for y z p m :: int
      using that by auto
    from this [OF y(2) z path_of_nonneg s(2)] show ?thesis .
  qed
  then show "cylinder (left_child s) \<union> cylinder (right_child s) = cylinder s"
    using child_fields [OF assms] n by (auto simp: cylinder_def)
  show "cylinder (left_child s) \<inter> cylinder (right_child s) = {}"
    using child_fields [OF assms] n by (auto simp: cylinder_def)
qed


lemma tree_ok_by_set:
  assumes "finite S" and "\<forall>s \<in> S. shard_ok s"
    and "\<forall>a \<in> S. \<forall>b \<in> S. a \<noteq> b \<longrightarrow> cylinder a \<inter> cylinder b = {}"
    and "(\<Union>s \<in> S. cylinder s) = {0..<65536}"
  shows "tree_ok (sorted_list_of_set S)"
  using assms by (simp add: tree_ok_def)

lemma ShardTree_of_set:
  assumes "finite S" and "tree_ok (sorted_list_of_set S)"
  shows "\<exists>t. ShardTree (sorted_list_of_set S) = Inr t \<and> tree_ok (leaf_shard_ids t) \<and> leaf_set t = S"
  using assms by (simp add: ShardTree_eq leaf_set_def)

lemma ShardTree_sorted_list:
  assumes "tree_ok (leaf_shard_ids t)"
  shows "sorted_list_of_set (leaf_set t) = leaf_shard_ids t"
  using assms by (simp add: tree_ok_def leaf_set_def strict_sorted_iff sorted_list_of_set.idem_if_sorted_distinct)

lemma apply_split_spec:
  assumes ok: "tree_ok (leaf_shard_ids t)" and leaf: "s \<in> leaf_set t" and d: "depth_of s < 16"
  shows "\<exists>t'. apply_split t s = Inr t' \<and> tree_ok (leaf_shard_ids t')
    \<and> leaf_set t' = (leaf_set t - {s}) \<union> {left_child s, right_child s}"
proof -
  have s: "shard_ok s" using ok leaf by (simp add: tree_ok_def leaf_set_def)
  let ?L = "leaf_set t" and ?l = "left_child s" and ?r = "right_child s"
  let ?S = "(?L - {s}) \<union> {?l, ?r}"
  note cf = child_fields [OF s d] and cc = cylinder_children [OF s d]
  have fin: "finite ?S" by (simp add: leaf_set_def)
  have dis: "cylinder a \<inter> cylinder b = {}" if "a \<in> ?L" "b \<in> ?L" "a \<noteq> b" for a b
    using ok that by (simp add: tree_ok_def leaf_set_def)
  have "tree_ok (sorted_list_of_set ?S)"
  proof (rule tree_ok_by_set [OF fin])
    show "\<forall>s \<in> ?S. shard_ok s" using ok cf by (auto simp: tree_ok_def leaf_set_def)
    show "\<forall>a \<in> ?S. \<forall>b \<in> ?S. a \<noteq> b \<longrightarrow> cylinder a \<inter> cylinder b = {}"
    proof (intro ballI impI)
      fix a b assume ab: "a \<in> ?S" "b \<in> ?S" "a \<noteq> b"
      have child: "cylinder c \<subseteq> cylinder s" if "c \<in> {?l, ?r}" for c using that cc(1) by auto
      show "cylinder a \<inter> cylinder b = {}"
        using ab dis [of a b] dis [of a s] dis [of s b] child [of a] child [of b] leaf cc(2) by auto
    qed
    have "(\<Union>s \<in> ?L. cylinder s) = {0..<65536}" using ok by (simp add: tree_ok_def leaf_set_def)
    moreover have "(\<Union>x \<in> ?S. cylinder x) = (\<Union>x \<in> ?L - {s}. cylinder x) \<union> cylinder s" using cc(1) by auto
    ultimately show "(\<Union>x \<in> ?S. cylinder x) = {0..<65536}" using leaf by auto
  qed
  moreover have "apply_split t s = ShardTree (sorted_list_of_set ?S)"
    using s leaf d by (simp add: apply_split_def require_shard_id_eq child_shard_ids_eq)
  ultimately show ?thesis using ShardTree_of_set [OF fin] by simp
qed

lemma pack_child:
  assumes "shard_ok x" and "1 \<le> depth_of x"
  defines "s \<equiv> (depth_of x - 1) * 65536 + path_of x mod 2 ^ nat (depth_of x - 1)"
  shows "shard_ok s" "depth_of s = depth_of x - 1" "path_of s = path_of x mod 2 ^ nat (depth_of x - 1)"
    and "drop_bit (nat (depth_of x - 1)) (path_of x) = 0 \<Longrightarrow> x = left_child s"
    and "drop_bit (nat (depth_of x - 1)) (path_of x) = 1 \<Longrightarrow> x = right_child s"
proof -
  let ?n = "nat (depth_of x - 1)" and ?q = "path_of x mod 2 ^ nat (depth_of x - 1)"
  have x: "depth_of x \<le> 16" "1 \<le> depth_of x" using assms(1,2) by (auto simp: shard_ok_def)
  have q: "0 \<le> ?q" "?q < 2 ^ ?n" by simp_all
  have q': "?q < 65536" using q(2) pow2_depth_le [of "depth_of x - 1"] x by linarith
  show ok: "shard_ok s" unfolding s_def using x q by (intro shard_ok_pack) auto
  show d: "depth_of s = depth_of x - 1" and p: "path_of s = ?q"
    unfolding s_def using fields_of_pack [OF q(1) q'] by blast+
  have split: "path_of x = 2 ^ ?n * drop_bit ?n (path_of x) + ?q"
    by (simp add: drop_bit_eq_div)
  have "right_child s = s + 65536 + 2 ^ ?n" by (simp add: right_child_def d)
  moreover have "s = depth_of x * 65536 - 65536 + ?q" by (simp add: s_def)
  ultimately show "drop_bit ?n (path_of x) = 0 \<Longrightarrow> x = left_child s"
    and "drop_bit ?n (path_of x) = 1 \<Longrightarrow> x = right_child s"
    using id_fields [of x] split by (simp_all add: left_child_def)
qed

lemma siblings_children:
  assumes "require_sibling_shards sb = Inr (l, r)"
  shows "\<exists>s. shard_ok s \<and> depth_of s < 16 \<and> l = left_child s \<and> r = right_child s"
proof -
  obtain a b where sb: "sb = (a, b)" by force
  have A: "shard_ok a" "shard_ok b" "depth_of a = depth_of b" "depth_of a \<noteq> 0"
    "path_of a mod 2 ^ nat (depth_of a - 1) = path_of b mod 2 ^ nat (depth_of b - 1)"
    "{drop_bit (nat (depth_of a - 1)) (path_of a), drop_bit (nat (depth_of b - 1)) (path_of b)} = {0, 1}"
    "l = min a b" "r = max a b"
    using assms sb by (auto simp: require_sibling_shards_def decode_shard_id_eq bnd_Inr_iff Let_def
        split: if_splits)
  let ?s = "(depth_of a - 1) * 65536 + path_of a mod 2 ^ nat (depth_of a - 1)"
  have 1: "1 \<le> depth_of a" "1 \<le> depth_of b" "depth_of a \<le> 16" using A(1-4) by (auto simp: shard_ok_def)
  have s: "?s = (depth_of b - 1) * 65536 + path_of b mod 2 ^ nat (depth_of b - 1)"
    using A by simp
  note pa = pack_child [OF A(1) 1(1)] and pb = pack_child [OF A(2) 1(2), folded s]
  have "left_child ?s < right_child ?s" by (simp add: left_child_def right_child_def)
  then have "l = left_child ?s \<and> r = right_child ?s"
    using A(6-8) pa(4,5) pb(4,5) by (auto simp: doubleton_eq_iff)
  then show ?thesis using pa(1,2) 1 by (intro exI [of _ ?s]) auto
qed

lemma require_siblings_children:
  assumes "shard_ok s" and "depth_of s < 16"
  shows "require_sibling_shards (left_child s, right_child s) = Inr (left_child s, right_child s)"
proof -
  have s: "0 \<le> depth_of s" "path_of s < 2 ^ nat (depth_of s)" using assms(1) by (auto simp: shard_ok_def)
  then have "drop_bit (nat (depth_of s)) (path_of s) = 0"
    "drop_bit (nat (depth_of s)) (path_of s + 2 ^ nat (depth_of s)) = 1"
    by (simp_all add: drop_bit_eq_div div_pos_pos_trivial div_add_self2)
  moreover have "left_child s \<le> right_child s" "left_child s \<noteq> right_child s"
    by (simp_all add: left_child_def right_child_def)
  ultimately show ?thesis
    using child_fields [OF assms] s
    by (simp add: require_sibling_shards_def decode_shard_id_eq)
qed

lemma apply_merge_spec:
  assumes ok: "tree_ok (leaf_shard_ids t)" and s: "shard_ok s" "depth_of s < 16"
    and leaves: "left_child s \<in> leaf_set t" "right_child s \<in> leaf_set t"
    and sb: "require_sibling_shards sb = Inr (left_child s, right_child s)"
  shows "\<exists>t'. apply_merge t sb = Inr t' \<and> tree_ok (leaf_shard_ids t')
    \<and> leaf_set t' = (leaf_set t - {left_child s, right_child s}) \<union> {s}"
proof -
  let ?L = "leaf_set t" and ?l = "left_child s" and ?r = "right_child s"
  let ?S = "(?L - {?l, ?r}) \<union> {s}"
  note cc = cylinder_children [OF s]
  have fin: "finite ?S" by (simp add: leaf_set_def)
  have dis: "cylinder a \<inter> cylinder b = {}" if "a \<in> ?L" "b \<in> ?L" "a \<noteq> b" for a b
    using ok that by (simp add: tree_ok_def leaf_set_def)
  have "tree_ok (sorted_list_of_set ?S)"
  proof (rule tree_ok_by_set [OF fin])
    show "\<forall>s \<in> ?S. shard_ok s" using ok s by (auto simp: tree_ok_def leaf_set_def)
    show "\<forall>a \<in> ?S. \<forall>b \<in> ?S. a \<noteq> b \<longrightarrow> cylinder a \<inter> cylinder b = {}"
    proof (intro ballI impI)
      fix a b assume ab: "a \<in> ?S" "b \<in> ?S" "a \<noteq> b"
      have new: "cylinder c \<inter> cylinder s = {}" if "c \<in> ?L - {?l, ?r}" for c
        using that dis [of c ?l] dis [of c ?r] leaves cc(1) by blast
      show "cylinder a \<inter> cylinder b = {}"
        using ab dis [of a b] new [of a] new [of b] by (auto simp: Int_commute)
    qed
    have "(\<Union>s \<in> ?L. cylinder s) = {0..<65536}" using ok by (simp add: tree_ok_def leaf_set_def)
    moreover have "(\<Union>x \<in> ?S. cylinder x) = (\<Union>x \<in> ?L - {?l, ?r}. cylinder x) \<union> cylinder ?l \<union> cylinder ?r"
      using cc(1) by auto
    ultimately show "(\<Union>x \<in> ?S. cylinder x) = {0..<65536}" using leaves by auto
  qed
  moreover have "apply_merge t sb = ShardTree (sorted_list_of_set ?S)"
    using sb leaves parent_of_child [OF s] by (simp add: apply_merge_def)
  ultimately show ?thesis using ShardTree_of_set [OF fin] by simp
qed


section \<open>Batches of operations\<close>

lemma apply_operation_keeps_ok:
  assumes "tree_ok (leaf_shard_ids t)" and "apply_operation t op = Inr t'"
  shows "tree_ok (leaf_shard_ids t')"
  using assms(2) by (cases op) (auto simp: apply_split_def apply_merge_def bnd_Inr_iff ShardTree_eq split: prod.splits)

text \<open>What an operation does to the set of leaves, and which operations of a batch are the first for their parent.\<close>

definition op_leaves :: "shard_op \<Rightarrow> int set \<Rightarrow> int set" where
  "op_leaves op L = (case operation_parent op of
     Inl _ \<Rightarrow> L
   | Inr s \<Rightarrow> (case op of
       ShardSplit _ \<Rightarrow> (L - {s}) \<union> {left_child s, right_child s}
     | ShardMerge _ \<Rightarrow> (L - {left_child s, right_child s}) \<union> {s}))"

definition repeats_parent :: "shard_op list \<Rightarrow> nat \<Rightarrow> bool" where
  "repeats_parent ops i \<longleftrightarrow> (\<exists>j < i. operation_parent (ops ! j) = operation_parent (ops ! i))"

definition first_ops :: "shard_op list \<Rightarrow> shard_op list" where
  "first_ops ops = map ((!) ops) (filter (\<lambda>i. \<not> repeats_parent ops i) [0..<length ops])"

definition later_ops :: "shard_op list \<Rightarrow> shard_op list" where
  "later_ops ops = map ((!) ops) (filter (repeats_parent ops) [0..<length ops])"

lemma apply_operation_leaves:
  assumes ok: "tree_ok (leaf_shard_ids t)" and op: "apply_operation t op = Inr t'"
  shows "leaf_set t' = op_leaves op (leaf_set t)"
proof (cases op)
  case (ShardSplit s)
  then have s: "s \<in> leaf_set t" "depth_of s < 16" "apply_split t s = Inr t'"
    using op by (auto simp: apply_split_def child_shard_ids_eq bnd_Inr_iff split: prod.splits if_splits)
  show ?thesis using apply_split_spec [OF ok s(1,2)] s(3) ShardSplit by (simp add: op_leaves_def)
next
  case (ShardMerge sb)
  then obtain l r where lr: "require_sibling_shards sb = Inr (l, r)" "l \<in> leaf_set t" "r \<in> leaf_set t" "apply_merge t sb = Inr t'"
    using op by (auto simp: apply_merge_def bnd_Inr_iff split: prod.splits)
  obtain s where s: "shard_ok s" "depth_of s < 16" "l = left_child s" "r = right_child s" using siblings_children [OF lr(1)] by blast
  have "fst sb = l \<or> fst sb = r"
    using lr(1) by (auto simp: require_sibling_shards_def bnd_Inr_iff Let_def min_def max_def split: prod.splits if_splits)
  then have "operation_parent op = Inr s" using parent_of_child [OF s(1,2)] ShardMerge s(3,4) by auto
  moreover have "leaf_set t' = (leaf_set t - {l, r}) \<union> {s}"
    using apply_merge_spec [OF ok s(1,2), folded s(3,4), OF lr(2,3,1)] lr(4) by auto
  ultimately show ?thesis using ShardMerge s(3,4) by (simp add: op_leaves_def)
qed

lemma ops_snoc:
  "first_ops (ops @ [op]) = first_ops ops @ (if operation_parent op \<in> operation_parent ` set ops then [] else [op])"
  "later_ops (ops @ [op]) = later_ops ops @ (if operation_parent op \<in> operation_parent ` set ops then [op] else [])"
proof -
  have e: "(ops @ [op]) ! j = ops ! j" if "j < length ops" for j using that by (simp add: nth_append)
  have old: "repeats_parent (ops @ [op]) i = repeats_parent ops i" if "i < length ops" for i
    unfolding repeats_parent_def by (metis e less_trans that)
  have new: "repeats_parent (ops @ [op]) (length ops) \<longleftrightarrow> operation_parent op \<in> operation_parent ` set ops"
  proof -
    have "repeats_parent (ops @ [op]) (length ops) \<longleftrightarrow> (\<exists>j < length ops. operation_parent (ops ! j) = operation_parent op)"
      unfolding repeats_parent_def nth_append_length by (metis e)
    also have "\<dots> \<longleftrightarrow> (\<exists>x \<in> set ops. operation_parent x = operation_parent op)" by (metis in_set_conv_nth)
    finally show ?thesis by (metis image_iff)
  qed
  have map: "map ((!) (ops @ [op])) (filter P [0..<length ops]) = map ((!) ops) (filter P [0..<length ops])" for P
    by (auto simp: nth_append)
  have filter: "filter (\<lambda>i. \<not> repeats_parent (ops @ [op]) i) [0..<length ops] = filter (\<lambda>i. \<not> repeats_parent ops i) [0..<length ops]"
    "filter (repeats_parent (ops @ [op])) [0..<length ops] = filter (repeats_parent ops) [0..<length ops]"
    using old by (auto intro: filter_cong)
  show "first_ops (ops @ [op]) = first_ops ops @ (if operation_parent op \<in> operation_parent ` set ops then [] else [op])"
    "later_ops (ops @ [op]) = later_ops ops @ (if operation_parent op \<in> operation_parent ` set ops then [op] else [])"
    by (simp_all add: first_ops_def later_ops_def filter map new nth_append)
qed

text \<open>The loop over a batch, after the operations \<open>pre\<close>.\<close>

lemma operations_loop_exact:
  "operations_loop ops t used (first_ops pre) (later_ops pre) = Inr (t', ap, qu) \<Longrightarrow> tree_ok (leaf_shard_ids t) \<Longrightarrow>
   used = {p. Inr p \<in> operation_parent ` set pre} \<Longrightarrow> leaf_set t = fold op_leaves (first_ops pre) L \<Longrightarrow>
   tree_ok (leaf_shard_ids t') \<and> ap = first_ops (pre @ ops) \<and> qu = later_ops (pre @ ops) \<and> leaf_set t' = fold op_leaves ap L"
proof (induction ops arbitrary: t used pre)
  case (Cons op ops)
  obtain p where p: "operation_parent op = Inr p" using Cons.prems(1) by (auto simp: bnd_Inr_iff)
  have seen: "p \<in> used \<longleftrightarrow> operation_parent op \<in> operation_parent ` set pre" using Cons.prems(3) p by simp
  have used: "insert p used = {q. Inr q \<in> operation_parent ` set (pre @ [op])}" using Cons.prems(3) p by auto
  show ?case
  proof (cases "p \<in> used")
    case True
    then have "operations_loop ops t used (first_ops (pre @ [op])) (later_ops (pre @ [op])) = Inr (t', ap, qu)"
      using Cons.prems(1) p seen by (simp add: ops_snoc)
    moreover have "used = {q. Inr q \<in> operation_parent ` set (pre @ [op])}" using used True by (simp add: insert_absorb)
    ultimately show ?thesis using Cons.IH [of t used "pre @ [op]"] Cons.prems(2,4) True seen by (simp add: ops_snoc)
  next
    case False
    then obtain t1 where t1: "apply_operation t op = Inr t1"
      "operations_loop ops t1 (insert p used) (first_ops (pre @ [op])) (later_ops (pre @ [op])) = Inr (t', ap, qu)"
      using Cons.prems(1) p seen by (auto simp: bnd_Inr_iff ops_snoc)
    have "leaf_set t1 = fold op_leaves (first_ops (pre @ [op])) L"
      using apply_operation_leaves [OF Cons.prems(2) t1(1)] Cons.prems(4) False seen by (simp add: ops_snoc)
    then show ?thesis using Cons.IH [OF t1(2) apply_operation_keeps_ok [OF Cons.prems(2) t1(1)] used] by simp
  qed
qed simp

lemma operations_loop_spec:
  "operations_loop ops t used ap qu = Inr (t', ap', qu') \<Longrightarrow> tree_ok (leaf_shard_ids t) \<Longrightarrow>
   tree_ok (leaf_shard_ids t') \<and> mset ap' + mset qu' = mset ap + mset qu + mset ops"
proof (induction ops arbitrary: t used ap qu)
  case Nil
  then show ?case by simp
next
  case (Cons op ops)
  from Cons.prems obtain p where p: "operation_parent op = Inr p" by (auto simp: bnd_Inr_iff)
  show ?case
  proof (cases "p \<in> used")
    case True
    then show ?thesis using Cons.IH [of t used ap "qu @ [op]"] Cons.prems p by simp
  next
    case False
    then obtain t1 where t1: "apply_operation t op = Inr t1"
      and l: "operations_loop ops t1 (insert p used) (ap @ [op]) qu = Inr (t', ap', qu')"
      using Cons.prems p by (auto simp: bnd_Inr_iff)
    then show ?thesis
      using Cons.IH [OF l] apply_operation_keeps_ok [OF Cons.prems(2) t1] by simp
  qed
qed

lemma operations_loop_parents:
  "operations_loop ops t used ap qu = Inr (t', ap', qu') \<Longrightarrow>
   \<exists>new. ap' = ap @ new \<and> distinct (map operation_parent new)
     \<and> (\<forall>op \<in> set new. \<exists>p. operation_parent op = Inr p \<and> p \<notin> used)
     \<and> (\<forall>op \<in> set qu'. op \<in> set qu \<or> (\<exists>p. operation_parent op = Inr p
          \<and> (p \<in> used \<or> (\<exists>a \<in> set new. operation_parent a = Inr p))))"
proof (induction ops arbitrary: t used ap qu)
  case Nil
  then show ?case by auto
next
  case (Cons op ops)
  from Cons.prems obtain p where p: "operation_parent op = Inr p" by (auto simp: bnd_Inr_iff)
  show ?case
  proof (cases "p \<in> used")
    case True
    then have "operations_loop ops t used ap (qu @ [op]) = Inr (t', ap', qu')" using Cons.prems p by simp
    from Cons.IH [OF this] obtain new where "ap' = ap @ new" "distinct (map operation_parent new)"
      "\<forall>op \<in> set new. \<exists>q. operation_parent op = Inr q \<and> q \<notin> used"
      "\<forall>o' \<in> set qu'. o' \<in> set (qu @ [op]) \<or> (\<exists>q. operation_parent o' = Inr q
          \<and> (q \<in> used \<or> (\<exists>a \<in> set new. operation_parent a = Inr q)))"
      by blast
    then show ?thesis using p True by (intro exI [of _ new]) auto
  next
    case False
    then obtain t1 where
      "operations_loop ops t1 (insert p used) (ap @ [op]) qu = Inr (t', ap', qu')"
      using Cons.prems p by (auto simp: bnd_Inr_iff)
    from Cons.IH [OF this] obtain new where new: "ap' = (ap @ [op]) @ new"
      "distinct (map operation_parent new)"
      "\<forall>op \<in> set new. \<exists>q. operation_parent op = Inr q \<and> q \<notin> insert p used"
      "\<forall>o' \<in> set qu'. o' \<in> set qu \<or> (\<exists>q. operation_parent o' = Inr q
          \<and> (q \<in> insert p used \<or> (\<exists>a \<in> set new. operation_parent a = Inr q)))"
      by blast
    have d: "distinct (map operation_parent (op # new))" using new(2,3) p by auto
    have f: "\<forall>o' \<in> set (op # new). \<exists>q. operation_parent o' = Inr q \<and> q \<notin> used"
      using new(3) p False by auto
    have q: "\<forall>o' \<in> set qu'. o' \<in> set qu \<or> (\<exists>q. operation_parent o' = Inr q
          \<and> (q \<in> used \<or> (\<exists>a \<in> set (op # new). operation_parent a = Inr q)))"
    proof
      fix o' assume "o' \<in> set qu'"
      with new(4) consider "o' \<in> set qu" | "operation_parent o' = Inr p"
        | q where "operation_parent o' = Inr q" "q \<in> used \<or> (\<exists>a \<in> set new. operation_parent a = Inr q)"
        by blast
      then show "o' \<in> set qu \<or> (\<exists>q. operation_parent o' = Inr q
          \<and> (q \<in> used \<or> (\<exists>a \<in> set (op # new). operation_parent a = Inr q)))"
        using p by cases auto
    qed
    show ?thesis using new(1) d f q by (intro exI [of _ "op # new"]) simp
  qed
qed


section \<open>The wire format\<close>

interpretation shard_id_fmt: wire_format "to_bytes 4" "rd_uint ShardTreeDecodeError 4" "\<lambda>v. 0 \<le> v \<and> v < 256 ^ 4"
  using wire_uint [of 4 ShardTreeDecodeError] by simp

lemma leaf_count_le:
  assumes "tree_ok leaves"
  shows "length leaves \<le> 65536"
proof -
  have d: "distinct leaves" and ok: "\<forall>s \<in> set leaves. shard_ok s"
    using assms by (auto simp: tree_ok_def strict_sorted_iff)
  have "int (length leaves) = (\<Sum>s \<leftarrow> leaves. 1)" by (simp add: sum_list_triv)
  also have "\<dots> \<le> (\<Sum>s \<leftarrow> leaves. 2 ^ nat (16 - depth_of s))" by (rule sum_list_mono) simp
  also have "\<dots> = 65536" using assms partition_cards [OF d ok] unfolding tree_ok_def by blast
  finally show ?thesis by simp
qed

lemma shard_ok_range: "shard_ok s \<Longrightarrow> 0 \<le> s \<and> s < 256 ^ 4"
  using id_fields [of s] path_of_nonneg [of s] by (auto simp: shard_ok_def path_of_def)

lemma serialize_tree_eq:
  assumes "tree_ok (leaf_shard_ids t)"
  shows "serialize_tree t = Inr (le_bytes 4 (int (length (leaf_shard_ids t))) @
    concat (map (le_bytes 4) (leaf_shard_ids t)))"
proof -
  have "each (to_bytes 4) (leaf_shard_ids t) = Inr (map (le_bytes 4) (leaf_shard_ids t))"
    using assms shard_ok_range by (intro each_Inr_all to_bytes_ok) (auto simp: tree_ok_def)
  then show ?thesis
    using leaf_count_le [OF assms] by (simp add: serialize_tree_def to_bytes_ok)
qed

lemma length_concat_le_bytes: "length (concat (map (le_bytes n) xs)) = n * length xs"
  by (induction xs) auto

lemma deserialize_tree_Inr:
  assumes "deserialize_tree bs = Inr t"
  shows "tree_ok (leaf_shard_ids t) \<and> serialize_tree t = Inr bs"
proof -
  obtain n r1 ids r2 where
    n: "rd_uint ShardTreeDecodeError 4 (reader_of bs) = Inr (n, r1)"
    and ids: "rd_many (rd_uint ShardTreeDecodeError 4) (nat n) r1 = Inr (ids, r2)"
    and fin: "rd_finish ShardTreeDecodeError r2 = Inr ()"
    and t: "ShardTree ids = Inr t"
    using assms by (auto simp: deserialize_tree_def bnd_Inr_iff)
  from shard_id_fmt.enc_dec [OF _ n] obtain b rest where
    b: "0 \<le> n" "to_bytes 4 n = Inr b" "bs = b @ rest" "r1 = advance (length b) (reader_of bs)"
    by auto
  have wf1: "rd_wf r1" using b by (auto intro: rd_wf_advance)
  from shard_id_fmt.enc_many_dec [OF wf1 ids] obtain bss rest' where
    m: "length ids = nat n" "each (to_bytes 4) ids = Inr bss" "remaining r1 = concat bss @ rest'"
      "r2 = advance (length (concat bss)) r1"
    by blast
  have "rd_wf r2" using m wf1 by (auto intro: rd_wf_advance)
  then have "rest' = []" using fin m by (simp add: rd_finish_iff)
  moreover have "rest = concat bss @ rest'" using m(3) b by simp
  ultimately have "bs = b @ concat bss" using b by simp
  then show ?thesis
    using t b m by (auto simp: ShardTree_eq serialize_tree_def)
qed

lemma deserialize_serialize:
  assumes ok: "tree_ok (leaf_shard_ids t)"
    and ser: "serialize_tree t = Inr bs"
  shows "deserialize_tree bs =
    (if length (leaf_shard_ids t) = 65536 then Inl ShardTreeDecodeError else Inr t)"
proof -
  let ?ids = "leaf_shard_ids t"
  have bs: "bs = le_bytes 4 (int (length ?ids)) @ concat (map (le_bytes 4) ?ids)"
    using serialize_tree_eq [OF ok] ser by simp
  have len: "length bs = 4 + 4 * length ?ids"
    unfolding bs by (simp add: length_concat_le_bytes del: length_concat)
  have le: "length ?ids \<le> 65536" using ok by (rule leaf_count_le)
  show ?thesis
  proof (cases "length ?ids = 65536")
    case True
    then show ?thesis using len by (simp add: deserialize_tree_def SHARD_TREE_MAX_BYTES_def ensure_def)
  next
    case False
    let ?r = "advance 4 (reader_of bs)"
    have n: "rd_uint ShardTreeDecodeError 4 (reader_of bs) = Inr (int (length ?ids), ?r)"
      using shard_id_fmt.dec_enc [of "int (length ?ids)" "le_bytes 4 (int (length ?ids))" "reader_of bs"]
        le bs by (simp add: to_bytes_ok)
    have wf: "rd_wf ?r" using len by (intro rd_wf_advance) auto
    have e: "each (to_bytes 4) ?ids = Inr (map (le_bytes 4) ?ids)"
      using ok shard_ok_range by (intro each_Inr_all to_bytes_ok) (auto simp: tree_ok_def)
    have "rd_many (rd_uint ShardTreeDecodeError 4) (length ?ids) ?r =
        Inr (?ids, advance (4 * length ?ids) ?r)"
      using shard_id_fmt.dec_many_enc [OF _ e wf, of "[]"] ok shard_ok_range bs
      by (simp add: tree_ok_def length_concat_le_bytes del: length_concat)
    moreover have "rd_wf (advance (4 * length ?ids) ?r)" using len by (intro rd_wf_advance wf) auto
    moreover have "ShardTree ?ids = Inr t" using ok by (simp add: ShardTree_eq)
    ultimately show ?thesis
      using False n len le
      by (simp add: deserialize_tree_def bnd_ensure SHARD_TREE_MAX_BYTES_def rd_finish_eq wrap_error_def
          del: advance_advance)
  qed
qed

section \<open>The utilisation policy\<close>

lemma recent_samples_suffix:
  assumes "w \<le> v"
  shows "set (recent_samples s h w) \<subseteq> set (recent_samples s h v)"
  using assms unfolding recent_samples_def Let_def by (intro set_drop_subset_set_drop) simp

section \<open>Properties\<close>

lemma children_fresh:
  assumes ok: "tree_ok (leaf_shard_ids t)" and leaf: "s \<in> leaf_set t" and d: "depth_of s < 16"
    and c: "c \<in> {left_child s, right_child s}"
  shows "c \<notin> leaf_set t"
proof
  assume cl: "c \<in> leaf_set t"
  have s: "shard_ok s" using ok leaf by (simp add: tree_ok_def leaf_set_def)
  have "c \<noteq> s" using c child_fields [OF s d] by auto
  then have "cylinder c \<inter> cylinder s = {}" using ok cl leaf by (simp add: tree_ok_def leaf_set_def)
  moreover have "path_of c \<in> cylinder c" using ok cl by (simp add: tree_ok_def leaf_set_def path_in_cylinder)
  ultimately show False using c cylinder_children(1) [OF s d] by auto
qed

lemma tree_eq_by_leaf_set:
  assumes "tree_ok (leaf_shard_ids t)" and "tree_ok (leaf_shard_ids u)" and "leaf_set t = leaf_set u"
  shows "t = (u :: shard_tree)"
proof -
  have "leaf_shard_ids t = leaf_shard_ids u"
    using ShardTree_sorted_list [OF assms(1)] ShardTree_sorted_list [OF assms(2)] assms(3) by simp
  then show ?thesis by simp
qed

text \<open>
  (C16) The constructor check of \<open>ShardTree\<close>, with its ancestor search over the leaves seen so far
  and its coverage counter, accepts exactly the strictly ascending lists of well-formed shard
  identifiers whose cylinders are pairwise disjoint and together cover all 16-bit hash suffixes.
\<close>

theorem shard_tree_check_is_partition:
  "ShardTree leaves = Inr t \<longleftrightarrow> t = \<lparr>leaf_shard_ids = leaves\<rparr> \<and> tree_ok leaves"
  by (rule ShardTree_eq)

text \<open>
  (C17) Routing is total and unambiguous: for every tree that the constructor accepts and every
  32-byte transaction hash, \<open>route_tx\<close> returns a leaf and never reaches its assertion, and that leaf
  is the only one whose path is the low bits of the hash.
\<close>

theorem route_tx_unique_leaf:
  assumes "ShardTree leaves = Inr t" and "length h = HASH_LEN_BYTES"
  shows "\<exists>s. route_tx t h = Inr s \<and> s \<in> leaf_set t
    \<and> (\<forall>s' \<in> leaf_set t. from_le h mod 2 ^ nat (depth_of s') = path_of s' \<longleftrightarrow> s' = s)"
proof -
  have ok: "tree_ok (leaf_shard_ids t)" using assms(1) by (simp add: ShardTree_eq)
  obtain s where s: "route_tx t h = Inr s" "s \<in> leaf_set t" "from_le h mod 65536 \<in> cylinder s"
    using route_tx_spec(2) [OF ok assms(2)] by blast
  have "from_le h mod 2 ^ nat (depth_of s') = path_of s' \<longleftrightarrow> s' = s" if "s' \<in> leaf_set t" for s'
  proof -
    have "shard_ok s'" using ok that by (simp add: tree_ok_def leaf_set_def)
    then have "from_le h mod 65536 \<in> cylinder s' \<longleftrightarrow> from_le h mod 2 ^ nat (depth_of s') = path_of s'"
      using cylinder_suffix [of s' "from_le h"] by auto
    then show ?thesis using route_tx_spec(1) [OF ok assms(2)] that s by blast
  qed
  then show ?thesis using s by blast
qed

text \<open>
  Splitting a leaf above the maximum depth always succeeds, gives a tree the constructor
  accepts, and merging the two children restores the original tree.
\<close>

theorem split_then_merge_restores:
  assumes "ShardTree leaves = Inr t" and "s \<in> leaf_set t" and "decode_shard_id s = Inr (d, p)"
    and "d < SHARD_MAX_DEPTH"
  shows "\<exists>t' l r. apply_split t s = Inr t' \<and> ShardTree (leaf_shard_ids t') = Inr t'
    \<and> child_shard_ids s = Inr (l, r) \<and> apply_merge t' (l, r) = Inr t"
proof -
  have ok: "tree_ok (leaf_shard_ids t)" using assms(1) by (simp add: ShardTree_eq)
  have s: "shard_ok s" "depth_of s < 16"
    using assms(3,4) by (auto simp: decode_shard_id_eq SHARD_MAX_DEPTH_def split: if_splits)
  obtain t' where t': "apply_split t s = Inr t'" "tree_ok (leaf_shard_ids t')"
    "leaf_set t' = (leaf_set t - {s}) \<union> {left_child s, right_child s}"
    using apply_split_spec [OF ok assms(2) s(2)] by blast
  obtain t'' where t'': "apply_merge t' (left_child s, right_child s) = Inr t''"
    "tree_ok (leaf_shard_ids t'')" "leaf_set t'' = (leaf_set t' - {left_child s, right_child s}) \<union> {s}"
    using apply_merge_spec [OF t'(2) s _ _ require_siblings_children [OF s]] t'(3) by auto
  have "leaf_set t'' = leaf_set t"
    using children_fresh [OF ok assms(2) s(2)] t'(3) t''(3) assms(2) by auto
  then have "t'' = t" using tree_eq_by_leaf_set t''(2) ok by blast
  then show ?thesis using t' t''(1) s by (auto simp: ShardTree_eq child_shard_ids_eq)
qed

text \<open>
  (C18) A batch of operations that is applied: the applied operations are those that are the first of the batch for
  their parent shard, the queued ones all others, both in the order of the batch, so that together they are the batch. The
  leaves of the result are those of the given tree after the applied operations: a split replaces its shard by the
  two children, a merge the two children by their parent. The result is a valid tree.
\<close>

theorem apply_operations_batch:
  assumes "ShardTree leaves = Inr t" and "apply_operations t ops = Inr u"
  shows "ShardTree (leaf_shard_ids (upd_tree u)) = Inr (upd_tree u)
    \<and> leaf_set (upd_tree u) = fold op_leaves (upd_applied u) (leaf_set t)
    \<and> upd_applied u = first_ops ops \<and> upd_queued u = later_ops ops
    \<and> mset (upd_applied u) + mset (upd_queued u) = mset ops
    \<and> distinct (map operation_parent (upd_applied u))
    \<and> (\<forall>op \<in> set (upd_queued u). \<exists>a \<in> set (upd_applied u). operation_parent a = operation_parent op)"
proof -
  have ok: "tree_ok (leaf_shard_ids t)" using assms(1) by (simp add: ShardTree_eq)
  have loop: "operations_loop ops t {} [] [] = Inr (upd_tree u, upd_applied u, upd_queued u)"
    using assms(2) by (auto simp: apply_operations_def bnd_Inr_iff split: prod.splits)
  have nil: "first_ops [] = []" "later_ops [] = []" by (simp_all add: first_ops_def later_ops_def)
  obtain new where new: "upd_applied u = [] @ new" "distinct (map operation_parent new)"
    "\<forall>op \<in> set (upd_queued u). op \<in> set [] \<or> (\<exists>p. operation_parent op = Inr p
          \<and> (p \<in> {} \<or> (\<exists>a \<in> set new. operation_parent a = Inr p)))"
    using operations_loop_parents [OF loop] by blast
  then have "\<forall>op \<in> set (upd_queued u). \<exists>a \<in> set (upd_applied u). operation_parent a = operation_parent op"
    by fastforce
  moreover have "upd_applied u = first_ops ops \<and> upd_queued u = later_ops ops \<and> leaf_set (upd_tree u) = fold op_leaves (upd_applied u) (leaf_set t)"
    using operations_loop_exact [of ops t "{}" "[]" "upd_tree u" "upd_applied u" "upd_queued u" "leaf_set t"] loop ok by (simp add: nil)
  ultimately show ?thesis using operations_loop_spec [OF loop ok] new by (simp add: ShardTree_eq)
qed

text \<open>
  (C19) Decoding is canonical: bytes that \<open>deserialize\<close> accepts are the serialisation of the tree it
  returns. Encoding round-trips for every valid tree but one: the tree with all 65536 leaves at the
  maximum depth serialises to 262148 bytes, above \<open>SHARD_TREE_MAX_BYTES\<close>, so it is rejected by
  \<open>deserialize\<close> and its \<open>state_root\<close> raises.
\<close>

theorem shard_tree_wire_format:
  "(deserialize_tree bs = Inr t \<longrightarrow> serialize_tree t = Inr bs \<and> ShardTree (leaf_shard_ids t) = Inr t)
   \<and> (ShardTree leaves = Inr u \<longrightarrow>
      (\<exists>cs. serialize_tree u = Inr cs \<and> deserialize_tree cs =
         (if length leaves = 65536 then Inl ShardTreeDecodeError else Inr u)
       \<and> state_root H u = (if length leaves = 65536 then Inl ValueError
           else Inr (domain_hash H DOMAIN_SHARD_TREE cs))))"
proof (intro conjI impI)
  assume "deserialize_tree bs = Inr t"
  from deserialize_tree_Inr [OF this]
  show "serialize_tree t = Inr bs" "ShardTree (leaf_shard_ids t) = Inr t" by (auto simp: ShardTree_eq)
next
  assume u: "ShardTree leaves = Inr u"
  then have ok: "tree_ok (leaf_shard_ids u)" and lv: "leaf_shard_ids u = leaves" by (auto simp: ShardTree_eq)
  note ser = serialize_tree_eq [OF ok]
  have len: "length (le_bytes 4 (int (length leaves)) @ concat (map (le_bytes 4) leaves)) = 4 + 4 * length leaves"
    by (simp add: length_concat_le_bytes del: length_concat)
  have le: "length leaves \<le> 65536" using leaf_count_le [OF ok] lv by simp
  have "state_root H u = (if length leaves = 65536 then Inl ValueError
      else Inr (domain_hash H DOMAIN_SHARD_TREE (le_bytes 4 (int (length leaves)) @ concat (map (le_bytes 4) leaves))))"
    unfolding state_root_def ser lv bnd_simps shard_tree_root_def len SHARD_TREE_MAX_BYTES_def
    using le by (simp add: bnd_ensure)
  then show "\<exists>cs. serialize_tree u = Inr cs \<and> deserialize_tree cs =
         (if length leaves = 65536 then Inl ShardTreeDecodeError else Inr u)
       \<and> state_root H u = (if length leaves = 65536 then Inl ValueError
           else Inr (domain_hash H DOMAIN_SHARD_TREE cs))"
    using ser deserialize_serialize [OF ok ser] lv by auto
qed

text \<open>
  The policy cannot ask for both at once: on a history of samples that the constructor of
  \<open>ShardUtilizationSample\<close> accepts, a leaf that is due for a split is in no pair of siblings due for
  a merge.
\<close>

theorem split_and_merge_exclusive:
  assumes "\<forall>x \<in> set history. \<exists>i b n. mk_sample i b n = Inr x"
    and "should_split s history = Inr True"
    and "require_sibling_shards siblings = Inr (l, r)" and "s = l \<or> s = r"
  shows "should_merge siblings history = Inr False"
proof -
  let ?w = "recent_samples s history SHARD_SPLIT_WINDOW_ANCHORS"
  let ?v = "recent_samples s history SHARD_MERGE_WINDOW_ANCHORS"
  have w: "length ?w \<ge> 10" "\<forall>x \<in> set ?w. sample_meets_threshold x SHARD_SPLIT_THRESHOLD_PCT True"
    using assms(2) by (auto simp: should_split_def bnd_Inr_iff Let_def SHARD_SPLIT_WINDOW_ANCHORS_def
        split: if_splits prod.splits)
  then obtain x where x: "x \<in> set ?w" by (cases ?w) auto
  have "x \<in> set ?v" using x recent_samples_suffix [of SHARD_SPLIT_WINDOW_ANCHORS SHARD_MERGE_WINDOW_ANCHORS]
    by (auto simp: SHARD_SPLIT_WINDOW_ANCHORS_def SHARD_MERGE_WINDOW_ANCHORS_def)
  moreover have "x \<in> set history"
    using x unfolding recent_samples_def Let_def by (auto dest: in_set_dropD)
  then have "fruit_slots_observed x > 0"
    using assms(1) by (fastforce simp: mk_sample_def require_nonneg_def bnd_Inr_iff)
  then have "\<not> sample_meets_threshold x SHARD_MERGE_THRESHOLD_PCT False"
    using w(2) x by (auto simp: sample_meets_threshold_def SHARD_SPLIT_THRESHOLD_PCT_def
        SHARD_MERGE_THRESHOLD_PCT_def MAX_FRUIT_PAYLOAD_BYTES_def Let_def)
  ultimately show ?thesis using assms(3,4) by (auto simp: should_merge_def Let_def)
qed

section \<open>Witnesses\<close>

definition two_leaf_tree :: shard_tree where
  "two_leaf_tree = \<lparr>leaf_shard_ids = [65536, 65537]\<rparr>"

lemma two_leaf_tree_ok: "ShardTree [65536, 65537] = Inr two_leaf_tree"
  unfolding two_leaf_tree_def by code_simp

theorem route_tx_unique_leaf_witness:
  "\<exists>s. route_tx two_leaf_tree (replicate 32 1) = Inr s \<and> s \<in> leaf_set two_leaf_tree
    \<and> (\<forall>s' \<in> leaf_set two_leaf_tree.
        from_le (replicate 32 1) mod 2 ^ nat (depth_of s') = path_of s' \<longleftrightarrow> s' = s)"
  by (rule route_tx_unique_leaf [OF two_leaf_tree_ok]) (simp add: HASH_LEN_BYTES_def)

lemma route_example: "route_tx two_leaf_tree (replicate 32 1) = Inr 65537"
  by code_simp

theorem split_then_merge_restores_witness:
  "\<exists>t' l r. apply_split two_leaf_tree 65536 = Inr t' \<and> ShardTree (leaf_shard_ids t') = Inr t'
    \<and> child_shard_ids 65536 = Inr (l, r) \<and> apply_merge t' (l, r) = Inr two_leaf_tree"
proof (rule split_then_merge_restores [OF two_leaf_tree_ok])
  show "65536 \<in> leaf_set two_leaf_tree" by (simp add: leaf_set_def two_leaf_tree_def)
  show "decode_shard_id 65536 = Inr (1, 0)" by code_simp
  show "1 < SHARD_MAX_DEPTH" by (simp add: SHARD_MAX_DEPTH_def)
qed

theorem apply_operations_batch_witness:
  "\<exists>u. apply_operations two_leaf_tree [ShardSplit 65536, ShardSplit 65537, ShardSplit 65536] = Inr u
    \<and> mset (upd_applied u) + mset (upd_queued u) = mset [ShardSplit 65536, ShardSplit 65537, ShardSplit 65536]
    \<and> upd_queued u = [ShardSplit 65536]
    \<and> leaf_set (upd_tree u) = fold op_leaves [ShardSplit 65536, ShardSplit 65537] (leaf_set two_leaf_tree)"
proof -
  let ?ops = "[ShardSplit 65536, ShardSplit 65537, ShardSplit 65536]"
  let ?u = "\<lparr>upd_tree = \<lparr>leaf_shard_ids = [131072, 131073, 131074, 131075]\<rparr>,
    upd_applied = [ShardSplit 65536, ShardSplit 65537], upd_queued = [ShardSplit 65536]\<rparr>"
  have u: "apply_operations two_leaf_tree ?ops = Inr ?u" by code_simp
  have "mset (upd_applied ?u) + mset (upd_queued ?u) = mset ?ops" "leaf_set (upd_tree ?u) = fold op_leaves (upd_applied ?u) (leaf_set two_leaf_tree)"
    using apply_operations_batch [OF two_leaf_tree_ok u] by blast+
  then show ?thesis using u by (intro exI [of _ ?u] conjI) (simp_all only: shard_tree_update.simps)
qed

theorem shard_tree_wire_format_witness:
  "\<exists>cs. serialize_tree two_leaf_tree = Inr cs \<and> deserialize_tree cs = Inr two_leaf_tree"
  using shard_tree_wire_format [of "[]" two_leaf_tree "[65536, 65537]" two_leaf_tree "\<lambda>_. []"] two_leaf_tree_ok
  by auto

theorem split_and_merge_exclusive_witness:
  "should_merge (65536, 65537) (replicate 10 \<lparr>smp_shard_id = 65536, payload_bytes_confirmed = 8192, fruit_slots_observed = 1\<rparr>) = Inr False"
proof (rule split_and_merge_exclusive [where s = 65536 and l = 65536 and r = 65537])
  have "mk_sample 65536 8192 1 = Inr \<lparr>smp_shard_id = 65536, payload_bytes_confirmed = 8192, fruit_slots_observed = 1\<rparr>"
    by code_simp
  then show "\<forall>x \<in> set (replicate 10 \<lparr>smp_shard_id = 65536, payload_bytes_confirmed = 8192, fruit_slots_observed = 1\<rparr>). \<exists>i b n. mk_sample i b n = Inr x"
    by auto
  show "should_split 65536 (replicate 10 \<lparr>smp_shard_id = 65536, payload_bytes_confirmed = 8192, fruit_slots_observed = 1\<rparr>) = Inr True"
    by code_simp
  show "require_sibling_shards (65536, 65537) = Inr (65536, 65537)" by code_simp
qed simp

end
