(* ===== verification/UTXO_State.thy ===== *)
theory UTXO_State
  imports Hashing
begin

text \<open>
  \<^verbatim>\<open>src/src/tensorpow/state/utxo.py\<close>: outpoints, unspent outputs and their byte layout, the
  \<open>UTXOSet\<close> with its three indexes and its Merkle caches, and the sparse Merkle tree of depth 256
  with inclusion and absence proofs.

  A frozen dataclass is a record together with its constructor (\<open>Outpoint\<close>, \<open>UTXO\<close>, ...), which
  runs the checks of \<open>__post_init__\<close>; \<open>outpoint_ok\<close> and \<open>utxo_ok\<close> say that a record is one the
  constructor returns. The byte layouts encode fields that the constructor has bounded, where
  \<open>int.to_bytes\<close> cannot overflow, so they are total functions. The cached operations pass the set and
  return it with its caches filled.
\<close>

section \<open>Definitions\<close>

definition U16_BYTES :: nat where "U16_BYTES = 2"
definition U32_BYTES :: nat where "U32_BYTES = 4"
definition U64_BYTES :: nat where "U64_BYTES = 8"
definition OUTPOINT_BYTES :: nat where "OUTPOINT_BYTES = HASH_LEN_BYTES + U32_BYTES"
definition MAX_SUPPLY_MATOMS :: int where "MAX_SUPPLY_MATOMS = 2100000000000000"
definition TX_OUTPUT_PAYLOAD_MAX_BYTES :: nat where "TX_OUTPUT_PAYLOAD_MAX_BYTES = 2048"
definition TEMPLATE_PKH :: int where "TEMPLATE_PKH = 0"
definition TEMPLATE_MULTISIG :: int where "TEMPLATE_MULTISIG = 1"
definition TEMPLATE_HASHLOCK :: int where "TEMPLATE_HASHLOCK = 2"
definition ACTIVE_TEMPLATES :: "int set" where
  "ACTIVE_TEMPLATES = {TEMPLATE_PKH, TEMPLATE_MULTISIG, TEMPLATE_HASHLOCK}"
definition UTXO_FIXED_BYTES :: nat where
  "UTXO_FIXED_BYTES = OUTPOINT_BYTES + U64_BYTES + U16_BYTES + HASH_LEN_BYTES + U64_BYTES
     + U64_BYTES + U16_BYTES"
definition KEY_SPACE_BITS :: nat where "KEY_SPACE_BITS = HASH_LEN_BYTES * 8"

subsection \<open>Outpoints and unspent outputs\<close>

record outpoint =
  op_tx_id :: bytes
  op_output_index :: int

definition Outpoint :: "bytes \<Rightarrow> int \<Rightarrow> outpoint res" where
  "Outpoint tx_id output_index =
     bnd (require_hash tx_id) (\<lambda>_.
     bnd (require_uint output_index U32_MAX) (\<lambda>_.
     Inr \<lparr>op_tx_id = tx_id, op_output_index = output_index\<rparr>))"

definition outpoint_ok :: "outpoint \<Rightarrow> bool" where
  "outpoint_ok op \<longleftrightarrow> length (op_tx_id op) = HASH_LEN_BYTES
     \<and> 0 \<le> op_output_index op \<and> op_output_index op \<le> U32_MAX"

definition outpoint_from_bytes :: "bytes \<Rightarrow> outpoint res" where
  "outpoint_from_bytes data =
     bnd (ensure (length data = OUTPOINT_BYTES) ValueError) (\<lambda>_.
     Outpoint (take HASH_LEN_BYTES data) (from_le (drop HASH_LEN_BYTES data)))"

definition outpoint_to_bytes :: "outpoint \<Rightarrow> bytes" where
  "outpoint_to_bytes op = op_tx_id op @ le_bytes U32_BYTES (op_output_index op)"

definition outpoint_key :: "hash_fn \<Rightarrow> outpoint \<Rightarrow> bytes" where
  "outpoint_key H op = domain_hash H DOMAIN_OUTPOINT (outpoint_to_bytes op)"

record utxo =
  u_outpoint :: outpoint
  u_amount_matoms :: int
  u_template_id :: int
  u_owner_pubkey_hash :: bytes
  u_locktime_ms :: int
  u_lockheight :: int
  u_payload :: bytes

definition UTXO :: "outpoint \<Rightarrow> int \<Rightarrow> int \<Rightarrow> bytes \<Rightarrow> int \<Rightarrow> int \<Rightarrow> bytes \<Rightarrow> utxo res" where
  "UTXO op amount_matoms template_id owner_pubkey_hash locktime_ms lockheight payload =
     bnd (require_uint amount_matoms U64_MAX) (\<lambda>_.
     bnd (ensure (amount_matoms \<noteq> 0) ValueError) (\<lambda>_.
     bnd (ensure (\<not> amount_matoms > MAX_SUPPLY_MATOMS) ValueError) (\<lambda>_.
     bnd (require_uint template_id U16_MAX) (\<lambda>_.
     bnd (ensure (template_id \<in> ACTIVE_TEMPLATES) ValueError) (\<lambda>_.
     bnd (require_hash owner_pubkey_hash) (\<lambda>_.
     bnd (require_uint locktime_ms U64_MAX) (\<lambda>_.
     bnd (require_uint lockheight U64_MAX) (\<lambda>_.
     bnd (ensure (\<not> length payload > TX_OUTPUT_PAYLOAD_MAX_BYTES) ValueError) (\<lambda>_.
     Inr \<lparr>u_outpoint = op, u_amount_matoms = amount_matoms, u_template_id = template_id,
       u_owner_pubkey_hash = owner_pubkey_hash, u_locktime_ms = locktime_ms,
       u_lockheight = lockheight, u_payload = payload\<rparr>)))))))))"

definition utxo_ok :: "utxo \<Rightarrow> bool" where
  "utxo_ok u \<longleftrightarrow> outpoint_ok (u_outpoint u)
     \<and> 0 < u_amount_matoms u \<and> u_amount_matoms u \<le> MAX_SUPPLY_MATOMS
     \<and> u_template_id u \<in> ACTIVE_TEMPLATES \<and> length (u_owner_pubkey_hash u) = HASH_LEN_BYTES
     \<and> 0 \<le> u_locktime_ms u \<and> u_locktime_ms u \<le> U64_MAX
     \<and> 0 \<le> u_lockheight u \<and> u_lockheight u \<le> U64_MAX
     \<and> length (u_payload u) \<le> TX_OUTPUT_PAYLOAD_MAX_BYTES"

definition utxo_to_bytes :: "utxo \<Rightarrow> bytes" where
  "utxo_to_bytes u =
     outpoint_to_bytes (u_outpoint u)
     @ le_bytes U64_BYTES (u_amount_matoms u)
     @ le_bytes U16_BYTES (u_template_id u)
     @ u_owner_pubkey_hash u
     @ le_bytes U64_BYTES (u_locktime_ms u)
     @ le_bytes U64_BYTES (u_lockheight u)
     @ le_bytes U16_BYTES (int (length (u_payload u)))
     @ u_payload u"

definition utxo_key :: "hash_fn \<Rightarrow> utxo \<Rightarrow> bytes" where
  "utxo_key H u = outpoint_key H (u_outpoint u)"

definition value_hash :: "hash_fn \<Rightarrow> utxo \<Rightarrow> bytes" where
  "value_hash H u = domain_hash H DOMAIN_UTXO (utxo_to_bytes u)"

definition utxo_from_bytes :: "hash_fn \<Rightarrow> bytes \<Rightarrow> bytes option \<Rightarrow> utxo res" where
  "utxo_from_bytes H data expected_outpoint_key =
     bnd (ensure (\<not> length data < UTXO_FIXED_BYTES) ValueError) (\<lambda>_.
     let o0 = 0; o1 = o0 + OUTPOINT_BYTES; o2 = o1 + U64_BYTES; o3 = o2 + U16_BYTES;
         o4 = o3 + HASH_LEN_BYTES; o5 = o4 + U64_BYTES; o6 = o5 + U64_BYTES; o7 = o6 + U16_BYTES in
     bnd (outpoint_from_bytes (slice data o0 o1)) (\<lambda>op.
     let amount_matoms = from_le (slice data o1 o2);
         template_id = from_le (slice data o2 o3);
         owner_pubkey_hash = slice data o3 o4;
         locktime_ms = from_le (slice data o4 o5);
         lockheight = from_le (slice data o5 o6);
         payload_len = from_le (slice data o6 o7) in
     bnd (ensure (int (length data) = int UTXO_FIXED_BYTES + payload_len) ValueError) (\<lambda>_.
     bnd (UTXO op amount_matoms template_id owner_pubkey_hash locktime_ms lockheight
           (drop o7 data)) (\<lambda>utxo.
     case expected_outpoint_key of
       None \<Rightarrow> Inr utxo
     | Some key \<Rightarrow>
         bnd (require_hash key) (\<lambda>_.
         bnd (ensure (utxo_key H utxo = key) ValueError) (\<lambda>_. Inr utxo))))))"

subsection \<open>The sparse Merkle tree\<close>

type_synonym merkle_item = "int \<times> bytes \<times> bytes"
type_synonym subtree_cache = "(nat \<times> int, bytes) dict"

definition leaf_hash :: "hash_fn \<Rightarrow> bytes \<Rightarrow> bytes \<Rightarrow> bytes res" where
  "leaf_hash H key vh =
     bnd (require_hash key) (\<lambda>_.
     bnd (require_hash vh) (\<lambda>_. Inr (domain_hash H DOMAIN_MERKLE_LEAF (key @ vh))))"

definition node_hash :: "hash_fn \<Rightarrow> nat \<Rightarrow> bytes \<Rightarrow> bytes \<Rightarrow> bytes res" where
  "node_hash H depth left right =
     bnd (require_uint (int depth) U16_MAX) (\<lambda>_.
     bnd (require_hash left) (\<lambda>_.
     bnd (require_hash right) (\<lambda>_.
     Inr (domain_hash H DOMAIN_MERKLE_NODE (le_bytes U16_BYTES (int depth) @ left @ right)))))"

definition empty_hash :: "hash_fn \<Rightarrow> nat \<Rightarrow> bytes res" where
  "empty_hash H depth =
     bnd (require_uint (int depth) U16_MAX) (\<lambda>_.
     bnd (ensure (\<not> depth > MERKLE_DEPTH_BITS) ValueError) (\<lambda>_.
     Inr (domain_hash H DOMAIN_MERKLE_EMPTY (le_bytes U16_BYTES (int depth)))))"

text \<open>The standard library's binary search, \<open>bisect.bisect_left(a, x, lo)\<close>.\<close>

function bisect_loop :: "int list \<Rightarrow> int \<Rightarrow> nat \<Rightarrow> nat \<Rightarrow> nat" where
  "bisect_loop a x lo hi =
     (if lo < hi then
        let mid = (lo + hi) div 2 in
        if a ! mid < x then bisect_loop a x (mid + 1) hi else bisect_loop a x lo mid
      else lo)"
  by pat_completeness auto
termination by (relation "measure (\<lambda>(a, x, lo, hi). hi - lo)") auto

definition bisect_left :: "int list \<Rightarrow> int \<Rightarrow> nat \<Rightarrow> nat" where
  "bisect_left a x lo = bisect_loop a x lo (length a)"

definition range_for_prefix :: "int list \<Rightarrow> nat \<Rightarrow> int \<Rightarrow> (nat \<times> nat) res" where
  "range_for_prefix key_ints depth prefix =
     bnd (require_uint (int depth) U16_MAX) (\<lambda>_.
     bnd (ensure (\<not> depth > MERKLE_DEPTH_BITS) ValueError) (\<lambda>_.
     bnd (ensure (0 \<le> prefix \<and> prefix < push_bit depth 1) ValueError) (\<lambda>_.
     let shift = KEY_SPACE_BITS - depth;
         lower = push_bit shift prefix;
         upper = push_bit shift (prefix + 1);
         start = bisect_left key_ints lower 0;
         stop = bisect_left key_ints upper start
     in Inr (start, stop))))"

lemma range_for_prefix_depth: "range_for_prefix ks d p = Inr r \<Longrightarrow> d \<le> MERKLE_DEPTH_BITS"
  by (auto simp: range_for_prefix_def bnd_Inr_iff)

function subtree_root ::
  "hash_fn \<Rightarrow> merkle_item list \<Rightarrow> int list \<Rightarrow> nat \<Rightarrow> int \<Rightarrow> subtree_cache \<Rightarrow>
   (bytes \<times> subtree_cache) res" where
  "subtree_root H items key_ints depth prefix cache =
     (case dict_get cache (depth, prefix) of
        Some cached \<Rightarrow> Inr (cached, cache)
      | None \<Rightarrow>
        bnd (range_for_prefix key_ints depth prefix) (\<lambda>(start, stop).
        if start = stop then bnd (empty_hash H depth) (\<lambda>h. Inr (h, cache))
        else if depth = MERKLE_DEPTH_BITS then
          bnd (ensure (stop - start = 1) ValueError) (\<lambda>_.
          case items ! start of (_, key, vh) \<Rightarrow>
          bnd (leaf_hash H key vh) (\<lambda>node. Inr (node, dict_set (depth, prefix) node cache)))
        else
          bnd (subtree_root H items key_ints (depth + 1) (push_bit 1 prefix) cache) (\<lambda>(l, cache1).
          bnd (subtree_root H items key_ints (depth + 1) (push_bit 1 prefix OR 1) cache1) (\<lambda>(r, cache2).
          bnd (node_hash H depth l r) (\<lambda>node.
          Inr (node, dict_set (depth, prefix) node cache2))))))"
  by pat_completeness auto
termination
  by (relation "measure (\<lambda>(H, items, ks, depth, prefix, cache). Suc MERKLE_DEPTH_BITS - depth)")
    (auto dest!: range_for_prefix_depth)

definition prefix_int :: "int \<Rightarrow> nat \<Rightarrow> int res" where
  "prefix_int key_int bit_count =
     bnd (require_uint (int bit_count) U16_MAX) (\<lambda>_.
     bnd (ensure (\<not> bit_count > MERKLE_DEPTH_BITS) ValueError) (\<lambda>_.
     Inr (if bit_count \<noteq> 0 then drop_bit (KEY_SPACE_BITS - bit_count) key_int else 0)))"

definition bit_at :: "bytes \<Rightarrow> nat \<Rightarrow> int" where
  "bit_at key bit_index =
     drop_bit (7 - bit_index mod 8) (uint (key ! (bit_index div 8))) AND 1"

fun siblings_loop ::
  "hash_fn \<Rightarrow> bytes \<Rightarrow> merkle_item list \<Rightarrow> int list \<Rightarrow> nat list \<Rightarrow> subtree_cache \<Rightarrow>
   (bytes list \<times> subtree_cache) res" where
  "siblings_loop H key items key_ints [] cache = Inr ([], cache)"
| "siblings_loop H key items key_ints (bit_index # rest) cache =
     bnd (prefix_int (from_be key) bit_index) (\<lambda>p.
     let prefix = push_bit 1 p OR (1 - bit_at key bit_index) in
     bnd (subtree_root H items key_ints (bit_index + 1) prefix cache) (\<lambda>(s, cache1).
     bnd (siblings_loop H key items key_ints rest cache1) (\<lambda>(ss, cache2).
     Inr (s # ss, cache2))))"

definition proof_siblings ::
  "hash_fn \<Rightarrow> bytes \<Rightarrow> merkle_item list \<Rightarrow> int list \<Rightarrow> subtree_cache \<Rightarrow> nat \<Rightarrow>
   (bytes list \<times> subtree_cache) res" where
  "proof_siblings H key items key_ints cache depth_limit =
     bnd (require_hash key) (\<lambda>_.
     bnd (require_uint (int depth_limit) U16_MAX) (\<lambda>_.
     bnd (ensure (\<not> depth_limit > MERKLE_DEPTH_BITS) ValueError) (\<lambda>_.
     siblings_loop H key items key_ints [0..<depth_limit] cache)))"

fun empty_depth_loop :: "int \<Rightarrow> int list \<Rightarrow> nat list \<Rightarrow> nat res" where
  "empty_depth_loop key_int key_ints [] = Inl ValueError"
| "empty_depth_loop key_int key_ints (depth # rest) =
     bnd (prefix_int key_int depth) (\<lambda>prefix.
     bnd (range_for_prefix key_ints depth prefix) (\<lambda>(start, stop).
     if start = stop then Inr depth else empty_depth_loop key_int key_ints rest))"

definition first_empty_depth :: "bytes \<Rightarrow> int list \<Rightarrow> nat res" where
  "first_empty_depth key key_ints =
     bnd (require_hash key) (\<lambda>_.
     empty_depth_loop (from_be key) key_ints [0..<MERKLE_DEPTH_BITS + 1])"

subsection \<open>Proof objects\<close>

definition require_siblings :: "bytes list \<Rightarrow> nat \<Rightarrow> unit res" where
  "require_siblings siblings expected_len =
     bnd (ensure (length siblings = expected_len) ValueError) (\<lambda>_.
     bnd (each require_hash siblings) (\<lambda>_.
     ensure (card (set siblings) = length siblings) ValueError))"

datatype utxo_proof =
    InclusionProof (proof_outpoint: outpoint) (proof_utxo: utxo) (proof_sibs: "bytes list")
  | NonInclusionProof (proof_outpoint: outpoint) (proof_empty_depth: nat) (proof_sibs: "bytes list")

definition UTXOInclusionProof :: "outpoint \<Rightarrow> utxo \<Rightarrow> bytes list \<Rightarrow> utxo_proof res" where
  "UTXOInclusionProof op utxo siblings =
     bnd (ensure (u_outpoint utxo = op) ValueError) (\<lambda>_.
     bnd (require_siblings siblings MERKLE_DEPTH_BITS) (\<lambda>_.
     Inr (InclusionProof op utxo siblings)))"

definition UTXONonInclusionProof :: "outpoint \<Rightarrow> nat \<Rightarrow> bytes list \<Rightarrow> utxo_proof res" where
  "UTXONonInclusionProof op empty_depth siblings =
     bnd (require_uint (int empty_depth) U16_MAX) (\<lambda>_.
     bnd (ensure (\<not> empty_depth > MERKLE_DEPTH_BITS) ValueError) (\<lambda>_.
     bnd (require_siblings siblings empty_depth) (\<lambda>_.
     Inr (NonInclusionProof op empty_depth siblings))))"

text \<open>The loop \<open>for bit_index in range(start_depth - 1, -1, -1)\<close> of \<open>verify_proof\<close>.\<close>

fun climb :: "hash_fn \<Rightarrow> bytes \<Rightarrow> bytes list \<Rightarrow> nat \<Rightarrow> bytes \<Rightarrow> bytes res" where
  "climb H key siblings 0 node = Inr node"
| "climb H key siblings (Suc bit_index) node =
     (let sibling = siblings ! bit_index in
      bnd (if bit_at key bit_index = 0 then node_hash H bit_index node sibling
           else node_hash H bit_index sibling node) (\<lambda>node'.
      climb H key siblings bit_index node'))"

definition verify_proof :: "hash_fn \<Rightarrow> outpoint \<Rightarrow> utxo_proof \<Rightarrow> bytes \<Rightarrow> bool res" where
  "verify_proof H op pf root =
     bnd (require_hash root) (\<lambda>_.
     if proof_outpoint pf \<noteq> op then Inr False
     else
       let shape = (case pf of
             InclusionProof _ _ ss \<Rightarrow> require_siblings ss MERKLE_DEPTH_BITS
           | NonInclusionProof _ d ss \<Rightarrow> require_siblings ss d) in
       if \<not> is_ok shape then Inr False
       else
         let key = outpoint_key H op in
         (case pf of
            InclusionProof _ utxo ss \<Rightarrow>
              if u_outpoint utxo \<noteq> op then Inr False
              else bnd (leaf_hash H key (value_hash H utxo)) (\<lambda>leaf.
                   bnd (climb H key ss MERKLE_DEPTH_BITS leaf) (\<lambda>node. Inr (node = root)))
          | NonInclusionProof _ d ss \<Rightarrow>
              if \<not> d \<le> MERKLE_DEPTH_BITS then Inr False
              else bnd (empty_hash H d) (\<lambda>leaf.
                   bnd (climb H key ss d leaf) (\<lambda>node. Inr (node = root)))))"

subsection \<open>The set\<close>

record utxo_set =
  us_utxos :: "(outpoint, utxo) dict"
  us_outpoint_by_key :: "(bytes, outpoint) dict"
  us_outpoints_by_owner :: "(bytes, outpoint list) dict"
  us_items_cache :: "merkle_item list option"
  us_key_ints_cache :: "int list option"
  us_subtree_cache :: subtree_cache

definition empty_utxo_set :: utxo_set where
  "empty_utxo_set = \<lparr>us_utxos = [], us_outpoint_by_key = [], us_outpoints_by_owner = [],
     us_items_cache = None, us_key_ints_cache = None, us_subtree_cache = []\<rparr>"

definition invalidate_merkle_cache :: "utxo_set \<Rightarrow> utxo_set" where
  "invalidate_merkle_cache S =
     S\<lparr>us_items_cache := None, us_key_ints_cache := None, us_subtree_cache := []\<rparr>"

definition us_add :: "hash_fn \<Rightarrow> utxo_set \<Rightarrow> utxo \<Rightarrow> utxo_set res" where
  "us_add H S utxo =
     bnd (ensure (dict_get (us_utxos S) (u_outpoint utxo) = None) KeyError) (\<lambda>_.
     let key = utxo_key H utxo in
     bnd (ensure (dict_get (us_outpoint_by_key S) key = None) ValueError) (\<lambda>_.
     let owner = u_owner_pubkey_hash utxo;
         owned = (case dict_get (us_outpoints_by_owner S) owner of None \<Rightarrow> [] | Some ops \<Rightarrow> ops) in
     Inr (invalidate_merkle_cache
       (S\<lparr>us_utxos := dict_set (u_outpoint utxo) utxo (us_utxos S),
          us_outpoint_by_key := dict_set key (u_outpoint utxo) (us_outpoint_by_key S),
          us_outpoints_by_owner :=
            dict_set owner (List.insert (u_outpoint utxo) owned) (us_outpoints_by_owner S)\<rparr>))))"

definition us_remove :: "hash_fn \<Rightarrow> utxo_set \<Rightarrow> outpoint \<Rightarrow> (utxo \<times> utxo_set) res" where
  "us_remove H S op =
     (case dict_get (us_utxos S) op of
        None \<Rightarrow> Inl KeyError
      | Some utxo \<Rightarrow>
          let key = utxo_key H utxo; owner = u_owner_pubkey_hash utxo in
          bnd (ensure (dict_get (us_outpoint_by_key S) key \<noteq> None) KeyError) (\<lambda>_.
          case dict_get (us_outpoints_by_owner S) owner of
            None \<Rightarrow> Inl KeyError
          | Some owner_outpoints \<Rightarrow>
              bnd (ensure (op \<in> set owner_outpoints) KeyError) (\<lambda>_.
              let left = removeAll op owner_outpoints in
              Inr (utxo, invalidate_merkle_cache
                (S\<lparr>us_utxos := dict_del op (us_utxos S),
                   us_outpoint_by_key := dict_del key (us_outpoint_by_key S),
                   us_outpoints_by_owner :=
                     (if left = [] then dict_del owner (us_outpoints_by_owner S)
                      else dict_set owner left (us_outpoints_by_owner S))\<rparr>)))))"

definition us_get :: "utxo_set \<Rightarrow> outpoint \<Rightarrow> utxo option" where
  "us_get S op = dict_get (us_utxos S) op"

definition us_contains :: "utxo_set \<Rightarrow> outpoint \<Rightarrow> bool" where
  "us_contains S op \<longleftrightarrow> dict_get (us_utxos S) op \<noteq> None"

definition us_list :: "utxo_set \<Rightarrow> utxo list" where
  "us_list S = sort_key (\<lambda>u. outpoint_to_bytes (u_outpoint u)) (map snd (us_utxos S))"

definition us_by_owner :: "utxo_set \<Rightarrow> bytes \<Rightarrow> utxo list res" where
  "us_by_owner S owner =
     bnd (require_hash owner) (\<lambda>_.
     case dict_get (us_outpoints_by_owner S) owner of
       None \<Rightarrow> Inr []
     | Some ops \<Rightarrow>
         bnd (each (\<lambda>op. case dict_get (us_utxos S) op of None \<Rightarrow> Inl KeyError | Some u \<Rightarrow> Inr u) ops)
           (\<lambda>us. Inr (sort_key (\<lambda>u. outpoint_to_bytes (u_outpoint u)) us)))"

definition merkle_items :: "hash_fn \<Rightarrow> utxo_set \<Rightarrow> merkle_item list \<times> utxo_set" where
  "merkle_items H S =
     (case us_items_cache S of
        Some items \<Rightarrow> (items, S)
      | None \<Rightarrow>
          let items = sort (map (\<lambda>(_, u). (from_be (utxo_key H u), utxo_key H u, value_hash H u))
                (us_utxos S))
          in (items, S\<lparr>us_items_cache := Some items\<rparr>))"

definition merkle_key_ints :: "hash_fn \<Rightarrow> utxo_set \<Rightarrow> int list \<times> utxo_set" where
  "merkle_key_ints H S =
     (case us_key_ints_cache S of
        Some ks \<Rightarrow> (ks, S)
      | None \<Rightarrow>
          let (items, S1) = merkle_items H S; ks = map fst items
          in (ks, S1\<lparr>us_key_ints_cache := Some ks\<rparr>))"

definition us_merkle_root :: "hash_fn \<Rightarrow> utxo_set \<Rightarrow> (bytes \<times> utxo_set) res" where
  "us_merkle_root H S =
     (let (items, S1) = merkle_items H S; (ks, S2) = merkle_key_ints H S1 in
      bnd (subtree_root H items ks 0 0 (us_subtree_cache S2)) (\<lambda>(root, cache).
      Inr (root, S2\<lparr>us_subtree_cache := cache\<rparr>)))"

definition us_inclusion_proof :: "hash_fn \<Rightarrow> utxo_set \<Rightarrow> outpoint \<Rightarrow> (utxo_proof \<times> utxo_set) res" where
  "us_inclusion_proof H S op =
     (case dict_get (us_utxos S) op of
        None \<Rightarrow> Inl KeyError
      | Some utxo \<Rightarrow>
          let (items, S1) = merkle_items H S; (ks, S2) = merkle_key_ints H S1 in
          bnd (proof_siblings H (outpoint_key H op) items ks (us_subtree_cache S2) MERKLE_DEPTH_BITS)
            (\<lambda>(ss, cache).
          bnd (UTXOInclusionProof op utxo ss) (\<lambda>pf.
          Inr (pf, S2\<lparr>us_subtree_cache := cache\<rparr>))))"

definition us_non_inclusion_proof :: "hash_fn \<Rightarrow> utxo_set \<Rightarrow> outpoint \<Rightarrow> (utxo_proof \<times> utxo_set) res" where
  "us_non_inclusion_proof H S op =
     bnd (ensure (dict_get (us_utxos S) op = None) KeyError) (\<lambda>_.
     let (items, S1) = merkle_items H S; (ks, S2) = merkle_key_ints H S1 in
     bnd (first_empty_depth (outpoint_key H op) ks) (\<lambda>empty_depth.
     bnd (proof_siblings H (outpoint_key H op) items ks (us_subtree_cache S2) empty_depth)
       (\<lambda>(ss, cache).
     bnd (UTXONonInclusionProof op empty_depth ss) (\<lambda>pf.
     Inr (pf, S2\<lparr>us_subtree_cache := cache\<rparr>)))))"

section \<open>Specification\<close>

text \<open>
  The reference tree. \<open>smt_pre H n items\<close> is the string whose digest is the node of the subtree of
  height \<open>n\<close> that holds \<open>items\<close>: it splits the items by their key bit and never mentions indexes,
  ranges or caches. \<open>smt_at H items d p\<close> is the node at depth \<open>d\<close> whose path is the \<open>d\<close>-bit number
  \<open>p\<close>, \<open>utxo_root\<close> the node of the empty path, \<open>path_siblings\<close> the siblings of the path of an
  outpoint. \<open>collision_pairs\<close> lists, for one proof and one set, the pairs of strings whose digests
  decide whether the proof is sound: one pair per level of the path and one per stored output.
\<close>

definition item_prefix :: "nat \<Rightarrow> merkle_item \<Rightarrow> int" where
  "item_prefix d it = drop_bit (KEY_SPACE_BITS - d) (fst it)"

definition at_prefix :: "merkle_item list \<Rightarrow> nat \<Rightarrow> int \<Rightarrow> merkle_item list" where
  "at_prefix items d p = filter (\<lambda>it. item_prefix d it = p) items"

fun smt_pre :: "hash_fn \<Rightarrow> nat \<Rightarrow> merkle_item list \<Rightarrow> bytes" where
  "smt_pre H n [] = DOMAIN_MERKLE_EMPTY # le_bytes U16_BYTES (int (MERKLE_DEPTH_BITS - n))"
| "smt_pre H 0 (it # items) = DOMAIN_MERKLE_LEAF # fst (snd it) @ snd (snd it)"
| "smt_pre H (Suc n) (it # items) =
     DOMAIN_MERKLE_NODE # le_bytes U16_BYTES (int (MERKLE_DEPTH_BITS - Suc n))
       @ H (smt_pre H n (filter (\<lambda>i. \<not> bit (fst i) n) (it # items)))
       @ H (smt_pre H n (filter (\<lambda>i. bit (fst i) n) (it # items)))"

definition smt_at :: "hash_fn \<Rightarrow> merkle_item list \<Rightarrow> nat \<Rightarrow> int \<Rightarrow> bytes" where
  "smt_at H items d p = H (smt_pre H (MERKLE_DEPTH_BITS - d) (at_prefix items d p))"

definition items_ok :: "merkle_item list \<Rightarrow> bool" where
  "items_ok items \<longleftrightarrow> sorted (map fst items) \<and> distinct (map fst items)
     \<and> (\<forall>(k, key, vh) \<in> set items. length key = HASH_LEN_BYTES \<and> length vh = HASH_LEN_BYTES
          \<and> k = from_be key)"

definition subtree_cache_ok :: "hash_fn \<Rightarrow> merkle_item list \<Rightarrow> subtree_cache \<Rightarrow> bool" where
  "subtree_cache_ok H items c \<longleftrightarrow> (\<forall>d p h. dict_get c (d, p) = Some h \<longrightarrow> h = smt_at H items d p)"

definition key_prefix :: "int \<Rightarrow> nat \<Rightarrow> int" where
  "key_prefix K d = drop_bit (KEY_SPACE_BITS - d) K"

definition key_bit :: "int \<Rightarrow> nat \<Rightarrow> bool" where
  "key_bit K i \<longleftrightarrow> bit K (MERKLE_DEPTH_BITS - Suc i)"

definition smt_sibling :: "hash_fn \<Rightarrow> merkle_item list \<Rightarrow> int \<Rightarrow> nat \<Rightarrow> bytes" where
  "smt_sibling H items K i = smt_at H items (Suc i) (2 * key_prefix K i + of_bool (\<not> key_bit K i))"

definition fresh_items :: "hash_fn \<Rightarrow> (outpoint, utxo) dict \<Rightarrow> merkle_item list" where
  "fresh_items H d = sort (map (\<lambda>(_, u). (from_be (utxo_key H u), utxo_key H u, value_hash H u)) d)"

definition owned_ops :: "(bytes, outpoint list) dict \<Rightarrow> bytes \<Rightarrow> outpoint list" where
  "owned_ops d w = (case dict_get d w of None \<Rightarrow> [] | Some ops \<Rightarrow> ops)"

definition utxo_index_ok :: "hash_fn \<Rightarrow> utxo_set \<Rightarrow> bool" where
  "utxo_index_ok H S \<longleftrightarrow>
     dict_ok (us_utxos S)
     \<and> (\<forall>op u. dict_get (us_utxos S) op = Some u \<longrightarrow> u_outpoint u = op \<and> utxo_ok u)
     \<and> (\<forall>k op. dict_get (us_outpoint_by_key S) k = Some op \<longleftrightarrow>
          (\<exists>u. dict_get (us_utxos S) op = Some u \<and> utxo_key H u = k))
     \<and> (\<forall>w. dict_get (us_outpoints_by_owner S) w \<noteq> Some []
          \<and> distinct (owned_ops (us_outpoints_by_owner S) w)
          \<and> (\<forall>op. op \<in> set (owned_ops (us_outpoints_by_owner S) w) \<longleftrightarrow>
                (\<exists>u. dict_get (us_utxos S) op = Some u \<and> u_owner_pubkey_hash u = w)))"

definition utxo_cache_ok :: "hash_fn \<Rightarrow> utxo_set \<Rightarrow> bool" where
  "utxo_cache_ok H S \<longleftrightarrow>
     (case us_items_cache S of None \<Rightarrow> True | Some items \<Rightarrow> items = fresh_items H (us_utxos S))
     \<and> (case us_key_ints_cache S of None \<Rightarrow> True
        | Some ks \<Rightarrow> ks = map fst (fresh_items H (us_utxos S)))
     \<and> subtree_cache_ok H (fresh_items H (us_utxos S)) (us_subtree_cache S)"

definition utxo_set_ok :: "hash_fn \<Rightarrow> utxo_set \<Rightarrow> bool" where
  "utxo_set_ok H S \<longleftrightarrow> utxo_index_ok H S \<and> utxo_cache_ok H S"

definition utxo_root :: "hash_fn \<Rightarrow> utxo_set \<Rightarrow> bytes" where
  "utxo_root H S = smt_at H (fresh_items H (us_utxos S)) 0 0"

definition path_siblings :: "hash_fn \<Rightarrow> utxo_set \<Rightarrow> outpoint \<Rightarrow> nat \<Rightarrow> bytes list" where
  "path_siblings H S op d =
     map (smt_sibling H (fresh_items H (us_utxos S)) (from_be (outpoint_key H op))) [0..<d]"

definition node_pre :: "nat \<Rightarrow> bytes \<Rightarrow> bytes \<Rightarrow> bytes" where
  "node_pre d l r = DOMAIN_MERKLE_NODE # le_bytes U16_BYTES (int d) @ l @ r"

fun climb_pairs ::
  "hash_fn \<Rightarrow> merkle_item list \<Rightarrow> bytes \<Rightarrow> bytes list \<Rightarrow> nat \<Rightarrow> bytes \<Rightarrow> (bytes \<times> bytes) list" where
  "climb_pairs H items key siblings 0 node = []"
| "climb_pairs H items key siblings (Suc i) node =
     (let pre = (if bit_at key i = 0 then node_pre i node (siblings ! i)
                 else node_pre i (siblings ! i) node) in
      (smt_pre H (MERKLE_DEPTH_BITS - i) (at_prefix items i (key_prefix (from_be key) i)), pre)
        # climb_pairs H items key siblings i (H pre))"

definition collides :: "hash_fn \<Rightarrow> bytes \<times> bytes \<Rightarrow> bool" where
  "collides H xy \<longleftrightarrow> fst xy \<noteq> snd xy \<and> H (fst xy) = H (snd xy)"

definition collision_pairs :: "hash_fn \<Rightarrow> utxo_set \<Rightarrow> outpoint \<Rightarrow> utxo_proof \<Rightarrow> (bytes \<times> bytes) list" where
  "collision_pairs H S op pf =
     (let items = fresh_items H (us_utxos S); key = outpoint_key H op;
          at = (\<lambda>d. smt_pre H (MERKLE_DEPTH_BITS - d) (at_prefix items d (key_prefix (from_be key) d))) in
      case pf of
        InclusionProof _ u ss \<Rightarrow>
          let leaf = DOMAIN_MERKLE_LEAF # key @ value_hash H u in
          map (\<lambda>(_, v). (DOMAIN_UTXO # utxo_to_bytes v, DOMAIN_UTXO # utxo_to_bytes u)) (us_utxos S)
          @ (at MERKLE_DEPTH_BITS, leaf) # climb_pairs H items key ss MERKLE_DEPTH_BITS (H leaf)
      | NonInclusionProof _ d ss \<Rightarrow>
          let leaf = DOMAIN_MERKLE_EMPTY # le_bytes U16_BYTES (int d) in
          (at d, leaf) # climb_pairs H items key ss d (H leaf))"

text \<open>A digest that pads or truncates, and a set with one output, for the concrete instances.\<close>

definition pad_hash :: hash_fn where
  "pad_hash x = take HASH_LEN_BYTES (x @ zero_bytes HASH_LEN_BYTES)"

definition example_utxo :: utxo where
  "example_utxo = \<lparr>u_outpoint = \<lparr>op_tx_id = zero_bytes 32, op_output_index = 7\<rparr>, u_amount_matoms = 5,
     u_template_id = 0, u_owner_pubkey_hash = zero_bytes 32, u_locktime_ms = 0, u_lockheight = 0, u_payload = []\<rparr>"

definition example_utxos :: utxo_set where
  "example_utxos = (case us_add pad_hash empty_utxo_set example_utxo of Inr S \<Rightarrow> S | Inl _ \<Rightarrow> empty_utxo_set)"

section \<open>Byte layouts\<close>

lemmas utxo_widths = U16_BYTES_def U32_BYTES_def U64_BYTES_def OUTPOINT_BYTES_def HASH_LEN_BYTES_def
  UTXO_FIXED_BYTES_def

lemma Outpoint_Inr_iff:
  "Outpoint t i = Inr op \<longleftrightarrow> op = \<lparr>op_tx_id = t, op_output_index = i\<rparr> \<and> outpoint_ok op"
  by (auto simp: Outpoint_def bnd_Inr_iff outpoint_ok_def)

lemma length_outpoint_to_bytes: "outpoint_ok op \<Longrightarrow> length (outpoint_to_bytes op) = OUTPOINT_BYTES"
  by (simp add: outpoint_ok_def outpoint_to_bytes_def OUTPOINT_BYTES_def)

lemma outpoint_from_to_bytes: "outpoint_ok op \<Longrightarrow> outpoint_from_bytes (outpoint_to_bytes op) = Inr op"
  by (simp add: outpoint_from_bytes_def outpoint_to_bytes_def outpoint_ok_def Outpoint_def
      bnd_ensure bnd_require_hash_len bnd_require_uint OUTPOINT_BYTES_def from_le_bytes U32_MAX_def U32_BYTES_def)

lemma outpoint_to_from_bytes:
  assumes "outpoint_from_bytes bs = Inr op"
  shows "outpoint_ok op" "outpoint_to_bytes op = bs"
proof -
  have l: "length bs = OUTPOINT_BYTES" and op: "outpoint_ok op"
    "op = \<lparr>op_tx_id = take HASH_LEN_BYTES bs, op_output_index = from_le (drop HASH_LEN_BYTES bs)\<rparr>"
    using assms by (auto simp: outpoint_from_bytes_def bnd_Inr_iff Outpoint_Inr_iff)
  have "length (drop HASH_LEN_BYTES bs) = U32_BYTES" using l by (simp add: OUTPOINT_BYTES_def)
  from le_bytes_from_le [of "drop HASH_LEN_BYTES bs", unfolded this]
  show "outpoint_to_bytes op = bs" unfolding op(2) by (simp add: outpoint_to_bytes_def)
qed (use assms in \<open>auto simp: outpoint_from_bytes_def bnd_Inr_iff Outpoint_Inr_iff\<close>)

lemma outpoint_to_bytes_inject:
  "outpoint_ok a \<Longrightarrow> outpoint_ok b \<Longrightarrow> outpoint_to_bytes a = outpoint_to_bytes b \<longleftrightarrow> a = b"
  by (metis outpoint_from_to_bytes sum.inject(2))

lemma template_range: "t \<in> ACTIVE_TEMPLATES \<Longrightarrow> 0 \<le> t \<and> t \<le> 2"
  by (auto simp: ACTIVE_TEMPLATES_def TEMPLATE_PKH_def TEMPLATE_MULTISIG_def TEMPLATE_HASHLOCK_def)

lemma UTXO_Inr_iff:
  "UTXO op a t w lt lh p = Inr u \<longleftrightarrow>
     u = \<lparr>u_outpoint = op, u_amount_matoms = a, u_template_id = t, u_owner_pubkey_hash = w,
       u_locktime_ms = lt, u_lockheight = lh, u_payload = p\<rparr> \<and> (outpoint_ok op \<longrightarrow> utxo_ok u)
     \<and> is_ok (UTXO op a t w lt lh p)"
  by (auto simp: UTXO_def bnd_Inr_iff utxo_ok_def is_ok_iff)

lemma UTXO_fields:
  "utxo_ok u \<Longrightarrow> UTXO (u_outpoint u) (u_amount_matoms u) (u_template_id u) (u_owner_pubkey_hash u)
     (u_locktime_ms u) (u_lockheight u) (u_payload u) = Inr u"
  using template_range [of "u_template_id u"]
  by (simp add: UTXO_def bnd_ensure bnd_require_hash_len bnd_require_uint utxo_ok_def
      MAX_SUPPLY_MATOMS_def uint_limits)

lemma utxo_to_from_bytes:
  assumes "utxo_from_bytes H bs k = Inr u"
  shows "utxo_ok u \<and> utxo_to_bytes u = bs"
proof -
  have l: "96 \<le> length bs" using assms
    by (auto simp: utxo_from_bytes_def bnd_Inr_iff utxo_widths not_less)
  obtain op where op: "outpoint_from_bytes (slice bs 0 36) = Inr op"
    and n: "int (length bs) = 96 + from_le (slice bs 94 96)"
    and u: "UTXO op (from_le (slice bs 36 44)) (from_le (slice bs 44 46)) (slice bs 46 78)
      (from_le (slice bs 78 86)) (from_le (slice bs 86 94)) (drop 96 bs) = Inr u"
    using assms by (auto simp: utxo_from_bytes_def bnd_Inr_iff utxo_widths Let_def split: option.splits)
  note o = outpoint_to_from_bytes [OF op]
  from u have uf: "u = \<lparr>u_outpoint = op, u_amount_matoms = from_le (slice bs 36 44),
      u_template_id = from_le (slice bs 44 46), u_owner_pubkey_hash = slice bs 46 78,
      u_locktime_ms = from_le (slice bs 78 86), u_lockheight = from_le (slice bs 86 94),
      u_payload = drop 96 bs\<rparr>" and ok: "utxo_ok u"
    using UTXO_Inr_iff o(1) by blast+
  have "int (length (drop 96 bs)) = from_le (slice bs 94 96)" using n l by simp
  then have "utxo_to_bytes u = slice bs 0 36 @ slice bs 36 44 @ slice bs 44 46 @ slice bs 46 78
      @ slice bs 78 86 @ slice bs 86 94 @ slice bs 94 96 @ drop 96 bs"
    unfolding utxo_to_bytes_def uf utxo.simps o(2) U64_BYTES_def U16_BYTES_def
    using l by (simp add: le_bytes_slice)
  also have "\<dots> = bs" by (simp add: slice_drop)
  finally show ?thesis using ok by simp
qed

lemma utxo_from_to_bytes:
  assumes "utxo_ok u"
  shows "utxo_from_bytes H (utxo_to_bytes u) k =
    (case k of None \<Rightarrow> Inr u
     | Some key \<Rightarrow> if length key = HASH_LEN_BYTES \<and> utxo_key H u = key then Inr u else Inl ValueError)"
proof -
  let ?bs = "utxo_to_bytes u"
  let ?op = "outpoint_to_bytes (u_outpoint u)"
  have lo: "length ?op = 36"
    using assms length_outpoint_to_bytes [of "u_outpoint u"] by (simp add: utxo_ok_def utxo_widths)
  have lw: "length (u_owner_pubkey_hash u) = 32" using assms by (simp add: utxo_ok_def HASH_LEN_BYTES_def)
  note rng = assms [unfolded utxo_ok_def MAX_SUPPLY_MATOMS_def U64_MAX_def TX_OUTPUT_PAYLOAD_MAX_BYTES_def]
    template_range [of "u_template_id u"]
  have sl: "slice ?bs 0 36 = ?op"
    "slice ?bs 36 44 = le_bytes 8 (u_amount_matoms u)"
    "slice ?bs 44 46 = le_bytes 2 (u_template_id u)"
    "slice ?bs 46 78 = u_owner_pubkey_hash u"
    "slice ?bs 78 86 = le_bytes 8 (u_locktime_ms u)"
    "slice ?bs 86 94 = le_bytes 8 (u_lockheight u)"
    "slice ?bs 94 96 = le_bytes 2 (int (length (u_payload u)))"
    "drop 96 ?bs = u_payload u" and len: "length ?bs = 96 + length (u_payload u)"
    unfolding slice_def utxo_to_bytes_def U64_BYTES_def U16_BYTES_def using lo lw by simp_all
  have v: "from_le (le_bytes 8 (u_amount_matoms u)) = u_amount_matoms u"
    "from_le (le_bytes 2 (u_template_id u)) = u_template_id u"
    "from_le (le_bytes 8 (u_locktime_ms u)) = u_locktime_ms u"
    "from_le (le_bytes 8 (u_lockheight u)) = u_lockheight u"
    "from_le (le_bytes 2 (int (length (u_payload u)))) = int (length (u_payload u))"
    using rng by (simp_all add: from_le_bytes)
  have "outpoint_from_bytes ?op = Inr (u_outpoint u)"
    using assms by (simp add: outpoint_from_to_bytes utxo_ok_def)
  then show ?thesis
    unfolding utxo_from_bytes_def utxo_widths Let_def
    using len by (simp add: sl v UTXO_fields [OF assms] bnd_ensure bnd_require_hash_len
      HASH_LEN_BYTES_def split: option.split)
qed

section \<open>The set and its indexes\<close>

lemma empty_utxo_set_ok: "utxo_set_ok H empty_utxo_set"
  by (simp add: utxo_set_ok_def utxo_index_ok_def utxo_cache_ok_def empty_utxo_set_def owned_ops_def subtree_cache_ok_def)

lemma invalidated_cache_ok: "utxo_cache_ok H (invalidate_merkle_cache S)"
  by (simp add: utxo_cache_ok_def invalidate_merkle_cache_def subtree_cache_ok_def)

lemma invalidate_index [simp]:
  "us_utxos (invalidate_merkle_cache S) = us_utxos S"
  "us_outpoint_by_key (invalidate_merkle_cache S) = us_outpoint_by_key S"
  "us_outpoints_by_owner (invalidate_merkle_cache S) = us_outpoints_by_owner S"
  by (simp_all add: invalidate_merkle_cache_def)

lemma index_cache_update [simp]:
  "utxo_index_ok H (S\<lparr>us_items_cache := a\<rparr>) = utxo_index_ok H S"
  "utxo_index_ok H (S\<lparr>us_key_ints_cache := b\<rparr>) = utxo_index_ok H S"
  "utxo_index_ok H (S\<lparr>us_subtree_cache := c\<rparr>) = utxo_index_ok H S"
  by (simp_all add: utxo_index_ok_def)

lemma utxo_index_D:
  assumes "utxo_index_ok H S"
  shows "dict_ok (us_utxos S)"
    and "dict_get (us_utxos S) op = Some u \<Longrightarrow> u_outpoint u = op"
    and "dict_get (us_utxos S) op = Some u \<Longrightarrow> utxo_ok u"
    and "dict_get (us_outpoint_by_key S) k = Some op \<longleftrightarrow>
      (\<exists>u. dict_get (us_utxos S) op = Some u \<and> utxo_key H u = k)"
    and "dict_get (us_outpoints_by_owner S) w \<noteq> Some []"
    and "distinct (owned_ops (us_outpoints_by_owner S) w)"
    and "op \<in> set (owned_ops (us_outpoints_by_owner S) w) \<longleftrightarrow>
      (\<exists>u. dict_get (us_utxos S) op = Some u \<and> u_owner_pubkey_hash u = w)"
  using assms unfolding utxo_index_ok_def by blast+

lemma owned_ops_update: "owned_ops (dict_set w ops d) = (owned_ops d)(w := ops)"
  by (rule ext) (simp add: owned_ops_def update_conv')

lemma owned_ops_delete: "owned_ops (dict_del w d) = (owned_ops d)(w := [])"
  by (rule ext) (simp add: owned_ops_def delete_conv')

lemma utxo_key_unique:
  assumes "utxo_index_ok H S" "dict_get (us_utxos S) op = Some u" "dict_get (us_utxos S) op' = Some u'"
    "utxo_key H u = utxo_key H u'"
  shows "op = op' \<and> u = u'"
  using utxo_index_D(4) [OF assms(1), of "utxo_key H u"] assms by (metis option.inject)

lemma us_add_ok:
  assumes "utxo_index_ok H S" "utxo_ok u" "us_add H S u = Inr S'"
  shows "utxo_set_ok H S' \<and> dict_get (us_utxos S') = (dict_get (us_utxos S))(u_outpoint u \<mapsto> u)"
proof -
  let ?op = "u_outpoint u" and ?w = "u_owner_pubkey_hash u"
  note I = utxo_index_D [OF assms(1)]
  define owned where "owned = owned_ops (us_outpoints_by_owner S) ?w"
  have new: "dict_get (us_utxos S) ?op = None" "dict_get (us_outpoint_by_key S) (utxo_key H u) = None"
    and S': "us_utxos S' = dict_set ?op u (us_utxos S)"
      "us_outpoint_by_key S' = dict_set (utxo_key H u) ?op (us_outpoint_by_key S)"
      "us_outpoints_by_owner S' = dict_set ?w (List.insert ?op owned) (us_outpoints_by_owner S)"
      "utxo_cache_ok H S'"
    using assms(3) by (auto simp: us_add_def bnd_Inr_iff Let_def owned_def owned_ops_def intro: invalidated_cache_ok)
  have abs: "dict_get (us_utxos S') = (dict_get (us_utxos S))(?op \<mapsto> u)" by (simp add: S' update_conv')
  have nokey: "\<nexists>op u'. dict_get (us_utxos S) op = Some u' \<and> utxo_key H u' = utxo_key H u"
    using new(2) I(4) by (metis option.distinct(1))
  have "utxo_index_ok H S'"
    unfolding utxo_index_ok_def
  proof (intro conjI allI)
    show "dict_ok (us_utxos S')" using I(1) by (simp add: S' distinct_update)
    show "dict_get (us_utxos S') op = Some v \<longrightarrow> u_outpoint v = op \<and> utxo_ok v" for op v
      using I(2,3) assms(2) by (auto simp: abs)
    show "dict_get (us_outpoint_by_key S') k = Some op \<longleftrightarrow>
        (\<exists>v. dict_get (us_utxos S') op = Some v \<and> utxo_key H v = k)" for k op
      unfolding abs S'(2) update_conv' using I(4) [of k op] new(1) nokey by auto
    fix w
    show "dict_get (us_outpoints_by_owner S') w \<noteq> Some []"
      using I(5) [of w] by (simp add: S'(3) update_conv' List.insert_def) auto
    show "distinct (owned_ops (us_outpoints_by_owner S') w)"
      using I(6) by (simp add: S'(3) owned_ops_update owned_def)
    show "op \<in> set (owned_ops (us_outpoints_by_owner S') w) \<longleftrightarrow>
        (\<exists>v. dict_get (us_utxos S') op = Some v \<and> u_owner_pubkey_hash v = w)" for op
      using I(7) [of op w] new(1) by (auto simp: S'(3) abs owned_ops_update owned_def)
  qed
  then show ?thesis using S'(4) abs by (simp add: utxo_set_ok_def)
qed

lemma us_remove_ok:
  assumes "utxo_index_ok H S" "dict_get (us_utxos S) op = Some u"
  obtains S' where "us_remove H S op = Inr (u, S')" "utxo_set_ok H S'"
    "dict_get (us_utxos S') = (dict_get (us_utxos S))(op := None)"
proof -
  let ?w = "u_owner_pubkey_hash u"
  note I = utxo_index_D [OF assms(1)]
  have op: "op \<in> set (owned_ops (us_outpoints_by_owner S) ?w)" using I(7) assms(2) by blast
  then obtain ops where ops: "dict_get (us_outpoints_by_owner S) ?w = Some ops"
      "owned_ops (us_outpoints_by_owner S) ?w = ops"
    by (cases "dict_get (us_outpoints_by_owner S) ?w") (auto simp: owned_ops_def)
  have key: "dict_get (us_outpoint_by_key S) (utxo_key H u) = Some op" using I(4) assms(2) by blast
  define S' where "S' = invalidate_merkle_cache
    (S\<lparr>us_utxos := dict_del op (us_utxos S),
       us_outpoint_by_key := dict_del (utxo_key H u) (us_outpoint_by_key S),
       us_outpoints_by_owner :=
         (if removeAll op ops = [] then dict_del ?w (us_outpoints_by_owner S)
          else dict_set ?w (removeAll op ops) (us_outpoints_by_owner S))\<rparr>)"
  have S'': "us_utxos S' = dict_del op (us_utxos S)"
      "us_outpoint_by_key S' = dict_del (utxo_key H u) (us_outpoint_by_key S)"
      "us_outpoints_by_owner S' = (if removeAll op ops = [] then dict_del ?w (us_outpoints_by_owner S)
          else dict_set ?w (removeAll op ops) (us_outpoints_by_owner S))"
    by (simp_all add: S'_def)
  have abs: "dict_get (us_utxos S') = (dict_get (us_utxos S))(op := None)" by (simp add: S'' delete_conv')
  have run: "us_remove H S op = Inr (u, S')"
    using assms(2) key ops op by (auto simp: us_remove_def Let_def bnd_ensure S'_def)
  have "utxo_index_ok H S'"
    unfolding utxo_index_ok_def
  proof (intro conjI allI)
    show "dict_ok (us_utxos S')" using I(1) by (simp add: S'' distinct_delete)
    show "dict_get (us_utxos S') op' = Some v \<longrightarrow> u_outpoint v = op' \<and> utxo_ok v" for op' v
      using I(2,3) by (auto simp: abs)
    show "dict_get (us_outpoint_by_key S') k = Some op' \<longleftrightarrow>
        (\<exists>v. dict_get (us_utxos S') op' = Some v \<and> utxo_key H v = k)" for k op'
    proof -
      have "\<not> (\<exists>v. dict_get (us_utxos S) op' = Some v \<and> utxo_key H v = utxo_key H u)" if "op' \<noteq> op"
        using utxo_key_unique [OF assms(1,2), of op'] that by metis
      then show ?thesis
        unfolding abs S''(2) delete_conv' fun_upd_apply using I(4) [of k op'] assms(2)
        by (cases "k = utxo_key H u"; cases "op' = op") simp_all
    qed
    fix w
    have owned: "owned_ops (us_outpoints_by_owner S') = (owned_ops (us_outpoints_by_owner S))(?w := removeAll op ops)"
      by (auto simp: S''(3) owned_ops_update owned_ops_delete)
    show "dict_get (us_outpoints_by_owner S') w \<noteq> Some []"
      using I(5) [of w] by (simp add: S''(3) update_conv' delete_conv')
    show "distinct (owned_ops (us_outpoints_by_owner S') w)"
      using I(6) ops by (auto simp: owned distinct_removeAll)
    show "op' \<in> set (owned_ops (us_outpoints_by_owner S') w) \<longleftrightarrow>
        (\<exists>v. dict_get (us_utxos S') op' = Some v \<and> u_owner_pubkey_hash v = w)" for op'
      unfolding owned abs fun_upd_apply using I(7) [of op' w] assms(2) ops(2)
      by (cases "w = ?w"; cases "op' = op") simp_all
  qed
  then show ?thesis using that run abs by (simp add: utxo_set_ok_def S'_def invalidated_cache_ok)
qed

section \<open>The set as a map\<close>

locale utxo_store =
  fixes content :: "'s \<Rightarrow> outpoint \<Rightarrow> utxo option"
    and store_ok :: "'s \<Rightarrow> bool"
    and add :: "'s \<Rightarrow> utxo \<Rightarrow> 's res"
    and remove :: "'s \<Rightarrow> outpoint \<Rightarrow> (utxo \<times> 's) res"
  assumes add_ok: "store_ok s \<Longrightarrow> utxo_ok u \<Longrightarrow> add s u = Inr s' \<Longrightarrow>
      store_ok s' \<and> content s' = (content s)(u_outpoint u \<mapsto> u)"
    and add_fresh: "store_ok s \<Longrightarrow> add s u = Inr s' \<Longrightarrow> content s (u_outpoint u) = None"
    and remove_ok: "store_ok s \<Longrightarrow> content s op = Some u \<Longrightarrow>
      \<exists>s'. remove s op = Inr (u, s') \<and> store_ok s' \<and> content s' = (content s)(op := None)"
    and remove_absent: "store_ok s \<Longrightarrow> content s op = None \<Longrightarrow> remove s op = Inl KeyError"
    and content_ok: "store_ok s \<Longrightarrow> content s op = Some u \<Longrightarrow> u_outpoint u = op \<and> utxo_ok u"
begin

lemma remove_Inr_iff: "store_ok s \<Longrightarrow>
  (\<exists>s'. remove s op = Inr (u, s')) \<longleftrightarrow> content s op = Some u"
  using remove_ok [of s op] remove_absent [of s op] by (cases "content s op") fastforce+

lemma add_then_remove:
  assumes "store_ok s" "utxo_ok u" "add s u = Inr s1"
  shows "\<exists>s2. remove s1 (u_outpoint u) = Inr (u, s2) \<and> store_ok s2 \<and> content s2 = content s"
proof -
  note a = add_ok [OF assms] and f = add_fresh [OF assms(1,3)]
  from a remove_ok [of s1 "u_outpoint u" u] obtain s2 where
    "remove s1 (u_outpoint u) = Inr (u, s2)" "store_ok s2" "content s2 = (content s1)(u_outpoint u := None)"
    by auto
  then show ?thesis using a f by auto
qed

lemma double_spend:
  assumes "store_ok s" "remove s op = Inr (u, s1)"
  shows "store_ok s1 \<and> remove s1 op = Inl KeyError"
proof -
  have "content s op = Some u" using assms remove_Inr_iff by blast
  from remove_ok [OF assms(1) this] assms(2) show ?thesis by (auto intro: remove_absent)
qed

end

lemma us_get_eq: "us_get S = dict_get (us_utxos S)"
  by (rule ext) (simp add: us_get_def)

lemma us_remove_absent: "dict_get (us_utxos S) op = None \<Longrightarrow> us_remove H S op = Inl KeyError"
  by (simp add: us_remove_def)

interpretation utxos: utxo_store us_get "utxo_set_ok H" "us_add H" "us_remove H" for H
proof unfold_locales
  fix S S' u op
  show "utxo_set_ok H S \<Longrightarrow> utxo_ok u \<Longrightarrow> us_add H S u = Inr S' \<Longrightarrow>
      utxo_set_ok H S' \<and> us_get S' = (us_get S)(u_outpoint u \<mapsto> u)"
    using us_add_ok [of H S u S'] by (auto simp: us_get_def fun_eq_iff utxo_set_ok_def)
  show "us_add H S u = Inr S' \<Longrightarrow> us_get S (u_outpoint u) = None"
    by (auto simp: us_add_def bnd_Inr_iff us_get_def)
  show "utxo_set_ok H S \<Longrightarrow> us_get S op = Some u \<Longrightarrow>
      \<exists>S'. us_remove H S op = Inr (u, S') \<and> utxo_set_ok H S' \<and> us_get S' = (us_get S)(op := None)"
    unfolding us_get_eq utxo_set_ok_def by (elim conjE) (erule us_remove_ok, auto simp: utxo_set_ok_def)
  show "us_get S op = None \<Longrightarrow> us_remove H S op = Inl KeyError"
    by (simp add: us_get_def us_remove_absent)
  show "utxo_set_ok H S \<Longrightarrow> us_get S op = Some u \<Longrightarrow> u_outpoint u = op \<and> utxo_ok u"
    using utxo_index_D(2,3) [of H S op u] by (auto simp: us_get_def utxo_set_ok_def)
qed

section \<open>Properties\<close>

text \<open>The parser of stored outputs accepts exactly the canonical encodings: \<open>UTXO.from_bytes\<close>
  returns \<open>u\<close> on \<open>data\<close> iff \<open>u\<close> is a valid output and \<open>data\<close> is \<open>u.to_bytes()\<close>.\<close>

theorem utxo_bytes_canonical:
  "utxo_from_bytes H data None = Inr u \<longleftrightarrow> utxo_ok u \<and> utxo_to_bytes u = data"
  using utxo_to_from_bytes [of H data None u] utxo_from_to_bytes [of u H None] by auto

lemma us_add_error:
  assumes "utxo_set_ok H S" "us_add H S u = Inl e"
  shows "(e = KeyError \<and> us_get S (u_outpoint u) \<noteq> None) \<or>
    (e = ValueError \<and> us_get S (u_outpoint u) = None \<and> (\<exists>op v. us_get S op = Some v \<and> utxo_key H v = utxo_key H u))"
proof -
  have I: "utxo_index_ok H S" using assms(1) by (simp add: utxo_set_ok_def)
  have "(e = KeyError \<and> us_get S (u_outpoint u) \<noteq> None) \<or> (e = ValueError
      \<and> us_get S (u_outpoint u) = None \<and> dict_get (us_outpoint_by_key S) (utxo_key H u) \<noteq> None)"
    using assms(2) by (auto simp: us_add_def bnd_Inl_iff us_get_def Let_def)
  then show ?thesis using utxo_index_D(4) [OF I, of "utxo_key H u"] by (auto simp: us_get_def)
qed

lemma us_remove_add:
  assumes S: "utxo_set_ok H S" and v: "us_get S op = Some v"
  shows "\<exists>S1 S2. us_remove H S op = Inr (v, S1) \<and> utxo_set_ok H S1 \<and> us_get S1 = (us_get S)(op := None) \<and>
    us_remove H S1 op = Inl KeyError \<and> us_add H S1 v = Inr S2 \<and> utxo_set_ok H S2 \<and> us_get S2 = us_get S"
proof -
  obtain S1 where S1: "us_remove H S op = Inr (v, S1)" "utxo_set_ok H S1" "us_get S1 = (us_get S)(op := None)"
    using utxos.remove_ok [OF S v] by blast
  have vo: "u_outpoint v = op" "utxo_ok v" using utxos.content_ok [OF S v] by simp_all
  have I: "utxo_index_ok H S" using S by (simp add: utxo_set_ok_def)
  obtain S2 where S2: "us_add H S1 v = Inr S2"
  proof (cases "us_add H S1 v")
    case (Inl e)
    then obtain op' w where w: "us_get S1 op' = Some w" "utxo_key H w = utxo_key H v"
      using us_add_error [OF S1(2) Inl] S1(3) vo(1) by auto
    then have "op' \<noteq> op" "us_get S op' = Some w" using S1(3) by (auto split: if_splits)
    then show ?thesis using utxo_key_unique [OF I, of op' w op v] v w(2) by (simp add: us_get_def)
  qed
  have "us_remove H S1 op = Inl KeyError" using utxos.remove_absent [OF S1(2)] S1(3) by simp
  moreover have "utxo_set_ok H S2 \<and> us_get S2 = us_get S" using utxos.add_ok [OF S1(2) vo(2) S2] S1(3) v vo(1) by auto
  ultimately show ?thesis using S1 S2 by blast
qed

text \<open>(C15) The set behaves as a map from outpoints to outputs. Adding a valid output fails with
  \<open>KeyError\<close> exactly when its outpoint is stored, with \<open>ValueError\<close> exactly when another stored
  outpoint has its key, and otherwise keeps the three indexes consistent, stores the output, and can
  be undone: \<open>remove\<close> gives the output back and restores the contents. Removing any stored outpoint returns its output, keeps the
  indexes consistent and deletes that outpoint alone, after which a second \<open>remove\<close> fails and adding
  the output again restores the contents; removing any other outpoint fails with \<open>KeyError\<close>.\<close>

theorem utxo_set_add_remove:
  assumes "utxo_set_ok H S" "utxo_ok u"
  shows "(case us_add H S u of
      Inl e \<Rightarrow> (e = KeyError \<and> us_get S (u_outpoint u) \<noteq> None)
        \<or> (e = ValueError \<and> us_get S (u_outpoint u) = None
           \<and> (\<exists>op v. us_get S op = Some v \<and> utxo_key H v = utxo_key H u))
    | Inr S1 \<Rightarrow> us_get S (u_outpoint u) = None \<and> utxo_set_ok H S1 \<and> us_get S1 = (us_get S)(u_outpoint u \<mapsto> u)
        \<and> (\<exists>S2. us_remove H S1 (u_outpoint u) = Inr (u, S2) \<and> utxo_set_ok H S2
             \<and> us_get S2 = us_get S \<and> us_remove H S2 (u_outpoint u) = Inl KeyError)) \<and>
    (\<forall>op. case us_get S op of
      None \<Rightarrow> us_remove H S op = Inl KeyError
    | Some v \<Rightarrow> \<exists>S1 S2. us_remove H S op = Inr (v, S1) \<and> utxo_set_ok H S1 \<and> us_get S1 = (us_get S)(op := None) \<and>
        us_remove H S1 op = Inl KeyError \<and> us_add H S1 v = Inr S2 \<and> utxo_set_ok H S2 \<and> us_get S2 = us_get S)"
proof (intro conjI allI)
  fix op
  show "case us_get S op of
      None \<Rightarrow> us_remove H S op = Inl KeyError
    | Some v \<Rightarrow> \<exists>S1 S2. us_remove H S op = Inr (v, S1) \<and> utxo_set_ok H S1 \<and> us_get S1 = (us_get S)(op := None) \<and>
        us_remove H S1 op = Inl KeyError \<and> us_add H S1 v = Inr S2 \<and> utxo_set_ok H S2 \<and> us_get S2 = us_get S"
    using utxos.remove_absent [OF assms(1), of op] us_remove_add [OF assms(1), of op] by (cases "us_get S op") simp_all
next
  show "case us_add H S u of
      Inl e \<Rightarrow> (e = KeyError \<and> us_get S (u_outpoint u) \<noteq> None)
        \<or> (e = ValueError \<and> us_get S (u_outpoint u) = None
           \<and> (\<exists>op v. us_get S op = Some v \<and> utxo_key H v = utxo_key H u))
    | Inr S1 \<Rightarrow> us_get S (u_outpoint u) = None \<and> utxo_set_ok H S1 \<and> us_get S1 = (us_get S)(u_outpoint u \<mapsto> u)
        \<and> (\<exists>S2. us_remove H S1 (u_outpoint u) = Inr (u, S2) \<and> utxo_set_ok H S2
             \<and> us_get S2 = us_get S \<and> us_remove H S2 (u_outpoint u) = Inl KeyError)"
  proof (cases "us_add H S u")
    case (Inl e)
    then show ?thesis using us_add_error [OF assms(1) Inl] by simp
  next
    case (Inr S1)
    from utxos.add_then_remove [OF assms Inr] obtain S2 where
      "us_remove H S1 (u_outpoint u) = Inr (u, S2)" "utxo_set_ok H S2" "us_get S2 = us_get S" by blast
    moreover have "us_remove H S2 (u_outpoint u) = Inl KeyError"
      using utxos.double_spend utxos.add_ok [OF assms Inr] calculation by blast
    ultimately show ?thesis using Inr utxos.add_ok [OF assms Inr] utxos.add_fresh [OF assms(1) Inr] by auto
  qed
qed

lemma pad_hash_digest: "digest_ok pad_hash"
  by (auto simp: digest_ok_def pad_hash_def zero_bytes_def min_def)

lemma example_utxo_ok: "utxo_ok example_utxo" by code_simp

theorem utxo_set_add_remove_witness:
  "us_get (case us_add pad_hash empty_utxo_set example_utxo of Inr S \<Rightarrow> S | Inl _ \<Rightarrow> empty_utxo_set)
     (u_outpoint example_utxo) = Some example_utxo"
proof -
  have "is_ok (us_add pad_hash empty_utxo_set example_utxo)" by code_simp
  then show ?thesis
    using utxo_set_add_remove [OF empty_utxo_set_ok example_utxo_ok, of pad_hash]
    by (auto simp: is_ok_iff)
qed

lemma example_utxos_ok: "utxo_set_ok pad_hash example_utxos"
  "us_get example_utxos (u_outpoint example_utxo) = Some example_utxo"
proof -
  have "is_ok (us_add pad_hash empty_utxo_set example_utxo)" by code_simp
  then obtain S where S: "us_add pad_hash empty_utxo_set example_utxo = Inr S" by (auto simp: is_ok_iff)
  from utxos.add_ok [OF empty_utxo_set_ok example_utxo_ok S]
  show "utxo_set_ok pad_hash example_utxos" "us_get example_utxos (u_outpoint example_utxo) = Some example_utxo"
    by (simp_all add: example_utxos_def S)
qed

end
