(* ===== verification/UTXO_Merkle.thy ===== *)
theory UTXO_Merkle
  imports UTXO_State
begin

text \<open>
  The sparse Merkle tree of \<^verbatim>\<open>src/src/tensorpow/state/utxo.py\<close>, verified: the binary search selects the
  items below a path, the cached recursion computes the reference node, proofs of membership and of
  absence verify against the root, and an accepted proof tells the truth unless one of finitely many
  listed pairs of strings is a collision of the digest.
\<close>

section \<open>The sparse Merkle tree\<close>

declare bisect_loop.simps [simp del] subtree_root.simps [simp del]

subsection \<open>Binary search\<close>

lemma bisect_loop_spec:
  assumes "sorted a" "lo \<le> hi" "hi \<le> length a" "\<forall>i<lo. a ! i < x"
    "\<forall>i. hi \<le> i \<and> i < length a \<longrightarrow> x \<le> a ! i"
  shows "lo \<le> bisect_loop a x lo hi \<and> bisect_loop a x lo hi \<le> length a
    \<and> (\<forall>i < bisect_loop a x lo hi. a ! i < x)
    \<and> (\<forall>i. bisect_loop a x lo hi \<le> i \<and> i < length a \<longrightarrow> x \<le> a ! i)"
  using assms
proof (induction a x lo hi rule: bisect_loop.induct)
  case (1 a x lo hi)
  let ?mid = "(lo + hi) div 2"
  note sorted = sorted_nth_mono [OF \<open>sorted a\<close>]
  show ?case
  proof (cases "lo < hi")
    case False
    then show ?thesis using "1.prems" by (simp add: bisect_loop.simps)
  next
    case True
    then have m: "lo \<le> ?mid" "?mid < hi" "?mid < length a" using "1.prems" by auto
    show ?thesis
    proof (cases "a ! ?mid < x")
      case a: True
      have "a ! i < x" if "i < ?mid + 1" for i
        using sorted [of i ?mid] that a m by simp
      then have "?mid + 1 \<le> bisect_loop a x (?mid + 1) hi \<and> bisect_loop a x (?mid + 1) hi \<le> length a
        \<and> (\<forall>i < bisect_loop a x (?mid + 1) hi. a ! i < x)
        \<and> (\<forall>i. bisect_loop a x (?mid + 1) hi \<le> i \<and> i < length a \<longrightarrow> x \<le> a ! i)"
        using "1.prems" m by (intro "1.IH"(1) [OF True refl a]) simp_all
      then show ?thesis using True a m by (subst (1 2 3 4) bisect_loop.simps) (simp add: Let_def)
    next
      case a: False
      have "x \<le> a ! i" if "?mid \<le> i \<and> i < length a" for i
        using sorted [of ?mid i] that a m by simp
      then have "lo \<le> bisect_loop a x lo ?mid \<and> bisect_loop a x lo ?mid \<le> length a
        \<and> (\<forall>i < bisect_loop a x lo ?mid. a ! i < x)
        \<and> (\<forall>i. bisect_loop a x lo ?mid \<le> i \<and> i < length a \<longrightarrow> x \<le> a ! i)"
        using "1.prems" m by (intro "1.IH"(2) [OF True refl a]) simp_all
      then show ?thesis using True a m by (subst (1 2 3 4) bisect_loop.simps) (simp add: Let_def)
    qed
  qed
qed

lemma bisect_left_spec:
  assumes "sorted a" "lo \<le> length a" "\<forall>i<lo. a ! i < x"
  shows "lo \<le> bisect_left a x lo" "bisect_left a x lo \<le> length a"
    "i < bisect_left a x lo \<Longrightarrow> a ! i < x"
    "bisect_left a x lo \<le> i \<Longrightarrow> i < length a \<Longrightarrow> x \<le> a ! i"
  using bisect_loop_spec [of a lo "length a" x] assms by (auto simp: bisect_left_def)

lemma slice_filter:
  assumes "s \<le> e" "e \<le> length xs" "\<And>i. i < length xs \<Longrightarrow> P (xs ! i) \<longleftrightarrow> s \<le> i \<and> i < e"
  shows "slice xs s e = filter P xs"
proof -
  have split: "xs = take s xs @ slice xs s e @ drop e xs"
    using assms(1) by (simp add: slice_drop)
  have "filter P (take s xs) = []" using assms by (auto simp: filter_empty_conv in_set_conv_nth)
  moreover have "filter P (drop e xs) = []" using assms by (auto simp: filter_empty_conv in_set_conv_nth)
  moreover have "filter P (slice xs s e) = slice xs s e"
    using assms by (auto simp: filter_id_conv slice_def in_set_conv_nth)
  ultimately show ?thesis using split by (metis append_Nil append_Nil2 filter_append)
qed

lemma drop_bit_eq_range: "drop_bit n (k :: int) = p \<longleftrightarrow> p * 2 ^ n \<le> k \<and> k < (p + 1) * 2 ^ n"
proof
  assume "drop_bit n k = p"
  then have "k = 2 ^ n * p + k mod 2 ^ n" using mult_div_mod_eq [of "2 ^ n" k] by (simp add: drop_bit_eq_div)
  moreover have "0 \<le> k mod 2 ^ n" "k mod 2 ^ n < 2 ^ n" by simp_all
  ultimately show "p * 2 ^ n \<le> k \<and> k < (p + 1) * 2 ^ n"
    unfolding distrib_right mult_1 mult.commute [of p] by linarith
next
  assume "p * 2 ^ n \<le> k \<and> k < (p + 1) * 2 ^ n"
  then have "k div 2 ^ n = p"
    by (intro int_div_pos_eq [where r = "k - 2 ^ n * p"]) (auto simp: algebra_simps)
  then show "drop_bit n k = p" by (simp add: drop_bit_eq_div)
qed

lemma range_for_prefix_at:
  assumes "sorted (map fst items)" "d \<le> MERKLE_DEPTH_BITS" "0 \<le> p" "p < 2 ^ d"
  obtains s e where "range_for_prefix (map fst items) d p = Inr (s, e)"
    "s \<le> e" "e \<le> length items" "slice items s e = at_prefix items d p"
proof -
  let ?ks = "map fst items" and ?n = "KEY_SPACE_BITS - d"
  define s where "s = bisect_left ?ks (push_bit ?n p) 0"
  define e where "e = bisect_left ?ks (push_bit ?n (p + 1)) s"
  have le: "push_bit ?n p \<le> push_bit ?n (p + 1)" by (simp add: push_bit_eq_mult)
  note S = bisect_left_spec [where lo = 0 and x = "push_bit ?n p", OF assms(1), folded s_def]
  have pre: "\<forall>i < s. ?ks ! i < push_bit ?n (p + 1)" using S(3) le by force
  have s: "s \<le> length ?ks" using S(2) by simp
  note E = bisect_left_spec [OF assms(1) s pre, folded e_def]
  have "range_for_prefix ?ks d p = Inr (s, e)"
    using assms(2,3,4)
    by (simp add: range_for_prefix_def bnd_require_uint bnd_ensure Let_def s_def e_def
        MERKLE_DEPTH_BITS_def HASH_LEN_BYTES_def U16_MAX_def push_bit_eq_mult)
  moreover have "slice items s e = at_prefix items d p"
    unfolding at_prefix_def
  proof (rule slice_filter)
    fix i assume i: "i < length items"
    have "push_bit ?n p \<le> ?ks ! i \<longleftrightarrow> s \<le> i" using S(3,4) [of i] i by fastforce
    moreover have "?ks ! i < push_bit ?n (p + 1) \<longleftrightarrow> i < e" using E(3,4) [of i] i by fastforce
    ultimately show "item_prefix d (items ! i) = p \<longleftrightarrow> s \<le> i \<and> i < e"
      using i by (simp add: item_prefix_def drop_bit_eq_range push_bit_eq_mult)
  qed (use E in simp_all)
  ultimately show ?thesis using that E by simp
qed

subsection \<open>The cached recursion\<close>

lemma merkle_depth: "MERKLE_DEPTH_BITS = 256" "KEY_SPACE_BITS = 256" 
  by (simp_all add: MERKLE_DEPTH_BITS_def HASH_LEN_BYTES_def KEY_SPACE_BITS_def)

lemma drop_bit_step: "drop_bit n (k :: int) = 2 * drop_bit (Suc n) k + of_bool (bit k n)"
proof -
  have "drop_bit (Suc n) k = drop_bit n k div 2"
    by (simp add: drop_bit_eq_div div_mult2_eq mult.commute flip: zdiv_zmult2_eq)
  moreover have "of_bool (bit k n) = drop_bit n k mod 2"
    by (simp add: bit_iff_odd drop_bit_eq_div mod2_eq_if)
  ultimately show ?thesis by simp
qed

lemma item_prefix_step:
  assumes "d < MERKLE_DEPTH_BITS"
  shows "item_prefix (Suc d) it = 2 * item_prefix d it + of_bool (bit (fst it) (MERKLE_DEPTH_BITS - Suc d))"
proof -
  have "KEY_SPACE_BITS - d = Suc (MERKLE_DEPTH_BITS - Suc d)" using assms by (simp add: merkle_depth)
  then show ?thesis
    using drop_bit_step [of "MERKLE_DEPTH_BITS - Suc d" "fst it"]
    by (simp add: item_prefix_def merkle_depth)
qed

lemma at_prefix_step:
  assumes "d < MERKLE_DEPTH_BITS"
  shows "at_prefix items (Suc d) (2 * p) =
      filter (\<lambda>i. \<not> bit (fst i) (MERKLE_DEPTH_BITS - Suc d)) (at_prefix items d p)"
    and "at_prefix items (Suc d) (2 * p + 1) =
      filter (\<lambda>i. bit (fst i) (MERKLE_DEPTH_BITS - Suc d)) (at_prefix items d p)"
  using assms by (auto simp: at_prefix_def item_prefix_step intro!: filter_cong split: if_splits)
    presburger+

lemma smt_at_step:
  assumes "d < MERKLE_DEPTH_BITS" "at_prefix items d p \<noteq> []"
  shows "smt_at H items d p = H (DOMAIN_MERKLE_NODE # le_bytes U16_BYTES (int d)
    @ smt_at H items (Suc d) (2 * p) @ smt_at H items (Suc d) (2 * p + 1))"
proof -
  obtain n where n: "MERKLE_DEPTH_BITS - d = Suc n" "MERKLE_DEPTH_BITS - Suc d = n" "MERKLE_DEPTH_BITS - Suc n = d"
    using assms(1) by (metis Suc_diff_Suc Suc_leI diff_diff_cancel diff_Suc_Suc less_imp_le)
  obtain it rest where it: "at_prefix items d p = it # rest" using assms(2) by (cases "at_prefix items d p") auto
  show ?thesis unfolding smt_at_def at_prefix_step [OF assms(1)] n it by (simp add: n)
qed

lemma smt_at_empty: "d \<le> MERKLE_DEPTH_BITS \<Longrightarrow> at_prefix items d p = [] \<Longrightarrow>
  empty_hash H d = Inr (smt_at H items d p)"
  by (auto simp: empty_hash_def bnd_require_uint bnd_ensure smt_at_def domain_hash_def hash_bytes_def
      merkle_depth U16_MAX_def U16_BYTES_def)

lemma length_smt_at: "digest_ok H \<Longrightarrow> length (smt_at H items d p) = HASH_LEN_BYTES"
  by (simp add: smt_at_def digest_ok_def)

lemma node_hash_ok:
  "length l = HASH_LEN_BYTES \<Longrightarrow> length r = HASH_LEN_BYTES \<Longrightarrow> d \<le> MERKLE_DEPTH_BITS \<Longrightarrow>
   node_hash H d l r = Inr (H (DOMAIN_MERKLE_NODE # le_bytes U16_BYTES (int d) @ l @ r))"
  by (simp add: node_hash_def bnd_require_uint bnd_require_hash_len domain_hash_def hash_bytes_def
      merkle_depth U16_MAX_def)

lemma distinct_singleton: "distinct xs \<Longrightarrow> set xs = {a} \<Longrightarrow> xs = [a]"
  by (cases xs; cases "tl xs") auto

lemma at_prefix_leaf:
  assumes "items_ok items" "at_prefix items MERKLE_DEPTH_BITS p \<noteq> []"
  obtains key vh where "at_prefix items MERKLE_DEPTH_BITS p = [(p, key, vh)]" "(p, key, vh) \<in> set items"
    "length key = HASH_LEN_BYTES" "length vh = HASH_LEN_BYTES"
proof -
  have eq: "at_prefix items MERKLE_DEPTH_BITS p = filter (\<lambda>it. fst it = p) items"
    by (simp add: at_prefix_def item_prefix_def merkle_depth)
  obtain key vh where m: "(p, key, vh) \<in> set items"
    using assms(2) by (fastforce simp: eq filter_empty_conv)
  have d: "distinct items" "inj_on fst (set items)" using assms(1)
    by (auto simp: items_ok_def distinct_map)
  have one: "it = (p, key, vh)" if "it \<in> set items" "fst it = p" for it
    using inj_onD [OF d(2), of it "(p, key, vh)"] that m by simp
  have "set (filter (\<lambda>it. fst it = p) items) = {(p, key, vh)}"
  proof
    show "set (filter (\<lambda>it. fst it = p) items) \<subseteq> {(p, key, vh)}"
      unfolding set_filter using one by blast
  qed (use m in simp)
  moreover have "distinct (filter (\<lambda>it. fst it = p) items)" using d by simp
  ultimately have "filter (\<lambda>it. fst it = p) items = [(p, key, vh)]"
    by (rule distinct_singleton [rotated])
  then show ?thesis using that m assms(1) unfolding eq items_ok_def by fastforce
qed

lemma subtree_root_spec:
  assumes "items_ok items" "digest_ok H"
  shows "subtree_cache_ok H items c \<Longrightarrow> d \<le> MERKLE_DEPTH_BITS \<Longrightarrow> 0 \<le> p \<Longrightarrow> p < 2 ^ d \<Longrightarrow>
    \<exists>c'. subtree_root H items (map fst items) d p c = Inr (smt_at H items d p, c')
      \<and> subtree_cache_ok H items c'"
proof (induction "MERKLE_DEPTH_BITS - d" arbitrary: c d p)
  case hyp: 0
  then have d: "d = MERKLE_DEPTH_BITS" by simp
  obtain s e where r: "range_for_prefix (map fst items) d p = Inr (s, e)" "s \<le> e" "e \<le> length items"
    "slice items s e = at_prefix items d p"
    using range_for_prefix_at [of items d p] assms(1) hyp.prems by (auto simp: items_ok_def)
  show ?case
  proof (cases "dict_get c (d, p)")
    case (Some h)
    then show ?thesis using hyp.prems by (auto simp: subtree_root.simps subtree_cache_ok_def)
  next
    case None
    note unf = subtree_root.simps [of H items "map fst items" "MERKLE_DEPTH_BITS" p c] subtree_root.simps [of H items "map fst items" d p c]
    show ?thesis
    proof (cases "at_prefix items d p = []")
      case True
      then have "s = e" using r by (auto simp: slice_def)
      then show ?thesis using None True r smt_at_empty hyp.prems by (simp add: unf(2))
    next
      case False
      then obtain key vh where k: "at_prefix items d p = [(p, key, vh)]" 
          "length key = HASH_LEN_BYTES" "length vh = HASH_LEN_BYTES"
        using at_prefix_leaf [OF assms(1)] d by metis
      have se: "e = Suc s" "items ! s = (p, key, vh)"
      proof -
        have "length (slice items s e) = 1" using r k by simp
        then show "e = Suc s" using r by (simp add: slice_def)
        then show "items ! s = (p, key, vh)" using r k by (simp add: slice_def take_Suc hd_drop_conv_nth split: list.splits)
      qed
      have "smt_at H items d p = domain_hash H DOMAIN_MERKLE_LEAF (key @ vh)"
        using k d by (simp add: smt_at_def domain_hash_def hash_bytes_def)
      then have "subtree_root H items (map fst items) d p c =
          Inr (smt_at H items d p, dict_set (d, p) (smt_at H items d p) c)"
        using None r(1) se d k by (simp add: unf leaf_hash_def bnd_require_hash_len)
      then show ?thesis using hyp.prems by (auto simp: subtree_cache_ok_def update_conv)
    qed
  qed
next
  case hyp: (Suc n)
  then have d: "d < MERKLE_DEPTH_BITS" "n = MERKLE_DEPTH_BITS - Suc d" by auto
  obtain s e where r: "range_for_prefix (map fst items) d p = Inr (s, e)" "s \<le> e" "e \<le> length items"
    "slice items s e = at_prefix items d p"
    using range_for_prefix_at [of items d p] assms(1) hyp.prems by (auto simp: items_ok_def)
  show ?case
  proof (cases "dict_get c (d, p)")
    case (Some h)
    then show ?thesis using hyp.prems by (auto simp: subtree_root.simps subtree_cache_ok_def)
  next
    case None
    note unf = subtree_root.simps [of H items "map fst items" d p c]
    show ?thesis
    proof (cases "at_prefix items d p = []")
      case True
      then have "s = e" using r by (auto simp: slice_def)
      then show ?thesis using None True r smt_at_empty hyp.prems by (simp add: unf)
    next
      case False
      then have ne: "s \<noteq> e" using r by (auto simp: slice_def)
      have p: "p * 2 = 2 * p" "2 * p OR 1 = 2 * p + 1"
        by (simp_all add: or_one_eq)
      have b: "0 \<le> 2 * p" "2 * p < 2 ^ Suc d" "0 \<le> 2 * p + 1" "2 * p + 1 < 2 ^ Suc d"
        using hyp.prems by auto
      obtain c1 where c1: "subtree_root H items (map fst items) (Suc d) (2 * p) c =
          Inr (smt_at H items (Suc d) (2 * p), c1)" "subtree_cache_ok H items c1"
        using hyp.hyps(1) [OF d(2) hyp.prems(1) _ b(1,2)] d by auto
      obtain c2 where c2: "subtree_root H items (map fst items) (Suc d) (2 * p + 1) c1 =
          Inr (smt_at H items (Suc d) (2 * p + 1), c2)" "subtree_cache_ok H items c2"
        using hyp.hyps(1) [OF d(2) c1(2) _ b(3,4)] d by auto
      have "subtree_root H items (map fst items) d p c =
          Inr (smt_at H items d p, dict_set (d, p) (smt_at H items d p) c2)"
        using None r(1) ne d c1 c2 smt_at_step [OF d(1) False] 
        by (simp add: unf p node_hash_ok length_smt_at assms(2))
      then show ?thesis using c2 by (auto simp: subtree_cache_ok_def update_conv)
    qed
  qed
qed

subsection \<open>Paths and proofs\<close>

lemma bit_from_le:
  "j < 8 * length bs \<Longrightarrow> bit (from_le bs) j \<longleftrightarrow> bit (uint (bs ! (j div 8))) (j mod 8)"
proof (induction bs arbitrary: j)
  case (Cons b bs)
  show ?case
  proof (cases "j < 8")
    case True
    have "(256 :: int) = 2 ^ j * 2 ^ (8 - j)" using True by (simp flip: power_add)
    then have e: "uint b + 256 * from_le bs = uint b + 2 ^ j * (2 ^ (8 - j) * from_le bs)"
      by (simp only: mult.assoc)
    have "(uint b + 256 * from_le bs) div 2 ^ j = uint b div 2 ^ j + 2 ^ (8 - j) * from_le bs"
      unfolding e by simp
    then show ?thesis using True by (simp add: bit_iff_odd)
  next
    case False
    then obtain i where j: "j = i + 8" by (metis add.commute le_add_diff_inverse not_less)
    have "(uint b + 256 * from_le bs) div 2 ^ j = (uint b + 256 * from_le bs) div 256 div 2 ^ i"
      using zdiv_zmult2_eq [of "2 ^ i" "uint b + 256 * from_le bs" 256]
      by (simp only: j power_add mult.commute [of "2 ^ i"] zero_le_numeral zero_le_power) simp
    also have "(uint b + 256 * from_le bs) div 256 = from_le bs" using uint_byte_less [of b] by simp
    finally have "bit (from_le (b # bs)) j = bit (from_le bs) i" by (simp add: bit_iff_odd)
    moreover have "(b # bs) ! (j div 8) = bs ! (i div 8)" "j mod 8 = i mod 8" by (simp_all add: j div_add_self2)
    ultimately show ?thesis using Cons j by simp
  qed
qed simp

lemma bit_at_key:
  assumes "length key = HASH_LEN_BYTES" "i < MERKLE_DEPTH_BITS"
  shows "bit_at key i = of_bool (key_bit (from_be key) i)"
proof -
  have i: "i < 256" and l: "length key = 32" using assms by (simp_all add: merkle_depth HASH_LEN_BYTES_def)
  define q r where "q = 31 - i div 8" and "r = 7 - i mod 8"
  have "i div 8 \<le> 31" using i by simp
  then have "255 - i = r + 8 * q" unfolding q_def r_def
    using mult_div_mod_eq [of 8 i] mod_less_divisor [of 8 i] by linarith
  moreover have "r < 8" by (simp add: r_def)
  ultimately have "(255 - i) div 8 = q" "(255 - i) mod 8 = r" by simp_all
  then have d: "(255 - i) div 8 = 31 - i div 8" "(255 - i) mod 8 = 7 - i mod 8"
    by (simp_all add: q_def r_def)
  have "bit (from_be key) (255 - i) \<longleftrightarrow> bit (uint (rev key ! (31 - i div 8))) (7 - i mod 8)"
    using bit_from_le [of "255 - i" "rev key"] l d by (simp add: from_be_def)
  also have "rev key ! (31 - i div 8) = key ! (i div 8)" using l i by (simp add: rev_nth)
  finally show ?thesis
    by (simp add: bit_at_def key_bit_def merkle_depth and_one_eq bit_iff_odd drop_bit_eq_div mod2_eq_if)
qed

lemma from_be_bounds: "length key = HASH_LEN_BYTES \<Longrightarrow> 0 \<le> from_be key \<and> from_be key < 2 ^ MERKLE_DEPTH_BITS"
  using from_le_less [of "rev key"] by (simp add: from_be_def HASH_LEN_BYTES_def merkle_depth)

lemma from_be_inject: "length xs = length ys \<Longrightarrow> from_be xs = from_be ys \<longleftrightarrow> xs = ys"
  by (simp add: from_be_def from_le_inject)

lemma key_prefix_step:
  "i < MERKLE_DEPTH_BITS \<Longrightarrow> key_prefix K (Suc i) = 2 * key_prefix K i + of_bool (key_bit K i)"
  using item_prefix_step [of i "(K, [], [])"] by (simp add: key_prefix_def item_prefix_def key_bit_def)

lemma key_prefix_bounds:
  assumes "0 \<le> K" "K < 2 ^ MERKLE_DEPTH_BITS" "i \<le> MERKLE_DEPTH_BITS"
  shows "0 \<le> key_prefix K i \<and> key_prefix K i < 2 ^ i"
proof -
  let ?q = "key_prefix K i"
  have "?q * 2 ^ (MERKLE_DEPTH_BITS - i) \<le> K"
    using drop_bit_eq_range [of "MERKLE_DEPTH_BITS - i" K ?q] by (simp add: key_prefix_def merkle_depth)
  also have "\<dots> < 2 ^ i * 2 ^ (MERKLE_DEPTH_BITS - i)" using assms by (simp flip: power_add)
  finally show ?thesis using assms by (simp add: key_prefix_def)
qed

lemma key_prefix_ends: "key_prefix K MERKLE_DEPTH_BITS = K"
  "0 \<le> K \<Longrightarrow> K < 2 ^ MERKLE_DEPTH_BITS \<Longrightarrow> key_prefix K 0 = 0"
  by (simp_all add: key_prefix_def merkle_depth drop_bit_eq_div)

lemma prefix_int_eq:
  "i \<le> MERKLE_DEPTH_BITS \<Longrightarrow> 0 \<le> K \<Longrightarrow> K < 2 ^ MERKLE_DEPTH_BITS \<Longrightarrow>
   prefix_int K i = Inr (key_prefix K i)"
  using key_prefix_ends(2) [of K]
  by (auto simp: prefix_int_def bnd_require_uint bnd_ensure key_prefix_def merkle_depth U16_MAX_def)

lemma siblings_loop_spec:
  assumes "items_ok items" "digest_ok H" "length key = HASH_LEN_BYTES"
  shows "subtree_cache_ok H items c \<Longrightarrow> \<forall>i \<in> set is. i < MERKLE_DEPTH_BITS \<Longrightarrow>
    \<exists>c'. siblings_loop H key items (map fst items) is c =
        Inr (map (smt_sibling H items (from_be key)) is, c') \<and> subtree_cache_ok H items c'"
proof (induction "is" arbitrary: c)
  case (Cons i "is")
  let ?K = "from_be key"
  let ?p = "2 * key_prefix ?K i + of_bool (\<not> key_bit ?K i)"
  have i: "i < MERKLE_DEPTH_BITS" using Cons.prems by simp
  note K = from_be_bounds [OF assms(3)]
  have p: "push_bit 1 (key_prefix ?K i) OR (1 - bit_at key i) = ?p"
    by (simp add: bit_at_key [OF assms(3) i] or_one_eq)
  have "0 \<le> ?p" "?p < 2 ^ Suc i" using key_prefix_bounds [of ?K i] K i by auto
  then obtain c1 where c1: "subtree_root H items (map fst items) (Suc i) ?p c =
      Inr (smt_sibling H items ?K i, c1)" "subtree_cache_ok H items c1"
    using subtree_root_spec [OF assms(1,2) Cons.prems(1), of "Suc i" ?p] i by (auto simp: smt_sibling_def)
  obtain c2 where c2: "siblings_loop H key items (map fst items) is c1 =
      Inr (map (smt_sibling H items ?K) is, c2)" "subtree_cache_ok H items c2"
    using Cons.IH [OF c1(2)] Cons.prems(2) by auto
  have "siblings_loop H key items (map fst items) (i # is) c =
      Inr (map (smt_sibling H items ?K) (i # is), c2)"
    using prefix_int_eq [of i ?K] i K
    by (simp only: siblings_loop.simps Let_def p bnd_simps less_imp_le c1(1) c2(1) Suc_eq_plus1 [symmetric]
        split_conv list.map)
  then show ?case using c2 by blast
qed simp

lemma climb_complete:
  assumes "digest_ok H" "length key = HASH_LEN_BYTES"
  shows "d \<le> MERKLE_DEPTH_BITS \<Longrightarrow> d \<le> n \<Longrightarrow>
    \<forall>i<d. at_prefix items i (key_prefix (from_be key) i) \<noteq> [] \<Longrightarrow>
    climb H key (map (smt_sibling H items (from_be key)) [0..<n]) d
      (smt_at H items d (key_prefix (from_be key) d)) = Inr (smt_at H items 0 0)"
proof (induction d)
  case 0
  then show ?case using key_prefix_ends(2) from_be_bounds [OF assms(2)] by simp
next
  case (Suc d)
  let ?K = "from_be key"
  have d: "d < MERKLE_DEPTH_BITS" "at_prefix items d (key_prefix ?K d) \<noteq> []" using Suc.prems by auto
  have s: "map (smt_sibling H items ?K) [0..<n] ! d = smt_sibling H items ?K d" using Suc.prems by simp
  have "(if bit_at key d = 0 then node_hash H d (smt_at H items (Suc d) (key_prefix ?K (Suc d))) (smt_sibling H items ?K d)
        else node_hash H d (smt_sibling H items ?K d) (smt_at H items (Suc d) (key_prefix ?K (Suc d))))
     = Inr (smt_at H items d (key_prefix ?K d))"
    using d(1) smt_at_step [OF d, of H] assms
    by (cases "key_bit ?K d") (simp_all add: bit_at_key key_prefix_step smt_sibling_def node_hash_ok length_smt_at)
  then show ?case using Suc by (simp only: climb.simps Let_def s bnd_simps) simp
qed

lemma smt_pre_tags:
  "n \<le> MERKLE_DEPTH_BITS \<Longrightarrow> smt_pre H n items = DOMAIN_MERKLE_EMPTY # bs \<Longrightarrow> items = []"
  "smt_pre H n items = DOMAIN_MERKLE_NODE # bs \<Longrightarrow> items \<noteq> []"
  "smt_pre H n items = DOMAIN_MERKLE_LEAF # bs \<Longrightarrow> items \<noteq> []"
  by (cases "(H, n, items)" rule: smt_pre.cases;
      simp add: DOMAIN_MERKLE_EMPTY_def DOMAIN_MERKLE_NODE_def DOMAIN_MERKLE_LEAF_def)+

lemma smt_pre_node:
  assumes "d < MERKLE_DEPTH_BITS" "at_prefix items d p \<noteq> []"
  shows "smt_pre H (MERKLE_DEPTH_BITS - d) (at_prefix items d p) =
    node_pre d (smt_at H items (Suc d) (2 * p)) (smt_at H items (Suc d) (2 * p + 1))"
  unfolding node_pre_def
proof -
  obtain n where n: "MERKLE_DEPTH_BITS - d = Suc n" "MERKLE_DEPTH_BITS - Suc d = n" "MERKLE_DEPTH_BITS - Suc n = d"
    using assms(1) by (metis Suc_diff_Suc Suc_leI diff_diff_cancel diff_Suc_Suc less_imp_le)
  obtain it rest where it: "at_prefix items d p = it # rest" using assms(2) by (cases "at_prefix items d p") auto
  show "smt_pre H (MERKLE_DEPTH_BITS - d) (at_prefix items d p) = DOMAIN_MERKLE_NODE # le_bytes U16_BYTES (int d) @
      smt_at H items (Suc d) (2 * p) @ smt_at H items (Suc d) (2 * p + 1)"
    unfolding smt_at_def at_prefix_step [OF assms(1)] n it by (simp add: n)
qed

lemma climb_sound:
  assumes H: "digest_ok H" and key: "length key = HASH_LEN_BYTES"
  shows "climb H key ss n node = Inr (smt_at H items 0 0) \<Longrightarrow> n \<le> MERKLE_DEPTH_BITS \<Longrightarrow>
    length node = HASH_LEN_BYTES \<Longrightarrow> \<forall>i<n. length (ss ! i) = HASH_LEN_BYTES \<Longrightarrow>
    node = smt_at H items n (key_prefix (from_be key) n)
      \<or> (\<exists>xy \<in> set (climb_pairs H items key ss n node). collides H xy)"
proof (induction n arbitrary: node)
  case 0
  then show ?case using key_prefix_ends(2) from_be_bounds [OF key] by simp
next
  case (Suc d)
  let ?K = "from_be key"
  let ?p = "key_prefix ?K d"
  define pre where "pre = (if bit_at key d = 0 then node_pre d node (ss ! d) else node_pre d (ss ! d) node)"
  have d: "d < MERKLE_DEPTH_BITS" and l: "length (ss ! d) = HASH_LEN_BYTES" using Suc.prems by auto
  have "climb H key ss d (H pre) = Inr (smt_at H items 0 0)"
    using Suc.prems d by (auto simp: pre_def Let_def node_hash_ok node_pre_def split: if_splits)
  then have IH: "H pre = smt_at H items d ?p \<or> (\<exists>xy \<in> set (climb_pairs H items key ss d (H pre)). collides H xy)"
    using Suc.IH [of "H pre"] Suc.prems H by (auto simp: digest_ok_def)
  have pairs: "climb_pairs H items key ss (Suc d) node =
      (smt_pre H (MERKLE_DEPTH_BITS - d) (at_prefix items d ?p), pre) # climb_pairs H items key ss d (H pre)"
    by (simp add: pre_def Let_def)
  show ?case
  proof (cases "pre = smt_pre H (MERKLE_DEPTH_BITS - d) (at_prefix items d ?p)")
    case False
    then show ?thesis using IH unfolding pairs by (auto simp: collides_def smt_at_def)
  next
    case True
    have "\<exists>bs. pre = DOMAIN_MERKLE_NODE # bs" by (simp add: pre_def node_pre_def)
    then have "at_prefix items d ?p \<noteq> []" using True smt_pre_tags(2) by metis
    then have "pre = node_pre d (smt_at H items (Suc d) (2 * ?p)) (smt_at H items (Suc d) (2 * ?p + 1))"
      using True smt_pre_node [OF d] by simp
    then have "node = smt_at H items (Suc d) (key_prefix ?K (Suc d))"
      using Suc.prems(3) l d by (auto simp: pre_def node_pre_def key_prefix_step bit_at_key [OF key] length_smt_at [OF H]
          split: if_splits)
    then show ?thesis ..
  qed
qed

subsection \<open>The items and caches of the set\<close>

lemma sorted_fst: "sorted (xs :: merkle_item list) \<Longrightarrow> sorted (map fst xs)"
  by (simp add: sorted_map) (erule sorted_wrt_mono_rel [rotated], auto simp: less_eq_prod_def)

lemma distinct_fst_sort: "distinct (map fst (sort xs)) \<longleftrightarrow> distinct (map fst xs)"
  by (simp add: distinct_map)

lemma set_dict: "dict_ok d \<Longrightarrow> set d = {(k, v). dict_get d k = Some v}"
  by auto

lemma utxo_key_length: "digest_ok H \<Longrightarrow> length (utxo_key H u) = HASH_LEN_BYTES"
  "digest_ok H \<Longrightarrow> length (outpoint_key H op) = HASH_LEN_BYTES"
  "digest_ok H \<Longrightarrow> length (value_hash H u) = HASH_LEN_BYTES"
  by (simp_all add: utxo_key_def outpoint_key_def value_hash_def length_domain_hash)

lemma in_fresh_items:
  "utxo_index_ok H S \<Longrightarrow> it \<in> set (fresh_items H (us_utxos S)) \<longleftrightarrow>
   (\<exists>op u. dict_get (us_utxos S) op = Some u
      \<and> it = (from_be (utxo_key H u), utxo_key H u, value_hash H u))"
  using utxo_index_D(1) [of H S] by (force simp: fresh_items_def)

lemma fresh_items_ok:
  assumes "utxo_index_ok H S" "digest_ok H"
  shows "items_ok (fresh_items H (us_utxos S))"
proof -
  let ?f = "\<lambda>(op :: outpoint, u). (from_be (utxo_key H u), utxo_key H u, value_hash H u)"
  have "inj_on (fst \<circ> ?f) (set (us_utxos S))"
  proof (rule inj_onI, clarsimp)
    fix op u op' u'
    assume m: "(op, u) \<in> set (us_utxos S)" "(op', u') \<in> set (us_utxos S)"
      and "from_be (utxo_key H u) = from_be (utxo_key H u')"
    then have "utxo_key H u = utxo_key H u'"
      using assms(2) from_be_inject [of "utxo_key H u" "utxo_key H u'"] by (simp add: utxo_key_length)
    then show "op = op' \<and> u = u'"
      using utxo_key_unique [OF assms(1)] m utxo_index_D(1) [OF assms(1)] by (metis map_of_eq_Some_iff)
  qed
  then have "distinct (map (fst \<circ> ?f) (us_utxos S))"
    using utxo_index_D(1) [OF assms(1)] by (simp add: distinct_map)
  then have "distinct (map fst (map ?f (us_utxos S)))" by simp
  then have d: "distinct (map fst (fresh_items H (us_utxos S)))"
    unfolding fresh_items_def by (simp only: distinct_fst_sort)
  then show ?thesis
    using sorted_fst [of "fresh_items H (us_utxos S)"] in_fresh_items [OF assms(1)]
    by (auto simp: items_ok_def utxo_key_length [OF assms(2)]) (simp add: fresh_items_def)
qed

lemma sort_mset_eq: "mset xs = mset ys \<Longrightarrow> sort xs = sort ys"
  by (metis sorted_list_of_multiset_mset)

lemma fresh_items_content:
  assumes "utxo_index_ok H S" "utxo_index_ok H T" "dict_get (us_utxos S) = dict_get (us_utxos T)"
  shows "fresh_items H (us_utxos S) = fresh_items H (us_utxos T)"
proof -
  note d = utxo_index_D(1) [OF assms(1)] utxo_index_D(1) [OF assms(2)]
  have "set (us_utxos S) = set (us_utxos T)" using assms(3) d by (simp only: set_dict)
  then have "mset (us_utxos S) = mset (us_utxos T)"
    using d by (simp add: set_eq_iff_mset_eq_distinct distinct_map)
  then show ?thesis unfolding fresh_items_def by (intro sort_mset_eq) simp
qed

lemma merkle_caches:
  assumes "utxo_set_ok H S" "merkle_items H S = (items, S1)" "merkle_key_ints H S1 = (ks, S2)"
  shows "items = fresh_items H (us_utxos S)" "ks = map fst (fresh_items H (us_utxos S))"
    "utxo_set_ok H S2" "us_utxos S2 = us_utxos S"
    "subtree_cache_ok H (fresh_items H (us_utxos S)) (us_subtree_cache S2)"
  using assms
  by (cases "us_items_cache S"; cases "us_key_ints_cache S";
      auto simp: utxo_set_ok_def utxo_cache_ok_def merkle_items_def merkle_key_ints_def Let_def
        simp flip: fresh_items_def)+

lemma set_subtree_cache_ok:
  "utxo_set_ok H S \<Longrightarrow> subtree_cache_ok H (fresh_items H (us_utxos S)) c \<Longrightarrow>
   utxo_set_ok H (S\<lparr>us_subtree_cache := c\<rparr>)"
  by (simp add: utxo_set_ok_def utxo_cache_ok_def split: option.splits)

lemma us_merkle_root_eq:
  assumes "utxo_set_ok H S" "digest_ok H"
  obtains S' where "us_merkle_root H S = Inr (utxo_root H S, S')" "utxo_set_ok H S'"
    "us_utxos S' = us_utxos S"
proof -
  obtain items S1 where 1: "merkle_items H S = (items, S1)" by force
  obtain ks S2 where 2: "merkle_key_ints H S1 = (ks, S2)" by force
  note M = merkle_caches [OF assms(1) 1 2]
  have iok: "items_ok (fresh_items H (us_utxos S))"
    using fresh_items_ok assms by (simp add: utxo_set_ok_def)
  obtain c where c: "subtree_root H items ks 0 0 (us_subtree_cache S2) = Inr (utxo_root H S, c)"
      "subtree_cache_ok H (fresh_items H (us_utxos S)) c"
    using subtree_root_spec [OF iok assms(2) M(5), of 0 0] M(1,2) by (auto simp: utxo_root_def)
  show ?thesis
  proof (rule that)
    show "us_merkle_root H S = Inr (utxo_root H S, S2\<lparr>us_subtree_cache := c\<rparr>)"
      by (simp add: us_merkle_root_def 1 2 c)
    show "utxo_set_ok H (S2\<lparr>us_subtree_cache := c\<rparr>)"
      using set_subtree_cache_ok M(3,4) c(2) by simp
  qed (use M in simp)
qed

lemma proof_siblings_eq:
  assumes "items_ok items" "digest_ok H" "length key = HASH_LEN_BYTES" "subtree_cache_ok H items c"
    "d \<le> MERKLE_DEPTH_BITS"
  obtains c' where "proof_siblings H key items (map fst items) c d =
      Inr (map (smt_sibling H items (from_be key)) [0..<d], c')" "subtree_cache_ok H items c'"
  using siblings_loop_spec [OF assms(1-4), of "[0..<d]"] assms(3,5) that
  by (auto simp: proof_siblings_def bnd_require_hash_len bnd_require_uint bnd_ensure merkle_depth U16_MAX_def)

lemma empty_depth_loop_spec:
  assumes "items_ok items" "0 \<le> K" "K < 2 ^ MERKLE_DEPTH_BITS"
    "n \<le> MERKLE_DEPTH_BITS" "at_prefix items MERKLE_DEPTH_BITS K = []"
  shows "\<exists>d. empty_depth_loop K (map fst items) [n..<MERKLE_DEPTH_BITS + 1] = Inr d \<and> n \<le> d
    \<and> d \<le> MERKLE_DEPTH_BITS \<and> at_prefix items d (key_prefix K d) = []
    \<and> (\<forall>i. n \<le> i \<and> i < d \<longrightarrow> at_prefix items i (key_prefix K i) \<noteq> [])"
  using assms(4)
proof (induction "MERKLE_DEPTH_BITS - n" arbitrary: n)
  case (0 n)
  then have n: "n = MERKLE_DEPTH_BITS" by simp
  obtain s e where r: "range_for_prefix (map fst items) n K = Inr (s, e)" "s \<le> e" "e \<le> length items"
    "slice items s e = []"
    using range_for_prefix_at [of items n K] assms n by (auto simp: items_ok_def)
  then have "s = e" by (auto simp: slice_def)
  then have "empty_depth_loop K (map fst items) [n..<MERKLE_DEPTH_BITS + 1] = Inr n"
    using r prefix_int_eq [of n K] assms n key_prefix_ends(1) by simp
  then show ?case using n assms(5) key_prefix_ends(1) by auto
next
  case (Suc m n)
  then have n: "n < MERKLE_DEPTH_BITS" "m = MERKLE_DEPTH_BITS - Suc n" by auto
  have up: "[n..<MERKLE_DEPTH_BITS + 1] = n # [Suc n..<MERKLE_DEPTH_BITS + 1]"
    using n by (simp add: upt_rec)
  have kb: "0 \<le> key_prefix K n" "key_prefix K n < 2 ^ n"
    using key_prefix_bounds [of K n] assms(2,3) n by auto
  obtain s e where r: "range_for_prefix (map fst items) n (key_prefix K n) = Inr (s, e)" "s \<le> e"
    "e \<le> length items" "slice items s e = at_prefix items n (key_prefix K n)"
    using range_for_prefix_at [of items n "key_prefix K n"] assms(1) n kb by (auto simp: items_ok_def)
  have se: "s = e \<longleftrightarrow> at_prefix items n (key_prefix K n) = []"
    using r by (auto simp: slice_def)
  have step: "empty_depth_loop K (map fst items) [n..<MERKLE_DEPTH_BITS + 1] =
      (if s = e then Inr n else empty_depth_loop K (map fst items) [Suc n..<MERKLE_DEPTH_BITS + 1])"
    unfolding up using r(1) prefix_int_eq [of n K] assms(2,3) n by simp
  show ?case
  proof (cases "s = e")
    case True
    then show ?thesis using step se n by auto
  next
    case False
    from Suc.hyps(1) [OF n(2)] n obtain d where d:
        "empty_depth_loop K (map fst items) [Suc n..<MERKLE_DEPTH_BITS + 1] = Inr d" "Suc n \<le> d"
        "d \<le> MERKLE_DEPTH_BITS" "at_prefix items d (key_prefix K d) = []"
        "\<forall>i. Suc n \<le> i \<and> i < d \<longrightarrow> at_prefix items i (key_prefix K i) \<noteq> []"
      by auto
    then show ?thesis using step se False by (auto simp: le_eq_less_or_eq [of n])
  qed
qed

subsection \<open>Proofs\<close>

lemma card_set_eq_length: "card (set xs) = length xs \<longleftrightarrow> distinct xs"
  using card_distinct distinct_card by metis

lemma require_siblings_eq:
  "digest_ok H \<Longrightarrow> require_siblings (path_siblings H S op d) d =
   ensure (distinct (path_siblings H S op d)) ValueError"
proof -
  assume H: "digest_ok H"
  have "each require_hash (path_siblings H S op d) = Inr (map (\<lambda>_. ()) (path_siblings H S op d))"
    by (rule each_Inr_all) (auto simp: path_siblings_def smt_sibling_def length_smt_at [OF H] require_hash_len_def)
  moreover have "length (path_siblings H S op d) = d" by (simp add: path_siblings_def)
  ultimately show ?thesis
    using card_set_eq_length [of "path_siblings H S op d"] by (simp add: require_siblings_def)
qed

lemma at_prefix_path:
  assumes "it \<in> set items" "fst it = K"
  shows "at_prefix items d (key_prefix K d) \<noteq> []"
  using assms by (auto simp: at_prefix_def filter_empty_conv item_prefix_def key_prefix_def)

lemma inclusion_proof_eq:
  assumes "utxo_set_ok H S" "digest_ok H" "dict_get (us_utxos S) op = Some u"
  defines "ss \<equiv> path_siblings H S op MERKLE_DEPTH_BITS"
  shows "\<exists>S'. utxo_set_ok H S' \<and> us_utxos S' = us_utxos S \<and> us_inclusion_proof H S op =
    (if distinct ss then Inr (InclusionProof op u ss, S') else Inl ValueError)"
proof -
  obtain items S1 where 1: "merkle_items H S = (items, S1)" by force
  obtain ks S2 where 2: "merkle_key_ints H S1 = (ks, S2)" by force
  note M = merkle_caches [OF assms(1) 1 2]
  have idx: "utxo_index_ok H S" using assms(1) by (simp add: utxo_set_ok_def)
  obtain c where c: "proof_siblings H (outpoint_key H op) items ks (us_subtree_cache S2) MERKLE_DEPTH_BITS = Inr (ss, c)"
      "subtree_cache_ok H (fresh_items H (us_utxos S)) c"
    using proof_siblings_eq [OF fresh_items_ok [OF idx assms(2)] assms(2) utxo_key_length(2) [OF assms(2)] M(5) order_refl]
      M(1,2) by (auto simp: ss_def path_siblings_def)
  have "us_inclusion_proof H S op =
    (if distinct ss then Inr (InclusionProof op u ss, S2\<lparr>us_subtree_cache := c\<rparr>) else Inl ValueError)"
    using assms(3) utxo_index_D(2) [OF idx assms(3)] require_siblings_eq [OF assms(2), of S op MERKLE_DEPTH_BITS]
    by (simp add: us_inclusion_proof_def 1 2 c(1) UTXOInclusionProof_def flip: ss_def) (simp add: ensure_def)
  then show ?thesis using set_subtree_cache_ok M(3,4) c(2) by (intro exI [of _ "S2\<lparr>us_subtree_cache := c\<rparr>"]) simp
qed

lemma leaf_hash_ok:
  "length key = HASH_LEN_BYTES \<Longrightarrow> length vh = HASH_LEN_BYTES \<Longrightarrow>
   leaf_hash H key vh = Inr (H (DOMAIN_MERKLE_LEAF # key @ vh))"
  by (simp add: leaf_hash_def bnd_require_hash_len domain_hash_def hash_bytes_def)

lemma empty_hash_ok:
  "d \<le> MERKLE_DEPTH_BITS \<Longrightarrow> empty_hash H d = Inr (H (DOMAIN_MERKLE_EMPTY # le_bytes U16_BYTES (int d)))"
  by (simp add: empty_hash_def bnd_require_uint bnd_ensure merkle_depth U16_MAX_def domain_hash_def hash_bytes_def)

lemma utxo_root_length: "digest_ok H \<Longrightarrow> length (utxo_root H S) = HASH_LEN_BYTES"
  by (simp add: utxo_root_def length_smt_at)

lemma inclusion_proof_verifies:
  assumes "utxo_index_ok H S" "digest_ok H" "dict_get (us_utxos S) op = Some u"
    "distinct (path_siblings H S op MERKLE_DEPTH_BITS)"
  shows "verify_proof H op (InclusionProof op u (path_siblings H S op MERKLE_DEPTH_BITS)) (utxo_root H S)
    = Inr True"
proof -
  let ?items = "fresh_items H (us_utxos S)" and ?key = "outpoint_key H op"
  let ?K = "from_be ?key"
  have u: "u_outpoint u = op" "utxo_key H u = ?key"
    using utxo_index_D(2) [OF assms(1,3)] by (simp_all add: utxo_key_def)
  have it: "(?K, ?key, value_hash H u) \<in> set ?items"
    using in_fresh_items [OF assms(1)] assms(3) u by metis
  note iok = fresh_items_ok [OF assms(1,2)]
  have path: "at_prefix ?items i (key_prefix ?K i) \<noteq> []" for i
    using at_prefix_path [OF it, of ?K i] by simp
  from at_prefix_leaf [OF iok path [of MERKLE_DEPTH_BITS, unfolded key_prefix_ends]] obtain key vh where
    l: "at_prefix ?items MERKLE_DEPTH_BITS ?K = [(?K, key, vh)]" "(?K, key, vh) \<in> set ?items"
    by metis
  have "inj_on fst (set ?items)" using iok by (simp add: items_ok_def distinct_map)
  from inj_onD [OF this _ l(2) it] have "key = ?key" "vh = value_hash H u" by simp_all
  then have leaf: "leaf_hash H ?key (value_hash H u) = Inr (smt_at H ?items MERKLE_DEPTH_BITS (key_prefix ?K MERKLE_DEPTH_BITS))"
    using l by (simp add: leaf_hash_ok utxo_key_length assms(2) smt_at_def key_prefix_ends)
  have "climb H ?key (path_siblings H S op MERKLE_DEPTH_BITS) MERKLE_DEPTH_BITS
      (smt_at H ?items MERKLE_DEPTH_BITS (key_prefix ?K MERKLE_DEPTH_BITS)) = Inr (utxo_root H S)"
    unfolding path_siblings_def utxo_root_def
    using climb_complete [OF assms(2) utxo_key_length(2) [OF assms(2)] order_refl order_refl] path by blast
  then show ?thesis
    using require_siblings_eq [OF assms(2), of S op MERKLE_DEPTH_BITS] assms(4) u
    by (simp add: verify_proof_def bnd_require_hash_len utxo_root_length assms(2) leaf Let_def)
qed

lemma absent_leaf:
  assumes "utxo_index_ok H S" "digest_ok H"
  shows "at_prefix (fresh_items H (us_utxos S)) MERKLE_DEPTH_BITS (from_be (outpoint_key H op)) = []
    \<longleftrightarrow> dict_get (us_outpoint_by_key S) (outpoint_key H op) = None"
proof -
  have "at_prefix (fresh_items H (us_utxos S)) MERKLE_DEPTH_BITS (from_be (outpoint_key H op)) = [] \<longleftrightarrow>
    (\<forall>op' u. dict_get (us_utxos S) op' = Some u \<longrightarrow> from_be (utxo_key H u) \<noteq> from_be (outpoint_key H op))"
    unfolding at_prefix_def filter_empty_conv Ball_def in_fresh_items [OF assms(1)]
    by (auto simp: item_prefix_def merkle_depth)
  also have "\<dots> \<longleftrightarrow> (\<forall>op' u. dict_get (us_utxos S) op' = Some u \<longrightarrow> utxo_key H u \<noteq> outpoint_key H op)"
    using from_be_inject utxo_key_length [OF assms(2)] by metis
  also have "\<dots> \<longleftrightarrow> dict_get (us_outpoint_by_key S) (outpoint_key H op) = None"
    using utxo_index_D(4) [OF assms(1), of "outpoint_key H op"]
    by (metis not_Some_eq)
  finally show ?thesis .
qed

lemma non_inclusion_proof_eq:
  assumes "utxo_set_ok H S" "digest_ok H" "dict_get (us_utxos S) op = None"
    "dict_get (us_outpoint_by_key S) (outpoint_key H op) = None"
  shows "\<exists>S' d. d \<le> MERKLE_DEPTH_BITS \<and> utxo_set_ok H S' \<and> us_utxos S' = us_utxos S
    \<and> us_non_inclusion_proof H S op =
      (if distinct (path_siblings H S op d) then Inr (NonInclusionProof op d (path_siblings H S op d), S')
       else Inl ValueError)
    \<and> (distinct (path_siblings H S op d) \<longrightarrow>
         verify_proof H op (NonInclusionProof op d (path_siblings H S op d)) (utxo_root H S) = Inr True)"
proof -
  let ?items = "fresh_items H (us_utxos S)" and ?key = "outpoint_key H op"
  let ?K = "from_be ?key"
  obtain items S1 where 1: "merkle_items H S = (items, S1)" by force
  obtain ks S2 where 2: "merkle_key_ints H S1 = (ks, S2)" by force
  note M = merkle_caches [OF assms(1) 1 2]
  have idx: "utxo_index_ok H S" using assms(1) by (simp add: utxo_set_ok_def)
  note iok = fresh_items_ok [OF idx assms(2)] and kl = utxo_key_length(2) [OF assms(2), of op]
  note K = from_be_bounds [OF kl]
  have "at_prefix ?items MERKLE_DEPTH_BITS ?K = []" using absent_leaf [OF idx assms(2)] assms(4) by simp
  then obtain d where d: "empty_depth_loop ?K (map fst ?items) [0..<MERKLE_DEPTH_BITS + 1] = Inr d"
      "d \<le> MERKLE_DEPTH_BITS" "at_prefix ?items d (key_prefix ?K d) = []"
      "\<forall>i<d. at_prefix ?items i (key_prefix ?K i) \<noteq> []"
    using empty_depth_loop_spec [OF iok, of ?K 0] K by auto
  obtain c where c: "proof_siblings H ?key items ks (us_subtree_cache S2) d = Inr (path_siblings H S op d, c)"
      "subtree_cache_ok H ?items c"
    using proof_siblings_eq [OF iok assms(2) kl M(5) d(2)] M(1,2) by (auto simp: path_siblings_def)
  note rs = require_siblings_eq [OF assms(2), of S op d]
  have run: "us_non_inclusion_proof H S op =
    (if distinct (path_siblings H S op d) then Inr (NonInclusionProof op d (path_siblings H S op d), S2\<lparr>us_subtree_cache := c\<rparr>)
     else Inl ValueError)"
    using assms(3) d(1,2) M(2) kl c(1) rs
    by (simp add: us_non_inclusion_proof_def 1 2 first_empty_depth_def bnd_require_hash_len
        UTXONonInclusionProof_def bnd_require_uint bnd_ensure merkle_depth U16_MAX_def Let_def)
  have "climb H ?key (path_siblings H S op d) d (smt_at H ?items d (key_prefix ?K d)) = Inr (utxo_root H S)"
    unfolding path_siblings_def utxo_root_def
    using climb_complete [OF assms(2) kl d(2) order_refl d(4)] .
  then have "distinct (path_siblings H S op d) \<longrightarrow>
      verify_proof H op (NonInclusionProof op d (path_siblings H S op d)) (utxo_root H S) = Inr True"
    using rs d(2) smt_at_empty [OF d(2,3), of H]
    by (simp add: verify_proof_def bnd_require_hash_len utxo_root_length assms(2) Let_def)
  then show ?thesis using run d(2) set_subtree_cache_ok M(3,4) c(2)
    by (intro exI [of _ "S2\<lparr>us_subtree_cache := c\<rparr>"] exI [of _ d]) simp
qed

lemma require_siblings_D:
  "require_siblings ss n = Inr u \<Longrightarrow> length ss = n \<and> (\<forall>i<n. length (ss ! i) = HASH_LEN_BYTES)"
  by (auto simp: require_siblings_def bnd_Inr_iff dest: each_Inr_nth)

lemma verify_inclusion_sound:
  assumes "utxo_index_ok H S" "digest_ok H" "utxo_ok u"
    and v: "verify_proof H op (InclusionProof op' u ss) (utxo_root H S) = Inr True"
  shows "dict_get (us_utxos S) op = Some u
    \<or> (\<exists>xy \<in> set (collision_pairs H S op (InclusionProof op' u ss)). collides H xy)"
proof -
  let ?items = "fresh_items H (us_utxos S)" and ?key = "outpoint_key H op"
  let ?K = "from_be ?key" and ?leaf = "DOMAIN_MERKLE_LEAF # outpoint_key H op @ value_hash H u"
  let ?at = "smt_pre H 0 (at_prefix ?items MERKLE_DEPTH_BITS ?K)"
  note len = utxo_key_length [OF assms(2)]
  have op: "op' = op" "u_outpoint u = op" and ss: "\<forall>i<MERKLE_DEPTH_BITS. length (ss ! i) = HASH_LEN_BYTES"
    and cl: "climb H ?key ss MERKLE_DEPTH_BITS (H ?leaf) = Inr (smt_at H ?items 0 0)"
    using v require_siblings_D [of ss MERKLE_DEPTH_BITS]
    by (auto simp: verify_proof_def bnd_Inr_iff Let_def leaf_hash_ok len utxo_root_def is_ok_iff split: if_splits)
  have pairs: "set (collision_pairs H S op (InclusionProof op' u ss)) =
      (\<lambda>(_, v). (DOMAIN_UTXO # utxo_to_bytes v, DOMAIN_UTXO # utxo_to_bytes u)) ` set (us_utxos S)
      \<union> {(?at, ?leaf)} \<union> set (climb_pairs H ?items ?key ss MERKLE_DEPTH_BITS (H ?leaf))"
    by (simp add: collision_pairs_def Let_def key_prefix_ends)
  have hl: "length (H ?leaf) = HASH_LEN_BYTES" using assms(2) by (simp add: digest_ok_def)
  show ?thesis
  proof (cases "H ?leaf = smt_at H ?items MERKLE_DEPTH_BITS ?K \<and> ?at = ?leaf")
    case False
    then show ?thesis
      using climb_sound [OF assms(2) len(2) cl order_refl hl ss] unfolding pairs
      by (auto simp: key_prefix_ends smt_at_def collides_def)
  next
    case True
    then have "at_prefix ?items MERKLE_DEPTH_BITS ?K \<noteq> []" using smt_pre_tags(3) by metis
    from at_prefix_leaf [OF fresh_items_ok [OF assms(1,2)] this] obtain key vh where
      l: "at_prefix ?items MERKLE_DEPTH_BITS ?K = [(?K, key, vh)]" "(?K, key, vh) \<in> set ?items"
        "length key = HASH_LEN_BYTES" by metis
    then have "(?K, ?key, value_hash H u) \<in> set ?items" using True len by auto
    then obtain op'' w where w: "dict_get (us_utxos S) op'' = Some w" "value_hash H w = value_hash H u"
      using in_fresh_items [OF assms(1)] by auto
    show ?thesis
    proof (cases "utxo_to_bytes w = utxo_to_bytes u")
      case same: True
      have "utxo_ok w" using utxo_index_D(3) [OF assms(1) w(1)] .
      then have "w = u" using same assms(3) utxo_from_to_bytes [of _ H None] by (metis option.case(1) sum.inject(2))
      then show ?thesis using w utxo_index_D(2) [OF assms(1) w(1)] op by simp
    next
      case False
      have "(op'', w) \<in> set (us_utxos S)" using w(1) by (rule map_of_SomeD)
      then have "(DOMAIN_UTXO # utxo_to_bytes w, DOMAIN_UTXO # utxo_to_bytes u) \<in>
          set (collision_pairs H S op (InclusionProof op' u ss))" unfolding pairs by force
      moreover have "collides H (DOMAIN_UTXO # utxo_to_bytes w, DOMAIN_UTXO # utxo_to_bytes u)"
        using w(2) False by (simp add: collides_def value_hash_def domain_hash_def hash_bytes_def)
      ultimately show ?thesis by blast
    qed
  qed
qed

lemma verify_non_inclusion_sound:
  assumes "utxo_index_ok H S" "digest_ok H"
    and v: "verify_proof H op (NonInclusionProof op' d ss) (utxo_root H S) = Inr True"
  shows "dict_get (us_utxos S) op = None
    \<or> (\<exists>xy \<in> set (collision_pairs H S op (NonInclusionProof op' d ss)). collides H xy)"
proof -
  let ?items = "fresh_items H (us_utxos S)" and ?key = "outpoint_key H op"
  let ?K = "from_be ?key" and ?leaf = "DOMAIN_MERKLE_EMPTY # le_bytes U16_BYTES (int d)"
  let ?at = "smt_pre H (MERKLE_DEPTH_BITS - d) (at_prefix ?items d (key_prefix ?K d))"
  note len = utxo_key_length [OF assms(2)]
  have ss: "\<forall>i<d. length (ss ! i) = HASH_LEN_BYTES" and d: "d \<le> MERKLE_DEPTH_BITS"
    and cl: "climb H ?key ss d (H ?leaf) = Inr (smt_at H ?items 0 0)"
    using v require_siblings_D [of ss d]
    by (auto simp: verify_proof_def bnd_Inr_iff Let_def empty_hash_ok len utxo_root_def is_ok_iff split: if_splits)
  have pairs: "set (collision_pairs H S op (NonInclusionProof op' d ss)) =
      {(?at, ?leaf)} \<union> set (climb_pairs H ?items ?key ss d (H ?leaf))"
    by (simp add: collision_pairs_def Let_def)
  have hl: "length (H ?leaf) = HASH_LEN_BYTES" using assms(2) by (simp add: digest_ok_def)
  show ?thesis
  proof (cases "H ?leaf = smt_at H ?items d (key_prefix ?K d) \<and> ?at = ?leaf")
    case False
    then show ?thesis
      using climb_sound [OF assms(2) len(2) cl d hl ss] unfolding pairs
      by (auto simp: smt_at_def collides_def)
  next
    case True
    then have e: "at_prefix ?items d (key_prefix ?K d) = []" using smt_pre_tags(1) diff_le_self by blast
    have "dict_get (us_utxos S) op = None"
    proof (rule ccontr)
      assume "dict_get (us_utxos S) op \<noteq> None"
      then obtain u where u: "dict_get (us_utxos S) op = Some u" by blast
      then have "utxo_key H u = ?key" using utxo_index_D(2) [OF assms(1)] by (simp add: utxo_key_def)
      then have "(?K, ?key, value_hash H u) \<in> set ?items" using in_fresh_items [OF assms(1)] u by metis
      then show False using at_prefix_path [of _ ?items ?K d] e by fastforce
    qed
    then show ?thesis ..
  qed
qed

section \<open>Properties\<close>

text \<open>(C14) The Merkle root exists and depends on the contents alone: two sets with the same outputs,
  whatever the order of their insertions and removals and whatever their caches hold, have the same
  root, which is the root of the uncached reference tree; computing it changes caches only.\<close>

theorem merkle_root_canonical:
  assumes "digest_ok H" "utxo_set_ok H S" "utxo_set_ok H T" "us_get S = us_get T"
  shows "\<exists>S' T'. us_merkle_root H S = Inr (utxo_root H S, S') \<and> us_merkle_root H T = Inr (utxo_root H S, T')
    \<and> utxo_set_ok H S' \<and> us_utxos S' = us_utxos S"
proof -
  have "fresh_items H (us_utxos S) = fresh_items H (us_utxos T)"
    using fresh_items_content [of H S T] assms by (auto simp: utxo_set_ok_def us_get_def fun_eq_iff)
  then have "utxo_root H S = utxo_root H T" by (simp add: utxo_root_def)
  moreover obtain S' where "us_merkle_root H S = Inr (utxo_root H S, S')" "utxo_set_ok H S'" "us_utxos S' = us_utxos S"
    by (rule us_merkle_root_eq [OF assms(2,1)])
  moreover obtain T' where "us_merkle_root H T = Inr (utxo_root H T, T')"
    by (rule us_merkle_root_eq [OF assms(3,1)])
  ultimately show ?thesis by metis
qed

theorem merkle_root_canonical_witness:
  "\<exists>S'. us_merkle_root pad_hash example_utxos = Inr (utxo_root pad_hash example_utxos, S')"
  using merkle_root_canonical [OF pad_hash_digest example_utxos_ok(1) example_utxos_ok(1) refl] by blast

text \<open>(C13) Membership proofs are complete: for a stored outpoint, \<open>inclusion_proof\<close> returns the proof
  with the siblings of its path, and \<open>verify_proof\<close> accepts it against the root; the one way to fail
  is two equal siblings, which the constructor of the proof refuses.\<close>

theorem inclusion_proof_complete:
  assumes "digest_ok H" "utxo_set_ok H S" "us_get S op = Some u"
  defines "ss \<equiv> path_siblings H S op MERKLE_DEPTH_BITS"
  shows "if distinct ss
    then (\<exists>S'. us_inclusion_proof H S op = Inr (InclusionProof op u ss, S')
           \<and> utxo_set_ok H S' \<and> us_utxos S' = us_utxos S)
         \<and> verify_proof H op (InclusionProof op u ss) (utxo_root H S) = Inr True
    else us_inclusion_proof H S op = Inl ValueError"
  using inclusion_proof_eq [OF assms(2,1), of op u] inclusion_proof_verifies [of H S op u] assms
  by (auto simp: us_get_def utxo_set_ok_def split: if_splits)

lemma single_item_sibling:
  assumes "i < MERKLE_DEPTH_BITS"
  shows "smt_sibling H [(K, k, v)] K i = H (DOMAIN_MERKLE_EMPTY # le_bytes U16_BYTES (int (Suc i)))"
proof -
  have "item_prefix (Suc i) (K, k, v) = 2 * key_prefix K i + of_bool (key_bit K i)"
    using item_prefix_step [OF assms, of "(K, k, v)"] by (simp add: item_prefix_def key_prefix_def key_bit_def)
  then have "at_prefix [(K, k, v)] (Suc i) (2 * key_prefix K i + of_bool (\<not> key_bit K i)) = []"
    by (simp add: at_prefix_def)
  then show ?thesis using assms by (simp add: smt_sibling_def smt_at_def del: of_nat_Suc)
qed

lemma single_item_siblings_distinct:
  "distinct (map (smt_sibling pad_hash [(K, k, v)] K) [0..<MERKLE_DEPTH_BITS])"
proof (simp only: distinct_map distinct_upt, intro conjI TrueI inj_onI)
  fix i j
  assume ij: "i \<in> set [0..<MERKLE_DEPTH_BITS]" "j \<in> set [0..<MERKLE_DEPTH_BITS]"
    and eq: "smt_sibling pad_hash [(K, k, v)] K i = smt_sibling pad_hash [(K, k, v)] K j"
  from eq ij have "pad_hash (DOMAIN_MERKLE_EMPTY # le_bytes 2 (int (Suc i))) =
      pad_hash (DOMAIN_MERKLE_EMPTY # le_bytes 2 (int (Suc j)))"
    by (simp add: single_item_sibling U16_BYTES_def del: of_nat_Suc)
  then have "le_bytes 2 (int (Suc i)) = le_bytes 2 (int (Suc j))"
    by (simp add: pad_hash_def HASH_LEN_BYTES_def del: of_nat_Suc)
  then show "i = j" using ij le_bytes_inject [of "int (Suc i)" 2 "int (Suc j)"]
    by (simp add: merkle_depth)
qed

lemma example_siblings_distinct:
  "distinct (path_siblings pad_hash example_utxos (u_outpoint example_utxo) MERKLE_DEPTH_BITS)"
proof -
  have "map fst (fresh_items pad_hash (us_utxos example_utxos)) = [from_be (outpoint_key pad_hash (u_outpoint example_utxo))]"
    by code_simp
  then obtain k v where
    "fresh_items pad_hash (us_utxos example_utxos) = [(from_be (outpoint_key pad_hash (u_outpoint example_utxo)), k, v)]"
    by auto
  then show ?thesis using single_item_siblings_distinct by (simp add: path_siblings_def)
qed

theorem inclusion_proof_complete_witness:
  "verify_proof pad_hash (u_outpoint example_utxo)
     (InclusionProof (u_outpoint example_utxo) example_utxo
       (path_siblings pad_hash example_utxos (u_outpoint example_utxo) MERKLE_DEPTH_BITS))
     (utxo_root pad_hash example_utxos) = Inr True"
  using inclusion_proof_complete [OF pad_hash_digest example_utxos_ok] example_siblings_distinct by simp

text \<open>Absence proofs are complete: for an outpoint that is not stored and whose key is free,
  \<open>non_inclusion_proof\<close> returns a proof (again unless two siblings are equal) that \<open>verify_proof\<close>
  accepts against the root.\<close>

theorem non_inclusion_proof_complete:
  assumes "digest_ok H" "utxo_set_ok H S" "us_get S op = None"
    and "\<forall>op' u. us_get S op' = Some u \<longrightarrow> outpoint_key H op' \<noteq> outpoint_key H op"
  shows "\<exists>d \<le> MERKLE_DEPTH_BITS.
    if distinct (path_siblings H S op d)
    then (\<exists>S'. us_non_inclusion_proof H S op = Inr (NonInclusionProof op d (path_siblings H S op d), S')
           \<and> utxo_set_ok H S' \<and> us_utxos S' = us_utxos S)
         \<and> verify_proof H op (NonInclusionProof op d (path_siblings H S op d)) (utxo_root H S) = Inr True
    else us_non_inclusion_proof H S op = Inl ValueError"
proof -
  have I: "utxo_index_ok H S" using assms by (simp add: utxo_set_ok_def)
  have "dict_get (us_outpoint_by_key S) (outpoint_key H op) = None"
    using utxo_index_D(4) [OF I] utxo_index_D(2) [OF I] assms(4)
    by (metis not_Some_eq us_get_def utxo_key_def)
  then show ?thesis
    using non_inclusion_proof_eq [OF assms(2,1), of op] assms(3) by (auto simp: us_get_def)
qed

theorem non_inclusion_proof_complete_witness:
  "\<exists>d S'. us_non_inclusion_proof pad_hash empty_utxo_set (u_outpoint example_utxo)
       = Inr (NonInclusionProof (u_outpoint example_utxo) d [], S')
     \<and> verify_proof pad_hash (u_outpoint example_utxo) (NonInclusionProof (u_outpoint example_utxo) d [])
         (utxo_root pad_hash empty_utxo_set) = Inr True"
proof -
  let ?op = "u_outpoint example_utxo"
  have "map_sum id (\<lambda>p. proof_empty_depth (fst p)) (us_non_inclusion_proof pad_hash empty_utxo_set ?op) = Inr 0"
    by code_simp
  then have run: "us_non_inclusion_proof pad_hash empty_utxo_set ?op \<noteq> Inl ValueError"
    "us_non_inclusion_proof pad_hash empty_utxo_set ?op = Inr (NonInclusionProof ?op d ss, S') \<Longrightarrow> d = 0" for d ss S'
    by auto
  have "\<forall>op' u. us_get empty_utxo_set op' = Some u \<longrightarrow> outpoint_key pad_hash op' \<noteq> outpoint_key pad_hash ?op"
    "us_get empty_utxo_set ?op = None" by (simp_all add: us_get_def empty_utxo_set_def)
  from non_inclusion_proof_complete [OF pad_hash_digest empty_utxo_set_ok this(2,1)] run show ?thesis
    by (auto split: if_splits simp: path_siblings_def)
qed

text \<open>(C12) Proofs are sound: whatever proof \<open>verify_proof\<close> accepts against the root of a consistent
  set, a membership proof names an output that the set holds at that outpoint, and an absence proof
  names an outpoint it does not hold, unless one of the pairs listed by \<open>collision_pairs\<close> (one
  per level of the path, and one per stored output) is a collision of the digest.\<close>

theorem verify_proof_sound:
  assumes "digest_ok H" "utxo_set_ok H S" "verify_proof H op pf (utxo_root H S) = Inr True"
    "case pf of InclusionProof _ u _ \<Rightarrow> utxo_ok u | NonInclusionProof _ _ _ \<Rightarrow> True"
  shows "us_get S op = (case pf of InclusionProof _ u _ \<Rightarrow> Some u | NonInclusionProof _ _ _ \<Rightarrow> None)
    \<or> (\<exists>xy \<in> set (collision_pairs H S op pf). collides H xy)"
  using assms verify_inclusion_sound [of H S] verify_non_inclusion_sound [of H S]
  by (cases "pf") (auto simp: us_get_def utxo_set_ok_def)

theorem verify_proof_sound_witness:
  "let op = u_outpoint example_utxo;
       pf = InclusionProof op example_utxo (path_siblings pad_hash example_utxos op MERKLE_DEPTH_BITS) in
   us_get example_utxos op = Some example_utxo
   \<or> (\<exists>xy \<in> set (collision_pairs pad_hash example_utxos op pf). collides pad_hash xy)"
proof -
  let ?op = "u_outpoint example_utxo"
  let ?pf = "InclusionProof ?op example_utxo (path_siblings pad_hash example_utxos ?op MERKLE_DEPTH_BITS)"
  have "verify_proof pad_hash ?op ?pf (utxo_root pad_hash example_utxos) = Inr True"
    using inclusion_proof_verifies [OF _ pad_hash_digest _ example_siblings_distinct] example_utxos_ok
    by (simp add: utxo_set_ok_def us_get_def)
  from verify_proof_sound [OF pad_hash_digest example_utxos_ok(1) this] example_utxo_ok
  show ?thesis by simp
qed

end
