(* ===== verification/Pow_Kernel.thy ===== *)
theory Pow_Kernel
  imports Hashing
begin

text \<open>
  \<^verbatim>\<open>src/src/tensorpow/pow/kernel.py\<close>: the INT8 matrix product of the proof of work, the canonical bytes
  and digest of its result, and the comparison with a target.

  PyTorch is third-party code: what the module calls of it are the fields of a parameter \<open>T\<close>: the private product
  \<open>torch._int_mm\<close> and the operator \<open>@\<close> on int32 tensors, on each device, with
  \<open>None\<close> where the call (or the transfer to the device and back) raises \<open>RuntimeError\<close>. A tensor is the list of its rows,
  its entries are integers; the dtype checks are discharged by the types. Nothing is assumed of \<open>_int_mm\<close>: the
  probes that decide whether it and the MPS backend are usable are modelled, since they compare results of such calls, and the
  only documented fact is that the int32 product on the CPU is exact modulo \<open>2 ^ 32\<close> (\<open>int32_matmul_ok\<close>).
\<close>

section \<open>Definitions\<close>

definition POW_MATRIX_DIM :: nat where "POW_MATRIX_DIM = 1024"
definition POW_ACCUM_BYTES :: nat where "POW_ACCUM_BYTES = 4"
definition POW_ACCUM_BITS :: nat where "POW_ACCUM_BITS = 32"
definition POW_MATRIX_INPUTS :: nat where "POW_MATRIX_INPUTS = 2"
definition POW_MATRIX_BYTES :: nat where "POW_MATRIX_BYTES = POW_MATRIX_DIM * POW_MATRIX_DIM"
definition POW_OPS_PER_MAC :: nat where "POW_OPS_PER_MAC = 2"
definition POW_OPS_PER_MATMUL :: nat where "POW_OPS_PER_MATMUL = POW_OPS_PER_MAC * POW_MATRIX_DIM ^ 3"
definition FRUIT_WORK_OPS :: int where "FRUIT_WORK_OPS = 6000000000"
definition ANCHOR_WORK_MULTIPLIER :: int where "ANCHOR_WORK_MULTIPLIER = 1000"
definition TARGET_BYTES :: nat where "TARGET_BYTES = HASH_LEN_BYTES"
definition INT8_MIN_VALUE :: int where "INT8_MIN_VALUE = - 128"
definition INT8_MAX_VALUE :: int where "INT8_MAX_VALUE = 127"

definition FRUIT_TARGET_LE :: bytes where
  "FRUIT_TARGET_LE =
     [0x19, 0x57, 0x19, 0x18, 0x3e, 0xc6, 0x04, 0x4d, 0x31, 0x27, 0x67, 0xab, 0x3e, 0x98, 0x8f,
     0xfe, 0x75, 0x75, 0x63, 0x50, 0x5b, 0x5c, 0x45, 0x76, 0x0f, 0x19, 0x23, 0xcf, 0x80, 0x3f,
     0xa0, 0x5b]"
definition ANCHOR_INITIAL_TARGET_LE :: bytes where
  "ANCHOR_INITIAL_TARGET_LE =
     [0xc4, 0xe7, 0x7a, 0x53, 0x4b, 0x84, 0xe0, 0x6c, 0x45, 0x3f, 0xe6, 0x09, 0x7f, 0x99, 0x53,
     0xa3, 0x0b, 0x5d, 0x8b, 0x9e, 0x96, 0x8a, 0xa9, 0xcc, 0x16, 0x38, 0x3d, 0xac, 0xcc, 0x74,
     0x17, 0x00]"
definition ANCHOR_MIN_TARGET_LE :: bytes where
  "ANCHOR_MIN_TARGET_LE = 0x01 # zero_bytes 31"
definition ANCHOR_MAX_TARGET_LE :: bytes where "ANCHOR_MAX_TARGET_LE = FRUIT_TARGET_LE"

type_synonym matrix = "int list list"

datatype torch_device = OnCpu | OnCuda | OnMps

record torch =
  cuda_is_available :: bool
  mps_is_available :: bool
  has_int_mm :: bool
  t_int_mm :: "torch_device \<Rightarrow> matrix \<Rightarrow> matrix \<Rightarrow> matrix option"
  t_int32_matmul :: "torch_device \<Rightarrow> matrix \<Rightarrow> matrix \<Rightarrow> matrix option"

text \<open>A \<open>RuntimeError\<close> of a torch call propagates, except where the probes catch it.\<close>

definition torch_call :: "matrix option \<Rightarrow> matrix res" where
  "torch_call m = (case m of None \<Rightarrow> Inl RuntimeError | Some r \<Rightarrow> Inr r)"

definition has_shape :: "nat \<Rightarrow> matrix \<Rightarrow> bool" where
  "has_shape n m \<longleftrightarrow> length m = n \<and> (\<forall>row \<in> set m. length row = n)"

definition require_int8_matrix :: "matrix \<Rightarrow> nat \<Rightarrow> matrix res" where
  "require_int8_matrix m expected_dim =
     bnd (ensure (\<forall>row \<in> set m. \<forall>v \<in> set row. INT8_MIN_VALUE \<le> v \<and> v \<le> INT8_MAX_VALUE) PowInputError) (\<lambda>_.
     bnd (ensure (has_shape expected_dim m) PowInputError) (\<lambda>_. Inr m))"

text \<open>\<open>((values * a + b) % 256 - 128)\<close> for \<open>values = torch.arange(n * n).reshape(n, n)\<close>\<close>

definition probe_matrix :: "nat \<Rightarrow> int \<Rightarrow> int \<Rightarrow> matrix" where
  "probe_matrix n a b = map (\<lambda>i. map (\<lambda>j. (int (i * n + j) * a + b) mod 256 - 128) [0..<n]) [0..<n]"

definition cpu_int_mm_probe_matrices :: "matrix \<times> matrix" where
  "cpu_int_mm_probe_matrices = (probe_matrix 16 17 13, probe_matrix 16 31 7)"

definition cpu_int_mm_available :: "torch \<Rightarrow> bool res" where
  "cpu_int_mm_available T =
     (if \<not> has_int_mm T then Inr False
      else
        let (left, right) = cpu_int_mm_probe_matrices in
        case t_int_mm T OnCpu left right of
          None \<Rightarrow> Inr False
        | Some result \<Rightarrow>
            bnd (torch_call (t_int32_matmul T OnCpu left right)) (\<lambda>reference. Inr (result = reference)))"

text \<open>\<open>_int_mm\<close> on tensors of one device; the probe is always the one on the CPU.\<close>

definition int_mm :: "torch \<Rightarrow> torch_device \<Rightarrow> matrix \<Rightarrow> matrix \<Rightarrow> matrix res" where
  "int_mm T device left right =
     bnd (if has_int_mm T then cpu_int_mm_available T else Inr False) (\<lambda>usable.
     if usable then torch_call (t_int_mm T device left right)
     else torch_call (t_int32_matmul T device left right))"

definition mps_probe_matrices :: "matrix \<times> matrix" where
  "mps_probe_matrices =
     (let left = probe_matrix POW_MATRIX_DIM 73 19; right = probe_matrix POW_MATRIX_DIM 37 91 in
      (map (\<lambda>(i, row). if i < 16 then map (\<lambda>_. INT8_MIN_VALUE) row else row)
         (zip [0..<POW_MATRIX_DIM] left),
       map (\<lambda>row. map (\<lambda>(j, v). if j < 16 then INT8_MIN_VALUE else v) (zip [0..<POW_MATRIX_DIM] row)) right))"

definition mps_int32_mm :: "torch \<Rightarrow> matrix \<Rightarrow> matrix \<Rightarrow> matrix res" where
  "mps_int32_mm T left right = torch_call (t_int32_matmul T OnMps left right)"

definition mps_int32_mm_available :: "torch \<Rightarrow> bool res" where
  "mps_int32_mm_available T =
     (if \<not> mps_is_available T then Inr False
      else
        let (left, right) = mps_probe_matrices in
        case bnd (int_mm T OnCpu left right) (\<lambda>reference.
             bnd (mps_int32_mm T left right) (\<lambda>result. Inr (result = reference))) of
          Inl e \<Rightarrow> if e = RuntimeError then Inr False else Inl e
        | Inr equal \<Rightarrow> Inr equal)"

definition resolve_backend :: "torch \<Rightarrow> string \<Rightarrow> string res" where
  "resolve_backend T backend =
     bnd (ensure (backend \<in> {''auto'', ''cpu'', ''cuda'', ''mps''}) ValueError) (\<lambda>_.
     if backend = ''auto'' then
       (if cuda_is_available T \<and> has_int_mm T then Inr ''cuda''
        else bnd (mps_int32_mm_available T) (\<lambda>available. if available then Inr ''mps'' else Inr ''cpu''))
     else if backend = ''cuda'' then
       bnd (ensure (cuda_is_available T) PowBackendUnavailableError) (\<lambda>_.
       bnd (ensure (has_int_mm T) PowBackendUnavailableError) (\<lambda>_. Inr ''cuda''))
     else if backend = ''mps'' then
       bnd (mps_int32_mm_available T) (\<lambda>available.
       bnd (ensure available PowBackendUnavailableError) (\<lambda>_. Inr ''mps''))
     else Inr ''cpu'')"

definition matmul_int8 :: "torch \<Rightarrow> matrix \<Rightarrow> matrix \<Rightarrow> string \<Rightarrow> matrix res" where
  "matmul_int8 T left right backend =
     bnd (require_int8_matrix left POW_MATRIX_DIM) (\<lambda>left_tensor.
     bnd (require_int8_matrix right POW_MATRIX_DIM) (\<lambda>right_tensor.
     bnd (resolve_backend T backend) (\<lambda>resolved_backend.
     bnd (if resolved_backend = ''cuda'' then int_mm T OnCuda left_tensor right_tensor
          else if resolved_backend = ''mps'' then mps_int32_mm T left_tensor right_tensor
          else int_mm T OnCpu left_tensor right_tensor) (\<lambda>result.
     bnd (ensure (has_shape POW_MATRIX_DIM result) PowBackendUnavailableError) (\<lambda>_. Inr result)))))"

text \<open>A 32-bit signed entry as four little-endian bytes: \<open>to_bytes(4, "little", signed=True)\<close>, which
  is also the memory of a contiguous int32 tensor on a little-endian machine.\<close>

definition canonical_output_bytes :: "matrix \<Rightarrow> int \<Rightarrow> bytes res" where
  "canonical_output_bytes output expected_dim =
     bnd (ensure (\<not> expected_dim \<le> 0) ValueError) (\<lambda>_.
     bnd (ensure (has_shape (nat expected_dim) output) PowInputError) (\<lambda>_.
     Inr (concat (map (\<lambda>v. le_bytes POW_ACCUM_BYTES (v mod 2 ^ POW_ACCUM_BITS)) (concat output)))))"

definition pow_digest :: "hash_fn \<Rightarrow> matrix \<Rightarrow> int \<Rightarrow> bytes res" where
  "pow_digest H output expected_dim =
     bnd (canonical_output_bytes output expected_dim) (\<lambda>bs. Inr (domain_hash H DOMAIN_POW_OUTPUT bs))"

definition require_bytes_len :: "bytes \<Rightarrow> nat \<Rightarrow> unit res" where
  "require_bytes_len value expected_len = ensure (length value = expected_len) ValueError"

definition target_allows_digest :: "bytes \<Rightarrow> bytes \<Rightarrow> bool res" where
  "target_allows_digest digest target =
     bnd (require_bytes_len digest TARGET_BYTES) (\<lambda>_.
     bnd (require_bytes_len target TARGET_BYTES) (\<lambda>_.
     Inr (from_le digest \<le> from_le target)))"

section \<open>Specification\<close>

text \<open>The exact product. \<open>int32_matmul_ok\<close> is what PyTorch documents of the operator \<open>@\<close> on int32 tensors on the CPU:
  integer arithmetic modulo \<open>2 ^ 32\<close>. \<open>backend_call\<close> is the one torch call that decides the result of a resolved
  backend, and \<open>kernel_exact\<close> says of one backend that this call computes modulo \<open>2 ^ 32\<close>.\<close>

definition dot :: "int list \<Rightarrow> int list \<Rightarrow> int" where
  "dot xs ys = sum_list (map2 (*) xs ys)"

definition column :: "nat \<Rightarrow> matrix \<Rightarrow> int list" where
  "column j m = map (\<lambda>row. row ! j) m"

definition exact_product :: "nat \<Rightarrow> matrix \<Rightarrow> matrix \<Rightarrow> matrix" where
  "exact_product n a b = map (\<lambda>row. map (\<lambda>j. dot row (column j b)) [0..<n]) a"

definition wrap32 :: "int \<Rightarrow> int" where
  "wrap32 v = (v + 2 ^ 31) mod 2 ^ 32 - 2 ^ 31"

definition int8_matrix :: "nat \<Rightarrow> matrix \<Rightarrow> bool" where
  "int8_matrix n m \<longleftrightarrow> has_shape n m \<and> (\<forall>row \<in> set m. \<forall>v \<in> set row. - 128 \<le> v \<and> v \<le> 127)"

definition product32 :: "nat \<Rightarrow> matrix \<Rightarrow> matrix \<Rightarrow> matrix" where
  "product32 n a b = map (map wrap32) (exact_product n a b)"

definition int32_matmul_ok :: "torch \<Rightarrow> bool" where
  "int32_matmul_ok T \<longleftrightarrow> (\<forall>n a b. int8_matrix n a \<and> int8_matrix n b \<longrightarrow> t_int32_matmul T OnCpu a b = Some (product32 n a b))"

definition backend_call :: "torch \<Rightarrow> string \<Rightarrow> matrix \<Rightarrow> matrix \<Rightarrow> matrix option" where
  "backend_call T resolved a b =
     (if resolved = ''mps'' then t_int32_matmul T OnMps a b
      else if cpu_int_mm_available T = Inr True then t_int_mm T (if resolved = ''cuda'' then OnCuda else OnCpu) a b
      else t_int32_matmul T (if resolved = ''cuda'' then OnCuda else OnCpu) a b)"

definition kernel_exact :: "torch \<Rightarrow> string \<Rightarrow> bool" where
  "kernel_exact T backend \<longleftrightarrow> is_ok (cpu_int_mm_available T) \<and>
     (\<exists>resolved. resolve_backend T backend = Inr resolved \<and>
       (\<forall>a b. int8_matrix POW_MATRIX_DIM a \<and> int8_matrix POW_MATRIX_DIM b \<longrightarrow>
          backend_call T resolved a b = Some (product32 POW_MATRIX_DIM a b)))"

text \<open>Two examples: every call computes the product; and a build whose \<open>_int_mm\<close> adds one to every entry.\<close>

definition example_torch :: torch where
  "example_torch =
     (let p = (\<lambda>device a b. Some (product32 (length a) a b)) in
      \<lparr>cuda_is_available = True, mps_is_available = False, has_int_mm = True, t_int_mm = p, t_int32_matmul = p\<rparr>)"

definition broken_torch :: torch where
  "broken_torch = example_torch\<lparr>cuda_is_available := False,
     t_int_mm := (\<lambda>device a b. Some (map (map (\<lambda>v. v + 1)) (product32 (length a) a b)))\<rparr>"

section \<open>The product fits its accumulator\<close>

lemma wrap32_small: "- (2 ^ 31) \<le> v \<Longrightarrow> v < 2 ^ 31 \<Longrightarrow> wrap32 v = v"
  by (simp add: wrap32_def)

lemma dot_bound:
  assumes "\<forall>x \<in> set xs. - 128 \<le> x \<and> x \<le> 127" "\<forall>y \<in> set ys. - 128 \<le> y \<and> y \<le> 127"
  shows "\<bar>dot xs ys\<bar> \<le> 16384 * int (length xs)"
  using assms
proof (induction xs arbitrary: ys)
  case (Cons x xs)
  show ?case
  proof (cases ys)
    case (Cons y zs)
    have "\<bar>x\<bar> * \<bar>y\<bar> \<le> 128 * 128" using Cons.prems Cons by (intro mult_mono) auto
    then have "\<bar>x * y\<bar> \<le> 16384" by (simp add: abs_mult)
    moreover have "\<bar>dot xs zs\<bar> \<le> 16384 * int (length xs)" using Cons.IH Cons.prems Cons by simp
    moreover have "dot (x # xs) ys = x * y + dot xs zs" using Cons by (simp add: dot_def)
    ultimately show ?thesis by simp
  qed (simp add: dot_def)
qed (simp add: dot_def)

lemma column_in: "has_shape n m \<Longrightarrow> j < n \<Longrightarrow> v \<in> set (column j m) \<Longrightarrow> \<exists>row \<in> set m. v \<in> set row"
  by (auto simp: column_def has_shape_def) (metis nth_mem)

lemma product_entry_bound:
  assumes "int8_matrix n a" "int8_matrix n b" "n \<le> 1024" "row \<in> set a" "j < n"
  shows "\<bar>dot row (column j b)\<bar> \<le> 16777216"
proof -
  have "\<forall>v \<in> set (column j b). - 128 \<le> v \<and> v \<le> 127"
    using column_in [of n b j] assms by (fastforce simp: int8_matrix_def)
  moreover have "\<forall>v \<in> set row. - 128 \<le> v \<and> v \<le> 127" "length row = n"
    using assms by (auto simp: int8_matrix_def has_shape_def)
  ultimately have "\<bar>dot row (column j b)\<bar> \<le> 16384 * int n" using dot_bound [of row "column j b"] by simp
  then show ?thesis using assms(3) by simp
qed

lemma wrapped_product_exact:
  assumes "int8_matrix n a" "int8_matrix n b" "n \<le> 1024"
  shows "product32 n a b = exact_product n a b"
proof -
  have "wrap32 (dot row (column j b)) = dot row (column j b)" if "row \<in> set a" "j < n" for row j
    using product_entry_bound [OF assms that] by (intro wrap32_small) auto
  then show ?thesis by (simp add: product32_def exact_product_def)
qed

lemma exact_product_shape: "has_shape n a \<Longrightarrow> has_shape n (exact_product n a b)"
  by (auto simp: has_shape_def exact_product_def)

lemma require_int8_matrix_iff: "require_int8_matrix m n = Inr m' \<longleftrightarrow> m' = m \<and> int8_matrix n m"
  by (auto simp: require_int8_matrix_def bnd_Inr_iff int8_matrix_def INT8_MIN_VALUE_def INT8_MAX_VALUE_def)

lemma resolve_backend_cases: "resolve_backend T b = Inr r \<Longrightarrow> r \<in> {''cpu'', ''cuda'', ''mps''}"
  by (auto simp: resolve_backend_def bnd_Inr_iff split: if_splits)

lemma require_int8_matrix_eq: "require_int8_matrix m n = (if int8_matrix n m then Inr m else Inl PowInputError)"
  by (auto simp: require_int8_matrix_def bnd_ensure int8_matrix_def INT8_MIN_VALUE_def INT8_MAX_VALUE_def)

text \<open>The probes catch every \<open>RuntimeError\<close> but that of the reference product.\<close>

lemma matmul_call:
  assumes "int8_matrix POW_MATRIX_DIM a" "int8_matrix POW_MATRIX_DIM b" "resolve_backend T backend = Inr resolved"
    "is_ok (cpu_int_mm_available T)"
  shows "matmul_int8 T a b backend = bnd (torch_call (backend_call T resolved a b)) (\<lambda>result.
    bnd (ensure (has_shape POW_MATRIX_DIM result) PowBackendUnavailableError) (\<lambda>_. Inr result))"
proof -
  have r: "require_int8_matrix a POW_MATRIX_DIM = Inr a" "require_int8_matrix b POW_MATRIX_DIM = Inr b"
    using assms(1,2) by (simp_all add: require_int8_matrix_iff)
  have n: "cpu_int_mm_available T = Inr False" if "\<not> has_int_mm T" using that by (simp add: cpu_int_mm_available_def)
  obtain u where u: "cpu_int_mm_available T = Inr u" using assms(4) by (auto simp: is_ok_iff)
  have "int_mm T device a b = torch_call (if u then t_int_mm T device a b else t_int32_matmul T device a b)" for device
    using u n by (auto simp: int_mm_def)
  then show ?thesis using resolve_backend_cases [OF assms(3)] u
    by (auto simp: matmul_int8_def r assms(3) backend_call_def mps_int32_mm_def)
qed

lemma matmul_exact:
  assumes "kernel_exact T backend" "int8_matrix POW_MATRIX_DIM a" "int8_matrix POW_MATRIX_DIM b"
  shows "matmul_int8 T a b backend = Inr (exact_product POW_MATRIX_DIM a b)"
proof -
  obtain r where r: "is_ok (cpu_int_mm_available T)" "resolve_backend T backend = Inr r" "backend_call T r a b = Some (product32 POW_MATRIX_DIM a b)"
    using assms unfolding kernel_exact_def by blast
  have "product32 POW_MATRIX_DIM a b = exact_product POW_MATRIX_DIM a b"
    using wrapped_product_exact [OF assms(2,3)] by (simp add: POW_MATRIX_DIM_def)
  moreover have "has_shape POW_MATRIX_DIM (exact_product POW_MATRIX_DIM a b)"
    using assms(2) by (simp add: exact_product_shape int8_matrix_def)
  ultimately show ?thesis using matmul_call [OF assms(2,3) r(2,1)] r(3) by (simp add: torch_call_def)
qed

lemma probe_int8: "int8_matrix n (probe_matrix n k c)"
proof -
  have "- 128 \<le> x mod 256 - 128 \<and> x mod 256 - 128 \<le> 127" for x :: int
    using pos_mod_sign [of 256 x] pos_mod_bound [of 256 x] by linarith
  then show ?thesis by (auto simp: probe_matrix_def int8_matrix_def has_shape_def)
qed

text \<open>What the probe of \<open>_int_mm\<close> finds out, and that without a usable \<open>_int_mm\<close> the documented product is used.\<close>

lemma cpu_probe_eq:
  assumes "int32_matmul_ok T"
  shows "cpu_int_mm_available T = Inr (has_int_mm T \<and>
    (case cpu_int_mm_probe_matrices of (l, r) \<Rightarrow> t_int_mm T OnCpu l r = Some (exact_product 16 l r)))"
proof -
  have "t_int32_matmul T OnCpu (probe_matrix 16 17 13) (probe_matrix 16 31 7) = Some (product32 16 (probe_matrix 16 17 13) (probe_matrix 16 31 7))"
    using assms probe_int8 unfolding int32_matmul_ok_def by blast
  moreover have "product32 16 (probe_matrix 16 17 13) (probe_matrix 16 31 7) = exact_product 16 (probe_matrix 16 17 13) (probe_matrix 16 31 7)"
    by (rule wrapped_product_exact [OF probe_int8 probe_int8]) simp
  ultimately show ?thesis
    by (auto simp: cpu_int_mm_available_def cpu_int_mm_probe_matrices_def torch_call_def split: option.splits)
qed

lemma cpu_fallback_exact:
  assumes "int32_matmul_ok T" "cpu_int_mm_available T = Inr False"
  shows "kernel_exact T ''cpu''"
proof -
  have "resolve_backend T ''cpu'' = Inr ''cpu''" by (simp add: resolve_backend_def bnd_ensure)
  then show ?thesis using assms unfolding int32_matmul_ok_def kernel_exact_def backend_call_def is_ok_iff by auto
qed

lemma example_torch_ok: "int32_matmul_ok example_torch" "int32_matmul_ok broken_torch"
  by (auto simp: int32_matmul_ok_def example_torch_def broken_torch_def Let_def int8_matrix_def has_shape_def)

lemma example_resolves: "resolve_backend example_torch ''auto'' = Inr ''cuda''" "resolve_backend example_torch ''cpu'' = Inr ''cpu''"
  by (simp_all add: resolve_backend_def example_torch_def Let_def bnd_ensure)

lemma example_kernel_exact: "kernel_exact example_torch ''auto''" "kernel_exact example_torch ''cpu''"
proof -
  have "\<exists>u. cpu_int_mm_available example_torch = Inr u" using cpu_probe_eq [OF example_torch_ok(1)] by blast
  moreover have "t_int_mm example_torch d a b = Some (product32 POW_MATRIX_DIM a b)" "t_int32_matmul example_torch d a b = Some (product32 POW_MATRIX_DIM a b)"
    if "int8_matrix POW_MATRIX_DIM a" for d a b using that by (simp_all add: example_torch_def Let_def int8_matrix_def has_shape_def)
  ultimately show "kernel_exact example_torch ''auto''" "kernel_exact example_torch ''cpu''"
    using example_resolves by (auto simp: kernel_exact_def backend_call_def is_ok_iff)
qed

lemma broken_probe: "cpu_int_mm_available broken_torch = Inr False"
proof -
  let ?l = "probe_matrix 16 17 13" and ?r = "probe_matrix 16 31 7"
  have p: "product32 16 ?l ?r = exact_product 16 ?l ?r" by (rule wrapped_product_exact [OF probe_int8 probe_int8]) simp
  have l: "length ?l = 16" by (simp add: probe_matrix_def)
  let ?m = "exact_product 16 ?l ?r"
  have "length ?m = 16" "length (?m ! 0) = 16" by (simp_all add: exact_product_def probe_matrix_def)
  then have "map (map (\<lambda>v. v + 1)) ?m ! 0 ! 0 \<noteq> ?m ! 0 ! 0" by simp
  then have ne: "map (map (\<lambda>v. v + 1)) ?m \<noteq> ?m" by metis
  have "t_int_mm broken_torch OnCpu ?l ?r = Some (map (map (\<lambda>v. v + 1)) ?m)"
    unfolding p [symmetric] by (simp add: broken_torch_def l)
  then show ?thesis unfolding cpu_probe_eq [OF example_torch_ok(2)] cpu_int_mm_probe_matrices_def using ne by simp
qed

section \<open>Properties\<close>



end
