(* ===== verification/Anchor_DAA.thy ===== *)
theory Anchor_DAA
  imports Pow_Kernel
begin

text \<open>
  \<^verbatim>\<open>src/src/tensorpow/consensus/anchor_daa.py\<close>: the target adjustment of anchors (an exponential moving
  average of clamped intervals in fixed-point arithmetic). Targets are 32 little-endian bytes between
  a minimum and a maximum; \<open>anchor_record_ok\<close> says that a record is one the constructor returns.
\<close>

section \<open>Definitions\<close>

definition TARGET_BITS :: nat where "TARGET_BITS = 256"
definition ANCHOR_INTERVAL_MS :: int where "ANCHOR_INTERVAL_MS = 60000"
definition WTEMA_WINDOW_ANCHORS :: nat where "WTEMA_WINDOW_ANCHORS = 100"
definition WTEMA_ALPHA_NUM :: int where "WTEMA_ALPHA_NUM = 1"
definition WTEMA_ALPHA_DEN :: int where "WTEMA_ALPHA_DEN = 8"
definition WTEMA_MAX_ADJUSTMENT_FACTOR :: int where "WTEMA_MAX_ADJUSTMENT_FACTOR = 4"
definition WTEMA_TARGET_HISTORY_RECORDS :: nat where
  "WTEMA_TARGET_HISTORY_RECORDS = WTEMA_WINDOW_ANCHORS + 1"
definition FIXED_POINT_SCALE :: int where "FIXED_POINT_SCALE = push_bit 64 1"
definition ANCHOR_MIN_TARGET_INT :: int where "ANCHOR_MIN_TARGET_INT = from_le ANCHOR_MIN_TARGET_LE"
definition ANCHOR_MAX_TARGET_INT :: int where "ANCHOR_MAX_TARGET_INT = from_le ANCHOR_MAX_TARGET_LE"
definition FRUIT_TARGET_INT :: int where "FRUIT_TARGET_INT = from_le FRUIT_TARGET_LE"

definition require_target :: "bytes \<Rightarrow> unit res" where
  "require_target value =
     bnd (ensure (length value = TARGET_BYTES) ValueError) (\<lambda>_.
     let target_int = from_le value in
     ensure (ANCHOR_MIN_TARGET_INT \<le> target_int \<and> target_int \<le> ANCHOR_MAX_TARGET_INT) ValueError)"

record anchor_record =
  ar_anchor_hash :: bytes
  ar_parent_anchor :: bytes
  ar_timestamp_ms :: int
  ar_target :: bytes

definition AnchorRecord :: "bytes \<Rightarrow> bytes \<Rightarrow> int \<Rightarrow> bytes \<Rightarrow> anchor_record res" where
  "AnchorRecord anchor_hash parent_anchor timestamp_ms target =
     bnd (require_hash anchor_hash) (\<lambda>_.
     bnd (require_hash parent_anchor) (\<lambda>_.
     bnd (require_uint timestamp_ms U64_MAX) (\<lambda>_.
     bnd (require_target target) (\<lambda>_.
     Inr \<lparr>ar_anchor_hash = anchor_hash, ar_parent_anchor = parent_anchor,
       ar_timestamp_ms = timestamp_ms, ar_target = target\<rparr>))))"

definition target_to_int :: "bytes \<Rightarrow> int res" where
  "target_to_int target = bnd (require_target target) (\<lambda>_. Inr (from_le target))"

definition int_to_target :: "int \<Rightarrow> bytes res" where
  "int_to_target v =
     bnd (ensure (ANCHOR_MIN_TARGET_INT \<le> v \<and> v \<le> ANCHOR_MAX_TARGET_INT) ValueError) (\<lambda>_.
     to_bytes TARGET_BYTES v)"

definition anchor_work_weight :: "bytes \<Rightarrow> int res" where
  "anchor_work_weight active_target =
     bnd (target_to_int active_target) (\<lambda>target_int. Inr (min (FRUIT_TARGET_INT div target_int) U64_MAX))"

definition normalize_history :: "anchor_record list \<Rightarrow> anchor_record list" where
  "normalize_history history = drop (length history - WTEMA_TARGET_HISTORY_RECORDS) history"

fun parent_chain_loop :: "anchor_record list \<Rightarrow> bytes set \<Rightarrow> anchor_record option \<Rightarrow> unit res" where
  "parent_chain_loop [] seen previous = Inr ()"
| "parent_chain_loop (record # records) seen previous =
     bnd (ensure (ar_anchor_hash record \<notin> seen) ValueError) (\<lambda>_.
     bnd (case previous of
            None \<Rightarrow> Inr ()
          | Some p \<Rightarrow>
              bnd (ensure (ar_parent_anchor record = ar_anchor_hash p) ValueError) (\<lambda>_.
              ensure (\<not> ar_timestamp_ms record \<le> ar_timestamp_ms p) ValueError)) (\<lambda>_.
     parent_chain_loop records (insert (ar_anchor_hash record) seen) (Some record)))"

definition validate_parent_chain :: "anchor_record list \<Rightarrow> unit res" where
  "validate_parent_chain records = parent_chain_loop records {} None"

definition clamp_interval :: "int \<Rightarrow> int" where
  "clamp_interval interval_ms =
     (let min_interval = ANCHOR_INTERVAL_MS div WTEMA_MAX_ADJUSTMENT_FACTOR;
          max_interval = ANCHOR_INTERVAL_MS * WTEMA_MAX_ADJUSTMENT_FACTOR
      in min (max interval_ms min_interval) max_interval)"

definition recent_intervals :: "anchor_record list \<Rightarrow> int list" where
  "recent_intervals records =
     (let start = max 1 (length records - WTEMA_WINDOW_ANCHORS) in
      map (\<lambda>index. clamp_interval (ar_timestamp_ms (records ! index) - ar_timestamp_ms (records ! (index - 1))))
        [start..<length records])"

fun wtema_loop :: "int \<Rightarrow> int list \<Rightarrow> int" where
  "wtema_loop ratio_fp [] = ratio_fp"
| "wtema_loop ratio_fp (interval_ms # intervals) =
     (let decay = WTEMA_ALPHA_DEN - WTEMA_ALPHA_NUM;
          sample_fp = interval_ms * FIXED_POINT_SCALE div ANCHOR_INTERVAL_MS
      in wtema_loop ((decay * ratio_fp + WTEMA_ALPHA_NUM * sample_fp) div WTEMA_ALPHA_DEN) intervals)"

definition wtema_ratio_fp :: "int list \<Rightarrow> int" where
  "wtema_ratio_fp intervals = wtema_loop FIXED_POINT_SCALE intervals"

definition ceil_div :: "int \<Rightarrow> int \<Rightarrow> int" where
  "ceil_div numerator denominator = - (- numerator div denominator)"

definition next_anchor_target :: "anchor_record list \<Rightarrow> bytes res" where
  "next_anchor_target history =
     (let records = normalize_history history in
      if records = [] then Inr ANCHOR_INITIAL_TARGET_LE
      else bnd (validate_parent_chain records) (\<lambda>_.
        if length records = 1 then Inr (ar_target (last records))
        else bnd (target_to_int (ar_target (last records))) (\<lambda>previous_target.
          let ratio_fp = wtema_ratio_fp (recent_intervals records);
              adjusted = max 1 (previous_target * ratio_fp div FIXED_POINT_SCALE);
              movement_floor = ceil_div previous_target WTEMA_MAX_ADJUSTMENT_FACTOR;
              movement_ceiling = previous_target * WTEMA_MAX_ADJUSTMENT_FACTOR;
              adjusted = min (max adjusted movement_floor) movement_ceiling;
              adjusted = min (max adjusted ANCHOR_MIN_TARGET_INT) ANCHOR_MAX_TARGET_INT
          in int_to_target adjusted)))"

section \<open>Specification\<close>

definition target_ok :: "bytes \<Rightarrow> bool" where
  "target_ok t \<longleftrightarrow> length t = TARGET_BYTES \<and> ANCHOR_MIN_TARGET_INT \<le> from_le t \<and> from_le t \<le> ANCHOR_MAX_TARGET_INT"

definition anchor_record_ok :: "anchor_record \<Rightarrow> bool" where
  "anchor_record_ok r \<longleftrightarrow> length (ar_anchor_hash r) = HASH_LEN_BYTES \<and> length (ar_parent_anchor r) = HASH_LEN_BYTES
     \<and> 0 \<le> ar_timestamp_ms r \<and> ar_timestamp_ms r \<le> U64_MAX \<and> target_ok (ar_target r)"

definition parent_chain :: "anchor_record list \<Rightarrow> bool" where
  "parent_chain rs \<longleftrightarrow> distinct (map ar_anchor_hash rs)
     \<and> successively (\<lambda>a b. ar_parent_anchor b = ar_anchor_hash a
          \<and> ar_timestamp_ms a < ar_timestamp_ms b) rs"

section \<open>Targets\<close>

lemma require_target_iff: "require_target t = Inr u \<longleftrightarrow> target_ok t"
  by (auto simp: require_target_def bnd_Inr_iff Let_def target_ok_def)

lemma AnchorRecord_iff: "AnchorRecord h p ts t = Inr r \<longleftrightarrow>
  r = \<lparr>ar_anchor_hash = h, ar_parent_anchor = p, ar_timestamp_ms = ts, ar_target = t\<rparr> \<and> anchor_record_ok r"
  by (auto simp: AnchorRecord_def bnd_Inr_iff require_target_iff anchor_record_ok_def)

lemma target_limits: "ANCHOR_MIN_TARGET_INT = 1" "1 \<le> ANCHOR_MAX_TARGET_INT" "ANCHOR_MAX_TARGET_INT < 256 ^ 32"
  "FRUIT_TARGET_INT = ANCHOR_MAX_TARGET_INT"
proof -
  show "ANCHOR_MIN_TARGET_INT = 1" "1 \<le> ANCHOR_MAX_TARGET_INT" by code_simp+
  show "FRUIT_TARGET_INT = ANCHOR_MAX_TARGET_INT"
    by (simp add: FRUIT_TARGET_INT_def ANCHOR_MAX_TARGET_INT_def ANCHOR_MAX_TARGET_LE_def)
  have "length ANCHOR_MAX_TARGET_LE = 32" by code_simp
  then show "ANCHOR_MAX_TARGET_INT < 256 ^ 32" unfolding ANCHOR_MAX_TARGET_INT_def by (rule from_le_less')
qed

lemma target_widths: "TARGET_BYTES = 32"
  by (simp add: TARGET_BYTES_def HASH_LEN_BYTES_def)

lemma int_to_target_eq:
  assumes "ANCHOR_MIN_TARGET_INT \<le> v" "v \<le> ANCHOR_MAX_TARGET_INT"
  shows "int_to_target v = Inr (le_bytes 32 v)" "from_le (le_bytes 32 v) = v" "target_ok (le_bytes 32 v)"
proof -
  have v: "0 \<le> v" "v < 256 ^ 32" using assms target_limits by auto
  show "int_to_target v = Inr (le_bytes 32 v)"
    using assms v by (simp add: int_to_target_def bnd_ensure target_widths to_bytes_ok)
  show f: "from_le (le_bytes 32 v) = v" using v by (rule from_le_bytes)
  show "target_ok (le_bytes 32 v)" using assms f by (simp add: target_ok_def target_widths)
qed

lemma initial_target_ok: "target_ok ANCHOR_INITIAL_TARGET_LE"
  by code_simp

section \<open>The moving average\<close>

lemma fixed_point: "FIXED_POINT_SCALE = 2 ^ 64"
  by (simp add: FIXED_POINT_SCALE_def)

lemma clamp_interval_bounds: "15000 \<le> clamp_interval v" "clamp_interval v \<le> 240000"
  by (simp_all add: clamp_interval_def ANCHOR_INTERVAL_MS_def WTEMA_MAX_ADJUSTMENT_FACTOR_def Let_def)

lemma wtema_loop_bounds:
  assumes "\<forall>i \<in> set is. 15000 \<le> i \<and> i \<le> 240000" "2 ^ 62 \<le> r" "r \<le> 2 ^ 66"
  shows "2 ^ 62 \<le> wtema_loop r is \<and> wtema_loop r is \<le> 2 ^ 66"
  using assms
proof (induction "is" arbitrary: r)
  case (Cons i "is")
  define s where "s = i * FIXED_POINT_SCALE div ANCHOR_INTERVAL_MS"
  have i: "15000 \<le> i" "i \<le> 240000" using Cons.prems by auto
  have "15000 * 2 ^ 64 div 60000 \<le> s" "s \<le> 240000 * 2 ^ 64 div 60000"
    unfolding s_def fixed_point ANCHOR_INTERVAL_MS_def using i by (intro zdiv_mono1; simp)+
  then have "2 ^ 62 \<le> s" "s \<le> 2 ^ 66" by simp_all
  then have "2 ^ 62 \<le> (7 * r + s) div 8" "(7 * r + s) div 8 \<le> 2 ^ 66" using Cons.prems by simp_all
  then show ?case using Cons.IH [of "(7 * r + s) div 8"] Cons.prems
    by (simp add: WTEMA_ALPHA_DEN_def WTEMA_ALPHA_NUM_def s_def Let_def)
qed simp

lemma wtema_loop_steady:
  "\<forall>i \<in> set is. i = ANCHOR_INTERVAL_MS \<Longrightarrow> wtema_loop FIXED_POINT_SCALE is = FIXED_POINT_SCALE"
  by (induction "is") (auto simp: ANCHOR_INTERVAL_MS_def WTEMA_ALPHA_DEN_def WTEMA_ALPHA_NUM_def fixed_point Let_def)

lemma recent_intervals_bounds: "\<forall>i \<in> set (recent_intervals rs). 15000 \<le> i \<and> i \<le> 240000"
  by (auto simp: recent_intervals_def clamp_interval_bounds Let_def)

lemma length_recent_intervals: "length (recent_intervals rs) \<le> WTEMA_WINDOW_ANCHORS"
  by (simp add: recent_intervals_def Let_def)

section \<open>The parent chain\<close>

lemma parent_chain_loop_iff:
  "parent_chain_loop rs seen prev = Inr () \<longleftrightarrow>
     distinct (map ar_anchor_hash rs) \<and> set (map ar_anchor_hash rs) \<inter> seen = {}
     \<and> successively (\<lambda>a b. ar_parent_anchor b = ar_anchor_hash a \<and> ar_timestamp_ms a < ar_timestamp_ms b)
          (case prev of None \<Rightarrow> rs | Some p \<Rightarrow> p # rs)"
proof (induction rs arbitrary: seen prev)
  case Nil
  then show ?case by (cases prev) auto
next
  case (Cons r rs)
  then show ?case by (cases prev) (auto simp: bnd_Inr_iff)
qed

lemma validate_parent_chain_iff: "validate_parent_chain rs = Inr () \<longleftrightarrow> parent_chain rs"
  by (simp add: validate_parent_chain_def parent_chain_loop_iff parent_chain_def)

lemma validate_parent_chain_errors: "value_errors (validate_parent_chain rs)"
proof -
  have "value_errors (parent_chain_loop rs seen prev)" for seen prev
    by (induction rs arbitrary: seen prev) (auto intro!: value_errors_intros split: option.splits)
  then show ?thesis by (simp add: validate_parent_chain_def)
qed

lemma ceil_div_4: "ceil_div p 4 = (p + 3) div 4"
  by (simp add: ceil_div_def)

lemma next_anchor_target_two:
  assumes "\<forall>r \<in> set history. anchor_record_ok r" "2 \<le> length history" "parent_chain (normalize_history history)"
  defines "p \<equiv> from_le (ar_target (last history))"
  defines "r \<equiv> wtema_ratio_fp (recent_intervals (normalize_history history))"
  shows "next_anchor_target history = Inr (le_bytes 32
    (min (max (min (max (max 1 (p * r div 2 ^ 64)) ((p + 3) div 4)) (p * 4)) 1) ANCHOR_MAX_TARGET_INT))"
proof -
  let ?rs = "normalize_history history"
  have len: "length ?rs = min (length history) 101"
    by (simp add: normalize_history_def WTEMA_TARGET_HISTORY_RECORDS_def WTEMA_WINDOW_ANCHORS_def)
  have last: "last ?rs = last history" using assms(2)
    by (simp add: normalize_history_def WTEMA_TARGET_HISTORY_RECORDS_def WTEMA_WINDOW_ANCHORS_def last_drop)
  have "last history \<in> set history" using assms(2) by (intro last_in_set) auto
  then have "target_ok (ar_target (last history))" using assms(1) by (simp add: anchor_record_ok_def)
  then have t: "target_to_int (ar_target (last ?rs)) = Inr p"
    using require_target_iff [of "ar_target (last history)" "()"] by (simp add: target_to_int_def last p_def)
  have "1 \<le> min (max x 1) ANCHOR_MAX_TARGET_INT" for x using target_limits(2) by simp
  then have "int_to_target (min (max x 1) ANCHOR_MAX_TARGET_INT) =
      Inr (le_bytes 32 (min (max x 1) ANCHOR_MAX_TARGET_INT))" for x
    by (intro int_to_target_eq(1)) (simp_all add: target_limits(1))
  moreover have "?rs \<noteq> []" "length ?rs \<noteq> 1" using len assms(2) by auto
  moreover have "validate_parent_chain ?rs = Inr ()" using assms(3) validate_parent_chain_iff by blast
  ultimately show ?thesis
    unfolding next_anchor_target_def Let_def t fixed_point WTEMA_MAX_ADJUSTMENT_FACTOR_def ceil_div_4 target_limits(1)
    by (simp only: if_False bnd_simps t r_def)
qed

section \<open>Properties\<close>

text \<open>(C27) The next target is always valid and moves by at most a factor of four: on a history of valid
  records \<open>next_anchor_target\<close> fails exactly when the last 101 of them are not a parent chain with
  distinct hashes and increasing timestamps; otherwise it returns a target within the bounds, and with
  two or more records that target lies between a quarter of the last one (rounded up) and four times it.\<close>

theorem next_anchor_target_bounds:
  assumes "\<forall>r \<in> set history. anchor_record_ok r"
  shows "case next_anchor_target history of
      Inl e \<Rightarrow> e = ValueError \<and> \<not> parent_chain (normalize_history history)
    | Inr t \<Rightarrow> parent_chain (normalize_history history) \<and> target_ok t
        \<and> (2 \<le> length history \<longrightarrow>
             from_le (ar_target (last history)) \<le> 4 * from_le t
             \<and> from_le t \<le> 4 * from_le (ar_target (last history)))"
proof (cases "parent_chain (normalize_history history)")
  case False
  let ?rs = "normalize_history history"
  have ne: "?rs \<noteq> []" using False by (auto simp: parent_chain_def)
  obtain e where e: "validate_parent_chain ?rs = Inl e"
    using False validate_parent_chain_iff [of ?rs] by (cases "validate_parent_chain ?rs") auto
  have "e = ValueError"
  proof -
    have "raises_only (\<lambda>e. e = ValueError) (parent_chain_loop rs seen prev)" for rs seen prev
      by (induction rs arbitrary: seen prev) (auto intro!: raises_intros split: option.splits)
    then show ?thesis using e by (auto simp: validate_parent_chain_def raises_only_def)
  qed
  then show ?thesis using False e ne by (simp add: next_anchor_target_def Let_def)
next
  case True
  let ?rs = "normalize_history history"
  consider "history = []" | "length history = 1" | "2 \<le> length history"
    by (cases history rule: list.exhaust) (auto simp: Suc_le_eq)
  then show ?thesis
  proof cases
    case 1
    then show ?thesis using True initial_target_ok by (simp add: next_anchor_target_def normalize_history_def)
  next
    case 2
    then obtain r where h: "history = [r]" by (auto simp: length_Suc_conv)
    then have "?rs = [r]" by (simp add: normalize_history_def WTEMA_TARGET_HISTORY_RECORDS_def)
    then show ?thesis using True assms h validate_parent_chain_iff [of "[r]"]
      by (simp add: next_anchor_target_def anchor_record_ok_def)
  next
    case 3
    define p where "p = from_le (ar_target (last history))"
    define r where "r = wtema_ratio_fp (recent_intervals ?rs)"
    define v where "v = min (max (min (max (max 1 (p * r div 2 ^ 64)) ((p + 3) div 4)) (p * 4)) 1) ANCHOR_MAX_TARGET_INT"
    have "last history \<in> set history" using 3 by (intro last_in_set) auto
    then have "target_ok (ar_target (last history))" using assms by (simp add: anchor_record_ok_def)
    then have p: "1 \<le> p" "p \<le> ANCHOR_MAX_TARGET_INT" by (simp_all add: target_ok_def p_def target_limits(1))
    have v: "1 \<le> v" "v \<le> ANCHOR_MAX_TARGET_INT" using target_limits(2) by (simp_all add: v_def)
    have "p \<le> 4 * v" "v \<le> 4 * p" using p by (auto simp: v_def min_def max_def)
    moreover have "next_anchor_target history = Inr (le_bytes 32 v)"
      unfolding p_def r_def v_def by (rule next_anchor_target_two [OF assms 3 True])
    moreover have "from_le (le_bytes 32 v) = v" "target_ok (le_bytes 32 v)"
      using int_to_target_eq(2,3) [of v] v target_limits(1) by simp_all
    ultimately show ?thesis using True by (simp add: p_def)
  qed
qed

text \<open>The adjustment has its fixed point at the intended pace: when every anchor of the window came
  exactly \<open>ANCHOR_INTERVAL_MS\<close> after its parent, the target stays the same.\<close>

theorem next_anchor_target_steady:
  assumes "\<forall>r \<in> set history. anchor_record_ok r" "2 \<le> length history" "parent_chain (normalize_history history)"
    "\<forall>i \<in> set (recent_intervals (normalize_history history)). i = ANCHOR_INTERVAL_MS"
  shows "next_anchor_target history = Inr (ar_target (last history))"
proof -
  let ?t = "ar_target (last history)"
  have "last history \<in> set history" using assms(2) by (intro last_in_set) auto
  then have t: "target_ok ?t" using assms(1) by (simp add: anchor_record_ok_def)
  then have p: "1 \<le> from_le ?t" "from_le ?t \<le> ANCHOR_MAX_TARGET_INT"
    by (simp_all add: target_ok_def target_limits(1))
  have keep: "min (max (min (max (max 1 p) ((p + 3) div 4)) (p * 4)) 1) m = p" if "1 \<le> p" "p \<le> m" for p m :: int
  proof -
    have "(p + 3) div 4 \<le> p" using that by linarith
    then show ?thesis using that by (simp add: max_def min_def)
  qed
  have ratio: "wtema_ratio_fp (recent_intervals (normalize_history history)) = 2 ^ 64"
    using wtema_loop_steady [OF assms(4)] by (simp add: wtema_ratio_fp_def fixed_point)
  have e: "from_le ?t * 2 ^ 64 div 2 ^ 64 = from_le ?t" by simp
  have "next_anchor_target history = Inr (le_bytes 32 (from_le ?t))"
    unfolding next_anchor_target_two [OF assms(1-3)] ratio e keep [OF p] ..
  also have "le_bytes 32 (from_le ?t) = ?t"
    using le_bytes_from_le [of ?t] t by (simp add: target_ok_def target_widths)
  finally show ?thesis .
qed

definition example_anchors :: "anchor_record list" where
  "example_anchors = [
     \<lparr>ar_anchor_hash = replicate 32 1, ar_parent_anchor = zero_bytes 32, ar_timestamp_ms = 0,
       ar_target = ANCHOR_INITIAL_TARGET_LE\<rparr>,
     \<lparr>ar_anchor_hash = replicate 32 2, ar_parent_anchor = replicate 32 1, ar_timestamp_ms = 60000,
       ar_target = ANCHOR_INITIAL_TARGET_LE\<rparr>]"

lemma example_anchors_ok: "\<forall>r \<in> set example_anchors. anchor_record_ok r" "2 \<le> length example_anchors"
  "parent_chain (normalize_history example_anchors)"
  by code_simp+

theorem next_anchor_target_bounds_witness:
  "case next_anchor_target example_anchors of
      Inl e \<Rightarrow> e = ValueError \<and> \<not> parent_chain (normalize_history example_anchors)
    | Inr t \<Rightarrow> parent_chain (normalize_history example_anchors) \<and> target_ok t
        \<and> (2 \<le> length example_anchors \<longrightarrow>
             from_le (ar_target (last example_anchors)) \<le> 4 * from_le t
             \<and> from_le t \<le> 4 * from_le (ar_target (last example_anchors)))"
  by (rule next_anchor_target_bounds [OF example_anchors_ok(1)])

theorem next_anchor_target_steady_witness:
  "next_anchor_target example_anchors = Inr ANCHOR_INITIAL_TARGET_LE"
proof -
  have "recent_intervals (normalize_history example_anchors) = [ANCHOR_INTERVAL_MS]" by code_simp
  then show ?thesis
    using next_anchor_target_steady [OF example_anchors_ok] by (simp add: example_anchors_def)
qed

end
