(* ===== verification/Rewards.thy ===== *)
theory Rewards
  imports Anchor_DAA UTXO_State
begin

text \<open>
  \<^verbatim>\<open>src/src/tensorpow/consensus/rewards.py\<close>: the issuance schedule and the split of an interval's
  subsidy between the anchor and the fruits it covers.
\<close>

section \<open>Definitions\<close>

definition FRUIT_REWARD_WEIGHT :: int where "FRUIT_REWARD_WEIGHT = 1"
definition MATOMS_PER_TSC :: int where "MATOMS_PER_TSC = 100000000"
definition MAX_SUPPLY_TSC :: int where "MAX_SUPPLY_TSC = 21000000"
definition HALVING_YEARS :: int where "HALVING_YEARS = 4"
definition DAYS_PER_YEAR :: int where "DAYS_PER_YEAR = 365"
definition HOURS_PER_DAY :: int where "HOURS_PER_DAY = 24"
definition MINUTES_PER_HOUR :: int where "MINUTES_PER_HOUR = 60"
definition HALVING_INTERVAL_ANCHORS :: int where
  "HALVING_INTERVAL_ANCHORS = HALVING_YEARS * DAYS_PER_YEAR * HOURS_PER_DAY * MINUTES_PER_HOUR"
definition INITIAL_ISSUANCE_TSC_PER_YEAR :: int where "INITIAL_ISSUANCE_TSC_PER_YEAR = 2625000"
definition INITIAL_EPOCH_SUBSIDY_TSC :: int where "INITIAL_EPOCH_SUBSIDY_TSC = 10500000"
definition INITIAL_EPOCH_SUBSIDY_MATOMS :: int where
  "INITIAL_EPOCH_SUBSIDY_MATOMS = INITIAL_EPOCH_SUBSIDY_TSC * MATOMS_PER_TSC"
definition COINBASE_MATURITY_ANCHORS :: int where "COINBASE_MATURITY_ANCHORS = 100"

definition require_nonnegative_int :: "int \<Rightarrow> unit res" where
  "require_nonnegative_int v =
     bnd (ensure (\<not> v < 0) ValueError) (\<lambda>_. ensure (\<not> v > U64_MAX) ValueError)"

definition require_positive_int :: "int \<Rightarrow> unit res" where
  "require_positive_int v =
     bnd (require_nonnegative_int v) (\<lambda>_. ensure (v \<noteq> 0) ValueError)"

definition interval_subsidy_matoms :: "int \<Rightarrow> int \<Rightarrow> int res" where
  "interval_subsidy_matoms anchor_height minted_supply_matoms =
     bnd (require_positive_int anchor_height) (\<lambda>_.
     bnd (require_nonnegative_int minted_supply_matoms) (\<lambda>_.
     bnd (ensure (\<not> minted_supply_matoms > MAX_SUPPLY_MATOMS) ValueError) (\<lambda>_.
     let interval_index = anchor_height - 1;
         epoch_index = interval_index div HALVING_INTERVAL_ANCHORS;
         anchor_index_in_epoch = interval_index mod HALVING_INTERVAL_ANCHORS;
         epoch_pool = drop_bit (nat epoch_index) INITIAL_EPOCH_SUBSIDY_MATOMS in
     if epoch_pool = 0 then Inr 0
     else
       let base = epoch_pool div HALVING_INTERVAL_ANCHORS;
           remainder = epoch_pool mod HALVING_INTERVAL_ANCHORS;
           subsidy = base + (if anchor_index_in_epoch < remainder then 1 else 0);
           remaining_supply = MAX_SUPPLY_MATOMS - minted_supply_matoms
       in Inr (min subsidy remaining_supply))))"

definition reward_pools :: "int \<Rightarrow> int \<Rightarrow> bytes \<Rightarrow> (int \<times> int) res" where
  "reward_pools fruit_count interval_subsidy anchor_target =
     bnd (require_nonnegative_int fruit_count) (\<lambda>_.
     bnd (require_nonnegative_int interval_subsidy) (\<lambda>_.
     bnd (require_hash anchor_target) (\<lambda>_.
     if fruit_count = 0 \<or> interval_subsidy = 0 then Inr (0, interval_subsidy)
     else
       let fruit_weight = fruit_count * FRUIT_REWARD_WEIGHT in
       bnd (anchor_work_weight anchor_target) (\<lambda>weight.
       let total_weight = fruit_weight + weight;
           fruit_pool = interval_subsidy * fruit_weight div total_weight
       in Inr (fruit_pool, interval_subsidy - fruit_pool)))))"

definition fruit_subsidy_assignments ::
  "(bytes, bytes) dict \<Rightarrow> int \<Rightarrow> bytes \<Rightarrow> (bytes, int) dict res" where
  "fruit_subsidy_assignments fruit_reward_keys interval_subsidy anchor_target =
     bnd (require_nonnegative_int interval_subsidy) (\<lambda>_.
     bnd (require_hash anchor_target) (\<lambda>_.
     if fruit_reward_keys = [] then Inr []
     else
       bnd (each (\<lambda>(fruit_hash, reward_key).
              bnd (require_hash fruit_hash) (\<lambda>_. require_hash reward_key)) fruit_reward_keys) (\<lambda>_.
       let checked = fruit_reward_keys; n = int (length checked) in
       bnd (reward_pools n interval_subsidy anchor_target) (\<lambda>(fruit_pool, _).
       let base = fruit_pool div n;
           remainder = fruit_pool mod n;
           ordered_hashes = map fst (sort_key (\<lambda>(fruit_hash, reward_key). (reward_key, fruit_hash)) checked)
       in Inr (map (\<lambda>(index, fruit_hash). (fruit_hash, base + (if int index < remainder then 1 else 0)))
                (enumerate 0 ordered_hashes))))))"

definition coinbase_maturity_height :: "int \<Rightarrow> int res" where
  "coinbase_maturity_height anchor_height =
     bnd (require_positive_int anchor_height) (\<lambda>_. Inr (anchor_height + COINBASE_MATURITY_ANCHORS))"

section \<open>Specification\<close>

text \<open>The schedule without the cap, and the supply issued up to a height: the state a node keeps by
  adding the subsidy of each anchor to what was minted before.\<close>

definition epoch_pool :: "nat \<Rightarrow> int" where
  "epoch_pool e = 1050000000000000 div 2 ^ e"

definition scheduled :: "nat \<Rightarrow> int" where
  "scheduled i = epoch_pool (i div 2102400) div 2102400
     + (if int (i mod 2102400) < epoch_pool (i div 2102400) mod 2102400 then 1 else 0)"

fun minted :: "nat \<Rightarrow> int res" where
  "minted 0 = Inr 0"
| "minted (Suc h) =
     bnd (minted h) (\<lambda>m. bnd (interval_subsidy_matoms (int (Suc h)) m) (\<lambda>s. Inr (m + s)))"

section \<open>The schedule\<close>

lemma reward_constants: "HALVING_INTERVAL_ANCHORS = 2102400" "INITIAL_EPOCH_SUBSIDY_MATOMS = 1050000000000000"
  by (simp_all add: HALVING_INTERVAL_ANCHORS_def HALVING_YEARS_def DAYS_PER_YEAR_def HOURS_PER_DAY_def
      MINUTES_PER_HOUR_def INITIAL_EPOCH_SUBSIDY_MATOMS_def INITIAL_EPOCH_SUBSIDY_TSC_def MATOMS_PER_TSC_def)

lemma require_nonnegative_int_iff [simp]: "require_nonnegative_int v = Inr u \<longleftrightarrow> 0 \<le> v \<and> v \<le> U64_MAX"
  by (auto simp: require_nonnegative_int_def bnd_Inr_iff)

lemma require_positive_int_iff [simp]: "require_positive_int v = Inr u \<longleftrightarrow> 0 < v \<and> v \<le> U64_MAX"
  by (auto simp: require_positive_int_def bnd_Inr_iff)

lemma bnd_require_nonnegative_int:
  "bnd (require_nonnegative_int v) f = (if 0 \<le> v \<and> v \<le> U64_MAX then f () else Inl ValueError)"
  by (simp add: require_nonnegative_int_def bnd_ensure ensure_def)

lemma bnd_require_positive_int:
  "bnd (require_positive_int v) f = (if 0 < v \<and> v \<le> U64_MAX then f () else Inl ValueError)"
  by (auto simp: require_positive_int_def bnd_require_nonnegative_int ensure_def)

lemma epoch_pool_nonneg: "0 \<le> epoch_pool e"
  by (simp add: epoch_pool_def pos_imp_zdiv_nonneg_iff)

lemma scheduled_nonneg: "0 \<le> scheduled i"
  using epoch_pool_nonneg [of "i div 2102400"] by (simp add: scheduled_def pos_imp_zdiv_nonneg_iff)

lemma interval_subsidy_eq:
  assumes "int (Suc i) \<le> U64_MAX" "0 \<le> m" "m \<le> MAX_SUPPLY_MATOMS"
  shows "interval_subsidy_matoms (int (Suc i)) m = Inr (min (scheduled i) (MAX_SUPPLY_MATOMS - m))"
proof -
  have d: "int i div 2102400 = int (i div 2102400)" "int i mod 2102400 = int (i mod 2102400)"
    using zdiv_int [of i 2102400] zmod_int [of i 2102400] by simp_all
  have "m \<le> U64_MAX" using assms(3) by (simp add: MAX_SUPPLY_MATOMS_def U64_MAX_def)
  then show ?thesis
    using assms unfolding interval_subsidy_matoms_def reward_constants bnd_require_positive_int
      bnd_require_nonnegative_int
    by (simp add: d drop_bit_eq_div scheduled_def epoch_pool_def Let_def)
qed

lemma sum_index_less:
  assumes "r \<le> n"
  shows "(\<Sum>i<n. (if i < r then 1 else 0 :: int)) = int r"
proof -
  have "{..<n} \<inter> {i. i < r} = {..<r}" using assms by auto
  then show ?thesis by (simp add: sum.If_cases)
qed

lemma even_split:
  assumes "0 < n" "0 \<le> v"
  shows "(\<Sum>i<n. v div int n + (if int i < v mod int n then 1 else 0)) = v"
proof -
  define r where "r = nat (v mod int n)"
  have r: "int r = v mod int n" "r \<le> n" using assms by (simp_all add: r_def nat_le_iff less_imp_le)
  then have "(\<Sum>i<n. (if int i < v mod int n then 1 else 0 :: int)) = int r"
    using sum_index_less [OF r(2)] by (simp flip: r(1))
  then have "(\<Sum>i<n. v div int n + (if int i < v mod int n then 1 else 0)) = int n * (v div int n) + v mod int n"
    by (simp add: sum.distrib r)
  then show ?thesis by simp
qed

lemma epoch_sum: "(\<Sum>i<2102400. scheduled (e * 2102400 + i)) = epoch_pool e"
proof -
  have "(\<Sum>i<2102400. scheduled (e * 2102400 + i)) =
      (\<Sum>i<2102400. epoch_pool e div int 2102400 + (if int i < epoch_pool e mod int 2102400 then 1 else 0))"
    by (intro sum.cong refl) (simp add: scheduled_def)
  then show ?thesis using even_split [of 2102400 "epoch_pool e"] epoch_pool_nonneg [of e] by simp
qed

lemma pools_bounded: "(\<Sum>k<e. epoch_pool k) + 2 * epoch_pool e \<le> 2100000000000000"
proof (induction e)
  case 0
  then show ?case by (simp add: epoch_pool_def)
next
  case (Suc e)
  have "epoch_pool (Suc e) = epoch_pool e div 2"
    by (simp add: epoch_pool_def mult.commute [of 2] flip: zdiv_zmult2_eq)
  then have "2 * epoch_pool (Suc e) \<le> epoch_pool e" by simp
  then show ?case using Suc by simp
qed

lemma sum_lessThan_add: "(\<Sum>i<m + n. f i) = (\<Sum>i<m. f i) + (\<Sum>i<n. f (m + i :: nat) :: int)"
  by (induction n) simp_all

lemma scheduled_epochs: "(\<Sum>i<e * 2102400. scheduled i) = (\<Sum>k<e. epoch_pool k)"
proof (induction e)
  case (Suc e)
  have "(\<Sum>i<Suc e * 2102400. scheduled i) = (\<Sum>i<e * 2102400. scheduled i) + (\<Sum>i<2102400. scheduled (e * 2102400 + i))"
    using sum_lessThan_add [of scheduled "e * 2102400" 2102400] by (simp add: add.commute)
  then show ?case using Suc epoch_sum by simp
qed simp

lemma scheduled_sum_bound: "(\<Sum>i<n. scheduled i) \<le> 2100000000000000"
proof -
  let ?e = "n div 2102400"
  have "(\<Sum>i<n. scheduled i) \<le> (\<Sum>i<?e * 2102400 + 2102400. scheduled i)"
    using mod_less_divisor [of 2102400 n] mult_div_mod_eq [of 2102400 n]
    by (intro sum_mono2) (auto simp: scheduled_nonneg)
  also have "\<dots> = (\<Sum>k<?e. epoch_pool k) + epoch_pool ?e"
    unfolding sum_lessThan_add by (simp add: scheduled_epochs epoch_sum)
  also have "\<dots> \<le> 2100000000000000" using pools_bounded [of ?e] epoch_pool_nonneg [of ?e] by simp
  finally show ?thesis .
qed

lemma minted_eq: "int h \<le> U64_MAX \<Longrightarrow> minted h = Inr (\<Sum>i<h. scheduled i)"
proof (induction h)
  case (Suc h)
  have s: "0 \<le> (\<Sum>i<h. scheduled i)" by (simp add: sum_nonneg scheduled_nonneg)
  have "scheduled h \<le> MAX_SUPPLY_MATOMS - (\<Sum>i<h. scheduled i)"
    using scheduled_sum_bound [of "Suc h"] by (simp add: MAX_SUPPLY_MATOMS_def)
  moreover have "interval_subsidy_matoms (int (Suc h)) (\<Sum>i<h. scheduled i) =
      Inr (min (scheduled h) (MAX_SUPPLY_MATOMS - (\<Sum>i<h. scheduled i)))"
    using Suc.prems s scheduled_sum_bound [of h] by (intro interval_subsidy_eq) (auto simp: MAX_SUPPLY_MATOMS_def)
  ultimately show ?case using Suc by (simp del: of_nat_Suc)
qed simp

section \<open>The split of a subsidy\<close>

lemma anchor_work_weight_nonneg: "anchor_work_weight t = Inr w \<Longrightarrow> 1 \<le> w \<and> w \<le> U64_MAX"
proof -
  assume "anchor_work_weight t = Inr w"
  then have t: "target_ok t" and w: "w = min (FRUIT_TARGET_INT div from_le t) U64_MAX"
    by (auto simp: anchor_work_weight_def target_to_int_def bnd_Inr_iff require_target_iff)
  then have "1 \<le> from_le t" "from_le t \<le> FRUIT_TARGET_INT" by (simp_all add: target_ok_def target_limits)
  then have "1 \<le> FRUIT_TARGET_INT div from_le t" by (simp add: pos_imp_zdiv_pos_iff [symmetric] int_one_le_iff_zero_less)
  then show ?thesis using w by (simp add: U64_MAX_def)
qed

lemma reward_pools_Inr:
  assumes "reward_pools n s t = Inr (f, a)"
  shows "0 \<le> f" "0 \<le> a" "f + a = s" "n = 0 \<Longrightarrow> f = 0"
proof -
  have ns: "0 \<le> n" "0 \<le> s" using assms by (auto simp: reward_pools_def bnd_Inr_iff)
  have "0 \<le> f \<and> 0 \<le> a \<and> f + a = s \<and> (n = 0 \<longrightarrow> f = 0)"
  proof (cases "n = 0 \<or> s = 0")
    case True
    then show ?thesis using assms ns by (auto simp: reward_pools_def bnd_Inr_iff)
  next
    case False
    then obtain w where w: "anchor_work_weight t = Inr w" "f = s * n div (n + w)" "a = s - f"
      using assms by (auto simp: reward_pools_def bnd_Inr_iff FRUIT_REWARD_WEIGHT_def Let_def)
    note wp = anchor_work_weight_nonneg [OF w(1)]
    have "s * n \<le> s * (n + w)" using ns wp by (intro mult_left_mono) auto
    then have "f \<le> s * (n + w) div (n + w)" unfolding w(2) using ns wp by (intro zdiv_mono1) auto
    then have "f \<le> s" using ns wp False by simp
    moreover have "0 \<le> f" using w ns wp False by (simp add: pos_imp_zdiv_nonneg_iff)
    ultimately show ?thesis using w False by simp
  qed
  then show "0 \<le> f" "0 \<le> a" "f + a = s" "n = 0 \<Longrightarrow> f = 0" by auto
qed

lemma map_enumerate_pairs:
  "map fst (map (\<lambda>(i, h). (h, g i)) ps) = map snd ps" "map snd (map (\<lambda>(i, h). (h, g i)) ps) = map g (map fst ps)"
  by (induction ps) auto

lemma assignments_sum:
  assumes "xs \<noteq> []" "0 \<le> v"
  shows "sum_list (map snd (map (\<lambda>(index, h). (h, v div int (length xs) + (if int index < v mod int (length xs) then 1 else 0)))
    (enumerate 0 xs))) = v"
proof -
  let ?g = "\<lambda>i. v div int (length xs) + (if int i < v mod int (length xs) then 1 else 0)"
  have "map snd (map (\<lambda>(index, h). (h, ?g index)) (enumerate 0 xs)) = map ?g [0..<length xs]"
    unfolding map_enumerate_pairs by simp
  then have "sum_list (map snd (map (\<lambda>(index, h). (h, ?g index)) (enumerate 0 xs))) = (\<Sum>i<length xs. ?g i)"
    by (simp only: sum_list_sum_nth atLeast0LessThan length_map length_upt) simp
  then show ?thesis using even_split [of "length xs" v] assms by simp
qed

lemma fruit_assignments_spec:
  assumes "dict_ok keys" "keys \<noteq> []" "fruit_subsidy_assignments keys subsidy target = Inr assigned"
  shows "\<exists>fruit_pool anchor_pool. reward_pools (int (length keys)) subsidy target = Inr (fruit_pool, anchor_pool)
    \<and> fruit_pool + anchor_pool = subsidy \<and> 0 \<le> anchor_pool
    \<and> dict_ok assigned \<and> set (map fst assigned) = set (map fst keys)
    \<and> sum_list (map snd assigned) = fruit_pool
    \<and> (\<forall>v \<in> set (map snd assigned). \<forall>w \<in> set (map snd assigned). 0 \<le> v \<and> \<bar>v - w\<bar> \<le> 1)"
proof -
  let ?n = "int (length keys)"
  let ?hs = "map fst (sort_key (\<lambda>(fruit_hash, reward_key). (reward_key, fruit_hash)) keys)"
  obtain f a where p: "reward_pools ?n subsidy target = Inr (f, a)"
    and as: "assigned = map (\<lambda>(index, fruit_hash). (fruit_hash, f div ?n + (if int index < f mod ?n then 1 else 0)))
      (enumerate 0 ?hs)"
    using assms(2,3) by (auto simp: fruit_subsidy_assignments_def bnd_Inr_iff Let_def split: prod.splits)
  note pools = reward_pools_Inr [OF p]
  have hs: "length ?hs = length keys" "set ?hs = set (map fst keys)" "distinct ?hs" "?hs \<noteq> []"
    using assms(1,2) by (auto simp: distinct_map) (metis length_0_conv length_sort)
  have fsts: "map fst assigned = ?hs" unfolding as map_enumerate_pairs by simp
  have "sum_list (map snd assigned) = f"
    using assignments_sum [OF hs(4) pools(1)] unfolding as hs(1) .
  moreover have "0 \<le> f div ?n" using pools(1) assms(2) by (simp add: pos_imp_zdiv_nonneg_iff)
  then have "\<forall>v \<in> set (map snd assigned). \<forall>w \<in> set (map snd assigned). 0 \<le> v \<and> \<bar>v - w\<bar> \<le> 1"
    unfolding as by (auto split: if_splits)
  ultimately show ?thesis using p pools hs fsts by simp
qed

section \<open>Properties\<close>

text \<open>The supply cap: issuing at every height, from the first anchor on, what
  \<open>interval_subsidy_matoms\<close> returns never fails and never exceeds \<open>MAX_SUPPLY_MATOMS\<close>; the cap in the
  code never cuts a subsidy short, since the halving schedule alone sums to less.\<close>

theorem minted_supply_bounded:
  assumes "int height \<le> U64_MAX"
  shows "\<exists>m. minted height = Inr m \<and> 0 \<le> m \<and> m \<le> MAX_SUPPLY_MATOMS
    \<and> (int height < U64_MAX \<longrightarrow> interval_subsidy_matoms (int height + 1) m = Inr (scheduled height))"
proof -
  let ?m = "\<Sum>i<height. scheduled i"
  have s: "0 \<le> ?m" "?m \<le> MAX_SUPPLY_MATOMS" "scheduled height \<le> MAX_SUPPLY_MATOMS - ?m"
    using scheduled_sum_bound [of height] scheduled_sum_bound [of "Suc height"]
    by (simp_all add: sum_nonneg scheduled_nonneg MAX_SUPPLY_MATOMS_def)
  then have "interval_subsidy_matoms (int height + 1) ?m = Inr (scheduled height)" if "int height < U64_MAX"
    using interval_subsidy_eq [of height ?m] that by (simp add: add.commute)
  then show ?thesis using minted_eq [OF assms] s by blast
qed

theorem minted_supply_bounded_witness:
  "\<exists>m. minted 3 = Inr m \<and> 0 \<le> m \<and> m \<le> MAX_SUPPLY_MATOMS"
  using minted_supply_bounded [of 3] by (auto simp: U64_MAX_def)

text \<open>Each epoch pays out its pool exactly: the uncapped subsidies of the anchors of epoch \<open>e\<close> sum to
  the initial pool halved \<open>e\<close> times, and no two of them differ by more than one.\<close>

theorem epoch_subsidy_exact:
  assumes "(int e + 1) * HALVING_INTERVAL_ANCHORS \<le> U64_MAX"
  shows "\<exists>f. (\<forall>i < 2102400. interval_subsidy_matoms (int (e * 2102400 + i) + 1) 0 = Inr (f i))
    \<and> (\<Sum>i<2102400. f i) = drop_bit e INITIAL_EPOCH_SUBSIDY_MATOMS
    \<and> (\<forall>i < 2102400. \<forall>j < 2102400. \<bar>f i - f j\<bar> \<le> 1)"
proof (intro exI conjI allI impI)
  let ?f = "\<lambda>i. scheduled (e * 2102400 + i)"
  fix i :: nat
  assume i: "i < 2102400"
  have "int (Suc (e * 2102400 + i)) \<le> U64_MAX" using assms i by (simp add: reward_constants algebra_simps)
  moreover have "?f i \<le> MAX_SUPPLY_MATOMS"
    using scheduled_sum_bound [of "Suc (e * 2102400 + i)"] sum_nonneg [of "{..<e * 2102400 + i}" scheduled] scheduled_nonneg
    by (simp add: MAX_SUPPLY_MATOMS_def)
  ultimately show "interval_subsidy_matoms (int (e * 2102400 + i) + 1) 0 = Inr (?f i)"
    using interval_subsidy_eq [of "e * 2102400 + i" 0] by (simp add: add.commute MAX_SUPPLY_MATOMS_def min_def)
  fix j :: nat
  assume "j < 2102400"
  then show "\<bar>?f i - ?f j\<bar> \<le> 1" using i by (simp add: scheduled_def)
next
  show "(\<Sum>i<2102400. scheduled (e * 2102400 + i)) = drop_bit e INITIAL_EPOCH_SUBSIDY_MATOMS"
    using epoch_sum by (simp add: epoch_pool_def drop_bit_eq_div reward_constants)
qed

theorem epoch_subsidy_exact_witness:
  "\<exists>f. (\<Sum>i<2102400. f i) = (1050000000000000 :: int)
     \<and> (\<forall>i < 2102400. interval_subsidy_matoms (int i + 1) 0 = Inr (f i))"
  using epoch_subsidy_exact [of 0] by (auto simp: reward_constants U64_MAX_def)

text \<open>Rewards neither create nor lose coins: the two pools of an interval sum to its subsidy, every
  covered fruit gets exactly one assignment, the assignments sum to the fruit pool and differ by at
  most one.\<close>

theorem fruit_assignments_exact:
  assumes "dict_ok keys" "keys \<noteq> []" "fruit_subsidy_assignments keys subsidy target = Inr assigned"
  shows "\<exists>fruit_pool anchor_pool. reward_pools (int (length keys)) subsidy target = Inr (fruit_pool, anchor_pool)
    \<and> fruit_pool + anchor_pool = subsidy \<and> 0 \<le> anchor_pool
    \<and> dict_ok assigned \<and> set (map fst assigned) = set (map fst keys)
    \<and> sum_list (map snd assigned) = fruit_pool
    \<and> (\<forall>v \<in> set (map snd assigned). \<forall>w \<in> set (map snd assigned). 0 \<le> v \<and> \<bar>v - w\<bar> \<le> 1)"
  by (rule fruit_assignments_spec [OF assms])

definition example_fruits :: "(bytes, bytes) dict" where
  "example_fruits = [(replicate 32 1, replicate 32 9), (replicate 32 2, replicate 32 8), (replicate 32 3, replicate 32 9)]"

theorem fruit_assignments_exact_witness:
  "\<exists>assigned fruit_pool. fruit_subsidy_assignments example_fruits 1000000 ANCHOR_INITIAL_TARGET_LE = Inr assigned
     \<and> reward_pools 3 1000000 ANCHOR_INITIAL_TARGET_LE = Inr (fruit_pool, 1000000 - fruit_pool)
     \<and> sum_list (map snd assigned) = fruit_pool"
proof -
  have "is_ok (fruit_subsidy_assignments example_fruits 1000000 ANCHOR_INITIAL_TARGET_LE)" by code_simp
  then obtain assigned where a: "fruit_subsidy_assignments example_fruits 1000000 ANCHOR_INITIAL_TARGET_LE = Inr assigned"
    by (auto simp: is_ok_iff)
  have "dict_ok example_fruits" "example_fruits \<noteq> []" "length example_fruits = 3" by code_simp+
  from fruit_assignments_exact [OF this(1,2) a] this(3) a show ?thesis by auto
qed

end
