(* ===== verification/Ghostdag.thy ===== *)
theory Ghostdag
  imports Hashing
begin

text \<open>
  \<^verbatim>\<open>src/src/tensorpow/consensus/ghostdag.py\<close>: the DAG of fruits with its ancestor cache, and the GHOSTDAG
  colouring and order.

  A Python set of hashes is a HOL set; where the code iterates over one, the model iterates over its
  sorted list (the results do not depend on the order: sums, and sorts whose key ends with the hash).
  The recursive \<open>visit\<close> of \<open>_topological_hashes\<close> is \<open>visit_all\<close>, which visits a list of hashes: the
  set \<open>visiting\<close> is passed down only, because every return of \<open>visit\<close> removes what the call added.
  The arithmetic of \<open>compute_k\<close> (decimal logarithms of the standard library) is not modelled.
\<close>

section \<open>Definitions\<close>

definition MS_PER_SECOND :: int where "MS_PER_SECOND = 1000"
definition DYNAMIC_K_FACTOR :: int where "DYNAMIC_K_FACTOR = 2"
definition DYNAMIC_K_MIN :: int where "DYNAMIC_K_MIN = 15"
definition DYNAMIC_K_MAX :: int where "DYNAMIC_K_MAX = 10000"

record fruit_block =
  fb_fruit_hash :: bytes
  fb_parents :: "bytes list"
  fb_timestamp_ms :: int
  fb_work :: int

definition require_hash_tuple :: "bytes list \<Rightarrow> unit res" where
  "require_hash_tuple value =
     bnd (ensure (card (set value) = length value) ValueError) (\<lambda>_.
     bnd (each require_hash value) (\<lambda>_. Inr ()))"

definition FruitBlock :: "bytes \<Rightarrow> bytes list \<Rightarrow> int \<Rightarrow> int \<Rightarrow> fruit_block res" where
  "FruitBlock fruit_hash parents timestamp_ms work =
     bnd (require_hash fruit_hash) (\<lambda>_.
     bnd (require_hash_tuple parents) (\<lambda>_.
     bnd (require_uint timestamp_ms U64_MAX) (\<lambda>_.
     bnd (require_uint work U64_MAX) (\<lambda>_.
     bnd (ensure (work \<noteq> 0) ValueError) (\<lambda>_.
     Inr \<lparr>fb_fruit_hash = fruit_hash, fb_parents = parents, fb_timestamp_ms = timestamp_ms,
       fb_work = work\<rparr>)))))"

record ghostdag_data =
  gd_selected_parent :: "bytes option"
  gd_blues :: "bytes set"
  gd_reds :: "bytes set"
  gd_blue_score :: int
  gd_accumulated_blue_work :: int

type_synonym metadata = "(bytes, ghostdag_data) dict"

record block_dag =
  dag_blocks :: "(bytes, fruit_block) dict"
  dag_ancestor_cache :: "(bytes, bytes set) dict"
  dag_metadata_cache :: "(int, metadata) dict"

definition empty_dag :: block_dag where
  "empty_dag = \<lparr>dag_blocks = [], dag_ancestor_cache = [], dag_metadata_cache = []\<rparr>"

text \<open>A dictionary lookup \<open>d[k]\<close>, which raises \<open>KeyError\<close> when the key is absent.\<close>

definition lookup :: "('k, 'v) dict \<Rightarrow> 'k \<Rightarrow> 'v res" where
  "lookup d k = (case dict_get d k of None \<Rightarrow> Inl KeyError | Some v \<Rightarrow> Inr v)"

subsection \<open>Blocks and ancestors\<close>

definition check_parents :: "block_dag \<Rightarrow> fruit_block \<Rightarrow> unit list res" where
  "check_parents dag block =
     each (\<lambda>parent.
       case dict_get (dag_blocks dag) parent of
         None \<Rightarrow> Inl KeyError
       | Some parent_block \<Rightarrow>
           ensure (\<not> fb_timestamp_ms block \<le> fb_timestamp_ms parent_block) ValueError) (fb_parents block)"

definition add_block :: "block_dag \<Rightarrow> fruit_block \<Rightarrow> block_dag res" where
  "add_block dag block =
     bnd (ensure (dict_get (dag_blocks dag) (fb_fruit_hash block) = None) ValueError) (\<lambda>_.
     bnd (check_parents dag block) (\<lambda>_.
     bnd (each (lookup (dag_ancestor_cache dag)) (fb_parents block)) (\<lambda>caches.
     let ancestors = set (fb_parents block) \<union> \<Union> (set caches) in
     Inr (dag\<lparr>dag_blocks := dict_set (fb_fruit_hash block) block (dag_blocks dag),
              dag_ancestor_cache := dict_set (fb_fruit_hash block) ancestors (dag_ancestor_cache dag),
              dag_metadata_cache := []\<rparr>))))"

fun add_blocks :: "fruit_block list \<Rightarrow> block_dag \<Rightarrow> block_dag res" where
  "add_blocks [] dag = Inr dag"
| "add_blocks (block # blocks) dag = bnd (add_block dag block) (\<lambda>dag. add_blocks blocks dag)"

definition BlockDAG :: "fruit_block list \<Rightarrow> block_dag res" where
  "BlockDAG blocks = add_blocks blocks empty_dag"

definition add_fruit :: "block_dag \<Rightarrow> bytes \<Rightarrow> bytes list \<Rightarrow> int \<Rightarrow> int \<Rightarrow> (fruit_block \<times> block_dag) res" where
  "add_fruit dag fruit_hash parents timestamp_ms work =
     bnd (FruitBlock fruit_hash parents timestamp_ms work) (\<lambda>block.
     bnd (add_block dag block) (\<lambda>dag. Inr (block, dag)))"

definition has_block :: "block_dag \<Rightarrow> bytes \<Rightarrow> bool res" where
  "has_block dag fruit_hash =
     bnd (require_hash fruit_hash) (\<lambda>_. Inr (dict_get (dag_blocks dag) fruit_hash \<noteq> None))"

definition get_block :: "block_dag \<Rightarrow> bytes \<Rightarrow> fruit_block res" where
  "get_block dag fruit_hash = bnd (require_hash fruit_hash) (\<lambda>_. lookup (dag_blocks dag) fruit_hash)"

definition ancestors :: "block_dag \<Rightarrow> bytes \<Rightarrow> bytes set res" where
  "ancestors dag fruit_hash =
     bnd (get_block dag fruit_hash) (\<lambda>_. lookup (dag_ancestor_cache dag) fruit_hash)"

subsection \<open>The colouring\<close>

function visit_all ::
  "(bytes, fruit_block) dict \<Rightarrow> bytes list \<Rightarrow> bytes set \<Rightarrow> bytes set \<times> bytes list \<Rightarrow>
   (bytes set \<times> bytes list) res" where
  "visit_all blocks [] visiting st = Inr st"
| "visit_all blocks (fruit_hash # rest) visiting st =
     (case st of (visited, ordered) \<Rightarrow>
      bnd (if fruit_hash \<in> visited then Inr (visited, ordered)
           else if fruit_hash \<in> visiting then Inl ValueError
           else case dict_get blocks fruit_hash of
             None \<Rightarrow> Inl KeyError
           | Some block \<Rightarrow>
               bnd (visit_all blocks (fb_parents block) (insert fruit_hash visiting) (visited, ordered))
                 (\<lambda>(visited, ordered). Inr (insert fruit_hash visited, ordered @ [fruit_hash])))
       (\<lambda>st. visit_all blocks rest visiting st))"
  by pat_completeness auto
termination
proof (relation "inv_image (less_than <*lex*> less_than)
    (\<lambda>(blocks, hs, visiting, st). (card (set (map fst blocks) - visiting), length hs))")
  fix blocks :: "(bytes, fruit_block) dict" and fruit_hash and rest :: "bytes list" and visiting and st visited ordered block
  assume "fruit_hash \<notin> visiting" "dict_get blocks fruit_hash = Some block"
  then have "fruit_hash \<in> set (map fst blocks) - visiting" by (force dest: map_of_SomeD)
  then have "card (set (map fst blocks) - insert fruit_hash visiting) < card (set (map fst blocks) - visiting)"
    by (intro psubset_card_mono) auto
  then show "((blocks, fb_parents block, insert fruit_hash visiting, visited, ordered), (blocks, fruit_hash # rest, visiting, st))
      \<in> inv_image (less_than <*lex*> less_than)
          (\<lambda>(blocks, hs, visiting, st). (card (set (map fst blocks) - visiting), length hs))"
    by simp
qed auto

definition topological_hashes :: "block_dag \<Rightarrow> bytes list res" where
  "topological_hashes dag =
     (let starts = map snd (sort (map (\<lambda>(h, block). (fb_timestamp_ms block, h)) (dag_blocks dag))) in
      bnd (visit_all (dag_blocks dag) starts {} ({}, [])) (\<lambda>(_, ordered). Inr ordered))"

definition is_related :: "block_dag \<Rightarrow> bytes \<Rightarrow> bytes \<Rightarrow> bool res" where
  "is_related dag left right =
     (if left = right then Inr True
      else bnd (ancestors dag right) (\<lambda>r.
        if left \<in> r then Inr True
        else bnd (ancestors dag left) (\<lambda>l. Inr (right \<in> l))))"

definition anticone_size :: "block_dag \<Rightarrow> bytes \<Rightarrow> bytes set \<Rightarrow> int res" where
  "anticone_size dag fruit_hash candidate_blues =
     bnd (each (is_related dag fruit_hash) (sorted_list_of_set candidate_blues)) (\<lambda>rels.
     Inr (int (length (filter Not rels))))"

definition select_parent :: "bytes list \<Rightarrow> metadata \<Rightarrow> bytes res" where
  "select_parent parents metadata =
     bnd (each (\<lambda>item. bnd (lookup metadata item) (\<lambda>g. Inr (- gd_accumulated_blue_work g, item))) parents)
       (\<lambda>keyed. Inr (snd (hd (sort keyed))))"

definition past_of_parents :: "block_dag \<Rightarrow> bytes list \<Rightarrow> bytes set res" where
  "past_of_parents dag parents =
     bnd (each (ancestors dag) parents) (\<lambda>ancs. Inr (set parents \<union> \<Union> (set ancs)))"

fun saturating_loop :: "int \<Rightarrow> int list \<Rightarrow> int" where
  "saturating_loop acc [] = acc"
| "saturating_loop acc (v # vs) =
     (if acc + v \<ge> U64_MAX then U64_MAX else saturating_loop (acc + v) vs)"

definition saturating_blue_work :: "int list \<Rightarrow> int" where
  "saturating_blue_work vs = saturating_loop 0 vs"

fun merge_loop :: "block_dag \<Rightarrow> int \<Rightarrow> bytes list \<Rightarrow> bytes set \<Rightarrow> bytes set res" where
  "merge_loop dag k [] current_blues = Inr current_blues"
| "merge_loop dag k (candidate # rest) current_blues =
     bnd (anticone_size dag candidate current_blues) (\<lambda>size.
     merge_loop dag k rest (if size \<le> k then insert candidate current_blues else current_blues))"

definition score_order :: "block_dag \<Rightarrow> metadata \<Rightarrow> bytes set \<Rightarrow> bytes list res" where
  "score_order dag metadata items =
     bnd (each (\<lambda>item.
            bnd (lookup metadata item) (\<lambda>g.
            bnd (lookup (dag_blocks dag) item) (\<lambda>block.
            Inr (gd_blue_score g, fb_timestamp_ms block, item)))) (sorted_list_of_set items)) (\<lambda>keyed.
     Inr (map (\<lambda>(_, _, item). item) (sort keyed)))"

definition ghostdag_step :: "block_dag \<Rightarrow> int \<Rightarrow> metadata \<Rightarrow> bytes \<Rightarrow> metadata res" where
  "ghostdag_step dag k metadata fruit_hash =
     bnd (lookup (dag_blocks dag) fruit_hash) (\<lambda>block.
     if fb_parents block = [] then
       Inr (dict_set fruit_hash
         \<lparr>gd_selected_parent = None, gd_blues = {fruit_hash}, gd_reds = {}, gd_blue_score = 1,
          gd_accumulated_blue_work = fb_work block\<rparr> metadata)
     else
       bnd (select_parent (fb_parents block) metadata) (\<lambda>selected_parent.
       bnd (lookup metadata selected_parent) (\<lambda>selected_data.
       bnd (ancestors dag selected_parent) (\<lambda>selected_ancestors.
       let selected_past = insert selected_parent selected_ancestors in
       bnd (past_of_parents dag (filter (\<lambda>p. p \<noteq> selected_parent) (fb_parents block))) (\<lambda>merge_past.
       bnd (score_order dag metadata (merge_past - selected_past)) (\<lambda>candidates.
       bnd (merge_loop dag k candidates (gd_blues selected_data)) (\<lambda>current_blues.
       let blues = insert fruit_hash current_blues in
       bnd (past_of_parents dag (fb_parents block)) (\<lambda>past.
       let reds = past - blues in
       bnd (each (\<lambda>item. bnd (lookup (dag_blocks dag) item) (\<lambda>b. Inr (fb_work b))) (sorted_list_of_set blues)) (\<lambda>works.
       Inr (dict_set fruit_hash
         \<lparr>gd_selected_parent = Some selected_parent, gd_blues = blues, gd_reds = reds,
          gd_blue_score = int (card blues), gd_accumulated_blue_work = saturating_blue_work works\<rparr>
         metadata))))))))))"

fun ghostdag_loop :: "block_dag \<Rightarrow> int \<Rightarrow> metadata \<Rightarrow> bytes list \<Rightarrow> metadata res" where
  "ghostdag_loop dag k metadata [] = Inr metadata"
| "ghostdag_loop dag k metadata (fruit_hash # rest) =
     bnd (ghostdag_step dag k metadata fruit_hash) (\<lambda>metadata. ghostdag_loop dag k metadata rest)"

definition require_k :: "int \<Rightarrow> unit res" where
  "require_k k = ensure (\<not> k < 0) ValueError"

definition ghostdag_metadata :: "block_dag \<Rightarrow> int \<Rightarrow> (metadata \<times> block_dag) res" where
  "ghostdag_metadata dag k =
     bnd (require_k k) (\<lambda>_.
     case dict_get (dag_metadata_cache dag) k of
       Some cached \<Rightarrow>
         if length cached = length (dag_blocks dag) then Inr (cached, dag)
         else bnd (topological_hashes dag) (\<lambda>order.
              bnd (ghostdag_loop dag k [] order) (\<lambda>metadata.
              Inr (metadata, dag\<lparr>dag_metadata_cache := dict_set k metadata (dag_metadata_cache dag)\<rparr>)))
     | None \<Rightarrow>
         bnd (topological_hashes dag) (\<lambda>order.
         bnd (ghostdag_loop dag k [] order) (\<lambda>metadata.
         Inr (metadata, dag\<lparr>dag_metadata_cache := dict_set k metadata (dag_metadata_cache dag)\<rparr>))))"

definition get_ghostdag_data :: "block_dag \<Rightarrow> bytes \<Rightarrow> int \<Rightarrow> (ghostdag_data \<times> block_dag) res" where
  "get_ghostdag_data dag fruit_hash k =
     bnd (get_block dag fruit_hash) (\<lambda>_.
     bnd (ghostdag_metadata dag k) (\<lambda>(metadata, dag).
     bnd (lookup metadata fruit_hash) (\<lambda>g. Inr (g, dag))))"

definition blue_set :: "block_dag \<Rightarrow> bytes \<Rightarrow> int \<Rightarrow> (bytes set \<times> block_dag) res" where
  "blue_set dag tip k = bnd (get_ghostdag_data dag tip k) (\<lambda>(g, dag). Inr (gd_blues g, dag))"

definition red_set :: "block_dag \<Rightarrow> bytes \<Rightarrow> int \<Rightarrow> (bytes set \<times> block_dag) res" where
  "red_set dag tip k = bnd (get_ghostdag_data dag tip k) (\<lambda>(g, dag). Inr (gd_reds g, dag))"

definition topological_order :: "block_dag \<Rightarrow> bytes \<Rightarrow> int \<Rightarrow> (bytes list \<times> block_dag) res" where
  "topological_order dag tip k =
     bnd (ghostdag_metadata dag k) (\<lambda>(metadata, dag).
     bnd (ancestors dag tip) (\<lambda>ancs.
     bnd (score_order dag metadata (insert tip ancs)) (\<lambda>order. Inr (order, dag))))"


section \<open>Specification\<close>

text \<open>The parent relation of a DAG, the strict past of a fruit, and two fruits being unrelated.\<close>

definition parent_rel :: "(bytes, fruit_block) dict \<Rightarrow> (bytes \<times> bytes) set" where
  "parent_rel blocks = {(p, h). \<exists>b. dict_get blocks h = Some b \<and> p \<in> set (fb_parents b)}"

definition past :: "block_dag \<Rightarrow> bytes \<Rightarrow> bytes set" where
  "past dag h = {a. (a, h) \<in> (parent_rel (dag_blocks dag))\<^sup>+}"

definition anticone :: "block_dag \<Rightarrow> bytes \<Rightarrow> bytes set \<Rightarrow> bytes set" where
  "anticone dag h B = {b \<in> B. b \<noteq> h \<and> b \<notin> past dag h \<and> h \<notin> past dag b}"

text \<open>The blues that the greedy merge keeps, over the mathematical anticone.\<close>

definition merge_blues :: "block_dag \<Rightarrow> int \<Rightarrow> bytes list \<Rightarrow> bytes set \<Rightarrow> bytes set" where
  "merge_blues dag k cs B = fold (\<lambda>c B. if int (card (anticone dag c B)) \<le> k then insert c B else B) cs B"

definition block_ok :: "fruit_block \<Rightarrow> bool" where
  "block_ok b \<longleftrightarrow> length (fb_fruit_hash b) = HASH_LEN_BYTES \<and> distinct (fb_parents b)
     \<and> (\<forall>p \<in> set (fb_parents b). length p = HASH_LEN_BYTES)
     \<and> 0 \<le> fb_timestamp_ms b \<and> fb_timestamp_ms b \<le> U64_MAX \<and> 1 \<le> fb_work b \<and> fb_work b \<le> U64_MAX"

definition blocks_ok :: "(bytes, fruit_block) dict \<Rightarrow> bool" where
  "blocks_ok blocks \<longleftrightarrow> dict_ok blocks \<and> (\<forall>h b. dict_get blocks h = Some b \<longrightarrow>
     fb_fruit_hash b = h \<and> block_ok b \<and>
     (\<forall>p \<in> set (fb_parents b). \<exists>q. dict_get blocks p = Some q \<and> fb_timestamp_ms q < fb_timestamp_ms b))"

definition cache_ok :: "block_dag \<Rightarrow> bool" where
  "cache_ok dag \<longleftrightarrow> (\<forall>h. dict_get (dag_ancestor_cache dag) h =
     (case dict_get (dag_blocks dag) h of None \<Rightarrow> None | Some _ \<Rightarrow> Some (past dag h)))"

text \<open>A cached metadata table is what recomputing it gives.\<close>

definition fresh_metadata :: "block_dag \<Rightarrow> int \<Rightarrow> metadata res" where
  "fresh_metadata dag k = bnd (topological_hashes dag) (\<lambda>order. ghostdag_loop dag k [] order)"

definition dag_ok :: "block_dag \<Rightarrow> bool" where
  "dag_ok dag \<longleftrightarrow> blocks_ok (dag_blocks dag) \<and> cache_ok dag \<and>
     (\<forall>k m. dict_get (dag_metadata_cache dag) k = Some m \<longrightarrow> fresh_metadata dag k = Inr m)"

text \<open>What the metadata of a fruit says about it.\<close>

definition data_ok :: "block_dag \<Rightarrow> int \<Rightarrow> metadata \<Rightarrow> bytes \<Rightarrow> ghostdag_data \<Rightarrow> bool" where
  "data_ok dag k m h g \<longleftrightarrow>
     h \<in> gd_blues g \<and> gd_blues g \<inter> gd_reds g = {} \<and> gd_blues g \<union> gd_reds g = insert h (past dag h)
     \<and> gd_blue_score g = int (card (gd_blues g))
     \<and> (case gd_selected_parent g of
          None \<Rightarrow> past dag h = {}
        | Some p \<Rightarrow> (p, h) \<in> parent_rel (dag_blocks dag) \<and>
            (\<exists>gp cs. dict_get m p = Some gp \<and> gd_blues g = insert h (merge_blues dag k cs (gd_blues gp))
               \<and> set cs = past dag h - insert p (past dag p)
               \<and> (\<forall>q gq. (q, h) \<in> parent_rel (dag_blocks dag) \<longrightarrow> dict_get m q = Some gq \<longrightarrow>
                    gd_accumulated_blue_work gq \<le> gd_accumulated_blue_work gp)))
     \<and> gd_accumulated_blue_work g =
         min U64_MAX (\<Sum>b \<in> gd_blues g. fb_work (the (dict_get (dag_blocks dag) b)))"

text \<open>The hashes with their timestamps in order, the known hashes, and the work of a fruit.\<close>

definition stamped :: "(bytes, fruit_block) dict \<Rightarrow> (int \<times> bytes) list" where
  "stamped blocks = sort (map (\<lambda>(h, block). (fb_timestamp_ms block, h)) blocks)"

definition known :: "block_dag \<Rightarrow> bytes set" where
  "known dag = dom (dict_get (dag_blocks dag))"

definition block_work :: "block_dag \<Rightarrow> bytes \<Rightarrow> int" where
  "block_work dag h = fb_work (the (dict_get (dag_blocks dag) h))"

text \<open>A diamond of four fruits, for the witnesses.\<close>

definition fruit_id :: "byte \<Rightarrow> bytes" where
  "fruit_id i = i # zero_bytes 31"

definition example_fruit :: "byte \<Rightarrow> byte list \<Rightarrow> int \<Rightarrow> fruit_block" where
  "example_fruit i ps t = \<lparr>fb_fruit_hash = fruit_id i, fb_parents = map fruit_id ps, fb_timestamp_ms = t, fb_work = 1\<rparr>"

definition diamond_fruits :: "fruit_block list" where
  "diamond_fruits = [example_fruit 1 [] 10, example_fruit 2 [1] 20, example_fruit 3 [1] 20, example_fruit 4 [2, 3] 30]"

definition diamond_dag :: block_dag where
  "diamond_dag = (case BlockDAG diamond_fruits of Inl _ \<Rightarrow> empty_dag | Inr dag \<Rightarrow> dag)"

section \<open>Lemmas\<close>

subsection \<open>The graph\<close>

lemma lookup_Inr_iff [simp]: "lookup d k = Inr v \<longleftrightarrow> dict_get d k = Some v"
  by (simp add: lookup_def split: option.splits)

lemma lookup_Some: "dict_get d k = Some v \<Longrightarrow> lookup d k = Inr v"
  by simp

lemma parent_relI: "dict_get blocks h = Some b \<Longrightarrow> p \<in> set (fb_parents b) \<Longrightarrow> (p, h) \<in> parent_rel blocks"
  by (auto simp: parent_rel_def)

lemma past_step: "past dag h = (\<Union>p \<in> {p. (p, h) \<in> parent_rel (dag_blocks dag)}. insert p (past dag p))"
  unfolding past_def by (auto elim: tranclE intro: trancl_into_trancl)

lemma parents_past:
  "dict_get (dag_blocks dag) h = Some b \<Longrightarrow>
   past dag h = set (fb_parents b) \<union> (\<Union>p \<in> set (fb_parents b). past dag p)"
  by (subst past_step) (auto simp: parent_rel_def)

lemma blocks_okD:
  assumes "blocks_ok blocks" "dict_get blocks h = Some b"
  shows "fb_fruit_hash b = h" "block_ok b" "length h = HASH_LEN_BYTES"
  using assms unfolding blocks_ok_def block_ok_def by metis+

lemma blocks_ok_parent:
  assumes "blocks_ok blocks" "(p, h) \<in> parent_rel blocks"
  obtains q b where "dict_get blocks p = Some q" "dict_get blocks h = Some b" "fb_timestamp_ms q < fb_timestamp_ms b"
  using assms by (fastforce simp: blocks_ok_def parent_rel_def)

lemma past_older:
  assumes "blocks_ok blocks" "(a, h) \<in> (parent_rel blocks)\<^sup>+"
  shows "\<exists>q b. dict_get blocks a = Some q \<and> dict_get blocks h = Some b \<and> fb_timestamp_ms q < fb_timestamp_ms b"
  using assms(2)
proof (induction rule: trancl_induct)
  case (base h)
  then show ?case using blocks_ok_parent [OF assms(1)] by metis
next
  case (step y z)
  then show ?case using blocks_ok_parent [OF assms(1) step(2)] by (metis option.inject order.strict_trans)
qed

lemma past_known:
  "blocks_ok (dag_blocks dag) \<Longrightarrow> a \<in> past dag h \<Longrightarrow> \<exists>q. dict_get (dag_blocks dag) a = Some q"
  using past_older by (fastforce simp: past_def)

lemma past_irrefl: "blocks_ok (dag_blocks dag) \<Longrightarrow> h \<notin> past dag h"
  using past_older by (fastforce simp: past_def)

lemma past_trans: "a \<in> past dag b \<Longrightarrow> b \<in> past dag c \<Longrightarrow> a \<in> past dag c"
  by (auto simp: past_def)

lemma past_subset: "b \<in> past dag c \<Longrightarrow> past dag b \<subseteq> past dag c"
  using past_trans by blast

lemma past_finite: "blocks_ok (dag_blocks dag) \<Longrightarrow> finite (past dag h)"
  by (rule finite_subset [of _ "set (map fst (dag_blocks dag))"])
    (force dest: past_known map_of_SomeD, simp)

subsection \<open>Adding a block\<close>

lemma parent_rel_new:
  assumes "blocks_ok blocks" "dict_get blocks h = None"
  shows "parent_rel (dict_set h b blocks) = parent_rel blocks \<union> (\<lambda>p. (p, h)) ` set (fb_parents b)"
  using assms by (auto simp: parent_rel_def update_conv' split: if_splits)

lemma past_new_old:
  assumes "blocks_ok blocks" "dict_get blocks h = None" "x \<noteq> h" "h \<notin> set (fb_parents b)"
  shows "(a, x) \<in> (parent_rel (dict_set h b blocks))\<^sup>+ \<longleftrightarrow> (a, x) \<in> (parent_rel blocks)\<^sup>+"
proof
  have no: "(h, y) \<notin> parent_rel blocks" for y
    using blocks_ok_parent [OF assms(1)] assms(2) by (metis option.distinct(1))
  assume "(a, x) \<in> (parent_rel (dict_set h b blocks))\<^sup>+"
  then show "(a, x) \<in> (parent_rel blocks)\<^sup>+"
    using \<open>x \<noteq> h\<close>
  proof (induction rule: trancl_induct)
    case (base y)
    then show ?case using parent_rel_new [OF assms(1,2)] by auto
  next
    case (step y z)
    then have "(y, z) \<in> parent_rel blocks" using parent_rel_new [OF assms(1,2)] by auto
    moreover from this have "y \<noteq> h" using no by blast
    ultimately show ?case using step.IH by auto
  qed
next
  assume "(a, x) \<in> (parent_rel blocks)\<^sup>+"
  then show "(a, x) \<in> (parent_rel (dict_set h b blocks))\<^sup>+"
    by (rule trancl_mono) (auto simp: parent_rel_new [OF assms(1,2)])
qed

lemma each_lookup:
  "\<forall>x \<in> set xs. dict_get d x = Some (f x) \<Longrightarrow> each (lookup d) xs = Inr (map f xs)"
  by (rule each_Inr_all) simp

lemma check_parents_Inr:
  "check_parents dag b = Inr us \<Longrightarrow>
   \<forall>p \<in> set (fb_parents b). \<exists>q. dict_get (dag_blocks dag) p = Some q \<and> fb_timestamp_ms q < fb_timestamp_ms b"
proof -
  have *: "each (\<lambda>parent. case dict_get d parent of None \<Rightarrow> Inl KeyError
      | Some q \<Rightarrow> ensure (\<not> t \<le> fb_timestamp_ms q) ValueError) ps = Inr us \<Longrightarrow>
    \<forall>p \<in> set ps. \<exists>q. dict_get d p = Some q \<and> fb_timestamp_ms q < t" for d t ps us
    by (induction ps arbitrary: us) (auto simp: bnd_Inr_iff split: option.splits)
  show "check_parents dag b = Inr us \<Longrightarrow> ?thesis" unfolding check_parents_def by (rule *)
qed

lemma add_block_ok:
  assumes "dag_ok dag" "block_ok b" "add_block dag b = Inr dag'"
  shows "dag_ok dag'" "dag_blocks dag' = dict_set (fb_fruit_hash b) b (dag_blocks dag)"
    "dict_get (dag_blocks dag) (fb_fruit_hash b) = None"
proof -
  let ?h = "fb_fruit_hash b" let ?bs = "dag_blocks dag"
  have ok: "blocks_ok ?bs" "cache_ok dag" using assms(1) by (auto simp: dag_ok_def)
  from assms(3) have new: "dict_get ?bs ?h = None" and
    par: "\<forall>p \<in> set (fb_parents b). \<exists>q. dict_get ?bs p = Some q \<and> fb_timestamp_ms q < fb_timestamp_ms b"
    by (auto simp: add_block_def res_iffs split: if_splits dest: check_parents_Inr)
  then have self: "?h \<notin> set (fb_parents b)" by auto
  have caches: "each (lookup (dag_ancestor_cache dag)) (fb_parents b) = Inr (map (past dag) (fb_parents b))"
    using ok(2) par by (intro each_lookup) (fastforce simp: cache_ok_def)
  let ?a = "set (fb_parents b) \<union> \<Union> (set (map (past dag) (fb_parents b)))"
  from assms(3) have d: "dag' = dag\<lparr>dag_blocks := dict_set ?h b ?bs,
      dag_ancestor_cache := dict_set ?h ?a (dag_ancestor_cache dag), dag_metadata_cache := []\<rparr>"
    unfolding add_block_def caches by (auto simp: res_iffs Let_def split: if_splits)
  then show bl: "dag_blocks dag' = dict_set ?h b ?bs" by simp
  have anc: "dag_ancestor_cache dag' = dict_set ?h ?a (dag_ancestor_cache dag)" using d by simp
  show "dict_get ?bs ?h = None" by (rule new)
  have blocks: "blocks_ok (dag_blocks dag')"
    unfolding blocks_ok_def bl
  proof (intro conjI allI impI)
    show "dict_ok (dict_set ?h b ?bs)" using ok by (simp add: blocks_ok_def distinct_update)
    fix h c assume c: "dict_get (dict_set ?h b ?bs) h = Some c"
    show "fb_fruit_hash c = h" "block_ok c"
      using c assms(2) blocks_okD [OF ok(1)] by (auto simp: update_conv' split: if_splits)
    show "\<forall>p \<in> set (fb_parents c). \<exists>q. dict_get (dict_set ?h b ?bs) p = Some q \<and> fb_timestamp_ms q < fb_timestamp_ms c"
    proof
      fix p assume "p \<in> set (fb_parents c)"
      then obtain q where "dict_get ?bs p = Some q" "fb_timestamp_ms q < fb_timestamp_ms c"
        using c par blocks_ok_parent [OF ok(1) parent_relI [of ?bs h c p]]
        by (metis option.inject update_conv' fun_upd_apply)
      moreover from this have "p \<noteq> ?h" using new by auto
      ultimately show "\<exists>q. dict_get (dict_set ?h b ?bs) p = Some q \<and> fb_timestamp_ms q < fb_timestamp_ms c"
        by (simp add: update_conv')
    qed
  qed
  have old: "past dag' x = past dag x" if "x \<noteq> ?h" for x
    using past_new_old [OF ok(1) new that self] by (simp add: past_def bl)
  have "(\<Union>p \<in> set (fb_parents b). past dag' p) = (\<Union>p \<in> set (fb_parents b). past dag p)"
    using self by (intro SUP_cong refl old) auto
  then have "past dag' ?h = ?a" using parents_past [of dag' ?h b] by (simp add: bl update_conv')
  then have "cache_ok dag'"
    using ok(2) old unfolding cache_ok_def bl anc by (auto simp: update_conv' split: option.splits)
  then show "dag_ok dag'" using blocks by (simp add: dag_ok_def d)
qed

lemma add_block_total:
  assumes "dag_ok dag"
  shows "is_ok (add_block dag b) \<longleftrightarrow> dict_get (dag_blocks dag) (fb_fruit_hash b) = None \<and>
    (\<forall>p \<in> set (fb_parents b). \<exists>q. dict_get (dag_blocks dag) p = Some q \<and> fb_timestamp_ms q < fb_timestamp_ms b)"
    (is "?l \<longleftrightarrow> ?n \<and> ?p")
proof
  assume ?l
  then show "?n \<and> ?p"
    by (auto simp: is_ok_iff add_block_def res_iffs split: if_splits dest: check_parents_Inr)
next
  assume r: "?n \<and> ?p"
  have "check_parents dag b = Inr (map (\<lambda>_. ()) (fb_parents b))"
    unfolding check_parents_def using r by (intro each_Inr_all) (fastforce simp: ensure_def)
  moreover have "each (lookup (dag_ancestor_cache dag)) (fb_parents b) = Inr (map (past dag) (fb_parents b))"
    using assms r by (intro each_lookup) (fastforce simp: dag_ok_def cache_ok_def)
  ultimately show ?l using r by (simp add: add_block_def)
qed

lemma FruitBlock_Inr_iff:
  "FruitBlock h ps t w = Inr b \<longleftrightarrow>
   b = \<lparr>fb_fruit_hash = h, fb_parents = ps, fb_timestamp_ms = t, fb_work = w\<rparr> \<and> block_ok b"
proof -
  have *: "(\<exists>us. each require_hash ps = Inr us) \<longleftrightarrow> (\<forall>p \<in> set ps. length p = HASH_LEN_BYTES)"
    unfolding require_hash_len_def by (rule each_unit_Inr_iff)
  have "card (set ps) = length ps \<longleftrightarrow> distinct ps" by (metis card_distinct distinct_card)
  then show ?thesis using *
    by (auto simp: FruitBlock_def require_hash_tuple_def require_hash_len_def res_iffs block_ok_def)
qed

subsection \<open>The topological sort\<close>

lemma visit_all_visited: "set hs \<subseteq> visited \<Longrightarrow> visit_all blocks hs visiting (visited, ordered) = Inr (visited, ordered)"
  by (induction hs) auto

lemma visit_all_in_order:
  assumes "distinct (done @ hs)"
    and "\<And>pre h post. hs = pre @ h # post \<Longrightarrow>
      \<exists>b. dict_get blocks h = Some b \<and> set (fb_parents b) \<subseteq> set (done @ pre)"
  shows "visit_all blocks hs {} (set done, done) = Inr (set (done @ hs), done @ hs)"
  using assms
proof (induction hs arbitrary: "done")
  case Nil
  then show ?case by simp
next
  case (Cons h hs)
  from Cons.prems(2) [of "[]" h hs] obtain b where
    b: "dict_get blocks h = Some b" "set (fb_parents b) \<subseteq> set done" by auto
  have "visit_all blocks hs {} (set (done @ [h]), done @ [h]) = Inr (set ((done @ [h]) @ hs), (done @ [h]) @ hs)"
  proof (rule Cons.IH)
    show "distinct ((done @ [h]) @ hs)" using Cons.prems(1) by simp
    fix pre x post assume "hs = pre @ x # post"
    then show "\<exists>b. dict_get blocks x = Some b \<and> set (fb_parents b) \<subseteq> set ((done @ [h]) @ pre)"
      using Cons.prems(2) [of "h # pre" x post] by simp
  qed
  then show ?case using b Cons.prems(1) visit_all_visited [OF b(2)] by simp
qed

lemma stamped_iff:
  "dict_ok blocks \<Longrightarrow> (t, h) \<in> set (stamped blocks) \<longleftrightarrow> (\<exists>b. dict_get blocks h = Some b \<and> t = fb_timestamp_ms b)"
  by (force simp: stamped_def)

lemma stamped_hashes: "dict_ok blocks \<Longrightarrow> set (map snd (stamped blocks)) = dom (dict_get blocks)"
  unfolding dom_def using stamped_iff by force

lemma stamped_distinct: "dict_ok blocks \<Longrightarrow> distinct (map snd (stamped blocks))"
proof -
  assume "dict_ok blocks"
  have "mset (map snd (stamped blocks)) = mset (map fst blocks)"
    by (simp add: stamped_def image_mset.compositionality comp_def case_prod_beta)
  with \<open>dict_ok blocks\<close> show ?thesis by (metis mset_eq_imp_distinct_iff)
qed

lemma stamped_before:
  assumes "blocks_ok blocks" "map snd (stamped blocks) = pre @ h # post" "(a, h) \<in> (parent_rel blocks)\<^sup>+"
  shows "a \<in> set pre"
proof -
  have d: "dict_ok blocks" using assms(1) by (simp add: blocks_ok_def)
  obtain ps p qs where s: "stamped blocks = ps @ p # qs" "pre = map snd ps" "h = snd p" "post = map snd qs"
    using assms(2) by (auto simp: map_eq_append_conv)
  from past_older [OF assms(1,3)] obtain q b where
    q: "dict_get blocks a = Some q" "dict_get blocks h = Some b" "fb_timestamp_ms q < fb_timestamp_ms b" by blast
  have "fst p = fb_timestamp_ms b" using stamped_iff [OF d, of "fst p" "snd p"] s q(2) by auto
  then have less: "(fb_timestamp_ms q, a) < p" using q(3) by (cases p) (simp add: less_prod_def)
  have "(fb_timestamp_ms q, a) \<in> set (stamped blocks)" using q stamped_iff [OF d] by blast
  moreover have "\<forall>y \<in> set (p # qs). p \<le> y"
    using sorted_sort [of "map (\<lambda>(h, block). (fb_timestamp_ms block, h)) blocks"] s(1)
    unfolding stamped_def by (auto simp: sorted_append)
  ultimately have "(fb_timestamp_ms q, a) \<in> set ps" using s(1) less by fastforce
  then show ?thesis using s(2) by force
qed

lemma topological_hashes_eq:
  assumes "blocks_ok (dag_blocks dag)"
  shows "topological_hashes dag = Inr (map snd (stamped (dag_blocks dag)))"
proof -
  let ?bs = "dag_blocks dag" let ?hs = "map snd (stamped ?bs)"
  have d: "dict_ok ?bs" using assms by (simp add: blocks_ok_def)
  have "visit_all ?bs ?hs {} (set [], []) = Inr (set ([] @ ?hs), [] @ ?hs)"
  proof (rule visit_all_in_order)
    show "distinct ([] @ ?hs)" using stamped_distinct [OF d] by simp
    fix pre h post assume hs: "?hs = pre @ h # post"
    then have "h \<in> dom (dict_get ?bs)" using stamped_hashes [OF d] by (metis in_set_conv_decomp)
    then obtain b where b: "dict_get ?bs h = Some b" by blast
    have "set (fb_parents b) \<subseteq> set pre"
      using stamped_before [OF assms hs] parent_relI [OF b] by blast
    then show "\<exists>b. dict_get ?bs h = Some b \<and> set (fb_parents b) \<subseteq> set ([] @ pre)" using b by simp
  qed
  then show ?thesis by (simp add: topological_hashes_def stamped_def)
qed

subsection \<open>The colouring of one block\<close>

lemma ancestors_eq:
  assumes "dag_ok dag" "dict_get (dag_blocks dag) h = Some b"
  shows "ancestors dag h = Inr (past dag h)"
proof -
  have "length h = HASH_LEN_BYTES" using assms blocks_okD by (auto simp: dag_ok_def)
  moreover have "dict_get (dag_ancestor_cache dag) h = Some (past dag h)"
    using assms by (simp add: dag_ok_def cache_ok_def)
  ultimately show ?thesis using assms(2) by (simp add: ancestors_def get_block_def bnd_require_hash_len lookup_def)
qed

lemma ancestors_known: "dag_ok dag \<Longrightarrow> h \<in> known dag \<Longrightarrow> ancestors dag h = Inr (past dag h)"
  using ancestors_eq by (auto simp: known_def)

lemma past_in_known: "dag_ok dag \<Longrightarrow> past dag h \<subseteq> known dag"
  using past_known by (auto simp: known_def dag_ok_def)

lemma known_finite: "finite (known dag)"
  by (simp add: known_def finite_dom_map_of)

lemma is_related_eq:
  assumes "dag_ok dag" "x \<in> known dag" "y \<in> known dag"
  shows "is_related dag x y = Inr (x = y \<or> x \<in> past dag y \<or> y \<in> past dag x)"
  using assms by (simp add: is_related_def ancestors_known)

lemma length_filter_sorted:
  "finite B \<Longrightarrow> length (filter P (sorted_list_of_set B)) = card {x \<in> B. P x}"
  by (metis distinct_card distinct_filter distinct_sorted_list_of_set set_filter set_sorted_list_of_set)

lemma anticone_size_eq:
  assumes "dag_ok dag" "h \<in> known dag" "B \<subseteq> known dag"
  shows "anticone_size dag h B = Inr (int (card (anticone dag h B)))"
proof -
  have fin: "finite B" using assms(3) known_finite finite_subset by blast
  let ?r = "\<lambda>y. h = y \<or> h \<in> past dag y \<or> y \<in> past dag h"
  have "each (is_related dag h) (sorted_list_of_set B) = Inr (map ?r (sorted_list_of_set B))"
    using assms fin by (intro each_Inr_all is_related_eq) auto
  moreover have "{x \<in> B. \<not> ?r x} = anticone dag h B" by (auto simp: anticone_def)
  ultimately show ?thesis
    using length_filter_sorted [OF fin, of "\<lambda>x. \<not> ?r x"] by (simp add: anticone_size_def filter_map comp_def)
qed

lemma merge_blues_Cons:
  "merge_blues dag k (c # cs) B = merge_blues dag k cs (if int (card (anticone dag c B)) \<le> k then insert c B else B)"
  by (simp add: merge_blues_def)

lemma merge_blues_bounds: "B \<subseteq> merge_blues dag k cs B \<and> merge_blues dag k cs B \<subseteq> B \<union> set cs"
proof (induction cs arbitrary: B)
  case Nil
  then show ?case by (simp add: merge_blues_def)
next
  case (Cons c cs)
  let ?B = "if int (card (anticone dag c B)) \<le> k then insert c B else B"
  show ?case using Cons [of ?B] unfolding merge_blues_Cons by auto
qed

lemma merge_loop_eq:
  assumes "dag_ok dag" "set cs \<subseteq> known dag" "B \<subseteq> known dag"
  shows "merge_loop dag k cs B = Inr (merge_blues dag k cs B)"
  using assms(2,3)
proof (induction cs arbitrary: B)
  case Nil
  then show ?case by (simp add: merge_blues_def)
next
  case (Cons c cs)
  then show ?case using assms(1) by (simp add: anticone_size_eq merge_blues_Cons)
qed

lemma past_of_parents_eq:
  assumes "dag_ok dag" "set ps \<subseteq> known dag"
  shows "past_of_parents dag ps = Inr (set ps \<union> (\<Union>p \<in> set ps. past dag p))"
proof -
  have "each (ancestors dag) ps = Inr (map (past dag) ps)"
    using assms by (intro each_Inr_all ancestors_known) auto
  then show ?thesis by (simp add: past_of_parents_def)
qed

lemma saturating_loop_eq:
  "\<forall>v \<in> set vs. 0 \<le> v \<Longrightarrow> 0 \<le> acc \<Longrightarrow> acc < U64_MAX \<Longrightarrow> saturating_loop acc vs = min U64_MAX (acc + sum_list vs)"
proof (induction vs arbitrary: acc)
  case Nil
  then show ?case by simp
next
  case (Cons v vs)
  have "0 \<le> sum_list vs" using Cons.prems(1) by (intro sum_list_nonneg) auto
  then show ?case using Cons by (auto simp: algebra_simps)
qed

lemma sum_list_sorted_list_of_set:
  "finite B \<Longrightarrow> sum_list (map f (sorted_list_of_set B)) = (\<Sum>b \<in> B. f b)"
  by (metis distinct_sorted_list_of_set set_sorted_list_of_set sum_list_distinct_conv_sum_set)

lemma works_eq:
  assumes "dag_ok dag" "B \<subseteq> known dag"
  shows "bnd (each (\<lambda>item. bnd (lookup (dag_blocks dag) item) (\<lambda>b. Inr (fb_work b))) (sorted_list_of_set B)) f
     = f (map (block_work dag) (sorted_list_of_set B))"
    and "saturating_blue_work (map (block_work dag) (sorted_list_of_set B)) = min U64_MAX (\<Sum>b \<in> B. block_work dag b)"
proof -
  have fin: "finite B" using assms(2) known_finite finite_subset by blast
  have "each (\<lambda>item. bnd (lookup (dag_blocks dag) item) (\<lambda>b. Inr (fb_work b))) (sorted_list_of_set B)
      = Inr (map (block_work dag) (sorted_list_of_set B))"
    using assms(2) fin by (intro each_Inr_all) (force simp: known_def block_work_def lookup_def)
  then show "bnd (each (\<lambda>item. bnd (lookup (dag_blocks dag) item) (\<lambda>b. Inr (fb_work b))) (sorted_list_of_set B)) f
     = f (map (block_work dag) (sorted_list_of_set B))" by simp
  have "0 \<le> block_work dag b" if b: "b \<in> B" for b
  proof -
    obtain c where "dict_get (dag_blocks dag) b = Some c" using b assms(2) unfolding known_def by blast
    then show ?thesis using blocks_okD(2) assms(1) by (force simp: dag_ok_def block_work_def block_ok_def)
  qed
  then have "saturating_loop 0 (map (block_work dag) (sorted_list_of_set B))
      = min U64_MAX (0 + sum_list (map (block_work dag) (sorted_list_of_set B)))"
    using fin by (intro saturating_loop_eq) (auto simp: U64_MAX_def)
  then show "saturating_blue_work (map (block_work dag) (sorted_list_of_set B)) = min U64_MAX (\<Sum>b \<in> B. block_work dag b)"
    using sum_list_sorted_list_of_set [OF fin, of "block_work dag"] by (simp add: saturating_blue_work_def)
qed

lemma score_order_Inr:
  assumes "S \<subseteq> known dag" "\<forall>x \<in> S. \<exists>g. dict_get m x = Some g"
  shows "score_order dag m S = Inr (map (\<lambda>(_, _, item). item)
    (sort (map (\<lambda>x. (gd_blue_score (the (dict_get m x)), fb_timestamp_ms (the (dict_get (dag_blocks dag) x)), x))
      (sorted_list_of_set S))))"
proof -
  have fin: "finite S" using assms(1) known_finite finite_subset by blast
  have "each (\<lambda>item. bnd (lookup m item) (\<lambda>g. bnd (lookup (dag_blocks dag) item) (\<lambda>block.
            Inr (gd_blue_score g, fb_timestamp_ms block, item)))) (sorted_list_of_set S)
      = Inr (map (\<lambda>x. (gd_blue_score (the (dict_get m x)), fb_timestamp_ms (the (dict_get (dag_blocks dag) x)), x))
          (sorted_list_of_set S))"
  proof (rule each_Inr_all)
    fix x assume "x \<in> set (sorted_list_of_set S)"
    then have "x \<in> S" using fin by simp
    then obtain g b where "dict_get m x = Some g" "dict_get (dag_blocks dag) x = Some b"
      using assms by (fastforce simp: known_def)
    then show "bnd (lookup m x) (\<lambda>g. bnd (lookup (dag_blocks dag) x) (\<lambda>block.
            Inr (gd_blue_score g, fb_timestamp_ms block, x)))
        = Inr (gd_blue_score (the (dict_get m x)), fb_timestamp_ms (the (dict_get (dag_blocks dag) x)), x)"
      by (simp add: lookup_Some)
  qed
  then show ?thesis by (simp add: score_order_def)
qed

lemma set_score_order: "score_order dag m S = Inr cs \<Longrightarrow> S \<subseteq> known dag \<Longrightarrow> \<forall>x \<in> S. \<exists>g. dict_get m x = Some g \<Longrightarrow> set cs = S"
proof -
  assume a: "score_order dag m S = Inr cs" "S \<subseteq> known dag" "\<forall>x \<in> S. \<exists>g. dict_get m x = Some g"
  then have "finite S" using known_finite finite_subset by blast
  then show "set cs = S" using a(1) score_order_Inr [OF a(2,3)] by (auto simp: image_image)
qed

lemma hd_sorted_le: "sorted xs \<Longrightarrow> x \<in> set xs \<Longrightarrow> hd xs \<le> x"
  by (cases xs) auto

lemma select_parent_best:
  assumes "ps \<noteq> []" "\<forall>p \<in> set ps. \<exists>g. dict_get m p = Some g"
  obtains p g where "select_parent ps m = Inr p" "p \<in> set ps" "dict_get m p = Some g"
    "\<forall>q gq. q \<in> set ps \<longrightarrow> dict_get m q = Some gq \<longrightarrow> gd_accumulated_blue_work gq \<le> gd_accumulated_blue_work g"
proof -
  let ?f = "\<lambda>x. (- gd_accumulated_blue_work (the (dict_get m x)), x)"
  have e: "each (\<lambda>item. bnd (lookup m item) (\<lambda>g. Inr (- gd_accumulated_blue_work g, item))) ps = Inr (map ?f ps)"
    using assms(2) by (intro each_Inr_all) (force simp: lookup_def)
  let ?l = "sort (map ?f ps)"
  have "set ?l \<noteq> {}" using assms(1) by simp
  then have ne: "?l \<noteq> []" by (metis list.set(1))
  then have hd: "hd ?l \<in> ?f ` set ps" using hd_in_set [OF ne] by simp
  then obtain p where p: "p \<in> set ps" "hd ?l = ?f p" by auto
  obtain g where g: "dict_get m p = Some g" using p assms(2) by blast
  have "?f p \<le> ?f q" if "q \<in> set ps" for q
    unfolding p(2) [symmetric] by (rule hd_sorted_le [OF sorted_sort]) (use that in auto)
  then have "gd_accumulated_blue_work gq \<le> gd_accumulated_blue_work g" if "q \<in> set ps" "dict_get m q = Some gq" for q gq
    using that g by (force simp: less_eq_prod_def)
  then show ?thesis using that [of p g] p g e by (simp add: select_parent_def)
qed

lemma ghostdag_step_root:
  assumes "dag_ok dag" "dict_get (dag_blocks dag) h = Some b" "fb_parents b = []"
  shows "\<exists>g. ghostdag_step dag k m h = Inr (dict_set h g m) \<and> data_ok dag k m h g"
proof -
  have "past dag h = {}" using parents_past [OF assms(2)] assms(3) by simp
  moreover have "fb_work b \<le> U64_MAX" using assms(1,2) blocks_okD(2) by (auto simp: dag_ok_def block_ok_def)
  ultimately show ?thesis using assms(2,3)
    by (intro exI [of _ "\<lparr>gd_selected_parent = None, gd_blues = {h}, gd_reds = {}, gd_blue_score = 1,
          gd_accumulated_blue_work = fb_work b\<rparr>"]) (simp add: ghostdag_step_def lookup_Some data_ok_def)
qed

lemma data_ok_blues:
  assumes "data_ok dag k m p g" "(p, h) \<in> parent_rel (dag_blocks dag)"
  shows "gd_blues g \<subseteq> past dag h"
  using assms past_step [of dag h] by (auto simp: data_ok_def)

lemma ghostdag_step_merge:
  assumes ok: "dag_ok dag" and b: "dict_get (dag_blocks dag) h = Some b" "fb_parents b \<noteq> []"
    and m: "past dag h \<subseteq> dom (dict_get m)" "\<And>x g. dict_get m x = Some g \<Longrightarrow> data_ok dag k m x g"
  shows "\<exists>g. ghostdag_step dag k m h = Inr (dict_set h g m) \<and> data_ok dag k m h g"
proof -
  let ?ps = "fb_parents b"
  have past: "past dag h = set ?ps \<union> (\<Union>p \<in> set ?ps. past dag p)" by (rule parents_past [OF b(1)])
  have known: "past dag h \<subseteq> known dag" "h \<in> known dag" using past_in_known [OF ok] b by (auto simp: known_def)
  have entries: "\<forall>q \<in> set ?ps. \<exists>g. dict_get m q = Some g" using past m(1) by blast
  obtain p gp where p: "select_parent ?ps m = Inr p" "p \<in> set ?ps" "dict_get m p = Some gp"
    "\<forall>q gq. q \<in> set ?ps \<longrightarrow> dict_get m q = Some gq \<longrightarrow> gd_accumulated_blue_work gq \<le> gd_accumulated_blue_work gp"
    using select_parent_best [OF b(2) entries] by blast
  have rel: "(q, h) \<in> parent_rel (dag_blocks dag) \<longleftrightarrow> q \<in> set ?ps" for q using b(1) by (simp add: parent_rel_def)
  let ?sel = "insert p (past dag p)" let ?others = "filter (\<lambda>q. q \<noteq> p) ?ps"
  let ?merge = "set ?others \<union> (\<Union>q \<in> set ?others. past dag q)"
  let ?S = "past dag h - ?sel"
  have S: "?merge - ?sel = ?S" using past p(2) by auto
  have scores: "\<forall>x \<in> ?S. \<exists>g. dict_get m x = Some g" using m(1) by blast
  obtain cs where cs: "score_order dag m ?S = Inr cs" using score_order_Inr [OF _ scores] known by blast
  then have set_cs: "set cs = ?S" using set_score_order scores known by blast
  have gp: "gd_blues gp \<subseteq> past dag h" using data_ok_blues [OF m(2) [OF p(3)]] rel p(2) by blast
  let ?B = "merge_blues dag k cs (gd_blues gp)"
  have B: "?B \<subseteq> past dag h" using merge_blues_bounds [of "gd_blues gp" dag k cs] gp set_cs by blast
  have loop: "merge_loop dag k cs (gd_blues gp) = Inr ?B"
    using ok set_cs gp known by (intro merge_loop_eq) auto
  have anc: "ancestors dag p = Inr (past dag p)" using ok known past p(2) by (intro ancestors_known) auto
  have sub: "set ?ps \<subseteq> known dag" "set ?others \<subseteq> known dag" using past known by auto
  have pops: "past_of_parents dag ?others = Inr ?merge" "past_of_parents dag ?ps = Inr (past dag h)"
    using past_of_parents_eq [OF ok sub(2)] past_of_parents_eq [OF ok sub(1)] past by simp_all
  define g where "g = \<lparr>gd_selected_parent = Some p, gd_blues = insert h ?B, gd_reds = past dag h - insert h ?B,
    gd_blue_score = int (card (insert h ?B)),
    gd_accumulated_blue_work = saturating_blue_work (map (block_work dag) (sorted_list_of_set (insert h ?B)))\<rparr>"
  have Bk: "insert h ?B \<subseteq> known dag" using B known by blast
  have "ghostdag_step dag k m h = Inr (dict_set h g m)"
    using b p(1,3) anc pops cs loop S
    by (simp add: ghostdag_step_def lookup_Some works_eq(1) [OF ok Bk] g_def Let_def del: sorted_list_of_set_insert_remove)
  moreover have "data_ok dag k m h g"
    unfolding data_ok_def g_def using p B rel set_cs works_eq(2) [OF ok Bk] by (auto simp: block_work_def)
  ultimately show ?thesis by blast
qed

lemma ghostdag_step_ok:
  assumes "dag_ok dag" "dict_get (dag_blocks dag) h = Some b"
    and "past dag h \<subseteq> dom (dict_get m)" "\<And>x g. dict_get m x = Some g \<Longrightarrow> data_ok dag k m x g"
  shows "\<exists>g. ghostdag_step dag k m h = Inr (dict_set h g m) \<and> data_ok dag k m h g"
  using ghostdag_step_root [OF assms(1,2)] ghostdag_step_merge [OF assms(1,2) _ assms(3,4)] by blast

subsection \<open>The colouring of the whole DAG\<close>

lemma data_ok_mono:
  assumes "data_ok dag k m x g" "dict_get m \<subseteq>\<^sub>m dict_get m'" "past dag x \<subseteq> dom (dict_get m)"
  shows "data_ok dag k m' x g"
proof -
  have same: "dict_get m' q = dict_get m q" if "(q, x) \<in> parent_rel (dag_blocks dag)" for q
  proof -
    have "q \<in> past dag x" using that by (auto simp: past_def)
    then show ?thesis using assms(2,3) by (force simp: map_le_def)
  qed
  show ?thesis
  proof (cases "gd_selected_parent g")
    case None
    then show ?thesis using assms(1) by (simp add: data_ok_def)
  next
    case (Some p)
    then have "(p, x) \<in> parent_rel (dag_blocks dag)" using assms(1) by (simp add: data_ok_def)
    then show ?thesis using assms(1) same Some unfolding data_ok_def by simp
  qed
qed

lemma ghostdag_loop_ok:
  assumes ok: "dag_ok dag"
    and closed: "\<And>pre h post. hs = pre @ h # post \<Longrightarrow> h \<in> known dag \<and> past dag h \<subseteq> dom (dict_get m) \<union> set pre"
    and m: "\<And>x g. dict_get m x = Some g \<Longrightarrow> data_ok dag k m x g \<and> past dag x \<subseteq> dom (dict_get m)"
    and new: "distinct hs" "set hs \<inter> dom (dict_get m) = {}" and dict: "dict_ok m"
  shows "\<exists>m'. ghostdag_loop dag k m hs = Inr m' \<and> dom (dict_get m') = dom (dict_get m) \<union> set hs \<and> dict_ok m'
    \<and> (\<forall>x g. dict_get m' x = Some g \<longrightarrow> data_ok dag k m' x g)"
  using closed m new dict
proof (induction hs arbitrary: m)
  case Nil
  then show ?case by simp
next
  case (Cons h hs)
  have h: "h \<in> known dag" "past dag h \<subseteq> dom (dict_get m)" using Cons.prems(1) [of "[]" h hs] by auto
  then obtain g where g: "ghostdag_step dag k m h = Inr (dict_set h g m)" "data_ok dag k m h g"
    using ghostdag_step_ok [OF ok _ h(2)] Cons.prems(2) unfolding known_def by blast
  let ?m = "dict_set h g m"
  have fresh: "h \<notin> dom (dict_get m)" using Cons.prems(4) by auto
  then have le: "dict_get m \<subseteq>\<^sub>m dict_get ?m" by (auto simp: map_le_def update_conv')
  have dom: "dom (dict_get ?m) = insert h (dom (dict_get m))" by (simp add: update_conv')
  have "\<exists>m'. ghostdag_loop dag k ?m hs = Inr m' \<and> dom (dict_get m') = dom (dict_get ?m) \<union> set hs \<and> dict_ok m'
    \<and> (\<forall>x g. dict_get m' x = Some g \<longrightarrow> data_ok dag k m' x g)"
  proof (rule Cons.IH)
    fix pre x post assume "hs = pre @ x # post"
    then show "x \<in> known dag \<and> past dag x \<subseteq> dom (dict_get ?m) \<union> set pre"
      using Cons.prems(1) [of "h # pre" x post] dom by auto
  next
    fix x gx assume x: "dict_get ?m x = Some gx"
    show "data_ok dag k ?m x gx \<and> past dag x \<subseteq> dom (dict_get ?m)"
    proof (cases "x = h")
      case True
      then have "gx = g" using x by (simp add: update_conv')
      then show ?thesis using True data_ok_mono [OF g(2) le h(2)] h(2) dom by auto
    next
      case False
      then have "dict_get m x = Some gx" using x by (simp add: update_conv')
      then show ?thesis using Cons.prems(2) [of x gx] data_ok_mono [OF _ le] dom by auto
    qed
  qed (use Cons.prems dom in \<open>auto simp: distinct_update\<close>)
  then show ?case using g(1) dom by auto
qed

lemma fresh_metadata_ok:
  assumes "dag_ok dag"
  shows "\<exists>m. fresh_metadata dag k = Inr m \<and> dom (dict_get m) = known dag \<and> dict_ok m
    \<and> (\<forall>x g. dict_get m x = Some g \<longrightarrow> data_ok dag k m x g)"
proof -
  let ?hs = "map snd (stamped (dag_blocks dag))"
  have b: "blocks_ok (dag_blocks dag)" "dict_ok (dag_blocks dag)" using assms by (auto simp: dag_ok_def blocks_ok_def)
  have set: "set ?hs = known dag" using stamped_hashes [OF b(2)] by (simp add: known_def)
  have "\<exists>m. ghostdag_loop dag k [] ?hs = Inr m \<and> dom (dict_get m) = dom (dict_get ([] :: metadata)) \<union> set ?hs \<and> dict_ok m
    \<and> (\<forall>x g. dict_get m x = Some g \<longrightarrow> data_ok dag k m x g)"
  proof (rule ghostdag_loop_ok [OF assms])
    fix pre h post assume hs: "?hs = pre @ h # post"
    have "h \<in> known dag" using hs set by (metis in_set_conv_decomp)
    moreover have "past dag h \<subseteq> set pre" using stamped_before [OF b(1) hs] by (auto simp: past_def)
    ultimately show "h \<in> known dag \<and> past dag h \<subseteq> dom (dict_get ([] :: metadata)) \<union> set pre" by simp
  qed (use stamped_distinct [OF b(2)] in auto)
  then show ?thesis using topological_hashes_eq [OF b(1)] set by (simp add: fresh_metadata_def)
qed

lemma step_ignores_cache:
  "ancestors (dag\<lparr>dag_metadata_cache := c\<rparr>) = ancestors dag"
  "is_related (dag\<lparr>dag_metadata_cache := c\<rparr>) = is_related dag"
  "anticone_size (dag\<lparr>dag_metadata_cache := c\<rparr>) = anticone_size dag"
  "past_of_parents (dag\<lparr>dag_metadata_cache := c\<rparr>) = past_of_parents dag"
  "score_order (dag\<lparr>dag_metadata_cache := c\<rparr>) = score_order dag"
  "topological_hashes (dag\<lparr>dag_metadata_cache := c\<rparr>) = topological_hashes dag"
proof -
  show anc: "ancestors (dag\<lparr>dag_metadata_cache := c\<rparr>) = ancestors dag"
    by (simp add: fun_eq_iff ancestors_def get_block_def)
  show rel: "is_related (dag\<lparr>dag_metadata_cache := c\<rparr>) = is_related dag"
    by (simp add: fun_eq_iff is_related_def anc cong: if_cong)
  show "anticone_size (dag\<lparr>dag_metadata_cache := c\<rparr>) = anticone_size dag"
    by (simp add: fun_eq_iff anticone_size_def rel)
  show "past_of_parents (dag\<lparr>dag_metadata_cache := c\<rparr>) = past_of_parents dag"
    by (simp add: fun_eq_iff past_of_parents_def anc)
  show "score_order (dag\<lparr>dag_metadata_cache := c\<rparr>) = score_order dag"
    by (simp add: fun_eq_iff score_order_def)
  show "topological_hashes (dag\<lparr>dag_metadata_cache := c\<rparr>) = topological_hashes dag"
    by (simp add: topological_hashes_def)
qed

lemma fresh_ignores_cache: "fresh_metadata (dag\<lparr>dag_metadata_cache := c\<rparr>) k = fresh_metadata dag k"
proof -
  let ?d = "dag\<lparr>dag_metadata_cache := c\<rparr>"
  have "merge_loop ?d k cs B = merge_loop dag k cs B" for cs B
    by (induction cs arbitrary: B) (simp_all add: step_ignores_cache)
  then have "ghostdag_step ?d k m h = ghostdag_step dag k m h" for m h
    by (simp add: ghostdag_step_def step_ignores_cache cong: if_cong)
  then have "ghostdag_loop ?d k m hs = ghostdag_loop dag k m hs" for m hs
    by (induction hs arbitrary: m) simp_all
  then show ?thesis by (simp add: fresh_metadata_def step_ignores_cache)
qed

lemma past_ignores_cache: "past (dag\<lparr>dag_metadata_cache := c\<rparr>) = past dag"
  by (simp add: fun_eq_iff past_def)

lemma dag_ok_cache:
  assumes "dag_ok dag" "fresh_metadata dag k = Inr m"
  shows "dag_ok (dag\<lparr>dag_metadata_cache := dict_set k m (dag_metadata_cache dag)\<rparr>)"
  using assms unfolding dag_ok_def
  by (auto simp: fresh_ignores_cache past_ignores_cache cache_ok_def update_conv' split: if_splits option.splits)

lemma ghostdag_metadata_eq:
  assumes "dag_ok dag" "0 \<le> k"
  shows "\<exists>m dag'. ghostdag_metadata dag k = Inr (m, dag') \<and> fresh_metadata dag k = Inr m \<and> dag_ok dag'
    \<and> (\<exists>c. dag' = dag\<lparr>dag_metadata_cache := c\<rparr>)"
proof -
  obtain m where m: "fresh_metadata dag k = Inr m" using fresh_metadata_ok [OF assms(1)] by blast
  then have compute: "bnd (topological_hashes dag) (\<lambda>order. bnd (ghostdag_loop dag k [] order) f) = f m" for f :: "metadata \<Rightarrow> 'a res"
    unfolding fresh_metadata_def by (metis bnd_assoc bnd_simps(2))
  show ?thesis
  proof (cases "\<exists>cached. dict_get (dag_metadata_cache dag) k = Some cached \<and> length cached = length (dag_blocks dag)")
    case True
    then obtain cached where c: "dict_get (dag_metadata_cache dag) k = Some cached" "length cached = length (dag_blocks dag)"
      by blast
    then have "cached = m" using m assms(1) by (simp add: dag_ok_def)
    moreover have "dag = dag\<lparr>dag_metadata_cache := dag_metadata_cache dag\<rparr>" by simp
    ultimately show ?thesis using c m assms by (auto simp: ghostdag_metadata_def require_k_def intro: exI [of _ "dag_metadata_cache dag"])
  next
    case False
    let ?d = "dag\<lparr>dag_metadata_cache := dict_set k m (dag_metadata_cache dag)\<rparr>"
    have "ghostdag_metadata dag k = Inr (m, ?d)"
      using False assms(2) by (auto simp: ghostdag_metadata_def require_k_def compute split: option.splits)
    then show ?thesis using m dag_ok_cache [OF assms(1) m] by blast
  qed
qed

subsection \<open>Scores grow along the DAG when every fruit has work one\<close>

lemma uniform_work_is_score:
  assumes "dag_ok dag" "\<And>x b. dict_get (dag_blocks dag) x = Some b \<Longrightarrow> fb_work b = 1"
    and "int (length (dag_blocks dag)) < U64_MAX" "data_ok dag k m h g" "h \<in> known dag"
  shows "gd_accumulated_blue_work g = gd_blue_score g"
proof -
  have "gd_blues g \<subseteq> insert h (past dag h)" using assms(4) unfolding data_ok_def by blast
  then have sub: "gd_blues g \<subseteq> known dag" using assms(5) past_in_known [OF assms(1)] by blast
  have "(\<Sum>b \<in> gd_blues g. fb_work (the (dict_get (dag_blocks dag) b))) = (\<Sum>b \<in> gd_blues g. 1)"
    using sub assms(2) by (intro sum.cong refl) (fastforce simp: known_def)
  moreover have "card (gd_blues g) \<le> length (dag_blocks dag)"
  proof -
    have "known dag = set (map fst (dag_blocks dag))" by (simp add: known_def dom_map_of_conv_image_fst)
    then have "card (known dag) \<le> length (dag_blocks dag)" by (metis card_length length_map)
    then show ?thesis using card_mono [OF known_finite sub] by simp
  qed
  ultimately show ?thesis using assms(3,4) by (simp add: data_ok_def)
qed

lemma score_grows:
  assumes ok: "dag_ok dag" "\<And>x b. dict_get (dag_blocks dag) x = Some b \<Longrightarrow> fb_work b = 1"
    "int (length (dag_blocks dag)) < U64_MAX"
    and m: "dom (dict_get m) = known dag" "\<And>x g. dict_get m x = Some g \<Longrightarrow> data_ok dag k m x g"
    and rel: "(a, h) \<in> (parent_rel (dag_blocks dag))\<^sup>+"
  shows "gd_blue_score (the (dict_get m a)) < gd_blue_score (the (dict_get m h))"
proof -
  have one: "gd_blue_score (the (dict_get m q)) < gd_blue_score (the (dict_get m h))"
    if q: "(q, h) \<in> parent_rel (dag_blocks dag)" for q h
  proof -
    have bl: "blocks_ok (dag_blocks dag)" using ok(1) by (simp add: dag_ok_def)
    from blocks_ok_parent [OF bl q] have "q \<in> known dag" "h \<in> known dag" by (auto simp: known_def)
    then obtain gq g where g: "dict_get m q = Some gq" "dict_get m h = Some g" using m(1) by blast
    have d: "data_ok dag k m h g" "data_ok dag k m q gq" using m(2) g by auto
    have "past dag h \<noteq> {}" using q by (auto simp: past_def)
    then obtain p where sp: "gd_selected_parent g = Some p" using d(1) by (cases "gd_selected_parent g") (auto simp: data_ok_def)
    from d(1) sp obtain gp cs where p: "(p, h) \<in> parent_rel (dag_blocks dag)" "dict_get m p = Some gp"
      "gd_blues g = insert h (merge_blues dag k cs (gd_blues gp))" "set cs = past dag h - insert p (past dag p)"
      "\<forall>q gq. (q, h) \<in> parent_rel (dag_blocks dag) \<longrightarrow> dict_get m q = Some gq \<longrightarrow>
         gd_accumulated_blue_work gq \<le> gd_accumulated_blue_work gp"
      unfolding data_ok_def by auto
    have dp: "data_ok dag k m p gp" "p \<in> known dag" using p(2) m by auto
    let ?B = "merge_blues dag k cs (gd_blues gp)"
    have sub: "gd_blues gp \<subseteq> ?B" "?B \<subseteq> past dag h"
      using merge_blues_bounds [of "gd_blues gp" dag k cs] data_ok_blues [OF dp(1) p(1)] p(4) by auto
    then have "finite ?B" "h \<notin> ?B" using past_finite [OF bl] finite_subset past_irrefl [OF bl] by (blast, blast)
    then have "card (gd_blues gp) < card (gd_blues g)" using card_mono [OF _ sub(1)] p(3) by simp
    moreover have "gd_blue_score gq \<le> gd_blue_score gp"
      using uniform_work_is_score [OF ok d(2) \<open>q \<in> known dag\<close>] uniform_work_is_score [OF ok dp] p(5) q g(1) by fastforce
    ultimately show ?thesis using g d(1) dp(1) by (simp add: data_ok_def)
  qed
  from rel show ?thesis by (induction rule: trancl_induct) (use one in fastforce)+
qed

lemma sorted_keys_order:
  assumes "\<And>x y. x \<in> S \<Longrightarrow> y \<in> S \<Longrightarrow> y \<in> R x \<Longrightarrow> (f y :: 'k :: linorder) < f x" "finite S"
  shows "sorted_wrt (\<lambda>x y. y \<notin> R x) (map (\<lambda>(_, _, item). item)
    (sort (map (\<lambda>x. (f x, g x :: 'l :: linorder, x :: 'x :: linorder)) (sorted_list_of_set S))))"
proof -
  let ?k = "map (\<lambda>x. (f x, g x, x)) (sorted_list_of_set S)"
  have el: "\<exists>x \<in> S. p = (f x, g x, x)" if "p \<in> set (sort ?k)" for p using that assms(2) by auto
  have "sorted_wrt (\<lambda>p q. (snd (snd q)) \<notin> R (snd (snd p))) (sort ?k)"
  proof (rule sorted_wrt_mono_rel [OF _ sorted_sort [of ?k]])
    fix p q assume "p \<in> set (sort ?k)" "q \<in> set (sort ?k)" "p \<le> q"
    moreover obtain x where "x \<in> S" "p = (f x, g x, x)" using el [OF \<open>p \<in> set (sort ?k)\<close>] by blast
    moreover obtain y where "y \<in> S" "q = (f y, g y, y)" using el [OF \<open>q \<in> set (sort ?k)\<close>] by blast
    ultimately show "snd (snd q) \<notin> R (snd (snd p))" using assms(1) [of x y] by (auto simp: less_eq_prod_def)
  qed
  then show ?thesis by (simp add: sorted_wrt_map case_prod_beta)
qed

lemma set_keyed_sort: "set (map (\<lambda>(_, _, item). item) (sort (map (\<lambda>x. (f x, g x, x)) xs))) = set xs"
  by (simp add: image_image)

lemma distinct_keyed_sort:
  "distinct (map (\<lambda>(_, _, item). item) (sort (map (\<lambda>x. (f x, g x, x)) xs))) \<longleftrightarrow> distinct xs"
proof -
  have "mset (map (\<lambda>(_, _, item). item) (sort (map (\<lambda>x. (f x, g x, x)) xs))) = mset xs"
    by (simp add: multiset.map_comp comp_def)
  then show ?thesis by (rule mset_eq_imp_distinct_iff)
qed

subsection \<open>Building a DAG\<close>

lemma dag_ok_empty: "dag_ok empty_dag"
  by (simp add: dag_ok_def empty_dag_def blocks_ok_def cache_ok_def)

lemma BlockDAG_ok: "add_blocks bs dag = Inr dag' \<Longrightarrow> dag_ok dag \<Longrightarrow> \<forall>b \<in> set bs. block_ok b \<Longrightarrow> dag_ok dag'"
  by (induction bs arbitrary: dag) (auto simp: bnd_Inr_iff add_block_ok(1))

subsection \<open>An example\<close>

lemma fruit_id_length: "length (fruit_id i) = HASH_LEN_BYTES"
  by (simp add: fruit_id_def zero_bytes_def HASH_LEN_BYTES_def)

lemma fruit_id_eq [simp]: "fruit_id i = fruit_id j \<longleftrightarrow> i = j"
  by (simp add: fruit_id_def)

lemma diamond_dag_built:
  "BlockDAG diamond_fruits = Inr diamond_dag"
  "dag_blocks diamond_dag = map (\<lambda>b. (fb_fruit_hash b, b)) diamond_fruits"
proof -
  have "\<exists>dag. BlockDAG diamond_fruits = Inr dag \<and> dag_blocks dag = map (\<lambda>b. (fb_fruit_hash b, b)) diamond_fruits"
    by (simp add: BlockDAG_def diamond_fruits_def example_fruit_def add_block_def check_parents_def empty_dag_def
        ensure_def lookup_def)
  then show "BlockDAG diamond_fruits = Inr diamond_dag"
    "dag_blocks diamond_dag = map (\<lambda>b. (fb_fruit_hash b, b)) diamond_fruits"
    by (auto simp: diamond_dag_def)
qed

lemmas example_blocks = diamond_dag_built(2)

lemma diamond_dag_ok: "dag_ok diamond_dag"
proof -
  have "\<forall>b \<in> set diamond_fruits. block_ok b"
    by (simp add: diamond_fruits_def example_fruit_def block_ok_def fruit_id_length U64_MAX_def)
  then show ?thesis
    using diamond_dag_built(1) BlockDAG_ok [OF _ dag_ok_empty] unfolding BlockDAG_def by blast
qed

section \<open>Properties\<close>

text \<open>(C25) \<open>add_fruit\<close> succeeds exactly for a well-formed new fruit whose parents are all known and
  strictly older. It then keeps the invariant of the DAG: the ancestor cache holds the transitive
  closure of the parent relation for every fruit, and no stale metadata survives.\<close>

theorem add_fruit_keeps_dag:
  assumes "dag_ok dag"
  shows "(is_ok (add_fruit dag h ps t w) \<longleftrightarrow>
      is_ok (FruitBlock h ps t w) \<and> dict_get (dag_blocks dag) h = None \<and>
      (\<forall>p \<in> set ps. \<exists>q. dict_get (dag_blocks dag) p = Some q \<and> fb_timestamp_ms q < t)) \<and>
    (\<forall>b dag'. add_fruit dag h ps t w = Inr (b, dag') \<longrightarrow>
      dag_ok dag' \<and> dag_blocks dag' = dict_set h b (dag_blocks dag) \<and>
      ancestors dag' h = Inr (past dag' h) \<and> past dag' h = set ps \<union> (\<Union>p \<in> set ps. past dag' p))"
proof (intro conjI allI impI)
  show "is_ok (add_fruit dag h ps t w) \<longleftrightarrow>
      is_ok (FruitBlock h ps t w) \<and> dict_get (dag_blocks dag) h = None \<and>
      (\<forall>p \<in> set ps. \<exists>q. dict_get (dag_blocks dag) p = Some q \<and> fb_timestamp_ms q < t)"
  proof (cases "FruitBlock h ps t w")
    case (Inr b)
    then have "fb_fruit_hash b = h" "fb_parents b = ps" "fb_timestamp_ms b = t" by (auto simp: FruitBlock_Inr_iff)
    then show ?thesis using add_block_total [OF assms, of b] Inr
      by (cases "add_block dag b") (auto simp: add_fruit_def)
  qed (simp add: add_fruit_def)
next
  fix b dag' assume a: "add_fruit dag h ps t w = Inr (b, dag')"
  then have b: "FruitBlock h ps t w = Inr b" "add_block dag b = Inr dag'" by (auto simp: add_fruit_def bnd_Inr_iff)
  then have f: "block_ok b" "fb_fruit_hash b = h" "fb_parents b = ps" by (auto simp: FruitBlock_Inr_iff)
  note ok = add_block_ok [OF assms f(1) b(2)]
  have get: "dict_get (dag_blocks dag') h = Some b" using ok(2) f(2) by (simp add: update_conv')
  show "dag_ok dag'" "dag_blocks dag' = dict_set h b (dag_blocks dag)"
    "ancestors dag' h = Inr (past dag' h)" "past dag' h = set ps \<union> (\<Union>p \<in> set ps. past dag' p)"
    using ok(1,2) f ancestors_eq [OF ok(1) get] parents_past [OF get] by simp_all
qed

theorem add_fruit_keeps_dag_witness:
  "is_ok (add_fruit diamond_dag (fruit_id 9) [fruit_id 4] 40 1)
   \<and> \<not> is_ok (add_fruit diamond_dag (fruit_id 9) [fruit_id 4] 30 1)
   \<and> \<not> is_ok (add_fruit diamond_dag (fruit_id 9) [fruit_id 8] 40 1)"
  using add_fruit_keeps_dag [OF diamond_dag_ok, of "fruit_id 9" "[fruit_id 4]" 40 1]
    add_fruit_keeps_dag [OF diamond_dag_ok, of "fruit_id 9" "[fruit_id 4]" 30 1]
    add_fruit_keeps_dag [OF diamond_dag_ok, of "fruit_id 9" "[fruit_id 8]" 40 1]
  by (simp add: is_ok_iff FruitBlock_Inr_iff block_ok_def example_blocks diamond_fruits_def example_fruit_def fruit_id_length U64_MAX_def)

text \<open>(C24) \<open>ghostdag_metadata\<close> answers on every DAG and every \<open>k >= 0\<close>, from the cache or afresh with the
  same table, and leaves the DAG as it was up to the cache. The table has an entry for every fruit:
  blues and reds partition the fruit and its past, the blue score counts the blues, the selected
  parent has the most accumulated blue work, the blues are those of the selected parent and what the
  greedy merge of the rest of the past keeps (anticone at most \<open>k\<close>), and the accumulated work is
  their total, saturated at 64 bits.\<close>

theorem ghostdag_metadata_colours:
  assumes "dag_ok dag" "0 \<le> k"
  shows "\<exists>m dag'. ghostdag_metadata dag k = Inr (m, dag') \<and> fresh_metadata dag k = Inr m \<and>
    dag_ok dag' \<and> dag_blocks dag' = dag_blocks dag \<and> dom (dict_get m) = dom (dict_get (dag_blocks dag)) \<and>
    (\<forall>h g. dict_get m h = Some g \<longrightarrow> data_ok dag k m h g)"
proof -
  obtain m dag' c where m: "ghostdag_metadata dag k = Inr (m, dag')" "fresh_metadata dag k = Inr m" "dag_ok dag'"
    "dag' = dag\<lparr>dag_metadata_cache := c\<rparr>"
    using ghostdag_metadata_eq [OF assms] by blast
  moreover have "dom (dict_get m) = dom (dict_get (dag_blocks dag))" "\<forall>h g. dict_get m h = Some g \<longrightarrow> data_ok dag k m h g"
    using fresh_metadata_ok [OF assms(1), of k] m(2) by (auto simp: known_def)
  ultimately show ?thesis by auto
qed

theorem ghostdag_metadata_colours_witness:
  "\<exists>m dag' g. ghostdag_metadata diamond_dag 0 = Inr (m, dag') \<and> dict_get m (fruit_id 4) = Some g \<and>
    gd_blues g \<union> gd_reds g = insert (fruit_id 4) (past diamond_dag (fruit_id 4))"
proof -
  obtain m dag' where m: "ghostdag_metadata diamond_dag 0 = Inr (m, dag')"
    "dom (dict_get m) = dom (dict_get (dag_blocks diamond_dag))"
    "\<forall>h g. dict_get m h = Some g \<longrightarrow> data_ok diamond_dag 0 m h g"
    using ghostdag_metadata_colours [OF diamond_dag_ok, of 0] by auto
  have "fruit_id 4 \<in> dom (dict_get (dag_blocks diamond_dag))"
    by (simp add: example_blocks diamond_fruits_def example_fruit_def)
  then obtain g where "dict_get m (fruit_id 4) = Some g" using m(2) by blast
  then show ?thesis using m by (auto simp: data_ok_def)
qed

text \<open>On a DAG whose fruits all have work one, as the node builds it, \<open>topological_order\<close> lists the
  tip and its past, each once, and no fruit comes before one of its ancestors.\<close>

theorem topological_order_respects_ancestry:
  assumes "dag_ok dag" "0 \<le> k" "\<forall>x b. dict_get (dag_blocks dag) x = Some b \<longrightarrow> fb_work b = 1"
    and "int (length (dag_blocks dag)) < U64_MAX" "dict_get (dag_blocks dag) tip = Some b"
  shows "\<exists>order dag'. topological_order dag tip k = Inr (order, dag') \<and> set order = insert tip (past dag tip) \<and>
    distinct order \<and> sorted_wrt (\<lambda>x y. y \<notin> past dag x) order"
proof -
  obtain m dag' c where m: "ghostdag_metadata dag k = Inr (m, dag')" "fresh_metadata dag k = Inr m" "dag_ok dag'"
    "dag' = dag\<lparr>dag_metadata_cache := c\<rparr>"
    using ghostdag_metadata_eq [OF assms(1,2)] by blast
  have dom: "dom (dict_get m) = known dag" and d: "\<And>h g. dict_get m h = Some g \<Longrightarrow> data_ok dag k m h g"
    using fresh_metadata_ok [OF assms(1), of k] m(2) by auto
  let ?S = "insert tip (past dag tip)"
  have "tip \<in> known dag" using assms(5) by (auto simp: known_def)
  then have S: "?S \<subseteq> known dag" using past_in_known [OF assms(1)] by simp
  then have fin: "finite ?S" by (rule finite_subset [OF _ known_finite])
  let ?f = "\<lambda>x. gd_blue_score (the (dict_get m x))" let ?t = "\<lambda>x. fb_timestamp_ms (the (dict_get (dag_blocks dag) x))"
  let ?order = "map (\<lambda>(_, _, item). item) (sort (map (\<lambda>x. (?f x, ?t x, x)) (sorted_list_of_set ?S)))"
  have "score_order dag m ?S = Inr ?order" using S dom by (intro score_order_Inr) auto
  then have "topological_order dag tip k = Inr (?order, dag')"
    using m(1) ancestors_eq [OF assms(1,5)] unfolding topological_order_def m(4)
    by (simp add: step_ignores_cache)
  moreover have "?f y < ?f x" if "y \<in> past dag x" for x y
    using score_grows [OF assms(1) _ assms(4) dom d] assms(3) that unfolding past_def by blast
  then have "sorted_wrt (\<lambda>x y. y \<notin> past dag x) ?order" by (rule sorted_keys_order [OF _ fin])
  moreover have "set ?order = ?S" by (simp only: set_keyed_sort set_sorted_list_of_set [OF fin])
  moreover have "distinct ?order" by (simp only: distinct_keyed_sort distinct_sorted_list_of_set)
  ultimately show ?thesis by blast
qed

theorem topological_order_respects_ancestry_witness:
  "\<exists>order dag'. topological_order diamond_dag (fruit_id 4) 0 = Inr (order, dag') \<and>
    set order = insert (fruit_id 4) (past diamond_dag (fruit_id 4)) \<and> distinct order \<and>
    sorted_wrt (\<lambda>x y. y \<notin> past diamond_dag x) order"
  by (rule topological_order_respects_ancestry [OF diamond_dag_ok, where b = "example_fruit 4 [2, 3] 30"])
    (simp_all add: example_blocks diamond_fruits_def example_fruit_def U64_MAX_def)

end
