(* ===== verification/Finality.thy ===== *)
theory Finality
  imports Ghostdag
begin

text \<open>
  \<^verbatim>\<open>src/src/tensorpow/consensus/finality.py\<close>: how deep a fruit is buried under a tip and the tier of
  finality this gives it. Operations on the DAG return it too, because they may fill its cache. The
  wall-clock estimate \<open>estimate_finality_seconds\<close> works on floating-point numbers and is not modelled.
\<close>

section \<open>Definitions\<close>

definition FINALITY_FAST_BLUE_DEPTH :: int where "FINALITY_FAST_BLUE_DEPTH = 5"
definition FINALITY_ECONOMIC_BLUE_DEPTH :: int where "FINALITY_ECONOMIC_BLUE_DEPTH = 20"
definition FINALITY_SETTLEMENT_BLUE_DEPTH :: int where "FINALITY_SETTLEMENT_BLUE_DEPTH = 100"
definition FINALITY_ANCHOR_SECURED_DEPTH :: int where "FINALITY_ANCHOR_SECURED_DEPTH = 1"
definition FINALITY_SETTLEMENT_ANCHOR_DEPTH :: int where "FINALITY_SETTLEMENT_ANCHOR_DEPTH = 6"

datatype FinalityTier = TIER_NONE | SEEN | FAST | ECONOMIC | ANCHOR_SECURED | SETTLEMENT

definition blue_depth :: "block_dag \<Rightarrow> bytes \<Rightarrow> bytes \<Rightarrow> int \<Rightarrow> (int \<times> block_dag) res" where
  "blue_depth dag fruit_hash tip k =
     bnd (has_block dag fruit_hash) (\<lambda>present.
     bnd (ensure present KeyError) (\<lambda>_.
     bnd (ancestors dag tip) (\<lambda>ancs.
     let reachable = insert tip ancs in
     if fruit_hash \<notin> reachable then Inr (0, dag)
     else
       bnd (ghostdag_metadata dag k) (\<lambda>(metadata, dag).
       bnd (lookup metadata tip) (\<lambda>tip_data.
       if fruit_hash \<notin> gd_blues tip_data then Inr (0, dag)
       else
         bnd (lookup metadata fruit_hash) (\<lambda>fruit_data.
         Inr (max 0 (gd_blue_score tip_data - gd_blue_score fruit_data), dag)))))))"

definition require_depth :: "int \<Rightarrow> unit res" where
  "require_depth value = ensure (\<not> value < 0) ValueError"

definition require_optional_height :: "int option \<Rightarrow> unit res" where
  "require_optional_height value = (case value of None \<Rightarrow> Inr () | Some v \<Rightarrow> require_depth v)"

definition anchor_depth :: "int option \<Rightarrow> int \<Rightarrow> int res" where
  "anchor_depth covering_anchor_height tip_anchor_height =
     bnd (require_optional_height covering_anchor_height) (\<lambda>_.
     bnd (require_depth tip_anchor_height) (\<lambda>_.
     case covering_anchor_height of
       None \<Rightarrow> Inr 0
     | Some covering \<Rightarrow>
         bnd (ensure (\<not> tip_anchor_height < covering) ValueError) (\<lambda>_.
         Inr (tip_anchor_height - covering + 1))))"

definition finality_tier_from_depths :: "int \<Rightarrow> int \<Rightarrow> bool \<Rightarrow> FinalityTier res" where
  "finality_tier_from_depths blue_depth_value anchor_depth_value seen =
     bnd (require_depth blue_depth_value) (\<lambda>_.
     bnd (require_depth anchor_depth_value) (\<lambda>_.
     Inr (if \<not> seen then TIER_NONE
       else if blue_depth_value \<ge> FINALITY_SETTLEMENT_BLUE_DEPTH
               \<and> anchor_depth_value \<ge> FINALITY_SETTLEMENT_ANCHOR_DEPTH then SETTLEMENT
       else if anchor_depth_value \<ge> FINALITY_ANCHOR_SECURED_DEPTH then ANCHOR_SECURED
       else if blue_depth_value \<ge> FINALITY_ECONOMIC_BLUE_DEPTH then ECONOMIC
       else if blue_depth_value \<ge> FINALITY_FAST_BLUE_DEPTH then FAST
       else SEEN)))"

definition finality_tier :: "block_dag \<Rightarrow> bytes \<Rightarrow> bytes \<Rightarrow> int \<Rightarrow> int \<Rightarrow> (FinalityTier \<times> block_dag) res" where
  "finality_tier dag fruit_hash tip k anchor_depth_value =
     bnd (has_block dag fruit_hash) (\<lambda>present.
     if \<not> present then Inr (TIER_NONE, dag)
     else
       bnd (blue_depth dag fruit_hash tip k) (\<lambda>(depth, dag).
       bnd (finality_tier_from_depths depth anchor_depth_value True) (\<lambda>tier. Inr (tier, dag))))"

definition satisfied_finality_tiers :: "int \<Rightarrow> int \<Rightarrow> bool \<Rightarrow> FinalityTier set res" where
  "satisfied_finality_tiers blue_depth_value anchor_depth_value seen =
     bnd (require_depth blue_depth_value) (\<lambda>_.
     bnd (require_depth anchor_depth_value) (\<lambda>_.
     if \<not> seen then Inr {TIER_NONE}
     else
       let tiers = {SEEN};
         tiers = (if blue_depth_value \<ge> FINALITY_FAST_BLUE_DEPTH then insert FAST tiers else tiers);
         tiers = (if blue_depth_value \<ge> FINALITY_ECONOMIC_BLUE_DEPTH then insert ECONOMIC tiers else tiers);
         tiers = (if anchor_depth_value \<ge> FINALITY_ANCHOR_SECURED_DEPTH then insert ANCHOR_SECURED tiers else tiers);
         tiers = (if blue_depth_value \<ge> FINALITY_SETTLEMENT_BLUE_DEPTH
                     \<and> anchor_depth_value \<ge> FINALITY_SETTLEMENT_ANCHOR_DEPTH
                  then insert SETTLEMENT tiers else tiers)
       in Inr tiers))"

section \<open>Specification\<close>

text \<open>Tiers are ordered by strength, in the order in which the enumeration lists them.\<close>

fun tier_rank :: "FinalityTier \<Rightarrow> nat" where
  "tier_rank TIER_NONE = 0"
| "tier_rank SEEN = 1"
| "tier_rank FAST = 2"
| "tier_rank ECONOMIC = 3"
| "tier_rank ANCHOR_SECURED = 4"
| "tier_rank SETTLEMENT = 5"

instantiation FinalityTier :: linorder
begin

definition less_eq_FinalityTier :: "FinalityTier \<Rightarrow> FinalityTier \<Rightarrow> bool" where
  "less_eq_FinalityTier a b \<longleftrightarrow> tier_rank a \<le> tier_rank b"

definition less_FinalityTier :: "FinalityTier \<Rightarrow> FinalityTier \<Rightarrow> bool" where
  "less_FinalityTier a b \<longleftrightarrow> tier_rank a < tier_rank b"

instance
proof
  fix a b :: FinalityTier
  show "a \<le> b \<Longrightarrow> b \<le> a \<Longrightarrow> a = b"
    by (cases a; cases b) (simp_all add: less_eq_FinalityTier_def)
qed (auto simp: less_eq_FinalityTier_def less_FinalityTier_def)

end

lemmas tier_order = less_eq_FinalityTier_def less_FinalityTier_def
lemmas finality_limits = FINALITY_FAST_BLUE_DEPTH_def FINALITY_ECONOMIC_BLUE_DEPTH_def
  FINALITY_SETTLEMENT_BLUE_DEPTH_def FINALITY_ANCHOR_SECURED_DEPTH_def FINALITY_SETTLEMENT_ANCHOR_DEPTH_def

section \<open>Lemmas\<close>

lemma tier_mono:
  assumes "0 \<le> b" "b \<le> b'" "0 \<le> a" "a \<le> a'"
  shows "\<exists>t t'. finality_tier_from_depths b a True = Inr t \<and> finality_tier_from_depths b' a' True = Inr t' \<and> t \<le> t'"
  using assms by (simp add: finality_tier_from_depths_def require_depth_def bnd_ensure tier_order finality_limits)

lemma blue_depth_eq:
  assumes ok: "dag_ok dag" "0 \<le> k" and known: "f \<in> known dag" "tip \<in> known dag"
    and m: "fresh_metadata dag k = Inr m" "dict_get m tip = Some g" "dict_get m f = Some gf"
  shows "\<exists>dag'. blue_depth dag f tip k =
    Inr (if f \<in> gd_blues g then max 0 (gd_blue_score g - gd_blue_score gf) else 0, dag')"
proof -
  obtain dag' where md: "ghostdag_metadata dag k = Inr (m, dag')" using ghostdag_metadata_eq [OF ok] m(1) by auto
  have "data_ok dag k m tip g" using fresh_metadata_ok [OF ok(1), of k] m by auto
  then have "gd_blues g \<subseteq> insert tip (past dag tip)" unfolding data_ok_def by blast
  moreover have "has_block dag f = Inr True"
  proof -
    obtain b where "dict_get (dag_blocks dag) f = Some b" using known(1) by (auto simp: known_def)
    then show ?thesis using ok(1) blocks_okD(3) by (auto simp: has_block_def dag_ok_def bnd_require_hash_len)
  qed
  ultimately show ?thesis
    using md m ancestors_known [OF ok(1) known(2)] unfolding blue_depth_def by (auto simp: lookup_Some)
qed

lemma blue_depth_selected:
  assumes ok: "dag_ok dag" "0 \<le> k" and f: "f \<in> known dag"
    and m: "fresh_metadata dag k = Inr m" "dict_get m tip' = Some g'" "gd_selected_parent g' = Some tip"
  shows "\<exists>d d' dag1 dag2. blue_depth dag f tip k = Inr (d, dag1) \<and> blue_depth dag f tip' k = Inr (d', dag2) \<and> 0 \<le> d \<and> d \<le> d'"
proof -
  have dom: "dom (dict_get m) = known dag" and d: "\<And>x g. dict_get m x = Some g \<Longrightarrow> data_ok dag k m x g"
    using fresh_metadata_ok [OF ok(1), of k] m(1) by auto
  obtain gf where gf: "dict_get m f = Some gf" using f dom by blast
  have d': "data_ok dag k m tip' g'" by (rule d [OF m(2)])
  then obtain g cs where g: "dict_get m tip = Some g" "gd_blues g' = insert tip' (merge_blues dag k cs (gd_blues g))"
    using m(3) unfolding data_ok_def by auto
  have sub: "gd_blues g \<subseteq> gd_blues g'" using g(2) merge_blues_bounds [of "gd_blues g" dag k cs] by blast
  have "gd_blues g' \<subseteq> insert tip' (past dag tip')" using d' unfolding data_ok_def by blast
  then have "finite (gd_blues g')" using ok(1) past_finite [of dag] by (meson dag_ok_def finite.insertI finite_subset)
  then have "gd_blue_score g \<le> gd_blue_score g'"
    using card_mono [OF _ sub] d' d [OF g(1)] by (simp add: data_ok_def)
  moreover obtain d1 where "blue_depth dag f tip k =
      Inr (if f \<in> gd_blues g then max 0 (gd_blue_score g - gd_blue_score gf) else 0, d1)"
    using blue_depth_eq [OF ok f _ m(1) g(1) gf] g(1) dom by blast
  moreover obtain d2 where "blue_depth dag f tip' k =
      Inr (if f \<in> gd_blues g' then max 0 (gd_blue_score g' - gd_blue_score gf) else 0, d2)"
    using blue_depth_eq [OF ok f _ m(1,2) gf] m(2) dom by blast
  ultimately show ?thesis using sub by auto
qed

section \<open>Properties\<close>

text \<open>On every pair of depths \<open>finality_tier_from_depths\<close> and \<open>satisfied_finality_tiers\<close> raise on the
  same inputs (a negative depth), and otherwise the tier is the strongest of the satisfied ones.\<close>

theorem finality_tier_is_strongest:
  "if b < 0 \<or> a < 0
   then finality_tier_from_depths b a seen = Inl ValueError \<and> satisfied_finality_tiers b a seen = Inl ValueError
   else \<exists>tiers. satisfied_finality_tiers b a seen = Inr tiers \<and> tiers \<noteq> {} \<and>
     finality_tier_from_depths b a seen = Inr (Max tiers)"
proof (cases "b < 0 \<or> a < 0")
  case True
  then show ?thesis
    by (auto simp: finality_tier_from_depths_def satisfied_finality_tiers_def require_depth_def bnd_ensure)
next
  case False
  then show ?thesis
    by (simp add: finality_tier_from_depths_def satisfied_finality_tiers_def require_depth_def bnd_ensure
        Let_def tier_order finality_limits max_def)
qed

text \<open>(C26) Finality does not regress along the selected chain: for a known fruit, moving from the selected
  parent of a tip to the tip, with an anchor depth that does not shrink, never lowers the tier.\<close>

theorem finality_monotone_on_selected_chain:
  assumes "dag_ok dag" "0 \<le> k" "ghostdag_metadata dag k = Inr (m, dag1)"
    and "dict_get m tip' = Some g'" "gd_selected_parent g' = Some tip"
    and "dict_get (dag_blocks dag) f = Some b" "0 \<le> a" "a \<le> a'"
  shows "\<exists>t t' dag2 dag3. finality_tier dag f tip k a = Inr (t, dag2) \<and>
    finality_tier dag f tip' k a' = Inr (t', dag3) \<and> SEEN \<le> t \<and> t \<le> t'"
proof -
  have m: "fresh_metadata dag k = Inr m" using ghostdag_metadata_eq [OF assms(1,2)] assms(3) by auto
  have f: "f \<in> known dag" using assms(6) by (auto simp: known_def)
  obtain d d' dag2 dag3 where d: "blue_depth dag f tip k = Inr (d, dag2)" "blue_depth dag f tip' k = Inr (d', dag3)"
    "0 \<le> d" "d \<le> d'"
    using blue_depth_selected [OF assms(1,2) f m assms(4,5)] by blast
  obtain t t' where t: "finality_tier_from_depths d a True = Inr t" "finality_tier_from_depths d' a' True = Inr t'" "t \<le> t'"
    using tier_mono [OF d(3,4) assms(7,8)] by blast
  have "SEEN \<le> t" using t(1) by (auto simp: finality_tier_from_depths_def bnd_Inr_iff tier_order split: if_splits)
  moreover have "has_block dag f = Inr True"
    using blocks_okD(3) assms(1,6) by (auto simp: has_block_def dag_ok_def bnd_require_hash_len)
  ultimately show ?thesis using d t by (auto simp: finality_tier_def)
qed

theorem finality_monotone_on_selected_chain_witness:
  "\<exists>tip t t' dag2 dag3. (tip, fruit_id 4) \<in> parent_rel (dag_blocks diamond_dag) \<and>
    finality_tier diamond_dag (fruit_id 1) tip 0 0 = Inr (t, dag2) \<and>
    finality_tier diamond_dag (fruit_id 1) (fruit_id 4) 0 1 = Inr (t', dag3) \<and> SEEN \<le> t \<and> t \<le> t'"
proof -
  have b: "dict_get (dag_blocks diamond_dag) (fruit_id 1) = Some (example_fruit 1 [] 10)"
    "dict_get (dag_blocks diamond_dag) (fruit_id 4) = Some (example_fruit 4 [2, 3] 30)"
    by (simp_all add: example_blocks diamond_fruits_def example_fruit_def)
  obtain m dag1 where md: "ghostdag_metadata diamond_dag 0 = Inr (m, dag1)" "fresh_metadata diamond_dag 0 = Inr m"
    using ghostdag_metadata_eq [OF diamond_dag_ok, of 0] by auto
  obtain g where g: "dict_get m (fruit_id 4) = Some g" "data_ok diamond_dag 0 m (fruit_id 4) g"
    using fresh_metadata_ok [OF diamond_dag_ok, of 0] md(2) b(2) by (fastforce simp: known_def)
  have "past diamond_dag (fruit_id 4) \<noteq> {}" using parents_past [OF b(2)] by (simp add: example_fruit_def)
  then obtain tip where tip: "gd_selected_parent g = Some tip" "(tip, fruit_id 4) \<in> parent_rel (dag_blocks diamond_dag)"
    using g(2) by (cases "gd_selected_parent g") (auto simp: data_ok_def)
  show ?thesis
    using finality_monotone_on_selected_chain [OF diamond_dag_ok _ md(1) g(1) tip(1) b(1), of 0 1] tip(2) by auto
qed

end
