(* ===== verification/Signatures.thy ===== *)
theory Signatures
  imports Hashing
begin

text \<open>
  \<^verbatim>\<open>src/src/tensorpow/crypto/signatures.py\<close>: signature checks, the batch check with its cache of loaded
  public keys, and the dispatch on the signature type.

  Ed25519 comes from the third-party package \<open>cryptography\<close>, so the operations the code calls are
  the fields of a parameter \<open>E\<close>: \<open>ed_load\<close> is \<open>Ed25519PublicKey.from_public_bytes\<close> (\<open>None\<close> where
  it raises \<open>ValueError\<close>), \<open>ed_check\<close> is \<open>verify\<close> on a loaded key (\<open>False\<close> where it raises
  \<open>InvalidSignature\<close>), \<open>ed_sign\<close> signs with a private seed.
\<close>

section \<open>Definitions\<close>

definition SIG_TYPE_ED25519 :: int where "SIG_TYPE_ED25519 = 0"
definition SIG_TYPE_ML_DSA_RESERVED :: int where "SIG_TYPE_ML_DSA_RESERVED = 1"
definition SIG_TYPE_ED25519_BIT :: int where "SIG_TYPE_ED25519_BIT = push_bit (nat SIG_TYPE_ED25519) 1"
definition ED25519_PUBLIC_KEY_BYTES :: nat where "ED25519_PUBLIC_KEY_BYTES = 32"
definition ED25519_PRIVATE_KEY_BYTES :: nat where "ED25519_PRIVATE_KEY_BYTES = 32"
definition ED25519_SIGNATURE_BYTES :: nat where "ED25519_SIGNATURE_BYTES = 64"

record 'k ed25519 =
  ed_load :: "bytes \<Rightarrow> 'k option"
  ed_check :: "'k \<Rightarrow> bytes \<Rightarrow> bytes \<Rightarrow> bool"
  ed_sign :: "bytes \<Rightarrow> bytes \<Rightarrow> bytes"

definition require_exact_bytes :: "bytes \<Rightarrow> nat \<Rightarrow> unit res" where
  "require_exact_bytes value expected_len = ensure (length value = expected_len) ValueError"

record keypair =
  kp_public_key :: bytes
  kp_private_key :: bytes

definition Keypair :: "bytes \<Rightarrow> bytes \<Rightarrow> keypair res" where
  "Keypair public_key private_key =
     bnd (require_exact_bytes public_key ED25519_PUBLIC_KEY_BYTES) (\<lambda>_.
     bnd (require_exact_bytes private_key ED25519_PRIVATE_KEY_BYTES) (\<lambda>_.
     Inr \<lparr>kp_public_key = public_key, kp_private_key = private_key\<rparr>))"

definition sign :: "'k ed25519 \<Rightarrow> bytes \<Rightarrow> bytes \<Rightarrow> bytes res" where
  "sign E message private_key =
     bnd (require_exact_bytes private_key ED25519_PRIVATE_KEY_BYTES) (\<lambda>_.
     Inr (ed_sign E private_key message))"

definition load_public_key :: "'k ed25519 \<Rightarrow> bytes \<Rightarrow> 'k option" where
  "load_public_key E public_key =
     (if length public_key \<noteq> ED25519_PUBLIC_KEY_BYTES then None else ed_load E public_key)"

definition verify_with_loaded_public_key :: "'k ed25519 \<Rightarrow> bytes \<Rightarrow> bytes \<Rightarrow> 'k \<Rightarrow> bool" where
  "verify_with_loaded_public_key E message signature k = ed_check E k signature message"

definition verify :: "'k ed25519 \<Rightarrow> bytes \<Rightarrow> bytes \<Rightarrow> bytes \<Rightarrow> bool" where
  "verify E message signature public_key =
     (if length signature \<noteq> ED25519_SIGNATURE_BYTES then False
      else case load_public_key E public_key of
        None \<Rightarrow> False
      | Some k \<Rightarrow> verify_with_loaded_public_key E message signature k)"

fun verify_batch_loop :: "'k ed25519 \<Rightarrow> (bytes \<times> bytes \<times> bytes) list \<Rightarrow> (bytes, 'k) dict \<Rightarrow> bool" where
  "verify_batch_loop E [] loaded = True"
| "verify_batch_loop E ((message, signature, public_key) # items) loaded =
     (if length signature \<noteq> ED25519_SIGNATURE_BYTES then False
      else
        case (case dict_get loaded public_key of
                Some k \<Rightarrow> Some (k, loaded)
              | None \<Rightarrow> (case load_public_key E public_key of
                  None \<Rightarrow> None
                | Some k \<Rightarrow> Some (k, dict_set public_key k loaded))) of
          None \<Rightarrow> False
        | Some (k, loaded') \<Rightarrow>
            if \<not> verify_with_loaded_public_key E message signature k then False
            else verify_batch_loop E items loaded')"

definition verify_batch :: "'k ed25519 \<Rightarrow> (bytes \<times> bytes \<times> bytes) list \<Rightarrow> bool" where
  "verify_batch E items = verify_batch_loop E items []"

definition sig_dispatch :: "'k ed25519 \<Rightarrow> int \<Rightarrow> (bytes \<Rightarrow> bytes \<Rightarrow> bytes \<Rightarrow> bool) option" where
  "sig_dispatch E = [SIG_TYPE_ED25519 \<mapsto> verify E]"

definition verify_by_sig_type :: "'k ed25519 \<Rightarrow> int \<Rightarrow> bytes \<Rightarrow> bytes \<Rightarrow> bytes \<Rightarrow> bool" where
  "verify_by_sig_type E sig_type message signature public_key =
     (case sig_dispatch E sig_type of
        None \<Rightarrow> False
      | Some verifier \<Rightarrow> verifier message signature public_key)"

definition example_ed25519 :: "bytes ed25519" where
  "example_ed25519 = \<lparr>ed_load = Some, ed_check = (\<lambda>k s m. take 32 s = k), ed_sign = (\<lambda>k m. k @ k)\<rparr>"

section \<open>The batch check\<close>

lemma verify_batch_loop_eq:
  "(\<And>pk k. dict_get loaded pk = Some k \<Longrightarrow> load_public_key E pk = Some k) \<Longrightarrow>
   verify_batch_loop E items loaded \<longleftrightarrow> (\<forall>(m, s, pk) \<in> set items. verify E m s pk)"
proof (induction items arbitrary: loaded)
  case Nil
  then show ?case by simp
next
  case (Cons item items)
  obtain m s pk where item: "item = (m, s, pk)" by (cases item)
  show ?case
  proof (cases "dict_get loaded pk")
    case (Some k)
    then have "load_public_key E pk = Some k" using Cons.prems by blast
    then show ?thesis using Some Cons by (simp add: item verify_def)
  next
    case None
    show ?thesis
    proof (cases "load_public_key E pk")
      case none: None
      then show ?thesis using None by (auto simp: item verify_def)
    next
      case (Some k)
      have "verify_batch_loop E items (dict_set pk k loaded) \<longleftrightarrow> (\<forall>(m, s, pk) \<in> set items. verify E m s pk)"
        using Cons.prems Some by (intro Cons.IH) (auto simp: update_conv' split: if_splits)
      then show ?thesis using None Some by (auto simp: item verify_def)
    qed
  qed
qed

section \<open>Properties\<close>

text \<open>The batch check, which loads each distinct public key once, accepts exactly the batches all
  of whose signatures verify one by one through the dispatch on Ed25519; no other signature type
  verifies anything.\<close>

theorem verify_batch_all:
  "verify_batch E items \<longleftrightarrow>
     (\<forall>(message, signature, public_key) \<in> set items.
        \<exists>sig_type. verify_by_sig_type E sig_type message signature public_key)"
proof -
  have "(\<exists>t. verify_by_sig_type E t m s pk) \<longleftrightarrow> verify E m s pk" for m s pk
    by (auto simp: verify_by_sig_type_def sig_dispatch_def split: if_splits)
  then show ?thesis using verify_batch_loop_eq [of "[]" E items] by (simp add: verify_batch_def)
qed

theorem verify_batch_all_witness:
  "\<exists>sig_type. verify_by_sig_type example_ed25519 sig_type [1] (replicate 64 1) (replicate 32 1)"
proof -
  have "verify_batch example_ed25519
      [([], replicate 64 1, replicate 32 1), ([1], replicate 64 1, replicate 32 1)]" by code_simp
  then show ?thesis unfolding verify_batch_all by auto
qed

end
