(* ===== verification/Transaction.thy ===== *)
theory Transaction
  imports UTXO_State Signatures
begin

text \<open>
  \<^verbatim>\<open>src/src/tensorpow/tx/transaction.py\<close>: inputs, outputs and transactions, their canonical byte
  layout, the decoder, the identifier and the signature hash.

  The constructors check their arguments as \<open>__post_init__\<close> does; \<open>input_ok\<close>, \<open>output_ok\<close> and
  \<open>tx_ok\<close> say that a record is one the constructor returns. Lengths and counts that the encoder writes
  are bounded by those checks, so the encoders are total.
\<close>

section \<open>Definitions\<close>

definition FORMAT_EPOCH :: int where "FORMAT_EPOCH = 0"
definition U8_BYTES :: nat where "U8_BYTES = 1"
definition MAX_TX_BYTES :: nat where "MAX_TX_BYTES = 8192"
definition TX_SEQUENCE_FINAL :: int where "TX_SEQUENCE_FINAL = 0xFFFFFFFF"
definition TX_WITNESS_MAX_BYTES :: nat where "TX_WITNESS_MAX_BYTES = 2048"
definition COINBASE_INPUT_COUNT :: nat where "COINBASE_INPUT_COUNT = 0"
definition TX_HEADER_BYTES :: nat where
  "TX_HEADER_BYTES = U16_BYTES + U8_BYTES + U64_BYTES + U64_BYTES + U16_BYTES"
definition INPUT_FIXED_BYTES :: nat where
  "INPUT_FIXED_BYTES = OUTPOINT_BYTES + U32_BYTES + U16_BYTES"
definition OUTPUT_FIXED_BYTES :: nat where
  "OUTPUT_FIXED_BYTES = U64_BYTES + U16_BYTES + U64_BYTES + U64_BYTES + U16_BYTES"
definition MULTISIG_MAX_KEYS :: int where "MULTISIG_MAX_KEYS = 15"

subsection \<open>Inputs and outputs\<close>

definition require_max_len :: "bytes \<Rightarrow> nat \<Rightarrow> unit res" where
  "require_max_len value max_len = ensure (\<not> length value > max_len) ValueError"

record tx_input =
  in_previous_outpoint :: outpoint
  in_sequence :: int
  in_witness :: bytes

definition Input :: "outpoint \<Rightarrow> int \<Rightarrow> bytes \<Rightarrow> tx_input res" where
  "Input previous_outpoint sequence witness =
     bnd (require_uint sequence U32_MAX) (\<lambda>_.
     bnd (ensure (sequence = TX_SEQUENCE_FINAL) ValueError) (\<lambda>_.
     bnd (require_max_len witness TX_WITNESS_MAX_BYTES) (\<lambda>_.
     Inr \<lparr>in_previous_outpoint = previous_outpoint, in_sequence = sequence, in_witness = witness\<rparr>)))"

definition input_to_bytes :: "tx_input \<Rightarrow> bytes" where
  "input_to_bytes i =
     outpoint_to_bytes (in_previous_outpoint i)
     @ le_bytes U32_BYTES (in_sequence i)
     @ le_bytes U16_BYTES (int (length (in_witness i)))
     @ in_witness i"

text \<open>\<open>payload[o : o + 32] for o in range(2, len(payload), 32)\<close> and the like: the pieces of a byte
  string, the last one possibly shorter.\<close>

function pieces :: "nat \<Rightarrow> bytes \<Rightarrow> bytes list" where
  "pieces n bs = (if n = 0 \<or> bs = [] then [] else take n bs # pieces n (drop n bs))"
  by pat_completeness auto
termination by (relation "measure (\<lambda>(n, bs). length bs)") auto

definition require_multisig_payload :: "bytes \<Rightarrow> unit res" where
  "require_multisig_payload payload =
     bnd (ensure (\<not> length payload < 2) ValueError) (\<lambda>_.
     let threshold = uint (payload ! 0); pubkey_count = uint (payload ! 1) in
     bnd (ensure (1 \<le> pubkey_count \<and> pubkey_count \<le> MULTISIG_MAX_KEYS) ValueError) (\<lambda>_.
     bnd (ensure (1 \<le> threshold \<and> threshold \<le> pubkey_count) ValueError) (\<lambda>_.
     let expected_len = 2 + pubkey_count * int ED25519_PUBLIC_KEY_BYTES in
     bnd (ensure (int (length payload) = expected_len) ValueError) (\<lambda>_.
     let public_keys = pieces ED25519_PUBLIC_KEY_BYTES (drop 2 payload) in
     ensure (card (set public_keys) = length public_keys) ValueError))))"

definition require_inner_template_payload :: "bytes \<Rightarrow> unit res" where
  "require_inner_template_payload payload =
     (if length payload = HASH_LEN_BYTES then Inr () else require_multisig_payload payload)"

definition require_template_payload :: "int \<Rightarrow> bytes \<Rightarrow> unit res" where
  "require_template_payload template_id payload =
     (if template_id = TEMPLATE_PKH then ensure (length payload = HASH_LEN_BYTES) ValueError
      else if template_id = TEMPLATE_MULTISIG then require_multisig_payload payload
      else if template_id = TEMPLATE_HASHLOCK then
        bnd (ensure (\<not> length payload \<le> HASH_LEN_BYTES) ValueError) (\<lambda>_.
        require_inner_template_payload (drop HASH_LEN_BYTES payload))
      else Inl ValueError)"

record tx_output =
  out_amount_matoms :: int
  out_template_id :: int
  out_locktime_ms :: int
  out_lockheight :: int
  out_payload :: bytes

definition Output :: "int \<Rightarrow> int \<Rightarrow> int \<Rightarrow> int \<Rightarrow> bytes \<Rightarrow> tx_output res" where
  "Output amount_matoms template_id locktime_ms lockheight payload =
     bnd (require_uint amount_matoms U64_MAX) (\<lambda>_.
     bnd (ensure (amount_matoms \<noteq> 0) ValueError) (\<lambda>_.
     bnd (ensure (\<not> amount_matoms > MAX_SUPPLY_MATOMS) ValueError) (\<lambda>_.
     bnd (require_uint template_id U16_MAX) (\<lambda>_.
     bnd (ensure (template_id \<in> ACTIVE_TEMPLATES) ValueError) (\<lambda>_.
     bnd (require_uint locktime_ms U64_MAX) (\<lambda>_.
     bnd (require_uint lockheight U64_MAX) (\<lambda>_.
     bnd (require_max_len payload TX_OUTPUT_PAYLOAD_MAX_BYTES) (\<lambda>_.
     bnd (require_template_payload template_id payload) (\<lambda>_.
     Inr \<lparr>out_amount_matoms = amount_matoms, out_template_id = template_id,
       out_locktime_ms = locktime_ms, out_lockheight = lockheight, out_payload = payload\<rparr>)))))))))"

definition output_to_bytes :: "tx_output \<Rightarrow> bytes" where
  "output_to_bytes out =
     le_bytes U64_BYTES (out_amount_matoms out)
     @ le_bytes U16_BYTES (out_template_id out)
     @ le_bytes U64_BYTES (out_locktime_ms out)
     @ le_bytes U64_BYTES (out_lockheight out)
     @ le_bytes U16_BYTES (int (length (out_payload out)))
     @ out_payload out"

definition read_input :: "reader \<Rightarrow> (tx_input \<times> reader) res" where
  "read_input r =
     bnd (rd_bytes TxDecodeError r (int OUTPOINT_BYTES)) (\<lambda>(data, r).
     bnd (outpoint_from_bytes data) (\<lambda>previous_outpoint.
     bnd (rd_uint TxDecodeError (int U32_BYTES) r) (\<lambda>(sequence, r).
     bnd (rd_uint TxDecodeError (int U16_BYTES) r) (\<lambda>(witness_len, r).
     bnd (rd_bytes TxDecodeError r witness_len) (\<lambda>(witness, r).
     bnd (Input previous_outpoint sequence witness) (\<lambda>i. Inr (i, r)))))))"

definition read_output :: "reader \<Rightarrow> (tx_output \<times> reader) res" where
  "read_output r =
     bnd (rd_uint TxDecodeError (int U64_BYTES) r) (\<lambda>(amount_matoms, r).
     bnd (rd_uint TxDecodeError (int U16_BYTES) r) (\<lambda>(template_id, r).
     bnd (rd_uint TxDecodeError (int U64_BYTES) r) (\<lambda>(locktime_ms, r).
     bnd (rd_uint TxDecodeError (int U64_BYTES) r) (\<lambda>(lockheight, r).
     bnd (rd_uint TxDecodeError (int U16_BYTES) r) (\<lambda>(payload_len, r).
     bnd (rd_bytes TxDecodeError r payload_len) (\<lambda>(payload, r).
     bnd (Output amount_matoms template_id locktime_ms lockheight payload) (\<lambda>out. Inr (out, r))))))))"

definition input_from_bytes :: "bytes \<Rightarrow> tx_input res" where
  "input_from_bytes data = wrap_error TxDecodeError
     (bnd (read_input (reader_of data)) (\<lambda>(i, r). bnd (rd_finish TxDecodeError r) (\<lambda>_. Inr i)))"

definition output_from_bytes :: "bytes \<Rightarrow> tx_output res" where
  "output_from_bytes data = wrap_error TxDecodeError
     (bnd (read_output (reader_of data)) (\<lambda>(out, r). bnd (rd_finish TxDecodeError r) (\<lambda>_. Inr out)))"

subsection \<open>Transactions\<close>

record tx =
  tx_version :: int
  tx_sig_type :: int
  tx_locktime_ms :: int
  tx_lockheight :: int
  tx_inputs :: "tx_input list"
  tx_outputs :: "tx_output list"

definition tx_to_bytes :: "tx \<Rightarrow> bytes" where
  "tx_to_bytes t =
     le_bytes U16_BYTES (tx_version t)
     @ le_bytes U8_BYTES (tx_sig_type t)
     @ le_bytes U64_BYTES (tx_locktime_ms t)
     @ le_bytes U64_BYTES (tx_lockheight t)
     @ le_bytes U16_BYTES (int (length (tx_inputs t)))
     @ concat (map input_to_bytes (tx_inputs t))
     @ le_bytes U16_BYTES (int (length (tx_outputs t)))
     @ concat (map output_to_bytes (tx_outputs t))"

definition require_format_epoch :: "int \<Rightarrow> unit res" where
  "require_format_epoch v =
     bnd (require_uint v U16_MAX) (\<lambda>_. ensure (v = FORMAT_EPOCH) ValueError)"

definition require_sig_type :: "int \<Rightarrow> unit res" where
  "require_sig_type v =
     bnd (require_uint v U8_MAX) (\<lambda>_. ensure (v = SIG_TYPE_ED25519) ValueError)"

definition require_inputs :: "tx_input list \<Rightarrow> unit res" where
  "require_inputs inputs = ensure (\<not> int (length inputs) > U16_MAX) ValueError"

definition require_outputs :: "tx_output list \<Rightarrow> unit res" where
  "require_outputs outputs =
     bnd (ensure (length outputs \<noteq> 0) ValueError) (\<lambda>_.
     ensure (\<not> int (length outputs) > U16_MAX) ValueError)"

definition Transaction ::
  "int \<Rightarrow> int \<Rightarrow> int \<Rightarrow> int \<Rightarrow> tx_input list \<Rightarrow> tx_output list \<Rightarrow> tx res" where
  "Transaction version sig_type locktime_ms lockheight inputs outputs =
     bnd (require_format_epoch version) (\<lambda>_.
     bnd (require_sig_type sig_type) (\<lambda>_.
     bnd (require_uint locktime_ms U64_MAX) (\<lambda>_.
     bnd (require_uint lockheight U64_MAX) (\<lambda>_.
     bnd (require_inputs inputs) (\<lambda>_.
     bnd (require_outputs outputs) (\<lambda>_.
     let t = \<lparr>tx_version = version, tx_sig_type = sig_type, tx_locktime_ms = locktime_ms,
               tx_lockheight = lockheight, tx_inputs = inputs, tx_outputs = outputs\<rparr> in
     bnd (ensure (\<not> length (tx_to_bytes t) > MAX_TX_BYTES) ValueError) (\<lambda>_. Inr t)))))))"

definition coinbase :: "tx_output list \<Rightarrow> int \<Rightarrow> int \<Rightarrow> int \<Rightarrow> tx res" where
  "coinbase outputs locktime_ms lockheight sig_type =
     Transaction FORMAT_EPOCH sig_type locktime_ms lockheight [] outputs"

definition tx_from_bytes :: "bytes \<Rightarrow> tx res" where
  "tx_from_bytes data =
     bnd (wrap_error TxDecodeError
       (bnd (require_max_len data MAX_TX_BYTES) (\<lambda>_.
        bnd (rd_uint TxDecodeError (int U16_BYTES) (reader_of data)) (\<lambda>(version, r).
        bnd (rd_uint TxDecodeError (int U8_BYTES) r) (\<lambda>(sig_type, r).
        bnd (rd_uint TxDecodeError (int U64_BYTES) r) (\<lambda>(locktime_ms, r).
        bnd (rd_uint TxDecodeError (int U64_BYTES) r) (\<lambda>(lockheight, r).
        bnd (rd_uint TxDecodeError (int U16_BYTES) r) (\<lambda>(input_count, r).
        bnd (rd_many read_input (nat input_count) r) (\<lambda>(inputs, r).
        bnd (rd_uint TxDecodeError (int U16_BYTES) r) (\<lambda>(output_count, r).
        bnd (rd_many read_output (nat output_count) r) (\<lambda>(outputs, r).
        bnd (rd_finish TxDecodeError r) (\<lambda>_.
        Transaction version sig_type locktime_ms lockheight inputs outputs)))))))))))) (\<lambda>t.
     bnd (ensure (tx_to_bytes t = data) TxDecodeError) (\<lambda>_. Inr t))"

definition tx_id :: "hash_fn \<Rightarrow> tx \<Rightarrow> bytes" where
  "tx_id H t = domain_hash H DOMAIN_TX_ID (tx_to_bytes t)"

definition tx_to_bytes_with :: "bool \<Rightarrow> tx \<Rightarrow> bytes" where
  "tx_to_bytes_with empty_witnesses t =
     (if \<not> empty_witnesses then tx_to_bytes t
      else
        le_bytes U16_BYTES (tx_version t)
        @ le_bytes U8_BYTES (tx_sig_type t)
        @ le_bytes U64_BYTES (tx_locktime_ms t)
        @ le_bytes U64_BYTES (tx_lockheight t)
        @ le_bytes U16_BYTES (int (length (tx_inputs t)))
        @ concat (map (\<lambda>i. outpoint_to_bytes (in_previous_outpoint i)
                         @ le_bytes U32_BYTES (in_sequence i)
                         @ le_bytes U16_BYTES 0) (tx_inputs t))
        @ le_bytes U16_BYTES (int (length (tx_outputs t)))
        @ concat (map output_to_bytes (tx_outputs t)))"

definition sighash :: "hash_fn \<Rightarrow> tx \<Rightarrow> int \<Rightarrow> bytes res" where
  "sighash H t input_index =
     bnd (require_uint input_index U32_MAX) (\<lambda>_.
     bnd (ensure (\<not> input_index \<ge> int (length (tx_inputs t))) IndexError) (\<lambda>_.
     Inr (domain_hash H DOMAIN_TX_SIGHASH (tx_to_bytes_with True t @ le_bytes U32_BYTES input_index))))"

definition without_witnesses :: "tx \<Rightarrow> tx res" where
  "without_witnesses t =
     bnd (each (\<lambda>i. Input (in_previous_outpoint i) (in_sequence i) []) (tx_inputs t)) (\<lambda>inputs.
     Transaction (tx_version t) (tx_sig_type t) (tx_locktime_ms t) (tx_lockheight t) inputs
       (tx_outputs t))"

section \<open>Well-formed values\<close>

definition input_ok :: "tx_input \<Rightarrow> bool" where
  "input_ok i \<longleftrightarrow> outpoint_ok (in_previous_outpoint i) \<and> in_sequence i = TX_SEQUENCE_FINAL
     \<and> length (in_witness i) \<le> TX_WITNESS_MAX_BYTES"

definition output_ok :: "tx_output \<Rightarrow> bool" where
  "output_ok out \<longleftrightarrow> 0 < out_amount_matoms out \<and> out_amount_matoms out \<le> MAX_SUPPLY_MATOMS
     \<and> out_template_id out \<in> ACTIVE_TEMPLATES
     \<and> 0 \<le> out_locktime_ms out \<and> out_locktime_ms out \<le> U64_MAX
     \<and> 0 \<le> out_lockheight out \<and> out_lockheight out \<le> U64_MAX
     \<and> length (out_payload out) \<le> TX_OUTPUT_PAYLOAD_MAX_BYTES
     \<and> is_ok (require_template_payload (out_template_id out) (out_payload out))"

definition tx_ok :: "tx \<Rightarrow> bool" where
  "tx_ok t \<longleftrightarrow> tx_version t = FORMAT_EPOCH \<and> tx_sig_type t = SIG_TYPE_ED25519
     \<and> 0 \<le> tx_locktime_ms t \<and> tx_locktime_ms t \<le> U64_MAX
     \<and> 0 \<le> tx_lockheight t \<and> tx_lockheight t \<le> U64_MAX
     \<and> int (length (tx_inputs t)) \<le> U16_MAX \<and> tx_outputs t \<noteq> []
     \<and> int (length (tx_outputs t)) \<le> U16_MAX
     \<and> (\<forall>i \<in> set (tx_inputs t). input_ok i) \<and> (\<forall>out \<in> set (tx_outputs t). output_ok out)
     \<and> length (tx_to_bytes t) \<le> MAX_TX_BYTES"

definition example_tx :: "bytes \<Rightarrow> tx" where
  "example_tx witness = \<lparr>tx_version = 0, tx_sig_type = 0, tx_locktime_ms = 0, tx_lockheight = 0,
     tx_inputs = [\<lparr>in_previous_outpoint = u_outpoint example_utxo, in_sequence = TX_SEQUENCE_FINAL,
       in_witness = witness\<rparr>],
     tx_outputs = [\<lparr>out_amount_matoms = 3, out_template_id = TEMPLATE_PKH, out_locktime_ms = 0,
       out_lockheight = 0, out_payload = zero_bytes 32\<rparr>]\<rparr>"

section \<open>Byte layouts\<close>

declare pieces.simps [simp del]

lemmas tx_widths = U8_BYTES_def U16_BYTES_def U32_BYTES_def U64_BYTES_def

lemma Input_Inr_iff:
  "Input op s w = Inr i \<longleftrightarrow> i = \<lparr>in_previous_outpoint = op, in_sequence = s, in_witness = w\<rparr>
     \<and> s = TX_SEQUENCE_FINAL \<and> length w \<le> TX_WITNESS_MAX_BYTES"
  by (auto simp: Input_def bnd_Inr_iff require_max_len_def TX_SEQUENCE_FINAL_def U32_MAX_def)

lemma Output_Inr_iff:
  "Output a t l h p = Inr out \<longleftrightarrow> out = \<lparr>out_amount_matoms = a, out_template_id = t,
     out_locktime_ms = l, out_lockheight = h, out_payload = p\<rparr> \<and> output_ok out"
  using template_range [of t]
  by (auto simp: Output_def bnd_Inr_iff require_max_len_def output_ok_def is_ok_iff MAX_SUPPLY_MATOMS_def uint_limits)

lemma Input_fields:
  "input_ok i \<Longrightarrow> Input (in_previous_outpoint i) (in_sequence i) (in_witness i) = Inr i"
  by (simp add: Input_Inr_iff input_ok_def)

lemma Output_fields:
  "output_ok out \<Longrightarrow> Output (out_amount_matoms out) (out_template_id out) (out_locktime_ms out)
     (out_lockheight out) (out_payload out) = Inr out"
  by (simp add: Output_Inr_iff)

lemma output_template: "output_ok out \<Longrightarrow> 0 \<le> out_template_id out \<and> out_template_id out < 65536"
  using template_range [of "out_template_id out"] by (simp add: output_ok_def)

lemma parses_input: "input_ok i \<Longrightarrow> parses read_input i (input_to_bytes i @ [])"
  unfolding read_input_def input_to_bytes_def append_assoc
  by ((rule parses_intros parses_bytes parses_uint | (rule Input_fields, assumption) |
      (simp add: input_ok_def length_outpoint_to_bytes outpoint_from_to_bytes utxo_widths
        uint_limits TX_SEQUENCE_FINAL_def TX_WITNESS_MAX_BYTES_def; fail))+)

lemma parses_output: "output_ok out \<Longrightarrow> parses read_output out (output_to_bytes out @ [])"
  unfolding read_output_def output_to_bytes_def append_assoc
  by ((rule parses_intros parses_bytes parses_uint | (rule Output_fields, assumption) |
      (simp add: output_template utxo_widths; fail) |
      (simp add: output_ok_def utxo_widths uint_limits MAX_SUPPLY_MATOMS_def
        TX_OUTPUT_PAYLOAD_MAX_BYTES_def; fail))+)

lemma reads_input: "reads read_input (\<lambda>i bs. input_ok i \<and> input_to_bytes i = bs)"
  unfolding read_input_def
  by (rule reads_mono, (rule reads_intros reads_bytes reads_uint | simp add: tx_widths)+)
    (auto simp: Input_Inr_iff input_ok_def input_to_bytes_def outpoint_to_from_bytes utxo_widths)

lemma reads_output: "reads read_output (\<lambda>out bs. output_ok out \<and> output_to_bytes out = bs)"
  unfolding read_output_def
  by (rule reads_mono, (rule reads_intros reads_bytes reads_uint | simp add: tx_widths)+)
    (auto simp: Output_Inr_iff output_to_bytes_def tx_widths)

interpretation tx_in: wire_format "\<lambda>i. Inr (input_to_bytes i)" read_input input_ok
  by (rule wire_formatI) (use parses_input reads_input in auto)

interpretation tx_out: wire_format "\<lambda>out. Inr (output_to_bytes out)" read_output output_ok
  by (rule wire_formatI) (use parses_output reads_output in auto)

lemma each_Inr_map [simp]: "each (\<lambda>x. Inr (f x)) xs = Inr (map f xs)"
  by (induction xs) auto

lemma Transaction_Inr_iff:
  "Transaction v s l h is os = Inr t \<longleftrightarrow>
     t = \<lparr>tx_version = v, tx_sig_type = s, tx_locktime_ms = l, tx_lockheight = h, tx_inputs = is,
       tx_outputs = os\<rparr>
     \<and> ((\<forall>i \<in> set is. input_ok i) \<and> (\<forall>out \<in> set os. output_ok out) \<longrightarrow> tx_ok t)
     \<and> is_ok (Transaction v s l h is os)"
  by (auto simp: Transaction_def bnd_Inr_iff Let_def tx_ok_def is_ok_iff require_format_epoch_def
      require_sig_type_def require_inputs_def require_outputs_def)

lemma Transaction_fields:
  assumes "tx_ok t"
  shows "Transaction (tx_version t) (tx_sig_type t) (tx_locktime_ms t) (tx_lockheight t) (tx_inputs t)
    (tx_outputs t) = Inr t"
  using assms
  by (cases t) (simp add: Transaction_def bnd_ensure bnd_require_uint tx_ok_def require_format_epoch_def
      require_sig_type_def require_inputs_def require_outputs_def FORMAT_EPOCH_def SIG_TYPE_ED25519_def
      uint_limits Let_def)

text \<open>The body of \<open>Transaction.from_bytes\<close> up to the call of the constructor, as one read.\<close>

definition read_tx_fields ::
  "reader \<Rightarrow> ((int \<times> int \<times> int \<times> int \<times> tx_input list \<times> tx_output list) \<times> reader) res" where
  "read_tx_fields r =
     bnd (rd_uint TxDecodeError (int U16_BYTES) r) (\<lambda>(version, r).
     bnd (rd_uint TxDecodeError (int U8_BYTES) r) (\<lambda>(sig_type, r).
     bnd (rd_uint TxDecodeError (int U64_BYTES) r) (\<lambda>(locktime_ms, r).
     bnd (rd_uint TxDecodeError (int U64_BYTES) r) (\<lambda>(lockheight, r).
     bnd (rd_uint TxDecodeError (int U16_BYTES) r) (\<lambda>(input_count, r).
     bnd (rd_many read_input (nat input_count) r) (\<lambda>(inputs, r).
     bnd (rd_uint TxDecodeError (int U16_BYTES) r) (\<lambda>(output_count, r).
     bnd (rd_many read_output (nat output_count) r) (\<lambda>(outputs, r).
     Inr ((version, sig_type, locktime_ms, lockheight, inputs, outputs), r)))))))))"

lemma bnd_case_prod:
  "bnd (case p of (x, y) \<Rightarrow> f x y) g = (case p of (x, y) \<Rightarrow> bnd (f x y) g)"
  by (cases p) simp

lemma tx_from_bytes_eq:
  "tx_from_bytes data =
     bnd (wrap_error TxDecodeError (bnd (require_max_len data MAX_TX_BYTES) (\<lambda>_.
       bnd (read_tx_fields (reader_of data)) (\<lambda>((v, s, l, h, is, os), r).
       bnd (rd_finish TxDecodeError r) (\<lambda>_. Transaction v s l h is os))))) (\<lambda>t.
     bnd (ensure (tx_to_bytes t = data) TxDecodeError) (\<lambda>_. Inr t))"
  unfolding tx_from_bytes_def read_tx_fields_def by (simp add: bnd_assoc bnd_case_prod)

lemma parses_many_inputs:
  "\<forall>i \<in> set is. input_ok i \<Longrightarrow> n = length is \<Longrightarrow> parses (rd_many read_input n) is (concat (map input_to_bytes is))"
  using tx_in.parses_many [of "is" "map input_to_bytes is"] by simp

lemma parses_many_outputs:
  "\<forall>out \<in> set os. output_ok out \<Longrightarrow> n = length os \<Longrightarrow> parses (rd_many read_output n) os (concat (map output_to_bytes os))"
  using tx_out.parses_many [of os "map output_to_bytes os"] by simp

lemma parses_tx_fields:
  assumes "tx_ok t"
  shows "parses read_tx_fields (tx_version t, tx_sig_type t, tx_locktime_ms t, tx_lockheight t, tx_inputs t,
    tx_outputs t) (tx_to_bytes t @ [])"
  unfolding read_tx_fields_def tx_to_bytes_def append_assoc
  by ((rule parses_intros parses_uint parses_many_inputs parses_many_outputs |
      (use assms in \<open>simp add: tx_ok_def tx_widths uint_limits FORMAT_EPOCH_def SIG_TYPE_ED25519_def\<close>; fail))+)

lemma reads_tx_fields:
  "reads read_tx_fields (\<lambda>(v, s, l, h, is, os) bs.
     bs = tx_to_bytes \<lparr>tx_version = v, tx_sig_type = s, tx_locktime_ms = l, tx_lockheight = h,
       tx_inputs = is, tx_outputs = os\<rparr>
     \<and> (\<forall>i \<in> set is. input_ok i) \<and> (\<forall>out \<in> set os. output_ok out))"
  unfolding read_tx_fields_def
  by (rule reads_mono, (rule reads_intros reads_uint tx_in.reads_many tx_out.reads_many | simp add: tx_widths)+)
    (auto simp: tx_to_bytes_def tx_widths)

lemma tx_from_to_bytes:
  assumes "tx_ok t"
  shows "tx_from_bytes (tx_to_bytes t) = Inr t"
proof -
  have "bnd (read_tx_fields (reader_of (tx_to_bytes t))) (\<lambda>((v, s, l, h, is, os), r).
      bnd (rd_finish TxDecodeError r) (\<lambda>_. Transaction v s l h is os)) = Inr t"
    using parses_whole [OF parses_tx_fields [OF assms],
        where f = "\<lambda>(v, s, l, h, is, os). Transaction v s l h is os" and err = TxDecodeError]
      Transaction_fields [OF assms] by (simp add: case_prod_unfold)
  moreover have "require_max_len (tx_to_bytes t) MAX_TX_BYTES = Inr ()"
    using assms by (simp add: require_max_len_def tx_ok_def)
  ultimately show ?thesis by (simp add: tx_from_bytes_eq wrap_error_def)
qed

lemma tx_to_from_bytes:
  assumes "tx_from_bytes data = Inr t"
  shows "tx_ok t \<and> tx_to_bytes t = data"
proof -
  obtain v s l h "is" os r where r: "read_tx_fields (reader_of data) = Inr ((v, s, l, h, is, os), r)"
      "rd_finish TxDecodeError r = Inr ()"
    and t: "Transaction v s l h is os = Inr t" and c: "tx_to_bytes t = data"
    using assms by (auto simp: tx_from_bytes_eq bnd_Inr_iff split: prod.splits)
  from reads_whole [OF reads_tx_fields r] t show ?thesis using c Transaction_Inr_iff by blast
qed

lemma input_from_bytes_iff: "input_from_bytes bs = Inr i \<longleftrightarrow> input_ok i \<and> input_to_bytes i = bs"
proof
  assume "input_from_bytes bs = Inr i"
  then obtain r where "read_input (reader_of bs) = Inr (i, r)" "rd_finish TxDecodeError r = Inr ()"
    by (auto simp: input_from_bytes_def bnd_Inr_iff)
  from reads_whole [OF reads_input this] show "input_ok i \<and> input_to_bytes i = bs" .
next
  assume "input_ok i \<and> input_to_bytes i = bs"
  then show "input_from_bytes bs = Inr i"
    using parses_whole [OF parses_input, where f = Inr and err = TxDecodeError, of i] by (auto simp: input_from_bytes_def)
qed

lemma output_from_bytes_iff: "output_from_bytes bs = Inr out \<longleftrightarrow> output_ok out \<and> output_to_bytes out = bs"
proof
  assume "output_from_bytes bs = Inr out"
  then obtain r where "read_output (reader_of bs) = Inr (out, r)" "rd_finish TxDecodeError r = Inr ()"
    by (auto simp: output_from_bytes_def bnd_Inr_iff)
  from reads_whole [OF reads_output this] show "output_ok out \<and> output_to_bytes out = bs" .
next
  assume "output_ok out \<and> output_to_bytes out = bs"
  then show "output_from_bytes bs = Inr out"
    using parses_whole [OF parses_output, where f = Inr and err = TxDecodeError, of out] by (auto simp: output_from_bytes_def)
qed

lemma value_errors_Input: "value_errors (Input a b c)"
  unfolding Input_def require_max_len_def by (intro value_errors_intros)

lemma value_errors_template: "value_errors (require_template_payload t p)"
  unfolding require_template_payload_def require_multisig_payload_def require_inner_template_payload_def
  by (intro value_errors_intros)

lemma value_errors_Output: "value_errors (Output a b c d p)"
  unfolding Output_def require_max_len_def by (intro value_errors_intros value_errors_template)

lemma value_errors_outpoint: "value_errors (outpoint_from_bytes bs)"
  unfolding outpoint_from_bytes_def Outpoint_def require_hash_len_def by (intro value_errors_intros)

lemma value_errors_Transaction: "value_errors (Transaction v s l h is os)"
  unfolding Transaction_def require_format_epoch_def require_sig_type_def require_inputs_def require_outputs_def
  by (intro value_errors_intros)

lemma value_errors_tx:
  "value_errors (bnd (require_max_len data MAX_TX_BYTES) (\<lambda>_.
     bnd (read_tx_fields (reader_of data)) (\<lambda>((v, s, l, h, is, os), r).
     bnd (rd_finish TxDecodeError r) (\<lambda>_. Transaction v s l h is os))))"
  unfolding read_tx_fields_def read_input_def read_output_def require_max_len_def
  by (intro value_errors_intros value_errors_Input value_errors_Output value_errors_outpoint value_errors_Transaction)

section \<open>Witnesses and signature hashes\<close>

definition strip_input :: "tx_input \<Rightarrow> tx_input" where
  "strip_input i = i\<lparr>in_witness := []\<rparr>"

lemma length_input_to_bytes:
  "input_ok i \<Longrightarrow> length (input_to_bytes i) = INPUT_FIXED_BYTES + length (in_witness i)"
  by (simp add: input_to_bytes_def input_ok_def length_outpoint_to_bytes INPUT_FIXED_BYTES_def)

lemma strip_input_ok: "input_ok i \<Longrightarrow> input_ok (strip_input i)"
  by (simp add: input_ok_def strip_input_def)

lemma strip_inputs_shorter:
  "\<forall>i \<in> set is. input_ok i \<Longrightarrow>
   length (concat (map (input_to_bytes \<circ> strip_input) is)) \<le> length (concat (map input_to_bytes is))"
proof (induction "is")
  case (Cons i "is")
  have "length (input_to_bytes (strip_input i)) \<le> length (input_to_bytes i)"
    using Cons.prems length_input_to_bytes [of i] length_input_to_bytes [OF strip_input_ok, of i]
    by (simp add: strip_input_def)
  then show ?case using Cons by simp
qed simp

lemma without_witnesses_eq:
  assumes "tx_ok t"
  shows "without_witnesses t = Inr (t\<lparr>tx_inputs := map strip_input (tx_inputs t)\<rparr>)"
    and "tx_ok (t\<lparr>tx_inputs := map strip_input (tx_inputs t)\<rparr>)"
proof -
  let ?u = "t\<lparr>tx_inputs := map strip_input (tx_inputs t)\<rparr>"
  have "length (tx_to_bytes ?u) \<le> length (tx_to_bytes t)"
    using strip_inputs_shorter [of "tx_inputs t"] assms by (simp add: tx_to_bytes_def tx_ok_def)
  then show ok: "tx_ok ?u" using assms strip_input_ok by (auto simp: tx_ok_def)
  have "each (\<lambda>i. Input (in_previous_outpoint i) (in_sequence i) []) (tx_inputs t) =
      Inr (map strip_input (tx_inputs t))"
    using assms by (intro each_Inr_all) (auto simp: Input_Inr_iff strip_input_def tx_ok_def input_ok_def)
  then show "without_witnesses t = Inr ?u"
    using Transaction_fields [OF ok] by (simp add: without_witnesses_def)
qed

lemma tx_to_bytes_with_stripped:
  "tx_to_bytes_with True t = tx_to_bytes (t\<lparr>tx_inputs := map strip_input (tx_inputs t)\<rparr>)"
  by (simp add: tx_to_bytes_with_def tx_to_bytes_def input_to_bytes_def strip_input_def comp_def)

section \<open>Properties\<close>

text \<open>(C20) The decoder accepts exactly the canonical encodings: \<open>Transaction.from_bytes\<close> returns \<open>t\<close> on
  \<open>data\<close> iff \<open>t\<close> is a valid transaction (its inputs and outputs included) and \<open>data\<close> is
  \<open>t.to_bytes()\<close>; in particular no transaction has two encodings and no bytes decode to two
  transactions.\<close>

theorem tx_bytes_canonical:
  "tx_from_bytes data = Inr t \<longleftrightarrow> tx_ok t \<and> tx_to_bytes t = data"
  using tx_to_from_bytes tx_from_to_bytes by blast

text \<open>Decoding never leaks another exception: on any bytes, \<open>Transaction.from_bytes\<close> returns a
  transaction or raises \<open>TxDecodeError\<close>.\<close>

theorem tx_from_bytes_errors:
  "tx_from_bytes data = Inl e \<Longrightarrow> e = TxDecodeError"
  unfolding tx_from_bytes_eq
  by (auto simp: bnd_Inl_iff dest!: wrap_error_Inl [rotated] intro!: value_errors_tx)

theorem tx_from_bytes_errors_witness: "tx_from_bytes [] = Inl TxDecodeError"
proof -
  have "\<not> is_ok (tx_from_bytes [])" by code_simp
  then show ?thesis using tx_from_bytes_errors [of "[]"] by (cases "tx_from_bytes []") auto
qed

text \<open>The signature hash of an input commits to everything but the witnesses: it is the hash of
  the encoding of \<open>without_witnesses()\<close>, which always exists, followed by the input's index, and it
  fails exactly on an index outside the inputs; so replacing witnesses never changes it.\<close>

theorem sighash_ignores_witnesses:
  assumes "tx_ok t" "tx_ok u" "without_witnesses t = without_witnesses u"
  shows "sighash H t i = sighash H u i
    \<and> (\<exists>s. without_witnesses t = Inr s \<and> tx_ok s \<and> (\<forall>i \<in> set (tx_inputs s). in_witness i = [])
         \<and> sighash H t i =
            (if 0 \<le> i \<and> i < int (length (tx_inputs t))
             then Inr (domain_hash H DOMAIN_TX_SIGHASH (tx_to_bytes s @ le_bytes U32_BYTES i))
             else Inl (if 0 \<le> i \<and> i \<le> U32_MAX then IndexError else ValueError)))"
proof -
  let ?s = "\<lambda>t. t\<lparr>tx_inputs := map strip_input (tx_inputs t)\<rparr>"
  note t = without_witnesses_eq [OF assms(1)] and u = without_witnesses_eq [OF assms(2)]
  have eq: "?s t = ?s u" using assms(3) t(1) u(1) by simp
  then have len: "length (tx_inputs t) = length (tx_inputs u)"
    by (metis (mono_tags) length_map tx.select_convs(5) tx.simps(11) tx.surjective tx.update_convs(5))
  have sh: "sighash H x i =
      (if 0 \<le> i \<and> i < int (length (tx_inputs x))
       then Inr (domain_hash H DOMAIN_TX_SIGHASH (tx_to_bytes (?s x) @ le_bytes U32_BYTES i))
       else Inl (if 0 \<le> i \<and> i \<le> U32_MAX then IndexError else ValueError))" if "tx_ok x" for x
    using that by (auto simp: sighash_def bnd_require_uint bnd_ensure tx_to_bytes_with_stripped tx_ok_def uint_limits)
  show ?thesis using sh [OF assms(1)] sh [OF assms(2)] eq len t
    by (auto simp: strip_input_def)
qed

theorem sighash_ignores_witnesses_witness:
  "sighash pad_hash (example_tx [1, 2, 3]) 0 = sighash pad_hash (example_tx []) 0"
proof -
  have "tx_ok (example_tx [1, 2, 3])" "tx_ok (example_tx [])"
    "without_witnesses (example_tx [1, 2, 3]) = without_witnesses (example_tx [])" by code_simp+
  from sighash_ignores_witnesses [OF this] show ?thesis by blast
qed

end
