(* ===== verification/Pow_Challenge.thy ===== *)
theory Pow_Challenge
  imports Pow_Kernel Transaction
begin

text \<open>
  \<^verbatim>\<open>src/src/tensorpow/pow/challenge.py\<close> and \<^verbatim>\<open>src/src/tensorpow/pow/verify.py\<close>: the proof-of-work headers, their preimages, the
  matrices derived from them and the check of a proof.

  BLAKE3 with a chosen output length is a parameter \<open>X\<close> (\<open>X data n\<close> is \<open>blake3(data).digest(length=n)\<close>);
  \<open>xof_ok X\<close> says that it returns \<open>n\<close> bytes. The digest of a header is \<open>X\<close> at 32 bytes.
\<close>

section \<open>Definitions\<close>

type_synonym xof = "bytes \<Rightarrow> nat \<Rightarrow> bytes"

record fruit_pow_header =
  fph_version :: int
  fph_sig_type_supported :: int
  fph_effective_parent_hashes :: "bytes list"
  fph_latest_anchor :: bytes
  fph_tx_merkle_root :: bytes
  fph_timestamp_ms :: int
  fph_shard_id :: int
  fph_nonce :: int

record anchor_pow_header =
  aph_version :: int
  aph_parent_anchor :: bytes
  aph_fruit_set_root :: bytes
  aph_parent_candidate_root :: bytes
  aph_shard_tree_state_root :: bytes
  aph_fee_floor_set_root :: bytes
  aph_anchor_reward_root :: bytes
  aph_timestamp_ms :: int
  aph_nonce :: int

datatype pow_header = FruitPow fruit_pow_header | AnchorPow anchor_pow_header

definition require_parent_hashes :: "bytes list \<Rightarrow> unit res" where
  "require_parent_hashes value =
     bnd (ensure (\<not> int (length value) > U16_MAX) ValueError) (\<lambda>_.
     bnd (ensure (card (set value) = length value) ValueError) (\<lambda>_.
     bnd (each require_hash value) (\<lambda>_. Inr ())))"

text \<open>The checks of \<open>__post_init__\<close>; building a header runs them on its fields.\<close>

definition FruitPowHeader :: "fruit_pow_header \<Rightarrow> fruit_pow_header res" where
  "FruitPowHeader h =
     bnd (require_uint (fph_version h) U16_MAX) (\<lambda>_.
     bnd (require_uint (fph_sig_type_supported h) U16_MAX) (\<lambda>_.
     bnd (ensure (fph_sig_type_supported h AND SIG_TYPE_ED25519_BIT \<noteq> 0) ValueError) (\<lambda>_.
     bnd (require_parent_hashes (fph_effective_parent_hashes h)) (\<lambda>_.
     bnd (require_hash (fph_latest_anchor h)) (\<lambda>_.
     bnd (require_hash (fph_tx_merkle_root h)) (\<lambda>_.
     bnd (require_uint (fph_timestamp_ms h) U64_MAX) (\<lambda>_.
     bnd (require_uint (fph_shard_id h) U32_MAX) (\<lambda>_.
     bnd (require_uint (fph_nonce h) U64_MAX) (\<lambda>_. Inr h)))))))))"

definition AnchorPowHeader :: "anchor_pow_header \<Rightarrow> anchor_pow_header res" where
  "AnchorPowHeader h =
     bnd (require_uint (aph_version h) U16_MAX) (\<lambda>_.
     bnd (require_hash (aph_parent_anchor h)) (\<lambda>_.
     bnd (require_hash (aph_fruit_set_root h)) (\<lambda>_.
     bnd (require_hash (aph_parent_candidate_root h)) (\<lambda>_.
     bnd (require_hash (aph_shard_tree_state_root h)) (\<lambda>_.
     bnd (require_hash (aph_fee_floor_set_root h)) (\<lambda>_.
     bnd (require_hash (aph_anchor_reward_root h)) (\<lambda>_.
     bnd (require_uint (aph_timestamp_ms h) U64_MAX) (\<lambda>_.
     bnd (require_uint (aph_nonce h) U64_MAX) (\<lambda>_. Inr h)))))))))"

definition fruit_pow_preimage :: "fruit_pow_header \<Rightarrow> bytes res" where
  "fruit_pow_preimage h =
     bnd (to_bytes 2 (fph_version h)) (\<lambda>version.
     bnd (to_bytes 2 (fph_sig_type_supported h)) (\<lambda>sig_types.
     bnd (to_bytes 2 (int (length (fph_effective_parent_hashes h)))) (\<lambda>count.
     bnd (to_bytes 8 (fph_timestamp_ms h)) (\<lambda>timestamp.
     bnd (to_bytes 4 (fph_shard_id h)) (\<lambda>shard.
     bnd (to_bytes 8 (fph_nonce h)) (\<lambda>nonce.
     Inr ([DOMAIN_POW_CHALLENGE_FRUIT] @ version @ sig_types @ count @ concat (fph_effective_parent_hashes h) @
          fph_latest_anchor h @ fph_tx_merkle_root h @ timestamp @ shard @ nonce)))))))"

definition anchor_pow_preimage :: "anchor_pow_header \<Rightarrow> bytes res" where
  "anchor_pow_preimage h =
     bnd (to_bytes 2 (aph_version h)) (\<lambda>version.
     bnd (to_bytes 8 (aph_timestamp_ms h)) (\<lambda>timestamp.
     bnd (to_bytes 8 (aph_nonce h)) (\<lambda>nonce.
     Inr ([DOMAIN_POW_CHALLENGE_ANCHOR] @ version @ aph_parent_anchor h @ aph_fruit_set_root h @
          aph_parent_candidate_root h @ aph_shard_tree_state_root h @ aph_fee_floor_set_root h @
          aph_anchor_reward_root h @ timestamp @ nonce))))"

fun pow_preimage :: "pow_header \<Rightarrow> bytes res" where
  "pow_preimage (FruitPow h) = fruit_pow_preimage h"
| "pow_preimage (AnchorPow h) = anchor_pow_preimage h"

fun set_nonce :: "pow_header \<Rightarrow> int \<Rightarrow> pow_header" where
  "set_nonce (FruitPow h) nonce = FruitPow (h\<lparr>fph_nonce := nonce\<rparr>)"
| "set_nonce (AnchorPow h) nonce = AnchorPow (h\<lparr>aph_nonce := nonce\<rparr>)"

text \<open>\<open>dataclasses.replace\<close> runs the constructor again.\<close>

fun mk_pow_header :: "pow_header \<Rightarrow> pow_header res" where
  "mk_pow_header (FruitPow h) = bnd (FruitPowHeader h) (\<lambda>h. Inr (FruitPow h))"
| "mk_pow_header (AnchorPow h) = bnd (AnchorPowHeader h) (\<lambda>h. Inr (AnchorPow h))"

definition with_nonce :: "pow_header \<Rightarrow> int \<Rightarrow> pow_header res" where
  "with_nonce header nonce =
     bnd (require_uint nonce U64_MAX) (\<lambda>_. mk_pow_header (set_nonce header nonce))"

definition int8_of_byte :: "byte \<Rightarrow> int" where
  "int8_of_byte b = (if uint b \<ge> 128 then uint b - 256 else uint b)"

definition matrix_from_xof :: "xof \<Rightarrow> byte \<Rightarrow> bytes \<Rightarrow> int \<Rightarrow> matrix res" where
  "matrix_from_xof X domain preimage matrix_dim =
     bnd (ensure (\<not> matrix_dim \<le> 0) ValueError) (\<lambda>_.
     let n = nat matrix_dim; raw = X ([domain] @ preimage) (n * n) in
     Inr (map (\<lambda>i. map (\<lambda>j. int8_of_byte (raw ! (i * n + j))) [0..<n]) [0..<n]))"

definition build_challenge_matrices :: "xof \<Rightarrow> pow_header \<Rightarrow> int \<Rightarrow> (matrix \<times> matrix) res" where
  "build_challenge_matrices X header matrix_dim =
     bnd (pow_preimage header) (\<lambda>preimage.
     bnd (matrix_from_xof X DOMAIN_POW_MATRIX_A preimage matrix_dim) (\<lambda>a.
     bnd (matrix_from_xof X DOMAIN_POW_MATRIX_B preimage matrix_dim) (\<lambda>b. Inr (a, b))))"

definition build_challenge :: "xof \<Rightarrow> bytes list \<Rightarrow> bytes \<Rightarrow> int \<Rightarrow> int \<Rightarrow> int \<Rightarrow> int \<Rightarrow> matrix res" where
  "build_challenge X parent_hashes tx_merkle_root timestamp nonce domain matrix_dim =
     bnd (if domain = uint DOMAIN_POW_CHALLENGE_FRUIT then
            mk_pow_header (FruitPow
              \<lparr>fph_version = FORMAT_EPOCH, fph_sig_type_supported = SIG_TYPE_ED25519_BIT,
               fph_effective_parent_hashes = parent_hashes, fph_latest_anchor = GENESIS_PARENT_HASH,
               fph_tx_merkle_root = tx_merkle_root, fph_timestamp_ms = timestamp, fph_shard_id = 0,
               fph_nonce = nonce\<rparr>)
          else if domain = uint DOMAIN_POW_CHALLENGE_ANCHOR then
            bnd (ensure (length parent_hashes = 1) ValueError) (\<lambda>_.
            mk_pow_header (AnchorPow
              \<lparr>aph_version = FORMAT_EPOCH, aph_parent_anchor = parent_hashes ! 0,
               aph_fruit_set_root = tx_merkle_root, aph_parent_candidate_root = GENESIS_PARENT_HASH,
               aph_shard_tree_state_root = GENESIS_PARENT_HASH, aph_fee_floor_set_root = GENESIS_PARENT_HASH,
               aph_anchor_reward_root = GENESIS_PARENT_HASH, aph_timestamp_ms = timestamp, aph_nonce = nonce\<rparr>))
          else Inl ValueError) (\<lambda>header.
     bnd (build_challenge_matrices X header matrix_dim) (\<lambda>(a, b). Inr a))"

text \<open>\<open>verify.py\<close>\<close>

definition digest_of :: "xof \<Rightarrow> hash_fn" where
  "digest_of X data = X data HASH_LEN_BYTES"

definition pow_digest_for_header :: "torch \<Rightarrow> xof \<Rightarrow> pow_header \<Rightarrow> string \<Rightarrow> bytes res" where
  "pow_digest_for_header T X header backend =
     bnd (build_challenge_matrices X header (int POW_MATRIX_DIM)) (\<lambda>(left, right).
     bnd (matmul_int8 T left right backend) (\<lambda>product.
     pow_digest (digest_of X) product (int POW_MATRIX_DIM)))"

definition verify_pow :: "torch \<Rightarrow> xof \<Rightarrow> pow_header \<Rightarrow> bytes \<Rightarrow> string \<Rightarrow> bool res" where
  "verify_pow T X header target backend =
     bnd (pow_digest_for_header T X header backend) (\<lambda>digest. target_allows_digest digest target)"

section \<open>Specification\<close>

definition xof_ok :: "xof \<Rightarrow> bool" where
  "xof_ok X \<longleftrightarrow> (\<forall>data n. length (X data n) = n)"

fun pow_ok :: "pow_header \<Rightarrow> bool" where
  "pow_ok (FruitPow h) \<longleftrightarrow> FruitPowHeader h = Inr h"
| "pow_ok (AnchorPow h) \<longleftrightarrow> AnchorPowHeader h = Inr h"

text \<open>The digest a header has by the definition of the protocol: the bytes of the header, two matrices whose entry in row
  \<open>i\<close> and column \<open>j\<close> is byte \<open>1024 * i + j\<close> of the extended output as a signed byte, and the hash of their exact product.\<close>

fun header_bytes :: "pow_header \<Rightarrow> bytes" where
  "header_bytes (FruitPow h) = 0x00 # le_bytes 2 (fph_version h) @ le_bytes 2 (fph_sig_type_supported h) @
     le_bytes 2 (int (length (fph_effective_parent_hashes h))) @ concat (fph_effective_parent_hashes h) @ fph_latest_anchor h @
     fph_tx_merkle_root h @ le_bytes 8 (fph_timestamp_ms h) @ le_bytes 4 (fph_shard_id h) @ le_bytes 8 (fph_nonce h)"
| "header_bytes (AnchorPow h) = 0x01 # le_bytes 2 (aph_version h) @ aph_parent_anchor h @ aph_fruit_set_root h @
     aph_parent_candidate_root h @ aph_shard_tree_state_root h @ aph_fee_floor_set_root h @ aph_anchor_reward_root h @
     le_bytes 8 (aph_timestamp_ms h) @ le_bytes 8 (aph_nonce h)"

definition header_matrix :: "xof \<Rightarrow> byte \<Rightarrow> pow_header \<Rightarrow> matrix" where
  "header_matrix X d header =
     map (\<lambda>i. map (\<lambda>j. sint (X (d # header_bytes header) (1024 * 1024) ! (1024 * i + j))) [0..<1024]) [0..<1024]"

definition header_digest :: "xof \<Rightarrow> pow_header \<Rightarrow> bytes" where
  "header_digest X header =
     X (0x02 # concat (map (\<lambda>v. le_bytes 4 (v mod 2 ^ 32))
         (concat (exact_product 1024 (header_matrix X 0x03 header) (header_matrix X 0x04 header))))) 32"

fun nonce_of :: "pow_header \<Rightarrow> int" where
  "nonce_of (FruitPow h) = fph_nonce h"
| "nonce_of (AnchorPow h) = aph_nonce h"

definition example_xof :: xof where
  "example_xof data n = replicate n 0"

definition example_fruit_pow :: pow_header where
  "example_fruit_pow = FruitPow
     \<lparr>fph_version = 0, fph_sig_type_supported = 1, fph_effective_parent_hashes = [zero_bytes 32],
      fph_latest_anchor = zero_bytes 32, fph_tx_merkle_root = zero_bytes 32, fph_timestamp_ms = 1,
      fph_shard_id = 0, fph_nonce = 0\<rparr>"

section \<open>Lemmas\<close>

lemma to_bytes_u16: "0 \<le> v \<Longrightarrow> v \<le> U16_MAX \<Longrightarrow> to_bytes 2 v = Inr (le_bytes 2 v)"
  by (rule to_bytes_ok) (simp_all add: U16_MAX_def)

lemma to_bytes_u32: "0 \<le> v \<Longrightarrow> v \<le> U32_MAX \<Longrightarrow> to_bytes 4 v = Inr (le_bytes 4 v)"
  by (rule to_bytes_ok) (simp_all add: U32_MAX_def)

lemma to_bytes_u64: "0 \<le> v \<Longrightarrow> v \<le> U64_MAX \<Longrightarrow> to_bytes 8 v = Inr (le_bytes 8 v)"
  by (rule to_bytes_ok) (simp_all add: U64_MAX_def)

lemmas to_bytes_uints = to_bytes_u16 to_bytes_u32 to_bytes_u64

lemma u16_eqD: "le_bytes 2 v = le_bytes 2 w \<Longrightarrow> 0 \<le> v \<and> v \<le> U16_MAX \<Longrightarrow> 0 \<le> w \<and> w \<le> U16_MAX \<Longrightarrow> v = w"
  using le_bytes_inject [of v 2 w] by (simp add: U16_MAX_def)

lemma u32_eqD: "le_bytes 4 v = le_bytes 4 w \<Longrightarrow> 0 \<le> v \<and> v \<le> U32_MAX \<Longrightarrow> 0 \<le> w \<and> w \<le> U32_MAX \<Longrightarrow> v = w"
  using le_bytes_inject [of v 4 w] by (simp add: U32_MAX_def)

lemma u64_eqD: "le_bytes 8 v = le_bytes 8 w \<Longrightarrow> 0 \<le> v \<and> v \<le> U64_MAX \<Longrightarrow> 0 \<le> w \<and> w \<le> U64_MAX \<Longrightarrow> v = w"
  using le_bytes_inject [of v 8 w] by (simp add: U64_MAX_def)

lemma require_parent_hashes_iff:
  "require_parent_hashes ps = Inr u \<longleftrightarrow>
   int (length ps) \<le> U16_MAX \<and> distinct ps \<and> (\<forall>p \<in> set ps. length p = HASH_LEN_BYTES)"
proof -
  have "(\<exists>us. each require_hash ps = Inr us) \<longleftrightarrow> (\<forall>p \<in> set ps. length p = HASH_LEN_BYTES)"
    unfolding require_hash_len_def by (rule each_unit_Inr_iff)
  moreover have "card (set ps) = length ps \<longleftrightarrow> distinct ps" by (metis card_distinct distinct_card)
  ultimately show ?thesis by (auto simp: require_parent_hashes_def bnd_Inr_iff)
qed

lemma FruitPowHeader_iff:
  "FruitPowHeader h = Inr h' \<longleftrightarrow> h' = h \<and> 0 \<le> fph_version h \<and> fph_version h \<le> U16_MAX \<and>
   0 \<le> fph_sig_type_supported h \<and> fph_sig_type_supported h \<le> U16_MAX \<and>
   fph_sig_type_supported h AND SIG_TYPE_ED25519_BIT \<noteq> 0 \<and>
   int (length (fph_effective_parent_hashes h)) \<le> U16_MAX \<and> distinct (fph_effective_parent_hashes h) \<and>
   (\<forall>p \<in> set (fph_effective_parent_hashes h). length p = HASH_LEN_BYTES) \<and>
   length (fph_latest_anchor h) = HASH_LEN_BYTES \<and> length (fph_tx_merkle_root h) = HASH_LEN_BYTES \<and>
   0 \<le> fph_timestamp_ms h \<and> fph_timestamp_ms h \<le> U64_MAX \<and> 0 \<le> fph_shard_id h \<and> fph_shard_id h \<le> U32_MAX \<and>
   0 \<le> fph_nonce h \<and> fph_nonce h \<le> U64_MAX"
  unfolding FruitPowHeader_def by (simp only: bnd_Inr_iff require_uint_Inr_iff ensure_Inr_iff
    require_parent_hashes_iff require_hash_len_Inr_iff) auto

lemma AnchorPowHeader_iff:
  "AnchorPowHeader h = Inr h' \<longleftrightarrow> h' = h \<and> 0 \<le> aph_version h \<and> aph_version h \<le> U16_MAX \<and>
   length (aph_parent_anchor h) = HASH_LEN_BYTES \<and> length (aph_fruit_set_root h) = HASH_LEN_BYTES \<and>
   length (aph_parent_candidate_root h) = HASH_LEN_BYTES \<and> length (aph_shard_tree_state_root h) = HASH_LEN_BYTES \<and>
   length (aph_fee_floor_set_root h) = HASH_LEN_BYTES \<and> length (aph_anchor_reward_root h) = HASH_LEN_BYTES \<and>
   0 \<le> aph_timestamp_ms h \<and> aph_timestamp_ms h \<le> U64_MAX \<and> 0 \<le> aph_nonce h \<and> aph_nonce h \<le> U64_MAX"
  unfolding AnchorPowHeader_def by (simp only: bnd_Inr_iff require_uint_Inr_iff ensure_Inr_iff
    require_hash_len_Inr_iff) auto

subsection \<open>Preimages\<close>

lemma fruit_preimage_eq:
  assumes "FruitPowHeader h = Inr h"
  shows "fruit_pow_preimage h = Inr ([DOMAIN_POW_CHALLENGE_FRUIT] @ le_bytes 2 (fph_version h) @
    le_bytes 2 (fph_sig_type_supported h) @ le_bytes 2 (int (length (fph_effective_parent_hashes h))) @
    concat (fph_effective_parent_hashes h) @ fph_latest_anchor h @ fph_tx_merkle_root h @
    le_bytes 8 (fph_timestamp_ms h) @ le_bytes 4 (fph_shard_id h) @ le_bytes 8 (fph_nonce h))"
  using assms by (simp add: FruitPowHeader_iff fruit_pow_preimage_def to_bytes_uints)

lemma anchor_preimage_eq:
  assumes "AnchorPowHeader h = Inr h"
  shows "anchor_pow_preimage h = Inr ([DOMAIN_POW_CHALLENGE_ANCHOR] @ le_bytes 2 (aph_version h) @
    aph_parent_anchor h @ aph_fruit_set_root h @ aph_parent_candidate_root h @ aph_shard_tree_state_root h @
    aph_fee_floor_set_root h @ aph_anchor_reward_root h @ le_bytes 8 (aph_timestamp_ms h) @ le_bytes 8 (aph_nonce h))"
  using assms by (simp add: AnchorPowHeader_iff anchor_pow_preimage_def to_bytes_uints)

lemma append_eqD: "xs @ us = ys @ vs \<Longrightarrow> length xs = length ys \<Longrightarrow> xs = ys \<and> us = vs"
  by simp

lemma concat_hashes_inject:
  assumes "concat ps @ us = concat qs @ vs" "length ps = length qs"
    "\<forall>p \<in> set ps. length p = n" "\<forall>q \<in> set qs. length q = n"
  shows "ps = qs \<and> us = vs"
  using assms(2,1,3,4)
proof (induction ps qs rule: list_induct2)
  case (Cons p ps q qs)
  have "p = q \<and> concat ps @ us = concat qs @ vs"
    using Cons.prems by (intro append_eqD) auto
  then show ?case using Cons.IH Cons.prems by auto
qed simp

lemma fruit_preimage_inject:
  assumes a: "FruitPowHeader a = Inr a" and b: "FruitPowHeader b = Inr b"
    and eq: "fruit_pow_preimage a = fruit_pow_preimage b"
  shows "a = b"
proof -
  note a' = a [unfolded FruitPowHeader_iff] and b' = b [unfolded FruitPowHeader_iff]
  let ?p = "fph_effective_parent_hashes"
  from eq have e: "le_bytes 2 (fph_version a) = le_bytes 2 (fph_version b)"
    "le_bytes 2 (fph_sig_type_supported a) = le_bytes 2 (fph_sig_type_supported b)"
    "le_bytes 2 (int (length (?p a))) = le_bytes 2 (int (length (?p b)))"
    and t: "concat (?p a) @ fph_latest_anchor a @ fph_tx_merkle_root a @ le_bytes 8 (fph_timestamp_ms a) @
       le_bytes 4 (fph_shard_id a) @ le_bytes 8 (fph_nonce a)
     = concat (?p b) @ fph_latest_anchor b @ fph_tx_merkle_root b @ le_bytes 8 (fph_timestamp_ms b) @
       le_bytes 4 (fph_shard_id b) @ le_bytes 8 (fph_nonce b)"
    unfolding fruit_preimage_eq [OF a] fruit_preimage_eq [OF b] by (simp_all only: sum.inject append_eq_append_conv length_le_bytes simp_thms)
  have "int (length (?p a)) = int (length (?p b))" using e(3) a' b' by (intro u16_eqD) auto
  then have "length (?p a) = length (?p b)" by simp
  then have p: "?p a = ?p b" and u: "fph_latest_anchor a @ fph_tx_merkle_root a @ le_bytes 8 (fph_timestamp_ms a) @
       le_bytes 4 (fph_shard_id a) @ le_bytes 8 (fph_nonce a)
     = fph_latest_anchor b @ fph_tx_merkle_root b @ le_bytes 8 (fph_timestamp_ms b) @
       le_bytes 4 (fph_shard_id b) @ le_bytes 8 (fph_nonce b)"
    using concat_hashes_inject [OF t, of HASH_LEN_BYTES] a' b' by auto
  from u have f: "fph_latest_anchor a = fph_latest_anchor b" "fph_tx_merkle_root a = fph_tx_merkle_root b"
    "le_bytes 8 (fph_timestamp_ms a) = le_bytes 8 (fph_timestamp_ms b)"
    "le_bytes 4 (fph_shard_id a) = le_bytes 4 (fph_shard_id b)" "le_bytes 8 (fph_nonce a) = le_bytes 8 (fph_nonce b)"
    using a' b' by simp_all
  have "fph_version a = fph_version b" using e(1) a' b' by (intro u16_eqD) auto
  moreover have "fph_sig_type_supported a = fph_sig_type_supported b" using e(2) a' b' by (intro u16_eqD) auto
  moreover have "fph_timestamp_ms a = fph_timestamp_ms b" using f(3) a' b' by (intro u64_eqD) auto
  moreover have "fph_shard_id a = fph_shard_id b" using f(4) a' b' by (intro u32_eqD) auto
  moreover have "fph_nonce a = fph_nonce b" using f(5) a' b' by (intro u64_eqD) auto
  ultimately show ?thesis using p f(1,2) by simp
qed

lemma anchor_preimage_inject:
  assumes a: "AnchorPowHeader a = Inr a" and b: "AnchorPowHeader b = Inr b"
    and eq: "anchor_pow_preimage a = anchor_pow_preimage b"
  shows "a = b"
proof -
  note a' = a [unfolded AnchorPowHeader_iff] and b' = b [unfolded AnchorPowHeader_iff]
  from eq have e: "le_bytes 2 (aph_version a) = le_bytes 2 (aph_version b)"
    "aph_parent_anchor a = aph_parent_anchor b" "aph_fruit_set_root a = aph_fruit_set_root b"
    "aph_parent_candidate_root a = aph_parent_candidate_root b" "aph_shard_tree_state_root a = aph_shard_tree_state_root b"
    "aph_fee_floor_set_root a = aph_fee_floor_set_root b" "aph_anchor_reward_root a = aph_anchor_reward_root b"
    "le_bytes 8 (aph_timestamp_ms a) = le_bytes 8 (aph_timestamp_ms b)" "le_bytes 8 (aph_nonce a) = le_bytes 8 (aph_nonce b)"
    unfolding anchor_preimage_eq [OF a] anchor_preimage_eq [OF b] using a' b' by (simp_all only: sum.inject append_eq_append_conv length_le_bytes simp_thms)
  have "aph_version a = aph_version b" using e(1) a' b' by (intro u16_eqD) auto
  moreover have "aph_timestamp_ms a = aph_timestamp_ms b" using e(8) a' b' by (intro u64_eqD) auto
  moreover have "aph_nonce a = aph_nonce b" using e(9) a' b' by (intro u64_eqD) auto
  ultimately show ?thesis using e by simp
qed

lemma pow_preimage_ok: "pow_ok header \<Longrightarrow> \<exists>bs. pow_preimage header = Inr bs"
  by (cases header) (simp_all add: fruit_preimage_eq anchor_preimage_eq)

lemma pow_preimage_kinds:
  "FruitPowHeader a = Inr a \<Longrightarrow> AnchorPowHeader b = Inr b \<Longrightarrow> fruit_pow_preimage a \<noteq> anchor_pow_preimage b"
  by (simp add: fruit_preimage_eq anchor_preimage_eq DOMAIN_POW_CHALLENGE_FRUIT_def DOMAIN_POW_CHALLENGE_ANCHOR_def)

lemma pow_preimage_inject: "pow_ok a \<Longrightarrow> pow_ok b \<Longrightarrow> pow_preimage a = pow_preimage b \<Longrightarrow> a = b"
  using fruit_preimage_inject anchor_preimage_inject pow_preimage_kinds
  by (cases a; cases b) (auto simp: eq_commute [of "anchor_pow_preimage _" "fruit_pow_preimage _"])

subsection \<open>Nonces\<close>

lemma nonce_of_set_nonce [simp]: "nonce_of (set_nonce header n) = n"
  by (cases header) simp_all

lemma set_nonce_ok: "pow_ok header \<Longrightarrow> 0 \<le> n \<Longrightarrow> n \<le> U64_MAX \<Longrightarrow> pow_ok (set_nonce header n)"
  by (cases header) (simp_all add: FruitPowHeader_iff AnchorPowHeader_iff)

lemma mk_pow_header_ok: "pow_ok header \<Longrightarrow> mk_pow_header header = Inr header"
  by (cases header) simp_all

lemma with_nonce_eq:
  "pow_ok header \<Longrightarrow> with_nonce header n = (if 0 \<le> n \<and> n \<le> U64_MAX then Inr (set_nonce header n) else Inl ValueError)"
  by (simp add: with_nonce_def bnd_require_uint mk_pow_header_ok set_nonce_ok)

subsection \<open>The digest of a header\<close>

lemma int8_of_byte_range: "- 128 \<le> int8_of_byte b \<and> int8_of_byte b \<le> 127"
proof -
  have "- 128 \<le> uint b" using uint_ge_0 [of b] by linarith
  then show ?thesis using uint_byte_less [of b] by (simp add: int8_of_byte_def)
qed

lemma matrix_from_xof_ok: "0 < n \<Longrightarrow> \<exists>m. matrix_from_xof X d p (int n) = Inr m \<and> int8_matrix n m"
  by (auto simp: matrix_from_xof_def int8_matrix_def has_shape_def int8_of_byte_range Let_def)

lemma int8_of_byte_sint: "int8_of_byte b = sint b"
proof -
  have u: "0 \<le> uint b" "uint b < 256" using uint_byte_less by simp_all
  have "x div 128 = (if 128 \<le> x then 1 else 0)" if "0 \<le> x" "x < 256" for x :: int using that by presburger
  then have "uint b div 128 = (if 128 \<le> uint b then 1 else 0)" using u by blast
  then have "bit (uint b) 7 \<longleftrightarrow> 128 \<le> uint b" by (simp add: bit_iff_odd)
  moreover have "take_bit 8 (uint b) = uint b" using u by (simp add: take_bit_eq_mod)
  ultimately show ?thesis by (simp add: int8_of_byte_def sint_uint signed_take_bit_eq_take_bit_minus)
qed

lemma header_bytes_eq: "pow_ok header \<Longrightarrow> pow_preimage header = Inr (header_bytes header)"
  by (cases header) (simp_all add: fruit_preimage_eq anchor_preimage_eq DOMAIN_POW_CHALLENGE_FRUIT_def DOMAIN_POW_CHALLENGE_ANCHOR_def)

lemma matrix_from_xof_eq:
  "matrix_from_xof X d (header_bytes header) (int POW_MATRIX_DIM) = Inr (header_matrix X d header)"
  by (simp add: matrix_from_xof_def header_matrix_def POW_MATRIX_DIM_def Let_def int8_of_byte_sint mult.commute)

lemma build_challenge_matrices_ok:
  assumes "pow_ok header"
  shows "build_challenge_matrices X header (int POW_MATRIX_DIM) = Inr (header_matrix X 0x03 header, header_matrix X 0x04 header)"
    "int8_matrix POW_MATRIX_DIM (header_matrix X d header)"
proof -
  show "build_challenge_matrices X header (int POW_MATRIX_DIM) = Inr (header_matrix X 0x03 header, header_matrix X 0x04 header)"
    by (simp add: build_challenge_matrices_def header_bytes_eq [OF assms] matrix_from_xof_eq DOMAIN_POW_MATRIX_A_def DOMAIN_POW_MATRIX_B_def)
  have "0 < POW_MATRIX_DIM" by (simp add: POW_MATRIX_DIM_def)
  then show "int8_matrix POW_MATRIX_DIM (header_matrix X d header)"
    using matrix_from_xof_ok [of POW_MATRIX_DIM X d "header_bytes header"] matrix_from_xof_eq by auto
qed

lemma pow_digest_eq:
  "has_shape POW_MATRIX_DIM m \<Longrightarrow> pow_digest (digest_of X) m (int POW_MATRIX_DIM) =
   Inr (X (DOMAIN_POW_OUTPUT # concat (map (\<lambda>v. le_bytes 4 (v mod 2 ^ 32)) (concat m))) HASH_LEN_BYTES)"
  by (simp add: pow_digest_def canonical_output_bytes_def bnd_ensure POW_MATRIX_DIM_def POW_ACCUM_BYTES_def
      POW_ACCUM_BITS_def domain_hash_def hash_bytes_def digest_of_def)

lemma digest_for_header:
  assumes "kernel_exact T backend" "pow_ok header"
  shows "pow_digest_for_header T X header backend = Inr (header_digest X header)"
proof -
  note m = build_challenge_matrices_ok [OF assms(2)]
  have "has_shape POW_MATRIX_DIM (exact_product POW_MATRIX_DIM (header_matrix X 0x03 header) (header_matrix X 0x04 header))"
    using m(2) exact_product_shape by (simp add: int8_matrix_def)
  then show ?thesis
    using matmul_exact [OF assms(1) m(2,2)] m(1)
    by (simp add: pow_digest_for_header_def header_digest_def pow_digest_eq DOMAIN_POW_OUTPUT_def) (simp add: POW_MATRIX_DIM_def HASH_LEN_BYTES_def)
qed

lemma header_digest_length: "xof_ok X \<Longrightarrow> length (header_digest X header) = HASH_LEN_BYTES"
  by (simp add: header_digest_def xof_ok_def HASH_LEN_BYTES_def)

lemma target_allows_eq:
  "length d = HASH_LEN_BYTES \<Longrightarrow> target_allows_digest d t =
   (if length t = TARGET_BYTES then Inr (from_le d \<le> from_le t) else Inl ValueError)"
  by (simp add: target_allows_digest_def require_bytes_len_def TARGET_BYTES_def bnd_ensure)

lemma verify_pow_eq:
  assumes "kernel_exact T backend" "xof_ok X" "pow_ok header"
  shows "verify_pow T X header target backend =
    (if length target = TARGET_BYTES then Inr (from_le (header_digest X header) \<le> from_le target) else Inl ValueError)"
  using assms by (simp add: verify_pow_def digest_for_header target_allows_eq header_digest_length)

subsection \<open>The target constants\<close>

lemma from_le_zeros [simp]: "from_le (replicate n 0) = 0"
  by (induction n) simp_all

lemma fruit_target_value: "from_le FRUIT_TARGET_LE = 41443603034148886846281854012235070008371345899778976453371998074429958084377"
  by (simp add: FRUIT_TARGET_LE_def)

lemma anchor_target_value: "from_le ANCHOR_INITIAL_TARGET_LE = 41443603034148886846281854012235070008371345899778976453371998074429958084"
  by (simp add: ANCHOR_INITIAL_TARGET_LE_def)

lemma anchor_min_value: "from_le ANCHOR_MIN_TARGET_LE = 1"
  by (simp add: ANCHOR_MIN_TARGET_LE_def zero_bytes_def)

subsection \<open>An example\<close>

lemma example_pow_ok: "xof_ok example_xof" "pow_ok example_fruit_pow"
  by (simp_all add: xof_ok_def example_xof_def example_fruit_pow_def FruitPowHeader_iff U16_MAX_def U32_MAX_def U64_MAX_def
      HASH_LEN_BYTES_def zero_bytes_def SIG_TYPE_ED25519_BIT_def SIG_TYPE_ED25519_def)

section \<open>Properties\<close>

text \<open>(C30) Every valid header has a preimage and no two have the same: preimages determine the kind of
  header, all of its fields and the nonce, so no two proofs of work share a challenge by encoding.\<close>

theorem pow_preimage_injective:
  assumes "pow_ok a" "pow_ok b"
  shows "is_ok (pow_preimage a) \<and> (pow_preimage a = pow_preimage b \<longleftrightarrow> a = b) \<and>
    (\<forall>m n. 0 \<le> m \<and> m \<le> U64_MAX \<and> 0 \<le> n \<and> n \<le> U64_MAX \<longrightarrow>
       (\<exists>c d. with_nonce a m = Inr c \<and> with_nonce a n = Inr d \<and> (pow_preimage c = pow_preimage d \<longleftrightarrow> m = n)))"
proof (intro conjI allI impI)
  show "is_ok (pow_preimage a)" using pow_preimage_ok [OF assms(1)] by (auto simp: is_ok_iff)
  show "pow_preimage a = pow_preimage b \<longleftrightarrow> a = b" using pow_preimage_inject assms by blast
next
  fix m n assume r: "0 \<le> m \<and> m \<le> U64_MAX \<and> 0 \<le> n \<and> n \<le> U64_MAX"
  have "pow_preimage (set_nonce a m) = pow_preimage (set_nonce a n) \<longleftrightarrow> m = n"
    using pow_preimage_inject [OF set_nonce_ok set_nonce_ok] assms(1) r by (metis nonce_of_set_nonce)
  then show "\<exists>c d. with_nonce a m = Inr c \<and> with_nonce a n = Inr d \<and> (pow_preimage c = pow_preimage d \<longleftrightarrow> m = n)"
    using with_nonce_eq [OF assms(1)] r by simp
qed

theorem pow_preimage_injective_witness:
  "is_ok (pow_preimage example_fruit_pow) \<and>
   (\<exists>c d. with_nonce example_fruit_pow 1 = Inr c \<and> with_nonce example_fruit_pow 2 = Inr d \<and> pow_preimage c \<noteq> pow_preimage d)"
proof -
  note inj = pow_preimage_injective [OF example_pow_ok(2) example_pow_ok(2)]
  have "(0::int) \<le> 1 \<and> 1 \<le> U64_MAX \<and> (0::int) \<le> 2 \<and> 2 \<le> U64_MAX" by (simp add: U64_MAX_def)
  then have "\<exists>c d. with_nonce example_fruit_pow 1 = Inr c \<and> with_nonce example_fruit_pow 2 = Inr d \<and>
      (pow_preimage c = pow_preimage d \<longleftrightarrow> (1::int) = 2)"
    using inj by blast
  then show ?thesis using inj by auto
qed

text \<open>(C29) Verifying a proof answers what the protocol defines. On a backend whose torch call computes the product modulo
  \<open>2 ^ 32\<close>, \<open>verify_pow\<close> on a valid header and a target of 32 bytes compares, as little-endian integers, the target with
  the digest of the exact product of the two matrices read off the header; a target of another length is a
  \<open>ValueError\<close>. On a build without a usable \<open>torch._int_mm\<close>, the documented int32 product is enough for this
  on the CPU backend.\<close>

theorem verify_pow_exact:
  assumes "xof_ok X" "pow_ok header" "kernel_exact T backend \<or> (backend = ''cpu'' \<and> int32_matmul_ok T \<and> cpu_int_mm_available T \<noteq> Inr True)"
  shows "verify_pow T X header target backend =
    (if length target = 32 then Inr (from_le (header_digest X header) \<le> from_le target) else Inl ValueError)"
proof -
  have "kernel_exact T backend" using assms(3) cpu_fallback_exact [of T] cpu_probe_eq [of T] by auto
  then show ?thesis using verify_pow_eq [OF _ assms(1,2)] by (simp add: TARGET_BYTES_def HASH_LEN_BYTES_def)
qed

theorem verify_pow_exact_witness:
  "verify_pow example_torch example_xof example_fruit_pow FRUIT_TARGET_LE ''auto'' = Inr True \<and>
   verify_pow broken_torch example_xof example_fruit_pow FRUIT_TARGET_LE ''cpu'' = Inr True \<and>
   verify_pow broken_torch example_xof example_fruit_pow [] ''cpu'' = Inl ValueError"
proof -
  have t: "length FRUIT_TARGET_LE = 32" by (simp add: FRUIT_TARGET_LE_def)
  have zero: "header_digest example_xof h = replicate 32 0" for h by (simp add: header_digest_def example_xof_def)
  have b: "cpu_int_mm_available broken_torch \<noteq> Inr True" using broken_probe by simp
  show ?thesis
    using verify_pow_exact [OF example_pow_ok, of example_torch "''auto''" FRUIT_TARGET_LE] example_kernel_exact(1)
      verify_pow_exact [OF example_pow_ok, of broken_torch "''cpu''"] example_torch_ok(2) b
    by (simp add: t zero)
qed

text \<open>The target constants are the ones the protocol defines: the fruit target is the whole digest
  space scaled by the operations of one product over the work of a fruit, rounded down; the initial
  anchor target is the fruit target over the anchor multiplier; and the anchor targets are ordered.\<close>

theorem target_constants:
  "from_le FRUIT_TARGET_LE = (2 ^ 256 - 1) * int POW_OPS_PER_MATMUL div FRUIT_WORK_OPS \<and>
   from_le ANCHOR_INITIAL_TARGET_LE = from_le FRUIT_TARGET_LE div ANCHOR_WORK_MULTIPLIER \<and>
   0 < from_le ANCHOR_MIN_TARGET_LE \<and> from_le ANCHOR_MIN_TARGET_LE \<le> from_le ANCHOR_INITIAL_TARGET_LE \<and>
   from_le ANCHOR_INITIAL_TARGET_LE \<le> from_le ANCHOR_MAX_TARGET_LE \<and> length FRUIT_TARGET_LE = TARGET_BYTES"
  unfolding fruit_target_value anchor_target_value anchor_min_value ANCHOR_MAX_TARGET_LE_def
  by (simp add: POW_OPS_PER_MATMUL_def POW_OPS_PER_MAC_def POW_MATRIX_DIM_def FRUIT_WORK_OPS_def
      ANCHOR_WORK_MULTIPLIER_def TARGET_BYTES_def HASH_LEN_BYTES_def FRUIT_TARGET_LE_def)

end
