(* ===== verification/Pow_Miner.thy ===== *)
theory Pow_Miner
  imports Pow_Challenge
begin

text \<open>
  \<^verbatim>\<open>src/src/tensorpow/pow/miner.py\<close>: the nonce search.

  The stop event is set by another thread at any time: \<open>stop i\<close> is the answer of the \<open>i\<close>-th call of
  \<open>is_set\<close>, an arbitrary function. The wall-clock field \<open>elapsed_seconds\<close> of a result is left out. The
  search ends because nonces stay below \<open>2 ^ 64\<close>: the termination proof is a result about the loop.
\<close>

section \<open>Definitions\<close>

record found_nonce =
  fn_header :: pow_header
  fn_nonce :: int
  fn_digest :: bytes
  fn_attempts :: int
  fn_backend :: string

function mine_loop ::
  "torch \<Rightarrow> xof \<Rightarrow> pow_header \<Rightarrow> bytes \<Rightarrow> (nat \<Rightarrow> bool) \<Rightarrow> string \<Rightarrow> int option \<Rightarrow> int \<Rightarrow> int \<Rightarrow> nat \<Rightarrow>
   found_nonce option res" where
  "mine_loop T X template target stop backend max_nonce nonce attempts calls =
     (if max_nonce = None \<or> nonce \<le> the max_nonce then
        if stop calls then Inr None
        else
          bnd (with_nonce template nonce) (\<lambda>header.
          bnd (pow_digest_for_header T X header backend) (\<lambda>digest.
          bnd (target_allows_digest digest target) (\<lambda>allowed.
          if allowed then
            Inr (Some \<lparr>fn_header = header, fn_nonce = nonce, fn_digest = digest, fn_attempts = attempts + 1,
              fn_backend = backend\<rparr>)
          else if stop (calls + 1) then Inr None
          else if nonce = U64_MAX then Inr None
          else mine_loop T X template target stop backend max_nonce (nonce + 1) (attempts + 1) (calls + 2))))
      else Inr None)"
  by pat_completeness auto
termination
  by (relation "measure (\<lambda>(_, _, _, _, _, _, _, nonce, _, _). nat (U64_MAX - nonce))")
    (auto simp: with_nonce_def bnd_Inr_iff)

definition mine ::
  "torch \<Rightarrow> xof \<Rightarrow> pow_header \<Rightarrow> bytes \<Rightarrow> (nat \<Rightarrow> bool) \<Rightarrow> string \<Rightarrow> int \<Rightarrow> int option \<Rightarrow> found_nonce option res" where
  "mine T X template target stop backend start_nonce max_nonce =
     bnd (ensure (0 \<le> start_nonce \<and> start_nonce \<le> U64_MAX) ValueError) (\<lambda>_.
     bnd (case max_nonce of None \<Rightarrow> Inr ()
          | Some m \<Rightarrow> ensure (start_nonce \<le> m \<and> m \<le> U64_MAX) ValueError) (\<lambda>_.
     bnd (target_allows_digest (zero_bytes HASH_LEN_BYTES) target) (\<lambda>_.
     bnd (resolve_backend T backend) (\<lambda>resolved_backend.
     mine_loop T X template target stop resolved_backend max_nonce start_nonce 0 0))))"

declare mine_loop.simps [simp del]

section \<open>Specification\<close>

text \<open>A nonce solves a template when the header with this nonce meets the target; the last nonce the
  search may try.\<close>

definition solves :: "xof \<Rightarrow> pow_header \<Rightarrow> bytes \<Rightarrow> int \<Rightarrow> bool" where
  "solves X template target n \<longleftrightarrow> from_le (header_digest X (set_nonce template n)) \<le> from_le target"

definition last_nonce :: "int option \<Rightarrow> int" where
  "last_nonce max_nonce = (case max_nonce of None \<Rightarrow> U64_MAX | Some m \<Rightarrow> m)"

definition found_at :: "xof \<Rightarrow> pow_header \<Rightarrow> string \<Rightarrow> int \<Rightarrow> int \<Rightarrow> found_nonce" where
  "found_at X template backend start n =
     \<lparr>fn_header = set_nonce template n, fn_nonce = n, fn_digest = header_digest X (set_nonce template n),
      fn_attempts = n - start + 1, fn_backend = backend\<rparr>"

text \<open>What a search from nonce \<open>n\<close> up to \<open>lst\<close> may return: the first solution, or nothing, and nothing
  only if a later call of \<open>is_set\<close> says so or the range holds no solution.\<close>

definition mine_outcome ::
  "xof \<Rightarrow> pow_header \<Rightarrow> bytes \<Rightarrow> (nat \<Rightarrow> bool) \<Rightarrow> string \<Rightarrow> int \<Rightarrow> int \<Rightarrow> int \<Rightarrow> nat \<Rightarrow> found_nonce option res \<Rightarrow> bool" where
  "mine_outcome X template target stop backend lst start n calls r \<longleftrightarrow>
     (\<exists>f. n \<le> f \<and> f \<le> lst \<and> solves X template target f \<and> (\<forall>i. n \<le> i \<and> i < f \<longrightarrow> \<not> solves X template target i)
        \<and> r = Inr (Some (found_at X template backend start f))) \<or>
     (r = Inr None \<and>
        ((\<exists>i \<ge> calls. stop i) \<or> (\<forall>i. n \<le> i \<and> i \<le> lst \<longrightarrow> \<not> solves X template target i)))"

section \<open>Lemmas\<close>

lemma resolve_backend_idem: "resolve_backend T b = Inr r \<Longrightarrow> resolve_backend T r = Inr r"
  by (auto simp: resolve_backend_def bnd_Inr_iff split: if_splits)

lemma kernel_exact_resolved: "kernel_exact T b \<Longrightarrow> resolve_backend T b = Inr r \<Longrightarrow> kernel_exact T r"
  using resolve_backend_idem [of T b r] by (auto simp: kernel_exact_def)

lemma mine_loop_step:
  assumes "kernel_exact T backend" "xof_ok X" "pow_ok template" "length target = TARGET_BYTES"
    "resolve_backend T backend = Inr backend" "0 \<le> n" "n \<le> last_nonce mx" "last_nonce mx \<le> U64_MAX"
  shows "mine_loop T X template target stop backend mx n att calls =
    (if stop calls then Inr None
     else if solves X template target n then
       Inr (Some (found_at X template backend (n - att) n))
     else if stop (calls + 1) then Inr None
     else if n = U64_MAX then Inr None
     else mine_loop T X template target stop backend mx (n + 1) (att + 1) (calls + 2))"
proof -
  have r: "mx = None \<or> n \<le> the mx" "n \<le> U64_MAX" using assms(7,8) by (auto simp: last_nonce_def split: option.splits)
  have "with_nonce template n = Inr (set_nonce template n)" using with_nonce_eq assms(3,6) r(2) by simp
  moreover have "pow_digest_for_header T X (set_nonce template n) backend = Inr (header_digest X (set_nonce template n))"
    using assms(1,3,6) r(2) by (intro digest_for_header set_nonce_ok)
  moreover have "target_allows_digest (header_digest X (set_nonce template n)) target = Inr (solves X template target n)"
    using assms(2,4) by (simp add: target_allows_eq header_digest_length solves_def)
  ultimately show ?thesis
    using r by (subst mine_loop.simps) (simp add: found_at_def)
qed

lemma mine_loop_beyond: "last_nonce mx < n \<Longrightarrow> n \<le> U64_MAX \<Longrightarrow> mine_loop T X template target stop backend mx n att calls = Inr None"
  by (subst mine_loop.simps) (auto simp: last_nonce_def split: option.splits)

lemma outcome_here:
  "solves X template target n \<Longrightarrow> n \<le> lst \<Longrightarrow>
   mine_outcome X template target stop backend lst start n calls (Inr (Some (found_at X template backend start n)))"
  by (auto simp: mine_outcome_def)

lemma outcome_stopped:
  "stop i \<Longrightarrow> calls \<le> i \<Longrightarrow> mine_outcome X template target stop backend lst start n calls (Inr None)"
  by (auto simp: mine_outcome_def)

lemma outcome_exhausted:
  "lst < n \<or> (lst = n \<and> \<not> solves X template target n) \<Longrightarrow>
   mine_outcome X template target stop backend lst start n calls (Inr None)"
  by (auto simp: mine_outcome_def)

lemma outcome_later:
  assumes "\<not> solves X template target n"
    and "mine_outcome X template target stop backend lst start (n + 1) (calls + 2) r"
  shows "mine_outcome X template target stop backend lst start n calls r"
proof -
  have gap: "(\<forall>i. n + 1 \<le> i \<and> P i \<longrightarrow> \<not> solves X template target i) \<Longrightarrow>
      (\<forall>i. n \<le> i \<and> P i \<longrightarrow> \<not> solves X template target i)" for P
    using assms(1) by (metis add1_zle_eq order.order_iff_strict)
  from assms(2) consider (found) f where "n + 1 \<le> f" "f \<le> lst" "solves X template target f"
      "\<forall>i. n + 1 \<le> i \<and> i < f \<longrightarrow> \<not> solves X template target i" "r = Inr (Some (found_at X template backend start f))"
    | (stopped) i where "r = Inr None" "calls + 2 \<le> i" "stop i"
    | (none) "r = Inr None" "\<forall>i. n + 1 \<le> i \<and> i \<le> lst \<longrightarrow> \<not> solves X template target i"
    unfolding mine_outcome_def by blast
  then show ?thesis
  proof cases
    case found
    then show ?thesis using gap [of "\<lambda>i. i < f"] unfolding mine_outcome_def by (intro disjI1 exI [of _ f]) auto
  next
    case stopped
    then show ?thesis using outcome_stopped [of stop i calls] by simp
  next
    case none
    then show ?thesis using gap [of "\<lambda>i. i \<le> lst"] unfolding mine_outcome_def by auto
  qed
qed

lemma mine_loop_outcome:
  assumes ok: "kernel_exact T backend" "xof_ok X" "pow_ok template" "length target = TARGET_BYTES"
    "resolve_backend T backend = Inr backend" and n: "0 \<le> n" "n \<le> U64_MAX" "last_nonce mx \<le> U64_MAX"
  shows "mine_outcome X template target stop backend (last_nonce mx) (n - att) n calls
    (mine_loop T X template target stop backend mx n att calls)"
  using n
proof (induction "nat (U64_MAX - n)" arbitrary: n att calls rule: less_induct)
  case less
  note step = mine_loop_step [OF ok less.prems(1) _ less.prems(3), of stop att calls]
  consider "last_nonce mx < n" | "n \<le> last_nonce mx" "stop calls"
    | "n \<le> last_nonce mx" "\<not> stop calls" "solves X template target n"
    | "n \<le> last_nonce mx" "\<not> stop calls" "\<not> solves X template target n" "stop (calls + 1)"
    | "n \<le> last_nonce mx" "\<not> stop calls" "\<not> solves X template target n" "\<not> stop (calls + 1)" "n = U64_MAX"
    | (go) "n \<le> last_nonce mx" "\<not> stop calls" "\<not> solves X template target n" "\<not> stop (calls + 1)" "n \<noteq> U64_MAX"
    by linarith
  then show ?case
  proof cases
    case go
    have "mine_outcome X template target stop backend (last_nonce mx) (n + 1 - (att + 1)) (n + 1) (calls + 2)
        (mine_loop T X template target stop backend mx (n + 1) (att + 1) (calls + 2))"
      using less.prems go by (intro less.hyps) auto
    then show ?thesis using step [OF go(1)] go outcome_later [OF go(3)] by simp
  qed (use step less.prems mine_loop_beyond outcome_here outcome_stopped [of stop calls calls]
      outcome_stopped [of stop "calls + 1" calls] outcome_exhausted in auto)
qed

section \<open>Properties\<close>

text \<open>(C23) The nonce search ends and raises nothing on valid input. If it finds a nonce, the header it
  returns carries this nonce, verifies against the target, lies in the range, counts its attempts
  right, and every smaller nonce of the range fails. If it finds none, it was stopped or no nonce of
  the range solves the template.\<close>

theorem mine_finds_first_solution:
  assumes "kernel_exact T backend" "xof_ok X" "pow_ok template" "length target = TARGET_BYTES"
    and "resolve_backend T backend = Inr r" "0 \<le> start" "start \<le> U64_MAX"
    and "case mx of None \<Rightarrow> True | Some m \<Rightarrow> start \<le> m \<and> m \<le> U64_MAX"
  shows "(\<exists>f. mine T X template target stop backend start mx = Inr (Some f) \<and>
      start \<le> fn_nonce f \<and> fn_nonce f \<le> last_nonce mx \<and> fn_attempts f = fn_nonce f - start + 1 \<and>
      with_nonce template (fn_nonce f) = Inr (fn_header f) \<and> verify_pow T X (fn_header f) target backend = Inr True \<and>
      (\<forall>i. start \<le> i \<and> i < fn_nonce f \<longrightarrow> verify_pow T X (set_nonce template i) target backend = Inr False)) \<or>
    (mine T X template target stop backend start mx = Inr None \<and>
      ((\<exists>i. stop i) \<or>
       (\<forall>i. start \<le> i \<and> i \<le> last_nonce mx \<longrightarrow> verify_pow T X (set_nonce template i) target backend = Inr False)))"
proof -
  have lst: "last_nonce mx \<le> U64_MAX" using assms(8) by (simp add: last_nonce_def split: option.splits)
  have ver: "verify_pow T X (set_nonce template i) target backend = Inr (solves X template target i)"
    if "start \<le> i" "i \<le> last_nonce mx" for i
    using that assms(1-6) lst by (simp add: verify_pow_eq set_nonce_ok solves_def)
  have m: "mine T X template target stop backend start mx = mine_loop T X template target stop r mx start 0 0"
    using assms(4-8) by (simp add: mine_def bnd_ensure target_allows_eq zero_bytes_def split: option.splits)
  have "mine_outcome X template target stop r (last_nonce mx) start start 0 (mine T X template target stop backend start mx)"
    using mine_loop_outcome [OF kernel_exact_resolved [OF assms(1,5)] assms(2-4) resolve_backend_idem [OF assms(5)] assms(6,7) lst, of stop 0 0] m by simp
  then consider (found) f where "start \<le> f" "f \<le> last_nonce mx" "solves X template target f"
      "\<forall>i. start \<le> i \<and> i < f \<longrightarrow> \<not> solves X template target i"
      "mine T X template target stop backend start mx = Inr (Some (found_at X template r start f))"
    | (none) "mine T X template target stop backend start mx = Inr None"
      "(\<exists>i. stop i) \<or> (\<forall>i. start \<le> i \<and> i \<le> last_nonce mx \<longrightarrow> \<not> solves X template target i)"
    unfolding mine_outcome_def by blast
  then show ?thesis
  proof cases
    case found
    then have "with_nonce template f = Inr (set_nonce template f)" using with_nonce_eq assms(3,6) lst by simp
    then show ?thesis using found ver by (intro disjI1 exI [of _ "found_at X template r start f"]) (simp add: found_at_def)
  next
    case none
    then show ?thesis using ver by auto
  qed
qed

theorem mine_finds_first_solution_witness:
  "\<exists>f. mine example_torch example_xof example_fruit_pow FRUIT_TARGET_LE (\<lambda>_. False) ''auto'' 7 None = Inr (Some f) \<and>
    fn_nonce f = 7 \<and> fn_attempts f = 1 \<and>
    verify_pow example_torch example_xof (fn_header f) FRUIT_TARGET_LE ''auto'' = Inr True"
proof -
  let ?m = "mine example_torch example_xof example_fruit_pow FRUIT_TARGET_LE (\<lambda>_. False) ''auto'' 7 None"
  have t: "length FRUIT_TARGET_LE = TARGET_BYTES" by (simp add: FRUIT_TARGET_LE_def TARGET_BYTES_def HASH_LEN_BYTES_def)
  have zero: "header_digest example_xof h = replicate 32 0" for h
    by (simp add: header_digest_def example_xof_def)
  have ver: "verify_pow example_torch example_xof (set_nonce example_fruit_pow 7) FRUIT_TARGET_LE ''auto'' = Inr True"
    using verify_pow_eq [OF example_kernel_exact(1) example_pow_ok(1) set_nonce_ok [OF example_pow_ok(2)], of 7 FRUIT_TARGET_LE] t
    by (simp add: zero U64_MAX_def)
  have "(7::int) \<le> U64_MAX" by (simp add: U64_MAX_def)
  with mine_finds_first_solution [OF example_kernel_exact(1) example_pow_ok(1,2) t example_resolves(1), of 7 None "\<lambda>_. False"] ver
  obtain f where f: "?m = Inr (Some f)" "7 \<le> fn_nonce f" "fn_attempts f = fn_nonce f - 7 + 1"
    "verify_pow example_torch example_xof (fn_header f) FRUIT_TARGET_LE ''auto'' = Inr True"
    "\<forall>i. 7 \<le> i \<and> i < fn_nonce f \<longrightarrow>
      verify_pow example_torch example_xof (set_nonce example_fruit_pow i) FRUIT_TARGET_LE ''auto'' = Inr False"
    by (auto simp: last_nonce_def)
  have "fn_nonce f = 7" using f(2,5) ver by (cases "7 < fn_nonce f") auto
  then show ?thesis using f by auto
qed

end
