(* ===== verification/Headers.thy ===== *)
theory Headers
  imports Shard_Tree Pow_Challenge
begin

text \<open>
  \<^verbatim>\<open>src/src/tensorpow/chain/headers.py\<close>: fruit and anchor headers, their byte layout, the parents that a
  fruit's bitmap selects and the proof-of-work headers derived from them.

  A header is a record; \<open>FruitHeader\<close> and \<open>AnchorHeader\<close> are the checks of \<open>__post_init__\<close>, and
  \<open>fruit_header_ok\<close> and \<open>anchor_header_ok\<close> say that a record passes them, which bounds every length
  the encoders write.
\<close>

section \<open>Definitions\<close>

definition PARENT_BITMAP_MAX_BYTES :: nat where "PARENT_BITMAP_MAX_BYTES = 1250"

definition hdr_bytes :: "reader \<Rightarrow> int \<Rightarrow> (bytes \<times> reader) res" where
  "hdr_bytes = rd_bytes HeaderDecodeError"

definition hdr_uint :: "int \<Rightarrow> reader \<Rightarrow> (int \<times> reader) res" where
  "hdr_uint = rd_uint HeaderDecodeError"

definition hdr_finish :: "reader \<Rightarrow> unit res" where
  "hdr_finish = rd_finish HeaderDecodeError"

definition hdr_require_format_epoch :: "int \<Rightarrow> unit res" where
  "hdr_require_format_epoch value =
     bnd (require_uint value U16_MAX) (\<lambda>_. ensure (value = FORMAT_EPOCH) ValueError)"

definition require_sig_mask :: "int \<Rightarrow> unit res" where
  "require_sig_mask value =
     bnd (require_uint value U16_MAX) (\<lambda>_. ensure (value = SIG_TYPE_ED25519_BIT) ValueError)"

definition hdr_require_shard_id :: "int \<Rightarrow> unit res" where
  "hdr_require_shard_id value =
     bnd (require_uint value U32_MAX) (\<lambda>_.
     let depth = drop_bit SHARD_ID_DEPTH_SHIFT value;
         path = value AND (push_bit SHARD_ID_DEPTH_SHIFT 1 - 1) in
     bnd (ensure (\<not> depth > SHARD_MAX_DEPTH) ValueError) (\<lambda>_.
     ensure (\<not> path \<ge> push_bit (nat depth) 1) ValueError))"

definition hdr_require_bytes :: "bytes \<Rightarrow> nat \<Rightarrow> unit res" where
  "hdr_require_bytes value max_len = ensure (\<not> length value > max_len) ValueError"

subsection \<open>Fruit headers\<close>

record fruit_header =
  fh_version :: int
  fh_sig_type_supported :: int
  fh_parent_selected :: bytes
  fh_parent_bitmap :: bytes
  fh_latest_anchor :: bytes
  fh_tx_merkle_root :: bytes
  fh_timestamp_ms :: int
  fh_shard_id :: int
  fh_nonce :: int

definition FruitHeader :: "fruit_header \<Rightarrow> fruit_header res" where
  "FruitHeader h =
     bnd (hdr_require_format_epoch (fh_version h)) (\<lambda>_.
     bnd (require_sig_mask (fh_sig_type_supported h)) (\<lambda>_.
     bnd (require_hash (fh_parent_selected h)) (\<lambda>_.
     bnd (hdr_require_bytes (fh_parent_bitmap h) PARENT_BITMAP_MAX_BYTES) (\<lambda>_.
     bnd (require_hash (fh_latest_anchor h)) (\<lambda>_.
     bnd (require_hash (fh_tx_merkle_root h)) (\<lambda>_.
     bnd (require_uint (fh_timestamp_ms h) U64_MAX) (\<lambda>_.
     bnd (hdr_require_shard_id (fh_shard_id h)) (\<lambda>_.
     bnd (require_uint (fh_nonce h) U64_MAX) (\<lambda>_. Inr h)))))))))"

definition serialize_fruit_header :: "fruit_header \<Rightarrow> bytes" where
  "serialize_fruit_header h =
     le_bytes U16_BYTES (fh_version h)
     @ le_bytes U16_BYTES (fh_sig_type_supported h)
     @ fh_parent_selected h
     @ le_bytes U16_BYTES (int (length (fh_parent_bitmap h)))
     @ fh_parent_bitmap h
     @ fh_latest_anchor h
     @ fh_tx_merkle_root h
     @ le_bytes U64_BYTES (fh_timestamp_ms h)
     @ le_bytes U32_BYTES (fh_shard_id h)
     @ le_bytes U64_BYTES (fh_nonce h)"

definition read_fruit_header :: "reader \<Rightarrow> (fruit_header \<times> reader) res" where
  "read_fruit_header r =
     bnd (hdr_uint (int U16_BYTES) r) (\<lambda>(version, r).
     bnd (hdr_uint (int U16_BYTES) r) (\<lambda>(sig_type_supported, r).
     bnd (hdr_bytes r (int HASH_LEN_BYTES)) (\<lambda>(parent_selected, r).
     bnd (hdr_uint (int U16_BYTES) r) (\<lambda>(bitmap_len, r).
     bnd (hdr_bytes r bitmap_len) (\<lambda>(parent_bitmap, r).
     bnd (hdr_bytes r (int HASH_LEN_BYTES)) (\<lambda>(latest_anchor, r).
     bnd (hdr_bytes r (int HASH_LEN_BYTES)) (\<lambda>(tx_merkle_root, r).
     bnd (hdr_uint (int U64_BYTES) r) (\<lambda>(timestamp_ms, r).
     bnd (hdr_uint (int U32_BYTES) r) (\<lambda>(shard_id, r).
     bnd (hdr_uint (int U64_BYTES) r) (\<lambda>(nonce, r).
     Inr (\<lparr>fh_version = version, fh_sig_type_supported = sig_type_supported, fh_parent_selected = parent_selected,
       fh_parent_bitmap = parent_bitmap, fh_latest_anchor = latest_anchor, fh_tx_merkle_root = tx_merkle_root,
       fh_timestamp_ms = timestamp_ms, fh_shard_id = shard_id, fh_nonce = nonce\<rparr>, r)))))))))))"

definition deserialize_fruit_header :: "bytes \<Rightarrow> fruit_header res" where
  "deserialize_fruit_header data =
     bnd (read_fruit_header (reader_of data)) (\<lambda>(h, r).
     bnd (hdr_finish r) (\<lambda>_.
     wrap_error HeaderDecodeError (FruitHeader h)))"

definition fruit_header_hash :: "hash_fn \<Rightarrow> fruit_header \<Rightarrow> bytes" where
  "fruit_header_hash H h = domain_hash H DOMAIN_FRUIT_HEADER (serialize_fruit_header h)"

text \<open>\<open>bitmap[i // 8] & (1 << (i % 8))\<close>\<close>

definition bitmap_bit :: "bytes \<Rightarrow> nat \<Rightarrow> bool" where
  "bitmap_bit bitmap i \<longleftrightarrow> bitmap ! (i div 8) AND push_bit (i mod 8) 1 \<noteq> 0"

definition has_bits_beyond :: "bytes \<Rightarrow> nat \<Rightarrow> bool" where
  "has_bits_beyond bitmap candidate_count \<longleftrightarrow> (\<exists>i \<in> set [candidate_count..<length bitmap * 8]. bitmap_bit bitmap i)"

definition effective_parent_hashes :: "fruit_header \<Rightarrow> bytes list \<Rightarrow> bytes list res" where
  "effective_parent_hashes h parent_candidates =
     bnd (each require_hash parent_candidates) (\<lambda>_.
     let selected = fh_parent_selected h #
       map snd (filter (\<lambda>(index, candidate). index div 8 < length (fh_parent_bitmap h)
                          \<and> bitmap_bit (fh_parent_bitmap h) index) (enumerate 0 parent_candidates)) in
     bnd (ensure (\<not> has_bits_beyond (fh_parent_bitmap h) (length parent_candidates)) ValueError) (\<lambda>_.
     bnd (ensure (card (set selected) = length selected) ValueError) (\<lambda>_.
     Inr selected)))"

definition fruit_to_pow_header :: "fruit_header \<Rightarrow> bytes list \<Rightarrow> pow_header res" where
  "fruit_to_pow_header h parent_candidates =
     bnd (effective_parent_hashes h parent_candidates) (\<lambda>parents.
     mk_pow_header (FruitPow
       \<lparr>fph_version = fh_version h, fph_sig_type_supported = fh_sig_type_supported h,
        fph_effective_parent_hashes = parents, fph_latest_anchor = fh_latest_anchor h,
        fph_tx_merkle_root = fh_tx_merkle_root h, fph_timestamp_ms = fh_timestamp_ms h,
        fph_shard_id = fh_shard_id h, fph_nonce = fh_nonce h\<rparr>))"

subsection \<open>Anchor headers\<close>

record anchor_header =
  ah_version :: int
  ah_parent_anchor :: bytes
  ah_fruit_set_root :: bytes
  ah_parent_candidate_root :: bytes
  ah_shard_tree_state_root :: bytes
  ah_fee_floor_set_root :: bytes
  ah_anchor_reward_root :: bytes
  ah_timestamp_ms :: int
  ah_nonce :: int

definition AnchorHeader :: "anchor_header \<Rightarrow> anchor_header res" where
  "AnchorHeader h =
     bnd (hdr_require_format_epoch (ah_version h)) (\<lambda>_.
     bnd (require_hash (ah_parent_anchor h)) (\<lambda>_.
     bnd (require_hash (ah_fruit_set_root h)) (\<lambda>_.
     bnd (require_hash (ah_parent_candidate_root h)) (\<lambda>_.
     bnd (require_hash (ah_shard_tree_state_root h)) (\<lambda>_.
     bnd (require_hash (ah_fee_floor_set_root h)) (\<lambda>_.
     bnd (require_hash (ah_anchor_reward_root h)) (\<lambda>_.
     bnd (require_uint (ah_timestamp_ms h) U64_MAX) (\<lambda>_.
     bnd (require_uint (ah_nonce h) U64_MAX) (\<lambda>_. Inr h)))))))))"

definition serialize_anchor_header :: "anchor_header \<Rightarrow> bytes" where
  "serialize_anchor_header h =
     le_bytes U16_BYTES (ah_version h)
     @ ah_parent_anchor h
     @ ah_fruit_set_root h
     @ ah_parent_candidate_root h
     @ ah_shard_tree_state_root h
     @ ah_fee_floor_set_root h
     @ ah_anchor_reward_root h
     @ le_bytes U64_BYTES (ah_timestamp_ms h)
     @ le_bytes U64_BYTES (ah_nonce h)"

definition read_anchor_header :: "reader \<Rightarrow> (anchor_header \<times> reader) res" where
  "read_anchor_header r =
     bnd (hdr_uint (int U16_BYTES) r) (\<lambda>(version, r).
     bnd (hdr_bytes r (int HASH_LEN_BYTES)) (\<lambda>(parent_anchor, r).
     bnd (hdr_bytes r (int HASH_LEN_BYTES)) (\<lambda>(fruit_set_root, r).
     bnd (hdr_bytes r (int HASH_LEN_BYTES)) (\<lambda>(parent_candidate_root, r).
     bnd (hdr_bytes r (int HASH_LEN_BYTES)) (\<lambda>(shard_tree_state_root, r).
     bnd (hdr_bytes r (int HASH_LEN_BYTES)) (\<lambda>(fee_floor_set_root, r).
     bnd (hdr_bytes r (int HASH_LEN_BYTES)) (\<lambda>(anchor_reward_root, r).
     bnd (hdr_uint (int U64_BYTES) r) (\<lambda>(timestamp_ms, r).
     bnd (hdr_uint (int U64_BYTES) r) (\<lambda>(nonce, r).
     Inr (\<lparr>ah_version = version, ah_parent_anchor = parent_anchor, ah_fruit_set_root = fruit_set_root,
       ah_parent_candidate_root = parent_candidate_root, ah_shard_tree_state_root = shard_tree_state_root,
       ah_fee_floor_set_root = fee_floor_set_root, ah_anchor_reward_root = anchor_reward_root,
       ah_timestamp_ms = timestamp_ms, ah_nonce = nonce\<rparr>, r))))))))))"

definition deserialize_anchor_header :: "bytes \<Rightarrow> anchor_header res" where
  "deserialize_anchor_header data =
     bnd (read_anchor_header (reader_of data)) (\<lambda>(h, r).
     bnd (hdr_finish r) (\<lambda>_.
     wrap_error HeaderDecodeError (AnchorHeader h)))"

definition anchor_header_hash :: "hash_fn \<Rightarrow> anchor_header \<Rightarrow> bytes" where
  "anchor_header_hash H h = domain_hash H DOMAIN_ANCHOR_HEADER (serialize_anchor_header h)"

definition anchor_to_pow_header :: "anchor_header \<Rightarrow> pow_header res" where
  "anchor_to_pow_header h =
     mk_pow_header (AnchorPow
       \<lparr>aph_version = ah_version h, aph_parent_anchor = ah_parent_anchor h,
        aph_fruit_set_root = ah_fruit_set_root h, aph_parent_candidate_root = ah_parent_candidate_root h,
        aph_shard_tree_state_root = ah_shard_tree_state_root h, aph_fee_floor_set_root = ah_fee_floor_set_root h,
        aph_anchor_reward_root = ah_anchor_reward_root h, aph_timestamp_ms = ah_timestamp_ms h,
        aph_nonce = ah_nonce h\<rparr>)"

section \<open>Specification\<close>

definition fruit_header_ok :: "fruit_header \<Rightarrow> bool" where
  "fruit_header_ok h \<longleftrightarrow> fh_version h = FORMAT_EPOCH \<and> fh_sig_type_supported h = SIG_TYPE_ED25519_BIT
     \<and> length (fh_parent_selected h) = HASH_LEN_BYTES \<and> length (fh_parent_bitmap h) \<le> PARENT_BITMAP_MAX_BYTES
     \<and> length (fh_latest_anchor h) = HASH_LEN_BYTES \<and> length (fh_tx_merkle_root h) = HASH_LEN_BYTES
     \<and> 0 \<le> fh_timestamp_ms h \<and> fh_timestamp_ms h \<le> U64_MAX \<and> shard_ok (fh_shard_id h)
     \<and> 0 \<le> fh_nonce h \<and> fh_nonce h \<le> U64_MAX"

definition anchor_header_ok :: "anchor_header \<Rightarrow> bool" where
  "anchor_header_ok h \<longleftrightarrow> ah_version h = FORMAT_EPOCH \<and> length (ah_parent_anchor h) = HASH_LEN_BYTES
     \<and> length (ah_fruit_set_root h) = HASH_LEN_BYTES \<and> length (ah_parent_candidate_root h) = HASH_LEN_BYTES
     \<and> length (ah_shard_tree_state_root h) = HASH_LEN_BYTES \<and> length (ah_fee_floor_set_root h) = HASH_LEN_BYTES
     \<and> length (ah_anchor_reward_root h) = HASH_LEN_BYTES
     \<and> 0 \<le> ah_timestamp_ms h \<and> ah_timestamp_ms h \<le> U64_MAX \<and> 0 \<le> ah_nonce h \<and> ah_nonce h \<le> U64_MAX"

text \<open>Bit \<open>i\<close> of a bitmap, bits past its end counting as unset; the parents a bitmap selects from a list
  of candidates; the proof-of-work header of a fruit with these parents.\<close>

definition selected_bit :: "bytes \<Rightarrow> nat \<Rightarrow> bool" where
  "selected_bit bm i \<longleftrightarrow> i div 8 < length bm \<and> bit (bm ! (i div 8)) (i mod 8)"

definition selected_parents :: "fruit_header \<Rightarrow> bytes list \<Rightarrow> bytes list" where
  "selected_parents h cs = fh_parent_selected h # nths cs {i. selected_bit (fh_parent_bitmap h) i}"

definition fruit_pow_of :: "fruit_header \<Rightarrow> bytes list \<Rightarrow> fruit_pow_header" where
  "fruit_pow_of h parents =
     \<lparr>fph_version = fh_version h, fph_sig_type_supported = fh_sig_type_supported h,
      fph_effective_parent_hashes = parents, fph_latest_anchor = fh_latest_anchor h,
      fph_tx_merkle_root = fh_tx_merkle_root h, fph_timestamp_ms = fh_timestamp_ms h,
      fph_shard_id = fh_shard_id h, fph_nonce = fh_nonce h\<rparr>"

text \<open>A header that selects the one candidate of a list, for the witnesses.\<close>

definition example_fruit_header :: fruit_header where
  "example_fruit_header = \<lparr>fh_version = 0, fh_sig_type_supported = 1, fh_parent_selected = zero_bytes 32,
     fh_parent_bitmap = [1], fh_latest_anchor = zero_bytes 32, fh_tx_merkle_root = zero_bytes 32,
     fh_timestamp_ms = 1, fh_shard_id = 0, fh_nonce = 0\<rparr>"

definition example_candidate :: bytes where
  "example_candidate = 1 # zero_bytes 31"

section \<open>Lemmas\<close>

lemmas hdr_reader_defs = hdr_bytes_def hdr_uint_def hdr_finish_def

lemma hdr_shard_id_eq: "hdr_require_shard_id v = (if shard_ok v then Inr () else Inl ValueError)"
proof -
  have "0 \<le> v \<longleftrightarrow> 0 \<le> depth_of v" by (simp add: depth_of_def pos_imp_zdiv_nonneg_iff)
  moreover have "depth_of v \<le> 16 \<Longrightarrow> v \<le> U32_MAX" by (simp add: depth_of_def U32_MAX_def)
  moreover have "v AND (push_bit 16 1 - 1) = path_of v"
    using take_bit_eq_mask [of 16 v] by (simp add: path_of_def take_bit_eq_mod mask_eq_exp_minus_1 push_bit_eq_mult)
  ultimately show ?thesis
    by (auto simp: hdr_require_shard_id_def bnd_require_uint bnd_ensure ensure_def shard_ok_def Let_def
        SHARD_MAX_DEPTH_def SHARD_ID_DEPTH_SHIFT_def drop_bit_eq_div depth_of_def [symmetric] push_bit_eq_mult)
qed

lemma require_sig_mask_Inr: "require_sig_mask v = Inr u \<longleftrightarrow> v = SIG_TYPE_ED25519_BIT"
  by (auto simp: require_sig_mask_def bnd_Inr_iff SIG_TYPE_ED25519_BIT_def SIG_TYPE_ED25519_def U16_MAX_def)

lemma hdr_epoch_Inr: "hdr_require_format_epoch v = Inr u \<longleftrightarrow> v = FORMAT_EPOCH"
  by (auto simp: hdr_require_format_epoch_def bnd_Inr_iff FORMAT_EPOCH_def U16_MAX_def)

lemma hdr_shard_id_Inr: "hdr_require_shard_id v = Inr u \<longleftrightarrow> shard_ok v"
  by (simp add: hdr_shard_id_eq)

lemma hdr_require_bytes_Inr: "hdr_require_bytes v n = Inr u \<longleftrightarrow> length v \<le> n"
  by (auto simp: hdr_require_bytes_def)

lemmas hdr_checks = require_sig_mask_Inr hdr_epoch_Inr hdr_shard_id_Inr hdr_require_bytes_Inr
  require_hash_len_Inr_iff require_uint_Inr_iff bnd_Inr_iff

lemma FruitHeader_Inr: "FruitHeader h = Inr h' \<longleftrightarrow> h' = h \<and> fruit_header_ok h"
  unfolding FruitHeader_def fruit_header_ok_def by (simp only: hdr_checks) auto

lemma AnchorHeader_Inr: "AnchorHeader h = Inr h' \<longleftrightarrow> h' = h \<and> anchor_header_ok h"
  unfolding AnchorHeader_def anchor_header_ok_def by (simp only: hdr_checks) auto

lemma header_check_errors:
  "raises_only (\<lambda>e. e = ValueError) (FruitHeader h)" "raises_only (\<lambda>e. e = ValueError) (AnchorHeader a)"
  by (auto simp: FruitHeader_def AnchorHeader_def hdr_require_format_epoch_def require_sig_mask_def hdr_require_bytes_def
      hdr_shard_id_eq require_hash_len_def intro!: raises_intros)

subsection \<open>Byte layouts\<close>

lemma sig_bit_value: "SIG_TYPE_ED25519_BIT = 1"
  by (simp add: SIG_TYPE_ED25519_BIT_def SIG_TYPE_ED25519_def)

lemma fruit_shard_range: "fruit_header_ok h \<Longrightarrow> 0 \<le> fh_shard_id h \<and> fh_shard_id h < 256 ^ U32_BYTES"
  using shard_ok_range by (simp add: fruit_header_ok_def U32_BYTES_def)

lemma parses_return_eq: "x = y \<Longrightarrow> parses (\<lambda>r. Inr (x, r)) y []"
  by (simp add: parses_return)

lemma parses_fruit_header:
  "fruit_header_ok h \<Longrightarrow> parses read_fruit_header h (serialize_fruit_header h @ [])"
  unfolding read_fruit_header_def serialize_fruit_header_def append_assoc hdr_reader_defs
  by ((rule parses_bnd parses_check parses_return_eq parses_bytes parses_uint | (simp add: fruit_shard_range; fail) |
      (simp add: fruit_header_ok_def utxo_widths uint_limits FORMAT_EPOCH_def sig_bit_value HASH_LEN_BYTES_def
        PARENT_BITMAP_MAX_BYTES_def; fail))+)

lemma parses_anchor_header:
  "anchor_header_ok h \<Longrightarrow> parses read_anchor_header h (serialize_anchor_header h @ [])"
  unfolding read_anchor_header_def serialize_anchor_header_def append_assoc hdr_reader_defs
  by ((rule parses_bnd parses_check parses_return_eq parses_bytes parses_uint |
      (simp add: anchor_header_ok_def utxo_widths uint_limits FORMAT_EPOCH_def HASH_LEN_BYTES_def; fail))+)

lemma reads_fruit_header: "reads read_fruit_header (\<lambda>h bs. bs = serialize_fruit_header h)"
  unfolding read_fruit_header_def hdr_reader_defs
  by (rule reads_mono, (rule reads_intros reads_bytes reads_uint | simp add: tx_widths)+)
    (auto simp: serialize_fruit_header_def tx_widths)

lemma reads_anchor_header: "reads read_anchor_header (\<lambda>h bs. bs = serialize_anchor_header h)"
  unfolding read_anchor_header_def hdr_reader_defs
  by (rule reads_mono, (rule reads_intros reads_bytes reads_uint | simp add: tx_widths)+)
    (auto simp: serialize_anchor_header_def tx_widths)

lemma deserialize_fruit_header_Inr:
  "deserialize_fruit_header data = Inr h \<longleftrightarrow> fruit_header_ok h \<and> data = serialize_fruit_header h"
proof
  assume "deserialize_fruit_header data = Inr h"
  then obtain r where "read_fruit_header (reader_of data) = Inr (h, r)" "rd_finish HeaderDecodeError r = Inr ()"
    and ok: "fruit_header_ok h"
    by (auto simp: deserialize_fruit_header_def bnd_Inr_iff FruitHeader_Inr hdr_finish_def)
  then show "fruit_header_ok h \<and> data = serialize_fruit_header h" using reads_whole [OF reads_fruit_header] ok by blast
next
  assume "fruit_header_ok h \<and> data = serialize_fruit_header h"
  then show "deserialize_fruit_header data = Inr h"
    using parses_whole [OF parses_fruit_header, of h HeaderDecodeError "\<lambda>h. wrap_error HeaderDecodeError (FruitHeader h)"]
    by (simp add: deserialize_fruit_header_def hdr_finish_def FruitHeader_Inr)
qed

lemma deserialize_anchor_header_Inr:
  "deserialize_anchor_header data = Inr h \<longleftrightarrow> anchor_header_ok h \<and> data = serialize_anchor_header h"
proof
  assume "deserialize_anchor_header data = Inr h"
  then obtain r where "read_anchor_header (reader_of data) = Inr (h, r)" "rd_finish HeaderDecodeError r = Inr ()"
    and ok: "anchor_header_ok h"
    by (auto simp: deserialize_anchor_header_def bnd_Inr_iff AnchorHeader_Inr hdr_finish_def)
  then show "anchor_header_ok h \<and> data = serialize_anchor_header h" using reads_whole [OF reads_anchor_header] ok by blast
next
  assume "anchor_header_ok h \<and> data = serialize_anchor_header h"
  then show "deserialize_anchor_header data = Inr h"
    using parses_whole [OF parses_anchor_header, of h HeaderDecodeError "\<lambda>h. wrap_error HeaderDecodeError (AnchorHeader h)"]
    by (simp add: deserialize_anchor_header_def hdr_finish_def AnchorHeader_Inr)
qed

text \<open>Lengths come from two-byte fields or constants, so the reader's own range check never fails.\<close>

lemma raises_hdr_bytes: "0 \<le> n \<Longrightarrow> n \<le> U32_MAX \<Longrightarrow> P HeaderDecodeError \<Longrightarrow> raises_only P (hdr_bytes r n)"
  by (auto simp: hdr_bytes_def rd_bytes_def raises_only_def bnd_require_uint Let_def split: if_splits)

lemma raises_hdr_uint: "0 \<le> n \<Longrightarrow> n \<le> U32_MAX \<Longrightarrow> P HeaderDecodeError \<Longrightarrow> raises_only P (hdr_uint n r)"
  using raises_hdr_bytes [of n P r]
  by (auto simp: hdr_uint_def rd_uint_def hdr_bytes_def intro!: raises_bnd raises_Inr)

lemma hdr_uint_range: "hdr_uint n r = Inr (v, r') \<Longrightarrow> 0 \<le> n \<Longrightarrow> n \<le> 4 \<Longrightarrow> 0 \<le> v \<and> v \<le> U32_MAX"
proof -
  assume a: "hdr_uint n r = Inr (v, r')" "0 \<le> n" "n \<le> 4"
  then obtain bs where bs: "v = from_le bs" "length bs \<le> nat n"
    by (auto simp: hdr_uint_def rd_uint_def bnd_Inr_iff rd_bytes_def Let_def slice_def split: if_splits)
  have "(256::int) ^ length bs \<le> 256 ^ 4" using bs(2) a(3) by (intro power_increasing) auto
  then have "v < 256 ^ 4" using from_le_less [of bs] bs(1) by linarith
  then show ?thesis using bs(1) by (simp add: U32_MAX_def)
qed

lemma deserialize_header_errors:
  "raises_only (\<lambda>e. e = HeaderDecodeError) (deserialize_fruit_header data)"
  "raises_only (\<lambda>e. e = HeaderDecodeError) (deserialize_anchor_header data)"
proof -
  have wrap: "raises_only (\<lambda>e. e = ValueError) m \<Longrightarrow> raises_only (\<lambda>e. e = HeaderDecodeError) (wrap_error HeaderDecodeError m)" for m :: "'a res"
    by (auto simp: raises_only_def wrap_error_def split: sum.splits if_splits)
  have fin: "raises_only (\<lambda>e. e = HeaderDecodeError) (hdr_finish r)" for r
    by (simp add: hdr_finish_def raises_rd_finish)
  show "raises_only (\<lambda>e. e = HeaderDecodeError) (deserialize_fruit_header data)"
    unfolding deserialize_fruit_header_def read_fruit_header_def
    by (intro raises_bnd raises_case_prod raises_hdr_bytes raises_hdr_uint raises_Inr wrap fin header_check_errors)
      (auto simp: utxo_widths HASH_LEN_BYTES_def U32_MAX_def dest: hdr_uint_range)
  show "raises_only (\<lambda>e. e = HeaderDecodeError) (deserialize_anchor_header data)"
    unfolding deserialize_anchor_header_def read_anchor_header_def
    by (intro raises_bnd raises_case_prod raises_hdr_bytes raises_hdr_uint raises_Inr wrap fin header_check_errors)
      (auto simp: utxo_widths HASH_LEN_BYTES_def U32_MAX_def)
qed

subsection \<open>Parents\<close>

lemma bitmap_bit_iff: "bitmap_bit bm i \<longleftrightarrow> bit (bm ! (i div 8)) (i mod 8)"
  by (simp add: bitmap_bit_def bit_iff_and_push_bit_not_eq_0)

lemma has_bits_beyond_iff: "has_bits_beyond bm n \<longleftrightarrow> (\<exists>i \<ge> n. selected_bit bm i)"
  by (auto simp: has_bits_beyond_def selected_bit_def bitmap_bit_iff less_mult_imp_div_less div_less_iff_less_mult)

lemma filter_enumerate_nths: "map snd (filter (\<lambda>(i, x). P i) (enumerate 0 xs)) = nths xs {i. P i}"
proof -
  have "enumerate 0 xs = map prod.swap (zip xs [0..<length xs])"
    by (simp add: enumerate_eq_zip zip_commute [of "[0..<length xs]" xs] prod.swap_def case_prod_beta' cong: map_cong)
  then show ?thesis by (simp add: nths_def filter_map comp_def case_prod_beta)
qed

lemma effective_parent_hashes_eq:
  assumes "\<forall>c \<in> set cs. length c = HASH_LEN_BYTES"
  shows "effective_parent_hashes h cs =
    (if (\<forall>i \<ge> length cs. \<not> selected_bit (fh_parent_bitmap h) i) \<and> distinct (selected_parents h cs)
     then Inr (selected_parents h cs) else Inl ValueError)"
proof -
  have "each require_hash cs = Inr (map (\<lambda>_. ()) cs)"
    using assms by (intro each_Inr_all) (simp add: require_hash_len_def)
  moreover have "fh_parent_selected h # map snd (filter (\<lambda>(index, candidate). index div 8 < length (fh_parent_bitmap h)
        \<and> bitmap_bit (fh_parent_bitmap h) index) (enumerate 0 cs)) = selected_parents h cs"
    by (simp add: filter_enumerate_nths selected_parents_def selected_bit_def bitmap_bit_iff)
  moreover have "card (set (selected_parents h cs)) = length (selected_parents h cs) \<longleftrightarrow> distinct (selected_parents h cs)"
    using card_distinct distinct_card by blast
  ultimately show ?thesis
    by (auto simp only: effective_parent_hashes_def Let_def bnd_simps bnd_ensure has_bits_beyond_iff not_ex simp_thms split: if_splits)
qed

lemma selected_parents_length: "length (selected_parents h cs) \<le> 1 + 8 * length (fh_parent_bitmap h)"
proof -
  have "{i. i < length cs \<and> selected_bit (fh_parent_bitmap h) i} \<subseteq> {..<8 * length (fh_parent_bitmap h)}"
    by (auto simp: selected_bit_def div_less_iff_less_mult mult.commute)
  then have "card {i. i < length cs \<and> selected_bit (fh_parent_bitmap h) i} \<le> 8 * length (fh_parent_bitmap h)"
    using card_mono [of "{..<8 * length (fh_parent_bitmap h)}"] by fastforce
  then show ?thesis by (simp add: selected_parents_def length_nths)
qed

lemma nths_inject:
  assumes "distinct cs" "nths cs A = nths cs B" "\<And>i. i \<in> A \<Longrightarrow> i < length cs" "\<And>i. i \<in> B \<Longrightarrow> i < length cs"
  shows "A = B"
proof -
  have sub: "A' \<subseteq> B'" if ab: "nths cs A' = nths cs B'" "\<And>i. i \<in> A' \<Longrightarrow> i < length cs" for A' B'
  proof
    fix i assume "i \<in> A'"
    then have "i < length cs" "cs ! i \<in> set (nths cs B')" using ab by (auto simp: set_nths simp flip: ab(1))
    then obtain j where "j < length cs" "j \<in> B'" "cs ! i = cs ! j" by (auto simp: set_nths)
    then show "i \<in> B'" using assms(1) \<open>i < length cs\<close> by (simp add: nth_eq_iff_index_eq)
  qed
  show ?thesis using sub [of A B] sub [of B A] assms by auto
qed

lemma fruit_pow_of_ok:
  assumes "fruit_header_ok h" "\<forall>c \<in> set cs. length c = HASH_LEN_BYTES" "distinct (selected_parents h cs)"
  shows "pow_ok (FruitPow (fruit_pow_of h (selected_parents h cs)))"
proof -
  have "length (selected_parents h cs) \<le> 10001"
    using selected_parents_length [of h cs] assms(1) by (simp add: fruit_header_ok_def PARENT_BITMAP_MAX_BYTES_def)
  moreover have "\<forall>p \<in> set (selected_parents h cs). length p = HASH_LEN_BYTES"
    using assms(1,2) in_set_nthsD by (fastforce simp: selected_parents_def fruit_header_ok_def)
  moreover have "fh_shard_id h \<le> U32_MAX" "0 \<le> fh_shard_id h" using fruit_shard_range [OF assms(1)] by (auto simp: U32_MAX_def U32_BYTES_def)
  ultimately show ?thesis
    using assms(1,3) by (auto simp: FruitPowHeader_iff fruit_pow_of_def fruit_header_ok_def sig_bit_value FORMAT_EPOCH_def U16_MAX_def)
qed

lemma fruit_to_pow_header_eq:
  assumes "fruit_header_ok h" "\<forall>c \<in> set cs. length c = HASH_LEN_BYTES"
  shows "fruit_to_pow_header h cs =
    (if (\<forall>i \<ge> length cs. \<not> selected_bit (fh_parent_bitmap h) i) \<and> distinct (selected_parents h cs)
     then Inr (FruitPow (fruit_pow_of h (selected_parents h cs))) else Inl ValueError)"
  using mk_pow_header_ok [OF fruit_pow_of_ok [OF assms]]
  by (simp add: fruit_to_pow_header_def effective_parent_hashes_eq [OF assms(2)] fruit_pow_of_def)

lemma raises_one: "raises_only (\<lambda>e. e = E) m \<Longrightarrow> is_ok m \<or> m = Inl E"
  by (cases m) (auto simp: raises_only_def)

lemma selected_bit_padded: "selected_bit (bm @ [0]) i \<longleftrightarrow> selected_bit bm i"
  by (auto simp: selected_bit_def nth_append less_Suc_eq split: if_splits)

lemma example_header_ok: "fruit_header_ok example_fruit_header"
  by (simp add: fruit_header_ok_def example_fruit_header_def FORMAT_EPOCH_def SIG_TYPE_ED25519_BIT_def SIG_TYPE_ED25519_def
      HASH_LEN_BYTES_def zero_bytes_def PARENT_BITMAP_MAX_BYTES_def shard_ok_def depth_of_def path_of_def U64_MAX_def)

section \<open>Properties\<close>

text \<open>The header decoders accept exactly the canonical bytes of valid headers and return that header;
  on every other input they raise \<open>HeaderDecodeError\<close> and nothing else. The shard-id check of the header
  module accepts exactly the identifiers that the shard tree accepts.\<close>

theorem header_codecs_exact:
  "(deserialize_fruit_header data = Inr h \<longleftrightarrow> FruitHeader h = Inr h \<and> data = serialize_fruit_header h) \<and>
   (deserialize_anchor_header data = Inr a \<longleftrightarrow> AnchorHeader a = Inr a \<and> data = serialize_anchor_header a) \<and>
   (is_ok (deserialize_fruit_header data) \<or> deserialize_fruit_header data = Inl HeaderDecodeError) \<and>
   (is_ok (deserialize_anchor_header data) \<or> deserialize_anchor_header data = Inl HeaderDecodeError) \<and>
   (is_ok (hdr_require_shard_id s) \<longleftrightarrow> is_ok (require_shard_id s))"
  using raises_one [OF deserialize_header_errors(1) [of data]] raises_one [OF deserialize_header_errors(2) [of data]]
  by (simp add: deserialize_fruit_header_Inr deserialize_anchor_header_Inr FruitHeader_Inr AnchorHeader_Inr
      hdr_shard_id_eq require_shard_id_eq)

text \<open>What the proof of work of a fruit commits to: over one list of distinct candidates, two valid
  headers have the same proof-of-work header exactly when all fields but the bitmap agree and the
  bitmaps have the same bits set. A header whose bitmap selects past the candidates or selects a
  duplicate has none.\<close>

theorem fruit_pow_commitment:
  assumes "FruitHeader h = Inr h" "FruitHeader h' = Inr h'" "distinct cs" "\<forall>c \<in> set cs. length c = HASH_LEN_BYTES"
    and "fruit_to_pow_header h cs = Inr p" "fruit_to_pow_header h' cs = Inr p'"
  shows "pow_ok p \<and> (p = p' \<longleftrightarrow> h\<lparr>fh_parent_bitmap := []\<rparr> = h'\<lparr>fh_parent_bitmap := []\<rparr> \<and>
    (\<forall>i. selected_bit (fh_parent_bitmap h) i \<longleftrightarrow> selected_bit (fh_parent_bitmap h') i))"
proof -
  have ok: "fruit_header_ok h" "fruit_header_ok h'" using assms(1,2) by (auto simp: FruitHeader_Inr)
  have p: "p = FruitPow (fruit_pow_of h (selected_parents h cs))" "distinct (selected_parents h cs)"
      "\<forall>i. selected_bit (fh_parent_bitmap h) i \<longrightarrow> i < length cs"
    using assms(5) fruit_to_pow_header_eq [OF ok(1) assms(4)] by (auto split: if_splits simp: not_le [symmetric])
  have p': "p' = FruitPow (fruit_pow_of h' (selected_parents h' cs))"
      "\<forall>i. selected_bit (fh_parent_bitmap h') i \<longrightarrow> i < length cs"
    using assms(6) fruit_to_pow_header_eq [OF ok(2) assms(4)] by (auto split: if_splits simp: not_le [symmetric])
  let ?A = "{i. selected_bit (fh_parent_bitmap h) i}" and ?B = "{i. selected_bit (fh_parent_bitmap h') i}"
  have "nths cs ?A = nths cs ?B \<longleftrightarrow> ?A = ?B" using nths_inject [OF assms(3), of ?A ?B] p(3) p'(2) by auto
  then have "p = p' \<longleftrightarrow> h\<lparr>fh_parent_bitmap := []\<rparr> = h'\<lparr>fh_parent_bitmap := []\<rparr> \<and> ?A = ?B"
    unfolding p(1) p'(1) by (cases h; cases h') (auto simp: fruit_pow_of_def selected_parents_def)
  moreover have "pow_ok p" using fruit_pow_of_ok [OF ok(1) assms(4) p(2)] p(1) by simp
  ultimately show ?thesis by (simp add: set_eq_iff)
qed

theorem fruit_pow_commitment_witness:
  "\<exists>p. fruit_to_pow_header example_fruit_header [example_candidate] = Inr p \<and> pow_ok p"
proof -
  let ?h = example_fruit_header
  have h: "FruitHeader ?h = Inr ?h" using example_header_ok by (simp add: FruitHeader_Inr)
  have c: "\<forall>c \<in> set [example_candidate]. length c = HASH_LEN_BYTES"
    by (simp add: example_candidate_def zero_bytes_def HASH_LEN_BYTES_def)
  have "\<not> selected_bit (fh_parent_bitmap ?h) i" if "1 \<le> i" for i
  proof (cases "i < 8")
    case True
    then have "i \<in> {1, 2, 3, 4, 5, 6, 7}" using that by auto
    then show ?thesis by (auto simp: selected_bit_def example_fruit_header_def)
  next
    case False
    then have "0 < i div 8" by (simp add: div_greater_zero_iff)
    then show ?thesis by (simp add: selected_bit_def example_fruit_header_def)
  qed
  moreover have "distinct (selected_parents ?h [example_candidate])"
  proof -
    have "zero_bytes 32 ! 0 \<noteq> example_candidate ! 0" by (simp add: example_candidate_def zero_bytes_def)
    then have "zero_bytes 32 \<noteq> example_candidate" by metis
    then show ?thesis by (simp add: selected_parents_def example_fruit_header_def nths_singleton)
  qed
  ultimately have "fruit_to_pow_header ?h [example_candidate] = Inr (FruitPow (fruit_pow_of ?h (selected_parents ?h [example_candidate])))"
    using fruit_to_pow_header_eq [OF example_header_ok c] by simp
  then show ?thesis using fruit_pow_commitment [OF h h _ c] by fastforce
qed

text \<open>(C32) The bitmap is malleable: appending a zero byte to a bitmap below the length limit gives a
  different valid header with different bytes whose proof-of-work header is the same over every list of
  candidates, so one proof of work serves several fruit headers.\<close>

theorem fruit_bitmap_malleable:
  assumes "FruitHeader h = Inr h" "length (fh_parent_bitmap h) < PARENT_BITMAP_MAX_BYTES"
  shows "let h' = h\<lparr>fh_parent_bitmap := fh_parent_bitmap h @ [0]\<rparr> in
    FruitHeader h' = Inr h' \<and> serialize_fruit_header h' \<noteq> serialize_fruit_header h \<and>
    deserialize_fruit_header (serialize_fruit_header h') = Inr h' \<and>
    (\<forall>cs. effective_parent_hashes h' cs = effective_parent_hashes h cs \<and>
       fruit_to_pow_header h' cs = fruit_to_pow_header h cs)"
proof -
  let ?h = "h\<lparr>fh_parent_bitmap := fh_parent_bitmap h @ [0]\<rparr>"
  have ok: "fruit_header_ok h" "fruit_header_ok ?h" using assms by (auto simp: FruitHeader_Inr fruit_header_ok_def)
  have eff: "effective_parent_hashes ?h cs = effective_parent_hashes h cs" for cs
  proof (cases "\<forall>c \<in> set cs. length c = HASH_LEN_BYTES")
    case True
    then show ?thesis
      by (simp add: effective_parent_hashes_eq selected_parents_def selected_bit_padded)
  next
    case False
    then have "each require_hash cs \<noteq> Inr us" for us
      using each_unit_Inr_iff [of "\<lambda>v. length v = HASH_LEN_BYTES" ValueError cs] by (auto simp: require_hash_len_def [abs_def])
    then show ?thesis by (cases "each require_hash cs") (auto simp: effective_parent_hashes_def)
  qed
  have "serialize_fruit_header ?h \<noteq> serialize_fruit_header h"
    using deserialize_fruit_header_Inr [of "serialize_fruit_header h" h] deserialize_fruit_header_Inr [of "serialize_fruit_header h" ?h] ok
    by (metis (no_types, lifting) append_self_conv fruit_header.select_convs(4) fruit_header.surjective fruit_header.update_convs(4) list.distinct(1) sum.inject(2))
  moreover have "fruit_to_pow_header ?h cs = fruit_to_pow_header h cs" for cs
    using eff [of cs] by (simp add: fruit_to_pow_header_def)
  ultimately show ?thesis
    using ok eff deserialize_fruit_header_Inr by (simp add: Let_def FruitHeader_Inr)
qed

theorem fruit_bitmap_malleable_witness:
  "let h' = example_fruit_header\<lparr>fh_parent_bitmap := [1, 0]\<rparr> in
   FruitHeader h' = Inr h' \<and> fruit_to_pow_header h' [example_candidate] = fruit_to_pow_header example_fruit_header [example_candidate]"
proof -
  have "FruitHeader example_fruit_header = Inr example_fruit_header" using example_header_ok by (simp add: FruitHeader_Inr)
  from fruit_bitmap_malleable [OF this] show ?thesis
    by (simp add: Let_def example_fruit_header_def PARENT_BITMAP_MAX_BYTES_def)
qed

end
