(* ===== verification/Ordered_Merkle.thy ===== *)
theory Ordered_Merkle
  imports Hashing
begin

text \<open>
  \<^verbatim>\<open>src/src/tensorpow/chain/merkle.py\<close>: the ordered Merkle root that block bodies commit to.

  \<open>merkle_loop\<close> is the \<open>while\<close> loop over the levels; it ends because a level of more than one hash is
  followed by a shorter one. The conversions of an index to four bytes and of a level number to two
  raise \<open>OverflowError\<close> when the list is too long.
\<close>

section \<open>Definitions\<close>

definition merkle_require_bytes :: "bytes \<Rightarrow> bytes res" where
  "merkle_require_bytes value = bnd (ensure (\<not> int (length value) > 0xFFFFFFFF) ValueError) (\<lambda>_. Inr value)"

definition leaf_preimage :: "nat \<times> bytes \<Rightarrow> bytes res" where
  "leaf_preimage = (\<lambda>(index, item).
     bnd (to_bytes 4 (int index)) (\<lambda>i.
     bnd (to_bytes 4 (int (length item))) (\<lambda>n.
     Inr ([MERKLE_LEAF_TAG] @ i @ n @ item))))"

definition pad_preimage :: "nat \<Rightarrow> nat \<Rightarrow> bytes res" where
  "pad_preimage level_number index =
     bnd (to_bytes 2 (int level_number)) (\<lambda>l.
     bnd (to_bytes 4 (int index)) (\<lambda>i. Inr ([MERKLE_EMPTY_TAG] @ l @ i)))"

definition node_preimage :: "nat \<Rightarrow> nat \<Rightarrow> bytes \<Rightarrow> bytes \<Rightarrow> bytes res" where
  "node_preimage level_number index left right =
     bnd (to_bytes 2 (int level_number)) (\<lambda>l.
     bnd (to_bytes 4 (int index)) (\<lambda>i. Inr ([MERKLE_NODE_TAG] @ l @ i @ left @ right)))"

text \<open>The \<open>for\<close> loop over pairs; \<open>index\<close> counts pairs.\<close>

fun merkle_next_level :: "hash_fn \<Rightarrow> byte \<Rightarrow> nat \<Rightarrow> nat \<Rightarrow> bytes list \<Rightarrow> bytes list res" where
  "merkle_next_level H domain level_number index [] = Inr []"
| "merkle_next_level H domain level_number index [left] =
     bnd (pad_preimage level_number index) (\<lambda>e.
     bnd (node_preimage level_number index left (domain_hash H domain e)) (\<lambda>p.
     Inr [domain_hash H domain p]))"
| "merkle_next_level H domain level_number index (left # right # rest) =
     bnd (node_preimage level_number index left right) (\<lambda>p.
     bnd (merkle_next_level H domain level_number (index + 1) rest) (\<lambda>next_level.
     Inr (domain_hash H domain p # next_level)))"

lemma next_level_length:
  "merkle_next_level H d l i level = Inr next_level \<Longrightarrow> length next_level = (length level + 1) div 2"
  by (induction H d l i level arbitrary: next_level rule: merkle_next_level.induct)
    (auto simp: bnd_Inr_iff)

function merkle_loop :: "hash_fn \<Rightarrow> byte \<Rightarrow> nat \<Rightarrow> bytes list \<Rightarrow> bytes res" where
  "merkle_loop H domain level_number level =
     (if length level > 1 then
        bnd (merkle_next_level H domain level_number 0 level) (\<lambda>next_level.
        merkle_loop H domain (level_number + 1) next_level)
      else Inr (level ! 0))"
  by pat_completeness auto
termination
  by (relation "measure (\<lambda>(_, _, _, level). length level)") (auto dest!: next_level_length)

declare merkle_loop.simps [simp del]

definition ordered_merkle_root :: "hash_fn \<Rightarrow> byte \<Rightarrow> bytes list \<Rightarrow> bool \<Rightarrow> bytes res" where
  "ordered_merkle_root H domain items reject_duplicates =
     bnd (each merkle_require_bytes items) (\<lambda>checked_items.
     bnd (ensure (\<not> (reject_duplicates \<and> card (set checked_items) \<noteq> length checked_items)) ValueError) (\<lambda>_.
     if checked_items = [] then Inr (domain_hash H domain ([MERKLE_EMPTY_TAG] @ le_bytes 4 0))
     else
       bnd (each (\<lambda>x. bnd (leaf_preimage x) (\<lambda>p. Inr (domain_hash H domain p))) (enumerate 0 checked_items)) (\<lambda>level.
       merkle_loop H domain 0 level)))"

section \<open>Specification\<close>

text \<open>The strings a computation of the root hashes, without the domain byte.\<close>

fun next_strings :: "hash_fn \<Rightarrow> byte \<Rightarrow> nat \<Rightarrow> nat \<Rightarrow> bytes list \<Rightarrow> bytes set" where
  "next_strings H domain level_number index [] = {}"
| "next_strings H domain level_number index [left] =
     {e. pad_preimage level_number index = Inr e} \<union>
     {p. \<exists>e. pad_preimage level_number index = Inr e \<and>
        node_preimage level_number index left (domain_hash H domain e) = Inr p}"
| "next_strings H domain level_number index (left # right # rest) =
     {p. node_preimage level_number index left right = Inr p} \<union> next_strings H domain level_number (index + 1) rest"

function loop_strings :: "hash_fn \<Rightarrow> byte \<Rightarrow> nat \<Rightarrow> bytes list \<Rightarrow> bytes set" where
  "loop_strings H domain level_number level =
     (if length level > 1 then
        next_strings H domain level_number 0 level \<union>
        (case merkle_next_level H domain level_number 0 level of
           Inl _ \<Rightarrow> {} | Inr next_level \<Rightarrow> loop_strings H domain (level_number + 1) next_level)
      else {})"
  by pat_completeness auto
termination
  by (relation "measure (\<lambda>(_, _, _, level). length level)") (auto dest!: next_level_length)

declare loop_strings.simps [simp del]

definition leaf_strings :: "bytes list \<Rightarrow> bytes set" where
  "leaf_strings items = {p. \<exists>x \<in> set (enumerate 0 items). leaf_preimage x = Inr p}"

definition merkle_strings :: "hash_fn \<Rightarrow> byte \<Rightarrow> bytes list \<Rightarrow> bytes set" where
  "merkle_strings H domain items =
     (if items = [] then {[MERKLE_EMPTY_TAG] @ le_bytes 4 0}
      else leaf_strings items \<union>
        (case each (\<lambda>x. bnd (leaf_preimage x) (\<lambda>p. Inr (domain_hash H domain p))) (enumerate 0 items) of
           Inl _ \<Rightarrow> {} | Inr level \<Rightarrow> loop_strings H domain 0 level))"

text \<open>A string below a level: a leaf, or a node of an earlier level.\<close>

definition below :: "nat \<Rightarrow> bytes \<Rightarrow> bool" where
  "below l p \<longleftrightarrow> (\<exists>rest. p = MERKLE_LEAF_TAG # rest) \<or>
     (\<exists>k rest. k < l \<and> k < 65536 \<and> p = MERKLE_NODE_TAG # le_bytes 2 (int k) @ rest)"

definition level_hashes :: "hash_fn \<Rightarrow> byte \<Rightarrow> bytes set \<Rightarrow> nat \<Rightarrow> bytes list \<Rightarrow> bool" where
  "level_hashes H domain S l level \<longleftrightarrow> (\<forall>x \<in> set level. \<exists>p \<in> S. x = domain_hash H domain p \<and> below l p)"

section \<open>Lemmas\<close>

lemmas merkle_tags = MERKLE_LEAF_TAG_def MERKLE_NODE_TAG_def MERKLE_EMPTY_TAG_def

lemma node_preimage_Inr:
  "node_preimage l i a b = Inr p \<longleftrightarrow> l < 65536 \<and> i < 4294967296 \<and>
   p = MERKLE_NODE_TAG # le_bytes 2 (int l) @ le_bytes 4 (int i) @ a @ b"
  by (auto simp: node_preimage_def bnd_Inr_iff to_bytes_Inr_iff)

lemma pad_preimage_Inr:
  "pad_preimage l i = Inr p \<longleftrightarrow> l < 65536 \<and> i < 4294967296 \<and>
   p = MERKLE_EMPTY_TAG # le_bytes 2 (int l) @ le_bytes 4 (int i)"
  by (auto simp: pad_preimage_def bnd_Inr_iff to_bytes_Inr_iff)

lemma leaf_preimage_Inr:
  "leaf_preimage (i, x) = Inr p \<longleftrightarrow> i < 4294967296 \<and> length x < 4294967296 \<and>
   p = MERKLE_LEAF_TAG # le_bytes 4 (int i) @ le_bytes 4 (int (length x)) @ x"
  by (auto simp: leaf_preimage_def bnd_Inr_iff to_bytes_Inr_iff)

lemma not_below_pad: "pad_preimage l i = Inr p \<Longrightarrow> \<not> below k p"
  by (auto simp: pad_preimage_Inr below_def merkle_tags)

lemma below_mono: "below l p \<Longrightarrow> l \<le> l' \<Longrightarrow> below l' p"
  unfolding below_def by (metis order.strict_trans2)

lemma node_below: "node_preimage l i a b = Inr p \<Longrightarrow> below (l + 1) p \<and> \<not> below l p"
  by (auto simp: node_preimage_Inr below_def merkle_tags le_bytes_inject)

lemma next_level_hashes:
  assumes "merkle_next_level H d l i level = Inr next_level"
  shows "level_hashes H d (next_strings H d l i level) (l + 1) next_level"
  using assms
proof (induction H d l i level arbitrary: next_level rule: merkle_next_level.induct)
  case (2 H d l i left)
  then show ?case using node_below by (fastforce simp: level_hashes_def bnd_Inr_iff)
next
  case (3 H d l i left right rest)
  then obtain p nl where p: "node_preimage l i left right = Inr p" "merkle_next_level H d l (i + 1) rest = Inr nl"
    "next_level = domain_hash H d p # nl" by (auto simp: bnd_Inr_iff)
  then show ?case using 3(1) [OF p(1,2)] node_below [OF p(1)] by (fastforce simp: level_hashes_def)
qed (simp add: level_hashes_def)

lemma level_hashes_mono: "level_hashes H d S l level \<Longrightarrow> S \<subseteq> S' \<Longrightarrow> l \<le> l' \<Longrightarrow> level_hashes H d S' l' level"
  unfolding level_hashes_def using below_mono by blast

lemma level_lengths: "digest_ok H \<Longrightarrow> level_hashes H d S l level \<Longrightarrow> x \<in> set level \<Longrightarrow> length x = HASH_LEN_BYTES"
  using length_domain_hash by (auto simp: level_hashes_def)

lemma node_inject:
  assumes "inj_on (domain_hash H d) S" "p \<in> S" "q \<in> S" "domain_hash H d p = domain_hash H d q"
    and "node_preimage l i a b = Inr p" "node_preimage l i a' b' = Inr q" "length a = length a'"
  shows "a = a'" "b = b'"
  using inj_onD [OF assms(1,4,2,3)] assms(5-7) by (auto simp: node_preimage_Inr)

lemma pad_not_in_level:
  assumes "inj_on (domain_hash H d) S" "level_hashes H d S l level" "pad_preimage k i = Inr e" "e \<in> S"
  shows "domain_hash H d e \<notin> set level"
proof
  assume "domain_hash H d e \<in> set level"
  then obtain p where "p \<in> S" "domain_hash H d e = domain_hash H d p" "below l p"
    using assms(2) by (auto simp: level_hashes_def)
  then show False using inj_onD [OF assms(1)] assms(3,4) not_below_pad by metis
qed

lemma next_level_inject:
  assumes "inj_on (domain_hash H d) S" "digest_ok H" "level_hashes H d S l xs" "level_hashes H d S l ys"
    and "merkle_next_level H d l i xs = Inr zs" "merkle_next_level H d l i ys = Inr zs"
    and "next_strings H d l i xs \<subseteq> S" "next_strings H d l i ys \<subseteq> S"
  shows "xs = ys"
  using assms(3-)
proof (induction xs arbitrary: ys zs i rule: induct_list012)
  case 1
  then show ?case by (cases ys rule: remdups_adj.cases) (auto simp: bnd_Inr_iff)
next
  case (2 x)
  note lx = level_lengths [OF assms(2) 2(1)] and ly = level_lengths [OF assms(2) 2(2)]
  obtain e p where x: "pad_preimage l i = Inr e" "node_preimage l i x (domain_hash H d e) = Inr p" "zs = [domain_hash H d p]"
    using 2(3) by (auto simp: bnd_Inr_iff)
  have S: "e \<in> S" "p \<in> S" using 2(5) x by auto
  show ?case
  proof (cases ys rule: remdups_adj.cases)
    case (2 y)
    then obtain q where q: "node_preimage l i y (domain_hash H d e) = Inr q" "zs = [domain_hash H d q]"
      using \<open>merkle_next_level H d l i ys = Inr zs\<close> x(1) by (auto simp: bnd_Inr_iff)
    have "q \<in> S" using \<open>next_strings H d l i ys \<subseteq> S\<close> 2 q(1) x(1) by auto
    then show ?thesis using node_inject(1) [OF assms(1) S(2) _ _ x(2) q(1)] q(2) x(3) lx ly 2 by simp
  next
    case (3 y z r)
    then obtain q rs where q: "node_preimage l i y z = Inr q" "zs = domain_hash H d q # rs"
      using \<open>merkle_next_level H d l i ys = Inr zs\<close> by (auto simp: bnd_Inr_iff)
    have "q \<in> S" using \<open>next_strings H d l i ys \<subseteq> S\<close> 3 q(1) by auto
    then have "domain_hash H d e = z" using node_inject(2) [OF assms(1) S(2) _ _ x(2) q(1)] q(2) x(3) lx ly 3 by simp
    then show ?thesis using pad_not_in_level [OF assms(1) \<open>level_hashes H d S l ys\<close> x(1) S(1)] 3 by simp
  qed (use \<open>merkle_next_level H d l i ys = Inr zs\<close> x(3) in auto)
next
  case (3 x x' xs)
  note lx = level_lengths [OF assms(2) 3(3)] and ly = level_lengths [OF assms(2) 3(4)]
  obtain p us where x: "node_preimage l i x x' = Inr p" "merkle_next_level H d l (i + 1) xs = Inr us" "zs = domain_hash H d p # us"
    using 3(5) by (auto simp: bnd_Inr_iff)
  have S: "p \<in> S" "next_strings H d l (i + 1) xs \<subseteq> S" using 3(7) x by auto
  show ?case
  proof (cases ys rule: remdups_adj.cases)
    case (2 y)
    then obtain e q where q: "pad_preimage l i = Inr e" "node_preimage l i y (domain_hash H d e) = Inr q" "zs = [domain_hash H d q]"
      using 3(6) by (auto simp: bnd_Inr_iff)
    have "q \<in> S" "e \<in> S" using 3(8) 2 q by auto
    then have "x' = domain_hash H d e" using node_inject(2) [OF assms(1) S(1) _ _ x(1) q(2)] q(3) x(3) lx ly 2 by simp
    then show ?thesis using pad_not_in_level [OF assms(1) 3(3) q(1) \<open>e \<in> S\<close>] by simp
  next
    case c: (3 y y' rs)
    then obtain q where q: "node_preimage l i y y' = Inr q" "merkle_next_level H d l (i + 1) rs = Inr us" "domain_hash H d p = domain_hash H d q"
      using 3(6) x(3) by (auto simp: bnd_Inr_iff)
    have T: "q \<in> S" "next_strings H d l (i + 1) rs \<subseteq> S" using 3(8) c q by auto
    have "length x = length y" using lx [of x] ly [of y] c by simp
    then have "x = y" "x' = y'" using node_inject [OF assms(1) S(1) T(1) q(3) x(1) q(1)] by blast+
    moreover have "level_hashes H d S l xs" "level_hashes H d S l rs" using 3(3,4) c unfolding level_hashes_def by auto
    then have "xs = rs" using 3(1) x(2) q(2) S(2) T(2) by blast
    ultimately show ?thesis using c by simp
  qed (use 3(6) x(3) in auto)
qed

lemma loop_root_above:
  "merkle_loop H d l level = Inr r \<Longrightarrow> 1 < length level \<Longrightarrow>
   \<exists>p \<in> loop_strings H d l level. r = domain_hash H d p \<and> \<not> below l p \<and> hd p = MERKLE_NODE_TAG \<and> p \<noteq> []"
proof (induction H d l level rule: merkle_loop.induct)
  case (1 H d l level)
  obtain nl where nl: "merkle_next_level H d l 0 level = Inr nl" "merkle_loop H d (l + 1) nl = Inr r"
    using 1(2,3) by (auto simp: merkle_loop.simps [of H d l level] bnd_Inr_iff)
  have strings: "loop_strings H d l level = next_strings H d l 0 level \<union> loop_strings H d (l + 1) nl"
    using nl(1) 1(3) by (subst loop_strings.simps) simp
  show ?case
  proof (cases "1 < length nl")
    case True
    then obtain p where "p \<in> loop_strings H d (l + 1) nl" "r = domain_hash H d p" "\<not> below (l + 1) p"
      "hd p = MERKLE_NODE_TAG" "p \<noteq> []"
      using 1(1) [OF 1(3) nl(1,2)] by blast
    then show ?thesis using strings below_mono [of l p "l + 1"] by auto
  next
    case False
    have "length nl = 1" using next_level_length [OF nl(1)] False 1(3) by linarith
    then have r: "nl = [r]" using nl(2) by (cases nl) (auto simp: merkle_loop.simps)
    obtain x x' rest where "level = x # x' # rest" using 1(3) by (cases level rule: remdups_adj.cases) auto
    then obtain p where "node_preimage l 0 x x' = Inr p" "r = domain_hash H d p" "p \<in> next_strings H d l 0 level"
      using nl(1) r by (auto simp: bnd_Inr_iff)
    then show ?thesis using strings node_below [of l 0 x x' p] by (auto simp: node_preimage_Inr)
  qed
qed

lemma loop_inject:
  assumes "inj_on (domain_hash H d) S" "digest_ok H"
  shows "level_hashes H d S l xs \<Longrightarrow> level_hashes H d S l ys \<Longrightarrow> xs \<noteq> [] \<Longrightarrow> ys \<noteq> [] \<Longrightarrow>
    loop_strings H d l xs \<subseteq> S \<Longrightarrow> loop_strings H d l ys \<subseteq> S \<Longrightarrow>
    merkle_loop H d l xs = Inr r \<Longrightarrow> merkle_loop H d l ys = Inr r \<Longrightarrow> xs = ys"
proof (induction "length xs" arbitrary: l xs ys rule: less_induct)
  case less
  have single: False if *: "length us \<le> 1" "us \<noteq> []" "1 < length vs" "level_hashes H d S l us" "loop_strings H d l vs \<subseteq> S"
      "merkle_loop H d l us = Inr r" "merkle_loop H d l vs = Inr r" for us vs
  proof -
    have "us = [r]" using * by (cases us) (auto simp: merkle_loop.simps)
    then obtain p where "p \<in> S" "r = domain_hash H d p" "below l p" using *(4) by (auto simp: level_hashes_def)
    moreover obtain q where "q \<in> S" "r = domain_hash H d q" "\<not> below l q" using loop_root_above *(3,5,7) by blast
    ultimately show False using inj_onD [OF assms(1)] by metis
  qed
  show ?case
  proof (cases "1 < length xs \<and> 1 < length ys")
    case True
    obtain nx where nx: "merkle_next_level H d l 0 xs = Inr nx" "merkle_loop H d (l + 1) nx = Inr r"
      using less.prems(7) True by (auto simp: merkle_loop.simps [of H d l xs] bnd_Inr_iff)
    obtain ny where ny: "merkle_next_level H d l 0 ys = Inr ny" "merkle_loop H d (l + 1) ny = Inr r"
      using less.prems(8) True by (auto simp: merkle_loop.simps [of H d l ys] bnd_Inr_iff)
    have sub: "next_strings H d l 0 xs \<subseteq> S" "loop_strings H d (l + 1) nx \<subseteq> S"
      "next_strings H d l 0 ys \<subseteq> S" "loop_strings H d (l + 1) ny \<subseteq> S"
      using less.prems(5,6) True nx(1) ny(1) by (auto simp: loop_strings.simps [of H d l xs] loop_strings.simps [of H d l ys])
    have "nx \<noteq> []" "ny \<noteq> []" using next_level_length [OF nx(1)] next_level_length [OF ny(1)] True by auto
    moreover have "length nx < length xs" using next_level_length [OF nx(1)] True by linarith
    ultimately have "nx = ny"
      using level_hashes_mono [OF next_level_hashes [OF nx(1)] sub(1) order.refl]
        level_hashes_mono [OF next_level_hashes [OF ny(1)] sub(3) order.refl] sub nx(2) ny(2)
      by (intro less.hyps) auto
    then show ?thesis using next_level_inject [OF assms less.prems(1,2) nx(1)] ny(1) sub by simp
  next
    case False
    then consider "length xs \<le> 1" "1 < length ys" | "length ys \<le> 1" "1 < length xs" | "length xs \<le> 1" "length ys \<le> 1"
      by linarith
    then show ?thesis
    proof cases
      case 3
      then show ?thesis using less.prems(3,4,7,8) by (cases xs; cases ys) (auto simp: merkle_loop.simps)
    qed (use single less.prems in blast)+
  qed
qed

lemma leaf_level:
  assumes "each (\<lambda>x. bnd (leaf_preimage x) (\<lambda>p. Inr (domain_hash H d p))) (enumerate 0 items) = Inr level"
  shows "level_hashes H d (leaf_strings items) 0 level" "length level = length items"
    "\<And>j. j < length items \<Longrightarrow> \<exists>p \<in> leaf_strings items. leaf_preimage (j, items ! j) = Inr p \<and> level ! j = domain_hash H d p"
proof -
  show len: "length level = length items" using each_Inr_length [OF assms] by simp
  show nth: "\<exists>p \<in> leaf_strings items. leaf_preimage (j, items ! j) = Inr p \<and> level ! j = domain_hash H d p"
    if "j < length items" for j
  proof -
    have "enumerate 0 items ! j = (j, items ! j)" using that by (simp add: nth_enumerate_eq)
    moreover from this that have "(j, items ! j) \<in> set (enumerate 0 items)" by (metis length_enumerate nth_mem)
    ultimately show ?thesis using each_Inr_nth [OF assms, of j] that by (auto simp: bnd_Inr_iff leaf_strings_def)
  qed
  show "level_hashes H d (leaf_strings items) 0 level"
    unfolding level_hashes_def
  proof
    fix x assume "x \<in> set level"
    then obtain j where "j < length items" "x = level ! j" using len by (metis in_set_conv_nth)
    then show "\<exists>p \<in> leaf_strings items. x = domain_hash H d p \<and> below 0 p"
      using nth [of j] by (fastforce simp: leaf_preimage_Inr below_def)
  qed
qed

lemma leaf_level_inject:
  assumes "inj_on (domain_hash H d) S" "leaf_strings xs \<subseteq> S" "leaf_strings ys \<subseteq> S"
    and "each (\<lambda>x. bnd (leaf_preimage x) (\<lambda>p. Inr (domain_hash H d p))) (enumerate 0 xs) = Inr level"
    and "each (\<lambda>x. bnd (leaf_preimage x) (\<lambda>p. Inr (domain_hash H d p))) (enumerate 0 ys) = Inr level"
  shows "xs = ys"
proof (rule nth_equalityI)
  show len: "length xs = length ys" using leaf_level(2) [OF assms(4)] leaf_level(2) [OF assms(5)] by simp
  fix j assume j: "j < length xs"
  obtain p where p: "p \<in> S" "leaf_preimage (j, xs ! j) = Inr p" "level ! j = domain_hash H d p"
    using leaf_level(3) [OF assms(4) j] assms(2) by blast
  obtain q where q: "q \<in> S" "leaf_preimage (j, ys ! j) = Inr q" "level ! j = domain_hash H d q"
    using leaf_level(3) [OF assms(5)] assms(3) j len by (metis subsetD)
  have "p = q" using inj_onD [OF assms(1) _ p(1) q(1)] p(3) q(3) by simp
  then show "xs ! j = ys ! j" using p(2) q(2) by (simp add: leaf_preimage_Inr)
qed

lemma merkle_root_cases:
  assumes "ordered_merkle_root H d items b = Inr r"
  shows "(items = [] \<and> r = domain_hash H d ([MERKLE_EMPTY_TAG] @ le_bytes 4 0)) \<or>
    (items \<noteq> [] \<and> (\<exists>level. each (\<lambda>x. bnd (leaf_preimage x) (\<lambda>p. Inr (domain_hash H d p))) (enumerate 0 items) = Inr level
       \<and> merkle_loop H d 0 level = Inr r \<and> merkle_strings H d items = leaf_strings items \<union> loop_strings H d 0 level))"
proof -
  have same: "each merkle_require_bytes items = Inr checked \<Longrightarrow> checked = items" for items checked
    by (induction items arbitrary: checked) (auto simp: bnd_Inr_iff merkle_require_bytes_def)
  show ?thesis
    using assms by (auto simp: ordered_merkle_root_def merkle_strings_def bnd_Inr_iff dest!: same split: if_splits)
qed

lemma merkle_root_top:
  assumes "items \<noteq> []" "ordered_merkle_root H d items b = Inr r"
  shows "\<exists>p \<in> merkle_strings H d items. r = domain_hash H d p \<and> p \<noteq> [MERKLE_EMPTY_TAG] @ le_bytes 4 0"
proof -
  obtain level where it: "each (\<lambda>x. bnd (leaf_preimage x) (\<lambda>p. Inr (domain_hash H d p))) (enumerate 0 items) = Inr level"
    "merkle_loop H d 0 level = Inr r" "merkle_strings H d items = leaf_strings items \<union> loop_strings H d 0 level"
    using merkle_root_cases [OF assms(2)] assms(1) by blast
  show ?thesis
  proof (cases "1 < length level")
    case True
    then show ?thesis using loop_root_above [OF it(2) True] it(3) by (fastforce simp: merkle_tags)
  next
    case False
    then have "r \<in> set level" using leaf_level(2) [OF it(1)] it(2) assms(1) by (cases level) (auto simp: merkle_loop.simps)
    then show ?thesis using leaf_level(1) [OF it(1)] it(3) by (fastforce simp: level_hashes_def below_def merkle_tags)
  qed
qed

lemma merkle_root_inject:
  assumes inj: "inj_on (domain_hash H d) (merkle_strings H d xs \<union> merkle_strings H d ys)" and "digest_ok H"
    and x: "ordered_merkle_root H d xs b = Inr r" and y: "ordered_merkle_root H d ys b' = Inr r"
  shows "xs = ys"
proof -
  let ?S = "merkle_strings H d xs \<union> merkle_strings H d ys"
  let ?e = "[MERKLE_EMPTY_TAG] @ le_bytes 4 0"
  have clash: False if *: "us = []" "vs \<noteq> []" "ordered_merkle_root H d us c = Inr r" "ordered_merkle_root H d vs c' = Inr r"
      "merkle_strings H d us \<subseteq> ?S" "merkle_strings H d vs \<subseteq> ?S" for us vs c c'
  proof -
    obtain p where "p \<in> ?S" "r = domain_hash H d p" "p \<noteq> ?e" using merkle_root_top [OF *(2,4)] *(6) by blast
    moreover have "?e \<in> ?S" using *(1,5) by (auto simp: merkle_strings_def)
    moreover have "r = domain_hash H d ?e" using merkle_root_cases [OF *(3)] *(1) by blast
    ultimately show False using inj_onD [OF inj] by metis
  qed
  show ?thesis
  proof (cases "xs = [] \<or> ys = []")
    case True
    then show ?thesis using clash [of xs ys] clash [of ys xs] x y by blast
  next
    case False
    let ?leaves = "\<lambda>items. each (\<lambda>x. bnd (leaf_preimage x) (\<lambda>p. Inr (domain_hash H d p))) (enumerate 0 items)"
    obtain lx where lx: "?leaves xs = Inr lx" "merkle_loop H d 0 lx = Inr r" "merkle_strings H d xs = leaf_strings xs \<union> loop_strings H d 0 lx"
      using merkle_root_cases [OF x] False by blast
    obtain ly where ly: "?leaves ys = Inr ly" "merkle_loop H d 0 ly = Inr r" "merkle_strings H d ys = leaf_strings ys \<union> loop_strings H d 0 ly"
      using merkle_root_cases [OF y] False by blast
    have "lx \<noteq> []" "ly \<noteq> []" using leaf_level(2) [OF lx(1)] leaf_level(2) [OF ly(1)] False by auto
    moreover have sub: "leaf_strings xs \<subseteq> ?S" "leaf_strings ys \<subseteq> ?S" "loop_strings H d 0 lx \<subseteq> ?S" "loop_strings H d 0 ly \<subseteq> ?S"
      unfolding lx(3) ly(3) by auto
    ultimately have "lx = ly"
      by (intro loop_inject [OF inj assms(2) _ _ _ _ sub(3,4) lx(2) ly(2)] level_hashes_mono [OF leaf_level(1) [OF lx(1)] sub(1)]
          level_hashes_mono [OF leaf_level(1) [OF ly(1)] sub(2)]) simp_all
    then show ?thesis using leaf_level_inject [OF inj sub(1,2) lx(1)] ly(1) by simp
  qed
qed

lemma next_level_total:
  assumes "l < 65536" "i + length level \<le> 4294967296"
  shows "\<exists>nl. merkle_next_level H d l i level = Inr nl"
  using assms
proof (induction H d l i level rule: merkle_next_level.induct)
  case (3 H d l i left right rest)
  then have "node_preimage l i left right = Inr (MERKLE_NODE_TAG # le_bytes 2 (int l) @ le_bytes 4 (int i) @ left @ right)"
    by (simp add: node_preimage_Inr)
  then show ?case using 3 by auto
qed (auto simp: node_preimage_Inr pad_preimage_Inr bnd_Inr_iff)

lemma loop_total:
  assumes "length level \<le> 2 ^ n" "l + n \<le> 32"
  shows "\<exists>r. merkle_loop H d l level = Inr r"
  using assms
proof (induction n arbitrary: l level)
  case 0
  then show ?case by (subst merkle_loop.simps) simp
next
  case (Suc n)
  have "2 ^ Suc n \<le> (2 :: nat) ^ 32" using Suc.prems(2) by (intro power_increasing) auto
  then have "length level \<le> 4294967296" using Suc.prems(1) by simp
  then obtain nl where nl: "merkle_next_level H d l 0 level = Inr nl" using next_level_total [of l 0 level] Suc.prems(2) by auto
  have "length nl \<le> 2 ^ n" using next_level_length [OF nl] Suc.prems(1) by simp
  then obtain r where "merkle_loop H d (l + 1) nl = Inr r" using Suc by force
  then show ?case using nl by (subst merkle_loop.simps) auto
qed

lemma merkle_root_total:
  assumes "length items \<le> 4294967296" "\<forall>x \<in> set items. length x < 4294967296" "b \<longrightarrow> distinct items"
  shows "\<exists>r. ordered_merkle_root H d items b = Inr r"
proof -
  have "each merkle_require_bytes items = Inr (map id items)"
    using assms(2) by (intro each_Inr_all) (auto simp: merkle_require_bytes_def ensure_def)
  moreover have "\<exists>level. each (\<lambda>x. bnd (leaf_preimage x) (\<lambda>p. Inr (domain_hash H d p))) (enumerate 0 items) = Inr level"
  proof -
    have "each (\<lambda>x. bnd (leaf_preimage x) (\<lambda>p. Inr (domain_hash H d p))) (enumerate 0 items) =
      Inr (map (\<lambda>(i, x). domain_hash H d (MERKLE_LEAF_TAG # le_bytes 4 (int i) @ le_bytes 4 (int (length x)) @ x)) (enumerate 0 items))"
      using assms(1,2) by (intro each_Inr_all) (auto simp: bnd_Inr_iff leaf_preimage_Inr in_set_enumerate_eq)
    then show ?thesis by blast
  qed
  then obtain level where level: "each (\<lambda>x. bnd (leaf_preimage x) (\<lambda>p. Inr (domain_hash H d p))) (enumerate 0 items) = Inr level" by blast
  moreover have "\<exists>r. merkle_loop H d 0 level = Inr r"
    using loop_total [of level 32 0] leaf_level(2) [OF level] assms(1) by simp
  moreover have "card (set items) = length items \<longleftrightarrow> distinct items" by (metis card_distinct distinct_card)
  ultimately show ?thesis using assms(3) by (auto simp: ordered_merkle_root_def bnd_ensure)
qed

section \<open>Properties\<close>

text \<open>(C31) The ordered Merkle root commits to the whole list: the root exists for up to \<open>2 ^ 32\<close> items, and two
  lists with the same root under the same domain are equal, item by item and in length and order, unless two
  different strings that the two computations hash have the same digest.\<close>

theorem ordered_merkle_root_binding:
  assumes "digest_ok H" "length xs \<le> 4294967296" "\<forall>x \<in> set xs. length x < 4294967296" "b \<longrightarrow> distinct xs"
  shows "\<exists>r. ordered_merkle_root H d xs b = Inr r \<and>
    (\<forall>ys b'. ordered_merkle_root H d ys b' = Inr r \<longrightarrow> xs = ys \<or>
      (\<exists>p q. p \<in> merkle_strings H d xs \<union> merkle_strings H d ys \<and> q \<in> merkle_strings H d xs \<union> merkle_strings H d ys \<and>
         p \<noteq> q \<and> domain_hash H d p = domain_hash H d q))"
proof -
  obtain r where r: "ordered_merkle_root H d xs b = Inr r" using merkle_root_total [OF assms(2-4)] by blast
  show ?thesis
  proof (intro exI conjI allI impI)
    show "ordered_merkle_root H d xs b = Inr r" by (rule r)
    fix ys b' assume "ordered_merkle_root H d ys b' = Inr r"
    then show "xs = ys \<or>
      (\<exists>p q. p \<in> merkle_strings H d xs \<union> merkle_strings H d ys \<and> q \<in> merkle_strings H d xs \<union> merkle_strings H d ys \<and>
         p \<noteq> q \<and> domain_hash H d p = domain_hash H d q)"
      using merkle_root_inject [OF _ assms(1) r] unfolding inj_on_def by blast
  qed
qed

theorem ordered_merkle_root_binding_witness:
  "\<exists>r. ordered_merkle_root (\<lambda>x. take 32 (x @ zero_bytes 32)) 18 [[1], [2], [3]] True = Inr r"
proof -
  have "digest_ok (\<lambda>x. take 32 (x @ zero_bytes 32))" by (auto simp: digest_ok_def HASH_LEN_BYTES_def zero_bytes_def)
  from ordered_merkle_root_binding [OF this, of "[[1], [2], [3]]" True 18] show ?thesis by auto
qed

end
