(* ===== verification/Blocks.thy ===== *)
theory Blocks
  imports Headers Ordered_Merkle
begin

text \<open>
  \<^verbatim>\<open>src/src/tensorpow/chain/blocks.py\<close>: fruits and anchors, the roots their headers commit to, their byte
  layout and decoders.

  \<open>Fruit\<close> and \<open>Anchor\<close> are the checks of \<open>__post_init__\<close> on a record. Every element of a fruit or an
  anchor is a value its own constructor returned (\<open>FruitHeader\<close>, \<open>FeeFloorEntry\<close>, \<open>Output\<close>), which the
  well-formedness predicates carry along. The encoder of an anchor may raise \<open>OverflowError\<close>: nothing
  bounds the number of its reward outputs or of its covered fruits.
\<close>

section \<open>Definitions\<close>

definition MIN_FRUIT_TX_COUNT :: nat where "MIN_FRUIT_TX_COUNT = 1"
definition PARENT_CANDIDATE_MAX_COUNT :: nat where "PARENT_CANDIDATE_MAX_COUNT = 10000"
definition GENESIS_ROOT_FEE_FLOOR_MATOMS_PER_KB :: int where "GENESIS_ROOT_FEE_FLOOR_MATOMS_PER_KB = 0"

definition blk_bytes :: "reader \<Rightarrow> int \<Rightarrow> (bytes \<times> reader) res" where
  "blk_bytes = rd_bytes BlockDecodeError"

definition blk_uint :: "int \<Rightarrow> reader \<Rightarrow> (int \<times> reader) res" where
  "blk_uint = rd_uint BlockDecodeError"

definition blk_finish :: "reader \<Rightarrow> unit res" where
  "blk_finish = rd_finish BlockDecodeError"

definition blk_require_bytes :: "bytes \<Rightarrow> nat \<Rightarrow> unit res" where
  "blk_require_bytes value max_len = ensure (\<not> length value > max_len) ValueError"

definition require_tx_tuple :: "bytes list \<Rightarrow> unit res" where
  "require_tx_tuple transactions =
     bnd (each (\<lambda>t. blk_require_bytes t (nat U16_MAX)) transactions) (\<lambda>_. Inr ())"

definition blk_require_hash_tuple :: "bytes list \<Rightarrow> unit res" where
  "blk_require_hash_tuple values =
     bnd (ensure (card (set values) = length values) ValueError) (\<lambda>_.
     bnd (each require_hash values) (\<lambda>_. Inr ()))"

subsection \<open>Roots\<close>

definition raw_tx_id :: "hash_fn \<Rightarrow> bytes \<Rightarrow> bytes" where
  "raw_tx_id H tx_bytes = domain_hash H DOMAIN_TX_ID tx_bytes"

definition tx_merkle_root :: "hash_fn \<Rightarrow> bytes list \<Rightarrow> bytes res" where
  "tx_merkle_root H transactions =
     ordered_merkle_root H DOMAIN_TX_MERKLE_ROOT (map (raw_tx_id H) transactions) False"

definition fruit_payload_size_bytes :: "bytes list \<Rightarrow> int res" where
  "fruit_payload_size_bytes transactions =
     bnd (require_tx_tuple transactions) (\<lambda>_.
     Inr (int U16_BYTES + sum_list (map (\<lambda>t. int U16_BYTES + int (length t)) transactions)))"

definition fruit_set_root :: "hash_fn \<Rightarrow> bytes list \<Rightarrow> bytes res" where
  "fruit_set_root H fruit_hashes =
     bnd (blk_require_hash_tuple fruit_hashes) (\<lambda>_.
     ordered_merkle_root H DOMAIN_FRUIT_SET_ROOT fruit_hashes True)"

definition parent_candidate_root :: "hash_fn \<Rightarrow> bytes list \<Rightarrow> bytes res" where
  "parent_candidate_root H parent_candidates =
     bnd (blk_require_hash_tuple parent_candidates) (\<lambda>_.
     ordered_merkle_root H DOMAIN_PARENT_CANDIDATE_ROOT parent_candidates True)"

record fee_floor_entry =
  ff_shard_id :: int
  ff_floor_matoms_per_kb :: int

definition FeeFloorEntry :: "int \<Rightarrow> int \<Rightarrow> fee_floor_entry res" where
  "FeeFloorEntry shard_id floor_matoms_per_kb =
     bnd (hdr_require_shard_id shard_id) (\<lambda>_.
     bnd (require_uint floor_matoms_per_kb U64_MAX) (\<lambda>_.
     Inr \<lparr>ff_shard_id = shard_id, ff_floor_matoms_per_kb = floor_matoms_per_kb\<rparr>))"

definition serialize_fee_floor :: "fee_floor_entry \<Rightarrow> bytes" where
  "serialize_fee_floor e = le_bytes 4 (ff_shard_id e) @ le_bytes 8 (ff_floor_matoms_per_kb e)"

definition fee_floor_set_root :: "hash_fn \<Rightarrow> fee_floor_entry list \<Rightarrow> bytes res" where
  "fee_floor_set_root H entries =
     ordered_merkle_root H DOMAIN_FEE_FLOOR (map serialize_fee_floor entries) False"

definition anchor_reward_root :: "hash_fn \<Rightarrow> tx_output list \<Rightarrow> bytes res" where
  "anchor_reward_root H outputs =
     ordered_merkle_root H DOMAIN_ANCHOR_REWARD_ROOT (map output_to_bytes outputs) False"

subsection \<open>Fruits\<close>

record fruit =
  f_header :: fruit_header
  f_transactions :: "bytes list"

definition Fruit :: "hash_fn \<Rightarrow> fruit_header \<Rightarrow> bytes list \<Rightarrow> fruit res" where
  "Fruit H header transactions =
     bnd (require_tx_tuple transactions) (\<lambda>_.
     bnd (ensure (\<not> length transactions < MIN_FRUIT_TX_COUNT) ValueError) (\<lambda>_.
     bnd (fruit_payload_size_bytes transactions) (\<lambda>size.
     bnd (ensure (\<not> size > MAX_FRUIT_PAYLOAD_BYTES) ValueError) (\<lambda>_.
     bnd (tx_merkle_root H transactions) (\<lambda>root.
     bnd (ensure (root = fh_tx_merkle_root header) ValueError) (\<lambda>_.
     Inr \<lparr>f_header = header, f_transactions = transactions\<rparr>))))))"

definition serialize_fruit :: "fruit \<Rightarrow> bytes" where
  "serialize_fruit f =
     le_bytes 2 (int (length (serialize_fruit_header (f_header f))))
     @ serialize_fruit_header (f_header f)
     @ le_bytes 2 (int (length (f_transactions f)))
     @ concat (map (\<lambda>t. le_bytes 2 (int (length t)) @ t) (f_transactions f))"

definition read_tx_bytes :: "reader \<Rightarrow> (bytes \<times> reader) res" where
  "read_tx_bytes r = bnd (blk_uint 2 r) (\<lambda>(n, r). blk_bytes r n)"

definition read_fruit :: "reader \<Rightarrow> ((fruit_header \<times> bytes list) \<times> reader) res" where
  "read_fruit r =
     bnd (blk_uint 2 r) (\<lambda>(header_len, r).
     bnd (blk_bytes r header_len) (\<lambda>(header_bytes, r).
     bnd (deserialize_fruit_header header_bytes) (\<lambda>header.
     bnd (blk_uint 2 r) (\<lambda>(tx_count, r).
     bnd (rd_many read_tx_bytes (nat tx_count) r) (\<lambda>(transactions, r).
     Inr ((header, transactions), r))))))"

definition deserialize_fruit :: "hash_fn \<Rightarrow> bytes \<Rightarrow> fruit res" where
  "deserialize_fruit H data =
     bnd (read_fruit (reader_of data)) (\<lambda>((header, transactions), r).
     bnd (blk_finish r) (\<lambda>_.
     wrap_error BlockDecodeError (Fruit H header transactions)))"

definition fruit_block_hash :: "hash_fn \<Rightarrow> fruit \<Rightarrow> bytes" where
  "fruit_block_hash H f = fruit_header_hash H (f_header f)"

subsection \<open>Anchors\<close>

record anchor =
  a_header :: anchor_header
  a_covered_fruit_hashes :: "bytes list"
  a_parent_candidate_hashes :: "bytes list"
  a_shard_tree_bytes :: bytes
  a_fee_floor_entries :: "fee_floor_entry list"
  a_anchor_reward_outputs :: "tx_output list"
  a_genesis_commitment :: bytes

definition validate_genesis_empty_state :: "bytes \<Rightarrow> fee_floor_entry list \<Rightarrow> unit res" where
  "validate_genesis_empty_state shard_tree_bytes fee_floor_entries =
     bnd (serialize_tree default_tree) (\<lambda>canonical.
     bnd (ensure (shard_tree_bytes = canonical) ValueError) (\<lambda>_.
     bnd (FeeFloorEntry ROOT_SHARD_ID GENESIS_ROOT_FEE_FLOOR_MATOMS_PER_KB) (\<lambda>entry.
     ensure (fee_floor_entries = [entry]) ValueError)))"

definition is_genesis_anchor :: "anchor \<Rightarrow> bool" where
  "is_genesis_anchor a \<longleftrightarrow> a_genesis_commitment a \<noteq> zero_bytes HASH_LEN_BYTES"

definition Anchor :: "hash_fn \<Rightarrow> anchor \<Rightarrow> anchor res" where
  "Anchor H a =
     bnd (blk_require_hash_tuple (a_covered_fruit_hashes a)) (\<lambda>_.
     bnd (blk_require_hash_tuple (a_parent_candidate_hashes a)) (\<lambda>_.
     bnd (ensure (\<not> length (a_parent_candidate_hashes a) > PARENT_CANDIDATE_MAX_COUNT) ValueError) (\<lambda>_.
     bnd (ensure (sort (a_covered_fruit_hashes a) = a_covered_fruit_hashes a) ValueError) (\<lambda>_.
     bnd (blk_require_bytes (a_shard_tree_bytes a) SHARD_TREE_MAX_BYTES) (\<lambda>_.
     bnd (ensure (sort_key ff_shard_id (a_fee_floor_entries a) = a_fee_floor_entries a) ValueError) (\<lambda>_.
     bnd (ensure (card (ff_shard_id ` set (a_fee_floor_entries a)) = length (a_fee_floor_entries a)) ValueError) (\<lambda>_.
     bnd (require_hash (a_genesis_commitment a)) (\<lambda>_.
     bnd (if is_genesis_anchor a then
            bnd (ensure (ah_parent_anchor (a_header a) = zero_bytes HASH_LEN_BYTES) ValueError) (\<lambda>_.
            bnd (ensure (a_covered_fruit_hashes a = []) ValueError) (\<lambda>_.
            bnd (ensure (a_parent_candidate_hashes a = []) ValueError) (\<lambda>_.
            bnd (ensure (a_anchor_reward_outputs a = []) ValueError) (\<lambda>_.
            validate_genesis_empty_state (a_shard_tree_bytes a) (a_fee_floor_entries a)))))
          else ensure (a_covered_fruit_hashes a \<noteq> []) ValueError) (\<lambda>_.
     bnd (fruit_set_root H (a_covered_fruit_hashes a)) (\<lambda>root.
     bnd (ensure (root = ah_fruit_set_root (a_header a)) ValueError) (\<lambda>_.
     bnd (parent_candidate_root H (a_parent_candidate_hashes a)) (\<lambda>root.
     bnd (ensure (root = ah_parent_candidate_root (a_header a)) ValueError) (\<lambda>_.
     bnd (ensure (domain_hash H DOMAIN_SHARD_TREE (a_shard_tree_bytes a) = ah_shard_tree_state_root (a_header a)) ValueError) (\<lambda>_.
     bnd (fee_floor_set_root H (a_fee_floor_entries a)) (\<lambda>root.
     bnd (ensure (root = ah_fee_floor_set_root (a_header a)) ValueError) (\<lambda>_.
     bnd (anchor_reward_root H (a_anchor_reward_outputs a)) (\<lambda>root.
     bnd (ensure (root = ah_anchor_reward_root (a_header a)) ValueError) (\<lambda>_.
     Inr a))))))))))))))))))"

definition serialize_anchor :: "anchor \<Rightarrow> bytes res" where
  "serialize_anchor a =
     bnd (to_bytes 2 (int (length (serialize_anchor_header (a_header a))))) (\<lambda>header_len.
     bnd (to_bytes 4 (int (length (a_covered_fruit_hashes a)))) (\<lambda>covered_count.
     bnd (to_bytes 4 (int (length (a_parent_candidate_hashes a)))) (\<lambda>candidate_count.
     bnd (to_bytes 4 (int (length (a_shard_tree_bytes a)))) (\<lambda>tree_len.
     bnd (to_bytes 4 (int (length (a_fee_floor_entries a)))) (\<lambda>fee_count.
     bnd (to_bytes 2 (int (length (a_anchor_reward_outputs a)))) (\<lambda>reward_count.
     bnd (each (\<lambda>out. bnd (to_bytes 2 (int (length (output_to_bytes out)))) (\<lambda>n. Inr (n @ output_to_bytes out)))
            (a_anchor_reward_outputs a)) (\<lambda>rewards.
     Inr (header_len @ serialize_anchor_header (a_header a)
       @ covered_count @ concat (a_covered_fruit_hashes a)
       @ candidate_count @ concat (a_parent_candidate_hashes a)
       @ tree_len @ a_shard_tree_bytes a
       @ fee_count @ concat (map serialize_fee_floor (a_fee_floor_entries a))
       @ reward_count @ concat rewards
       @ a_genesis_commitment a))))))))"

definition decode_anchor_reward_output :: "bytes \<Rightarrow> tx_output res" where
  "decode_anchor_reward_output data = wrap_error BlockDecodeError (output_from_bytes data)"

definition read_fee_floor :: "reader \<Rightarrow> (fee_floor_entry \<times> reader) res" where
  "read_fee_floor r =
     bnd (blk_uint 4 r) (\<lambda>(shard_id, r).
     bnd (blk_uint 8 r) (\<lambda>(floor_matoms_per_kb, r).
     bnd (FeeFloorEntry shard_id floor_matoms_per_kb) (\<lambda>e. Inr (e, r))))"

definition read_reward_output :: "reader \<Rightarrow> (tx_output \<times> reader) res" where
  "read_reward_output r =
     bnd (blk_uint 2 r) (\<lambda>(n, r).
     bnd (blk_bytes r n) (\<lambda>(data, r).
     bnd (decode_anchor_reward_output data) (\<lambda>out. Inr (out, r))))"

definition read_hash :: "reader \<Rightarrow> (bytes \<times> reader) res" where
  "read_hash r = blk_bytes r (int HASH_LEN_BYTES)"

definition read_anchor :: "reader \<Rightarrow> (anchor \<times> reader) res" where
  "read_anchor r =
     bnd (blk_uint 2 r) (\<lambda>(header_len, r).
     bnd (blk_bytes r header_len) (\<lambda>(header_bytes, r).
     bnd (deserialize_anchor_header header_bytes) (\<lambda>header.
     bnd (blk_uint 4 r) (\<lambda>(covered_count, r).
     bnd (rd_many read_hash (nat covered_count) r) (\<lambda>(covered, r).
     bnd (blk_uint 4 r) (\<lambda>(candidate_count, r).
     bnd (rd_many read_hash (nat candidate_count) r) (\<lambda>(candidates, r).
     bnd (blk_uint 4 r) (\<lambda>(tree_len, r).
     bnd (blk_bytes r tree_len) (\<lambda>(shard_tree_bytes, r).
     bnd (blk_uint 4 r) (\<lambda>(fee_count, r).
     bnd (rd_many read_fee_floor (nat fee_count) r) (\<lambda>(fee_floor_entries, r).
     bnd (blk_uint 2 r) (\<lambda>(reward_count, r).
     bnd (rd_many read_reward_output (nat reward_count) r) (\<lambda>(anchor_reward_outputs, r).
     bnd (blk_bytes r (int HASH_LEN_BYTES)) (\<lambda>(genesis_commitment, r).
     Inr (\<lparr>a_header = header, a_covered_fruit_hashes = covered, a_parent_candidate_hashes = candidates,
       a_shard_tree_bytes = shard_tree_bytes, a_fee_floor_entries = fee_floor_entries,
       a_anchor_reward_outputs = anchor_reward_outputs, a_genesis_commitment = genesis_commitment\<rparr>, r)))))))))))))))"

definition deserialize_anchor :: "hash_fn \<Rightarrow> bytes \<Rightarrow> anchor res" where
  "deserialize_anchor H data =
     bnd (read_anchor (reader_of data)) (\<lambda>(a, r).
     bnd (blk_finish r) (\<lambda>_.
     wrap_error BlockDecodeError (Anchor H a)))"

definition anchor_block_hash :: "hash_fn \<Rightarrow> anchor \<Rightarrow> bytes res" where
  "anchor_block_hash H a =
     (if is_genesis_anchor a then bnd (serialize_anchor a) (\<lambda>bs. Inr (hash_bytes H bs))
      else Inr (anchor_header_hash H (a_header a)))"

section \<open>Specification\<close>

definition fee_ok :: "fee_floor_entry \<Rightarrow> bool" where
  "fee_ok e \<longleftrightarrow> shard_ok (ff_shard_id e) \<and> 0 \<le> ff_floor_matoms_per_kb e \<and> ff_floor_matoms_per_kb e \<le> U64_MAX"

definition fruit_ok :: "hash_fn \<Rightarrow> fruit \<Rightarrow> bool" where
  "fruit_ok H f \<longleftrightarrow> fruit_header_ok (f_header f) \<and> Fruit H (f_header f) (f_transactions f) = Inr f"

definition anchor_ok :: "hash_fn \<Rightarrow> anchor \<Rightarrow> bool" where
  "anchor_ok H a \<longleftrightarrow> anchor_header_ok (a_header a) \<and> (\<forall>e \<in> set (a_fee_floor_entries a). fee_ok e) \<and>
     (\<forall>out \<in> set (a_anchor_reward_outputs a). output_ok out) \<and> Anchor H a = Inr a"

definition parts_ok :: "anchor \<Rightarrow> bool" where
  "parts_ok a \<longleftrightarrow> anchor_header_ok (a_header a) \<and> (\<forall>h \<in> set (a_covered_fruit_hashes a). length h = HASH_LEN_BYTES) \<and>
     (\<forall>h \<in> set (a_parent_candidate_hashes a). length h = HASH_LEN_BYTES) \<and> (\<forall>e \<in> set (a_fee_floor_entries a). fee_ok e) \<and>
     (\<forall>out \<in> set (a_anchor_reward_outputs a). output_ok out) \<and> length (a_genesis_commitment a) = HASH_LEN_BYTES"

definition reward_bytes :: "tx_output \<Rightarrow> bytes res" where
  "reward_bytes out = bnd (to_bytes 2 (int (length (output_to_bytes out)))) (\<lambda>n. Inr (n @ output_to_bytes out))"

definition framed :: "bytes \<Rightarrow> bytes res" where
  "framed t = Inr (le_bytes 2 (int (length t)) @ t)"

text \<open>The strings that the checks of a fruit or an anchor hash, and a collision among strings.\<close>

definition collision :: "hash_fn \<Rightarrow> bytes set \<Rightarrow> bool" where
  "collision H S \<longleftrightarrow> (\<exists>p \<in> S. \<exists>q \<in> S. p \<noteq> q \<and> H p = H q)"

definition fruit_strings :: "hash_fn \<Rightarrow> fruit \<Rightarrow> bytes set" where
  "fruit_strings H f = (\<lambda>t. DOMAIN_TX_ID # t) ` set (f_transactions f) \<union>
     (\<lambda>p. DOMAIN_TX_MERKLE_ROOT # p) ` merkle_strings H DOMAIN_TX_MERKLE_ROOT (map (raw_tx_id H) (f_transactions f))"

definition anchor_strings :: "hash_fn \<Rightarrow> anchor \<Rightarrow> bytes set" where
  "anchor_strings H a = insert (DOMAIN_SHARD_TREE # a_shard_tree_bytes a)
     ((\<lambda>p. DOMAIN_FRUIT_SET_ROOT # p) ` merkle_strings H DOMAIN_FRUIT_SET_ROOT (a_covered_fruit_hashes a) \<union>
      (\<lambda>p. DOMAIN_PARENT_CANDIDATE_ROOT # p) ` merkle_strings H DOMAIN_PARENT_CANDIDATE_ROOT (a_parent_candidate_hashes a) \<union>
      (\<lambda>p. DOMAIN_FEE_FLOOR # p) ` merkle_strings H DOMAIN_FEE_FLOOR (map serialize_fee_floor (a_fee_floor_entries a)) \<union>
      (\<lambda>p. DOMAIN_ANCHOR_REWARD_ROOT # p) ` merkle_strings H DOMAIN_ANCHOR_REWARD_ROOT (map output_to_bytes (a_anchor_reward_outputs a)))"

text \<open>A fruit with one transaction of one byte, a genesis anchor, and the start of an anchor whose fee floor names a shard
  of depth 17.\<close>

definition example_block_fruit :: fruit where
  "example_block_fruit =
     \<lparr>f_header = example_fruit_header\<lparr>fh_tx_merkle_root := domain_hash pad_hash DOMAIN_TX_MERKLE_ROOT
        (MERKLE_LEAF_TAG # le_bytes 4 0 @ le_bytes 4 32 @ raw_tx_id pad_hash [7])\<rparr>,
      f_transactions = [[7]]\<rparr>"

definition example_genesis_anchor :: anchor where
  "example_genesis_anchor = (let empty = [MERKLE_EMPTY_TAG] @ le_bytes 4 0 in
     \<lparr>a_header = \<lparr>ah_version = 0, ah_parent_anchor = zero_bytes 32,
        ah_fruit_set_root = domain_hash pad_hash DOMAIN_FRUIT_SET_ROOT empty,
        ah_parent_candidate_root = domain_hash pad_hash DOMAIN_PARENT_CANDIDATE_ROOT empty,
        ah_shard_tree_state_root = domain_hash pad_hash DOMAIN_SHARD_TREE (le_bytes 4 1 @ le_bytes 4 0),
        ah_fee_floor_set_root = domain_hash pad_hash DOMAIN_FEE_FLOOR
          (MERKLE_LEAF_TAG # le_bytes 4 0 @ le_bytes 4 12 @ le_bytes 4 0 @ le_bytes 8 0),
        ah_anchor_reward_root = domain_hash pad_hash DOMAIN_ANCHOR_REWARD_ROOT empty,
        ah_timestamp_ms = 0, ah_nonce = 0\<rparr>,
      a_covered_fruit_hashes = [], a_parent_candidate_hashes = [],
      a_shard_tree_bytes = le_bytes 4 1 @ le_bytes 4 0,
      a_fee_floor_entries = [\<lparr>ff_shard_id = 0, ff_floor_matoms_per_kb = 0\<rparr>],
      a_anchor_reward_outputs = [], a_genesis_commitment = replicate 32 1\<rparr>)"

definition bad_fee_floor_bytes :: bytes where
  "bad_fee_floor_bytes = le_bytes 2 210 @ zero_bytes 210 @ zero_bytes 12 @ le_bytes 4 1 @ le_bytes 4 (17 * 65536) @ zero_bytes 8"

section \<open>Lemmas\<close>

lemmas blk_reader_defs = blk_bytes_def blk_uint_def blk_finish_def

lemma blk_uint_16: "blk_uint 2 = rd_uint BlockDecodeError (int 2)" by (simp add: blk_uint_def)
lemma blk_uint_32: "blk_uint 4 = rd_uint BlockDecodeError (int 4)" by (simp add: blk_uint_def)
lemma blk_uint_64: "blk_uint 8 = rd_uint BlockDecodeError (int 8)" by (simp add: blk_uint_def)

lemmas blk_reads = blk_uint_16 blk_uint_32 blk_uint_64 blk_bytes_def

lemma FeeFloorEntry_Inr:
  "FeeFloorEntry s v = Inr e \<longleftrightarrow> e = \<lparr>ff_shard_id = s, ff_floor_matoms_per_kb = v\<rparr> \<and> fee_ok e"
  by (auto simp: FeeFloorEntry_def bnd_Inr_iff hdr_shard_id_Inr fee_ok_def)

lemma fee_range: "fee_ok e \<Longrightarrow> 0 \<le> ff_shard_id e \<and> ff_shard_id e < 4294967296"
  using shard_ok_range [of "ff_shard_id e"] by (simp add: fee_ok_def)

lemma FeeFloorEntry_fields: "fee_ok e \<Longrightarrow> FeeFloorEntry (ff_shard_id e) (ff_floor_matoms_per_kb e) = Inr e"
  by (simp add: FeeFloorEntry_Inr)

lemma output_length: "output_ok out \<Longrightarrow> length (output_to_bytes out) < 65536"
  by (simp add: output_to_bytes_def output_ok_def utxo_widths TX_OUTPUT_PAYLOAD_MAX_BYTES_def)

lemma output_from_bytes_Inr: "output_from_bytes data = Inr out \<longleftrightarrow> output_ok out \<and> data = output_to_bytes out"
proof
  assume "output_from_bytes data = Inr out"
  then obtain r where "read_output (reader_of data) = Inr (out, r)" "rd_finish TxDecodeError r = Inr ()"
    by (auto simp: output_from_bytes_def bnd_Inr_iff)
  then show "output_ok out \<and> data = output_to_bytes out" using reads_whole [OF reads_output] by auto
next
  assume "output_ok out \<and> data = output_to_bytes out"
  then show "output_from_bytes data = Inr out"
    using parses_whole [OF parses_output, of out TxDecodeError Inr] by (simp add: output_from_bytes_def)
qed

subsection \<open>Framed parts\<close>

lemma parses_fee: "fee_ok e \<Longrightarrow> parses read_fee_floor e (serialize_fee_floor e @ [])"
  unfolding read_fee_floor_def serialize_fee_floor_def append_assoc blk_reads
  by ((rule parses_bnd parses_check parses_return_eq parses_bytes parses_uint | (simp add: fee_range; fail) |
      (rule FeeFloorEntry_fields, assumption) | (simp add: fee_ok_def uint_limits; fail))+)

lemma reads_fee: "reads read_fee_floor (\<lambda>e bs. fee_ok e \<and> serialize_fee_floor e = bs)"
  unfolding read_fee_floor_def blk_reads
  by (rule reads_mono, (rule reads_intros reads_bytes reads_uint | simp)+)
    (auto simp: FeeFloorEntry_Inr serialize_fee_floor_def)

interpretation fee: wire_format "\<lambda>e. Inr (serialize_fee_floor e)" read_fee_floor fee_ok
  by (rule wire_formatI) (use parses_fee reads_fee in auto)

lemma parses_hash: "length h = HASH_LEN_BYTES \<Longrightarrow> parses read_hash h h"
  unfolding read_hash_def blk_bytes_def by (rule parses_bytes) (auto simp: HASH_LEN_BYTES_def U32_MAX_def)

lemma reads_hash: "reads read_hash (\<lambda>h bs. length h = HASH_LEN_BYTES \<and> h = bs)"
  unfolding read_hash_def blk_bytes_def by (rule reads_mono, rule reads_bytes) auto

interpretation hash: wire_format Inr read_hash "\<lambda>h. length h = HASH_LEN_BYTES"
  by (rule wire_formatI) (use parses_hash reads_hash in auto)

lemma parses_tx_bytes: "length t < 65536 \<Longrightarrow> parses read_tx_bytes t (le_bytes 2 (int (length t)) @ t)"
  unfolding read_tx_bytes_def blk_reads
  by (rule parses_bnd [OF parses_uint parses_bytes]) (auto simp: U32_MAX_def)

lemma reads_tx_bytes: "reads read_tx_bytes (\<lambda>t bs. length t < 65536 \<and> framed t = Inr bs)"
  unfolding read_tx_bytes_def blk_reads
  by (rule reads_mono, (rule reads_bnd reads_bytes reads_uint | simp)+) (auto simp: framed_def)

interpretation tx_bytes: wire_format framed read_tx_bytes "\<lambda>t. length t < 65536"
  by (rule wire_formatI) (use parses_tx_bytes reads_tx_bytes in \<open>auto simp: framed_def\<close>)

lemma decode_reward: "decode_anchor_reward_output data = Inr out \<longleftrightarrow> output_ok out \<and> data = output_to_bytes out"
  by (simp add: decode_anchor_reward_output_def output_from_bytes_Inr)

lemma decode_reward_ok: "output_ok out \<Longrightarrow> decode_anchor_reward_output (output_to_bytes out) = Inr out"
  by (simp add: decode_reward)

lemma parses_reward: "output_ok out \<Longrightarrow> parses read_reward_output out (le_bytes 2 (int (length (output_to_bytes out))) @ output_to_bytes out @ [])"
  unfolding read_reward_output_def blk_reads
  by ((rule parses_bnd parses_check parses_return_eq parses_bytes parses_uint | (rule decode_reward_ok, assumption) |
      (use output_length [of out] in \<open>simp add: U32_MAX_def\<close>; fail))+)

lemma reward_bytes_eq: "output_ok out \<Longrightarrow> reward_bytes out = Inr (le_bytes 2 (int (length (output_to_bytes out))) @ output_to_bytes out)"
  using output_length [of out] by (simp add: reward_bytes_def to_bytes_ok)

lemma reads_reward: "reads read_reward_output (\<lambda>out bs. output_ok out \<and> reward_bytes out = Inr bs)"
  unfolding read_reward_output_def blk_reads
  by (rule reads_mono, (rule reads_intros reads_bytes reads_uint | simp)+) (auto simp: decode_reward reward_bytes_eq)

interpretation reward: wire_format reward_bytes read_reward_output output_ok
  by (rule wire_formatI) (use parses_reward reward_bytes_eq reads_reward in auto)

subsection \<open>Fruits\<close>

lemma each_framed: "each framed ts = Inr (map (\<lambda>t. le_bytes 2 (int (length t)) @ t) ts)"
  by (rule each_Inr_all) (simp add: framed_def)

lemma require_tx_tuple_Inr: "require_tx_tuple ts = Inr u \<longleftrightarrow> (\<forall>t \<in> set ts. length t < 65536)"
proof -
  have "(\<exists>us. each (\<lambda>t. blk_require_bytes t (nat U16_MAX)) ts = Inr us) \<longleftrightarrow> (\<forall>t \<in> set ts. \<not> length t > nat U16_MAX)"
    unfolding blk_require_bytes_def by (rule each_unit_Inr_iff)
  moreover have "(\<forall>t \<in> set ts. \<not> length t > nat U16_MAX) \<longleftrightarrow> (\<forall>t \<in> set ts. length t < 65536)"
    by (rule ball_cong) (auto simp: U16_MAX_def)
  ultimately show ?thesis by (auto simp: require_tx_tuple_def bnd_Inr_iff)
qed

lemma payload_count: "int (2 * length ts) \<le> (\<Sum>t \<leftarrow> ts. int U16_BYTES + int (length t))"
  by (induction ts) (auto simp: U16_BYTES_def)

lemma Fruit_Inr:
  "Fruit H h ts = Inr f \<longleftrightarrow> f = \<lparr>f_header = h, f_transactions = ts\<rparr> \<and> (\<forall>t \<in> set ts. length t < 65536) \<and> ts \<noteq> [] \<and>
     2 + (\<Sum>t \<leftarrow> ts. 2 + int (length t)) \<le> 8192 \<and> tx_merkle_root H ts = Inr (fh_tx_merkle_root h)"
  by (auto simp: Fruit_def fruit_payload_size_bytes_def bnd_Inr_iff require_tx_tuple_Inr MIN_FRUIT_TX_COUNT_def
      MAX_FRUIT_PAYLOAD_BYTES_def U16_BYTES_def Suc_le_eq not_less)

lemma fruit_counts: "Fruit H h ts = Inr f \<Longrightarrow> length ts < 65536 \<and> (\<forall>t \<in> set ts. length t < 65536)"
  using payload_count [of ts] by (simp add: Fruit_Inr U16_BYTES_def)

lemma fruit_header_length: "fruit_header_ok h \<Longrightarrow> length (serialize_fruit_header h) < 65536"
  by (simp add: serialize_fruit_header_def fruit_header_ok_def utxo_widths HASH_LEN_BYTES_def PARENT_BITMAP_MAX_BYTES_def)

lemma tx_merkle_root_total:
  assumes "digest_ok H" "length ts \<le> 4294967296"
  shows "\<exists>r. tx_merkle_root H ts = Inr r"
  unfolding tx_merkle_root_def using assms
  by (intro merkle_root_total) (auto simp: raw_tx_id_def length_domain_hash HASH_LEN_BYTES_def)

lemma Fruit_errors:
  assumes "digest_ok H" "length ts \<le> 4294967296"
  shows "raises_only (\<lambda>e. e = ValueError) (Fruit H h ts)"
proof -
  have r: "raises_only (\<lambda>e. e = ValueError) (tx_merkle_root H ts)"
    using tx_merkle_root_total [OF assms] by (auto simp: raises_only_def)
  show ?thesis unfolding Fruit_def fruit_payload_size_bytes_def require_tx_tuple_def blk_require_bytes_def
    by (intro raises_bnd raises_ensure raises_each raises_Inr r) simp_all
qed

lemma parses_fruit:
  assumes "fruit_header_ok h" "length ts < 65536" "\<forall>t \<in> set ts. length t < 65536"
  shows "parses read_fruit (h, ts) (serialize_fruit \<lparr>f_header = h, f_transactions = ts\<rparr> @ [])"
proof -
  have many: "parses (rd_many read_tx_bytes (nat (int (length ts)))) ts (concat (map (\<lambda>t. le_bytes 2 (int (length t)) @ t) ts))"
    using tx_bytes.parses_many [OF assms(3) each_framed] by simp
  have hdr: "deserialize_fruit_header (serialize_fruit_header h) = Inr h"
    using assms(1) by (simp add: deserialize_fruit_header_Inr)
  show ?thesis
    unfolding read_fruit_def serialize_fruit_def append_assoc blk_reads fruit.select_convs
    by ((rule parses_bnd parses_check parses_return_eq many parses_bytes parses_uint hdr |
        (use assms fruit_header_length [OF assms(1)] in \<open>simp add: U32_MAX_def\<close>; fail))+)
qed

lemma reads_fruit:
  "reads read_fruit (\<lambda>(h, ts) bs. fruit_header_ok h \<and> length ts < 65536 \<and> serialize_fruit \<lparr>f_header = h, f_transactions = ts\<rparr> = bs)"
  unfolding read_fruit_def blk_reads
  by (rule reads_mono, (rule reads_bnd reads_check reads_return tx_bytes.reads_many reads_bytes reads_uint | simp)+)
    (auto simp: deserialize_fruit_header_Inr serialize_fruit_def each_framed)

lemma raises_blk_bytes: "0 \<le> n \<Longrightarrow> n \<le> U32_MAX \<Longrightarrow> P BlockDecodeError \<Longrightarrow> raises_only P (blk_bytes r n)"
  by (auto simp: blk_bytes_def rd_bytes_def raises_only_def bnd_require_uint Let_def split: if_splits)

lemma raises_blk_uint: "0 \<le> n \<Longrightarrow> n \<le> U32_MAX \<Longrightarrow> P BlockDecodeError \<Longrightarrow> raises_only P (blk_uint n r)"
  using raises_blk_bytes [of n P r]
  by (auto simp: blk_uint_def rd_uint_def blk_bytes_def intro!: raises_bnd raises_Inr)

lemma blk_uint_range: "blk_uint n r = Inr (v, r') \<Longrightarrow> 0 \<le> n \<Longrightarrow> n \<le> 4 \<Longrightarrow> 0 \<le> v \<and> v \<le> U32_MAX"
proof -
  assume a: "blk_uint n r = Inr (v, r')" "0 \<le> n" "n \<le> 4"
  then obtain bs where bs: "v = from_le bs" "length bs \<le> nat n"
    by (auto simp: blk_uint_def rd_uint_def bnd_Inr_iff rd_bytes_def Let_def slice_def split: if_splits)
  have "(256::int) ^ length bs \<le> 256 ^ 4" using bs(2) a(3) by (intro power_increasing) auto
  then have "v < 256 ^ 4" using from_le_less [of bs] bs(1) by linarith
  then show ?thesis using bs(1) by (simp add: U32_MAX_def)
qed

lemma raises_wrap: "raises_only (\<lambda>e. e = ValueError) m \<Longrightarrow> P BlockDecodeError \<Longrightarrow> raises_only P (wrap_error BlockDecodeError m)"
  by (auto simp: raises_only_def wrap_error_def split: sum.splits if_splits)

lemma raises_weaken: "raises_only P m \<Longrightarrow> (\<And>e. P e \<Longrightarrow> Q e) \<Longrightarrow> raises_only Q m"
  by (simp add: raises_only_def)

lemma raises_tx_bytes: "P BlockDecodeError \<Longrightarrow> raises_only P (read_tx_bytes r)"
  unfolding read_tx_bytes_def
  by (intro raises_bnd raises_case_prod raises_blk_uint raises_blk_bytes) (auto simp: U32_MAX_def dest: blk_uint_range)

lemma read_fruit_errors: "raises_only (\<lambda>e. e = BlockDecodeError \<or> e = HeaderDecodeError) (read_fruit r)"
  unfolding read_fruit_def
  by (intro raises_bnd raises_case_prod raises_blk_uint raises_blk_bytes raises_rd_many raises_tx_bytes raises_Inr
      raises_weaken [OF deserialize_header_errors(1)]) (auto simp: U32_MAX_def dest: blk_uint_range)

lemma deserialize_fruit_Inr:
  "deserialize_fruit H data = Inr f \<longleftrightarrow> fruit_ok H f \<and> data = serialize_fruit f"
proof
  assume "deserialize_fruit H data = Inr f"
  then obtain h ts r where r: "read_fruit (reader_of data) = Inr ((h, ts), r)" "rd_finish BlockDecodeError r = Inr ()"
    and f: "Fruit H h ts = Inr f"
    by (auto simp: deserialize_fruit_def bnd_Inr_iff blk_finish_def)
  have "f = \<lparr>f_header = h, f_transactions = ts\<rparr>" using f by (simp add: Fruit_Inr)
  then show "fruit_ok H f \<and> data = serialize_fruit f"
    using reads_whole [OF reads_fruit r] f by (auto simp: fruit_ok_def)
next
  assume f: "fruit_ok H f \<and> data = serialize_fruit f"
  then have ok: "fruit_header_ok (f_header f)" "Fruit H (f_header f) (f_transactions f) = Inr f" by (auto simp: fruit_ok_def)
  have c: "length (f_transactions f) < 65536" "\<forall>t \<in> set (f_transactions f). length t < 65536"
    using fruit_counts [OF ok(2)] by auto
  have p: "parses read_fruit (f_header f, f_transactions f) (serialize_fruit f)" using parses_fruit [OF ok(1) c] by (cases f) simp
  show "deserialize_fruit H data = Inr f"
    using parses_whole [OF p, of BlockDecodeError "\<lambda>(h, ts). wrap_error BlockDecodeError (Fruit H h ts)"] f ok(2)
    by (simp add: deserialize_fruit_def blk_finish_def case_prod_beta' wrap_error_def)
qed

lemma deserialize_fruit_errors:
  assumes "digest_ok H"
  shows "raises_only (\<lambda>e. e = BlockDecodeError \<or> e = HeaderDecodeError) (deserialize_fruit H data)"
proof (cases "read_fruit (reader_of data)")
  case (Inl e)
  then show ?thesis using read_fruit_errors [of "reader_of data"] by (auto simp: deserialize_fruit_def raises_only_def)
next
  case (Inr x)
  then obtain h ts r where r: "read_fruit (reader_of data) = Inr ((h, ts), r)" by (metis surj_pair)
  then have "length ts < 65536" using reads_fruit rd_wf_reader_of [of data] unfolding reads_def by fastforce
  then have "raises_only (\<lambda>e. e = BlockDecodeError \<or> e = HeaderDecodeError) (wrap_error BlockDecodeError (Fruit H h ts))"
    using Fruit_errors [OF assms, of ts h] by (intro raises_wrap) auto
  then show ?thesis using r by (auto simp: deserialize_fruit_def blk_finish_def intro!: raises_bnd raises_rd_finish)
qed

subsection \<open>Anchors\<close>

lemma merkle_root_errors:
  assumes "length items \<le> 4294967296"
  shows "raises_only (\<lambda>e. e = ValueError) (ordered_merkle_root H d items b)"
proof (cases "(\<forall>x \<in> set items. length x < 4294967296) \<and> (b \<longrightarrow> distinct items)")
  case True
  then show ?thesis using merkle_root_total [OF assms, of b H d] by (auto simp: raises_only_def)
next
  case False
  have ch: "raises_only (\<lambda>e. e = ValueError) (each merkle_require_bytes items)"
    by (auto simp: merkle_require_bytes_def intro!: raises_intros)
  have same: "each merkle_require_bytes xs = Inr ys \<Longrightarrow> ys = xs \<and> (\<forall>x \<in> set xs. length x < 4294967296)" for xs ys
    by (induction xs arbitrary: ys) (auto simp: bnd_Inr_iff merkle_require_bytes_def)
  have "card (set items) = length items \<longleftrightarrow> distinct items" by (metis card_distinct distinct_card)
  then show ?thesis using False ch
    by (cases "each merkle_require_bytes items") (auto simp: ordered_merkle_root_def raises_only_def bnd_ensure dest!: same)
qed

lemma blk_require_hash_tuple_Inr:
  "blk_require_hash_tuple vs = Inr u \<longleftrightarrow> distinct vs \<and> (\<forall>v \<in> set vs. length v = HASH_LEN_BYTES)"
proof -
  have "(\<exists>us. each require_hash vs = Inr us) \<longleftrightarrow> (\<forall>v \<in> set vs. length v = HASH_LEN_BYTES)"
    unfolding require_hash_len_def by (rule each_unit_Inr_iff)
  moreover have "card (set vs) = length vs \<longleftrightarrow> distinct vs" by (metis card_distinct distinct_card)
  ultimately show ?thesis by (auto simp: blk_require_hash_tuple_def bnd_Inr_iff)
qed

lemma raises_blk_hash_tuple: "raises_only (\<lambda>e. e = ValueError) (blk_require_hash_tuple vs)"
  by (auto simp: blk_require_hash_tuple_def require_hash_len_def intro!: raises_intros)

lemma genesis_state_eq:
  "validate_genesis_empty_state t es =
     ensure (t = le_bytes 4 1 @ le_bytes 4 0 \<and> es = [\<lparr>ff_shard_id = 0, ff_floor_matoms_per_kb = 0\<rparr>]) ValueError"
  by (auto simp: validate_genesis_empty_state_def serialize_tree_def default_tree_def to_bytes_ok FeeFloorEntry_def
      hdr_shard_id_eq shard_ok_def depth_of_def path_of_def ROOT_SHARD_ID_def GENESIS_ROOT_FEE_FLOOR_MATOMS_PER_KB_def
      U64_MAX_def ensure_def bnd_require_uint)

lemma Anchor_errors:
  assumes "length (a_covered_fruit_hashes a) \<le> 4294967296" "length (a_parent_candidate_hashes a) \<le> 4294967296"
    "length (a_fee_floor_entries a) \<le> 4294967296" "length (a_anchor_reward_outputs a) \<le> 4294967296"
  shows "raises_only (\<lambda>e. e = ValueError) (Anchor H a)"
  unfolding Anchor_def fruit_set_root_def parent_candidate_root_def fee_floor_set_root_def anchor_reward_root_def
    genesis_state_eq blk_require_bytes_def require_hash_len_def
  using assms by (intro raises_bnd raises_ensure raises_if raises_Inr merkle_root_errors raises_blk_hash_tuple) simp_all

lemma anchor_header_length: "anchor_header_ok h \<Longrightarrow> length (serialize_anchor_header h) = 210"
  by (simp add: serialize_anchor_header_def anchor_header_ok_def utxo_widths HASH_LEN_BYTES_def)

lemma serialize_anchor_eq:
  assumes "parts_ok a" "length (a_covered_fruit_hashes a) < 4294967296" "length (a_parent_candidate_hashes a) < 4294967296"
    "length (a_shard_tree_bytes a) < 4294967296" "length (a_fee_floor_entries a) < 4294967296"
    "length (a_anchor_reward_outputs a) < 65536" "each reward_bytes (a_anchor_reward_outputs a) = Inr rewards"
  shows "serialize_anchor a = Inr (le_bytes 2 (int (length (serialize_anchor_header (a_header a))))
     @ serialize_anchor_header (a_header a)
     @ le_bytes 4 (int (length (a_covered_fruit_hashes a))) @ concat (a_covered_fruit_hashes a)
     @ le_bytes 4 (int (length (a_parent_candidate_hashes a))) @ concat (a_parent_candidate_hashes a)
     @ le_bytes 4 (int (length (a_shard_tree_bytes a))) @ a_shard_tree_bytes a
     @ le_bytes 4 (int (length (a_fee_floor_entries a))) @ concat (map serialize_fee_floor (a_fee_floor_entries a))
     @ le_bytes 2 (int (length (a_anchor_reward_outputs a))) @ concat rewards
     @ a_genesis_commitment a)"
  using assms anchor_header_length [of "a_header a"]
  by (simp add: serialize_anchor_def to_bytes_ok reward_bytes_def [abs_def] parts_ok_def)

lemma serialize_anchor_bounds:
  assumes "serialize_anchor a = Inr bs"
  shows "length (a_covered_fruit_hashes a) < 4294967296" "length (a_parent_candidate_hashes a) < 4294967296"
    "length (a_shard_tree_bytes a) < 4294967296" "length (a_fee_floor_entries a) < 4294967296"
    "length (a_anchor_reward_outputs a) < 65536"
  using assms by (auto simp: serialize_anchor_def bnd_Inr_iff to_bytes_Inr_iff)

lemma each_fee: "each (\<lambda>e. Inr (serialize_fee_floor e)) es = Inr (map serialize_fee_floor es)"
  by (rule each_Inr_all) simp

lemma each_hash: "each Inr hs = (Inr hs :: bytes list res)"
  using each_Inr_all [of hs Inr id] by simp

lemma parses_anchor:
  assumes "parts_ok a" "serialize_anchor a = Inr bs"
  shows "parses read_anchor a bs"
proof -
  note len = serialize_anchor_bounds [OF assms(2)]
  have ok: "anchor_header_ok (a_header a)" "\<forall>h \<in> set (a_covered_fruit_hashes a). length h = HASH_LEN_BYTES"
    "\<forall>h \<in> set (a_parent_candidate_hashes a). length h = HASH_LEN_BYTES" "\<forall>e \<in> set (a_fee_floor_entries a). fee_ok e"
    "\<forall>out \<in> set (a_anchor_reward_outputs a). output_ok out" "length (a_genesis_commitment a) = HASH_LEN_BYTES"
    using assms(1) by (auto simp: parts_ok_def)
  obtain rewards where rw: "each reward_bytes (a_anchor_reward_outputs a) = Inr rewards" using reward.enc_each_total [OF ok(5)] by blast
  have hdr: "deserialize_anchor_header (serialize_anchor_header (a_header a)) = Inr (a_header a)"
    using ok(1) by (simp add: deserialize_anchor_header_Inr)
  have many: "parses (rd_many read_hash (nat (int (length (a_covered_fruit_hashes a))))) (a_covered_fruit_hashes a) (concat (a_covered_fruit_hashes a))"
    "parses (rd_many read_hash (nat (int (length (a_parent_candidate_hashes a))))) (a_parent_candidate_hashes a) (concat (a_parent_candidate_hashes a))"
    "parses (rd_many read_fee_floor (nat (int (length (a_fee_floor_entries a))))) (a_fee_floor_entries a) (concat (map serialize_fee_floor (a_fee_floor_entries a)))"
    "parses (rd_many read_reward_output (nat (int (length (a_anchor_reward_outputs a))))) (a_anchor_reward_outputs a) (concat rewards)"
    using hash.parses_many [OF ok(2) each_hash] hash.parses_many [OF ok(3) each_hash] fee.parses_many [OF ok(4) each_fee]
      reward.parses_many [OF ok(5) rw] by simp_all
  have "parses read_anchor a ((le_bytes 2 (int (length (serialize_anchor_header (a_header a))))
     @ serialize_anchor_header (a_header a)
     @ le_bytes 4 (int (length (a_covered_fruit_hashes a))) @ concat (a_covered_fruit_hashes a)
     @ le_bytes 4 (int (length (a_parent_candidate_hashes a))) @ concat (a_parent_candidate_hashes a)
     @ le_bytes 4 (int (length (a_shard_tree_bytes a))) @ a_shard_tree_bytes a
     @ le_bytes 4 (int (length (a_fee_floor_entries a))) @ concat (map serialize_fee_floor (a_fee_floor_entries a))
     @ le_bytes 2 (int (length (a_anchor_reward_outputs a))) @ concat rewards
     @ a_genesis_commitment a) @ [])"
    unfolding read_anchor_def append_assoc blk_reads
    by ((rule parses_bnd parses_check parses_return_eq many parses_bytes parses_uint hdr |
        (use len ok(6) anchor_header_length [OF ok(1)] in \<open>simp add: U32_MAX_def HASH_LEN_BYTES_def\<close>; fail))+)
  then show ?thesis using serialize_anchor_eq [OF assms(1) len rw] assms(2) by simp
qed

lemma reads_anchor: "reads read_anchor (\<lambda>a bs. parts_ok a \<and> serialize_anchor a = Inr bs)"
  unfolding read_anchor_def blk_reads
  by (rule reads_mono, (rule reads_bnd reads_check reads_return hash.reads_many fee.reads_many reward.reads_many reads_bytes reads_uint | simp)+)
    (auto simp: deserialize_anchor_header_Inr each_fee each_hash parts_ok_def serialize_anchor_def to_bytes_ok reward_bytes_def [abs_def])

lemma Anchor_parts:
  "Anchor H a = Inr b \<Longrightarrow> b = a \<and> (\<forall>h \<in> set (a_covered_fruit_hashes a). length h = HASH_LEN_BYTES) \<and>
     (\<forall>h \<in> set (a_parent_candidate_hashes a). length h = HASH_LEN_BYTES) \<and> length (a_genesis_commitment a) = HASH_LEN_BYTES
     \<and> length (a_parent_candidate_hashes a) \<le> 10000 \<and> length (a_shard_tree_bytes a) \<le> 262144
     \<and> distinct (map ff_shard_id (a_fee_floor_entries a))"
proof -
  assume "Anchor H a = Inr b"
  then have c: "card (ff_shard_id ` set (a_fee_floor_entries a)) = length (a_fee_floor_entries a)" and
    r: "b = a" "\<forall>h \<in> set (a_covered_fruit_hashes a). length h = HASH_LEN_BYTES"
     "\<forall>h \<in> set (a_parent_candidate_hashes a). length h = HASH_LEN_BYTES" "length (a_genesis_commitment a) = HASH_LEN_BYTES"
     "length (a_parent_candidate_hashes a) \<le> 10000" "length (a_shard_tree_bytes a) \<le> 262144"
    by (simp_all add: Anchor_def bnd_Inr_iff blk_require_hash_tuple_Inr blk_require_bytes_def PARENT_CANDIDATE_MAX_COUNT_def
        SHARD_TREE_MAX_BYTES_def) (elim conjE, simp add: not_less)+
  have "distinct (map ff_shard_id (a_fee_floor_entries a))" using c by (metis card_distinct length_map list.set_map)
  then show ?thesis using r by simp
qed

lemma anchor_ok_parts: "anchor_ok H a \<Longrightarrow> parts_ok a"
  using Anchor_parts [of H a a] by (auto simp: anchor_ok_def parts_ok_def)

lemma fee_count:
  assumes "\<forall>e \<in> set es. fee_ok e" "distinct (map ff_shard_id es)"
  shows "length es < 4294967296"
proof -
  have "ff_shard_id e \<in> {0..<1114112}" if "e \<in> set es" for e
    using assms(1) that id_fields [of "ff_shard_id e"] path_of_nonneg [of "ff_shard_id e"]
    by (auto simp: fee_ok_def shard_ok_def path_of_def)
  then have "card (set (map ff_shard_id es)) \<le> card {0..<1114112::int}" by (intro card_mono) auto
  then show ?thesis using distinct_card [OF assms(2)] by simp
qed

lemma serialize_anchor_total:
  assumes "anchor_ok H a"
  shows "is_ok (serialize_anchor a) \<longleftrightarrow>
    length (a_covered_fruit_hashes a) < 4294967296 \<and> length (a_anchor_reward_outputs a) < 65536"
proof
  assume "is_ok (serialize_anchor a)"
  then show "length (a_covered_fruit_hashes a) < 4294967296 \<and> length (a_anchor_reward_outputs a) < 65536"
    using serialize_anchor_bounds by (auto simp: is_ok_iff)
next
  assume c: "length (a_covered_fruit_hashes a) < 4294967296 \<and> length (a_anchor_reward_outputs a) < 65536"
  have p: "parts_ok a" by (rule anchor_ok_parts [OF assms])
  obtain rewards where "each reward_bytes (a_anchor_reward_outputs a) = Inr rewards"
    using reward.enc_each_total p unfolding parts_ok_def by blast
  moreover have "length (a_parent_candidate_hashes a) < 4294967296" "length (a_shard_tree_bytes a) < 4294967296"
    "length (a_fee_floor_entries a) < 4294967296"
    using Anchor_parts [of H a a] assms fee_count by (auto simp: anchor_ok_def)
  ultimately show "is_ok (serialize_anchor a)" using serialize_anchor_eq [OF p] c by simp
qed

lemma deserialize_anchor_Inr:
  "deserialize_anchor H data = Inr a \<longleftrightarrow> anchor_ok H a \<and> serialize_anchor a = Inr data"
proof
  assume "deserialize_anchor H data = Inr a"
  then obtain b r where r: "read_anchor (reader_of data) = Inr (b, r)" "rd_finish BlockDecodeError r = Inr ()"
    and b: "Anchor H b = Inr a"
    by (auto simp: deserialize_anchor_def bnd_Inr_iff blk_finish_def)
  have "b = a" using Anchor_parts [OF b] by simp
  then show "anchor_ok H a \<and> serialize_anchor a = Inr data"
    using reads_whole [OF reads_anchor r] b by (auto simp: anchor_ok_def parts_ok_def)
next
  assume a: "anchor_ok H a \<and> serialize_anchor a = Inr data"
  then show "deserialize_anchor H data = Inr a"
    using parses_whole [OF parses_anchor [OF anchor_ok_parts], of H a data BlockDecodeError "\<lambda>a. wrap_error BlockDecodeError (Anchor H a)"]
    by (simp add: deserialize_anchor_def blk_finish_def wrap_error_def anchor_ok_def)
qed

lemma value_errors_output_bytes: "value_errors (output_from_bytes data)"
proof -
  have "value_errors (bnd (read_output (reader_of data)) (\<lambda>(out, r). bnd (rd_finish TxDecodeError r) (\<lambda>_. Inr out)))"
    unfolding read_output_def by (intro value_errors_intros value_errors_Output)
  then show ?thesis by (auto simp: output_from_bytes_def wrap_error_def raises_only_def split: sum.splits)
qed

lemma read_anchor_errors:
  "raises_only (\<lambda>e. e \<in> {BlockDecodeError, HeaderDecodeError, ValueError}) (read_anchor r)"
proof -
  let ?P = "\<lambda>e. e \<in> {BlockDecodeError, HeaderDecodeError, ValueError}"
  have fee: "raises_only ?P (read_fee_floor r)" for r
    unfolding read_fee_floor_def FeeFloorEntry_def hdr_shard_id_eq
    by (intro raises_bnd raises_case_prod raises_blk_uint raises_require_uint raises_if raises_Inl raises_Inr) (auto simp: U32_MAX_def)
  have out: "raises_only ?P (decode_anchor_reward_output d)" for d
    unfolding decode_anchor_reward_output_def
    using value_errors_output_bytes [of d] by (auto simp: raises_only_def wrap_error_def split: sum.splits if_splits)
  have rw: "raises_only ?P (read_reward_output r)" for r
    unfolding read_reward_output_def
    by (intro raises_bnd raises_case_prod raises_blk_uint raises_blk_bytes out raises_Inr) (auto simp: U32_MAX_def dest: blk_uint_range)
  have h: "raises_only ?P (read_hash r)" for r
    unfolding read_hash_def by (intro raises_blk_bytes) (auto simp: U32_MAX_def HASH_LEN_BYTES_def)
  show ?thesis unfolding read_anchor_def
    by (intro raises_bnd raises_case_prod raises_blk_uint raises_blk_bytes raises_rd_many fee rw h raises_Inr
        raises_weaken [OF deserialize_header_errors(2)]) (auto simp: U32_MAX_def HASH_LEN_BYTES_def dest: blk_uint_range)
qed

lemma deserialize_anchor_errors:
  "raises_only (\<lambda>e. e \<in> {BlockDecodeError, HeaderDecodeError, ValueError}) (deserialize_anchor H data)"
proof (cases "read_anchor (reader_of data)")
  case (Inl e)
  then show ?thesis using read_anchor_errors [of "reader_of data"] by (auto simp: deserialize_anchor_def raises_only_def)
next
  case (Inr x)
  then obtain a r where r: "read_anchor (reader_of data) = Inr (a, r)" by (metis surj_pair)
  then obtain bs where bs: "serialize_anchor a = Inr bs" using reads_anchor rd_wf_reader_of [of data] unfolding reads_def by blast
  have "raises_only (\<lambda>e. e = ValueError) (Anchor H a)"
    using serialize_anchor_bounds [OF bs] by (intro Anchor_errors) simp_all
  then have "raises_only (\<lambda>e. e \<in> {BlockDecodeError, HeaderDecodeError, ValueError}) (wrap_error BlockDecodeError (Anchor H a))"
    by (intro raises_wrap) auto
  then show ?thesis using r by (auto simp: deserialize_anchor_def blk_finish_def intro!: raises_bnd raises_rd_finish)
qed

subsection \<open>Commitments\<close>

lemma inj_on_domain_hash: "inj_on H S \<Longrightarrow> (\<lambda>p. d # p) ` A \<subseteq> S \<Longrightarrow> inj_on (domain_hash H d) A"
  unfolding inj_on_def domain_hash_def hash_bytes_def by (metis append_Cons append_Nil image_subset_iff list.inject)

lemma Anchor_roots:
  "Anchor H a = Inr a \<Longrightarrow>
   ordered_merkle_root H DOMAIN_FRUIT_SET_ROOT (a_covered_fruit_hashes a) True = Inr (ah_fruit_set_root (a_header a)) \<and>
   ordered_merkle_root H DOMAIN_PARENT_CANDIDATE_ROOT (a_parent_candidate_hashes a) True = Inr (ah_parent_candidate_root (a_header a)) \<and>
   domain_hash H DOMAIN_SHARD_TREE (a_shard_tree_bytes a) = ah_shard_tree_state_root (a_header a) \<and>
   ordered_merkle_root H DOMAIN_FEE_FLOOR (map serialize_fee_floor (a_fee_floor_entries a)) False = Inr (ah_fee_floor_set_root (a_header a)) \<and>
   ordered_merkle_root H DOMAIN_ANCHOR_REWARD_ROOT (map output_to_bytes (a_anchor_reward_outputs a)) False = Inr (ah_anchor_reward_root (a_header a))"
  by (simp add: Anchor_def bnd_Inr_iff fruit_set_root_def parent_candidate_root_def fee_floor_set_root_def anchor_reward_root_def)

lemma fee_list_inject:
  "\<forall>e \<in> set es. fee_ok e \<Longrightarrow> \<forall>e \<in> set es'. fee_ok e \<Longrightarrow> map serialize_fee_floor es = map serialize_fee_floor es' \<Longrightarrow> es = es'"
  using fee.enc_list_inject [of es es'] each_fee by metis

lemma output_list_inject:
  "\<forall>x \<in> set xs. output_ok x \<Longrightarrow> \<forall>y \<in> set ys. output_ok y \<Longrightarrow> map output_to_bytes xs = map output_to_bytes ys \<Longrightarrow> xs = ys"
  using tx_out.enc_list_inject [of xs ys] each_Inr_all [of xs "\<lambda>x. Inr (output_to_bytes x)" output_to_bytes]
    each_Inr_all [of ys "\<lambda>x. Inr (output_to_bytes x)" output_to_bytes] by metis

lemma example_block_fruit_ok: "fruit_ok pad_hash example_block_fruit"
proof -
  have "fruit_header_ok (f_header example_block_fruit)"
    using example_header_ok
    by (simp add: example_block_fruit_def fruit_header_ok_def example_fruit_header_def length_domain_hash pad_hash_digest)
  moreover have "tx_merkle_root pad_hash [[7]] = Inr (fh_tx_merkle_root (f_header example_block_fruit))"
    by (auto simp: example_block_fruit_def tx_merkle_root_def ordered_merkle_root_def merkle_require_bytes_def
        leaf_preimage_def to_bytes_ok merkle_loop.simps bnd_ensure raw_tx_id_def length_domain_hash pad_hash_digest HASH_LEN_BYTES_def)
  ultimately show ?thesis
    by (simp add: fruit_ok_def Fruit_Inr example_block_fruit_def)
qed

lemma example_genesis_ok: "anchor_ok pad_hash example_genesis_anchor"
proof -
  have "anchor_header_ok (a_header example_genesis_anchor)"
    by (simp add: example_genesis_anchor_def Let_def anchor_header_ok_def FORMAT_EPOCH_def U64_MAX_def length_domain_hash pad_hash_digest
        zero_bytes_def HASH_LEN_BYTES_def)
  moreover have "is_genesis_anchor example_genesis_anchor"
    by (simp add: is_genesis_anchor_def example_genesis_anchor_def Let_def zero_bytes_def HASH_LEN_BYTES_def replicate_eq_replicate)
  then have "Anchor pad_hash example_genesis_anchor = Inr example_genesis_anchor"
    by (simp add: Anchor_def genesis_state_eq blk_require_hash_tuple_def blk_require_bytes_def bnd_ensure bnd_require_hash_len
        fruit_set_root_def parent_candidate_root_def fee_floor_set_root_def anchor_reward_root_def ordered_merkle_root_def
        merkle_require_bytes_def leaf_preimage_def to_bytes_ok merkle_loop.simps example_genesis_anchor_def Let_def zero_bytes_def
        HASH_LEN_BYTES_def SHARD_TREE_MAX_BYTES_def serialize_fee_floor_def)
  ultimately show ?thesis by (simp add: anchor_ok_def example_genesis_anchor_def Let_def fee_ok_def shard_ok_def depth_of_def path_of_def U64_MAX_def)
qed

section \<open>Properties\<close>

text \<open>Fruits on the wire: the decoder accepts exactly the bytes of well-formed fruits (valid header,
  at least one transaction, payload within the limit, matching Merkle root) and returns that fruit; two
  fruits never share bytes; every other input raises \<open>BlockDecodeError\<close>, or \<open>HeaderDecodeError\<close> from the
  nested header.\<close>

theorem fruit_codec_exact:
  assumes "digest_ok H"
  shows "(deserialize_fruit H data = Inr f \<longleftrightarrow> fruit_ok H f \<and> data = serialize_fruit f) \<and>
    (is_ok (deserialize_fruit H data) \<or> deserialize_fruit H data = Inl BlockDecodeError \<or>
     deserialize_fruit H data = Inl HeaderDecodeError)"
proof
  show "deserialize_fruit H data = Inr f \<longleftrightarrow> fruit_ok H f \<and> data = serialize_fruit f" by (rule deserialize_fruit_Inr)
  show "is_ok (deserialize_fruit H data) \<or> deserialize_fruit H data = Inl BlockDecodeError \<or>
     deserialize_fruit H data = Inl HeaderDecodeError"
    using deserialize_fruit_errors [OF assms, of data] by (cases "deserialize_fruit H data") (auto simp: raises_only_def)
qed

theorem fruit_codec_exact_witness:
  "deserialize_fruit pad_hash (serialize_fruit example_block_fruit) = Inr example_block_fruit"
  using fruit_codec_exact [OF pad_hash_digest, of "serialize_fruit example_block_fruit" example_block_fruit]
    example_block_fruit_ok by simp

text \<open>(C33) Anchors on the wire: the decoder accepts exactly the bytes of well-formed anchors and returns that
  anchor. A well-formed anchor has bytes exactly when it covers fewer than \<open>2 ^ 32\<close> fruits and has fewer
  than \<open>2 ^ 16\<close> reward outputs, which its constructor does not check. Every other input raises
  \<open>BlockDecodeError\<close>, \<open>HeaderDecodeError\<close>, or, from a malformed fee floor, a bare \<open>ValueError\<close>.\<close>

theorem anchor_codec_exact:
  "(deserialize_anchor H data = Inr a \<longleftrightarrow> anchor_ok H a \<and> serialize_anchor a = Inr data) \<and>
   (anchor_ok H a \<longrightarrow> (is_ok (serialize_anchor a) \<longleftrightarrow>
      length (a_covered_fruit_hashes a) < 2 ^ 32 \<and> length (a_anchor_reward_outputs a) < 2 ^ 16)) \<and>
   (is_ok (deserialize_anchor H data) \<or>
    deserialize_anchor H data \<in> {Inl BlockDecodeError, Inl HeaderDecodeError, Inl ValueError}) \<and>
   deserialize_anchor H bad_fee_floor_bytes = Inl ValueError"
proof (intro conjI impI)
  show "deserialize_anchor H data = Inr a \<longleftrightarrow> anchor_ok H a \<and> serialize_anchor a = Inr data"
    by (rule deserialize_anchor_Inr)
  show "is_ok (deserialize_anchor H data) \<or>
      deserialize_anchor H data \<in> {Inl BlockDecodeError, Inl HeaderDecodeError, Inl ValueError}"
    using deserialize_anchor_errors [of H data] by (cases "deserialize_anchor H data") (auto simp: raises_only_def)
  have "read_anchor (reader_of bad_fee_floor_bytes) = Inl ValueError" by code_simp
  then show "deserialize_anchor H bad_fee_floor_bytes = Inl ValueError" by (simp add: deserialize_anchor_def)
next
  assume "anchor_ok H a"
  then show "is_ok (serialize_anchor a) \<longleftrightarrow>
      length (a_covered_fruit_hashes a) < 2 ^ 32 \<and> length (a_anchor_reward_outputs a) < 2 ^ 16"
    using serialize_anchor_total by simp
qed

text \<open>(C34) A fruit header commits to the transactions: two well-formed fruits with the same header are
  equal, unless two different strings that the checks hash (transaction ids or nodes of the Merkle trees)
  have the same digest.\<close>

theorem fruit_header_binds_body:
  assumes "digest_ok H" "fruit_ok H f" "fruit_ok H g" "f_header f = f_header g"
  shows "f = g \<or> collision H (fruit_strings H f \<union> fruit_strings H g)"
proof -
  let ?S = "fruit_strings H f \<union> fruit_strings H g"
  show ?thesis
  proof (cases "inj_on H ?S")
    case True
    have eq: "tx_merkle_root H (f_transactions f) = tx_merkle_root H (f_transactions g)"
      "f = \<lparr>f_header = f_header f, f_transactions = f_transactions f\<rparr>" "g = \<lparr>f_header = f_header g, f_transactions = f_transactions g\<rparr>"
      using assms(2-4) by (auto simp: fruit_ok_def Fruit_Inr)
    obtain r where r: "tx_merkle_root H (f_transactions f) = Inr r" using assms(2) by (auto simp: fruit_ok_def Fruit_Inr)
    have "map (raw_tx_id H) (f_transactions f) = map (raw_tx_id H) (f_transactions g)"
    proof (rule merkle_root_inject)
      show "inj_on (domain_hash H DOMAIN_TX_MERKLE_ROOT)
          (merkle_strings H DOMAIN_TX_MERKLE_ROOT (map (raw_tx_id H) (f_transactions f)) \<union>
           merkle_strings H DOMAIN_TX_MERKLE_ROOT (map (raw_tx_id H) (f_transactions g)))"
        by (rule inj_on_domain_hash [OF True]) (auto simp: fruit_strings_def)
      show "ordered_merkle_root H DOMAIN_TX_MERKLE_ROOT (map (raw_tx_id H) (f_transactions f)) False = Inr r"
        "ordered_merkle_root H DOMAIN_TX_MERKLE_ROOT (map (raw_tx_id H) (f_transactions g)) False = Inr r"
        using r eq(1) by (simp_all add: tx_merkle_root_def)
    qed (rule assms(1))
    moreover have "inj_on (raw_tx_id H) (set (f_transactions f) \<union> set (f_transactions g))"
      unfolding raw_tx_id_def by (rule inj_on_domain_hash [OF True]) (auto simp: fruit_strings_def)
    ultimately have "f_transactions f = f_transactions g" using inj_on_map_eq_map by blast
    then show ?thesis using eq(2,3) assms(4) by metis
  next
    case False
    then show ?thesis by (auto simp: inj_on_def collision_def)
  qed
qed

theorem fruit_header_binds_body_witness:
  "fruit_ok pad_hash example_block_fruit \<and> (example_block_fruit = example_block_fruit \<or>
     collision pad_hash (fruit_strings pad_hash example_block_fruit \<union> fruit_strings pad_hash example_block_fruit))"
  using fruit_header_binds_body [OF pad_hash_digest example_block_fruit_ok example_block_fruit_ok] example_block_fruit_ok by blast

text \<open>An anchor header commits to the body: two well-formed anchors with the same header agree on the
  covered fruits, the parent candidates, the shard tree, the fee floors and the reward outputs, unless two
  different strings that the checks hash have the same digest.\<close>

theorem anchor_header_binds_body:
  assumes "digest_ok H" "anchor_ok H a" "anchor_ok H b" "a_header a = a_header b"
  shows "a\<lparr>a_genesis_commitment := []\<rparr> = b\<lparr>a_genesis_commitment := []\<rparr> \<or>
    collision H (anchor_strings H a \<union> anchor_strings H b)"
proof -
  let ?S = "anchor_strings H a \<union> anchor_strings H b"
  show ?thesis
  proof (cases "inj_on H ?S")
    case True
    note ra = Anchor_roots [of H a] and rb = Anchor_roots [of H b]
    have dom: "inj_on (domain_hash H d) (merkle_strings H d (f a) \<union> merkle_strings H d (f b))"
      if "\<And>x. (\<lambda>p. d # p) ` merkle_strings H d (f x) \<subseteq> anchor_strings H x" for d f
      using that [of a] that [of b] by (intro inj_on_domain_hash [OF True]) blast
    have "a_covered_fruit_hashes a = a_covered_fruit_hashes b"
      using merkle_root_inject [OF dom assms(1), of DOMAIN_FRUIT_SET_ROOT a_covered_fruit_hashes] ra rb assms(2-4)
      by (auto simp: anchor_strings_def anchor_ok_def)
    moreover have "a_parent_candidate_hashes a = a_parent_candidate_hashes b"
      using merkle_root_inject [OF dom assms(1), of DOMAIN_PARENT_CANDIDATE_ROOT a_parent_candidate_hashes] ra rb assms(2-4)
      by (auto simp: anchor_strings_def anchor_ok_def)
    moreover have "a_shard_tree_bytes a = a_shard_tree_bytes b"
      using inj_onD [OF True, of "DOMAIN_SHARD_TREE # a_shard_tree_bytes a" "DOMAIN_SHARD_TREE # a_shard_tree_bytes b"] ra rb assms(2-4)
      by (auto simp: anchor_strings_def anchor_ok_def domain_hash_def hash_bytes_def)
    moreover have "map serialize_fee_floor (a_fee_floor_entries a) = map serialize_fee_floor (a_fee_floor_entries b)"
      using merkle_root_inject [OF dom assms(1), of DOMAIN_FEE_FLOOR "\<lambda>x. map serialize_fee_floor (a_fee_floor_entries x)"] ra rb assms(2-4)
      by (auto simp: anchor_strings_def anchor_ok_def)
    moreover have "map output_to_bytes (a_anchor_reward_outputs a) = map output_to_bytes (a_anchor_reward_outputs b)"
      using merkle_root_inject [OF dom assms(1), of DOMAIN_ANCHOR_REWARD_ROOT "\<lambda>x. map output_to_bytes (a_anchor_reward_outputs x)"] ra rb assms(2-4)
      by (auto simp: anchor_strings_def anchor_ok_def)
    ultimately show ?thesis using assms(2-4) fee_list_inject output_list_inject by (cases a; cases b) (auto simp: anchor_ok_def)
  next
    case False
    then show ?thesis by (auto simp: inj_on_def collision_def)
  qed
qed

theorem anchor_header_binds_body_witness:
  "anchor_ok pad_hash example_genesis_anchor \<and>
   (example_genesis_anchor\<lparr>a_genesis_commitment := []\<rparr> = example_genesis_anchor\<lparr>a_genesis_commitment := []\<rparr> \<or>
    collision pad_hash (anchor_strings pad_hash example_genesis_anchor \<union> anchor_strings pad_hash example_genesis_anchor))"
  using anchor_header_binds_body [OF pad_hash_digest example_genesis_ok example_genesis_ok] example_genesis_ok by blast

theorem anchor_codec_exact_witness:
  "\<exists>bs. serialize_anchor example_genesis_anchor = Inr bs \<and> deserialize_anchor pad_hash bs = Inr example_genesis_anchor"
proof -
  have "is_ok (serialize_anchor example_genesis_anchor)"
    using anchor_codec_exact [of pad_hash "[]" example_genesis_anchor] example_genesis_ok
    by (simp add: example_genesis_anchor_def Let_def)
  then show ?thesis using anchor_codec_exact [of pad_hash _ example_genesis_anchor] example_genesis_ok by (auto simp: is_ok_iff)
qed

end
