(* ===== verification/Script.thy ===== *)
theory Script
  imports Transaction "HOL-Library.Sublist"
begin

text \<open>
  \<^verbatim>\<open>src/src/tensorpow/tx/script.py\<close>: the stack script interpreter, the standard output templates and the
  check of a spend.

  The digest \<open>H\<close> and the signature scheme \<open>E\<close> are parameters. The stack is the Python list, its top
  at the end. One execution step is \<open>exec_op\<close>; \<open>script_loop\<close> is the \<open>while\<close> loop. The mutual
  recursion of \<open>verify_template\<close> and \<open>_verify_hashlock\<close> is a recursion of \<open>verify_template\<close>
  through its argument \<open>rec\<close>. The clauses \<open>except (ScriptError, TypeError, ValueError): return False\<close>
  are \<open>catch_false\<close>, which lets every other exception through.
\<close>

section \<open>Definitions\<close>

definition SCRIPT_MAX_BYTES :: nat where "SCRIPT_MAX_BYTES = 1024"
definition SCRIPT_MAX_OPS :: nat where "SCRIPT_MAX_OPS = 256"
definition SCRIPT_MAX_STACK_ITEMS :: nat where "SCRIPT_MAX_STACK_ITEMS = 1024"
definition SCRIPT_MAX_ELEMENT_BYTES :: nat where "SCRIPT_MAX_ELEMENT_BYTES = 520"
definition OP_PUSH :: byte where "OP_PUSH = 0x01"
definition OP_VERIFY :: byte where "OP_VERIFY = 0x69"
definition OP_DUP :: byte where "OP_DUP = 0x76"
definition OP_HASH256 :: byte where "OP_HASH256 = 0xAA"
definition OP_CHECKSIG :: byte where "OP_CHECKSIG = 0xAC"
definition OP_CHECKMULTISIG :: byte where "OP_CHECKMULTISIG = 0xAE"
definition OP_HASHLOCK :: byte where "OP_HASHLOCK = 0xB1"
definition OP_CHECKLOCKTIME :: byte where "OP_CHECKLOCKTIME = 0xB2"
definition OP_CHECKLOCKHEIGHT :: byte where "OP_CHECKLOCKHEIGHT = 0xB3"

definition catch_false :: "bool res \<Rightarrow> bool res" where
  "catch_false m = (case m of
     Inl e \<Rightarrow> if type_or_value_error e then Inr False else Inl e
   | Inr b \<Rightarrow> Inr b)"

definition script_require_sig_type :: "int \<Rightarrow> unit res" where
  "script_require_sig_type sig_type =
     bnd (require_uint sig_type U8_MAX) (\<lambda>_. ensure (sig_type = SIG_TYPE_ED25519) ScriptError)"

record script_context =
  ctx_message :: bytes
  ctx_sig_type :: int
  ctx_current_time_ms :: int
  ctx_current_height :: int

definition ScriptContext :: "bytes \<Rightarrow> int \<Rightarrow> int \<Rightarrow> int \<Rightarrow> script_context res" where
  "ScriptContext message sig_type current_time_ms current_height =
     bnd (script_require_sig_type sig_type) (\<lambda>_.
     bnd (require_uint current_time_ms U64_MAX) (\<lambda>_.
     bnd (require_uint current_height U64_MAX) (\<lambda>_.
     Inr \<lparr>ctx_message = message, ctx_sig_type = sig_type, ctx_current_time_ms = current_time_ms,
       ctx_current_height = current_height\<rparr>)))"

subsection \<open>Stack operations\<close>

definition require_stack_item :: "bytes \<Rightarrow> unit res" where
  "require_stack_item value = ensure (\<not> length value > SCRIPT_MAX_ELEMENT_BYTES) ScriptError"

definition require_script :: "bytes \<Rightarrow> unit res" where
  "require_script script = ensure (\<not> length script > SCRIPT_MAX_BYTES) ScriptError"

fun initial_stack_loop :: "bytes list \<Rightarrow> bytes list \<Rightarrow> bytes list res" where
  "initial_stack_loop stack [] = Inr stack"
| "initial_stack_loop stack (item # items) =
     bnd (ensure (\<not> length stack \<ge> SCRIPT_MAX_STACK_ITEMS) ScriptError) (\<lambda>_.
     bnd (require_stack_item item) (\<lambda>_. initial_stack_loop (stack @ [item]) items))"

definition initial_stack :: "bytes list \<Rightarrow> bytes list res" where
  "initial_stack items = initial_stack_loop [] items"

definition spush :: "bytes list \<Rightarrow> bytes \<Rightarrow> bytes list res" where
  "spush stack item =
     bnd (require_stack_item item) (\<lambda>_.
     bnd (ensure (\<not> length stack \<ge> SCRIPT_MAX_STACK_ITEMS) ScriptError) (\<lambda>_.
     Inr (stack @ [item])))"

definition spush_bool :: "bytes list \<Rightarrow> bool \<Rightarrow> bytes list res" where
  "spush_bool stack v = spush stack (if v then [1] else [])"

definition spop :: "bytes list \<Rightarrow> (bytes \<times> bytes list) res" where
  "spop stack = bnd (ensure (stack \<noteq> []) ScriptError) (\<lambda>_. Inr (last stack, butlast stack))"

text \<open>\<open>tuple(_pop(stack) for _ in range(n))\<close>, the first element popped first.\<close>

fun spop_many :: "nat \<Rightarrow> bytes list \<Rightarrow> (bytes list \<times> bytes list) res" where
  "spop_many 0 stack = Inr ([], stack)"
| "spop_many (Suc n) stack =
     bnd (spop stack) (\<lambda>(x, stack1). bnd (spop_many n stack1) (\<lambda>(xs, stack2). Inr (x # xs, stack2)))"

definition decode_small_int :: "bytes \<Rightarrow> int res" where
  "decode_small_int item = bnd (ensure (length item = 1) ScriptError) (\<lambda>_. Inr (uint (item ! 0)))"

definition decode_lock :: "bytes \<Rightarrow> int res" where
  "decode_lock item = bnd (ensure (length item = 8) ScriptError) (\<lambda>_. Inr (from_le item))"

definition truthy :: "bytes \<Rightarrow> bool res" where
  "truthy item = (if item = [] then Inr False else if item = [1] then Inr True else Inl ScriptError)"

definition read_push :: "bytes \<Rightarrow> nat \<Rightarrow> (bytes \<times> nat) res" where
  "read_push script offset =
     bnd (ensure (\<not> offset + U16_BYTES > length script) ScriptError) (\<lambda>_.
     let len = nat (from_le (slice script offset (offset + U16_BYTES)));
         offset = offset + U16_BYTES in
     bnd (ensure (\<not> len > SCRIPT_MAX_ELEMENT_BYTES) ScriptError) (\<lambda>_.
     let stop = offset + len in
     bnd (ensure (\<not> stop > length script) ScriptError) (\<lambda>_.
     Inr (slice script offset stop, stop))))"

definition encode_push :: "bytes \<Rightarrow> bytes res" where
  "encode_push item =
     bnd (require_stack_item item) (\<lambda>_.
     Inr ([OP_PUSH] @ le_bytes U16_BYTES (int (length item)) @ item))"

subsection \<open>Signatures\<close>

definition verify_signature_bytes :: "'k ed25519 \<Rightarrow> int \<Rightarrow> bytes \<Rightarrow> bytes \<Rightarrow> bytes \<Rightarrow> bool" where
  "verify_signature_bytes E sig_type message signature public_key =
     (if length signature \<noteq> ED25519_SIGNATURE_BYTES then False
      else if length public_key \<noteq> ED25519_PUBLIC_KEY_BYTES then False
      else verify_by_sig_type E sig_type message signature public_key)"

text \<open>The inner \<open>while\<close> of \<open>_verify_ordered_multisig\<close>: the keys from the shared index on; \<open>None\<close>
  when no key matches, otherwise the keys after the match.\<close>

fun next_match :: "'k ed25519 \<Rightarrow> int \<Rightarrow> bytes \<Rightarrow> bytes \<Rightarrow> bytes list \<Rightarrow> bytes list option" where
  "next_match E sig_type message signature [] = None"
| "next_match E sig_type message signature (public_key # public_keys) =
     (if verify_signature_bytes E sig_type message signature public_key then Some public_keys
      else next_match E sig_type message signature public_keys)"

fun verify_ordered_multisig :: "'k ed25519 \<Rightarrow> int \<Rightarrow> bytes \<Rightarrow> bytes list \<Rightarrow> bytes list \<Rightarrow> bool" where
  "verify_ordered_multisig E sig_type message [] public_keys = True"
| "verify_ordered_multisig E sig_type message (signature # signatures) public_keys =
     (case next_match E sig_type message signature public_keys of
        None \<Rightarrow> False
      | Some rest \<Rightarrow> verify_ordered_multisig E sig_type message signatures rest)"

definition require_distinct_multisig_keys :: "bytes list \<Rightarrow> unit res" where
  "require_distinct_multisig_keys public_keys =
     ensure (card (set public_keys) = length public_keys) ScriptError"

definition execute_checkmultisig ::
  "'k ed25519 \<Rightarrow> bytes list \<Rightarrow> script_context \<Rightarrow> (bool \<times> bytes list) res" where
  "execute_checkmultisig E stack ctx =
     bnd (spop stack) (\<lambda>(item, stack).
     bnd (decode_small_int item) (\<lambda>pubkey_count.
     bnd (ensure (1 \<le> pubkey_count \<and> pubkey_count \<le> MULTISIG_MAX_KEYS) ScriptError) (\<lambda>_.
     bnd (spop_many (nat pubkey_count) stack) (\<lambda>(popped_keys, stack).
     let public_keys = rev popped_keys in
     bnd (each (\<lambda>k. ensure (length k = ED25519_PUBLIC_KEY_BYTES) ScriptError) public_keys) (\<lambda>_.
     bnd (require_distinct_multisig_keys public_keys) (\<lambda>_.
     bnd (spop stack) (\<lambda>(item, stack).
     bnd (decode_small_int item) (\<lambda>threshold.
     bnd (ensure (1 \<le> threshold \<and> threshold \<le> pubkey_count) ScriptError) (\<lambda>_.
     bnd (spop_many (nat threshold) stack) (\<lambda>(popped_sigs, stack).
     let signatures = rev popped_sigs in
     bnd (each (\<lambda>s. ensure (length s = ED25519_SIGNATURE_BYTES) ScriptError) signatures) (\<lambda>_.
     Inr (verify_ordered_multisig E (ctx_sig_type ctx) (ctx_message ctx) signatures public_keys,
          stack))))))))))))"

subsection \<open>Execution\<close>

definition exec_op ::
  "hash_fn \<Rightarrow> 'k ed25519 \<Rightarrow> script_context \<Rightarrow> bytes \<Rightarrow> byte \<Rightarrow> nat \<Rightarrow> bytes list \<Rightarrow> (nat \<times> bytes list) res" where
  "exec_op H E ctx script opcode offset stack =
     (if opcode = OP_PUSH then
        bnd (read_push script offset) (\<lambda>(item, offset).
        bnd (spush stack item) (\<lambda>stack. Inr (offset, stack)))
      else if opcode = OP_DUP then
        bnd (ensure (stack \<noteq> []) ScriptError) (\<lambda>_.
        bnd (spush stack (last stack)) (\<lambda>stack. Inr (offset, stack)))
      else if opcode = OP_HASH256 then
        bnd (spop stack) (\<lambda>(item, stack).
        bnd (spush stack (hash_bytes H item)) (\<lambda>stack. Inr (offset, stack)))
      else if opcode = OP_CHECKSIG then
        bnd (spop stack) (\<lambda>(public_key, stack).
        bnd (spop stack) (\<lambda>(signature, stack).
        bnd (spush_bool stack
              (verify_signature_bytes E (ctx_sig_type ctx) (ctx_message ctx) signature public_key))
          (\<lambda>stack. Inr (offset, stack))))
      else if opcode = OP_CHECKMULTISIG then
        bnd (execute_checkmultisig E stack ctx) (\<lambda>(b, stack).
        bnd (spush_bool stack b) (\<lambda>stack. Inr (offset, stack)))
      else if opcode = OP_HASHLOCK then
        bnd (spop stack) (\<lambda>(expected_hash, stack).
        bnd (spop stack) (\<lambda>(preimage, stack).
        bnd (ensure (length expected_hash = HASH_LEN_BYTES) ScriptError) (\<lambda>_.
        bnd (spush_bool stack (hash_bytes H preimage = expected_hash)) (\<lambda>stack. Inr (offset, stack)))))
      else if opcode = OP_CHECKLOCKTIME then
        bnd (spop stack) (\<lambda>(item, stack).
        bnd (decode_lock item) (\<lambda>required.
        bnd (spush_bool stack (required = 0 \<or> ctx_current_time_ms ctx \<ge> required))
          (\<lambda>stack. Inr (offset, stack))))
      else if opcode = OP_CHECKLOCKHEIGHT then
        bnd (spop stack) (\<lambda>(item, stack).
        bnd (decode_lock item) (\<lambda>required.
        bnd (spush_bool stack (required = 0 \<or> ctx_current_height ctx \<ge> required))
          (\<lambda>stack. Inr (offset, stack))))
      else if opcode = OP_VERIFY then
        bnd (spop stack) (\<lambda>(item, stack).
        bnd (truthy item) (\<lambda>b.
        bnd (ensure b ScriptError) (\<lambda>_. Inr (offset, stack))))
      else Inl ScriptError)"

lemma read_push_advances: "read_push script offset = Inr (item, offset') \<Longrightarrow> offset \<le> offset'"
  by (auto simp: read_push_def bnd_Inr_iff Let_def)

lemma exec_op_advances: "exec_op H E ctx script opcode offset stack = Inr (offset', stack') \<Longrightarrow> offset \<le> offset'"
  by (auto simp: exec_op_def bnd_Inr_iff dest: read_push_advances split: if_splits prod.splits)

function script_loop ::
  "hash_fn \<Rightarrow> 'k ed25519 \<Rightarrow> script_context \<Rightarrow> bytes \<Rightarrow> nat \<Rightarrow> nat \<Rightarrow> bytes list \<Rightarrow> bytes list res" where
  "script_loop H E ctx script offset op_count stack =
     (if offset < length script then
        bnd (ensure (\<not> op_count + 1 > SCRIPT_MAX_OPS) ScriptError) (\<lambda>_.
        bnd (exec_op H E ctx script (script ! offset) (offset + 1) stack) (\<lambda>(offset, stack).
        script_loop H E ctx script offset (op_count + 1) stack))
      else Inr stack)"
  by pat_completeness auto
termination
  by (relation "measure (\<lambda>(H, E, ctx, script, offset, op_count, stack). length script - offset)")
    (auto dest!: exec_op_advances)

definition execute_script ::
  "hash_fn \<Rightarrow> 'k ed25519 \<Rightarrow> bytes \<Rightarrow> script_context \<Rightarrow> bytes list \<Rightarrow> bytes list res" where
  "execute_script H E script ctx initial =
     bnd (require_script script) (\<lambda>_.
     bnd (initial_stack initial) (\<lambda>stack. script_loop H E ctx script 0 0 stack))"

definition verify_script :: "hash_fn \<Rightarrow> 'k ed25519 \<Rightarrow> bytes \<Rightarrow> script_context \<Rightarrow> bytes list \<Rightarrow> bool res" where
  "verify_script H E script ctx initial = catch_false
     (bnd (execute_script H E script ctx initial) (\<lambda>stack.
      if stack = [] then Inr False else truthy (last stack)))"

subsection \<open>Templates\<close>

definition pubkey_hash :: "hash_fn \<Rightarrow> bytes \<Rightarrow> bytes res" where
  "pubkey_hash H public_key =
     bnd (ensure (length public_key = ED25519_PUBLIC_KEY_BYTES) ValueError) (\<lambda>_.
     Inr (domain_hash H DOMAIN_ADDRESS public_key))"

definition parse_multisig_payload :: "bytes \<Rightarrow> (int \<times> bytes list) res" where
  "parse_multisig_payload payload =
     bnd (ensure (\<not> length payload < 2) ScriptError) (\<lambda>_.
     let threshold = uint (payload ! 0); pubkey_count = uint (payload ! 1) in
     bnd (ensure (1 \<le> pubkey_count \<and> pubkey_count \<le> MULTISIG_MAX_KEYS) ScriptError) (\<lambda>_.
     bnd (ensure (1 \<le> threshold \<and> threshold \<le> pubkey_count) ScriptError) (\<lambda>_.
     let expected_len = 2 + pubkey_count * int ED25519_PUBLIC_KEY_BYTES in
     bnd (ensure (int (length payload) = expected_len) ScriptError) (\<lambda>_.
     let public_keys = pieces ED25519_PUBLIC_KEY_BYTES (drop 2 payload) in
     bnd (require_distinct_multisig_keys public_keys) (\<lambda>_. Inr (threshold, public_keys))))))"

definition infer_inner_template_id :: "bytes \<Rightarrow> int res" where
  "infer_inner_template_id payload =
     (if length payload = HASH_LEN_BYTES then Inr TEMPLATE_PKH
      else bnd (parse_multisig_payload payload) (\<lambda>_. Inr TEMPLATE_MULTISIG))"

definition require_template_id :: "int \<Rightarrow> unit res" where
  "require_template_id template_id =
     bnd (require_uint template_id U16_MAX) (\<lambda>_.
     ensure (template_id \<in> {TEMPLATE_PKH, TEMPLATE_MULTISIG, TEMPLATE_HASHLOCK}) ScriptError)"

function validate_template_payload :: "int \<Rightarrow> bytes \<Rightarrow> unit res" where
  "validate_template_payload template_id payload =
     bnd (require_template_id template_id) (\<lambda>_.
     if template_id = TEMPLATE_PKH then ensure (length payload = HASH_LEN_BYTES) ScriptError
     else if template_id = TEMPLATE_MULTISIG then bnd (parse_multisig_payload payload) (\<lambda>_. Inr ())
     else if template_id = TEMPLATE_HASHLOCK then
       bnd (ensure (\<not> length payload \<le> HASH_LEN_BYTES) ScriptError) (\<lambda>_.
       bnd (infer_inner_template_id (drop HASH_LEN_BYTES payload)) (\<lambda>inner_template.
       validate_template_payload inner_template (drop HASH_LEN_BYTES payload)))
     else Inr ())"
  by pat_completeness auto
termination
  by (relation "measure (\<lambda>(template_id, payload). length payload)") (auto simp: HASH_LEN_BYTES_def)

definition check_locks :: "int \<Rightarrow> int \<Rightarrow> int \<Rightarrow> int \<Rightarrow> unit res" where
  "check_locks locktime_ms lockheight current_time_ms current_height =
     bnd (require_uint locktime_ms U64_MAX) (\<lambda>_.
     bnd (require_uint lockheight U64_MAX) (\<lambda>_.
     bnd (require_uint current_time_ms U64_MAX) (\<lambda>_.
     bnd (require_uint current_height U64_MAX) (\<lambda>_.
     bnd (ensure (\<not> (locktime_ms \<noteq> 0 \<and> current_time_ms < locktime_ms)) ScriptError) (\<lambda>_.
     ensure (\<not> (lockheight \<noteq> 0 \<and> current_height < lockheight)) ScriptError)))))"

definition verify_pkh :: "hash_fn \<Rightarrow> 'k ed25519 \<Rightarrow> bytes \<Rightarrow> bytes \<Rightarrow> bytes \<Rightarrow> int \<Rightarrow> bool res" where
  "verify_pkh H E payload witness message sig_type =
     (if length witness \<noteq> ED25519_SIGNATURE_BYTES + ED25519_PUBLIC_KEY_BYTES then Inr False
      else
        let signature = take ED25519_SIGNATURE_BYTES witness;
            public_key = drop ED25519_SIGNATURE_BYTES witness in
        bnd (pubkey_hash H public_key) (\<lambda>h.
        Inr (h = payload \<and> verify_signature_bytes E sig_type message signature public_key)))"

definition verify_multisig_template ::
  "'k ed25519 \<Rightarrow> bytes \<Rightarrow> bytes \<Rightarrow> bytes \<Rightarrow> int \<Rightarrow> bool res" where
  "verify_multisig_template E payload witness message sig_type =
     bnd (parse_multisig_payload payload) (\<lambda>(threshold, public_keys).
     if int (length witness) \<noteq> threshold * int ED25519_SIGNATURE_BYTES then Inr False
     else Inr (verify_ordered_multisig E sig_type message
                 (pieces ED25519_SIGNATURE_BYTES witness) public_keys))"

definition verify_hashlock ::
  "hash_fn \<Rightarrow> (int \<Rightarrow> bytes \<Rightarrow> bytes \<Rightarrow> bool res) \<Rightarrow> bytes \<Rightarrow> bytes \<Rightarrow> bool res" where
  "verify_hashlock H rec payload witness =
     (if length witness < U16_BYTES then Inr False
      else
        let preimage_len = nat (from_le (take U16_BYTES witness)) in
        if preimage_len > SCRIPT_MAX_ELEMENT_BYTES then Inr False
        else
          let preimage_end = U16_BYTES + preimage_len in
          if preimage_end > length witness then Inr False
          else
            let expected_hash = take HASH_LEN_BYTES payload;
                inner_payload = drop HASH_LEN_BYTES payload;
                preimage = slice witness U16_BYTES preimage_end;
                inner_witness = drop preimage_end witness in
            if hash_bytes H preimage \<noteq> expected_hash then Inr False
            else bnd (infer_inner_template_id inner_payload) (\<lambda>inner_template.
                 rec inner_template inner_payload inner_witness))"

lemma verify_hashlock_cong [fundef_cong]:
  "H = H' \<Longrightarrow> payload = payload' \<Longrightarrow> witness = witness' \<Longrightarrow>
   (\<And>t w. rec t (drop HASH_LEN_BYTES payload') w = rec' t (drop HASH_LEN_BYTES payload') w) \<Longrightarrow>
   verify_hashlock H rec payload witness = verify_hashlock H' rec' payload' witness'"
  by (simp add: verify_hashlock_def Let_def)

lemma validate_hashlock_length:
  "validate_template_payload TEMPLATE_HASHLOCK payload = Inr u \<Longrightarrow> HASH_LEN_BYTES < length payload"
  by (simp add: bnd_Inr_iff TEMPLATE_HASHLOCK_def TEMPLATE_PKH_def TEMPLATE_MULTISIG_def)

lemma catch_false_cong [fundef_cong]: "m = m' \<Longrightarrow> catch_false m = catch_false m'"
  by simp

function verify_template ::
  "hash_fn \<Rightarrow> 'k ed25519 \<Rightarrow> int \<Rightarrow> bytes \<Rightarrow> bytes \<Rightarrow> bytes \<Rightarrow> int \<Rightarrow> int \<Rightarrow> int \<Rightarrow> int \<Rightarrow> int \<Rightarrow> bool res" where
  "verify_template H E template_id payload witness message sig_type locktime_ms lockheight
       current_time_ms current_height =
     catch_false
      (bnd (validate_template_payload template_id payload) (\<lambda>_.
       bnd (require_max_len witness TX_WITNESS_MAX_BYTES) (\<lambda>_.
       bnd (script_require_sig_type sig_type) (\<lambda>_.
       bnd (check_locks locktime_ms lockheight current_time_ms current_height) (\<lambda>_.
       if template_id = TEMPLATE_PKH then verify_pkh H E payload witness message sig_type
       else if template_id = TEMPLATE_MULTISIG then
         verify_multisig_template E payload witness message sig_type
       else if template_id = TEMPLATE_HASHLOCK then
         verify_hashlock H (\<lambda>t p w. verify_template H E t p w message sig_type 0 0 0 0) payload witness
       else Inr False)))))"
  by pat_completeness auto
termination
  by (relation "measure (\<lambda>(H, E, t, payload, rest). length payload)")
    (auto dest!: validate_hashlock_length simp: HASH_LEN_BYTES_def simp del: validate_template_payload.simps)

declare validate_template_payload.simps [simp del] verify_template.simps [simp del]
  script_loop.simps [simp del]

definition verify_utxo_spend ::
  "hash_fn \<Rightarrow> 'k ed25519 \<Rightarrow> utxo \<Rightarrow> bytes \<Rightarrow> bytes \<Rightarrow> int \<Rightarrow> int \<Rightarrow> int \<Rightarrow> bool res" where
  "verify_utxo_spend H E utxo witness message sig_type current_time_ms current_height =
     (let payload = (if u_template_id utxo = TEMPLATE_PKH then u_owner_pubkey_hash utxo
                     else u_payload utxo) in
      verify_template H E (u_template_id utxo) payload witness message sig_type
        (u_locktime_ms utxo) (u_lockheight utxo) current_time_ms current_height)"

section \<open>Specification\<close>

definition stack_ok :: "bytes list \<Rightarrow> bool" where
  "stack_ok st \<longleftrightarrow> length st \<le> SCRIPT_MAX_STACK_ITEMS \<and> (\<forall>x \<in> set st. length x \<le> SCRIPT_MAX_ELEMENT_BYTES)"

abbreviation script_errors :: "'a res \<Rightarrow> bool" where
  "script_errors \<equiv> raises_only (\<lambda>e. e = ScriptError)"

definition lock_mature :: "int \<Rightarrow> int \<Rightarrow> bool" where
  "lock_mature lock now \<longleftrightarrow> lock = 0 \<or> lock \<le> now"

definition uint64 :: "int \<Rightarrow> bool" where
  "uint64 v \<longleftrightarrow> 0 \<le> v \<and> v \<le> U64_MAX"

section \<open>The interpreter stays within its limits\<close>

lemma spop_Inr_iff: "spop st = Inr (x, st') \<longleftrightarrow> st = st' @ [x]"
  by (auto simp: spop_def bnd_Inr_iff)

lemma spop_many_Inr: "spop_many n st = Inr (xs, st') \<Longrightarrow> st = st' @ rev xs \<and> length xs = n"
  by (induction n arbitrary: st xs) (auto simp: bnd_Inr_iff spop_Inr_iff split: prod.splits)

lemma spush_Inr_iff:
  "spush st x = Inr st' \<longleftrightarrow> st' = st @ [x] \<and> length x \<le> SCRIPT_MAX_ELEMENT_BYTES
     \<and> length st < SCRIPT_MAX_STACK_ITEMS"
  by (auto simp: spush_def bnd_Inr_iff require_stack_item_def)

lemma stack_ok_append: "stack_ok (xs @ ys) \<Longrightarrow> stack_ok xs"
  by (simp add: stack_ok_def)

lemma stack_ok_spush: "stack_ok st \<Longrightarrow> spush st x = Inr st' \<Longrightarrow> stack_ok st'"
  by (auto simp: stack_ok_def spush_Inr_iff)

lemma checkmultisig_stack:
  "execute_checkmultisig E st ctx = Inr (b, st') \<Longrightarrow> \<exists>ys. st = st' @ ys"
  by (auto simp: execute_checkmultisig_def bnd_Inr_iff Let_def spop_Inr_iff dest!: spop_many_Inr split: prod.splits)

lemma exec_op_stack_ok:
  assumes "stack_ok st" "exec_op H E ctx script opc off st = Inr (off', st')"
  shows "stack_ok st'"
  using assms
  by (auto simp: exec_op_def bnd_Inr_iff spush_bool_def spop_Inr_iff
      intro: stack_ok_append elim!: stack_ok_spush [rotated] dest!: checkmultisig_stack
      split: if_splits prod.splits)

lemma script_loop_stack_ok:
  "stack_ok st \<Longrightarrow> script_loop H E ctx script off n st = Inr st' \<Longrightarrow> stack_ok st'"
proof (induction H E ctx script off n st rule: script_loop.induct)
  case (1 H E ctx script off n st)
  show ?case
  proof (cases "off < length script")
    case False
    then show ?thesis using 1(2,3) by (simp add: script_loop.simps [of H E ctx script off])
  next
    case True
    with 1(3) obtain off' st1 where s: "ensure (\<not> n + 1 > SCRIPT_MAX_OPS) ScriptError = Inr ()"
        "exec_op H E ctx script (script ! off) (off + 1) st = Inr (off', st1)"
        "script_loop H E ctx script off' (n + 1) st1 = Inr st'"
      by (auto simp: script_loop.simps [of H E ctx script off] bnd_Inr_iff split: prod.splits)
    show ?thesis using 1(1) [OF True s(1,2) refl _ s(3)] exec_op_stack_ok [OF 1(2) s(2)] by simp
  qed
qed

lemma initial_stack_ok: "initial_stack items = Inr st \<Longrightarrow> stack_ok st"
proof -
  have "stack_ok st0 \<Longrightarrow> initial_stack_loop st0 items = Inr st \<Longrightarrow> stack_ok st" for st0
    by (induction st0 items rule: initial_stack_loop.induct)
      (auto simp: bnd_Inr_iff require_stack_item_def stack_ok_def)
  moreover have "stack_ok []" by (simp add: stack_ok_def)
  ultimately show "initial_stack items = Inr st \<Longrightarrow> stack_ok st" unfolding initial_stack_def by blast
qed

lemma script_errors_ops:
  "script_errors (spop st)" "script_errors (spush st x)" "script_errors (spush_bool st b)"
  "script_errors (decode_small_int x)" "script_errors (decode_lock x)" "script_errors (truthy x)"
  "script_errors (read_push script off)" "script_errors (require_distinct_multisig_keys ks)"
  unfolding spop_def spush_bool_def spush_def require_stack_item_def decode_small_int_def decode_lock_def
    truthy_def read_push_def require_distinct_multisig_keys_def
  by (intro raises_intros refl)+

lemma script_errors_spop_many: "script_errors (spop_many n st)"
  by (induction n arbitrary: st) (auto intro!: raises_intros script_errors_ops)

lemma script_errors_checkmultisig: "script_errors (execute_checkmultisig E st ctx)"
  unfolding execute_checkmultisig_def
  by (intro raises_intros script_errors_ops script_errors_spop_many refl)

lemma script_errors_exec_op: "script_errors (exec_op H E ctx script opc off st)"
  unfolding exec_op_def
  by (intro raises_intros script_errors_ops script_errors_checkmultisig refl)

lemma script_errors_loop: "script_errors (script_loop H E ctx script off n st)"
proof (induction H E ctx script off n st rule: script_loop.induct)
  case (1 H E ctx script off n st)
  then show ?case
    by (subst script_loop.simps) (auto intro!: raises_intros script_errors_exec_op)
qed

lemma script_errors_initial: "script_errors (initial_stack items)"
proof -
  have "script_errors (initial_stack_loop st items)" for st
    by (induction st items rule: initial_stack_loop.induct)
      (auto simp: require_stack_item_def intro!: raises_intros)
  then show ?thesis by (simp add: initial_stack_def)
qed

lemma script_errors_execute: "script_errors (execute_script H E script ctx items)"
  unfolding execute_script_def require_script_def
  by (intro raises_intros script_errors_initial script_errors_loop refl)

lemma catch_false_total: "value_errors m \<Longrightarrow> \<exists>b. catch_false m = Inr b"
  by (auto simp: catch_false_def raises_only_def split: sum.splits)

lemma value_errors_of_script: "script_errors m \<Longrightarrow> value_errors m"
  by (auto simp: raises_only_def)

section \<open>Ordered multisignatures\<close>

lemma next_match_None: "next_match E t m s ks = None \<longleftrightarrow> (\<forall>k \<in> set ks. \<not> verify_signature_bytes E t m s k)"
  by (induction ks) auto

lemma next_match_Some:
  "next_match E t m s ks = Some rest \<Longrightarrow> \<exists>k. subseq (k # rest) ks \<and> verify_signature_bytes E t m s k"
proof (induction ks)
  case (Cons a ks)
  show ?case
  proof (cases "verify_signature_bytes E t m s a")
    case True
    then show ?thesis using Cons.prems by auto
  next
    case False
    then obtain k where "subseq (k # rest) ks" "verify_signature_bytes E t m s k" using Cons by auto
    then show ?thesis using list_emb_Cons by blast
  qed
qed simp

lemma next_match_first:
  "next_match E t m s ks = Some rest \<Longrightarrow> verify_signature_bytes E t m s k \<Longrightarrow> subseq (k # ks') ks \<Longrightarrow>
   subseq ks' rest"
  by (induction ks) (auto split: if_splits intro: subseq_Cons')

lemma verify_ordered_multisig_iff:
  "verify_ordered_multisig E t m sigs ks \<longleftrightarrow>
   (\<exists>used. subseq used ks \<and> list_all2 (verify_signature_bytes E t m) sigs used)"
proof (induction sigs arbitrary: ks)
  case Nil
  then show ?case by auto
next
  case (Cons s sigs)
  show ?case
  proof (cases "next_match E t m s ks")
    case None
    have "k \<in> set ks" if "subseq (k # used) ks" for k used
      using list_emb_set [OF that, of k] by auto
    then show ?thesis using None next_match_None [of E t m s ks] by (auto simp: list_all2_Cons1)
  next
    case (Some rest)
    from next_match_Some [OF Some] obtain k where
      k: "subseq (k # rest) ks" "verify_signature_bytes E t m s k" by blast
    have "(\<exists>used. subseq used rest \<and> list_all2 (verify_signature_bytes E t m) sigs used) \<longleftrightarrow>
      (\<exists>k' used. subseq (k' # used) ks \<and> verify_signature_bytes E t m s k'
         \<and> list_all2 (verify_signature_bytes E t m) sigs used)"
    proof
      assume "\<exists>used. subseq used rest \<and> list_all2 (verify_signature_bytes E t m) sigs used"
      then obtain used where "subseq used rest" "list_all2 (verify_signature_bytes E t m) sigs used" by blast
      then show "\<exists>k' used. subseq (k' # used) ks \<and> verify_signature_bytes E t m s k'
          \<and> list_all2 (verify_signature_bytes E t m) sigs used"
        using k by (meson subseq_order.trans subseq_Cons2)
    qed (use next_match_first [OF Some] in blast)
    then show ?thesis using Some Cons.IH by (auto simp: list_all2_Cons1)
  qed
qed


section \<open>Templates\<close>

lemma parse_multisig_ok: "is_ok (parse_multisig_payload p) \<longleftrightarrow> is_ok (require_multisig_payload p)"
  by (simp add: parse_multisig_payload_def require_multisig_payload_def require_distinct_multisig_keys_def
      Let_def bnd_ensure) (auto simp: is_ok_iff)

lemma validate_pkh: "validate_template_payload TEMPLATE_PKH p = ensure (length p = HASH_LEN_BYTES) ScriptError"
  by (subst validate_template_payload.simps) (simp add: require_template_id_def bnd_require_uint
      TEMPLATE_PKH_def uint_limits)

lemma validate_multisig:
  "validate_template_payload TEMPLATE_MULTISIG p = bnd (parse_multisig_payload p) (\<lambda>_. Inr ())"
  by (subst validate_template_payload.simps) (simp add: require_template_id_def bnd_require_uint
      TEMPLATE_PKH_def TEMPLATE_MULTISIG_def uint_limits)

lemma is_ok_bnd: "is_ok (bnd m f) \<longleftrightarrow> (\<exists>x. m = Inr x \<and> is_ok (f x))"
  by (cases m) auto

lemma is_ok_ensure [simp]: "is_ok (ensure c e) \<longleftrightarrow> c"
  by (simp add: ensure_def)

lemma validate_hashlock:
  "is_ok (validate_template_payload TEMPLATE_HASHLOCK p) \<longleftrightarrow>
   HASH_LEN_BYTES < length p \<and> is_ok (require_inner_template_payload (drop HASH_LEN_BYTES p))"
proof -
  let ?q = "drop HASH_LEN_BYTES p"
  have "validate_template_payload TEMPLATE_HASHLOCK p =
      bnd (ensure (\<not> length p \<le> HASH_LEN_BYTES) ScriptError) (\<lambda>_.
      bnd (infer_inner_template_id ?q) (\<lambda>t. validate_template_payload t ?q))"
    by (subst validate_template_payload.simps) (simp add: require_template_id_def bnd_require_uint
      TEMPLATE_PKH_def TEMPLATE_MULTISIG_def TEMPLATE_HASHLOCK_def uint_limits)
  moreover have "is_ok (bnd (infer_inner_template_id ?q) (\<lambda>t. validate_template_payload t ?q)) \<longleftrightarrow>
      is_ok (require_inner_template_payload ?q)"
  proof (cases "length ?q = HASH_LEN_BYTES")
    case True
    then show ?thesis
      unfolding infer_inner_template_id_def require_inner_template_payload_def by (simp add: validate_pkh)
  next
    case False
    then have "infer_inner_template_id ?q = bnd (parse_multisig_payload ?q) (\<lambda>_. Inr TEMPLATE_MULTISIG)"
      "require_inner_template_payload ?q = require_multisig_payload ?q"
      by (simp_all only: infer_inner_template_id_def require_inner_template_payload_def if_False)
    then show ?thesis using parse_multisig_ok [of ?q] by (auto simp: is_ok_bnd is_ok_iff bnd_Inr_iff validate_multisig)
  qed
  ultimately show ?thesis by (auto simp: is_ok_bnd not_le)
qed

lemma value_errors_parse: "value_errors (parse_multisig_payload p)"
  unfolding parse_multisig_payload_def require_distinct_multisig_keys_def by (intro value_errors_intros)

lemma value_errors_infer: "value_errors (infer_inner_template_id p)"
  unfolding infer_inner_template_id_def by (intro value_errors_intros value_errors_parse)

lemma value_errors_validate: "value_errors (validate_template_payload t p)"
proof (induction t p rule: validate_template_payload.induct)
  case (1 t p)
  then show ?case
    by (subst validate_template_payload.simps)
      (auto simp: require_template_id_def intro!: value_errors_intros value_errors_parse value_errors_infer)
qed

lemma verify_hashlock_errors:
  "(\<And>t w. value_errors (rec t (drop HASH_LEN_BYTES p) w)) \<Longrightarrow> value_errors (verify_hashlock H rec p w)"
  unfolding verify_hashlock_def Let_def by (intro value_errors_intros value_errors_infer)

lemma verify_template_body_errors:
  assumes "\<And>t w. HASH_LEN_BYTES < length p \<Longrightarrow>
    value_errors (verify_template H E t (drop HASH_LEN_BYTES p) w m s 0 0 0 0)"
  shows "value_errors (bnd (validate_template_payload t p) (\<lambda>_.
       bnd (require_max_len w TX_WITNESS_MAX_BYTES) (\<lambda>_.
       bnd (script_require_sig_type s) (\<lambda>_.
       bnd (check_locks l h ct ch) (\<lambda>_.
       if t = TEMPLATE_PKH then verify_pkh H E p w m s
       else if t = TEMPLATE_MULTISIG then verify_multisig_template E p w m s
       else if t = TEMPLATE_HASHLOCK then
         verify_hashlock H (\<lambda>t p w. verify_template H E t p w m s 0 0 0 0) p w
       else Inr False)))))"
proof (rule raises_bnd [OF value_errors_validate])
  fix u
  assume v: "validate_template_payload t p = Inr u"
  have "value_errors (verify_pkh H E p w m s)" "value_errors (verify_multisig_template E p w m s)"
    "value_errors (check_locks l h ct ch)"
    unfolding verify_pkh_def verify_multisig_template_def pubkey_hash_def check_locks_def
    by (intro value_errors_intros value_errors_parse)+
  moreover have "value_errors (verify_hashlock H (\<lambda>t p w. verify_template H E t p w m s 0 0 0 0) p w)"
    if "t = TEMPLATE_HASHLOCK"
    using v that validate_hashlock_length by (intro verify_hashlock_errors assms) blast
  ultimately show "value_errors (bnd (require_max_len w TX_WITNESS_MAX_BYTES) (\<lambda>_.
       bnd (script_require_sig_type s) (\<lambda>_.
       bnd (check_locks l h ct ch) (\<lambda>_.
       if t = TEMPLATE_PKH then verify_pkh H E p w m s
       else if t = TEMPLATE_MULTISIG then verify_multisig_template E p w m s
       else if t = TEMPLATE_HASHLOCK then
         verify_hashlock H (\<lambda>t p w. verify_template H E t p w m s 0 0 0 0) p w
       else Inr False))))"
    unfolding require_max_len_def script_require_sig_type_def
    by (auto intro!: raises_bnd raises_ensure raises_require_uint raises_Inr)
qed

lemma verify_template_total:
  "\<exists>b. verify_template H E t p w m s l h ct ch = Inr b"
proof (induction "length p" arbitrary: t p w l h ct ch rule: less_induct)
  case less
  have "value_errors (verify_template H E t' (drop HASH_LEN_BYTES p) w' m s 0 0 0 0)"
    if "HASH_LEN_BYTES < length p" for t' w'
  proof -
    have "length (drop HASH_LEN_BYTES p) < length p" using that by (simp add: HASH_LEN_BYTES_def)
    from less [OF this, of t' w' 0 0 0 0] show ?thesis by (auto simp: raises_only_def)
  qed
  then show ?case
    by (subst verify_template.simps) (intro catch_false_total verify_template_body_errors)
qed


lemma check_locks_eq:
  "uint64 l \<Longrightarrow> uint64 h \<Longrightarrow> uint64 ct \<Longrightarrow> uint64 ch \<Longrightarrow>
   check_locks l h ct ch = ensure (lock_mature l ct \<and> lock_mature h ch) ScriptError"
  by (auto simp: check_locks_def bnd_require_uint bnd_ensure lock_mature_def uint64_def ensure_def)

lemma verify_signature_bytes_eq:
  "verify_signature_bytes E SIG_TYPE_ED25519 m s k = verify E m s k"
  by (auto simp: verify_signature_bytes_def verify_by_sig_type_def sig_dispatch_def verify_def load_public_key_def)

lemma verify_lengths: "verify E m s k \<Longrightarrow> length s = ED25519_SIGNATURE_BYTES \<and> length k = ED25519_PUBLIC_KEY_BYTES"
  by (auto simp: verify_def load_public_key_def split: if_splits)

lemma concat_pieces: "0 < n \<Longrightarrow> concat (pieces n bs) = bs"
  by (induction n bs rule: pieces.induct) (subst pieces.simps, simp)

lemma pieces_concat: "0 < n \<Longrightarrow> \<forall>b \<in> set bss. length b = n \<Longrightarrow> pieces n (concat bss) = bss"
  by (induction bss) (simp_all add: pieces.simps, auto)

lemma length_pieces: "0 < n \<Longrightarrow> length bs = k * n \<Longrightarrow> length (pieces n bs) = k \<and> (\<forall>b \<in> set (pieces n bs). length b = n)"
proof (induction k arbitrary: bs)
  case 0
  then show ?case by (simp add: pieces.simps)
next
  case (Suc k)
  then have "bs \<noteq> []" "length (drop n bs) = k * n" by auto
  then show ?case using Suc.IH [of "drop n bs"] Suc.prems by (subst (1 2) pieces.simps) auto
qed

lemma pkh_witness_iff:
  "verify_pkh H E owner w m SIG_TYPE_ED25519 = Inr (\<exists>sig pk. w = sig @ pk
     \<and> domain_hash H DOMAIN_ADDRESS pk = owner \<and> verify E m sig pk)"
proof (cases "length w = 96")
  case False
  then show ?thesis
    using verify_lengths [of E m]
    by (fastforce simp: verify_pkh_def ED25519_SIGNATURE_BYTES_def ED25519_PUBLIC_KEY_BYTES_def)
next
  case True
  have "(\<exists>sig pk. w = sig @ pk \<and> domain_hash H DOMAIN_ADDRESS pk = owner \<and> verify E m sig pk) \<longleftrightarrow>
      domain_hash H DOMAIN_ADDRESS (drop 64 w) = owner \<and> verify E m (take 64 w) (drop 64 w)"
    (is "?L \<longleftrightarrow> ?R")
  proof
    assume ?L
    then obtain sig pk where w: "w = sig @ pk" "domain_hash H DOMAIN_ADDRESS pk = owner" "verify E m sig pk" by blast
    with verify_lengths [OF w(3)] show ?R by (simp add: ED25519_SIGNATURE_BYTES_def)
  next
    assume ?R
    then show ?L by (intro exI [of _ "take 64 w"] exI [of _ "drop 64 w"]) simp
  qed
  then show ?thesis using True
    by (simp add: verify_pkh_def pubkey_hash_def bnd_ensure ED25519_SIGNATURE_BYTES_def ED25519_PUBLIC_KEY_BYTES_def
        verify_signature_bytes_eq Let_def)
qed

lemma multisig_witness_iff:
  assumes "parse_multisig_payload payload = Inr (n, keys)"
  shows "verify_multisig_template E payload w m SIG_TYPE_ED25519 =
    Inr (\<exists>sigs used. w = concat sigs \<and> int (length sigs) = n \<and> subseq used keys \<and> list_all2 (verify E m) sigs used)"
proof (cases "int (length w) = n * 64")
  case False
  have "int (length (concat sigs)) = n * 64" if "int (length sigs) = n" "list_all2 (verify E m) sigs used" for sigs used
  proof -
    have "\<forall>s \<in> set sigs. length s = 64"
      using that(2) verify_lengths by (fastforce simp: list_all2_conv_all_nth in_set_conv_nth ED25519_SIGNATURE_BYTES_def)
    then have "length (concat sigs) = length sigs * 64" by (induction sigs) auto
    then show ?thesis using that(1) by simp
  qed
  then show ?thesis using False assms
    by (auto simp: verify_multisig_template_def ED25519_SIGNATURE_BYTES_def)
next
  case True
  then have "length w = nat n * 64" by simp
  from length_pieces [OF _ this] have pc: "length (pieces 64 w) = nat n" "0 \<le> n" using True by auto
  have "(\<exists>sigs used. w = concat sigs \<and> int (length sigs) = n \<and> subseq used keys \<and> list_all2 (verify E m) sigs used)
    \<longleftrightarrow> (\<exists>used. subseq used keys \<and> list_all2 (verify E m) (pieces 64 w) used)" (is "?L \<longleftrightarrow> ?R")
  proof
    assume ?L
    then obtain sigs used where s: "w = concat sigs" "subseq used keys" "list_all2 (verify E m) sigs used" by blast
    have "\<forall>s \<in> set sigs. length s = 64"
      using s(3) verify_lengths by (fastforce simp: list_all2_conv_all_nth in_set_conv_nth ED25519_SIGNATURE_BYTES_def)
    then have "pieces 64 w = sigs" using s(1) pieces_concat by simp
    then show ?R using s by blast
  next
    assume ?R
    then show ?L using pc concat_pieces [of 64 w] by (metis int_nat_eq zero_less_numeral)
  qed
  moreover have "verify_signature_bytes E SIG_TYPE_ED25519 m = verify E m"
    by (intro ext verify_signature_bytes_eq)
  ultimately show ?thesis using True assms
    by (simp add: verify_multisig_template_def ED25519_SIGNATURE_BYTES_def verify_ordered_multisig_iff)
qed

lemma parse_multisig_count: "parse_multisig_payload p = Inr (n, keys) \<Longrightarrow> 1 \<le> n \<and> n \<le> 15"
  by (auto simp: parse_multisig_payload_def bnd_Inr_iff Let_def MULTISIG_MAX_KEYS_def)

section \<open>Properties\<close>

text \<open>(C21) The interpreter is total and bounded: on every script, context and initial stack it ends,
  raises nothing but \<open>ScriptError\<close>, and leaves at most 1024 items of at most 520 bytes;
  \<open>verify_script\<close> always answers.\<close>

theorem execute_script_bounded:
  "(case execute_script H E script ctx items of
      Inl e \<Rightarrow> e = ScriptError
    | Inr stack \<Rightarrow> length stack \<le> 1024 \<and> list_all (\<lambda>x. length x \<le> 520) stack)
   \<and> (\<exists>b. verify_script H E script ctx items = Inr b)"
proof
  show "case execute_script H E script ctx items of Inl e \<Rightarrow> e = ScriptError
    | Inr stack \<Rightarrow> length stack \<le> 1024 \<and> list_all (\<lambda>x. length x \<le> 520) stack"
  proof (cases "execute_script H E script ctx items")
    case (Inl e)
    then show ?thesis using script_errors_execute [of H E script ctx items] by (simp add: raises_only_def)
  next
    case (Inr st)
    then have "stack_ok st"
      by (auto simp: execute_script_def bnd_Inr_iff dest!: initial_stack_ok elim!: script_loop_stack_ok [rotated])
    then show ?thesis using Inr
      by (simp add: stack_ok_def SCRIPT_MAX_STACK_ITEMS_def SCRIPT_MAX_ELEMENT_BYTES_def list_all_iff)
  qed
  show "\<exists>b. verify_script H E script ctx items = Inr b"
    unfolding verify_script_def
    by (intro catch_false_total value_errors_of_script raises_intros script_errors_execute script_errors_ops)
qed

text \<open>(C22) The greedy multisignature check accepts exactly when the signatures can be matched, in their
  order, with a subsequence of the public keys.\<close>

theorem ordered_multisig_complete:
  "verify_ordered_multisig E SIG_TYPE_ED25519 message signatures public_keys \<longleftrightarrow>
   (\<exists>used. subseq used public_keys \<and> list_all2 (verify E message) signatures used)"
proof -
  have "verify_signature_bytes E SIG_TYPE_ED25519 message = verify E message"
    by (intro ext verify_signature_bytes_eq)
  then show ?thesis by (simp add: verify_ordered_multisig_iff)
qed

text \<open>The two validators of template payloads agree: \<open>validate_template_payload\<close> of the script
  module and \<open>_require_template_payload\<close> of the transaction module accept the same payloads for every
  template identifier, so the inferred inner template of an accepted output never fails at spending
  time.\<close>

theorem template_validators_agree:
  "is_ok (validate_template_payload template_id payload) \<longleftrightarrow> is_ok (require_template_payload template_id payload)"
proof -
  have other: "\<not> is_ok (validate_template_payload t payload)"
    if "t \<notin> {TEMPLATE_PKH, TEMPLATE_MULTISIG, TEMPLATE_HASHLOCK}" for t
    using that by (subst validate_template_payload.simps) (simp add: is_ok_bnd require_template_id_def bnd_Inr_iff)
  have ne: "TEMPLATE_MULTISIG \<noteq> TEMPLATE_PKH" "TEMPLATE_HASHLOCK \<noteq> TEMPLATE_PKH" "TEMPLATE_HASHLOCK \<noteq> TEMPLATE_MULTISIG"
    by (simp_all add: TEMPLATE_PKH_def TEMPLATE_MULTISIG_def TEMPLATE_HASHLOCK_def)
  consider "template_id = TEMPLATE_PKH" | "template_id = TEMPLATE_MULTISIG" | "template_id = TEMPLATE_HASHLOCK"
    | "template_id \<notin> {TEMPLATE_PKH, TEMPLATE_MULTISIG, TEMPLATE_HASHLOCK}" by blast
  then show ?thesis
  proof cases
    case 1
    then show ?thesis by (simp add: validate_pkh require_template_payload_def)
  next
    case 2
    have "is_ok (bnd (parse_multisig_payload payload) (\<lambda>_. Inr ())) \<longleftrightarrow> is_ok (parse_multisig_payload payload)"
      by (cases "parse_multisig_payload payload") auto
    then show ?thesis using 2 ne parse_multisig_ok [of payload]
      by (simp add: validate_multisig require_template_payload_def)
  next
    case 3
    then show ?thesis using ne by (simp add: validate_hashlock require_template_payload_def is_ok_bnd not_le)
  next
    case 4
    then show ?thesis using other by (simp add: require_template_payload_def)
  qed
qed

text \<open>Spending a pay-to-key-hash output: \<open>verify_utxo_spend\<close> always answers, and answers \<open>True\<close>
  exactly when both absolute locks are mature and the witness is a signature that verifies followed
  by the public key whose address hash owns the output.\<close>

theorem pkh_spend_iff:
  assumes "utxo_ok u" "u_template_id u = TEMPLATE_PKH" "uint64 now" "uint64 height"
  shows "verify_utxo_spend H E u witness message SIG_TYPE_ED25519 now height =
    Inr (lock_mature (u_locktime_ms u) now \<and> lock_mature (u_lockheight u) height
      \<and> (\<exists>sig pk. witness = sig @ pk \<and> domain_hash H DOMAIN_ADDRESS pk = u_owner_pubkey_hash u
           \<and> verify E message sig pk))"
proof -
  have len: "length (u_owner_pubkey_hash u) = HASH_LEN_BYTES" using assms(1) by (simp add: utxo_ok_def)
  have lk: "check_locks (u_locktime_ms u) (u_lockheight u) now height =
      ensure (lock_mature (u_locktime_ms u) now \<and> lock_mature (u_lockheight u) height) ScriptError"
    using assms by (intro check_locks_eq) (auto simp: utxo_ok_def uint64_def)
  have long: "\<not> (\<exists>sig pk. witness = sig @ pk \<and> domain_hash H DOMAIN_ADDRESS pk = u_owner_pubkey_hash u
      \<and> verify E message sig pk)" if "TX_WITNESS_MAX_BYTES < length witness"
    using that verify_lengths [of E message]
    by (fastforce simp: TX_WITNESS_MAX_BYTES_def ED25519_SIGNATURE_BYTES_def ED25519_PUBLIC_KEY_BYTES_def)
  show ?thesis
    unfolding verify_utxo_spend_def Let_def assms(2) simp_thms(6) if_True
    using long by (subst verify_template.simps)
      (auto simp: validate_pkh len lk catch_false_def bnd_ensure require_max_len_def script_require_sig_type_def
        bnd_require_uint SIG_TYPE_ED25519_def [of] uint_limits pkh_witness_iff [unfolded SIG_TYPE_ED25519_def])
qed


theorem pkh_spend_iff_witness:
  "verify_utxo_spend pad_hash example_ed25519 (example_utxo\<lparr>u_owner_pubkey_hash := pad_hash (DOMAIN_ADDRESS # replicate 32 1)\<rparr>)
     (replicate 96 1) [] SIG_TYPE_ED25519 5 5 = Inr True"
proof -
  let ?u = "example_utxo\<lparr>u_owner_pubkey_hash := pad_hash (DOMAIN_ADDRESS # replicate 32 1)\<rparr>"
  have ok: "utxo_ok ?u" "u_template_id ?u = TEMPLATE_PKH" "uint64 5" by code_simp+
  have "verify example_ed25519 [] (replicate 64 1) (replicate 32 1)" "lock_mature (u_locktime_ms ?u) 5"
    "lock_mature (u_lockheight ?u) 5"
    "domain_hash pad_hash DOMAIN_ADDRESS (replicate 32 1) = u_owner_pubkey_hash ?u" by code_simp+
  moreover have "replicate 96 (1 :: byte) = replicate 64 1 @ replicate 32 1" by code_simp
  ultimately show ?thesis
    unfolding pkh_spend_iff [OF ok(1,2,3,3)] by (intro arg_cong [of _ True Inr]) blast
qed

text \<open>Spending a multisignature output: the answer is \<open>True\<close> exactly when both locks are mature and
  the witness is the concatenation of as many signatures as the threshold, matched in order with a
  subsequence of the distinct public keys of the payload.\<close>

theorem multisig_spend_iff:
  assumes "utxo_ok u" "u_template_id u = TEMPLATE_MULTISIG" "uint64 now" "uint64 height"
    "parse_multisig_payload (u_payload u) = Inr (threshold, keys)"
  shows "verify_utxo_spend H E u witness message SIG_TYPE_ED25519 now height =
    Inr (lock_mature (u_locktime_ms u) now \<and> lock_mature (u_lockheight u) height
      \<and> (\<exists>sigs used. witness = concat sigs \<and> int (length sigs) = threshold
           \<and> subseq used keys \<and> list_all2 (verify E message) sigs used))"
proof -
  have lk: "check_locks (u_locktime_ms u) (u_lockheight u) now height =
      ensure (lock_mature (u_locktime_ms u) now \<and> lock_mature (u_lockheight u) height) ScriptError"
    using assms by (intro check_locks_eq) (auto simp: utxo_ok_def uint64_def)
  have long: "length witness \<le> TX_WITNESS_MAX_BYTES" if "witness = concat sigs" "int (length sigs) = threshold"
    "list_all2 (verify E message) sigs used" for sigs used
  proof -
    have "\<forall>s \<in> set sigs. length s = 64"
      using that(3) verify_lengths by (fastforce simp: list_all2_conv_all_nth in_set_conv_nth ED25519_SIGNATURE_BYTES_def)
    then have "length (concat sigs) = length sigs * 64" by (induction sigs) auto
    then show ?thesis using that parse_multisig_count [OF assms(5)] by (simp add: TX_WITNESS_MAX_BYTES_def)
  qed
  have ne: "TEMPLATE_MULTISIG \<noteq> TEMPLATE_PKH" by (simp add: TEMPLATE_MULTISIG_def TEMPLATE_PKH_def)
  have "require_max_len witness TX_WITNESS_MAX_BYTES = ensure (length witness \<le> TX_WITNESS_MAX_BYTES) ValueError"
    "script_require_sig_type SIG_TYPE_ED25519 = Inr ()"
    by (simp_all add: require_max_len_def script_require_sig_type_def SIG_TYPE_ED25519_def bnd_require_uint uint_limits not_less)
  then show ?thesis
    unfolding verify_utxo_spend_def Let_def assms(2) if_not_P [OF ne]
    using long by (subst verify_template.simps)
      (auto simp: validate_multisig assms(5) lk catch_false_def bnd_ensure ne multisig_witness_iff [OF assms(5)])
qed


theorem multisig_spend_iff_witness:
  "verify_utxo_spend pad_hash example_ed25519
     (example_utxo\<lparr>u_template_id := 1, u_payload := [2, 2] @ replicate 32 1 @ replicate 32 2\<rparr>)
     (replicate 64 1 @ replicate 64 2) [] SIG_TYPE_ED25519 5 5 = Inr True"
proof -
  let ?u = "example_utxo\<lparr>u_template_id := 1, u_payload := [2, 2] @ replicate 32 1 @ replicate 32 2\<rparr>"
  let ?keys = "[replicate 32 1, replicate 32 2] :: bytes list"
  let ?sigs = "[replicate 64 1, replicate 64 2] :: bytes list"
  have ok: "utxo_ok ?u" "u_template_id ?u = TEMPLATE_MULTISIG" "uint64 5"
    "parse_multisig_payload (u_payload ?u) = Inr (2, ?keys)" by code_simp+
  have "list_all2 (verify example_ed25519 []) ?sigs ?keys" "lock_mature (u_locktime_ms ?u) 5"
    "lock_mature (u_lockheight ?u) 5" "replicate 64 (1 :: byte) @ replicate 64 2 = concat ?sigs"
    "int (length ?sigs) = 2" "subseq ?keys ?keys" by code_simp+
  then show ?thesis
    unfolding multisig_spend_iff [OF ok(1,2,3,3,4)] by (intro arg_cong [of _ True Inr]) blast
qed

end
