(* ===== verification/Mempool.thy ===== *)
theory Mempool
  imports Blocks Script
begin

text \<open>
  \<^verbatim>\<open>src/src/tensorpow/mempool/mempool.py\<close>: admission of pending transactions, the indexes of the pool, selection
  for a fruit, and the fee floor of a shard.

  The state is the record \<open>mempool\<close>, with a field for each attribute of the class \<open>Mempool\<close>: the pool
  itself, its partition by shard, the outpoints that pending transactions spend, the fee floors and the
  windows of confirmed fruits. A method that changes the pool returns the new state; where a method can
  raise, it does so before its first assignment, so a raised exception leaves the state as it was.
  \<open>UTXOView\<close> is a protocol with one method \<open>get\<close>: a view is a function from outpoints.
\<close>

section \<open>Definitions\<close>

definition BYTES_PER_KB :: int where "BYTES_PER_KB = 1000"
definition FEE_FLOOR_WINDOW_FRUITS :: nat where "FEE_FLOOR_WINDOW_FRUITS = 1024"
definition FEE_FLOOR_MIN_MATOMS_PER_KB :: int where "FEE_FLOOR_MIN_MATOMS_PER_KB = 0"
definition FEE_FLOOR_EWMA_PREV_WEIGHT :: int where "FEE_FLOOR_EWMA_PREV_WEIGHT = 7"
definition FEE_FLOOR_EWMA_NEW_WEIGHT :: int where "FEE_FLOOR_EWMA_NEW_WEIGHT = 1"
definition FEE_FLOOR_EWMA_DEN :: int where "FEE_FLOOR_EWMA_DEN = 8"

type_synonym utxo_view = "outpoint \<Rightarrow> utxo option"

definition mp_require_nonnegative_int :: "int \<Rightarrow> int res" where
  "mp_require_nonnegative_int value = bnd (ensure (\<not> value < 0) ValueError) (\<lambda>_. Inr value)"

definition mp_require_positive_int :: "int \<Rightarrow> int res" where
  "mp_require_positive_int value =
     bnd (mp_require_nonnegative_int value) (\<lambda>value.
     bnd (ensure (\<not> value = 0) ValueError) (\<lambda>_. Inr value))"

definition mp_require_hash :: "bytes \<Rightarrow> unit res" where
  "mp_require_hash value = ensure (\<not> length value \<noteq> HASH_LEN_BYTES) ValueError"

record mempool_add_result =
  ar_accepted :: bool
  ar_tx_id :: "bytes option"
  ar_shard_id :: "int option"
  ar_reason :: "string option"
  ar_fee_matoms :: "int option"
  ar_fee_rate_matoms_per_kb :: "int option"

definition add_ok :: "bytes \<Rightarrow> int \<Rightarrow> int \<Rightarrow> int \<Rightarrow> mempool_add_result" where
  "add_ok tid shard_id fee_matoms fee_rate_matoms_per_kb =
     \<lparr>ar_accepted = True, ar_tx_id = Some tid, ar_shard_id = Some shard_id, ar_reason = None,
      ar_fee_matoms = Some fee_matoms, ar_fee_rate_matoms_per_kb = Some fee_rate_matoms_per_kb\<rparr>"

definition add_reject :: "string \<Rightarrow> bytes option \<Rightarrow> int option \<Rightarrow> mempool_add_result" where
  "add_reject reason tid shard_id =
     \<lparr>ar_accepted = False, ar_tx_id = tid, ar_shard_id = shard_id, ar_reason = Some reason,
      ar_fee_matoms = None, ar_fee_rate_matoms_per_kb = None\<rparr>"

record fee_floor_sample =
  fs_shard_id :: int
  fs_floor_eligible_fees_matoms :: int
  fs_payload_bytes :: int

definition FeeFloorSample :: "int \<Rightarrow> int \<Rightarrow> int \<Rightarrow> fee_floor_sample res" where
  "FeeFloorSample shard_id fees payload_bytes =
     bnd (require_shard_id shard_id) (\<lambda>_.
     bnd (mp_require_nonnegative_int fees) (\<lambda>_.
     bnd (mp_require_nonnegative_int payload_bytes) (\<lambda>_.
     bnd (ensure (\<not> payload_bytes > MAX_FRUIT_PAYLOAD_BYTES) ValueError) (\<lambda>_.
     Inr \<lparr>fs_shard_id = shard_id, fs_floor_eligible_fees_matoms = fees, fs_payload_bytes = payload_bytes\<rparr>))))"

record mempool_entry =
  me_tx :: tx
  me_tx_id :: bytes
  me_shard_id :: int
  me_tx_size_bytes :: int
  me_fee_matoms :: int
  me_fee_rate_matoms_per_kb :: int
  me_is_coinbase :: bool

definition MempoolEntry :: "hash_fn \<Rightarrow> mempool_entry \<Rightarrow> mempool_entry res" where
  "MempoolEntry H e =
     bnd (mp_require_hash (me_tx_id e)) (\<lambda>_.
     bnd (ensure (tx_id H (me_tx e) = me_tx_id e) ValueError) (\<lambda>_.
     bnd (require_shard_id (me_shard_id e)) (\<lambda>_.
     bnd (mp_require_positive_int (me_tx_size_bytes e)) (\<lambda>_.
     bnd (ensure (\<not> me_tx_size_bytes e > int MAX_TX_BYTES) ValueError) (\<lambda>_.
     bnd (mp_require_nonnegative_int (me_fee_matoms e)) (\<lambda>_.
     bnd (mp_require_nonnegative_int (me_fee_rate_matoms_per_kb e)) (\<lambda>_.
     Inr e)))))))"

record spend_assessment =
  sa_fee_matoms :: int
  sa_fee_rate_matoms_per_kb :: int
  sa_is_coinbase :: bool
  sa_reason :: "string option"

record mempool =
  mp_shard_tree :: shard_tree
  mp_utxo_view :: "utxo_view option"
  mp_entries :: "(bytes, mempool_entry) dict"
  mp_entries_by_shard :: "(int, (bytes, mempool_entry) dict) dict"
  mp_spent_outpoints :: "(outpoint, bytes) dict"
  mp_fee_floors :: "(int, int) dict"
  mp_fee_histories :: "(int, fee_floor_sample list) dict"

subsection \<open>Fee floors\<close>

definition set_fee_floor :: "mempool \<Rightarrow> int \<Rightarrow> int \<Rightarrow> mempool res" where
  "set_fee_floor mp shard_id floor_matoms_per_kb =
     bnd (require_shard_id shard_id) (\<lambda>shard_id.
     bnd (mp_require_nonnegative_int floor_matoms_per_kb) (\<lambda>floor_matoms_per_kb.
     Inr (mp\<lparr>mp_fee_floors :=
       dict_set shard_id (max FEE_FLOOR_MIN_MATOMS_PER_KB floor_matoms_per_kb) (mp_fee_floors mp)\<rparr>)))"

definition fee_floor :: "mempool \<Rightarrow> int \<Rightarrow> int res" where
  "fee_floor mp shard_id =
     bnd (require_shard_id shard_id) (\<lambda>shard_id.
     Inr (case dict_get (mp_fee_floors mp) shard_id of None \<Rightarrow> FEE_FLOOR_MIN_MATOMS_PER_KB | Some f \<Rightarrow> f))"

fun set_fee_floors :: "mempool \<Rightarrow> (int \<times> int) list \<Rightarrow> mempool res" where
  "set_fee_floors mp [] = Inr mp"
| "set_fee_floors mp ((shard_id, floor_matoms_per_kb) # rest) =
     bnd (set_fee_floor mp shard_id floor_matoms_per_kb) (\<lambda>mp. set_fee_floors mp rest)"

definition Mempool :: "shard_tree option \<Rightarrow> utxo_view option \<Rightarrow> (int, int) dict option \<Rightarrow> mempool res" where
  "Mempool tree view initial_fee_floors =
     set_fee_floors
       \<lparr>mp_shard_tree = (case tree of None \<Rightarrow> default_tree | Some t \<Rightarrow> t), mp_utxo_view = view, mp_entries = [],
        mp_entries_by_shard = [], mp_spent_outpoints = [], mp_fee_floors = [], mp_fee_histories = []\<rparr>
       (case initial_fee_floors of None \<Rightarrow> [] | Some floors \<Rightarrow> floors)"

definition recent_fee_rate :: "mempool \<Rightarrow> int \<Rightarrow> int res" where
  "recent_fee_rate mp shard_id =
     bnd (require_shard_id shard_id) (\<lambda>shard_id.
     Inr (case dict_get (mp_fee_histories mp) shard_id of
        None \<Rightarrow> FEE_FLOOR_MIN_MATOMS_PER_KB
      | Some history \<Rightarrow>
          if history = [] then FEE_FLOOR_MIN_MATOMS_PER_KB
          else let total_fees = sum_list (map fs_floor_eligible_fees_matoms history);
                   total_payload_bytes = sum_list (map fs_payload_bytes history) in
               total_fees * BYTES_PER_KB div max 1 total_payload_bytes))"

definition calculate_next_fee_floor :: "mempool \<Rightarrow> int \<Rightarrow> int option \<Rightarrow> int res" where
  "calculate_next_fee_floor mp shard_id previous_floor =
     bnd (require_shard_id shard_id) (\<lambda>shard_id.
     bnd (case previous_floor of None \<Rightarrow> fee_floor mp shard_id | Some f \<Rightarrow> Inr f) (\<lambda>previous.
     bnd (mp_require_nonnegative_int previous) (\<lambda>previous.
     bnd (recent_fee_rate mp shard_id) (\<lambda>recent_rate.
     Inr (max FEE_FLOOR_MIN_MATOMS_PER_KB
       ((FEE_FLOOR_EWMA_PREV_WEIGHT * previous + FEE_FLOOR_EWMA_NEW_WEIGHT * recent_rate)
         div FEE_FLOOR_EWMA_DEN))))))"

text \<open>\<open>deque(maxlen=FEE_FLOOR_WINDOW_FRUITS)\<close>: appending to a full window drops the oldest sample.\<close>

definition window_append :: "fee_floor_sample list \<Rightarrow> fee_floor_sample \<Rightarrow> fee_floor_sample list" where
  "window_append history sample =
     (let h = history @ [sample] in drop (length h - FEE_FLOOR_WINDOW_FRUITS) h)"

definition record_confirmed_fruit :: "mempool \<Rightarrow> int \<Rightarrow> int \<Rightarrow> int \<Rightarrow> (int \<times> mempool) res" where
  "record_confirmed_fruit mp shard_id fees payload_bytes =
     bnd (FeeFloorSample shard_id fees payload_bytes) (\<lambda>sample.
     let sid = fs_shard_id sample;
         history = (case dict_get (mp_fee_histories mp) sid of None \<Rightarrow> [] | Some h \<Rightarrow> h);
         mp = mp\<lparr>mp_fee_histories := dict_set sid (window_append history sample) (mp_fee_histories mp)\<rparr> in
     bnd (calculate_next_fee_floor mp sid None) (\<lambda>next_floor.
     Inr (next_floor, mp\<lparr>mp_fee_floors := dict_set sid next_floor (mp_fee_floors mp)\<rparr>)))"

definition fee_floor_history :: "mempool \<Rightarrow> int \<Rightarrow> fee_floor_sample list res" where
  "fee_floor_history mp shard_id =
     bnd (require_shard_id shard_id) (\<lambda>shard_id.
     Inr (case dict_get (mp_fee_histories mp) shard_id of None \<Rightarrow> [] | Some h \<Rightarrow> h))"

definition burned_fee_matoms :: "int \<Rightarrow> int \<Rightarrow> int res" where
  "burned_fee_matoms fee_floor_matoms_per_kb tx_size_bytes =
     bnd (mp_require_nonnegative_int fee_floor_matoms_per_kb) (\<lambda>fee_floor_matoms_per_kb.
     bnd (mp_require_positive_int tx_size_bytes) (\<lambda>tx_size_bytes.
     Inr (fee_floor_matoms_per_kb * tx_size_bytes div BYTES_PER_KB)))"

definition fee_rate_matoms_per_kb :: "int \<Rightarrow> int \<Rightarrow> int res" where
  "fee_rate_matoms_per_kb fee_matoms tx_size_bytes =
     bnd (mp_require_nonnegative_int fee_matoms) (\<lambda>fee_matoms.
     bnd (mp_require_positive_int tx_size_bytes) (\<lambda>tx_size_bytes.
     Inr (fee_matoms * BYTES_PER_KB div tx_size_bytes)))"

subsection \<open>Admission\<close>

datatype tx_or_bytes = TxObject tx | RawBytes bytes

definition decode_canonical_tx :: "tx_or_bytes \<Rightarrow> (tx \<times> bytes) option res" where
  "decode_canonical_tx arg =
     (let raw = (case arg of TxObject t \<Rightarrow> tx_to_bytes t | RawBytes bs \<Rightarrow> bs) in
      case tx_from_bytes raw of
        Inl e \<Rightarrow> if type_or_value_error e then Inr None else Inl e
      | Inr t \<Rightarrow> (case arg of
          TxObject t' \<Rightarrow> Inr (if t \<noteq> t' then None else Some (t, raw))
        | RawBytes _ \<Rightarrow> Inr (Some (t, raw))))"

text \<open>The loop of \<open>_assess_spends\<close> over the inputs: \<open>Inl\<close> is an early return with its reason, \<open>Inr\<close> the
  sum of the spent amounts.\<close>

fun assess_inputs ::
  "hash_fn \<Rightarrow> 'k ed25519 \<Rightarrow> (outpoint, bytes) dict \<Rightarrow> utxo_view \<Rightarrow> tx \<Rightarrow> int \<Rightarrow> int \<Rightarrow> tx_input list \<Rightarrow> int \<Rightarrow>
   outpoint set \<Rightarrow> int \<Rightarrow> (string + int) res" where
  "assess_inputs H E spent view t current_time_ms current_height [] input_index seen input_sum = Inr (Inr input_sum)"
| "assess_inputs H E spent view t current_time_ms current_height (inp # rest) input_index seen input_sum =
     (let outpoint = in_previous_outpoint inp in
      if outpoint \<in> seen then Inr (Inl ''duplicate_input'')
      else if dict_get spent outpoint \<noteq> None then Inr (Inl ''conflict'')
      else case view outpoint of
        None \<Rightarrow> Inr (Inl ''missing_input'')
      | Some u \<Rightarrow>
          bnd (sighash H t input_index) (\<lambda>message.
          bnd (verify_utxo_spend H E u (in_witness inp) message (tx_sig_type t) current_time_ms current_height) (\<lambda>good.
          if \<not> good then Inr (Inl ''script_failed'')
          else assess_inputs H E spent view t current_time_ms current_height rest (input_index + 1)
                 (insert outpoint seen) (input_sum + u_amount_matoms u))))"

definition rejected :: "string \<Rightarrow> spend_assessment" where
  "rejected reason = \<lparr>sa_fee_matoms = 0, sa_fee_rate_matoms_per_kb = 0, sa_is_coinbase = False, sa_reason = Some reason\<rparr>"

definition assess_spends ::
  "hash_fn \<Rightarrow> 'k ed25519 \<Rightarrow> mempool \<Rightarrow> tx \<Rightarrow> int \<Rightarrow> utxo_view option \<Rightarrow> int \<Rightarrow> int \<Rightarrow> spend_assessment res" where
  "assess_spends H E mp t tx_size_bytes view_opt current_time_ms current_height =
     (if tx_inputs t = [] then Inr (rejected ''coinbase_not_relayable'')
      else case view_opt of
        None \<Rightarrow> Inr (rejected ''missing_utxo_view'')
      | Some view \<Rightarrow>
         (case check_locks (tx_locktime_ms t) (tx_lockheight t) current_time_ms current_height of
            Inl e \<Rightarrow> if type_or_value_error e then Inr (rejected ''tx_lock_unmatured'') else Inl e
          | Inr _ \<Rightarrow>
              bnd (assess_inputs H E (mp_spent_outpoints mp) view t current_time_ms current_height (tx_inputs t) 0 {} 0) (\<lambda>r.
              case r of
                Inl reason \<Rightarrow> Inr (rejected reason)
              | Inr input_sum \<Rightarrow>
                  let output_sum = sum_list (map out_amount_matoms (tx_outputs t));
                      fee_matoms = input_sum - output_sum in
                  if fee_matoms < 0 then Inr (rejected ''negative_fee'')
                  else bnd (fee_rate_matoms_per_kb fee_matoms tx_size_bytes) (\<lambda>rate.
                       Inr \<lparr>sa_fee_matoms = fee_matoms, sa_fee_rate_matoms_per_kb = rate,
                            sa_is_coinbase = False, sa_reason = None\<rparr>))))"

definition insert_entry :: "mempool \<Rightarrow> mempool_entry \<Rightarrow> mempool" where
  "insert_entry mp e =
     (let tid = me_tx_id e; sid = me_shard_id e;
          shard_entries = (case dict_get (mp_entries_by_shard mp) sid of None \<Rightarrow> [] | Some d \<Rightarrow> d) in
      mp\<lparr>mp_entries := dict_set tid e (mp_entries mp),
         mp_entries_by_shard := dict_set sid (dict_set tid e shard_entries) (mp_entries_by_shard mp),
         mp_spent_outpoints :=
           fold (\<lambda>inp spent. dict_set (in_previous_outpoint inp) tid spent) (tx_inputs (me_tx e)) (mp_spent_outpoints mp)\<rparr>)"

text \<open>\<open>add_tx\<close> from the check for a duplicate on, where the shard of the transaction is settled.\<close>

definition add_routed ::
  "hash_fn \<Rightarrow> 'k ed25519 \<Rightarrow> mempool \<Rightarrow> tx \<Rightarrow> int \<Rightarrow> int \<Rightarrow> utxo_view option \<Rightarrow> int \<Rightarrow> int \<Rightarrow>
   (mempool_add_result \<times> mempool) res" where
  "add_routed H E mp t tx_size_bytes routed_shard_id utxo_view current_time_ms current_height =
     (let tid = tx_id H t in
      if dict_get (mp_entries mp) tid \<noteq> None then
        Inr (add_reject ''duplicate'' (Some tid) (Some routed_shard_id), mp)
      else
        let spend_view = (case utxo_view of None \<Rightarrow> mp_utxo_view mp | Some v \<Rightarrow> Some v) in
        bnd (assess_spends H E mp t tx_size_bytes spend_view current_time_ms current_height) (\<lambda>assessment.
        case sa_reason assessment of
          Some reason \<Rightarrow> Inr (add_reject reason (Some tid) (Some routed_shard_id), mp)
        | None \<Rightarrow>
          bnd (fee_floor mp routed_shard_id) (\<lambda>floor.
          if \<not> sa_is_coinbase assessment \<and> sa_fee_rate_matoms_per_kb assessment < floor then
            Inr (add_reject ''below_fee_floor'' (Some tid) (Some routed_shard_id), mp)
          else
            bnd (MempoolEntry H
              \<lparr>me_tx = t, me_tx_id = tid, me_shard_id = routed_shard_id, me_tx_size_bytes = tx_size_bytes,
               me_fee_matoms = sa_fee_matoms assessment,
               me_fee_rate_matoms_per_kb = sa_fee_rate_matoms_per_kb assessment,
               me_is_coinbase = sa_is_coinbase assessment\<rparr>) (\<lambda>entry.
            Inr (add_ok tid routed_shard_id (sa_fee_matoms assessment) (sa_fee_rate_matoms_per_kb assessment),
                 insert_entry mp entry)))))"

definition add_tx ::
  "hash_fn \<Rightarrow> 'k ed25519 \<Rightarrow> mempool \<Rightarrow> tx_or_bytes \<Rightarrow> int option \<Rightarrow> utxo_view option \<Rightarrow> int \<Rightarrow> int \<Rightarrow>
   (mempool_add_result \<times> mempool) res" where
  "add_tx H E mp arg shard_id utxo_view current_time_ms current_height =
     bnd (decode_canonical_tx arg) (\<lambda>decoded.
     case decoded of
       None \<Rightarrow> Inr (add_reject ''malformed'' None None, mp)
     | Some (t, raw) \<Rightarrow>
       let tx_size_bytes = int (length raw); tid = tx_id H t in
       bnd (route_tx (mp_shard_tree mp) tid) (\<lambda>routed_shard_id.
       case shard_id of
         None \<Rightarrow> add_routed H E mp t tx_size_bytes routed_shard_id utxo_view current_time_ms current_height
       | Some requested \<Rightarrow>
         (case require_shard_id requested of
            Inl e \<Rightarrow> if type_or_value_error e then Inr (add_reject ''bad_shard'' (Some tid) None, mp) else Inl e
          | Inr requested_shard_id \<Rightarrow>
              if requested_shard_id \<noteq> routed_shard_id then
                Inr (add_reject ''wrong_shard'' (Some tid) (Some requested_shard_id), mp)
              else add_routed H E mp t tx_size_bytes routed_shard_id utxo_view current_time_ms current_height)))"

subsection \<open>Removal and queries\<close>

definition remove_entry :: "mempool \<Rightarrow> bytes \<Rightarrow> mempool_entry option \<times> mempool" where
  "remove_entry mp tid =
     (case dict_get (mp_entries mp) tid of
        None \<Rightarrow> (None, mp)
      | Some e \<Rightarrow>
          (Some e,
           mp\<lparr>mp_entries := dict_del tid (mp_entries mp),
              mp_entries_by_shard :=
                (case dict_get (mp_entries_by_shard mp) (me_shard_id e) of
                   None \<Rightarrow> mp_entries_by_shard mp
                 | Some shard_entries \<Rightarrow>
                     let shard_entries = dict_del tid shard_entries in
                     if shard_entries = [] then dict_del (me_shard_id e) (mp_entries_by_shard mp)
                     else dict_set (me_shard_id e) shard_entries (mp_entries_by_shard mp)),
              mp_spent_outpoints :=
                fold (\<lambda>inp spent. if dict_get spent (in_previous_outpoint inp) = Some tid
                                then dict_del (in_previous_outpoint inp) spent else spent)
                  (tx_inputs (me_tx e)) (mp_spent_outpoints mp)\<rparr>))"

definition mp_remove :: "mempool \<Rightarrow> bytes \<Rightarrow> tx option \<times> mempool" where
  "mp_remove mp tid = (let (e, mp) = remove_entry mp tid in (map_option me_tx e, mp))"

definition mp_contains :: "mempool \<Rightarrow> bytes \<Rightarrow> bool" where
  "mp_contains mp tid \<longleftrightarrow> dict_get (mp_entries mp) tid \<noteq> None"

definition mp_get :: "mempool \<Rightarrow> bytes \<Rightarrow> tx option" where
  "mp_get mp tid = map_option me_tx (dict_get (mp_entries mp) tid)"

definition mp_get_entry :: "mempool \<Rightarrow> bytes \<Rightarrow> mempool_entry option" where
  "mp_get_entry mp tid = dict_get (mp_entries mp) tid"

definition mp_entries_tuple :: "mempool \<Rightarrow> mempool_entry list" where
  "mp_entries_tuple mp = map (\<lambda>tid. the (dict_get (mp_entries mp) tid)) (sort (map fst (mp_entries mp)))"

definition entries_of_shard :: "mempool \<Rightarrow> int \<Rightarrow> (bytes, mempool_entry) dict" where
  "entries_of_shard mp shard_id = (case dict_get (mp_entries_by_shard mp) shard_id of None \<Rightarrow> [] | Some d \<Rightarrow> d)"

definition evict_below_floor :: "mempool \<Rightarrow> int \<Rightarrow> int option \<Rightarrow> (bytes list \<times> mempool) res" where
  "evict_below_floor mp shard_id floor_opt =
     bnd (require_shard_id shard_id) (\<lambda>shard_id.
     bnd (case floor_opt of
            None \<Rightarrow> bnd (fee_floor mp shard_id) (\<lambda>f. Inr (f, mp))
          | Some f \<Rightarrow> bnd (set_fee_floor mp shard_id f) (\<lambda>mp. Inr (f, mp))) (\<lambda>(floor, mp).
     let evicted_tx_ids = sort (map fst (filter
           (\<lambda>(tid, e). \<not> me_is_coinbase e \<and> me_fee_rate_matoms_per_kb e < floor) (entries_of_shard mp shard_id))) in
     Inr (evicted_tx_ids, fold (\<lambda>tid mp. snd (remove_entry mp tid)) evicted_tx_ids mp)))"

definition selection_key :: "mempool_entry \<Rightarrow> int \<times> bytes" where
  "selection_key e = (- me_fee_rate_matoms_per_kb e, me_tx_id e)"

fun select_loop :: "int \<Rightarrow> int \<Rightarrow> mempool_entry list \<Rightarrow> tx list" where
  "select_loop payload_budget used_bytes [] = []"
| "select_loop payload_budget used_bytes (e # rest) =
     (if used_bytes + me_tx_size_bytes e > payload_budget then select_loop payload_budget used_bytes rest
      else me_tx e # select_loop payload_budget (used_bytes + me_tx_size_bytes e) rest)"

definition select_for_fruit :: "mempool \<Rightarrow> int \<Rightarrow> int \<Rightarrow> tx list res" where
  "select_for_fruit mp shard_id payload_budget =
     bnd (require_shard_id shard_id) (\<lambda>shard_id.
     bnd (mp_require_nonnegative_int payload_budget) (\<lambda>_.
     bnd (ensure (\<not> payload_budget > MAX_FRUIT_PAYLOAD_BYTES) ValueError) (\<lambda>_.
     bnd (fee_floor mp shard_id) (\<lambda>floor.
     let entries = filter (\<lambda>e. me_is_coinbase e \<or> me_fee_rate_matoms_per_kb e \<ge> floor)
                     (map snd (entries_of_shard mp shard_id)) in
     Inr (select_loop payload_budget 0 (sort_key selection_key entries))))))"

section \<open>Specification\<close>

definition input_outpoints :: "tx \<Rightarrow> outpoint list" where
  "input_outpoints t = map in_previous_outpoint (tx_inputs t)"

text \<open>The fee a transaction pays over a view, its rate, and that every input may be spent.\<close>

definition tx_fee :: "utxo_view \<Rightarrow> tx \<Rightarrow> int" where
  "tx_fee view t = sum_list (map (\<lambda>op. u_amount_matoms (the (view op))) (input_outpoints t))
     - sum_list (map out_amount_matoms (tx_outputs t))"

definition tx_rate :: "utxo_view \<Rightarrow> tx \<Rightarrow> int" where
  "tx_rate view t = tx_fee view t * BYTES_PER_KB div int (length (tx_to_bytes t))"

definition spendable :: "hash_fn \<Rightarrow> 'k ed25519 \<Rightarrow> utxo_view \<Rightarrow> tx \<Rightarrow> int \<Rightarrow> int \<Rightarrow> nat \<Rightarrow> bool" where
  "spendable H E view t now height i \<longleftrightarrow> (\<exists>u message. view (in_previous_outpoint (tx_inputs t ! i)) = Some u \<and>
     sighash H t (int i) = Inr message \<and>
     verify_utxo_spend H E u (in_witness (tx_inputs t ! i)) message (tx_sig_type t) now height = Inr True)"

definition floor_of :: "mempool \<Rightarrow> int \<Rightarrow> int" where
  "floor_of mp s = (case dict_get (mp_fee_floors mp) s of None \<Rightarrow> 0 | Some f \<Rightarrow> f)"

definition history_of :: "mempool \<Rightarrow> int \<Rightarrow> fee_floor_sample list" where
  "history_of mp s = (case dict_get (mp_fee_histories mp) s of None \<Rightarrow> [] | Some h \<Rightarrow> h)"

definition window_rate :: "fee_floor_sample list \<Rightarrow> int" where
  "window_rate h = (if h = [] then 0
     else sum_list (map fs_floor_eligible_fees_matoms h) * BYTES_PER_KB div max 1 (sum_list (map fs_payload_bytes h)))"

definition admissible ::
  "hash_fn \<Rightarrow> 'k ed25519 \<Rightarrow> mempool \<Rightarrow> tx \<Rightarrow> int option \<Rightarrow> utxo_view \<Rightarrow> int \<Rightarrow> int \<Rightarrow> bool" where
  "admissible H E mp t shard_id view now height \<longleftrightarrow>
     (\<forall>s. shard_id = Some s \<longrightarrow> route_tx (mp_shard_tree mp) (tx_id H t) = Inr s) \<and>
     dict_get (mp_entries mp) (tx_id H t) = None \<and> tx_inputs t \<noteq> [] \<and> uint64 now \<and> uint64 height \<and>
     lock_mature (tx_locktime_ms t) now \<and> lock_mature (tx_lockheight t) height \<and>
     distinct (input_outpoints t) \<and> (\<forall>op \<in> set (input_outpoints t). dict_get (mp_spent_outpoints mp) op = None) \<and>
     (\<forall>i < length (tx_inputs t). spendable H E view t now height i) \<and> 0 \<le> tx_fee view t \<and>
     (\<forall>s. route_tx (mp_shard_tree mp) (tx_id H t) = Inr s \<longrightarrow> floor_of mp s \<le> tx_rate view t)"

text \<open>The transaction an argument of \<open>add_tx\<close> stands for, the view it is checked against, its entry.\<close>

definition tx_of :: "tx_or_bytes \<Rightarrow> tx option" where
  "tx_of arg = (case arg of TxObject t \<Rightarrow> Some t
     | RawBytes bs \<Rightarrow> (case tx_from_bytes bs of Inl _ \<Rightarrow> None | Inr t \<Rightarrow> Some t))"

definition arg_ok :: "tx_or_bytes \<Rightarrow> bool" where
  "arg_ok arg \<longleftrightarrow> (\<forall>t. arg = TxObject t \<longrightarrow> tx_ok t)"

definition view_of :: "mempool \<Rightarrow> utxo_view option \<Rightarrow> utxo_view option" where
  "view_of mp view_opt = (case view_opt of None \<Rightarrow> mp_utxo_view mp | Some v \<Rightarrow> Some v)"

definition entry_of :: "hash_fn \<Rightarrow> utxo_view \<Rightarrow> tx \<Rightarrow> int \<Rightarrow> mempool_entry" where
  "entry_of H view t s = \<lparr>me_tx = t, me_tx_id = tx_id H t, me_shard_id = s,
     me_tx_size_bytes = int (length (tx_to_bytes t)), me_fee_matoms = tx_fee view t,
     me_fee_rate_matoms_per_kb = tx_rate view t, me_is_coinbase = False\<rparr>"

text \<open>The invariant: entries carry what their transaction determines, the two indexes are exactly the
  partition of the entries by shard and the outpoints they spend, floors and samples are not negative.\<close>

definition entry_ok :: "hash_fn \<Rightarrow> shard_tree \<Rightarrow> mempool_entry \<Rightarrow> bool" where
  "entry_ok H tree e \<longleftrightarrow> tx_ok (me_tx e) \<and> me_tx_id e = tx_id H (me_tx e) \<and>
     route_tx tree (me_tx_id e) = Inr (me_shard_id e) \<and> me_tx_size_bytes e = int (length (tx_to_bytes (me_tx e))) \<and>
     0 \<le> me_fee_matoms e \<and> me_fee_rate_matoms_per_kb e = me_fee_matoms e * BYTES_PER_KB div me_tx_size_bytes e \<and>
     \<not> me_is_coinbase e \<and> tx_inputs (me_tx e) \<noteq> [] \<and> distinct (input_outpoints (me_tx e))"

definition index_ok :: "mempool \<Rightarrow> bool" where
  "index_ok mp \<longleftrightarrow> dict_ok (mp_entries mp) \<and> dict_ok (mp_entries_by_shard mp) \<and> dict_ok (mp_spent_outpoints mp) \<and>
     (\<forall>s d. dict_get (mp_entries_by_shard mp) s = Some d \<longrightarrow> d \<noteq> [] \<and> dict_ok d) \<and>
     (\<forall>s tid e. dict_get (entries_of_shard mp s) tid = Some e \<longleftrightarrow>
        dict_get (mp_entries mp) tid = Some e \<and> me_shard_id e = s) \<and>
     (\<forall>op tid. dict_get (mp_spent_outpoints mp) op = Some tid \<longleftrightarrow>
        (\<exists>e. dict_get (mp_entries mp) tid = Some e \<and> op \<in> set (input_outpoints (me_tx e))))"

definition sample_ok :: "int \<Rightarrow> fee_floor_sample \<Rightarrow> bool" where
  "sample_ok s x \<longleftrightarrow> fs_shard_id x = s \<and> 0 \<le> fs_floor_eligible_fees_matoms x \<and> 0 \<le> fs_payload_bytes x \<and>
     fs_payload_bytes x \<le> MAX_FRUIT_PAYLOAD_BYTES"

definition fees_ok :: "mempool \<Rightarrow> bool" where
  "fees_ok mp \<longleftrightarrow> (\<forall>s. 0 \<le> floor_of mp s) \<and> (\<forall>s. length (history_of mp s) \<le> FEE_FLOOR_WINDOW_FRUITS) \<and>
     (\<forall>s. \<forall>x \<in> set (history_of mp s). sample_ok s x)"

definition mempool_ok :: "hash_fn \<Rightarrow> mempool \<Rightarrow> bool" where
  "mempool_ok H mp \<longleftrightarrow> tree_ok (leaf_shard_ids (mp_shard_tree mp)) \<and> index_ok mp \<and> fees_ok mp \<and>
     (\<forall>tid e. dict_get (mp_entries mp) tid = Some e \<longrightarrow> me_tx_id e = tid \<and> entry_ok H (mp_shard_tree mp) e)"

text \<open>The steps of a pool: every method that assigns to an attribute, on arguments of the declared types.\<close>

inductive mempool_step :: "hash_fn \<Rightarrow> 'k ed25519 \<Rightarrow> mempool \<Rightarrow> mempool \<Rightarrow> bool" for H E where
  step_add: "arg_ok arg \<Longrightarrow> add_tx H E mp arg shard_id view_opt now height = Inr (r, mp') \<Longrightarrow>
     mempool_step H E mp mp'"
| step_remove: "mp_remove mp tid = (t, mp') \<Longrightarrow> mempool_step H E mp mp'"
| step_evict: "evict_below_floor mp s floor_opt = Inr (tids, mp') \<Longrightarrow> mempool_step H E mp mp'"
| step_record: "record_confirmed_fruit mp s fees payload_bytes = Inr (f, mp') \<Longrightarrow> mempool_step H E mp mp'"
| step_floor: "set_fee_floor mp s f = Inr mp' \<Longrightarrow> mempool_step H E mp mp'"

inductive mempool_reachable :: "hash_fn \<Rightarrow> 'k ed25519 \<Rightarrow> mempool \<Rightarrow> bool" for H E where
  reach_init: "(\<And>t. tree = Some t \<Longrightarrow> tree_ok (leaf_shard_ids t)) \<Longrightarrow> Mempool tree view_opt floors = Inr mp \<Longrightarrow>
     mempool_reachable H E mp"
| reach_step: "mempool_reachable H E mp \<Longrightarrow> mempool_step H E mp mp' \<Longrightarrow> mempool_reachable H E mp'"

text \<open>A pool over an output of five units that one signature spends.\<close>

definition pool_view :: utxo_view where
  "pool_view op = (if 0 \<le> op_output_index op \<and> op_output_index op < 8 \<and> op_tx_id op = zero_bytes 32
     then Some (example_utxo\<lparr>u_outpoint := op, u_amount_matoms := 20,
       u_owner_pubkey_hash := pad_hash (DOMAIN_ADDRESS # replicate 32 1)\<rparr>)
     else None)"

definition empty_pool :: mempool where
  "empty_pool = \<lparr>mp_shard_tree = default_tree, mp_utxo_view = Some pool_view, mp_entries = [],
     mp_entries_by_shard = [], mp_spent_outpoints = [], mp_fee_floors = [], mp_fee_histories = []\<rparr>"

definition pool_tx :: tx where
  "pool_tx = example_tx (replicate 96 1)"

definition example_pool :: mempool where
  "example_pool = insert_entry empty_pool (entry_of pad_hash pool_view pool_tx 0)"

text \<open>A transaction of 8189 bytes with seven inputs and 120 outputs.\<close>

definition large_tx :: tx where
  "large_tx = pool_tx\<lparr>
     tx_inputs := map (\<lambda>i. \<lparr>in_previous_outpoint = \<lparr>op_tx_id = zero_bytes 32, op_output_index = int i\<rparr>,
       in_sequence = TX_SEQUENCE_FINAL, in_witness = replicate 96 1\<rparr>) [0..<7],
     tx_outputs := replicate 120 \<lparr>out_amount_matoms = 1, out_template_id = TEMPLATE_PKH, out_locktime_ms = 0,
       out_lockheight = 0, out_payload = zero_bytes 32\<rparr>\<rparr>"

section \<open>Lemmas\<close>

lemma mp_require_iffs [simp]:
  "mp_require_nonnegative_int v = Inr w \<longleftrightarrow> 0 \<le> v \<and> w = v"
  "mp_require_positive_int v = Inr w \<longleftrightarrow> 0 < v \<and> w = v"
  "mp_require_hash bs = Inr u \<longleftrightarrow> length bs = HASH_LEN_BYTES"
  by (auto simp: mp_require_nonnegative_int_def mp_require_positive_int_def mp_require_hash_def bnd_Inr_iff)

lemma require_shard_id_Inr: "require_shard_id s = Inr r \<longleftrightarrow> shard_ok s \<and> r = s"
  by (auto simp: require_shard_id_eq)

lemma fee_floor_eq: "shard_ok s \<Longrightarrow> fee_floor mp s = Inr (floor_of mp s)"
  by (simp add: fee_floor_def require_shard_id_eq floor_of_def FEE_FLOOR_MIN_MATOMS_PER_KB_def split: option.split)

subsection \<open>The indexes\<close>

lemma fold_dict_set:
  "dict_get (fold (\<lambda>x d. dict_set (k x) v d) xs d) op = (if op \<in> k ` set xs then Some v else dict_get d op)"
  by (induction xs arbitrary: d) (auto simp: update_conv')

lemma fold_dict_set_ok: "dict_ok d \<Longrightarrow> dict_ok (fold (\<lambda>x d. dict_set (k x) v d) xs d)"
  by (induction xs arbitrary: d) (auto simp: distinct_update)

lemma fold_dict_del:
  "dict_get (fold (\<lambda>x d. if dict_get d (k x) = Some v then dict_del (k x) d else d) xs d) op =
     (if op \<in> k ` set xs \<and> dict_get d op = Some v then None else dict_get d op)"
  by (induction xs arbitrary: d) (auto simp: delete_conv')

lemma fold_dict_del_ok:
  "dict_ok d \<Longrightarrow> dict_ok (fold (\<lambda>x d. if dict_get d (k x) = Some v then dict_del (k x) d else d) xs d)"
  by (induction xs arbitrary: d) (auto simp: distinct_delete)

lemma insert_entry_fields [simp]:
  "mp_shard_tree (insert_entry mp e) = mp_shard_tree mp"
  "mp_utxo_view (insert_entry mp e) = mp_utxo_view mp"
  "mp_fee_floors (insert_entry mp e) = mp_fee_floors mp"
  "mp_fee_histories (insert_entry mp e) = mp_fee_histories mp"
  "mp_entries (insert_entry mp e) = dict_set (me_tx_id e) e (mp_entries mp)"
  by (simp_all add: insert_entry_def Let_def)

lemma insert_entry_spent:
  "dict_get (mp_spent_outpoints (insert_entry mp e)) op =
     (if op \<in> set (input_outpoints (me_tx e)) then Some (me_tx_id e) else dict_get (mp_spent_outpoints mp) op)"
  by (simp add: insert_entry_def Let_def fold_dict_set input_outpoints_def)

lemma insert_entry_shards:
  "entries_of_shard (insert_entry mp e) s =
     (if s = me_shard_id e then dict_set (me_tx_id e) e (entries_of_shard mp s) else entries_of_shard mp s)"
  by (simp add: insert_entry_def Let_def entries_of_shard_def update_conv')

lemma fees_ok_cong:
  "mp_fee_floors mp' = mp_fee_floors mp \<Longrightarrow> mp_fee_histories mp' = mp_fee_histories mp \<Longrightarrow> fees_ok mp' = fees_ok mp"
  by (simp add: fees_ok_def floor_of_def history_of_def)

lemma update_nonempty [simp]: "AList.update k v d \<noteq> []"
  by (cases d) auto

lemma index_okD:
  assumes "index_ok mp"
  shows "dict_get (entries_of_shard mp s) tid = Some e \<longleftrightarrow> dict_get (mp_entries mp) tid = Some e \<and> me_shard_id e = s"
    and "dict_get (mp_spent_outpoints mp) op = Some tid \<longleftrightarrow>
      (\<exists>e. dict_get (mp_entries mp) tid = Some e \<and> op \<in> set (input_outpoints (me_tx e)))"
    and "dict_ok (entries_of_shard mp s)"
  using assms by (simp_all add: index_ok_def entries_of_shard_def split: option.split)

lemma insert_entry_index_ok:
  assumes "index_ok mp" "dict_get (mp_entries mp) (me_tx_id e) = None"
    "\<forall>op \<in> set (input_outpoints (me_tx e)). dict_get (mp_spent_outpoints mp) op = None"
  shows "index_ok (insert_entry mp e)"
proof -
  let ?mp = "insert_entry mp e"
  have by_shard: "mp_entries_by_shard ?mp =
      dict_set (me_shard_id e) (dict_set (me_tx_id e) e (entries_of_shard mp (me_shard_id e))) (mp_entries_by_shard mp)"
    by (simp add: insert_entry_def Let_def entries_of_shard_def)
  have inner: "d \<noteq> [] \<and> dict_ok d" if "dict_get (mp_entries_by_shard ?mp) s = Some d" for s d
    using that assms(1) index_okD(3) [OF assms(1)]
    by (auto simp: by_shard update_conv' index_ok_def distinct_update split: if_splits)
  have shards: "dict_get (entries_of_shard ?mp s) tid = Some x \<longleftrightarrow>
      dict_get (mp_entries ?mp) tid = Some x \<and> me_shard_id x = s" for s tid x
    using assms(2) by (auto simp: insert_entry_shards update_conv' index_okD(1) [OF assms(1)])
  have "dict_get (mp_spent_outpoints mp) op = Some tid \<longleftrightarrow>
      (\<exists>x. dict_get (mp_entries mp) tid = Some x \<and> op \<in> set (input_outpoints (me_tx x)))" for op tid
    by (rule index_okD(2) [OF assms(1)])
  then have spent: "dict_get (mp_spent_outpoints ?mp) op = Some tid \<longleftrightarrow>
      (\<exists>x. dict_get (mp_entries ?mp) tid = Some x \<and> op \<in> set (input_outpoints (me_tx x)))" for op tid
    using assms(2,3) by (auto simp: insert_entry_spent update_conv') (metis option.distinct(1))+
  have "dict_ok (mp_spent_outpoints ?mp)"
    using assms(1) by (simp add: insert_entry_def Let_def fold_dict_set_ok index_ok_def)
  moreover have "dict_ok (mp_entries_by_shard ?mp)" "dict_ok (mp_entries ?mp)"
    using assms(1) by (simp_all add: by_shard index_ok_def distinct_update)
  ultimately show ?thesis using inner shards spent unfolding index_ok_def by blast
qed

lemma insert_entry_ok:
  assumes "mempool_ok H mp" "entry_ok H (mp_shard_tree mp) e" "dict_get (mp_entries mp) (me_tx_id e) = None"
    "\<forall>op \<in> set (input_outpoints (me_tx e)). dict_get (mp_spent_outpoints mp) op = None"
  shows "mempool_ok H (insert_entry mp e)"
  using assms insert_entry_index_ok [OF _ assms(3,4)] fees_ok_cong [of "insert_entry mp e" mp]
  by (auto simp: mempool_ok_def update_conv' split: if_splits)

lemma remove_entry_fields [simp]:
  "mp_shard_tree (snd (remove_entry mp tid)) = mp_shard_tree mp"
  "mp_utxo_view (snd (remove_entry mp tid)) = mp_utxo_view mp"
  "mp_fee_floors (snd (remove_entry mp tid)) = mp_fee_floors mp"
  "mp_fee_histories (snd (remove_entry mp tid)) = mp_fee_histories mp"
  by (simp_all add: remove_entry_def split: option.split)

lemma remove_entry_fst: "fst (remove_entry mp tid) = dict_get (mp_entries mp) tid"
  by (simp add: remove_entry_def split: option.split)

lemma remove_entry_entries:
  "dict_get (mp_entries (snd (remove_entry mp tid))) = (dict_get (mp_entries mp))(tid := None)"
  by (auto simp: remove_entry_def delete_conv' split: option.split)

lemma remove_entry_shards:
  assumes "dict_get (mp_entries mp) tid = Some e"
  shows "entries_of_shard (snd (remove_entry mp tid)) s =
     (if s = me_shard_id e then dict_del tid (entries_of_shard mp s) else entries_of_shard mp s)"
  using assms
  by (simp add: remove_entry_def Let_def entries_of_shard_def update_conv' delete_conv' split: option.split)

lemma remove_entry_spent:
  assumes "dict_get (mp_entries mp) tid = Some e"
  shows "dict_get (mp_spent_outpoints (snd (remove_entry mp tid))) op =
     (if op \<in> set (input_outpoints (me_tx e)) \<and> dict_get (mp_spent_outpoints mp) op = Some tid then None
      else dict_get (mp_spent_outpoints mp) op)"
  using assms by (simp add: remove_entry_def fold_dict_del input_outpoints_def)

lemma remove_entry_dicts:
  assumes "index_ok mp"
  shows "dict_ok (mp_entries (snd (remove_entry mp tid)))"
    "dict_ok (mp_spent_outpoints (snd (remove_entry mp tid)))"
    "dict_ok (mp_entries_by_shard (snd (remove_entry mp tid)))"
  using assms
  by (simp_all add: remove_entry_def Let_def index_ok_def fold_dict_del_ok distinct_delete distinct_update
      split: option.split)

lemma remove_entry_inner:
  assumes "index_ok mp" "dict_get (mp_entries_by_shard (snd (remove_entry mp tid))) s = Some d"
  shows "d \<noteq> [] \<and> dict_ok d"
proof -
  have old: "d' \<noteq> [] \<and> dict_ok d'" if "dict_get (mp_entries_by_shard mp) s' = Some d'" for s' d'
    using assms(1) that unfolding index_ok_def by blast
  show ?thesis
    using assms(2) old
    by (auto simp: remove_entry_def Let_def update_conv' delete_conv' distinct_delete split: option.splits if_splits)
qed

lemma no_shared_outpoint:
  assumes "index_ok mp" "dict_get (mp_entries mp) tid = Some e" "dict_get (mp_entries mp) k = Some x"
    "op \<in> set (input_outpoints (me_tx e))" "op \<in> set (input_outpoints (me_tx x))"
  shows "k = tid"
  using index_okD(2) [OF assms(1), of op tid] index_okD(2) [OF assms(1), of op k] assms(2-5) by auto

lemma remove_entry_index_ok:
  assumes "index_ok mp"
  shows "index_ok (snd (remove_entry mp tid))"
proof (cases "dict_get (mp_entries mp) tid")
  case None
  then show ?thesis using assms by (simp add: remove_entry_def)
next
  case (Some e)
  let ?mp = "snd (remove_entry mp tid)"
  have shards: "dict_get (entries_of_shard ?mp s) k = Some x \<longleftrightarrow>
      dict_get (mp_entries ?mp) k = Some x \<and> me_shard_id x = s" for s k x
    using Some by (auto simp: remove_entry_shards [OF Some] remove_entry_entries delete_conv' index_okD(1) [OF assms])
  have spent: "dict_get (mp_spent_outpoints ?mp) op = Some k \<longleftrightarrow>
      (\<exists>x. dict_get (mp_entries ?mp) k = Some x \<and> op \<in> set (input_outpoints (me_tx x)))" for op k
  proof (cases "k = tid")
    case True
    then show ?thesis
      using Some index_okD(2) [OF assms, of op tid]
      by (simp add: remove_entry_spent [OF Some] remove_entry_entries)
  next
    case False
    then show ?thesis
      using no_shared_outpoint [OF assms Some, of k _ op] index_okD(2) [OF assms, of op tid] index_okD(2) [OF assms, of op k]
      by (auto simp: remove_entry_spent [OF Some] remove_entry_entries)
  qed
  show ?thesis
    using remove_entry_dicts [OF assms] remove_entry_inner [OF assms] shards spent unfolding index_ok_def by blast
qed

lemma remove_entry_ok: "mempool_ok H mp \<Longrightarrow> mempool_ok H (snd (remove_entry mp tid))"
  using fees_ok_cong [of "snd (remove_entry mp tid)" mp]
  by (auto simp: mempool_ok_def remove_entry_index_ok remove_entry_entries split: if_splits)

lemma remove_all_ok:
  "mempool_ok H mp \<Longrightarrow> mempool_ok H (fold (\<lambda>tid mp. snd (remove_entry mp tid)) tids mp)"
  by (induction tids arbitrary: mp) (simp_all add: remove_entry_ok)

lemma remove_all_entries:
  "dict_get (mp_entries (fold (\<lambda>tid mp. snd (remove_entry mp tid)) tids mp)) k =
     (if k \<in> set tids then None else dict_get (mp_entries mp) k)"
  by (induction tids arbitrary: mp) (auto simp: remove_entry_entries)

lemma remove_all_fields [simp]:
  "mp_shard_tree (fold (\<lambda>tid mp. snd (remove_entry mp tid)) tids mp) = mp_shard_tree mp"
  "mp_utxo_view (fold (\<lambda>tid mp. snd (remove_entry mp tid)) tids mp) = mp_utxo_view mp"
  "mp_fee_floors (fold (\<lambda>tid mp. snd (remove_entry mp tid)) tids mp) = mp_fee_floors mp"
  "mp_fee_histories (fold (\<lambda>tid mp. snd (remove_entry mp tid)) tids mp) = mp_fee_histories mp"
  by (induction tids arbitrary: mp) simp_all

subsection \<open>Admission\<close>

lemma tx_decode_caught: "tx_from_bytes data = Inl e \<Longrightarrow> type_or_value_error e"
  unfolding tx_from_bytes_eq
  by (auto simp: bnd_Inl_iff dest!: wrap_error_Inl [rotated] intro!: value_errors_tx)

lemma decode_canonical_eq:
  assumes "arg_ok arg"
  shows "decode_canonical_tx arg =
    Inr (case arg of TxObject t \<Rightarrow> Some (t, tx_to_bytes t)
      | RawBytes bs \<Rightarrow> (case tx_from_bytes bs of Inl _ \<Rightarrow> None | Inr t \<Rightarrow> Some (t, bs)))"
proof (cases arg)
  case (TxObject t)
  then show ?thesis using tx_from_to_bytes assms by (simp add: decode_canonical_tx_def arg_ok_def)
next
  case (RawBytes bs)
  then show ?thesis
    using tx_decode_caught [of bs] by (auto simp: decode_canonical_tx_def split: sum.split)
qed

lemma sighash_total: "i < length (tx_inputs t) \<Longrightarrow> tx_ok t \<Longrightarrow> \<exists>m. sighash H t (int i) = Inr m"
  by (simp add: sighash_def bnd_require_uint bnd_ensure tx_ok_def uint_limits)

lemma verify_utxo_spend_total: "\<exists>b. verify_utxo_spend H E u w m s ct ch = Inr b"
  by (simp add: verify_utxo_spend_def Let_def verify_template_total)

lemma assess_inputs_total:
  assumes "tx_ok t" "tx_inputs t = pre @ ins" "idx = int (length pre)"
  shows "\<exists>r. assess_inputs H E spent view t now height ins idx seen s = Inr r"
  using assms(2,3)
proof (induction ins arbitrary: pre idx seen s)
  case Nil
  then show ?case by simp
next
  case (Cons inp rest)
  obtain m where m: "sighash H t idx = Inr m"
    using sighash_total [OF _ assms(1), of "length pre" H] Cons.prems by auto
  have "\<exists>r. assess_inputs H E spent view t now height rest (idx + 1) seen' s' = Inr r" for seen' s'
    using Cons.IH [of "pre @ [inp]" "idx + 1" seen' s'] Cons.prems by simp
  moreover obtain f where f: "\<And>u. verify_utxo_spend H E u (in_witness inp) m (tx_sig_type t) now height = Inr (f u)"
    using verify_utxo_spend_total [of H E _ "in_witness inp" m "tx_sig_type t" now height] by metis
  ultimately show ?case using m by (auto simp: Let_def split: option.split)
qed

lemma assess_inputs_iff:
  assumes "tx_ok t" "tx_inputs t = pre @ ins" "idx = int (length pre)"
  shows "assess_inputs H E spent view t now height ins idx seen s = Inr (Inr amount) \<longleftrightarrow>
    distinct (map in_previous_outpoint ins) \<and> seen \<inter> in_previous_outpoint ` set ins = {} \<and>
    (\<forall>op \<in> in_previous_outpoint ` set ins. dict_get spent op = None) \<and>
    (\<forall>i \<in> {length pre..<length (tx_inputs t)}. spendable H E view t now height i) \<and>
    amount = s + sum_list (map (\<lambda>i. u_amount_matoms (the (view (in_previous_outpoint i)))) ins)"
  using assms(2,3)
proof (induction ins arbitrary: pre idx seen s)
  case Nil
  then show ?case by auto
next
  case (Cons inp rest)
  obtain m where m: "sighash H t (int (length pre)) = Inr m"
    using sighash_total [OF _ assms(1), of "length pre" H] Cons.prems by auto
  have nth: "tx_inputs t ! length pre = inp" using Cons.prems by (simp add: nth_append)
  have now: "spendable H E view t now height (length pre) \<longleftrightarrow>
      (\<exists>u. view (in_previous_outpoint inp) = Some u \<and>
        verify_utxo_spend H E u (in_witness inp) m (tx_sig_type t) now height = Inr True)"
    using m Cons.prems(2) by (simp add: spendable_def nth)
  have range: "{length pre..<length (tx_inputs t)} = insert (length pre) {length (pre @ [inp])..<length (tx_inputs t)}"
    using Cons.prems(1) by auto
  note IH = Cons.IH [of "pre @ [inp]" "int (length pre) + 1" "insert (in_previous_outpoint inp) seen"]
  obtain f where f: "\<And>u. verify_utxo_spend H E u (in_witness inp) m (tx_sig_type t) now height = Inr (f u)"
    using verify_utxo_spend_total [of H E _ "in_witness inp" m "tx_sig_type t" now height] by metis
  show ?case
    unfolding range ball_simps now
    using Cons.prems by (auto simp: Let_def m f IH split: option.split)
qed

lemma tx_bytes_pos: "0 < length (tx_to_bytes t)"
  by (simp add: tx_to_bytes_def tx_widths)

lemma fee_rate_eq:
  "0 \<le> fee \<Longrightarrow> 0 < n \<Longrightarrow> fee_rate_matoms_per_kb fee n = Inr (fee * BYTES_PER_KB div n)"
  by (simp add: fee_rate_matoms_per_kb_def mp_require_nonnegative_int_def mp_require_positive_int_def bnd_ensure)

lemma check_locks_Inr:
  assumes "tx_ok t"
  shows "check_locks (tx_locktime_ms t) (tx_lockheight t) now height = Inr () \<longleftrightarrow>
    uint64 now \<and> uint64 height \<and> lock_mature (tx_locktime_ms t) now \<and> lock_mature (tx_lockheight t) height"
  using assms by (auto simp: check_locks_def tx_ok_def bnd_require_uint bnd_ensure uint64_def lock_mature_def)

lemma check_locks_caught: "check_locks l h now height = Inl e \<Longrightarrow> type_or_value_error e"
  by (auto simp: check_locks_def bnd_require_uint bnd_ensure split: if_splits)

text \<open>What \<open>_assess_spends\<close> returns: a reason, or the fee and the rate of a transaction whose spends are all valid.\<close>

lemma assess_spends_cases:
  assumes "tx_ok t" and n: "n = int (length (tx_to_bytes t))"
  obtains
    (reject) reason where "assess_spends H E mp t n view_opt now height = Inr (rejected reason)"
      "\<And>view. view_opt = Some view \<Longrightarrow> \<not> (tx_inputs t \<noteq> [] \<and> uint64 now \<and> uint64 height \<and>
        lock_mature (tx_locktime_ms t) now \<and> lock_mature (tx_lockheight t) height \<and> distinct (input_outpoints t) \<and>
        (\<forall>op \<in> set (input_outpoints t). dict_get (mp_spent_outpoints mp) op = None) \<and>
        (\<forall>i < length (tx_inputs t). spendable H E view t now height i) \<and> 0 \<le> tx_fee view t)"
  | (accept) view where "view_opt = Some view"
      "assess_spends H E mp t n view_opt now height =
         Inr \<lparr>sa_fee_matoms = tx_fee view t, sa_fee_rate_matoms_per_kb = tx_rate view t,
              sa_is_coinbase = False, sa_reason = None\<rparr>"
      "tx_inputs t \<noteq> []" "uint64 now" "uint64 height"
      "lock_mature (tx_locktime_ms t) now" "lock_mature (tx_lockheight t) height" "distinct (input_outpoints t)"
      "\<forall>op \<in> set (input_outpoints t). dict_get (mp_spent_outpoints mp) op = None"
      "\<forall>i < length (tx_inputs t). spendable H E view t now height i" "0 \<le> tx_fee view t"
proof (cases "tx_inputs t = [] \<or> view_opt = None \<or>
    check_locks (tx_locktime_ms t) (tx_lockheight t) now height \<noteq> Inr ()")
  case True
  then have "\<exists>reason. assess_spends H E mp t n view_opt now height = Inr (rejected reason)"
    using check_locks_caught [of "tx_locktime_ms t" "tx_lockheight t" now height]
    by (auto simp: assess_spends_def split: option.split sum.split)
  then obtain reason where "assess_spends H E mp t n view_opt now height = Inr (rejected reason)" by blast
  then show thesis
    by (rule reject) (use True check_locks_Inr [OF assms(1), of now height] in auto)
next
  case False
  then obtain view where v: "view_opt = Some view" and ins: "tx_inputs t \<noteq> []"
    and lk: "check_locks (tx_locktime_ms t) (tx_lockheight t) now height = Inr ()" by auto
  note step = assess_spends_def [of H E mp t n view_opt now height, unfolded v lk, simplified ins]
  obtain r where r: "assess_inputs H E (mp_spent_outpoints mp) view t now height (tx_inputs t) 0 {} 0 = Inr r"
    using assess_inputs_total [OF assms(1), of "[]" "tx_inputs t" 0 H E "mp_spent_outpoints mp" view now height "{}" 0]
    by auto
  have sums: "(\<Sum>i\<leftarrow>tx_inputs t. u_amount_matoms (the (view (in_previous_outpoint i)))) - sum_list (map out_amount_matoms (tx_outputs t))
      = tx_fee view t"
    by (simp add: tx_fee_def input_outpoints_def comp_def)
  have iff: "r = Inr a \<longleftrightarrow> distinct (input_outpoints t) \<and>
      (\<forall>op \<in> set (input_outpoints t). dict_get (mp_spent_outpoints mp) op = None) \<and>
      (\<forall>i < length (tx_inputs t). spendable H E view t now height i) \<and>
      a = (\<Sum>i\<leftarrow>tx_inputs t. u_amount_matoms (the (view (in_previous_outpoint i))))" for a
    using assess_inputs_iff [OF assms(1), of "[]" "tx_inputs t" 0 H E "mp_spent_outpoints mp" view now height "{}" 0 a] r
    unfolding input_outpoints_def set_map by (simp add: Ball_def)
  have ok: "(\<exists>amount. r = Inr amount) \<longleftrightarrow> distinct (input_outpoints t) \<and>
      (\<forall>op \<in> set (input_outpoints t). dict_get (mp_spent_outpoints mp) op = None) \<and>
      (\<forall>i < length (tx_inputs t). spendable H E view t now height i)"
    unfolding iff by blast
  have amount: "a - sum_list (map out_amount_matoms (tx_outputs t)) = tx_fee view t" if "r = Inr a" for a
    using that sums unfolding iff by simp
  show thesis
  proof (cases "(\<exists>amount. r = Inr amount) \<and> 0 \<le> tx_fee view t")
    case True
    then obtain a where a: "r = Inr a" by blast
    have "assess_spends H E mp t n view_opt now height =
        Inr \<lparr>sa_fee_matoms = tx_fee view t, sa_fee_rate_matoms_per_kb = tx_rate view t, sa_is_coinbase = False, sa_reason = None\<rparr>"
    proof -
      have rate: "fee_rate_matoms_per_kb (tx_fee view t) n = Inr (tx_rate view t)"
        using True fee_rate_eq [of "tx_fee view t" n] tx_bytes_pos [of t] by (simp add: n tx_rate_def)
      have "\<not> a < sum_list (map out_amount_matoms (tx_outputs t))" using True amount [OF a] by simp
      then show ?thesis by (simp add: step v r a Let_def amount [OF a] rate)
    qed
    then show thesis
      by (rule accept [OF v]) (use True ok ins lk check_locks_Inr [OF assms(1), of now height] in simp_all)
  next
    case False
    have "\<exists>reason. assess_spends H E mp t n view_opt now height = Inr (rejected reason)"
    proof (cases r)
      case (Inl reason)
      then show ?thesis by (intro exI [of _ reason]) (simp add: step v r)
    next
      case (Inr a)
      then have "a < sum_list (map out_amount_matoms (tx_outputs t))" using False amount [OF Inr] by auto
      then show ?thesis by (intro exI [of _ "''negative_fee''"]) (simp add: step v r Inr)
    qed
    then obtain reason where "assess_spends H E mp t n view_opt now height = Inr (rejected reason)" by blast
    then show thesis by (rule reject) (use False ok v in auto)
  qed
qed

lemma MempoolEntry_eq:
  assumes "digest_ok H" "entry_ok H tree e" "shard_ok (me_shard_id e)"
  shows "MempoolEntry H e = Inr e"
proof -
  have "0 < me_tx_size_bytes e" "me_tx_size_bytes e \<le> int MAX_TX_BYTES"
    using assms(2) tx_bytes_pos [of "me_tx e"] by (auto simp: entry_ok_def tx_ok_def)
  moreover have "length (me_tx_id e) = HASH_LEN_BYTES"
    using assms(2) length_domain_hash [OF assms(1)] by (simp add: entry_ok_def tx_id_def)
  ultimately show ?thesis
    using assms(2,3) by (auto simp: MempoolEntry_def bnd_Inr_iff require_shard_id_Inr entry_ok_def BYTES_PER_KB_def
        pos_imp_zdiv_nonneg_iff)
qed

lemma tx_of_decode:
  assumes "arg_ok arg"
  shows "decode_canonical_tx arg = Inr (map_option (\<lambda>t. (t, tx_to_bytes t)) (tx_of arg))"
    and "tx_of arg = Some t \<Longrightarrow> tx_ok t"
  using assms tx_to_from_bytes
  by (auto simp: decode_canonical_eq tx_of_def arg_ok_def split: tx_or_bytes.splits sum.splits)

lemma entry_of_ok:
  assumes "tx_ok t" "route_tx tree (tx_id H t) = Inr s" "tx_inputs t \<noteq> []" "distinct (input_outpoints t)" "0 \<le> tx_fee view t"
  shows "entry_ok H tree (entry_of H view t s)"
  using assms by (simp add: entry_ok_def entry_of_def tx_rate_def)

lemma route_ok:
  assumes "digest_ok H" "mempool_ok H mp"
  obtains s where "route_tx (mp_shard_tree mp) (tx_id H t) = Inr s" "shard_ok s"
proof -
  have ok: "tree_ok (leaf_shard_ids (mp_shard_tree mp))" using assms(2) by (simp add: mempool_ok_def)
  have "length (tx_id H t) = HASH_LEN_BYTES" by (simp add: tx_id_def length_domain_hash [OF assms(1)])
  from route_tx_spec(2) [OF ok this] obtain s where
    s: "route_tx (mp_shard_tree mp) (tx_id H t) = Inr s" "s \<in> leaf_set (mp_shard_tree mp)" by blast
  moreover have "shard_ok s" using s(2) ok by (simp add: tree_ok_def leaf_set_def)
  ultimately show thesis using that by blast
qed

lemma add_routed_result:
  assumes H: "digest_ok H" and mp: "mempool_ok H mp" and t: "tx_ok t"
    and s: "route_tx (mp_shard_tree mp) (tx_id H t) = Inr s" "shard_ok s"
  obtains
    (reject) r where "add_routed H E mp t (int (length (tx_to_bytes t))) s view_opt now height = Inr (r, mp)"
      "\<not> ar_accepted r" "ar_reason r \<noteq> None"
      "\<And>shard_id view. view_of mp view_opt = Some view \<Longrightarrow> \<not> admissible H E mp t shard_id view now height"
  | (accept) view where "view_of mp view_opt = Some view" "admissible H E mp t None view now height"
      "add_routed H E mp t (int (length (tx_to_bytes t))) s view_opt now height =
         Inr (add_ok (tx_id H t) s (tx_fee view t) (tx_rate view t), insert_entry mp (entry_of H view t s))"
proof (cases "dict_get (mp_entries mp) (tx_id H t)")
  case (Some e)
  then have "add_routed H E mp t (int (length (tx_to_bytes t))) s view_opt now height =
      Inr (add_reject ''duplicate'' (Some (tx_id H t)) (Some s), mp)"
    by (simp add: add_routed_def)
  then show thesis by (rule reject) (use Some in \<open>auto simp: add_reject_def admissible_def\<close>)
next
  case None
  note step = add_routed_def [of H E mp t "int (length (tx_to_bytes t))" s view_opt now height, folded view_of_def]
  show thesis
  proof (cases rule: assess_spends_cases [OF t refl, of H E mp "view_of mp view_opt" now height, case_names bad good])
    case (bad reason)
    have "add_routed H E mp t (int (length (tx_to_bytes t))) s view_opt now height =
        Inr (add_reject reason (Some (tx_id H t)) (Some s), mp)"
      using None by (simp add: step bad(1) rejected_def)
    then show thesis
      by (rule reject) (use bad(2) in \<open>auto simp: add_reject_def admissible_def\<close>)
  next
    case (good view)
    have e: "entry_ok H (mp_shard_tree mp) (entry_of H view t s)"
      using entry_of_ok [OF t s(1)] good by simp
    have entry: "MempoolEntry H (entry_of H view t s) = Inr (entry_of H view t s)"
      by (rule MempoolEntry_eq [OF H e]) (simp add: entry_of_def s)
    show thesis
    proof (cases "floor_of mp s \<le> tx_rate view t")
      case False
      have "add_routed H E mp t (int (length (tx_to_bytes t))) s view_opt now height =
          Inr (add_reject ''below_fee_floor'' (Some (tx_id H t)) (Some s), mp)"
        using None False by (simp add: step good(2) fee_floor_eq s(2))
      then show thesis
        by (rule reject) (use False s(1) good(1) in \<open>auto simp: add_reject_def admissible_def\<close>)
    next
      case True
      have "add_routed H E mp t (int (length (tx_to_bytes t))) s view_opt now height =
          Inr (add_ok (tx_id H t) s (tx_fee view t) (tx_rate view t), insert_entry mp (entry_of H view t s))"
        using None True entry by (simp add: step good(2) fee_floor_eq s(2) entry_of_def Let_def)
      moreover have "admissible H E mp t None view now height"
        using True None s good by (simp add: admissible_def)
      ultimately show thesis using accept [OF good(1)] by blast
    qed
  qed
qed

lemma add_tx_result:
  assumes H: "digest_ok H" and mp: "mempool_ok H mp" and arg: "arg_ok arg"
  obtains
    (reject) r where "add_tx H E mp arg shard_id view_opt now height = Inr (r, mp)" "\<not> ar_accepted r" "ar_reason r \<noteq> None"
      "\<And>t view. tx_of arg = Some t \<Longrightarrow> view_of mp view_opt = Some view \<Longrightarrow> \<not> admissible H E mp t shard_id view now height"
  | (accept) t view s where "tx_of arg = Some t" "tx_ok t" "view_of mp view_opt = Some view"
      "admissible H E mp t shard_id view now height"
      "route_tx (mp_shard_tree mp) (tx_id H t) = Inr s"
      "add_tx H E mp arg shard_id view_opt now height =
         Inr (add_ok (tx_id H t) s (tx_fee view t) (tx_rate view t), insert_entry mp (entry_of H view t s))"
proof (cases "tx_of arg")
  case None
  then have "add_tx H E mp arg shard_id view_opt now height = Inr (add_reject ''malformed'' None None, mp)"
    by (simp add: add_tx_def tx_of_decode(1) [OF arg])
  then show thesis by (rule reject) (use None in \<open>simp_all add: add_reject_def\<close>)
next
  case (Some t)
  have t: "tx_ok t" using tx_of_decode(2) [OF arg Some] .
  obtain s where s: "route_tx (mp_shard_tree mp) (tx_id H t) = Inr s" "shard_ok s" by (rule route_ok [OF H mp])
  have step: "add_tx H E mp arg shard_id view_opt now height =
      (case shard_id of None \<Rightarrow> add_routed H E mp t (int (length (tx_to_bytes t))) s view_opt now height
       | Some r \<Rightarrow> if \<not> shard_ok r then Inr (add_reject ''bad_shard'' (Some (tx_id H t)) None, mp)
           else if r \<noteq> s then Inr (add_reject ''wrong_shard'' (Some (tx_id H t)) (Some r), mp)
           else add_routed H E mp t (int (length (tx_to_bytes t))) s view_opt now height)"
    by (simp add: add_tx_def tx_of_decode(1) [OF arg] Some s require_shard_id_eq split: option.split)
  show thesis
  proof (cases "\<forall>r. shard_id = Some r \<longrightarrow> r = s")
    case False
    then have "\<exists>r. add_tx H E mp arg shard_id view_opt now height = Inr (r, mp) \<and> \<not> ar_accepted r \<and> ar_reason r \<noteq> None"
      by (auto simp: step add_reject_def)
    then obtain r where "add_tx H E mp arg shard_id view_opt now height = Inr (r, mp)" "\<not> ar_accepted r"
      "ar_reason r \<noteq> None" by blast
    then show thesis by (rule reject) (use False s Some in \<open>auto simp: admissible_def\<close>)
  next
    case True
    then have routed: "add_tx H E mp arg shard_id view_opt now height =
        add_routed H E mp t (int (length (tx_to_bytes t))) s view_opt now height"
      using s(2) unfolding step by (cases shard_id) simp_all
    show thesis
    proof (cases rule: add_routed_result [OF H mp t s, of E view_opt now height, case_names bad good])
      case (bad r)
      show thesis by (rule reject [of r]) (use bad routed Some in auto)
    next
      case (good view)
      have "admissible H E mp t shard_id view now height"
        using good(2) True s(1) by (simp add: admissible_def)
      then show thesis using accept [OF Some t good(1) _ s(1)] good(3) routed by simp
    qed
  qed
qed

subsection \<open>Fee floors\<close>

lemma recent_fee_rate_eq: "shard_ok s \<Longrightarrow> recent_fee_rate mp s = Inr (window_rate (history_of mp s))"
  by (simp add: recent_fee_rate_def require_shard_id_eq window_rate_def history_of_def Let_def
      FEE_FLOOR_MIN_MATOMS_PER_KB_def split: option.split)

lemma window_rate_nonneg: "\<forall>x \<in> set h. sample_ok s x \<Longrightarrow> 0 \<le> window_rate h"
  by (auto simp: window_rate_def BYTES_PER_KB_def sample_ok_def pos_imp_zdiv_nonneg_iff intro!: sum_list_nonneg mult_nonneg_nonneg)

lemma next_floor_eq:
  assumes "shard_ok s" "0 \<le> floor_of mp s" "0 \<le> window_rate (history_of mp s)"
  shows "calculate_next_fee_floor mp s None = Inr ((7 * floor_of mp s + window_rate (history_of mp s)) div 8)"
  using assms
  by (simp add: calculate_next_fee_floor_def require_shard_id_eq fee_floor_eq recent_fee_rate_eq mp_require_nonnegative_int_def
      FEE_FLOOR_MIN_MATOMS_PER_KB_def FEE_FLOOR_EWMA_PREV_WEIGHT_def FEE_FLOOR_EWMA_NEW_WEIGHT_def FEE_FLOOR_EWMA_DEN_def
      pos_imp_zdiv_nonneg_iff)

lemma FeeFloorSample_Inr:
  "FeeFloorSample s fees n = Inr x \<longleftrightarrow>
     shard_ok s \<and> x = \<lparr>fs_shard_id = s, fs_floor_eligible_fees_matoms = fees, fs_payload_bytes = n\<rparr> \<and> sample_ok s x"
  by (auto simp: FeeFloorSample_def bnd_Inr_iff require_shard_id_Inr sample_ok_def)

lemma window_append_ok:
  "length (window_append h x) \<le> FEE_FLOOR_WINDOW_FRUITS"
  "set (window_append h x) \<subseteq> insert x (set h)"
  "window_append h x \<noteq> []"
  using set_drop_subset [of _ "h @ [x]"]
  by (auto simp: window_append_def Let_def FEE_FLOOR_WINDOW_FRUITS_def)

definition with_sample :: "mempool \<Rightarrow> fee_floor_sample \<Rightarrow> mempool" where
  "with_sample mp x = mp\<lparr>mp_fee_histories :=
     dict_set (fs_shard_id x) (window_append (history_of mp (fs_shard_id x)) x) (mp_fee_histories mp)\<rparr>"

lemma with_sample_fields:
  "floor_of (with_sample mp x) s = floor_of mp s"
  "history_of (with_sample mp x) s =
     (if s = fs_shard_id x then window_append (history_of mp s) x else history_of mp s)"
  by (simp_all add: with_sample_def floor_of_def history_of_def update_conv')

lemma record_confirmed_fruit_eq:
  assumes "fees_ok mp"
  shows "record_confirmed_fruit mp s fees n =
    bnd (FeeFloorSample s fees n) (\<lambda>x. let f = (7 * floor_of mp s + window_rate (window_append (history_of mp s) x)) div 8 in
      Inr (f, (with_sample mp x)\<lparr>mp_fee_floors := dict_set s f (mp_fee_floors mp)\<rparr>))"
proof (cases "FeeFloorSample s fees n")
  case (Inl e)
  then show ?thesis by (simp add: record_confirmed_fruit_def)
next
  case (Inr x)
  then have x: "shard_ok s" "fs_shard_id x = s" "sample_ok s x" by (auto simp: FeeFloorSample_Inr)
  have "\<forall>y \<in> set (window_append (history_of mp s) x). sample_ok s y"
    using assms x(3) window_append_ok(2) [of "history_of mp s" x] by (auto simp: fees_ok_def)
  then have "calculate_next_fee_floor (with_sample mp x) s None =
      Inr ((7 * floor_of mp s + window_rate (window_append (history_of mp s) x)) div 8)"
    using next_floor_eq [of s "with_sample mp x"] x assms window_rate_nonneg [of "window_append (history_of mp s) x" s]
    by (simp add: with_sample_fields fees_ok_def)
  then show ?thesis
    using Inr x by (simp add: record_confirmed_fruit_def Let_def with_sample_def history_of_def)
qed

lemma ewma_bounds: "min p r \<le> (7 * p + r) div 8 \<and> (7 * p + r) div 8 \<le> max p (r :: int)"
  by (auto simp: min_def max_def)

lemma record_confirmed_fruit_ok:
  assumes "mempool_ok H mp" "record_confirmed_fruit mp s fees n = Inr (f, mp')"
  shows "mempool_ok H mp'"
proof -
  have ok: "fees_ok mp" "index_ok mp" using assms(1) by (auto simp: mempool_ok_def)
  obtain x where x: "FeeFloorSample s fees n = Inr x" and f: "f = (7 * floor_of mp s + window_rate (window_append (history_of mp s) x)) div 8"
    and mp': "mp' = (with_sample mp x)\<lparr>mp_fee_floors := dict_set s f (mp_fee_floors mp)\<rparr>"
    using assms(2) by (auto simp: record_confirmed_fruit_eq [OF ok(1)] bnd_Inr_iff Let_def)
  have xs: "fs_shard_id x = s" "sample_ok s x" using x by (auto simp: FeeFloorSample_Inr)
  have win: "\<forall>y \<in> set (window_append (history_of mp s) x). sample_ok s y"
    using ok(1) xs(2) window_append_ok(2) [of "history_of mp s" x] by (auto simp: fees_ok_def)
  then have "0 \<le> f" using ok(1) window_rate_nonneg [OF win] by (simp add: f fees_ok_def pos_imp_zdiv_nonneg_iff)
  moreover have "floor_of mp' k = (if k = s then f else floor_of mp k)"
    "history_of mp' k = (if k = s then window_append (history_of mp s) x else history_of mp k)" for k
    using xs(1) by (simp_all add: mp' floor_of_def history_of_def with_sample_def update_conv')
  ultimately have "fees_ok mp'"
    using ok(1) win window_append_ok(1) by (simp add: fees_ok_def)
  moreover have "index_ok mp'"
    using ok(2) by (simp add: mp' with_sample_def index_ok_def entries_of_shard_def)
  ultimately show ?thesis using assms(1) by (simp add: mempool_ok_def mp' with_sample_def)
qed

lemma set_fee_floor_Inr:
  "set_fee_floor mp s f = Inr mp' \<longleftrightarrow>
     shard_ok s \<and> 0 \<le> f \<and> mp' = mp\<lparr>mp_fee_floors := dict_set s f (mp_fee_floors mp)\<rparr>"
  by (auto simp: set_fee_floor_def bnd_Inr_iff require_shard_id_Inr FEE_FLOOR_MIN_MATOMS_PER_KB_def)

lemma set_fee_floor_ok: "mempool_ok H mp \<Longrightarrow> set_fee_floor mp s f = Inr mp' \<Longrightarrow> mempool_ok H mp'"
  by (auto simp: set_fee_floor_Inr mempool_ok_def index_ok_def entries_of_shard_def fees_ok_def floor_of_def history_of_def
      update_conv')

lemma set_fee_floors_ok: "mempool_ok H mp \<Longrightarrow> set_fee_floors mp fs = Inr mp' \<Longrightarrow> mempool_ok H mp'"
  by (induction mp fs rule: set_fee_floors.induct) (auto simp: bnd_Inr_iff set_fee_floor_ok)

lemma default_tree_ok: "tree_ok (leaf_shard_ids default_tree)"
proof -
  have "ShardTree [ROOT_SHARD_ID] = Inr default_tree" by code_simp
  then show ?thesis by (metis ShardTree_eq Inl_Inr_False Inr_inject shard_tree.select_convs(1))
qed

lemma Mempool_ok:
  assumes "\<And>t. tree = Some t \<Longrightarrow> tree_ok (leaf_shard_ids t)" "Mempool tree view_opt floors = Inr mp"
  shows "mempool_ok H mp"
  using assms(2) unfolding Mempool_def
  by (rule set_fee_floors_ok [rotated])
    (use assms(1) default_tree_ok in \<open>auto simp: mempool_ok_def index_ok_def entries_of_shard_def fees_ok_def floor_of_def
      history_of_def split: option.split\<close>)

lemma evict_below_floor_Inr:
  assumes "evict_below_floor mp s floor_opt = Inr (tids, mp')"
  obtains mp1 f where "shard_ok s" "mp1 = mp \<and> floor_opt = None \<and> f = floor_of mp s \<or>
      floor_opt = Some f \<and> set_fee_floor mp s f = Inr mp1"
    "tids = sort (map fst (filter (\<lambda>(tid, e). \<not> me_is_coinbase e \<and> me_fee_rate_matoms_per_kb e < f) (entries_of_shard mp1 s)))"
    "mp' = fold (\<lambda>tid mp. snd (remove_entry mp tid)) tids mp1"
  using assms
  by (auto simp: evict_below_floor_def bnd_Inr_iff require_shard_id_Inr fee_floor_eq Let_def split: option.splits)

lemma mempool_step_ok:
  assumes "digest_ok H" "mempool_ok H mp" "mempool_step H E mp mp'"
  shows "mempool_ok H mp'"
  using assms(3)
proof cases
  case (step_add arg shard_id view_opt now height r)
  show ?thesis
  proof (cases rule: add_tx_result [OF assms(1,2) step_add(1), of E shard_id view_opt now height, case_names bad good])
    case (bad r')
    then show ?thesis using step_add(2) assms(2) by simp
  next
    case (good t view s)
    have "mempool_ok H (insert_entry mp (entry_of H view t s))"
    proof (rule insert_entry_ok [OF assms(2)])
      show "entry_ok H (mp_shard_tree mp) (entry_of H view t s)"
        using entry_of_ok [OF good(2,5)] good(4) by (simp add: admissible_def)
    qed (use good(4) in \<open>simp_all add: admissible_def entry_of_def\<close>)
    then show ?thesis using step_add(2) good(6) by simp
  qed
next
  case (step_remove tid t)
  then show ?thesis using remove_entry_ok [OF assms(2), of tid] by (simp add: mp_remove_def split: prod.splits)
next
  case (step_evict s floor_opt tids)
  from step_evict obtain mp1 f where mp1: "mp1 = mp \<or> set_fee_floor mp s f = Inr mp1"
    and mp': "mp' = fold (\<lambda>tid mp. snd (remove_entry mp tid)) tids mp1"
    by (rule evict_below_floor_Inr) auto
  have "mempool_ok H mp1" using mp1 set_fee_floor_ok [OF assms(2)] assms(2) by auto
  then show ?thesis unfolding mp' by (rule remove_all_ok)
next
  case (step_record s fees n f)
  then show ?thesis by (rule record_confirmed_fruit_ok [OF assms(2)])
next
  case (step_floor s f)
  then show ?thesis by (rule set_fee_floor_ok [OF assms(2)])
qed

subsection \<open>Selection\<close>

fun select_entries :: "int \<Rightarrow> int \<Rightarrow> mempool_entry list \<Rightarrow> mempool_entry list" where
  "select_entries b u [] = []"
| "select_entries b u (e # es) = (if u + me_tx_size_bytes e > b then select_entries b u es
     else e # select_entries b (u + me_tx_size_bytes e) es)"

abbreviation total_size :: "mempool_entry list \<Rightarrow> int" where
  "total_size es \<equiv> sum_list (map me_tx_size_bytes es)"

abbreviation by_key :: "mempool_entry list \<Rightarrow> bool" where
  "by_key \<equiv> sorted_wrt (\<lambda>x y. selection_key x < selection_key y)"

lemma select_loop_eq: "select_loop b u es = map me_tx (select_entries b u es)"
  by (induction b u es rule: select_entries.induct) auto

lemma select_entries_subset: "set (select_entries b u es) \<subseteq> set es"
  by (induction b u es rule: select_entries.induct) auto

lemma select_entries_sorted: "by_key es \<Longrightarrow> by_key (select_entries b u es)"
proof (induction b u es rule: select_entries.induct)
  case (2 b u e es)
  then show ?case using select_entries_subset [of b _ es] by auto
qed simp

lemma select_entries_budget: "u \<le> b \<Longrightarrow> u + total_size (select_entries b u es) \<le> b"
proof (induction b u es rule: select_entries.induct)
  case (2 b u e es)
  then show ?case by (cases "u + me_tx_size_bytes e > b") (simp_all add: add.assoc)
qed simp

lemma select_entries_greedy:
  assumes "by_key es" "e \<in> set es" "e \<notin> set (select_entries b u es)"
  shows "b < u + total_size (filter (\<lambda>x. selection_key x < selection_key e) (select_entries b u es)) + me_tx_size_bytes e"
  using assms
proof (induction b u es rule: select_entries.induct)
  case (2 b u a es)
  show ?case
  proof (cases "u + me_tx_size_bytes a > b")
    case True
    show ?thesis
    proof (cases "a = e")
      case a: True
      have "\<forall>x \<in> set (select_entries b u es). \<not> selection_key x < selection_key e"
        using select_entries_subset [of b u es] 2(3) a by fastforce
      then show ?thesis using True a by (simp add: filter_False)
    next
      case False
      then show ?thesis using 2(1) [OF True] 2(3-5) True by simp
    qed
  next
    case False
    then have ne: "a \<noteq> e" using 2(5) by auto
    then have "selection_key a < selection_key e" using 2(3,4) by auto
    then show ?thesis using 2(2) [OF False] 2(3-5) False ne by (simp add: add.assoc)
  qed
qed simp

lemma dict_values:
  assumes "dict_ok d"
  shows "e \<in> set (map snd d) \<longleftrightarrow> (\<exists>k. dict_get d k = Some e)"
  using assms by force

lemma eligible_sorted:
  assumes "mempool_ok H mp"
  shows "by_key (sort_key selection_key (filter P (map snd (entries_of_shard mp s))))"
proof -
  let ?d = "entries_of_shard mp s"
  have d: "dict_ok ?d" and get: "dict_get ?d k = Some e \<longleftrightarrow> dict_get (mp_entries mp) k = Some e \<and> me_shard_id e = s" for k e
    using assms index_okD by (auto simp: mempool_ok_def)
  have "me_tx_id e = k" if "(k, e) \<in> set ?d" for k e
    using that d get [of k e] assms by (simp add: mempool_ok_def)
  then have "map me_tx_id (map snd ?d) = map fst ?d" by (auto simp: comp_def)
  then have "distinct (map me_tx_id (map snd ?d))" using d by metis
  then have "distinct (map me_tx_id (filter P (map snd ?d)))" by (rule distinct_map_filter)
  then have "distinct (map selection_key (filter P (map snd ?d)))"
    by (auto simp: distinct_map inj_on_def selection_key_def)
  then have "distinct (map selection_key (sort_key selection_key (filter P (map snd ?d))))"
    by (simp add: distinct_map)
  then have "sorted_wrt (<) (map selection_key (sort_key selection_key (filter P (map snd ?d))))"
    by (simp add: strict_sorted_iff)
  then show ?thesis by (simp add: sorted_wrt_map)
qed

lemma eligible_iff:
  assumes "mempool_ok H mp"
  shows "e \<in> set (filter P (map snd (entries_of_shard mp s))) \<longleftrightarrow>
    P e \<and> me_shard_id e = s \<and> dict_get (mp_entries mp) (me_tx_id e) = Some e"
proof -
  have ix: "index_ok mp" using assms by (simp add: mempool_ok_def)
  have "e \<in> set (map snd (entries_of_shard mp s)) \<longleftrightarrow> (\<exists>k. dict_get (mp_entries mp) k = Some e \<and> me_shard_id e = s)"
    unfolding dict_values [OF index_okD(3) [OF ix]] index_okD(1) [OF ix] ..
  also have "\<dots> \<longleftrightarrow> me_shard_id e = s \<and> dict_get (mp_entries mp) (me_tx_id e) = Some e"
    using assms by (auto simp: mempool_ok_def)
  finally show ?thesis by auto
qed

lemma select_for_fruit_eq:
  "select_for_fruit mp s budget =
    (if shard_ok s \<and> 0 \<le> budget \<and> budget \<le> MAX_FRUIT_PAYLOAD_BYTES then
       Inr (map me_tx (select_entries budget 0 (sort_key selection_key
         (filter (\<lambda>e. me_is_coinbase e \<or> me_fee_rate_matoms_per_kb e \<ge> floor_of mp s) (map snd (entries_of_shard mp s))))))
     else Inl ValueError)"
  by (simp add: select_for_fruit_def require_shard_id_eq mp_require_nonnegative_int_def bnd_ensure fee_floor_eq select_loop_eq Let_def)

subsection \<open>Example pools\<close>

lemma pool_spend:
  "verify_utxo_spend pad_hash example_ed25519
     (example_utxo\<lparr>u_outpoint := op, u_amount_matoms := 20, u_owner_pubkey_hash := pad_hash (DOMAIN_ADDRESS # replicate 32 1)\<rparr>)
     (replicate 96 1) m 0 5 5 = Inr True"
  by code_simp

lemma empty_pool_reachable: "mempool_reachable H E empty_pool"
  by (rule reach_init [of None "Some pool_view" None]) (simp_all add: Mempool_def empty_pool_def)

lemma empty_pool_ok: "mempool_ok H empty_pool"
  by (rule Mempool_ok [of None "Some pool_view" None]) (simp_all add: Mempool_def empty_pool_def)

lemma empty_pool_fields [simp]:
  "mp_entries empty_pool = []" "mp_spent_outpoints empty_pool = []" "mp_utxo_view empty_pool = Some pool_view"
  "floor_of empty_pool s = 0" "mp_shard_tree empty_pool = default_tree" "mp_entries_by_shard empty_pool = []"
  by (simp_all add: empty_pool_def floor_of_def)

lemma root_route: "digest_ok H \<Longrightarrow> route_tx default_tree (tx_id H t) = Inr ROOT_SHARD_ID"
  using route_tx_spec(2) [OF default_tree_ok, of "tx_id H t"]
  by (auto simp: tx_id_def length_domain_hash default_tree_def leaf_set_def)

lemma pool_admits:
  assumes "tx_ok t" "tx_sig_type t = 0" "tx_locktime_ms t = 0" "tx_lockheight t = 0"
    "tx_inputs t \<noteq> []" "distinct (input_outpoints t)"
    "\<forall>i \<in> set (tx_inputs t). pool_view (in_previous_outpoint i) \<noteq> None \<and> in_witness i = replicate 96 1"
    "0 \<le> tx_fee pool_view t"
  shows "admissible pad_hash example_ed25519 empty_pool t None pool_view 5 5"
proof -
  have "spendable pad_hash example_ed25519 pool_view t 5 5 i" if i: "i < length (tx_inputs t)" for i
  proof -
    have "pool_view (in_previous_outpoint (tx_inputs t ! i)) \<noteq> None" "in_witness (tx_inputs t ! i) = replicate 96 1"
      using assms(7) nth_mem [OF i] by auto
    moreover obtain m where "sighash pad_hash t (int i) = Inr m" using sighash_total [OF i assms(1)] by blast
    ultimately show ?thesis using assms(2) by (auto simp: spendable_def pool_view_def pool_spend split: if_splits)
  qed
  moreover have "0 \<le> tx_rate pool_view t"
    using assms(8) tx_bytes_pos [of t] by (simp add: tx_rate_def BYTES_PER_KB_def pos_imp_zdiv_nonneg_iff)
  ultimately show ?thesis
    using assms by (simp add: admissible_def uint64_def uint_limits lock_mature_def)
qed

lemma pool_accepts:
  assumes "admissible pad_hash example_ed25519 empty_pool t None pool_view 5 5" "tx_ok t"
  shows "add_tx pad_hash example_ed25519 empty_pool (TxObject t) None None 5 5 =
    Inr (add_ok (tx_id pad_hash t) ROOT_SHARD_ID (tx_fee pool_view t) (tx_rate pool_view t),
         insert_entry empty_pool (entry_of pad_hash pool_view t ROOT_SHARD_ID))"
proof -
  have arg: "arg_ok (TxObject t)" "tx_of (TxObject t) = Some t" "view_of empty_pool None = Some pool_view"
    using assms(2) by (simp_all add: arg_ok_def tx_of_def view_of_def)
  show ?thesis
    using root_route [OF pad_hash_digest] arg assms(1)
    by (cases rule: add_tx_result [OF pad_hash_digest empty_pool_ok arg(1), of example_ed25519 None None 5 5]) auto
qed

lemma large_tx_parts:
  "\<lparr>out_amount_matoms = 1, out_template_id = TEMPLATE_PKH, out_locktime_ms = 0, out_lockheight = 0,
     out_payload = zero_bytes 32\<rparr> \<in> Collect output_ok"
  "i \<in> set (tx_inputs large_tx) \<Longrightarrow> input_ok i"
proof -
  show "\<lparr>out_amount_matoms = 1, out_template_id = TEMPLATE_PKH, out_locktime_ms = 0, out_lockheight = 0,
     out_payload = zero_bytes 32\<rparr> \<in> Collect output_ok" unfolding mem_Collect_eq by code_simp
qed (auto simp: large_tx_def input_ok_def outpoint_ok_def HASH_LEN_BYTES_def TX_WITNESS_MAX_BYTES_def uint_limits zero_bytes_def)

lemma large_tx_size: "length (tx_to_bytes large_tx) = 8189"
  by (simp add: large_tx_def pool_tx_def example_tx_def tx_to_bytes_def tx_widths length_concat comp_def input_to_bytes_def
      output_to_bytes_def outpoint_to_bytes_def zero_bytes_def sum_list_triv sum_list_replicate)

lemma large_tx_ok: "tx_ok large_tx"
proof -
  have "out \<in> set (tx_outputs large_tx) \<Longrightarrow> output_ok out" for out
    using large_tx_parts(1) by (simp add: large_tx_def)
  then show ?thesis
    using large_tx_parts(2) large_tx_size
    by (simp add: tx_ok_def MAX_TX_BYTES_def)
      (simp add: large_tx_def pool_tx_def example_tx_def FORMAT_EPOCH_def SIG_TYPE_ED25519_def uint_limits)
qed

lemma large_tx_admitted: "admissible pad_hash example_ed25519 empty_pool large_tx None pool_view 5 5"
proof (rule pool_admits [OF large_tx_ok])
  show "distinct (input_outpoints large_tx)"
    by (simp add: input_outpoints_def large_tx_def distinct_map inj_on_def)
  have "[0..<7] = [0, 1, 2, 3, 4, 5, 6 :: nat]" by code_simp
  then show "0 \<le> tx_fee pool_view large_tx"
    by (simp add: tx_fee_def input_outpoints_def large_tx_def comp_def pool_view_def sum_list_replicate)
qed (auto simp: large_tx_def pool_tx_def example_tx_def pool_view_def)

lemma pool_tx_admitted: "admissible pad_hash example_ed25519 empty_pool pool_tx None pool_view 5 5"
proof (rule pool_admits)
  show "tx_ok pool_tx" by code_simp
qed (simp_all add: pool_tx_def example_tx_def input_outpoints_def pool_view_def example_utxo_def tx_fee_def)

definition large_pool :: mempool where
  "large_pool = insert_entry empty_pool (entry_of pad_hash pool_view large_tx ROOT_SHARD_ID)"

lemma root_shard_ok: "shard_ok ROOT_SHARD_ID"
  by (simp add: shard_ok_def ROOT_SHARD_ID_def depth_of_def path_of_def)

lemma example_pool_ok: "mempool_ok pad_hash example_pool"
  unfolding example_pool_def
proof (rule insert_entry_ok [OF empty_pool_ok])
  show "entry_ok pad_hash (mp_shard_tree empty_pool) (entry_of pad_hash pool_view pool_tx 0)"
    by (rule entry_of_ok) (code_simp+)
qed simp_all

lemma payload_of_transactions:
  assumes "\<forall>t \<in> set ts. tx_ok t"
  shows "fruit_payload_size_bytes (map tx_to_bytes ts) =
    Inr (sum_list (map (\<lambda>t. int (length (tx_to_bytes t))) ts) + 2 + 2 * int (length ts))"
proof -
  have "require_tx_tuple (map tx_to_bytes ts) = Inr ()"
    using assms by (auto simp: require_tx_tuple_Inr tx_ok_def MAX_TX_BYTES_def uint_limits)
  moreover have "sum_list (map (\<lambda>t. int U16_BYTES + int (length t)) (map tx_to_bytes ts)) =
      sum_list (map (\<lambda>t. int (length (tx_to_bytes t))) ts) + 2 * int (length ts)"
    by (induction ts) (simp_all add: tx_widths)
  ultimately show ?thesis by (simp add: fruit_payload_size_bytes_def tx_widths)
qed

lemma large_pool_selection:
  "select_for_fruit large_pool ROOT_SHARD_ID MAX_FRUIT_PAYLOAD_BYTES = Inr [large_tx]"
proof -
  let ?e = "entry_of pad_hash pool_view large_tx ROOT_SHARD_ID"
  have "entries_of_shard empty_pool s = []" for s by (simp add: entries_of_shard_def)
  then have shard: "entries_of_shard large_pool ROOT_SHARD_ID = [(tx_id pad_hash large_tx, ?e)]"
    by (simp add: large_pool_def insert_entry_shards entry_of_def)
  have e: "me_tx_size_bytes ?e = 8189" "me_tx ?e = large_tx" "0 \<le> me_fee_rate_matoms_per_kb ?e"
    using large_tx_size large_tx_admitted tx_bytes_pos [of large_tx]
    by (simp_all add: entry_of_def tx_rate_def BYTES_PER_KB_def pos_imp_zdiv_nonneg_iff admissible_def)
  have "floor_of large_pool s = 0" for s by (simp add: large_pool_def floor_of_def empty_pool_def)
  then show ?thesis using e root_shard_ok by (simp add: select_for_fruit_eq shard MAX_FRUIT_PAYLOAD_BYTES_def)
qed

section \<open>Properties\<close>

text \<open>(C35) Every pool that the constructor and the methods of \<open>Mempool\<close> can reach is consistent: each pending entry
  carries the identifier, shard, size and fee rate of its transaction, the index by shard is exactly the
  partition of the entries, \<open>_spent_outpoints\<close> is exactly the set of outpoints that pending transactions
  spend, and no two pending transactions spend the same outpoint.\<close>

theorem mempool_always_consistent:
  assumes "digest_ok H" and "mempool_reachable H E mp"
  shows "mempool_ok H mp \<and>
    (\<forall>tid tid' e e' op. dict_get (mp_entries mp) tid = Some e \<longrightarrow> dict_get (mp_entries mp) tid' = Some e' \<longrightarrow>
       op \<in> set (input_outpoints (me_tx e)) \<longrightarrow> op \<in> set (input_outpoints (me_tx e')) \<longrightarrow> tid = tid')"
proof -
  have ok: "mempool_ok H mp"
    using assms(2) by induction (auto intro: Mempool_ok mempool_step_ok [OF assms(1)])
  then have "index_ok mp" by (simp add: mempool_ok_def)
  from no_shared_outpoint [OF this] show ?thesis using ok by blast
qed

theorem mempool_always_consistent_witness:
  "mempool_reachable pad_hash example_ed25519 example_pool \<and> mempool_ok pad_hash example_pool \<and>
   dict_get (mp_entries example_pool) (tx_id pad_hash pool_tx) \<noteq> None"
proof -
  have "tx_ok pool_tx" by code_simp
  then have step: "mempool_step pad_hash example_ed25519 empty_pool example_pool"
    using step_add [OF _ pool_accepts [OF pool_tx_admitted]]
    by (simp add: example_pool_def arg_ok_def ROOT_SHARD_ID_def)
  have r: "mempool_reachable pad_hash example_ed25519 example_pool"
    by (rule reach_step [OF empty_pool_reachable step])
  show ?thesis
    using mempool_always_consistent [OF pad_hash_digest r] r by (simp add: example_pool_def entry_of_def)
qed

text \<open>(C36) Admission decides exactly: on every consistent pool \<open>add_tx\<close> returns a result, accepts exactly the
  admissible transactions (canonical, routed to the requested shard, new, matured, with distinct inputs
  that no pending transaction spends and that the view holds with valid scripts, paying at least the fee
  floor), and then inserts the entry of the transaction; otherwise it names a reason and changes nothing.\<close>

theorem add_tx_admits_exactly:
  assumes "digest_ok H" "mempool_ok H mp" "arg_ok arg"
  shows "\<exists>r mp'. add_tx H E mp arg shard_id view_opt now height = Inr (r, mp') \<and>
    (ar_accepted r \<longleftrightarrow> (\<exists>t view. tx_of arg = Some t \<and> view_of mp view_opt = Some view \<and>
       admissible H E mp t shard_id view now height)) \<and>
    (if ar_accepted r then \<exists>t view s. tx_of arg = Some t \<and> view_of mp view_opt = Some view \<and>
         route_tx (mp_shard_tree mp) (tx_id H t) = Inr s \<and>
         r = add_ok (tx_id H t) s (tx_fee view t) (tx_rate view t) \<and> mp' = insert_entry mp (entry_of H view t s)
     else ar_reason r \<noteq> None \<and> mp' = mp)"
proof (cases rule: add_tx_result [OF assms, of E shard_id view_opt now height, case_names bad good])
  case (bad r)
  then show ?thesis by (intro exI [of _ r] exI [of _ mp]) auto
next
  case (good t view s)
  have "ar_accepted (add_ok (tx_id H t) s (tx_fee view t) (tx_rate view t))" by (simp add: add_ok_def)
  then show ?thesis
    using good by (intro exI [of _ "add_ok (tx_id H t) s (tx_fee view t) (tx_rate view t)"]
        exI [of _ "insert_entry mp (entry_of H view t s)"]) auto
qed

theorem add_tx_admits_exactly_witness:
  "\<exists>r mp'. add_tx pad_hash example_ed25519 empty_pool (TxObject pool_tx) None None 5 5 = Inr (r, mp') \<and> ar_accepted r"
proof -
  have arg: "arg_ok (TxObject pool_tx)" "tx_of (TxObject pool_tx) = Some pool_tx" "view_of empty_pool None = Some pool_view"
    by (simp_all add: arg_ok_def tx_of_def view_of_def) code_simp
  show ?thesis
    using add_tx_admits_exactly [OF pad_hash_digest empty_pool_ok arg(1), of example_ed25519 None None 5 5] arg pool_tx_admitted
    by metis
qed

text \<open>The fee test of admission is strong enough for confirmation: whenever \<open>add_tx\<close> accepts, the fee it
  reports covers the amount \<open>burned_fee_matoms\<close> takes at the floor of the shard.\<close>

theorem admitted_fee_covers_burn:
  assumes "digest_ok H" "mempool_ok H mp" "arg_ok arg"
    and "add_tx H E mp arg shard_id view_opt now height = Inr (r, mp')" "ar_accepted r"
  shows "\<exists>t s fee burned. tx_of arg = Some t \<and> ar_shard_id r = Some s \<and> ar_fee_matoms r = Some fee \<and>
    burned_fee_matoms (floor_of mp s) (int (length (tx_to_bytes t))) = Inr burned \<and> 0 \<le> burned \<and> burned \<le> fee"
proof (cases rule: add_tx_result [OF assms(1-3), of E shard_id view_opt now height, case_names bad good])
  case (bad r')
  then show ?thesis using assms(4,5) by simp
next
  case (good t view s)
  let ?n = "int (length (tx_to_bytes t))" and ?f = "floor_of mp s" and ?fee = "tx_fee view t"
  have n: "0 < ?n" using tx_bytes_pos [of t] by simp
  have f: "0 \<le> ?f" using assms(2) by (simp add: mempool_ok_def fees_ok_def)
  have "?f \<le> tx_rate view t" using good(4,5) by (simp add: admissible_def)
  then have "?f * ?n \<le> tx_rate view t * ?n" using n by (simp add: mult_right_mono)
  also have "\<dots> \<le> ?fee * 1000"
    using pos_mod_sign [OF n, of "?fee * 1000"] div_mult_mod_eq [of "?fee * 1000" ?n]
    unfolding tx_rate_def BYTES_PER_KB_def by linarith
  finally have "?f * ?n div 1000 \<le> ?fee" using zdiv_mono1 [of "?f * ?n" "?fee * 1000" 1000] by simp
  moreover have "burned_fee_matoms ?f ?n = Inr (?f * ?n div 1000)"
    using f n by (simp add: burned_fee_matoms_def mp_require_nonnegative_int_def mp_require_positive_int_def bnd_ensure BYTES_PER_KB_def)
  moreover have "0 \<le> ?f * ?n div 1000" using f n by (simp add: pos_imp_zdiv_nonneg_iff)
  moreover have "r = add_ok (tx_id H t) s ?fee (tx_rate view t)" using good(6) assms(4) by simp
  ultimately show ?thesis using good(1) by (auto simp: add_ok_def)
qed

theorem admitted_fee_covers_burn_witness:
  "\<exists>t s fee burned. tx_of (TxObject pool_tx) = Some t \<and>
    burned_fee_matoms (floor_of empty_pool s) (int (length (tx_to_bytes t))) = Inr burned \<and> burned \<le> fee"
proof -
  have t: "tx_ok pool_tx" by code_simp
  then have "arg_ok (TxObject pool_tx)" by (simp add: arg_ok_def)
  from admitted_fee_covers_burn [OF pad_hash_digest empty_pool_ok this pool_accepts [OF pool_tx_admitted t]]
  show ?thesis by (auto simp: add_ok_def)
qed

text \<open>Selection for a fruit is the greedy choice by fee rate: on a valid shard and budget it returns pending
  transactions of that shard at or above its floor, by descending fee rate and then by identifier, whose
  sizes add up to at most the budget, and it leaves an eligible transaction out only if that one does
  not fit beside the selected ones of higher priority. Any other argument raises \<open>ValueError\<close>.\<close>

theorem select_for_fruit_greedy:
  assumes "mempool_ok H mp"
  shows "if shard_ok s \<and> 0 \<le> budget \<and> budget \<le> MAX_FRUIT_PAYLOAD_BYTES then
      \<exists>es. select_for_fruit mp s budget = Inr (map me_tx es) \<and>
        sorted_wrt (\<lambda>x y. selection_key x < selection_key y) es \<and>
        (\<forall>e \<in> set es. dict_get (mp_entries mp) (me_tx_id e) = Some e \<and> me_shard_id e = s \<and>
           floor_of mp s \<le> me_fee_rate_matoms_per_kb e) \<and>
        sum_list (map me_tx_size_bytes es) \<le> budget \<and>
        (\<forall>tid e. dict_get (mp_entries mp) tid = Some e \<and> me_shard_id e = s \<and>
           floor_of mp s \<le> me_fee_rate_matoms_per_kb e \<and> e \<notin> set es \<longrightarrow>
           budget < sum_list (map me_tx_size_bytes (filter (\<lambda>x. selection_key x < selection_key e) es)) + me_tx_size_bytes e)
    else select_for_fruit mp s budget = Inl ValueError"
proof (cases "shard_ok s \<and> 0 \<le> budget \<and> budget \<le> MAX_FRUIT_PAYLOAD_BYTES")
  case True
  define P where "P e \<longleftrightarrow> me_is_coinbase e \<or> floor_of mp s \<le> me_fee_rate_matoms_per_kb e" for e :: mempool_entry
  define L where "L = sort_key selection_key (filter P (map snd (entries_of_shard mp s)))"
  define es where "es = select_entries budget 0 L"
  have L: "by_key L" unfolding L_def by (rule eligible_sorted [OF assms])
  have inL: "e \<in> set L \<longleftrightarrow> P e \<and> me_shard_id e = s \<and> dict_get (mp_entries mp) (me_tx_id e) = Some e" for e
    unfolding L_def set_sort eligible_iff [OF assms] ..
  have P: "P e \<longleftrightarrow> floor_of mp s \<le> me_fee_rate_matoms_per_kb e" if "dict_get (mp_entries mp) tid = Some e" for tid e
    using that assms by (auto simp: P_def mempool_ok_def entry_ok_def)
  have "budget < total_size (filter (\<lambda>x. selection_key x < selection_key e) es) + me_tx_size_bytes e"
    if e: "dict_get (mp_entries mp) tid = Some e" "me_shard_id e = s" "floor_of mp s \<le> me_fee_rate_matoms_per_kb e" "e \<notin> set es"
    for tid e
  proof -
    have "me_tx_id e = tid" using assms e(1) by (simp add: mempool_ok_def)
    then have "e \<in> set L" using e P inL by auto
    from select_entries_greedy [OF L this, of budget 0] show ?thesis using e(4) by (simp add: es_def)
  qed
  moreover have "dict_get (mp_entries mp) (me_tx_id e) = Some e \<and> me_shard_id e = s \<and> floor_of mp s \<le> me_fee_rate_matoms_per_kb e"
    if "e \<in> set es" for e
    using that select_entries_subset [of budget 0 L] inL P unfolding es_def by blast
  moreover have "select_for_fruit mp s budget = Inr (map me_tx es)"
    using True by (simp add: select_for_fruit_eq es_def L_def P_def [abs_def])
  ultimately show ?thesis
    using True select_entries_budget [of 0 budget L] select_entries_sorted [OF L, of budget 0]
    by (auto simp: es_def intro!: exI [of _ es])
next
  case False
  then show ?thesis by (auto simp: select_for_fruit_eq)
qed

theorem select_for_fruit_greedy_witness:
  "\<exists>es :: mempool_entry list. select_for_fruit example_pool ROOT_SHARD_ID 8192 = Inr (map me_tx es) \<and> sum_list (map me_tx_size_bytes es) \<le> 8192"
proof -
  from select_for_fruit_greedy [OF example_pool_ok, of ROOT_SHARD_ID 8192]
  show ?thesis using root_shard_ok by (auto simp: MAX_FRUIT_PAYLOAD_BYTES_def)
qed

text \<open>(C37) The budget of the selection is not the limit of a fruit. The selection adds up the raw transaction bytes
  only, the payload of a fruit also holds a count and a length for each transaction: for every
  selection the payload is larger by \<open>2 + 2 * n\<close> bytes, and there is a reachable pool whose selection
  under the default budget no fruit can carry, whatever its header.\<close>

theorem selection_ignores_framing:
  "(\<forall>ts. (\<forall>t \<in> set ts. tx_ok t) \<longrightarrow> fruit_payload_size_bytes (map tx_to_bytes ts) =
      Inr (sum_list (map (\<lambda>t. int (length (tx_to_bytes t))) ts) + 2 + 2 * int (length ts))) \<and>
   (\<exists>mp t. mempool_reachable pad_hash example_ed25519 mp \<and> tx_ok t \<and>
      select_for_fruit mp ROOT_SHARD_ID MAX_FRUIT_PAYLOAD_BYTES = Inr [t] \<and>
      (\<forall>H header. Fruit H header [tx_to_bytes t] = Inl ValueError))"
proof (intro conjI allI impI)
  fix ts assume "\<forall>t \<in> set ts. tx_ok t"
  then show "fruit_payload_size_bytes (map tx_to_bytes ts) =
      Inr (sum_list (map (\<lambda>t. int (length (tx_to_bytes t))) ts) + 2 + 2 * int (length ts))"
    by (rule payload_of_transactions)
next
  have "mempool_step pad_hash example_ed25519 empty_pool large_pool"
    unfolding large_pool_def
    by (rule step_add [OF _ pool_accepts [OF large_tx_admitted large_tx_ok]]) (simp add: arg_ok_def large_tx_ok)
  then have "mempool_reachable pad_hash example_ed25519 large_pool" by (rule reach_step [OF empty_pool_reachable])
  moreover have "Fruit H header [tx_to_bytes large_tx] = Inl ValueError" for H header
    using payload_of_transactions [of "[large_tx]"] large_tx_ok large_tx_size
    by (simp add: Fruit_def require_tx_tuple_def blk_require_bytes_def uint_limits bnd_ensure MIN_FRUIT_TX_COUNT_def
        MAX_FRUIT_PAYLOAD_BYTES_def)
  ultimately show "\<exists>mp t. mempool_reachable pad_hash example_ed25519 mp \<and> tx_ok t \<and>
      select_for_fruit mp ROOT_SHARD_ID MAX_FRUIT_PAYLOAD_BYTES = Inr [t] \<and>
      (\<forall>H header. Fruit H header [tx_to_bytes t] = Inl ValueError)"
    using large_pool_selection large_tx_ok by blast
qed

theorem selection_ignores_framing_witness: "fruit_payload_size_bytes [tx_to_bytes large_tx] = Inr 8193"
  using conjunct1 [OF selection_ignores_framing, rule_format, of "[large_tx]"] large_tx_ok large_tx_size by simp

text \<open>The fee floor of a shard follows its window: recording a confirmed fruit succeeds exactly on a valid
  sample, keeps the last 1024 samples, and moves the floor to seven eighths of the old one and one
  eighth of the rate of the window, which lies between the two; every other shard is untouched.\<close>

theorem fee_floor_follows_window:
  assumes "mempool_ok H mp"
  shows "if shard_ok s \<and> 0 \<le> fees \<and> 0 \<le> n \<and> n \<le> MAX_FRUIT_PAYLOAD_BYTES then
      \<exists>f mp' x. record_confirmed_fruit mp s fees n = Inr (f, mp') \<and>
        x = \<lparr>fs_shard_id = s, fs_floor_eligible_fees_matoms = fees, fs_payload_bytes = n\<rparr> \<and>
        fee_floor_history mp' s = Inr (rev (take FEE_FLOOR_WINDOW_FRUITS (rev (history_of mp s @ [x])))) \<and>
        recent_fee_rate mp' s = Inr (window_rate (history_of mp' s)) \<and>
        fee_floor mp' s = Inr f \<and> f = (7 * floor_of mp s + window_rate (history_of mp' s)) div 8 \<and>
        min (floor_of mp s) (window_rate (history_of mp' s)) \<le> f \<and> f \<le> max (floor_of mp s) (window_rate (history_of mp' s)) \<and>
        (\<forall>k. k \<noteq> s \<longrightarrow> floor_of mp' k = floor_of mp k \<and> history_of mp' k = history_of mp k) \<and> mp_entries mp' = mp_entries mp
    else record_confirmed_fruit mp s fees n = Inl ValueError"
proof (cases "FeeFloorSample s fees n")
  case (Inl e)
  then show ?thesis
    by (auto simp: record_confirmed_fruit_def FeeFloorSample_def require_shard_id_eq mp_require_nonnegative_int_def bnd_ensure
        split: if_splits)
next
  case (Inr x)
  then have x: "shard_ok s" "x = \<lparr>fs_shard_id = s, fs_floor_eligible_fees_matoms = fees, fs_payload_bytes = n\<rparr>" "sample_ok s x"
    by (auto simp: FeeFloorSample_Inr)
  have ok: "fees_ok mp" using assms by (simp add: mempool_ok_def)
  define w where "w = window_append (history_of mp s) x"
  define f where "f = (7 * floor_of mp s + window_rate w) div 8"
  define mp' where "mp' = (with_sample mp x)\<lparr>mp_fee_floors := dict_set s f (mp_fee_floors mp)\<rparr>"
  have "record_confirmed_fruit mp s fees n = Inr (f, mp')"
    by (simp add: record_confirmed_fruit_eq [OF ok] Inr Let_def mp'_def f_def w_def)
  moreover have fields: "floor_of mp' k = (if k = s then f else floor_of mp k)"
    "history_of mp' k = (if k = s then w else history_of mp k)" for k
    using x(2) by (simp_all add: mp'_def floor_of_def history_of_def with_sample_def update_conv' w_def)
  moreover have "fee_floor_history mp' s = Inr w"
    using x(1) fields(2) [of s] by (simp add: fee_floor_history_def require_shard_id_eq history_of_def)
  moreover have "w = rev (take FEE_FLOOR_WINDOW_FRUITS (rev (history_of mp s @ [x])))"
    by (simp only: w_def window_append_def Let_def take_rev rev_rev_ident)
  moreover have "mp_entries mp' = mp_entries mp" by (simp add: mp'_def with_sample_def)
  ultimately show ?thesis
    using x ewma_bounds [of "floor_of mp s" "window_rate w"] f_def fee_floor_eq [of s mp'] recent_fee_rate_eq [of s mp']
    by (auto simp: sample_ok_def intro!: exI [of _ f] exI [of _ mp'])
qed

theorem fee_floor_follows_window_witness:
  "\<exists>mp'. record_confirmed_fruit empty_pool ROOT_SHARD_ID 4096 100 = Inr (5120, mp')"
proof -
  have "window_rate [\<lparr>fs_shard_id = 0, fs_floor_eligible_fees_matoms = 4096, fs_payload_bytes = 100\<rparr>] = 40960" by code_simp
  moreover have "history_of empty_pool 0 = []" by (simp add: history_of_def empty_pool_def)
  ultimately show ?thesis
    using fee_floor_follows_window [OF empty_pool_ok [of pad_hash], of ROOT_SHARD_ID 4096 100]
    root_shard_ok
    by (auto simp: ROOT_SHARD_ID_def MAX_FRUIT_PAYLOAD_BYTES_def FEE_FLOOR_WINDOW_FRUITS_def
        fee_floor_history_def require_shard_id_eq history_of_def)
qed

text \<open>Eviction is exact: on valid arguments it sets the given floor, returns in ascending order the identifiers
  of the pending transactions of that shard below the floor, removes exactly those and keeps the pool
  consistent; any other argument raises \<open>ValueError\<close>.\<close>

theorem evict_below_floor_exact:
  assumes "mempool_ok H mp" and f: "f = (case floor_opt of None \<Rightarrow> floor_of mp s | Some f \<Rightarrow> f)"
  shows "if shard_ok s \<and> 0 \<le> f then
      \<exists>tids mp'. evict_below_floor mp s floor_opt = Inr (tids, mp') \<and> sorted tids \<and> distinct tids \<and>
        set tids = {tid. \<exists>e. dict_get (mp_entries mp) tid = Some e \<and> me_shard_id e = s \<and> me_fee_rate_matoms_per_kb e < f} \<and>
        (\<forall>tid. dict_get (mp_entries mp') tid = (if tid \<in> set tids then None else dict_get (mp_entries mp) tid)) \<and>
        floor_of mp' s = f \<and> mempool_ok H mp'
    else evict_below_floor mp s floor_opt = Inl ValueError"
proof (cases "shard_ok s \<and> 0 \<le> f")
  case False
  have "0 \<le> floor_of mp s" using assms(1) by (simp add: mempool_ok_def fees_ok_def)
  then show ?thesis
    using False f by (auto simp: evict_below_floor_def require_shard_id_eq set_fee_floor_def mp_require_nonnegative_int_def
        bnd_ensure split: option.splits)
next
  case True
  define mp1 where "mp1 = (case floor_opt of None \<Rightarrow> mp | Some f \<Rightarrow> mp\<lparr>mp_fee_floors := dict_set s f (mp_fee_floors mp)\<rparr>)"
  define low where "low = (\<lambda>(tid :: bytes, e :: mempool_entry). \<not> me_is_coinbase e \<and> me_fee_rate_matoms_per_kb e < f)"
  define tids where "tids = sort (map fst (filter low (entries_of_shard mp1 s)))"
  have step: "(case floor_opt of None \<Rightarrow> bnd (fee_floor mp s) (\<lambda>f. Inr (f, mp))
      | Some f \<Rightarrow> bnd (set_fee_floor mp s f) (\<lambda>mp. Inr (f, mp))) = Inr (f, mp1)"
    using True f by (auto simp: mp1_def fee_floor_eq set_fee_floor_Inr bnd_Inr_iff split: option.splits)
  have evict: "evict_below_floor mp s floor_opt = Inr (tids, fold (\<lambda>tid mp. snd (remove_entry mp tid)) tids mp1)"
    using True by (simp add: evict_below_floor_def require_shard_id_eq step Let_def tids_def low_def)
  have ok1: "mempool_ok H mp1" using assms(1) set_fee_floor_ok [OF assms(1), of s f mp1] True f
    by (auto simp: mp1_def set_fee_floor_Inr split: option.splits)
  then have ix: "index_ok mp1" by (simp add: mempool_ok_def)
  have same: "mp_entries mp1 = mp_entries mp" "floor_of mp1 s = f"
    using f by (auto simp: mp1_def floor_of_def update_conv' split: option.splits)
  have get: "(tid, e) \<in> set (entries_of_shard mp1 s) \<longleftrightarrow> dict_get (mp_entries mp) tid = Some e \<and> me_shard_id e = s" for tid e
    using index_okD(1) [OF ix, of s tid e] index_okD(3) [OF ix, of s] same(1) by simp
  have fair: "\<not> me_is_coinbase e" if "dict_get (mp_entries mp) tid = Some e" for tid e
    using that assms(1) by (simp add: mempool_ok_def entry_ok_def)
  have "tid \<in> set tids \<longleftrightarrow> (\<exists>e. (tid, e) \<in> set (entries_of_shard mp1 s) \<and> low (tid, e))" for tid
    by (force simp: tids_def)
  then have "set tids = {tid. \<exists>e. dict_get (mp_entries mp) tid = Some e \<and> me_shard_id e = s \<and> me_fee_rate_matoms_per_kb e < f}"
    unfolding get low_def prod.case using fair by blast
  moreover have "distinct tids" "sorted tids"
    using index_okD(3) [OF ix, of s] by (simp_all add: tids_def distinct_map_filter)
  moreover have "mempool_ok H (fold (\<lambda>tid mp. snd (remove_entry mp tid)) tids mp1)" by (rule remove_all_ok [OF ok1])
  moreover have "floor_of (fold (\<lambda>tid mp. snd (remove_entry mp tid)) tids mp1) s = f"
    using same(2) by (simp add: floor_of_def)
  ultimately show ?thesis
    using True evict same(1) by (auto simp: remove_all_entries)
qed

theorem evict_below_floor_exact_witness:
  "\<exists>tids mp'. evict_below_floor example_pool ROOT_SHARD_ID (Some 1000000) = Inr (tids, mp') \<and>
     dict_get (mp_entries mp') (tx_id pad_hash pool_tx) = None"
proof -
  let ?e = "entry_of pad_hash pool_view pool_tx 0"
  have e: "dict_get (mp_entries example_pool) (tx_id pad_hash pool_tx) = Some ?e"
    by (simp add: example_pool_def entry_of_def)
  have "tx_rate pool_view pool_tx < 1000000" by code_simp
  then have "me_fee_rate_matoms_per_kb ?e < 1000000" "me_shard_id ?e = ROOT_SHARD_ID"
    by (simp_all add: entry_of_def ROOT_SHARD_ID_def)
  then show ?thesis
    using evict_below_floor_exact [OF example_pool_ok, of 1000000 ROOT_SHARD_ID "Some 1000000"] e root_shard_ok by auto
qed

end
