(* ===== verification/Storage.thy ===== *)
theory Storage
  imports Blocks UTXO_State
begin

text \<open>
  \<^verbatim>\<open>src/src/tensorpow/storage/rocksdb.py\<close>: the column-family facade over RocksDB and its typed operations.

  RocksDB is reached through the third-party package \<open>rocksdict\<close>, so the database is a parameter: a
  record \<open>R\<close> of the operations the code calls on a value of an arbitrary type. \<open>rocks_ok\<close> states what
  the package documents of them: a written batch applies its operations in order, and iterating a
  column family lists its pairs by ascending key. Opening files, flushing, checkpoints, repair and the
  write benchmark are input and output only and are not modelled.
\<close>

section \<open>Definitions\<close>

datatype storage_column =
    COLUMN_HEADERS | COLUMN_BODIES | COLUMN_UTXO | COLUMN_DAG | COLUMN_SHARD_TREE | COLUMN_FEE_FLOORS | COLUMN_MEMPOOL

definition STORAGE_COLUMNS :: "storage_column list" where
  "STORAGE_COLUMNS = [COLUMN_HEADERS, COLUMN_BODIES, COLUMN_UTXO, COLUMN_DAG, COLUMN_SHARD_TREE, COLUMN_FEE_FLOORS,
     COLUMN_MEMPOOL]"

text \<open>A bytes literal.\<close>

definition ascii :: "string \<Rightarrow> bytes" where
  "ascii s = map of_char s"

definition STORAGE_FORMAT_MAGIC :: bytes where "STORAGE_FORMAT_MAGIC = ascii ''TPSTOR''"
definition STORAGE_META_KEY :: bytes where "STORAGE_META_KEY = ascii ''meta:format''"
definition STORAGE_FORMAT_BYTES :: bytes where "STORAGE_FORMAT_BYTES = STORAGE_FORMAT_MAGIC @ [0]"

text \<open>The operations of \<open>rocksdict\<close> that the facade calls: lookup and iteration of a column family, and the write of
  a \<open>WriteBatch\<close>.\<close>

datatype write_op = WritePut storage_column bytes bytes | WriteDelete storage_column bytes

record 'db rocks =
  rk_get :: "'db \<Rightarrow> storage_column \<Rightarrow> bytes \<Rightarrow> bytes option"
  rk_items :: "'db \<Rightarrow> storage_column \<Rightarrow> (bytes \<times> bytes) list"
  rk_write :: "'db \<Rightarrow> write_op list \<Rightarrow> 'db"

definition require_key :: "bytes \<Rightarrow> bytes res" where
  "require_key value = bnd (ensure (\<not> length value = 0) ValueError) (\<lambda>_. Inr value)"

definition st_require_len :: "bytes \<Rightarrow> nat \<Rightarrow> bytes res" where
  "st_require_len value expected_len = bnd (ensure (\<not> length value \<noteq> expected_len) StorageError) (\<lambda>_. Inr value)"

record batch_put =
  bp_column :: storage_column
  bp_key :: bytes
  bp_value :: bytes

definition BatchPut :: "storage_column \<Rightarrow> bytes \<Rightarrow> bytes \<Rightarrow> batch_put res" where
  "BatchPut col key value =
     bnd (require_key key) (\<lambda>_. Inr \<lparr>bp_column = col, bp_key = key, bp_value = value\<rparr>)"

record batch_delete =
  bd_column :: storage_column
  bd_key :: bytes

definition BatchDelete :: "storage_column \<Rightarrow> bytes \<Rightarrow> batch_delete res" where
  "BatchDelete col key = bnd (require_key key) (\<lambda>_. Inr \<lparr>bd_column = col, bd_key = key\<rparr>)"

record storage_batch =
  sb_puts :: "batch_put list"
  sb_deletes :: "batch_delete list"

definition is_empty_batch :: "storage_batch \<Rightarrow> bool" where
  "is_empty_batch b \<longleftrightarrow> sb_puts b = [] \<and> sb_deletes b = []"

subsection \<open>The facade\<close>

definition st_get :: "'db rocks \<Rightarrow> 'db \<Rightarrow> storage_column \<Rightarrow> bytes \<Rightarrow> bytes option res" where
  "st_get R db col key = bnd (require_key key) (\<lambda>key. Inr (rk_get R db col key))"

definition write_batch :: "'db rocks \<Rightarrow> 'db \<Rightarrow> storage_batch \<Rightarrow> 'db" where
  "write_batch R db b =
     (if is_empty_batch b then db
      else rk_write R db (map (\<lambda>p. WritePut (bp_column p) (bp_key p) (bp_value p)) (sb_puts b) @
             map (\<lambda>d. WriteDelete (bd_column d) (bd_key d)) (sb_deletes b)))"

definition st_put :: "'db rocks \<Rightarrow> 'db \<Rightarrow> storage_column \<Rightarrow> bytes \<Rightarrow> bytes \<Rightarrow> 'db res" where
  "st_put R db col key value =
     bnd (BatchPut col key value) (\<lambda>p. Inr (write_batch R db \<lparr>sb_puts = [p], sb_deletes = []\<rparr>))"

definition st_delete :: "'db rocks \<Rightarrow> 'db \<Rightarrow> storage_column \<Rightarrow> bytes \<Rightarrow> 'db res" where
  "st_delete R db col key =
     bnd (BatchDelete col key) (\<lambda>d. Inr (write_batch R db \<lparr>sb_puts = [], sb_deletes = [d]\<rparr>))"

definition st_items :: "'db rocks \<Rightarrow> 'db \<Rightarrow> storage_column \<Rightarrow> (bytes \<times> bytes) list" where
  "st_items R db col = rk_items R db col"

text \<open>The check of the storage format when a database is opened.\<close>

definition open_store :: "'db rocks \<Rightarrow> 'db \<Rightarrow> 'db res" where
  "open_store R db =
     bnd (st_get R db COLUMN_DAG STORAGE_META_KEY) (\<lambda>existing_format.
     case existing_format of
       None \<Rightarrow> st_put R db COLUMN_DAG STORAGE_META_KEY STORAGE_FORMAT_BYTES
     | Some f \<Rightarrow> if f \<noteq> STORAGE_FORMAT_BYTES then Inl StorageError else Inr db)"

subsection \<open>Typed columns\<close>

datatype any_header = FruitHeaderOf fruit_header | AnchorHeaderOf anchor_header

fun serialize_header :: "any_header \<Rightarrow> bytes" where
  "serialize_header (FruitHeaderOf h) = serialize_fruit_header h"
| "serialize_header (AnchorHeaderOf h) = serialize_anchor_header h"

datatype any_body = FruitOf fruit | AnchorOf anchor

fun serialize_body :: "any_body \<Rightarrow> bytes res" where
  "serialize_body (FruitOf f) = Inr (serialize_fruit f)"
| "serialize_body (AnchorOf a) = serialize_anchor a"

definition put_header :: "'db rocks \<Rightarrow> 'db \<Rightarrow> bytes \<Rightarrow> any_header \<Rightarrow> 'db res" where
  "put_header R db block_hash header =
     bnd (require_hash block_hash) (\<lambda>_. st_put R db COLUMN_HEADERS block_hash (serialize_header header))"

definition get_header_bytes :: "'db rocks \<Rightarrow> 'db \<Rightarrow> bytes \<Rightarrow> bytes option res" where
  "get_header_bytes R db block_hash = bnd (require_hash block_hash) (\<lambda>_. st_get R db COLUMN_HEADERS block_hash)"

definition put_body :: "'db rocks \<Rightarrow> 'db \<Rightarrow> bytes \<Rightarrow> any_body \<Rightarrow> 'db res" where
  "put_body R db block_hash body =
     bnd (require_hash block_hash) (\<lambda>_.
     bnd (serialize_body body) (\<lambda>bs. st_put R db COLUMN_BODIES block_hash bs))"

definition get_body_bytes :: "'db rocks \<Rightarrow> 'db \<Rightarrow> bytes \<Rightarrow> bytes option res" where
  "get_body_bytes R db block_hash = bnd (require_hash block_hash) (\<lambda>_. st_get R db COLUMN_BODIES block_hash)"

definition put_utxo :: "hash_fn \<Rightarrow> 'db rocks \<Rightarrow> 'db \<Rightarrow> utxo \<Rightarrow> 'db res" where
  "put_utxo H R db u = st_put R db COLUMN_UTXO (utxo_key H u) (utxo_to_bytes u)"

definition get_utxo :: "hash_fn \<Rightarrow> 'db rocks \<Rightarrow> 'db \<Rightarrow> outpoint \<Rightarrow> utxo option res" where
  "get_utxo H R db op =
     (let key = outpoint_key H op in
      bnd (st_get R db COLUMN_UTXO key) (\<lambda>value.
      case value of
        None \<Rightarrow> Inr None
      | Some v \<Rightarrow> bnd (utxo_from_bytes H v (Some key)) (\<lambda>u. Inr (Some u))))"

definition delete_utxo :: "hash_fn \<Rightarrow> 'db rocks \<Rightarrow> 'db \<Rightarrow> outpoint \<Rightarrow> 'db res" where
  "delete_utxo H R db op = st_delete R db COLUMN_UTXO (outpoint_key H op)"

definition st_utxos :: "hash_fn \<Rightarrow> 'db rocks \<Rightarrow> 'db \<Rightarrow> utxo list res" where
  "st_utxos H R db = each (\<lambda>(key, value). utxo_from_bytes H value (Some key)) (st_items R db COLUMN_UTXO)"

definition put_mempool_tx :: "hash_fn \<Rightarrow> 'db rocks \<Rightarrow> 'db \<Rightarrow> tx \<Rightarrow> 'db res" where
  "put_mempool_tx H R db t = st_put R db COLUMN_MEMPOOL (tx_id H t) (tx_to_bytes t)"

definition mempool_txs :: "'db rocks \<Rightarrow> 'db \<Rightarrow> tx list res" where
  "mempool_txs R db = each (\<lambda>(_, value). tx_from_bytes value) (st_items R db COLUMN_MEMPOOL)"

definition put_shard_tree :: "'db rocks \<Rightarrow> 'db \<Rightarrow> shard_tree \<Rightarrow> 'db res" where
  "put_shard_tree R db tree = bnd (serialize_tree tree) (\<lambda>bs. st_put R db COLUMN_SHARD_TREE (ascii ''current'') bs)"

definition get_shard_tree :: "'db rocks \<Rightarrow> 'db \<Rightarrow> shard_tree option res" where
  "get_shard_tree R db =
     bnd (st_get R db COLUMN_SHARD_TREE (ascii ''current'')) (\<lambda>data.
     case data of None \<Rightarrow> Inr None | Some bs \<Rightarrow> bnd (deserialize_tree bs) (\<lambda>t. Inr (Some t)))"

definition put_fee_floor :: "'db rocks \<Rightarrow> 'db \<Rightarrow> int \<Rightarrow> int \<Rightarrow> 'db res" where
  "put_fee_floor R db shard_id floor_matoms_per_kb =
     bnd (require_uint shard_id U32_MAX) (\<lambda>_.
     bnd (require_uint floor_matoms_per_kb U64_MAX) (\<lambda>_.
     st_put R db COLUMN_FEE_FLOORS (le_bytes 4 shard_id) (le_bytes 8 floor_matoms_per_kb)))"

definition st_fee_floor :: "'db rocks \<Rightarrow> 'db \<Rightarrow> int \<Rightarrow> int option res" where
  "st_fee_floor R db shard_id =
     bnd (require_uint shard_id U32_MAX) (\<lambda>_.
     bnd (st_get R db COLUMN_FEE_FLOORS (le_bytes 4 shard_id)) (\<lambda>data.
     case data of
       None \<Rightarrow> Inr None
     | Some bs \<Rightarrow> bnd (st_require_len bs 8) (\<lambda>bs. Inr (Some (from_le bs)))))"

definition atomic_state_batch ::
  "hash_fn \<Rightarrow> (bytes \<times> any_header) list \<Rightarrow> (bytes \<times> any_body) list \<Rightarrow> utxo list \<Rightarrow> outpoint list \<Rightarrow> tx list \<Rightarrow> bytes list \<Rightarrow>
   storage_batch res" where
  "atomic_state_batch H headers bodies utxo_puts utxo_deletes mempool_puts mempool_deletes =
     bnd (each (\<lambda>(h, header). bnd (require_hash h) (\<lambda>_. BatchPut COLUMN_HEADERS h (serialize_header header))) headers) (\<lambda>header_puts.
     bnd (each (\<lambda>(h, body). bnd (require_hash h) (\<lambda>_.
            bnd (serialize_body body) (\<lambda>bs. BatchPut COLUMN_BODIES h bs))) bodies) (\<lambda>body_puts.
     bnd (each (\<lambda>u. BatchPut COLUMN_UTXO (utxo_key H u) (utxo_to_bytes u)) utxo_puts) (\<lambda>u_puts.
     bnd (each (\<lambda>op. BatchDelete COLUMN_UTXO (outpoint_key H op)) utxo_deletes) (\<lambda>u_deletes.
     bnd (each (\<lambda>t. BatchPut COLUMN_MEMPOOL (tx_id H t) (tx_to_bytes t)) mempool_puts) (\<lambda>m_puts.
     bnd (each (\<lambda>tid. bnd (require_hash tid) (\<lambda>_. BatchDelete COLUMN_MEMPOOL tid)) mempool_deletes) (\<lambda>m_deletes.
     Inr \<lparr>sb_puts = header_puts @ body_puts @ u_puts @ m_puts, sb_deletes = u_deletes @ m_deletes\<rparr>))))))"

section \<open>Specification\<close>

text \<open>What \<open>rocksdict\<close> documents: the effect of a batch on one key, and the order of iteration.\<close>

fun apply_op :: "storage_column \<Rightarrow> bytes \<Rightarrow> write_op \<Rightarrow> bytes option \<Rightarrow> bytes option" where
  "apply_op c k (WritePut c' k' v) old = (if c' = c \<and> k' = k then Some v else old)"
| "apply_op c k (WriteDelete c' k') old = (if c' = c \<and> k' = k then None else old)"

definition rocks_ok :: "'db rocks \<Rightarrow> bool" where
  "rocks_ok R \<longleftrightarrow>
     (\<forall>db ops c k. rk_get R (rk_write R db ops) c k = fold (apply_op c k) ops (rk_get R db c k)) \<and>
     (\<forall>db c. sorted_wrt (<) (map fst (rk_items R db c)) \<and> map_of (rk_items R db c) = rk_get R db c)"

text \<open>A database that keeps each column as an association list.\<close>

definition example_write :: "(storage_column \<Rightarrow> (bytes \<times> bytes) list) \<Rightarrow> write_op \<Rightarrow> storage_column \<Rightarrow> (bytes \<times> bytes) list" where
  "example_write db wop = (case wop of
     WritePut c k v \<Rightarrow> db(c := AList.update k v (db c))
   | WriteDelete c k \<Rightarrow> db(c := AList.delete k (db c)))"

definition example_rocks :: "(storage_column \<Rightarrow> (bytes \<times> bytes) list) rocks" where
  "example_rocks = \<lparr>rk_get = (\<lambda>db c k. map_of (db c) k),
     rk_items = (\<lambda>db c. sort_key fst (AList.clearjunk (db c))),
     rk_write = (\<lambda>db ops. fold (\<lambda>wop db. example_write db wop) ops db)\<rparr>"

definition empty_db :: "storage_column \<Rightarrow> (bytes \<times> bytes) list" where
  "empty_db c = []"

section \<open>Lemmas\<close>

lemma rocks_okD:
  assumes "rocks_ok R"
  shows "rk_get R (rk_write R db ops) c k = fold (apply_op c k) ops (rk_get R db c k)"
    and "sorted_wrt (<) (map fst (rk_items R db c))" and "map_of (rk_items R db c) = rk_get R db c"
  using assms by (simp_all add: rocks_ok_def)

lemma require_key_Inr [simp]: "require_key k = Inr k' \<longleftrightarrow> k \<noteq> [] \<and> k' = k"
  by (auto simp: require_key_def bnd_Inr_iff)

lemma require_key_ok: "k \<noteq> [] \<Longrightarrow> require_key k = Inr k"
  by simp

lemma BatchPut_Inr: "BatchPut c k v = Inr p \<longleftrightarrow> k \<noteq> [] \<and> p = \<lparr>bp_column = c, bp_key = k, bp_value = v\<rparr>"
  by (auto simp: BatchPut_def bnd_Inr_iff)

lemma BatchDelete_Inr: "BatchDelete c k = Inr d \<longleftrightarrow> k \<noteq> [] \<and> d = \<lparr>bd_column = c, bd_key = k\<rparr>"
  by (auto simp: BatchDelete_def bnd_Inr_iff)

lemma st_get_eq: "k \<noteq> [] \<Longrightarrow> st_get R db c k = Inr (rk_get R db c k)"
  by (simp add: st_get_def require_key_ok)

text \<open>The effect of a batch on one key: deletions come after the puts, the last put of a key counts.\<close>

definition put_of :: "storage_batch \<Rightarrow> storage_column \<Rightarrow> bytes \<Rightarrow> bytes option" where
  "put_of b c k = map_of (rev (map (\<lambda>p. ((bp_column p, bp_key p), bp_value p)) (sb_puts b))) (c, k)"

lemma fold_puts:
  "fold (apply_op c k) (map (\<lambda>p. WritePut (bp_column p) (bp_key p) (bp_value p)) ps) old =
     (case map_of (rev (map (\<lambda>p. ((bp_column p, bp_key p), bp_value p)) ps)) (c, k) of None \<Rightarrow> old | Some v \<Rightarrow> Some v)"
  by (induction ps arbitrary: old) (auto simp: map_add_def split: option.splits)

lemma fold_deletes:
  "fold (apply_op c k) (map (\<lambda>d. WriteDelete (bd_column d) (bd_key d)) ds) old =
     (if (c, k) \<in> (\<lambda>d. (bd_column d, bd_key d)) ` set ds then None else old)"
  by (induction ds arbitrary: old) auto

lemma write_batch_get:
  assumes "rocks_ok R"
  shows "rk_get R (write_batch R db b) c k =
    (if (c, k) \<in> (\<lambda>d. (bd_column d, bd_key d)) ` set (sb_deletes b) then None
     else case put_of b c k of None \<Rightarrow> rk_get R db c k | Some v \<Rightarrow> Some v)"
  by (auto simp: write_batch_def is_empty_batch_def rocks_okD(1) [OF assms] fold_puts fold_deletes put_of_def)

lemma st_put_Inr:
  assumes "rocks_ok R" "k \<noteq> []"
  obtains db' where "st_put R db c k v = Inr db'"
    "\<And>c' k'. rk_get R db' c' k' = (if c' = c \<and> k' = k then Some v else rk_get R db c' k')"
proof -
  let ?b = "\<lparr>sb_puts = [\<lparr>bp_column = c, bp_key = k, bp_value = v\<rparr>], sb_deletes = []\<rparr>"
  have "st_put R db c k v = Inr (write_batch R db ?b)"
    using assms(2) by (auto simp: st_put_def bnd_Inr_iff BatchPut_Inr)
  then show thesis by (rule that) (auto simp: write_batch_get [OF assms(1)] put_of_def)
qed

subsection \<open>Typed columns\<close>

text \<open>What the typed operations of a column rely on: a non-empty key and a decoder that inverts the encoder.\<close>

locale typed_column =
  fixes col :: storage_column
    and key :: "'a \<Rightarrow> bytes"
    and enc :: "'a \<Rightarrow> bytes res"
    and dec :: "bytes \<Rightarrow> bytes \<Rightarrow> 'a res"
    and ok :: "'a \<Rightarrow> bool"
  assumes key_nonempty: "ok x \<Longrightarrow> key x \<noteq> []"
    and enc_total: "ok x \<Longrightarrow> \<exists>bs. enc x = Inr bs"
    and dec_enc: "ok x \<Longrightarrow> enc x = Inr bs \<Longrightarrow> dec (key x) bs = Inr x"
begin

lemma put_then_get:
  assumes "rocks_ok R" "ok x"
  obtains bs db' where "enc x = Inr bs" "st_put R db col (key x) bs = Inr db'"
    "st_get R db' col (key x) = Inr (Some bs)" "dec (key x) bs = Inr x"
    "\<And>c k. (c, k) \<noteq> (col, key x) \<Longrightarrow> rk_get R db' c k = rk_get R db c k"
proof -
  obtain bs where bs: "enc x = Inr bs" using enc_total [OF assms(2)] by blast
  obtain db' where db': "st_put R db col (key x) bs = Inr db'"
    "\<And>c' k'. rk_get R db' c' k' = (if c' = col \<and> k' = key x then Some bs else rk_get R db c' k')"
    by (rule st_put_Inr [OF assms(1) key_nonempty [OF assms(2)]]) blast
  show thesis
    by (rule that [OF bs db'(1)]) (use db'(2) key_nonempty [OF assms(2)] dec_enc [OF assms(2) bs] in \<open>auto simp: st_get_eq\<close>)
qed

text \<open>Reading back a column whose content is a set of values: every value comes back, in the order of the keys.\<close>

lemma load_all:
  assumes "rocks_ok R" "\<And>x. x \<in> X \<Longrightarrow> ok x"
    "\<And>k v. rk_get R db col k = Some v \<longleftrightarrow> (\<exists>x \<in> X. key x = k \<and> enc x = Inr v)" "inj_on key X"
  obtains xs where "each (\<lambda>(k, v). dec k v) (st_items R db col) = Inr xs" "set xs = X" "sorted_wrt (\<lambda>x y. key x < key y) xs"
proof -
  define its where "its = st_items R db col"
  have sorted: "sorted_wrt (<) (map fst its)" and get: "map_of its = rk_get R db col"
    using rocks_okD(2,3) [OF assms(1)] by (simp_all add: its_def st_items_def)
  have dist: "distinct (map fst its)" using sorted by (simp add: strict_sorted_iff)
  have mem: "(k, v) \<in> set its \<longleftrightarrow> (\<exists>x \<in> X. key x = k \<and> enc x = Inr v)" for k v
    using map_of_eq_Some_iff [OF dist] get assms(3) by metis
  define pick where "pick = (\<lambda>(k, v :: bytes). THE x. x \<in> X \<and> key x = k)"
  have pick: "pick (key x, v) = x" if "x \<in> X" for x v
    using that assms(4) by (auto simp: pick_def inj_on_def intro!: the_equality)
  have picked: "pick (k, v) \<in> X \<and> key (pick (k, v)) = k \<and> dec k v = Inr (pick (k, v))" if kv: "(k, v) \<in> set its" for k v
  proof -
    obtain x where "x \<in> X" "key x = k" "enc x = Inr v" using kv mem by blast
    then show ?thesis using pick [of x v] dec_enc [OF assms(2)] by auto
  qed
  have "each (\<lambda>(k, v). dec k v) its = Inr (map pick its)"
    by (rule each_Inr_all) (use picked in auto)
  moreover have "set (map pick its) = X"
  proof
    show "set (map pick its) \<subseteq> X" using picked by auto
    show "X \<subseteq> set (map pick its)"
    proof
      fix x assume x: "x \<in> X"
      then obtain bs where "enc x = Inr bs" using enc_total assms(2) by blast
      then have "(key x, bs) \<in> set its" using mem x by blast
      then show "x \<in> set (map pick its)" using pick [OF x, of bs] by force
    qed
  qed
  moreover have "map key (map pick its) = map fst its" using picked by auto
  then have "sorted_wrt (<) (map key (map pick its))" using sorted by (simp only:)
  then have "sorted_wrt (\<lambda>x y. key x < key y) (map pick its)" by (simp only: sorted_wrt_map)
  ultimately show thesis using that unfolding its_def by blast
qed

end

lemma hash_nonempty: "length h = HASH_LEN_BYTES \<Longrightarrow> h \<noteq> []"
  by (auto simp: HASH_LEN_BYTES_def)

lemma digest_nonempty: "digest_ok H \<Longrightarrow> domain_hash H d x \<noteq> []"
  using length_domain_hash [of H d x] by (rule hash_nonempty)

interpretation utxo_column: typed_column COLUMN_UTXO "utxo_key H" "\<lambda>u. Inr (utxo_to_bytes u)"
  "\<lambda>k v. utxo_from_bytes H v (Some k)" "\<lambda>u. digest_ok H \<and> utxo_ok u" for H
proof
  fix u assume u: "digest_ok H \<and> utxo_ok u"
  then have len: "length (utxo_key H u) = HASH_LEN_BYTES"
    by (simp add: utxo_key_def outpoint_key_def length_domain_hash)
  then show "utxo_key H u \<noteq> []" by (rule hash_nonempty)
  show "\<exists>bs. Inr (utxo_to_bytes u) = (Inr bs :: bytes res)" by simp
  show "utxo_from_bytes H bs (Some (utxo_key H u)) = Inr u" if "Inr (utxo_to_bytes u) = (Inr bs :: bytes res)" for bs
    using that u len by (auto simp: utxo_from_to_bytes)
qed

interpretation mempool_column: typed_column COLUMN_MEMPOOL "tx_id H" "\<lambda>t. Inr (tx_to_bytes t)"
  "\<lambda>k v. tx_from_bytes v" "\<lambda>t. digest_ok H \<and> tx_ok t" for H
  by unfold_locales (auto simp: tx_id_def digest_nonempty tx_from_to_bytes)

interpretation fruit_column: typed_column COLUMN_BODIES "fruit_block_hash H" "\<lambda>f. Inr (serialize_fruit f)"
  "\<lambda>k v. deserialize_fruit H v" "\<lambda>f. digest_ok H \<and> fruit_ok H f" for H
  by unfold_locales
    (auto simp: fruit_block_hash_def fruit_header_hash_def deserialize_fruit_Inr digest_nonempty)

interpretation anchor_column: typed_column COLUMN_BODIES fst "\<lambda>(h, a). serialize_anchor a"
  "\<lambda>k v. bnd (deserialize_anchor H v) (\<lambda>a. Inr (k, a))"
  "\<lambda>(h, a). length h = HASH_LEN_BYTES \<and> anchor_ok H a \<and> is_ok (serialize_anchor a)" for H
  by unfold_locales (auto simp: bnd_Inr_iff deserialize_anchor_Inr is_ok_iff HASH_LEN_BYTES_def)

interpretation tree_column: typed_column COLUMN_SHARD_TREE "\<lambda>_. ascii ''current''" serialize_tree
  "\<lambda>k v. deserialize_tree v" "\<lambda>t. tree_ok (leaf_shard_ids t) \<and> length (leaf_shard_ids t) \<noteq> 65536"
  by unfold_locales (auto simp: ascii_def deserialize_serialize serialize_tree_eq)

interpretation floor_column: typed_column COLUMN_FEE_FLOORS "\<lambda>(s, f). le_bytes 4 s" "\<lambda>(s, f). Inr (le_bytes 8 f)"
  "\<lambda>k v. bnd (st_require_len v 8) (\<lambda>v. Inr (from_le k, from_le v))"
  "\<lambda>(s, f). 0 \<le> s \<and> s \<le> U32_MAX \<and> 0 \<le> f \<and> f \<le> U64_MAX"
proof
  fix x :: "int \<times> int" and bs
  assume ok: "case x of (s, f) \<Rightarrow> 0 \<le> s \<and> s \<le> U32_MAX \<and> 0 \<le> f \<and> f \<le> U64_MAX"
  obtain s f where x: "x = (s, f)" by fastforce
  show "(case x of (s, f) \<Rightarrow> le_bytes 4 s) \<noteq> []" unfolding x using length_le_bytes [of 4 s] by fastforce
  show "\<exists>bs. (case x of (s, f) \<Rightarrow> Inr (le_bytes 8 f)) = (Inr bs :: bytes res)" by (simp add: x)
  assume "(case x of (s, f) \<Rightarrow> Inr (le_bytes 8 f)) = (Inr bs :: bytes res)"
  then show "bnd (st_require_len bs 8) (\<lambda>v. Inr (from_le (case x of (s, f) \<Rightarrow> le_bytes 4 s), from_le v)) = Inr x"
    using ok from_le_bytes [of s 4] from_le_bytes [of f 8] by (auto simp: x st_require_len_def bnd_ensure uint_limits)
qed

lemma map_of_sort: "distinct (map fst xs) \<Longrightarrow> map_of (sort_key fst xs) = map_of xs"
  by (rule map_of_inject_set [THEN iffD2]) (simp_all add: distinct_map inj_on_def)

lemma example_rocks_ok: "rocks_ok example_rocks"
proof -
  have written: "map_of (fold (\<lambda>wop db. example_write db wop) ops db c) k = fold (apply_op c k) ops (map_of (db c) k)" for ops db c k
    by (induction ops arbitrary: db) (auto simp: example_write_def update_conv' delete_conv' split: write_op.split)
  have "sorted_wrt (<) (map fst (sort_key fst (AList.clearjunk d)))" for d :: "(bytes \<times> bytes) list"
  proof -
    have "distinct (map fst (sort_key fst (AList.clearjunk d)))" using distinct_clearjunk [of d] by (simp add: distinct_map)
    then show ?thesis by (simp add: strict_sorted_iff)
  qed
  then show ?thesis
    by (simp add: rocks_ok_def example_rocks_def written map_of_sort [OF distinct_clearjunk] map_of_clearjunk)
qed

section \<open>Properties\<close>

text \<open>Every typed column gives back what was put into it: on a database that behaves as documented, storing an
  output, a pending transaction, a fruit, an anchor that can be encoded, a shard tree below the size
  limit or a fee floor succeeds, and reading its key returns the same value.\<close>

theorem typed_columns_roundtrip:
  assumes R: "rocks_ok R" and H: "digest_ok H"
  shows "(utxo_ok u \<longrightarrow> (\<exists>db'. put_utxo H R db u = Inr db' \<and> get_utxo H R db' (u_outpoint u) = Inr (Some u))) \<and>
    (tx_ok t \<longrightarrow> (\<exists>db' bs. put_mempool_tx H R db t = Inr db' \<and>
       st_get R db' COLUMN_MEMPOOL (tx_id H t) = Inr (Some bs) \<and> tx_from_bytes bs = Inr t)) \<and>
    (fruit_ok H f \<longrightarrow> (\<exists>db' bs. put_body R db (fruit_block_hash H f) (FruitOf f) = Inr db' \<and>
       get_body_bytes R db' (fruit_block_hash H f) = Inr (Some bs) \<and> deserialize_fruit H bs = Inr f)) \<and>
    (anchor_ok H a \<and> is_ok (serialize_anchor a) \<and> length h = HASH_LEN_BYTES \<longrightarrow>
       (\<exists>db' bs. put_body R db h (AnchorOf a) = Inr db' \<and> get_body_bytes R db' h = Inr (Some bs) \<and>
         deserialize_anchor H bs = Inr a)) \<and>
    (tree_ok (leaf_shard_ids tree) \<and> length (leaf_shard_ids tree) \<noteq> 65536 \<longrightarrow>
       (\<exists>db'. put_shard_tree R db tree = Inr db' \<and> get_shard_tree R db' = Inr (Some tree))) \<and>
    (0 \<le> s \<and> s \<le> U32_MAX \<and> 0 \<le> v \<and> v \<le> U64_MAX \<longrightarrow>
       (\<exists>db'. put_fee_floor R db s v = Inr db' \<and> st_fee_floor R db' s = Inr (Some v)))"
proof (intro conjI impI)
  assume "utxo_ok u"
  with H have ok: "digest_ok H \<and> utxo_ok u" ..
  show "\<exists>db'. put_utxo H R db u = Inr db' \<and> get_utxo H R db' (u_outpoint u) = Inr (Some u)"
    by (rule utxo_column.put_then_get [OF R ok, of db]) (auto simp: put_utxo_def get_utxo_def utxo_key_def)
next
  assume "tx_ok t"
  with H have ok: "digest_ok H \<and> tx_ok t" ..
  show "\<exists>db' bs. put_mempool_tx H R db t = Inr db' \<and> st_get R db' COLUMN_MEMPOOL (tx_id H t) = Inr (Some bs) \<and>
      tx_from_bytes bs = Inr t"
    by (rule mempool_column.put_then_get [OF R ok, of db]) (auto simp: put_mempool_tx_def)
next
  have len: "length (fruit_block_hash H f) = HASH_LEN_BYTES"
    by (simp add: fruit_block_hash_def fruit_header_hash_def length_domain_hash [OF H])
  assume "fruit_ok H f"
  with H have ok: "digest_ok H \<and> fruit_ok H f" ..
  show "\<exists>db' bs. put_body R db (fruit_block_hash H f) (FruitOf f) = Inr db' \<and>
      get_body_bytes R db' (fruit_block_hash H f) = Inr (Some bs) \<and> deserialize_fruit H bs = Inr f"
    by (rule fruit_column.put_then_get [OF R ok, of db]) (use len in \<open>auto simp: put_body_def get_body_bytes_def bnd_require_hash_len\<close>)
next
  assume *: "anchor_ok H a \<and> is_ok (serialize_anchor a) \<and> length h = HASH_LEN_BYTES"
  then have ok: "case (h, a) of (h, a) \<Rightarrow> length h = HASH_LEN_BYTES \<and> anchor_ok H a \<and> is_ok (serialize_anchor a)" by simp
  show "\<exists>db' bs. put_body R db h (AnchorOf a) = Inr db' \<and> get_body_bytes R db' h = Inr (Some bs) \<and>
      deserialize_anchor H bs = Inr a"
    by (rule anchor_column.put_then_get [OF R ok, of db])
      (use * in \<open>auto simp: put_body_def get_body_bytes_def bnd_require_hash_len bnd_Inr_iff\<close>)
next
  assume ok: "tree_ok (leaf_shard_ids tree) \<and> length (leaf_shard_ids tree) \<noteq> 65536"
  show "\<exists>db'. put_shard_tree R db tree = Inr db' \<and> get_shard_tree R db' = Inr (Some tree)"
    by (rule tree_column.put_then_get [OF R ok, of db]) (auto simp: put_shard_tree_def get_shard_tree_def)
next
  assume *: "0 \<le> s \<and> s \<le> U32_MAX \<and> 0 \<le> v \<and> v \<le> U64_MAX"
  then have ok: "case (s, v) of (s, f) \<Rightarrow> 0 \<le> s \<and> s \<le> U32_MAX \<and> 0 \<le> f \<and> f \<le> U64_MAX" by simp
  show "\<exists>db'. put_fee_floor R db s v = Inr db' \<and> st_fee_floor R db' s = Inr (Some v)"
    by (rule floor_column.put_then_get [OF R ok, of db])
      (use * in \<open>auto simp: put_fee_floor_def st_fee_floor_def bnd_require_uint bnd_Inr_iff\<close>)
qed

theorem typed_columns_roundtrip_witness:
  "\<exists>db'. put_utxo pad_hash example_rocks empty_db example_utxo = Inr db' \<and>
     get_utxo pad_hash example_rocks db' (u_outpoint example_utxo) = Inr (Some example_utxo)"
  using typed_columns_roundtrip [OF example_rocks_ok pad_hash_digest, of example_utxo empty_db] example_utxo_ok by blast

end
