(* ===== verification/Chain_Store.thy ===== *)
theory Chain_Store
  imports Storage Rewards Ghostdag
begin

text \<open>
  \<^verbatim>\<open>src/src/tensorpow/node/node.py\<close>: how a node reads its stored blocks. Loading fruits and anchors, the
  metadata of a block and its encoding, the walk from an anchor back to the genesis, the choice of the
  best anchor tip, and the DAG of the stored fruits with the orders derived from it.

  The walks are unbounded loops over stored hashes that stop when a hash repeats. They are partial functions, whose value \<open>None\<close>
  means that the loop does not return, and are shown to return on every database. The attribute \<open>_fruit_dag_cache\<close> memoises
  \<open>_fruit_dag\<close> and is reset whenever a fruit is stored; the model computes the DAG anew.
\<close>

section \<open>Definitions\<close>

definition FRUIT_META_PREFIX :: bytes where "FRUIT_META_PREFIX = ascii ''fruitmeta:''"
definition FRUIT_COINBASE_CLAIMED_PREFIX :: bytes where "FRUIT_COINBASE_CLAIMED_PREFIX = ascii ''fruitcoinbase:''"
definition ANCHOR_HEIGHT_KEY :: bytes where "ANCHOR_HEIGHT_KEY = ascii ''meta:anchor-height''"
definition ANCHOR_TIP_KEY :: bytes where "ANCHOR_TIP_KEY = ascii ''meta:anchor-tip''"
definition MINTED_SUPPLY_KEY :: bytes where "MINTED_SUPPLY_KEY = ascii ''meta:minted-supply''"
definition ANCHOR_META_PREFIX :: bytes where "ANCHOR_META_PREFIX = ascii ''anchormeta:''"
definition FRUIT_META_BYTES :: nat where "FRUIT_META_BYTES = 8 * 2"
definition ANCHOR_META_BYTES :: nat where "ANCHOR_META_BYTES = 8 + HASH_LEN_BYTES + 32"
definition MEDIAN_TIME_PAST_WINDOW :: nat where "MEDIAN_TIME_PAST_WINDOW = 11"
definition ANCHOR_HISTORY_LOOKBACK :: nat where
  "ANCHOR_HISTORY_LOOKBACK = max (WTEMA_WINDOW_ANCHORS + 1) MEDIAN_TIME_PAST_WINDOW"

record fruit_meta =
  fm_coinbase_claim_matoms :: int
  fm_tip_matoms :: int

record anchor_meta =
  am_height :: int
  am_target :: bytes
  am_cumulative_work :: int

text \<open>\<open>try: return m except (TypeError, ValueError): return None\<close>, where \<open>m\<close> raises those classes only.\<close>

definition attempt :: "'a res \<Rightarrow> 'a option" where
  "attempt m = (case m of Inl _ \<Rightarrow> None | Inr x \<Rightarrow> Some x)"

definition obnd :: "'a option res \<Rightarrow> ('a \<Rightarrow> 'b option res) \<Rightarrow> 'b option res" where
  "obnd m f = bnd m (\<lambda>r. case r of None \<Rightarrow> Inr None | Some x \<Rightarrow> f x)"

subsection \<open>Encodings\<close>

definition node_u64 :: "int \<Rightarrow> bytes res" where
  "node_u64 value = bnd (ensure (0 \<le> value \<and> value \<le> U64_MAX) ValueError) (\<lambda>_. Inr (le_bytes 8 value))"

definition node_u256 :: "int \<Rightarrow> bytes res" where
  "node_u256 value = bnd (ensure (0 \<le> value \<and> value < push_bit (32 * 8) 1) ValueError) (\<lambda>_. Inr (le_bytes 32 value))"

definition decode_u64_or_zero :: "bytes option \<Rightarrow> int" where
  "decode_u64_or_zero v = (case v of None \<Rightarrow> 0 | Some bs \<Rightarrow> if length bs \<noteq> 8 then 0 else from_le bs)"

definition decode_optional_u64 :: "bytes option \<Rightarrow> int option" where
  "decode_optional_u64 v = (case v of None \<Rightarrow> None | Some bs \<Rightarrow> if length bs \<noteq> 8 then None else Some (from_le bs))"

definition fruit_meta_key :: "bytes \<Rightarrow> bytes" where
  "fruit_meta_key fruit_hash = FRUIT_META_PREFIX @ fruit_hash"

definition fruit_coinbase_claimed_key :: "bytes \<Rightarrow> bytes" where
  "fruit_coinbase_claimed_key fruit_hash = FRUIT_COINBASE_CLAIMED_PREFIX @ fruit_hash"

definition anchor_meta_key :: "bytes \<Rightarrow> bytes" where
  "anchor_meta_key anchor_hash = ANCHOR_META_PREFIX @ anchor_hash"

definition encode_fruit_meta :: "fruit_meta \<Rightarrow> bytes res" where
  "encode_fruit_meta meta =
     bnd (node_u64 (fm_coinbase_claim_matoms meta)) (\<lambda>a. bnd (node_u64 (fm_tip_matoms meta)) (\<lambda>b. Inr (a @ b)))"

definition decode_fruit_meta :: "bytes option \<Rightarrow> fruit_meta option" where
  "decode_fruit_meta v = (case v of
     None \<Rightarrow> None
   | Some value \<Rightarrow>
       if length value \<noteq> FRUIT_META_BYTES then None
       else Some \<lparr>fm_coinbase_claim_matoms = from_le (take 8 value), fm_tip_matoms = from_le (drop 8 value)\<rparr>)"

definition encode_anchor_meta :: "anchor_meta \<Rightarrow> bytes res" where
  "encode_anchor_meta meta =
     bnd (ensure (\<not> length (am_target meta) \<noteq> HASH_LEN_BYTES) ValueError) (\<lambda>_.
     bnd (node_u64 (am_height meta)) (\<lambda>a.
     bnd (node_u256 (am_cumulative_work meta)) (\<lambda>b. Inr (a @ am_target meta @ b))))"

definition decode_anchor_meta :: "bytes option \<Rightarrow> anchor_meta option" where
  "decode_anchor_meta v = (case v of
     None \<Rightarrow> None
   | Some value \<Rightarrow>
       if length value \<noteq> ANCHOR_META_BYTES then None
       else Some \<lparr>am_height = from_le (take 8 value), am_target = slice value 8 (8 + HASH_LEN_BYTES),
                  am_cumulative_work = from_le (drop (8 + HASH_LEN_BYTES) value)\<rparr>)"

subsection \<open>Loading blocks\<close>

definition load_anchor :: "hash_fn \<Rightarrow> 'db rocks \<Rightarrow> 'db \<Rightarrow> bytes \<Rightarrow> anchor option" where
  "load_anchor H R db block_hash =
     (if block_hash = GENESIS_PARENT_HASH then None
      else case attempt (get_body_bytes R db block_hash) of
        None \<Rightarrow> None
      | Some None \<Rightarrow> None
      | Some (Some body) \<Rightarrow> attempt (deserialize_anchor H body))"

definition load_fruit :: "hash_fn \<Rightarrow> 'db rocks \<Rightarrow> 'db \<Rightarrow> bytes \<Rightarrow> fruit option" where
  "load_fruit H R db block_hash =
     (if block_hash = GENESIS_PARENT_HASH then None
      else case attempt (get_body_bytes R db block_hash) of
        None \<Rightarrow> None
      | Some None \<Rightarrow> None
      | Some (Some body) \<Rightarrow> attempt (deserialize_fruit H body))"

definition fruit_meta_of :: "'db rocks \<Rightarrow> 'db \<Rightarrow> bytes \<Rightarrow> fruit_meta option res" where
  "fruit_meta_of R db fruit_hash =
     bnd (st_get R db COLUMN_DAG (fruit_meta_key fruit_hash)) (\<lambda>v. Inr (decode_fruit_meta v))"

definition anchor_height_of :: "'db rocks \<Rightarrow> 'db \<Rightarrow> int res" where
  "anchor_height_of R db = bnd (st_get R db COLUMN_DAG ANCHOR_HEIGHT_KEY) (\<lambda>v. Inr (decode_u64_or_zero v))"

definition minted_supply_of :: "'db rocks \<Rightarrow> 'db \<Rightarrow> int res" where
  "minted_supply_of R db = bnd (st_get R db COLUMN_DAG MINTED_SUPPLY_KEY) (\<lambda>v. Inr (decode_u64_or_zero v))"

definition stored_fee_floors :: "'db rocks \<Rightarrow> 'db \<Rightarrow> (int, int) dict" where
  "stored_fee_floors R db =
     fold (\<lambda>(key, value) floors.
       if length key \<noteq> 4 \<or> length value \<noteq> 8 then floors
       else dict_set (from_le key) (from_le value) floors) (st_items R db COLUMN_FEE_FLOORS) []"

definition fee_floor_for_shard :: "'db rocks \<Rightarrow> 'db \<Rightarrow> int \<Rightarrow> int" where
  "fee_floor_for_shard R db shard_id = (case dict_get (stored_fee_floors R db) shard_id of None \<Rightarrow> 0 | Some f \<Rightarrow> f)"

subsection \<open>Anchor chains\<close>

text \<open>The loop of \<open>_anchor_chain_hashes\<close>. Its value is \<open>None\<close> when it does not return, \<open>Some None\<close> when it returns
  \<open>None\<close>; that it returns on every database is \<open>chain_walk_returns\<close>.\<close>

partial_function (option) chain_walk ::
  "hash_fn \<Rightarrow> 'db rocks \<Rightarrow> 'db \<Rightarrow> bytes \<Rightarrow> bytes set \<Rightarrow> bytes list \<Rightarrow> bytes list option option" where
  "chain_walk H R db current_hash seen chain =
     (if current_hash = GENESIS_PARENT_HASH then Some (Some chain)
      else if current_hash \<in> seen then Some None
      else case load_anchor H R db current_hash of
        None \<Rightarrow> Some None
      | Some a \<Rightarrow> chain_walk H R db (ah_parent_anchor (a_header a)) (insert current_hash seen) (chain @ [current_hash]))"

declare chain_walk.simps [code]

definition anchor_chain_hashes :: "hash_fn \<Rightarrow> 'db rocks \<Rightarrow> 'db \<Rightarrow> bytes \<Rightarrow> bytes list option" where
  "anchor_chain_hashes H R db tip_hash =
     (if tip_hash = GENESIS_PARENT_HASH then Some []
      else map_option rev (the (chain_walk H R db tip_hash {} [])))"

text \<open>The loop of \<open>_derive_anchor_meta\<close> over the chain: the records so far and the work they add up to.\<close>

fun derive_loop ::
  "hash_fn \<Rightarrow> 'db rocks \<Rightarrow> 'db \<Rightarrow> bytes list \<Rightarrow> anchor_record list \<Rightarrow> int \<Rightarrow> (anchor_record list \<times> int) option res" where
  "derive_loop H R db [] history cumulative_work = Inr (Some (history, cumulative_work))"
| "derive_loop H R db (chain_hash # rest) history cumulative_work =
     (case load_anchor H R db chain_hash of
        None \<Rightarrow> Inr None
      | Some a \<Rightarrow>
          bnd (if is_genesis_anchor a then Inr ANCHOR_INITIAL_TARGET_LE else next_anchor_target history) (\<lambda>target.
          case attempt (AnchorRecord chain_hash (ah_parent_anchor (a_header a)) (ah_timestamp_ms (a_header a)) target) of
            None \<Rightarrow> Inr None
          | Some record \<Rightarrow>
              bnd (anchor_work_weight (ar_target record)) (\<lambda>w.
              derive_loop H R db rest (history @ [record]) (cumulative_work + w))))"

definition derive_anchor_meta :: "hash_fn \<Rightarrow> 'db rocks \<Rightarrow> 'db \<Rightarrow> bytes \<Rightarrow> anchor_meta option res" where
  "derive_anchor_meta H R db anchor_hash =
     (case anchor_chain_hashes H R db anchor_hash of
        None \<Rightarrow> Inr None
      | Some chain_hashes \<Rightarrow>
          if chain_hashes = [] then Inr None
          else obnd (derive_loop H R db chain_hashes [] 0) (\<lambda>(history, cumulative_work).
               Inr (Some \<lparr>am_height = int (length history) - 1, am_target = ar_target (last history),
                          am_cumulative_work = cumulative_work\<rparr>)))"

definition anchor_meta_of :: "hash_fn \<Rightarrow> 'db rocks \<Rightarrow> 'db \<Rightarrow> bytes \<Rightarrow> anchor_meta option res" where
  "anchor_meta_of H R db anchor_hash =
     bnd (st_get R db COLUMN_DAG (anchor_meta_key anchor_hash)) (\<lambda>v.
     case decode_anchor_meta v of
       Some stored \<Rightarrow> Inr (Some stored)
     | None \<Rightarrow> derive_anchor_meta H R db anchor_hash)"

text \<open>The loop of \<open>_anchor_history\<close>, which stops after \<open>limit\<close> anchors, and the records it builds.\<close>

partial_function (option) history_walk ::
  "hash_fn \<Rightarrow> 'db rocks \<Rightarrow> 'db \<Rightarrow> nat option \<Rightarrow> bytes \<Rightarrow> bytes set \<Rightarrow> (bytes \<times> anchor) list \<Rightarrow>
   (bytes \<times> anchor) list option option" where
  "history_walk H R db limit current_hash seen chain =
     (if current_hash = GENESIS_PARENT_HASH then Some (Some chain)
      else if current_hash \<in> seen then Some None
      else case load_anchor H R db current_hash of
        None \<Rightarrow> Some None
      | Some a \<Rightarrow>
          if (\<exists>l \<in> set_option limit. length (chain @ [(current_hash, a)]) \<ge> l) then Some (Some (chain @ [(current_hash, a)]))
          else history_walk H R db limit (ah_parent_anchor (a_header a)) (insert current_hash seen) (chain @ [(current_hash, a)]))"

declare history_walk.simps [code]

fun history_records ::
  "hash_fn \<Rightarrow> 'db rocks \<Rightarrow> 'db \<Rightarrow> (bytes \<times> anchor) list \<Rightarrow> anchor_record list option res" where
  "history_records H R db [] = Inr (Some [])"
| "history_records H R db ((anchor_hash, a) # rest) =
     obnd (anchor_meta_of H R db anchor_hash) (\<lambda>meta.
     case attempt (AnchorRecord anchor_hash (ah_parent_anchor (a_header a)) (ah_timestamp_ms (a_header a)) (am_target meta)) of
       None \<Rightarrow> Inr None
     | Some record \<Rightarrow> obnd (history_records H R db rest) (\<lambda>records. Inr (Some (record # records))))"

definition anchor_history :: "hash_fn \<Rightarrow> 'db rocks \<Rightarrow> 'db \<Rightarrow> bytes \<Rightarrow> nat option \<Rightarrow> anchor_record list option res" where
  "anchor_history H R db tip_hash limit =
     (if tip_hash = GENESIS_PARENT_HASH then Inr None
      else case the (history_walk H R db limit tip_hash {} []) of
        None \<Rightarrow> Inr None
      | Some chain \<Rightarrow> history_records H R db (rev chain))"

definition anchor_position :: "hash_fn \<Rightarrow> 'db rocks \<Rightarrow> 'db \<Rightarrow> anchor \<Rightarrow> (int \<times> bytes \<times> int) option res" where
  "anchor_position H R db a =
     (if is_genesis_anchor a then Inr (Some (0, ANCHOR_INITIAL_TARGET_LE, 0))
      else obnd (anchor_meta_of H R db (ah_parent_anchor (a_header a))) (\<lambda>parent_meta.
           obnd (anchor_history H R db (ah_parent_anchor (a_header a)) (Some ANCHOR_HISTORY_LOOKBACK)) (\<lambda>history.
           bnd (next_anchor_target history) (\<lambda>target.
           Inr (Some (am_height parent_meta + 1, target, am_cumulative_work parent_meta))))))"

definition median_int :: "int list \<Rightarrow> int" where
  "median_int values = sort values ! (length values div 2)"

definition anchor_median_time_past :: "anchor_record list \<Rightarrow> int option" where
  "anchor_median_time_past history =
     (if history = [] then None
      else Some (median_int (map ar_timestamp_ms (drop (length history - MEDIAN_TIME_PAST_WINDOW) history))))"

subsection \<open>The best anchor tip\<close>

definition is_better_anchor_tip :: "bytes \<Rightarrow> anchor_meta \<Rightarrow> (bytes \<times> anchor_meta) option \<Rightarrow> bool" where
  "is_better_anchor_tip candidate_hash candidate_meta best =
     (case best of
        None \<Rightarrow> True
      | Some (best_hash, best_meta) \<Rightarrow>
          if am_cumulative_work candidate_meta \<noteq> am_cumulative_work best_meta then
            am_cumulative_work candidate_meta > am_cumulative_work best_meta
          else if am_height candidate_meta \<noteq> am_height best_meta then am_height candidate_meta > am_height best_meta
          else candidate_hash < best_hash)"

definition candidate_meta ::
  "hash_fn \<Rightarrow> 'db rocks \<Rightarrow> 'db \<Rightarrow> (bytes \<times> anchor_meta) option \<Rightarrow> bytes \<Rightarrow> anchor_meta option res" where
  "candidate_meta H R db extra block_hash =
     (case extra of
        Some (extra_hash, extra_meta) \<Rightarrow>
          if block_hash = extra_hash then Inr (Some extra_meta) else anchor_meta_of H R db block_hash
      | None \<Rightarrow> anchor_meta_of H R db block_hash)"

fun best_loop ::
  "hash_fn \<Rightarrow> 'db rocks \<Rightarrow> 'db \<Rightarrow> (bytes \<times> anchor_meta) option \<Rightarrow> bytes list \<Rightarrow> (bytes \<times> anchor_meta) option \<Rightarrow>
   (bytes \<times> anchor_meta) option res" where
  "best_loop H R db extra [] best = Inr best"
| "best_loop H R db extra (block_hash # rest) best =
     (case load_anchor H R db block_hash of
        None \<Rightarrow> best_loop H R db extra rest best
      | Some _ \<Rightarrow>
          bnd (candidate_meta H R db extra block_hash) (\<lambda>meta.
          best_loop H R db extra rest
            (case meta of
               None \<Rightarrow> best
             | Some m \<Rightarrow> if is_better_anchor_tip block_hash m best then Some (block_hash, m) else best)))"

definition best_anchor_tip ::
  "hash_fn \<Rightarrow> 'db rocks \<Rightarrow> 'db \<Rightarrow> (bytes \<times> anchor_meta) option \<Rightarrow> bytes option res" where
  "best_anchor_tip H R db extra =
     bnd (best_loop H R db extra (map fst (st_items R db COLUMN_BODIES)) None) (\<lambda>best.
     Inr (case extra of
            Some (h, m) \<Rightarrow> if is_better_anchor_tip h m best then Some h else map_option fst best
          | None \<Rightarrow> map_option fst best))"

subsection \<open>The DAG of stored fruits\<close>

definition ghostdag_k :: int where "ghostdag_k = DYNAMIC_K_MIN"

definition stored_fruit_hashes :: "hash_fn \<Rightarrow> 'db rocks \<Rightarrow> 'db \<Rightarrow> bytes list" where
  "stored_fruit_hashes H R db =
     sort (filter (\<lambda>block_hash. load_fruit H R db block_hash \<noteq> None) (map fst (st_items R db COLUMN_BODIES)))"

definition has_stored_fruits :: "hash_fn \<Rightarrow> 'db rocks \<Rightarrow> 'db \<Rightarrow> bool" where
  "has_stored_fruits H R db \<longleftrightarrow>
     (\<exists>block_hash \<in> set (map fst (st_items R db COLUMN_BODIES)). load_fruit H R db block_hash \<noteq> None)"

definition fruit_parents_for_dag :: "hash_fn \<Rightarrow> 'db rocks \<Rightarrow> 'db \<Rightarrow> fruit \<Rightarrow> bytes list option" where
  "fruit_parents_for_dag H R db f =
     (case load_anchor H R db (fh_latest_anchor (f_header f)) of
        None \<Rightarrow> None
      | Some latest_anchor \<Rightarrow>
          (case attempt (effective_parent_hashes (f_header f) (a_parent_candidate_hashes latest_anchor)) of
             None \<Rightarrow> None
           | Some parents \<Rightarrow> Some (filter (\<lambda>parent_hash. parent_hash \<noteq> GENESIS_PARENT_HASH) parents)))"

text \<open>The closure \<open>add_fruit\<close> of \<open>_fruit_dag\<close> on a list of hashes, with the DAG and the visited hashes as its state.
  \<open>None\<close> is the answer \<open>False\<close>.\<close>

function build_all ::
  "(bytes, fruit) dict \<Rightarrow> (fruit \<Rightarrow> bytes list option) \<Rightarrow> bytes list \<Rightarrow> bytes set \<Rightarrow> block_dag \<times> bytes set \<Rightarrow>
   (block_dag \<times> bytes set) option" where
  "build_all fruits parents_of [] visiting st = Some st"
| "build_all fruits parents_of (fruit_hash # rest) visiting st =
     Option.bind
       (if fruit_hash \<in> snd st then Some st
        else if fruit_hash \<in> visiting then None
        else case dict_get fruits fruit_hash of
          None \<Rightarrow> None
        | Some f \<Rightarrow>
            (case parents_of f of
               None \<Rightarrow> None
             | Some parents \<Rightarrow>
                 (case build_all fruits parents_of parents (insert fruit_hash visiting) st of
                    None \<Rightarrow> None
                  | Some (dag, visited) \<Rightarrow>
                      (case attempt (add_fruit dag fruit_hash parents (fh_timestamp_ms (f_header f)) 1) of
                         None \<Rightarrow> None
                       | Some (_, dag) \<Rightarrow> Some (dag, insert fruit_hash visited)))))
       (\<lambda>st. build_all fruits parents_of rest visiting st)"
  by pat_completeness auto
termination
proof (relation "inv_image (less_than <*lex*> less_than)
    (\<lambda>(fruits, parents_of, hs, visiting, st). (card (set (map fst fruits) - visiting), length hs))")
  fix fruits :: "(bytes, fruit) dict" and parents_of and fruit_hash and rest :: "bytes list" and visiting and st
    and f parents
  assume "fruit_hash \<notin> visiting" "dict_get fruits fruit_hash = Some f"
  then have "fruit_hash \<in> set (map fst fruits) - visiting" by (force dest: map_of_SomeD)
  then have "card (set (map fst fruits) - insert fruit_hash visiting) < card (set (map fst fruits) - visiting)"
    by (intro psubset_card_mono) auto
  then show "((fruits, parents_of, parents, insert fruit_hash visiting, st), (fruits, parents_of, fruit_hash # rest, visiting, st))
      \<in> inv_image (less_than <*lex*> less_than)
          (\<lambda>(fruits, parents_of, hs, visiting, st). (card (set (map fst fruits) - visiting), length hs))"
    by simp
qed auto

definition fruit_dag :: "hash_fn \<Rightarrow> 'db rocks \<Rightarrow> 'db \<Rightarrow> block_dag option" where
  "fruit_dag H R db =
     (let fruits = map (\<lambda>fruit_hash. (fruit_hash, the (load_fruit H R db fruit_hash))) (stored_fruit_hashes H R db);
          ordered = map snd (sort (map (\<lambda>(fruit_hash, f). (fh_timestamp_ms (f_header f), fruit_hash)) fruits)) in
      map_option fst (build_all fruits (fruit_parents_for_dag H R db) ordered {} (empty_dag, {})))"

definition canonical_covered_fruit_order :: "hash_fn \<Rightarrow> 'db rocks \<Rightarrow> 'db \<Rightarrow> anchor \<Rightarrow> bytes list option res" where
  "canonical_covered_fruit_order H R db a =
     (case fruit_dag H R db of
        None \<Rightarrow> Inr None
      | Some dag \<Rightarrow>
          bnd (ghostdag_metadata dag ghostdag_k) (\<lambda>(metadata, dag).
          let covered = set (a_covered_fruit_hashes a) in
          if \<not> covered \<subseteq> set (map fst metadata) then Inr None
          else bnd (each (\<lambda>fruit_hash.
                 bnd (lookup metadata fruit_hash) (\<lambda>g.
                 bnd (get_block dag fruit_hash) (\<lambda>b.
                 Inr (gd_blue_score g, fb_timestamp_ms b, fruit_hash)))) (sorted_list_of_set covered)) (\<lambda>keyed.
               Inr (Some (map (\<lambda>(_, _, fruit_hash). fruit_hash) (sort keyed))))))"

definition canonical_parent_candidates :: "hash_fn \<Rightarrow> 'db rocks \<Rightarrow> 'db \<Rightarrow> bytes list option res" where
  "canonical_parent_candidates H R db =
     (case fruit_dag H R db of
        None \<Rightarrow> Inr None
      | Some dag \<Rightarrow>
          if length (dag_blocks dag) = 0 then Inr (Some [])
          else
            let fruit_hashes = stored_fruit_hashes H R db;
                parents = map (\<lambda>fruit_hash. Option.bind (load_fruit H R db fruit_hash) (fruit_parents_for_dag H R db)) fruit_hashes in
            if None \<in> set parents then Inr None
            else
              let referenced = (\<Union>ps \<in> set parents. set (the ps));
                  frontier = set fruit_hashes - referenced in
              bnd (ghostdag_metadata dag ghostdag_k) (\<lambda>(metadata, _).
              bnd (each (\<lambda>fruit_hash. bnd (lookup metadata fruit_hash) (\<lambda>g. Inr (- gd_blue_score g, fruit_hash)))
                     (sorted_list_of_set frontier)) (\<lambda>keyed.
              Inr (Some (take PARENT_CANDIDATE_MAX_COUNT (map snd (sort keyed)))))))"

definition best_fruit_tip :: "block_dag \<Rightarrow> bytes option res" where
  "best_fruit_tip dag =
     (if length (dag_blocks dag) = 0 then Inr None
      else bnd (ghostdag_metadata dag ghostdag_k) (\<lambda>(metadata, dag).
           bnd (each (\<lambda>(fruit_hash, g).
             bnd (get_block dag fruit_hash) (\<lambda>b. Inr (- gd_blue_score g, - fb_timestamp_ms b, fruit_hash))) metadata) (\<lambda>keyed.
           case map (\<lambda>(_, _, fruit_hash). fruit_hash) (sort keyed) of
             [] \<Rightarrow> Inl IndexError
           | fruit_hash # _ \<Rightarrow> Inr (Some fruit_hash))))"

text \<open>The loop of \<open>_fruit_selected_chain_timestamps\<close> runs while fewer than \<open>MEDIAN_TIME_PAST_WINDOW\<close> timestamps are
  collected; \<open>None\<close> is its early return of an empty tuple.\<close>

fun selected_walk :: "hash_fn \<Rightarrow> 'db rocks \<Rightarrow> 'db \<Rightarrow> nat \<Rightarrow> bytes \<Rightarrow> bytes set \<Rightarrow> int list option" where
  "selected_walk H R db 0 current_hash seen = Some []"
| "selected_walk H R db (Suc room) current_hash seen =
     (if current_hash = GENESIS_PARENT_HASH then Some []
      else if current_hash \<in> seen then None
      else case load_fruit H R db current_hash of
        None \<Rightarrow> None
      | Some f \<Rightarrow>
          map_option ((#) (fh_timestamp_ms (f_header f)))
            (selected_walk H R db room (fh_parent_selected (f_header f)) (insert current_hash seen)))"

definition fruit_selected_chain_timestamps :: "hash_fn \<Rightarrow> 'db rocks \<Rightarrow> 'db \<Rightarrow> bytes \<Rightarrow> int list" where
  "fruit_selected_chain_timestamps H R db tip_hash =
     (if tip_hash = GENESIS_PARENT_HASH then []
      else case selected_walk H R db MEDIAN_TIME_PAST_WINDOW tip_hash {} of None \<Rightarrow> [] | Some ts \<Rightarrow> ts)"

section \<open>Specification\<close>

text \<open>\<open>ancestry H R db h hs\<close>: following parents from \<open>h\<close> through stored anchors visits \<open>hs\<close> and ends before the
  genesis.\<close>

fun ancestry :: "hash_fn \<Rightarrow> 'db rocks \<Rightarrow> 'db \<Rightarrow> bytes \<Rightarrow> bytes list \<Rightarrow> bool" where
  "ancestry H R db h [] \<longleftrightarrow> h = GENESIS_PARENT_HASH"
| "ancestry H R db h (x # xs) \<longleftrightarrow>
     h = x \<and> (\<exists>a. load_anchor H R db x = Some a \<and> ancestry H R db (ah_parent_anchor (a_header a)) xs)"

text \<open>The anchors that compete for the tip, with their metadata, and the order that decides.\<close>

definition tip_candidate ::
  "hash_fn \<Rightarrow> 'db rocks \<Rightarrow> 'db \<Rightarrow> (bytes \<times> anchor_meta) option \<Rightarrow> bytes \<Rightarrow> anchor_meta \<Rightarrow> bool" where
  "tip_candidate H R db extra h m \<longleftrightarrow>
     load_anchor H R db h \<noteq> None \<and> candidate_meta H R db extra h = Inr (Some m)"

definition better :: "bytes \<times> anchor_meta \<Rightarrow> bytes \<times> anchor_meta \<Rightarrow> bool" where
  "better x y \<longleftrightarrow> (am_cumulative_work (snd y), am_height (snd y)) < (am_cumulative_work (snd x), am_height (snd x)) \<or>
     (am_cumulative_work (snd y), am_height (snd y)) = (am_cumulative_work (snd x), am_height (snd x)) \<and> fst x < fst y"

definition competitor ::
  "hash_fn \<Rightarrow> 'db rocks \<Rightarrow> 'db \<Rightarrow> (bytes \<times> anchor_meta) option \<Rightarrow> bytes \<Rightarrow> anchor_meta \<Rightarrow> bool" where
  "competitor H R db extra h m \<longleftrightarrow> tip_candidate H R db extra h m \<or> extra = Some (h, m)"

text \<open>The block that the DAG holds for a stored fruit, and the state of \<open>add_fruit\<close>.\<close>

definition dag_built ::
  "(bytes, fruit) dict \<Rightarrow> (fruit \<Rightarrow> bytes list option) \<Rightarrow> block_dag \<times> bytes set \<Rightarrow> bool" where
  "dag_built fruits parents_of st \<longleftrightarrow> dag_ok (fst st) \<and> known (fst st) = snd st \<and>
     (\<forall>h b. dict_get (dag_blocks (fst st)) h = Some b \<longrightarrow> (\<exists>f ps. dict_get fruits h = Some f \<and> parents_of f = Some ps \<and>
        b = \<lparr>fb_fruit_hash = h, fb_parents = ps, fb_timestamp_ms = fh_timestamp_ms (f_header f), fb_work = 1\<rparr>))"

text \<open>A store with a genesis anchor and one fruit on it, for the witnesses.\<close>

definition tip_id :: bytes where "tip_id = replicate 32 1"
definition leaf_id :: bytes where "leaf_id = replicate 32 2"

definition genesis_bytes :: bytes where
  "genesis_bytes = (case serialize_anchor example_genesis_anchor of Inl _ \<Rightarrow> [] | Inr bs \<Rightarrow> bs)"

definition stored_fruit :: fruit where
  "stored_fruit = example_block_fruit\<lparr>f_header := (f_header example_block_fruit)\<lparr>fh_parent_bitmap := [], fh_latest_anchor := tip_id\<rparr>\<rparr>"

definition stored_meta :: anchor_meta where
  "stored_meta = \<lparr>am_height = 0, am_target = zero_bytes 32, am_cumulative_work = 1\<rparr>"

definition stored_db :: "storage_column \<Rightarrow> (bytes \<times> bytes) list" where
  "stored_db c =
     (if c = COLUMN_BODIES then [(tip_id, genesis_bytes), (leaf_id, serialize_fruit stored_fruit)]
      else if c = COLUMN_DAG then [(anchor_meta_key tip_id, le_bytes 8 0 @ zero_bytes 32 @ le_bytes 32 1)]
      else [])"

section \<open>Lemmas\<close>

lemma attempt_Some [simp]: "attempt m = Some x \<longleftrightarrow> m = Inr x"
  by (auto simp: attempt_def split: sum.splits)

lemma attempt_Inr [simp]: "attempt (Inr x) = Some x"
  by simp

lemma attempt_None: "attempt m = None \<longleftrightarrow> (\<exists>e. m = Inl e)"
  by (auto simp: attempt_def split: sum.splits)

lemma obnd_simps [simp]: "obnd (Inl e) f = Inl e" "obnd (Inr None) f = Inr None" "obnd (Inr (Some x)) f = f x"
  by (simp_all add: obnd_def)

lemma obnd_Some: "obnd m f = Inr (Some y) \<longleftrightarrow> (\<exists>x. m = Inr (Some x) \<and> f x = Inr (Some y))"
  by (auto simp: obnd_def bnd_Inr_iff split: option.splits)

lemma load_anchor_Some:
  "load_anchor H R db h = Some a \<longleftrightarrow> h \<noteq> GENESIS_PARENT_HASH \<and> length h = HASH_LEN_BYTES \<and>
     (\<exists>bs. rk_get R db COLUMN_BODIES h = Some bs \<and> deserialize_anchor H bs = Inr a)"
  by (auto simp: load_anchor_def get_body_bytes_def bnd_require_hash_len st_get_eq hash_nonempty attempt_def
      split: option.splits sum.splits)

lemma load_fruit_Some:
  "load_fruit H R db h = Some f \<longleftrightarrow> h \<noteq> GENESIS_PARENT_HASH \<and> length h = HASH_LEN_BYTES \<and>
     (\<exists>bs. rk_get R db COLUMN_BODIES h = Some bs \<and> deserialize_fruit H bs = Inr f)"
  by (auto simp: load_fruit_def get_body_bytes_def bnd_require_hash_len st_get_eq hash_nonempty attempt_def
      split: option.splits sum.splits)

lemma in_items:
  assumes "rocks_ok R"
  shows "k \<in> set (map fst (st_items R db c)) \<longleftrightarrow> rk_get R db c k \<noteq> None"
  unfolding st_items_def set_map rocks_okD(3) [OF assms, of db c, symmetric] map_of_eq_None_iff by blast

subsection \<open>Anchor chains\<close>

lemma ancestry_unique: "ancestry H R db h xs \<Longrightarrow> ancestry H R db h ys \<Longrightarrow> xs = ys"
proof (induction xs arbitrary: h ys)
  case Nil
  then show ?case by (cases ys) (auto simp: load_anchor_Some)
next
  case (Cons x xs)
  then show ?case by (cases ys) (auto simp: load_anchor_Some)
qed

lemma ancestry_append: "ancestry H R db h (xs @ y # ys) \<Longrightarrow> ancestry H R db y (y # ys)"
  by (induction xs arbitrary: h) auto

lemma ancestry_distinct: "ancestry H R db h xs \<Longrightarrow> distinct xs"
proof (rule ccontr)
  assume a: "ancestry H R db h xs" "\<not> distinct xs"
  then obtain as y bs cs where xs: "xs = as @ y # bs @ y # cs" using not_distinct_decomp [of xs] by auto
  have "ancestry H R db y (y # bs @ y # cs)" using a(1) unfolding xs by (rule ancestry_append)
  moreover have "ancestry H R db y (y # cs)" using a(1) ancestry_append [of H R db h "as @ y # bs" y cs] unfolding xs by simp
  ultimately show False using ancestry_unique by fastforce
qed

lemma ancestry_length:
  assumes "rocks_ok R" "ancestry H R db h xs"
  shows "length xs \<le> length (st_items R db COLUMN_BODIES)"
proof -
  have "set xs \<subseteq> set (map fst (st_items R db COLUMN_BODIES))"
    using assms(2)
  proof (induction xs arbitrary: h)
    case (Cons x xs)
    then show ?case using in_items [OF assms(1), of x db COLUMN_BODIES] by (auto simp: load_anchor_Some)
  qed simp
  then have "card (set xs) \<le> card (set (map fst (st_items R db COLUMN_BODIES)))" by (intro card_mono) auto
  also have "\<dots> \<le> length (st_items R db COLUMN_BODIES)" using card_length [of "map fst (st_items R db COLUMN_BODIES)"] by simp
  finally show ?thesis using distinct_card [OF ancestry_distinct [OF assms(2)]] by simp
qed

text \<open>The loops return: every turn but the last adds a stored block to \<open>seen\<close>.\<close>

lemma unseen_decreases:
  assumes "rocks_ok R" "load_anchor H R db h = Some a" "h \<notin> seen"
  shows "card (set (map fst (st_items R db COLUMN_BODIES)) - insert h seen) < card (set (map fst (st_items R db COLUMN_BODIES)) - seen)"
proof (rule psubset_card_mono)
  have "h \<in> set (map fst (st_items R db COLUMN_BODIES))" using in_items [OF assms(1), of h db COLUMN_BODIES] assms(2) by (auto simp: load_anchor_Some)
  then show "set (map fst (st_items R db COLUMN_BODIES)) - insert h seen \<subset> set (map fst (st_items R db COLUMN_BODIES)) - seen"
    using assms(3) by blast
qed simp

lemma chain_walk_returns:
  assumes "rocks_ok R"
  shows "\<exists>r. chain_walk H R db h seen chain = Some r"
proof (induction "card (set (map fst (st_items R db COLUMN_BODIES)) - seen)" arbitrary: h seen chain rule: less_induct)
  case less
  show ?case
  proof (cases "h = GENESIS_PARENT_HASH \<or> h \<in> seen \<or> load_anchor H R db h = None")
    case True
    then show ?thesis by (subst chain_walk.simps) auto
  next
    case False
    then obtain a where a: "load_anchor H R db h = Some a" "h \<noteq> GENESIS_PARENT_HASH" "h \<notin> seen" by auto
    have "\<exists>r. chain_walk H R db (ah_parent_anchor (a_header a)) (insert h seen) (chain @ [h]) = Some r"
      by (rule less.hyps [OF unseen_decreases [OF assms a(1,3)]])
    then show ?thesis using a by (subst chain_walk.simps) simp
  qed
qed

lemma history_walk_returns:
  assumes "rocks_ok R"
  shows "\<exists>r. history_walk H R db limit h seen chain = Some r"
proof (induction "card (set (map fst (st_items R db COLUMN_BODIES)) - seen)" arbitrary: h seen chain rule: less_induct)
  case less
  show ?case
  proof (cases "h = GENESIS_PARENT_HASH \<or> h \<in> seen \<or> load_anchor H R db h = None")
    case True
    then show ?thesis by (subst history_walk.simps) auto
  next
    case False
    then obtain a where a: "load_anchor H R db h = Some a" "h \<noteq> GENESIS_PARENT_HASH" "h \<notin> seen" by auto
    have "\<exists>r. history_walk H R db limit (ah_parent_anchor (a_header a)) (insert h seen) (chain @ [(h, a)]) = Some r"
      by (rule less.hyps [OF unseen_decreases [OF assms a(1,3)]])
    then show ?thesis using a by (subst history_walk.simps) simp
  qed
qed

lemma chain_walk_sound:
  assumes "rocks_ok R"
  shows "chain_walk H R db h seen chain = Some (Some res) \<Longrightarrow> \<exists>hs. res = chain @ hs \<and> ancestry H R db h hs"
proof (induction "card (set (map fst (st_items R db COLUMN_BODIES)) - seen)" arbitrary: h seen chain rule: less_induct)
  case less
  note step = less.prems [unfolded chain_walk.simps [of H R db h]]
  show ?case
  proof (cases "h = GENESIS_PARENT_HASH")
    case True
    then show ?thesis using step by (intro exI [of _ "[]"]) simp
  next
    case False
    then obtain a where a: "h \<notin> seen" "load_anchor H R db h = Some a"
      "chain_walk H R db (ah_parent_anchor (a_header a)) (insert h seen) (chain @ [h]) = Some (Some res)"
      using step by (auto split: if_splits option.splits)
    from less.hyps [OF unseen_decreases [OF assms a(2,1)] a(3)]
    obtain hs where "res = (chain @ [h]) @ hs" "ancestry H R db (ah_parent_anchor (a_header a)) hs" by blast
    then show ?thesis using a(2) by (intro exI [of _ "h # hs"]) auto
  qed
qed

lemma chain_walk_complete:
  "ancestry H R db h hs \<Longrightarrow> set hs \<inter> seen = {} \<Longrightarrow> chain_walk H R db h seen chain = Some (Some (chain @ hs))"
proof (induction hs arbitrary: h seen chain)
  case Nil
  then show ?case by (subst chain_walk.simps) simp
next
  case (Cons x xs)
  obtain a where a: "load_anchor H R db x = Some a" "ancestry H R db (ah_parent_anchor (a_header a)) xs" "h = x"
    using Cons.prems(1) by auto
  have "x \<notin> set xs" using ancestry_distinct [OF Cons.prems(1)] by simp
  moreover have "x \<noteq> GENESIS_PARENT_HASH" using a(1) by (auto simp: load_anchor_Some)
  ultimately show ?case
    using Cons.IH [OF a(2), of "insert x seen" "chain @ [x]"] Cons.prems a by (subst chain_walk.simps) auto
qed

lemma anchor_chain_iff:
  assumes "rocks_ok R"
  shows "anchor_chain_hashes H R db tip = Some hs \<longleftrightarrow> ancestry H R db tip (rev hs)"
proof
  assume h: "anchor_chain_hashes H R db tip = Some hs"
  show "ancestry H R db tip (rev hs)"
  proof (cases "tip = GENESIS_PARENT_HASH")
    case False
    obtain r where r: "chain_walk H R db tip {} [] = Some r" using chain_walk_returns [OF assms] by blast
    then have "r = Some (rev hs)" using h False by (auto simp: anchor_chain_hashes_def)
    then show ?thesis using chain_walk_sound [OF assms, of H db tip "{}" "[]"] r by auto
  qed (use h in \<open>simp add: anchor_chain_hashes_def\<close>)
next
  assume a: "ancestry H R db tip (rev hs)"
  show "anchor_chain_hashes H R db tip = Some hs"
  proof (cases "tip = GENESIS_PARENT_HASH")
    case True
    then show ?thesis using a by (cases "rev hs") (auto simp: anchor_chain_hashes_def load_anchor_Some)
  next
    case False
    then show ?thesis using chain_walk_complete [OF a, of "{}" "[]"] by (simp add: anchor_chain_hashes_def)
  qed
qed

subsection \<open>The best tip\<close>

lemma is_better_eq:
  "is_better_anchor_tip h m best \<longleftrightarrow> (case best of None \<Rightarrow> True | Some b \<Rightarrow> better (h, m) b)"
  by (auto simp: is_better_anchor_tip_def better_def less_prod_def split: option.splits prod.splits)

lemma better_trans: "better x y \<Longrightarrow> better y z \<Longrightarrow> better x z"
  by (auto simp: better_def)

lemma better_total: "fst x \<noteq> fst y \<Longrightarrow> better x y \<or> better y x"
  by (auto simp: better_def)

lemma better_irrefl: "\<not> better x x"
  by (simp add: better_def)

text \<open>\<open>at_least r x\<close>: the best entry \<open>r\<close> is \<open>x\<close> or better.\<close>

definition at_least :: "(bytes \<times> anchor_meta) option \<Rightarrow> bytes \<times> anchor_meta \<Rightarrow> bool" where
  "at_least r x \<longleftrightarrow> (\<exists>y. r = Some y \<and> (y = x \<or> better y x))"

lemma at_least_Some: "at_least (Some y) x \<longleftrightarrow> y = x \<or> better y x"
  by (simp only: at_least_def option.inject simp_thms)

lemma at_least_pick:
  fixes h m best
  defines "next \<equiv> if is_better_anchor_tip h m best then Some (h, m) else best"
  assumes "\<forall>b. best = Some b \<longrightarrow> fst b = h \<longrightarrow> b = (h, m)"
  shows "at_least next (h, m)" "best = Some b \<Longrightarrow> at_least next b"
proof -
  show "at_least next (h, m)"
  proof (cases best)
    case (Some b)
    consider "b = (h, m)" | "better b (h, m)" | "better (h, m) b"
      using assms(2) Some better_total [of b "(h, m)"] by fastforce
    then show ?thesis using Some by cases (auto simp: next_def at_least_Some is_better_eq)
  qed (simp add: next_def at_least_def is_better_eq)
  show "best = Some b \<Longrightarrow> at_least next b"
    by (simp add: next_def at_least_Some is_better_eq)
qed

lemma at_least_trans: "at_least (Some y) x \<Longrightarrow> at_least r y \<Longrightarrow> at_least r x"
  by (auto simp: at_least_def intro: better_trans)

lemma best_loop_spec:
  assumes "best_loop H R db extra hs best = Inr r" "\<And>b. best = Some b \<Longrightarrow> tip_candidate H R db extra (fst b) (snd b)"
  shows "(\<forall>b. r = Some b \<longrightarrow> tip_candidate H R db extra (fst b) (snd b) \<and> (best = Some b \<or> fst b \<in> set hs)) \<and>
    (\<forall>b. best = Some b \<longrightarrow> at_least r b) \<and>
    (\<forall>h m. h \<in> set hs \<longrightarrow> tip_candidate H R db extra h m \<longrightarrow> at_least r (h, m))"
  using assms
proof (induction hs arbitrary: best)
  case Nil
  then show ?case by (auto simp: at_least_def)
next
  case (Cons x xs)
  have unique: "m = m'" if "tip_candidate H R db extra h m" "tip_candidate H R db extra h m'" for h m m'
    using that by (auto simp: tip_candidate_def split: option.splits if_splits)
  show ?case
  proof (cases "\<exists>m. tip_candidate H R db extra x m")
    case False
    then have "best_loop H R db extra xs best = Inr r"
      using Cons.prems(1) by (auto simp: tip_candidate_def bnd_Inr_iff split: option.splits if_splits)
    from Cons.IH [OF this Cons.prems(2)] show ?thesis using False by auto
  next
    case True
    then obtain m where m: "tip_candidate H R db extra x m" by blast
    define b' where "b' = (if is_better_anchor_tip x m best then Some (x, m) else best)"
    have step: "best_loop H R db extra xs b' = Inr r"
      using Cons.prems(1) m by (auto simp: b'_def tip_candidate_def bnd_Inr_iff split: option.splits if_splits)
    have same: "\<forall>b. best = Some b \<longrightarrow> fst b = x \<longrightarrow> b = (x, m)"
      using unique [OF _ m] Cons.prems(2) by fastforce
    have b': "tip_candidate H R db extra (fst b) (snd b)" if "b' = Some b" for b
      using that m Cons.prems(2) by (auto simp: b'_def split: if_splits)
    note IH = Cons.IH [OF step b']
    note pick = at_least_pick [where best = best and h = x and m = m, OF same, folded b'_def]
    have up: "at_least r y" if y: "at_least b' y" for y
    proof -
      obtain z where z: "b' = Some z" using y by (auto simp: at_least_def)
      then show ?thesis using at_least_trans [of z y r] y IH by auto
    qed
    have "b = (x, m) \<or> best = Some b" if "b' = Some b" for b using that by (auto simp: b'_def split: if_splits)
    then show ?thesis
      using IH up [OF pick(1)] up [OF pick(2)] unique [OF _ m] by (fastforce simp del: best_loop.simps)
  qed
qed

lemma candidate_stored: "rocks_ok R \<Longrightarrow> tip_candidate H R db extra h m \<Longrightarrow> h \<in> set (map fst (st_items R db COLUMN_BODIES))"
  unfolding in_items by (auto simp: tip_candidate_def load_anchor_Some)

lemma competitor_unique: "competitor H R db extra h m \<Longrightarrow> competitor H R db extra h m' \<Longrightarrow> m = m'"
  by (auto simp: competitor_def tip_candidate_def candidate_meta_def split: option.splits if_splits)

lemma best_anchor_tip_spec:
  assumes "rocks_ok R" "best_anchor_tip H R db extra = Inr r"
  shows "case r of None \<Rightarrow> \<forall>h m. \<not> competitor H R db extra h m
    | Some t \<Rightarrow> \<exists>m. competitor H R db extra t m \<and> (\<forall>h m'. competitor H R db extra h m' \<longrightarrow> h = t \<or> better (t, m) (h, m'))"
proof -
  obtain best where best: "best_loop H R db extra (map fst (st_items R db COLUMN_BODIES)) None = Inr best"
    and r: "r = (case extra of Some (h, m) \<Rightarrow> if is_better_anchor_tip h m best then Some h else map_option fst best
      | None \<Rightarrow> map_option fst best)"
    using assms(2) by (auto simp: best_anchor_tip_def bnd_Inr_iff)
  define fin where "fin = (case extra of Some (h, m) \<Rightarrow> if is_better_anchor_tip h m best then Some (h, m) else best | None \<Rightarrow> best)"
  have r': "r = map_option fst fin" by (auto simp: r fin_def split: option.splits)
  have spec: "(\<forall>b. best = Some b \<longrightarrow> tip_candidate H R db extra (fst b) (snd b)) \<and>
      (\<forall>h m. tip_candidate H R db extra h m \<longrightarrow> at_least best (h, m))"
    using best_loop_spec [OF best] candidate_stored [OF assms(1)] by auto
  have src: "competitor H R db extra (fst b) (snd b)" if "fin = Some b" for b
    using that spec by (auto simp: fin_def competitor_def split: option.splits if_splits)
  have top: "at_least fin (h, m)" if c: "competitor H R db extra h m" for h m
  proof (cases extra)
    case None
    then show ?thesis using c spec by (auto simp: fin_def competitor_def)
  next
    case (Some e)
    have e: "competitor H R db extra (fst e) (snd e)" by (simp add: competitor_def Some)
    have same: "\<forall>b. best = Some b \<longrightarrow> fst b = fst e \<longrightarrow> b = (fst e, snd e)"
      using competitor_unique [OF _ e] spec by (fastforce simp: competitor_def)
    have fin: "fin = (if is_better_anchor_tip (fst e) (snd e) best then Some (fst e, snd e) else best)"
      by (simp add: fin_def Some split: prod.splits)
    note pick = at_least_pick [where best = best and h = "fst e" and m = "snd e", OF same, folded fin]
    show ?thesis
    proof (cases "extra = Some (h, m)")
      case True
      then show ?thesis using pick(1) Some by simp
    next
      case False
      then have "at_least best (h, m)" using c spec by (simp add: competitor_def)
      then obtain b where b: "best = Some b" "at_least (Some b) (h, m)" by (cases best) (auto simp: at_least_def)
      then show ?thesis using at_least_trans [OF b(2) pick(2)] by simp
    qed
  qed
  show ?thesis
  proof (cases fin)
    case None
    then show ?thesis using top by (auto simp: r' at_least_def)
  next
    case (Some b)
    have "h = fst b \<or> better (fst b, snd b) (h, m)" if "competitor H R db extra h m" for h m
      using top [OF that] Some by (auto simp: at_least_Some)
    then have "competitor H R db extra (fst b) (snd b) \<and>
        (\<forall>h m'. competitor H R db extra h m' \<longrightarrow> h = fst b \<or> better (fst b, snd b) (h, m'))"
      using src [OF Some] by blast
    then show ?thesis unfolding r' Some option.map option.case by blast
  qed
qed

subsection \<open>The DAG of stored fruits\<close>

lemma dag_built_add:
  assumes "dag_built fruits parents_of (dag, visited)" "dict_get fruits h = Some f" "parents_of f = Some ps"
    "add_fruit dag h ps (fh_timestamp_ms (f_header f)) 1 = Inr (b, dag')"
  shows "dag_built fruits parents_of (dag', insert h visited)"
proof -
  have b: "b = \<lparr>fb_fruit_hash = h, fb_parents = ps, fb_timestamp_ms = fh_timestamp_ms (f_header f), fb_work = 1\<rparr>" "block_ok b"
    "add_block dag b = Inr dag'"
    using assms(4) by (auto simp: add_fruit_def bnd_Inr_iff FruitBlock_Inr_iff)
  have ok: "dag_ok dag" using assms(1) by (simp add: dag_built_def)
  note add = add_block_ok [OF ok b(2,3)]
  have "dag_blocks dag' = dict_set h b (dag_blocks dag)" using add(2) b(1) by simp
  then show ?thesis
    using assms(1-3) add(1) b(1) unfolding dag_built_def known_def
    by (auto simp: update_conv' split: if_splits)
qed

lemma build_all_built:
  "build_all fruits parents_of hs visiting st = Some st' \<Longrightarrow> dag_built fruits parents_of st \<Longrightarrow>
   dag_built fruits parents_of st' \<and> snd st \<union> set hs \<subseteq> snd st'"
proof (induction fruits parents_of hs visiting st arbitrary: st' rule: build_all.induct)
  case (1 fruits parents_of visiting st)
  then show ?case by simp
next
  case (2 fruits parents_of h rest visiting st)
  show ?case
  proof (cases "h \<in> snd st")
    case True
    then have "build_all fruits parents_of rest visiting st = Some st'" using 2(3) by simp
    then have "dag_built fruits parents_of st' \<and> snd st \<union> set rest \<subseteq> snd st'"
      using 2(2) [of st st'] 2(4) True by simp
    then show ?thesis using True by auto
  next
    case False
    then obtain f ps dag visited b dag' where
      step: "h \<notin> visiting" "dict_get fruits h = Some f" "parents_of f = Some ps"
        "build_all fruits parents_of ps (insert h visiting) st = Some (dag, visited)"
        "add_fruit dag h ps (fh_timestamp_ms (f_header f)) 1 = Inr (b, dag')"
        "build_all fruits parents_of rest visiting (dag', insert h visited) = Some st'"
      using 2(3) by (auto simp: bind_eq_Some_conv split: if_splits option.splits)
    have first: "dag_built fruits parents_of (dag, visited)" "snd st \<subseteq> visited"
      using 2(1) [OF False step(1-4) 2(4)] by auto
    have "dag_built fruits parents_of (dag', insert h visited)"
      using dag_built_add [OF first(1) step(2,3,5)] .
    then have "dag_built fruits parents_of st' \<and> insert h visited \<union> set rest \<subseteq> snd st'"
      using 2(2) [OF _ step(6)] False step(1-5) by (simp add: attempt_def)
    then show ?thesis using first(2) by auto
  qed
qed

lemma stored_fruit_iff:
  "rocks_ok R \<Longrightarrow> load_fruit H R db h \<noteq> None \<longleftrightarrow> h \<in> set (stored_fruit_hashes H R db)"
  using in_items [of R h db COLUMN_BODIES] by (auto simp: stored_fruit_hashes_def load_fruit_Some simp del: set_map)

lemma map_of_keys: "map_of (map (\<lambda>h. (h, f h)) hs) h = (if h \<in> set hs then Some (f h) else None)"
  by (induction hs) auto

lemma fruit_dag_built:
  assumes "rocks_ok R" "fruit_dag H R db = Some dag"
  shows "dag_ok dag" "known dag = {h. load_fruit H R db h \<noteq> None}"
    "dict_get (dag_blocks dag) h = Some b \<Longrightarrow> \<exists>f ps. load_fruit H R db h = Some f \<and> fruit_parents_for_dag H R db f = Some ps \<and>
       b = \<lparr>fb_fruit_hash = h, fb_parents = ps, fb_timestamp_ms = fh_timestamp_ms (f_header f), fb_work = 1\<rparr>"
proof -
  let ?hs = "stored_fruit_hashes H R db"
  define fruits where "fruits = map (\<lambda>h. (h, the (load_fruit H R db h))) ?hs"
  define ordered where "ordered = map snd (sort (map (\<lambda>(h, f). (fh_timestamp_ms (f_header f), h)) fruits))"
  obtain visited where b: "build_all fruits (fruit_parents_for_dag H R db) ordered {} (empty_dag, {}) = Some (dag, visited)"
    using assms(2) by (auto simp: fruit_dag_def Let_def fruits_def ordered_def)
  have "dag_built fruits (fruit_parents_for_dag H R db) (empty_dag, {})"
    using dag_ok_empty by (simp add: dag_built_def known_def) (simp add: empty_dag_def)
  from build_all_built [OF b this] have built: "dag_built fruits (fruit_parents_for_dag H R db) (dag, visited)"
    and all: "set ordered \<subseteq> visited" by auto
  have get: "dict_get fruits h = load_fruit H R db h" for h
    using stored_fruit_iff [OF assms(1), of H db h] by (auto simp: fruits_def map_of_keys)
  show "dag_ok dag" using built by (simp add: dag_built_def)
  show entry: "\<exists>f ps. load_fruit H R db h = Some f \<and> fruit_parents_for_dag H R db f = Some ps \<and>
      b = \<lparr>fb_fruit_hash = h, fb_parents = ps, fb_timestamp_ms = fh_timestamp_ms (f_header f), fb_work = 1\<rparr>"
    if "dict_get (dag_blocks dag) h = Some b" for h b
    using built that unfolding dag_built_def get by simp
  have "set ordered = set ?hs" by (auto simp: ordered_def fruits_def image_image)
  then have "{h. load_fruit H R db h \<noteq> None} \<subseteq> known dag"
    using built all stored_fruit_iff [OF assms(1), of H db] by (auto simp: dag_built_def)
  moreover have "known dag \<subseteq> {h. load_fruit H R db h \<noteq> None}" using entry by (fastforce simp: known_def)
  ultimately show "known dag = {h. load_fruit H R db h \<noteq> None}" by blast
qed

lemma fruit_dag_metadata:
  assumes "rocks_ok R" "fruit_dag H R db = Some dag" "0 \<le> k"
  obtains m dag' where "ghostdag_metadata dag k = Inr (m, dag')" "dag_blocks dag' = dag_blocks dag"
    "dom (dict_get m) = known dag" "\<And>x g. dict_get m x = Some g \<Longrightarrow> data_ok dag k m x g"
proof -
  note ok = fruit_dag_built(1) [OF assms(1,2)]
  obtain m dag' c where m: "ghostdag_metadata dag k = Inr (m, dag')" "fresh_metadata dag k = Inr m"
    "dag' = dag\<lparr>dag_metadata_cache := c\<rparr>"
    using ghostdag_metadata_eq [OF ok assms(3)] by blast
  then show ?thesis using fresh_metadata_ok [OF ok, of k] by (intro that [OF m(1)]) simp_all
qed

lemma fruit_dag_length:
  assumes "rocks_ok R" "fruit_dag H R db = Some dag"
  shows "length (dag_blocks dag) \<le> length (st_items R db COLUMN_BODIES)"
proof -
  note built = fruit_dag_built [OF assms]
  have "dict_ok (dag_blocks dag)" using built(1) by (simp add: dag_ok_def blocks_ok_def)
  then have "length (dag_blocks dag) = card (known dag)"
    by (metis distinct_card dom_map_of_conv_image_fst known_def length_map list.set_map)
  also have "\<dots> \<le> card (set (map fst (st_items R db COLUMN_BODIES)))"
    unfolding built(2) using in_items [OF assms(1), of _ db COLUMN_BODIES]
    by (intro card_mono) (auto simp: load_fruit_Some simp del: set_map)
  also have "\<dots> \<le> length (st_items R db COLUMN_BODIES)" using card_length [of "map fst (st_items R db COLUMN_BODIES)"] by simp
  finally show ?thesis .
qed

lemma covered_order_spec:
  assumes R: "rocks_ok R" and few: "int (length (st_items R db COLUMN_BODIES)) < U64_MAX" and dag: "fruit_dag H R db = Some dag"
    and cov: "set (a_covered_fruit_hashes a) \<subseteq> {h. load_fruit H R db h \<noteq> None}"
  shows "\<exists>order. canonical_covered_fruit_order H R db a = Inr (Some order) \<and> set order = set (a_covered_fruit_hashes a) \<and>
    distinct order \<and> sorted_wrt (\<lambda>x y. y \<notin> past dag x) order"
proof -
  note built = fruit_dag_built [OF R dag]
  let ?c = "set (a_covered_fruit_hashes a)"
  obtain m dag' where m: "ghostdag_metadata dag ghostdag_k = Inr (m, dag')" "dag_blocks dag' = dag_blocks dag"
    "dom (dict_get m) = known dag" "\<And>x g. dict_get m x = Some g \<Longrightarrow> data_ok dag ghostdag_k m x g"
    by (rule fruit_dag_metadata [OF R dag, of ghostdag_k]) (auto simp: ghostdag_k_def DYNAMIC_K_MIN_def)
  let ?f = "\<lambda>x. gd_blue_score (the (dict_get m x))" and ?g = "\<lambda>x. fb_timestamp_ms (the (dict_get (dag_blocks dag) x))"
  have known: "?c \<subseteq> known dag" using cov built(2) by simp
  have "x \<in> known dag \<Longrightarrow> \<exists>g b. dict_get m x = Some g \<and> dict_get (dag_blocks dag) x = Some b \<and> length x = HASH_LEN_BYTES" for x
    using m(3) built(1) blocks_okD(3) by (auto simp: known_def dag_ok_def)
  then have "each (\<lambda>x. bnd (lookup m x) (\<lambda>g. bnd (get_block dag' x) (\<lambda>b. Inr (gd_blue_score g, fb_timestamp_ms b, x))))
      (sorted_list_of_set ?c) = Inr (map (\<lambda>x. (?f x, ?g x, x)) (sorted_list_of_set ?c))"
    using known by (intro each_Inr_all) (fastforce simp: get_block_def m(2) bnd_require_hash_len lookup_def)
  moreover have "set (map fst m) = known dag" using m(3) by (simp add: dom_map_of_conv_image_fst)
  ultimately have res: "canonical_covered_fruit_order H R db a =
      Inr (Some (map (\<lambda>(_, _, h). h) (sort (map (\<lambda>x. (?f x, ?g x, x)) (sorted_list_of_set ?c)))))"
    using known by (simp add: canonical_covered_fruit_order_def dag m(1) Let_def)
  have work: "fb_work b = 1" if "dict_get (dag_blocks dag) x = Some b" for x b using built(3) [OF that] by auto
  have "sorted_wrt (\<lambda>x y. y \<notin> past dag x) (map (\<lambda>(_, _, h). h) (sort (map (\<lambda>x. (?f x, ?g x, x)) (sorted_list_of_set ?c))))"
  proof (rule sorted_keys_order)
    fix x y assume "y \<in> past dag x"
    then show "?f y < ?f x"
      using score_grows [OF built(1) work _ m(3,4)] fruit_dag_length [OF R dag] few by (auto simp: past_def)
  qed simp
  then show ?thesis using res by (simp add: distinct_keyed_sort image_image)
qed

subsection \<open>Metadata\<close>

lemma from_le_bytes8: "0 \<le> v \<Longrightarrow> v \<le> U64_MAX \<Longrightarrow> from_le (le_bytes 8 v) = v"
  by (rule from_le_bytes) (simp_all add: U64_MAX_def)

lemma fruit_meta_roundtrip: "encode_fruit_meta m = Inr bs \<Longrightarrow> decode_fruit_meta (Some bs) = Some m"
  by (cases m) (auto simp: encode_fruit_meta_def decode_fruit_meta_def node_u64_def bnd_Inr_iff FRUIT_META_BYTES_def from_le_bytes8)

lemma anchor_meta_roundtrip: "encode_anchor_meta m = Inr bs \<Longrightarrow> decode_anchor_meta (Some bs) = Some m"
  by (cases m) (auto simp: encode_anchor_meta_def decode_anchor_meta_def node_u64_def node_u256_def bnd_Inr_iff ANCHOR_META_BYTES_def
      from_le_bytes8 slice_def HASH_LEN_BYTES_def push_bit_eq_mult intro!: from_le_bytes)

subsection \<open>An example\<close>

lemma genesis_bytes: "serialize_anchor example_genesis_anchor = Inr genesis_bytes"
proof -
  have "is_ok (serialize_anchor example_genesis_anchor)"
    unfolding serialize_anchor_total [OF example_genesis_ok] by (simp add: example_genesis_anchor_def Let_def)
  then show ?thesis by (auto simp: genesis_bytes_def is_ok_iff)
qed

lemma genesis_decodes: "deserialize_anchor pad_hash genesis_bytes = Inr example_genesis_anchor"
  by (simp add: deserialize_anchor_Inr example_genesis_ok genesis_bytes)

lemma stored_fruit_ok: "fruit_ok pad_hash stored_fruit"
  using example_block_fruit_ok
  by (simp add: stored_fruit_def fruit_ok_def Fruit_Inr fruit_header_ok_def tip_id_def HASH_LEN_BYTES_def)

lemma anchor_bytes_prefix:
  "serialize_anchor a = Inr bs \<Longrightarrow>
   \<exists>x rest. length x = 2 \<and> bs = x @ le_bytes 2 (ah_version (a_header a)) @ ah_parent_anchor (a_header a) @ rest"
  unfolding serialize_anchor_def serialize_anchor_header_def utxo_widths bnd_Inr_iff
  by (elim exE conjE) (drule sum.inject(2) [THEN iffD1], intro exI, rule conjI [rotated], erule sym [THEN trans],
      simp only: append_assoc, auto simp: to_bytes_def split: if_splits)

lemma genesis_no_fruit: "deserialize_fruit pad_hash genesis_bytes \<noteq> Inr f"
proof
  assume "deserialize_fruit pad_hash genesis_bytes = Inr f"
  then have f: "fruit_header_ok (f_header f)" "genesis_bytes = serialize_fruit f"
    by (auto simp: deserialize_fruit_Inr fruit_ok_def Fruit_Inr)
  have "take 2 (drop 4 (serialize_fruit f)) = le_bytes 2 1"
    using f(1) by (simp add: serialize_fruit_def serialize_fruit_header_def fruit_header_ok_def utxo_widths sig_bit_value)
  moreover obtain x rest where "length x = 2" "genesis_bytes = x @ le_bytes 2 (ah_version (a_header example_genesis_anchor)) @
      ah_parent_anchor (a_header example_genesis_anchor) @ rest"
    using anchor_bytes_prefix [OF genesis_bytes] by blast
  then have x: "genesis_bytes = x @ le_bytes 2 0 @ replicate 32 0 @ rest" "length x = 2"
    by (simp_all add: example_genesis_anchor_def Let_def zero_bytes_def)
  have "take 2 (drop 4 genesis_bytes) = replicate 2 0" unfolding x(1) using x(2) by (simp add: numeral_eq_Suc)
  ultimately show False unfolding f(2) [symmetric] by (simp add: numeral_2_eq_2)
qed

lemma example_get: "rk_get example_rocks stored_db c k = map_of (stored_db c) k"
  by (simp add: example_rocks_def)

lemma example_ids: "tip_id \<noteq> GENESIS_PARENT_HASH" "leaf_id \<noteq> GENESIS_PARENT_HASH" "tip_id \<noteq> leaf_id"
  "length tip_id = HASH_LEN_BYTES" "length leaf_id = HASH_LEN_BYTES"
  by (simp_all add: tip_id_def leaf_id_def GENESIS_PARENT_HASH_def zero_bytes_def HASH_LEN_BYTES_def replicate_eq_replicate)

lemma load_tip: "load_anchor pad_hash example_rocks stored_db tip_id = Some example_genesis_anchor"
  using example_ids genesis_decodes by (simp add: load_anchor_Some example_get stored_db_def)

lemma load_leaf: "load_fruit pad_hash example_rocks stored_db h = (if h = leaf_id then Some stored_fruit else None)"
proof (cases "h = leaf_id")
  case True
  then show ?thesis using example_ids stored_fruit_ok
    by (simp add: load_fruit_Some example_get stored_db_def deserialize_fruit_Inr)
next
  case False
  have "load_fruit pad_hash example_rocks stored_db h \<noteq> Some f" for f
    using False genesis_no_fruit [of f] by (auto simp: load_fruit_Some example_get stored_db_def)
  then show ?thesis using False by auto
qed

lemma tip_meta: "anchor_meta_of pad_hash example_rocks stored_db tip_id = Inr (Some stored_meta)"
proof -
  have "encode_anchor_meta stored_meta = Inr (le_bytes 8 0 @ zero_bytes 32 @ le_bytes 32 1)"
    by (simp add: encode_anchor_meta_def stored_meta_def node_u64_def node_u256_def zero_bytes_def HASH_LEN_BYTES_def U64_MAX_def push_bit_eq_mult)
  then show ?thesis
    using anchor_meta_roundtrip
    by (simp add: anchor_meta_of_def st_get_eq example_get stored_db_def anchor_meta_key_def ANCHOR_META_PREFIX_def ascii_def)
qed

lemma leaf_parents: "fruit_parents_for_dag pad_hash example_rocks stored_db stored_fruit = Some []"
  by (simp add: fruit_parents_for_dag_def stored_fruit_def load_tip example_genesis_anchor_def Let_def effective_parent_hashes_def
      has_bits_beyond_def example_block_fruit_def example_fruit_header_def GENESIS_PARENT_HASH_def HASH_LEN_BYTES_def)

lemma tip_before_leaf: "tip_id < leaf_id"
  by (simp add: tip_id_def leaf_id_def numeral_eq_Suc)

lemma example_items: "map fst (st_items example_rocks stored_db COLUMN_BODIES) = [tip_id, leaf_id]"
  using tip_before_leaf example_ids(3) [symmetric] by (simp add: st_items_def example_rocks_def stored_db_def less_imp_le)

lemma leaf_hashes: "stored_fruit_hashes pad_hash example_rocks stored_db = [leaf_id]"
  using example_ids by (simp add: stored_fruit_hashes_def example_items load_leaf)

lemma leaf_dag: "\<exists>dag. fruit_dag pad_hash example_rocks stored_db = Some dag"
proof -
  have "fh_timestamp_ms (f_header stored_fruit) = 1"
    by (simp add: stored_fruit_def example_block_fruit_def example_fruit_header_def)
  then have "is_ok (add_fruit empty_dag leaf_id [] (fh_timestamp_ms (f_header stored_fruit)) 1)"
    using example_ids by (simp add: add_fruit_def FruitBlock_def require_hash_tuple_def bnd_require_hash_len bnd_require_uint
        U64_MAX_def add_block_def check_parents_def empty_dag_def ensure_def)
  then show ?thesis by (auto simp: fruit_dag_def leaf_hashes Let_def load_leaf leaf_parents is_ok_iff attempt_def)
qed

lemma example_bodies: "length (st_items example_rocks stored_db COLUMN_BODIES) = 2"
  using arg_cong [OF example_items, of length] by simp

section \<open>Properties\<close>

text \<open>(C38) Walking anchors ends. On every database, even one whose parent links form a cycle, the loops of
  \<open>_anchor_chain_hashes\<close> and \<open>_anchor_history\<close> return. \<open>_anchor_chain_hashes\<close> returns a list of hashes exactly when following
  parent links from the tip, through stored anchors, leads to the genesis; the list is that path from the
  genesis to the tip, and no hash occurs in it twice.\<close>

theorem anchor_chain_hashes_exact:
  assumes "rocks_ok R"
  shows "(\<exists>r. chain_walk H R db tip {} [] = Some r \<and> (tip \<noteq> GENESIS_PARENT_HASH \<longrightarrow> anchor_chain_hashes H R db tip = map_option rev r)) \<and>
    (\<exists>r. history_walk H R db limit tip {} [] = Some r) \<and>
    (anchor_chain_hashes H R db tip = Some hs \<longleftrightarrow> ancestry H R db tip (rev hs)) \<and>
    (anchor_chain_hashes H R db tip = Some hs \<longrightarrow> distinct hs \<and> length hs \<le> length (st_items R db COLUMN_BODIES))"
proof (intro conjI impI)
  obtain r where "chain_walk H R db tip {} [] = Some r" using chain_walk_returns [OF assms] by blast
  then show "\<exists>r. chain_walk H R db tip {} [] = Some r \<and> (tip \<noteq> GENESIS_PARENT_HASH \<longrightarrow> anchor_chain_hashes H R db tip = map_option rev r)"
    by (simp add: anchor_chain_hashes_def)
  show "\<exists>r. history_walk H R db limit tip {} [] = Some r" by (rule history_walk_returns [OF assms])
  show iff: "anchor_chain_hashes H R db tip = Some hs \<longleftrightarrow> ancestry H R db tip (rev hs)" by (rule anchor_chain_iff [OF assms])
  assume "anchor_chain_hashes H R db tip = Some hs"
  then have a: "ancestry H R db tip (rev hs)" using iff by simp
  show "distinct hs" using ancestry_distinct [OF a] by simp
  show "length hs \<le> length (st_items R db COLUMN_BODIES)" using ancestry_length [OF assms a] by simp
qed

theorem anchor_chain_hashes_exact_witness:
  "anchor_chain_hashes pad_hash example_rocks stored_db tip_id = Some [tip_id] \<and> distinct [tip_id] \<and>
   (\<exists>r. chain_walk pad_hash example_rocks stored_db tip_id {} [] = Some r)"
proof -
  have "ancestry pad_hash example_rocks stored_db tip_id (rev [tip_id])"
    by (simp add: load_tip) (simp add: example_genesis_anchor_def Let_def GENESIS_PARENT_HASH_def HASH_LEN_BYTES_def)
  then show ?thesis using anchor_chain_hashes_exact [OF example_rocks_ok, of pad_hash stored_db tip_id None "[tip_id]"] by auto
qed

text \<open>(C39) The best anchor tip: among the stored anchors whose metadata can be found, and the anchor that is about to be
  stored, \<open>_best_anchor_tip\<close> returns one that beats every other in (cumulative work, height, smaller
  hash); it returns \<open>None\<close> only when there is none. The answer does not depend on the order in which
  the store is read, so two nodes with the same blocks choose the same tip.\<close>

theorem best_anchor_tip_is_best:
  assumes "rocks_ok R" "best_anchor_tip H R db extra = Inr r"
  shows "case r of
      None \<Rightarrow> \<forall>h m. \<not> competitor H R db extra h m
    | Some t \<Rightarrow> \<exists>m. competitor H R db extra t m \<and>
        (\<forall>h m'. competitor H R db extra h m' \<longrightarrow> h = t \<or> better (t, m) (h, m'))"
  by (rule best_anchor_tip_spec [OF assms])

theorem best_anchor_tip_is_best_witness:
  "\<exists>m. competitor pad_hash example_rocks stored_db (Some (leaf_id, stored_meta\<lparr>am_height := 1, am_cumulative_work := 2\<rparr>)) leaf_id m \<and>
     better (leaf_id, m) (tip_id, stored_meta)"
proof -
  let ?e = "Some (leaf_id, stored_meta\<lparr>am_height := 1, am_cumulative_work := 2\<rparr>)"
  have tip: "candidate_meta pad_hash example_rocks stored_db ?e tip_id = Inr (Some stored_meta)"
    using example_ids by (simp add: candidate_meta_def tip_meta)
  have leaf: "candidate_meta pad_hash example_rocks stored_db ?e leaf_id = Inr (Some (stored_meta\<lparr>am_height := 1, am_cumulative_work := 2\<rparr>))"
    by (simp add: candidate_meta_def)
  have "best_anchor_tip pad_hash example_rocks stored_db ?e = Inr (Some leaf_id)"
    unfolding best_anchor_tip_def example_items
    by (cases "load_anchor pad_hash example_rocks stored_db leaf_id")
      (simp_all add: load_tip tip leaf is_better_eq better_def, simp_all add: stored_meta_def)
  from best_anchor_tip_is_best [OF example_rocks_ok this]
  obtain m where "competitor pad_hash example_rocks stored_db ?e leaf_id m"
    "\<forall>h m'. competitor pad_hash example_rocks stored_db ?e h m' \<longrightarrow> h = leaf_id \<or> better (leaf_id, m) (h, m')" by auto
  moreover have "competitor pad_hash example_rocks stored_db ?e tip_id stored_meta"
    by (simp add: competitor_def tip_candidate_def load_tip tip)
  ultimately show ?thesis using example_ids by blast
qed

text \<open>(C40) The canonical order of an anchor's fruits: whenever the stored fruits form a DAG and contain all the fruits that
  the anchor covers, \<open>_canonical_covered_fruit_order\<close> succeeds and lists each covered fruit exactly
  once, none of them before one of its ancestors in the DAG. Transactions are applied in that order.\<close>

theorem covered_fruits_in_causal_order:
  assumes "rocks_ok R" "int (length (st_items R db COLUMN_BODIES)) < U64_MAX" "fruit_dag H R db = Some dag"
    and "set (a_covered_fruit_hashes a) \<subseteq> {h. load_fruit H R db h \<noteq> None}"
  shows "\<exists>order. canonical_covered_fruit_order H R db a = Inr (Some order) \<and> set order = set (a_covered_fruit_hashes a) \<and>
    distinct order \<and> sorted_wrt (\<lambda>x y. y \<notin> past dag x) order"
  by (rule covered_order_spec [OF assms])

theorem covered_fruits_in_causal_order_witness:
  "\<exists>order. canonical_covered_fruit_order pad_hash example_rocks stored_db (example_genesis_anchor\<lparr>a_covered_fruit_hashes := [leaf_id]\<rparr>) =
     Inr (Some order) \<and> set order = {leaf_id} \<and> distinct order"
proof -
  obtain dag where dag: "fruit_dag pad_hash example_rocks stored_db = Some dag" using leaf_dag by blast
  show ?thesis
    using covered_fruits_in_causal_order [OF example_rocks_ok _ dag, of "example_genesis_anchor\<lparr>a_covered_fruit_hashes := [leaf_id]\<rparr>"]
    by (auto simp: example_bodies U64_MAX_def load_leaf)
qed

end
