(* ===== verification/Ledger.thy ===== *)
theory Ledger
  imports Chain_Store Mempool
begin

text \<open>
  \<^verbatim>\<open>src/src/tensorpow/node/node.py\<close>: the state of an anchor branch. Spending a transaction's inputs,
  turning outputs into unspent outputs, applying the fruits that an anchor covers, paying their
  coinbases and the anchor's reward, and rebuilding the state of a branch from the genesis.

  A function that returns \<open>str | None\<close> and mutates its arguments returns \<open>Inl reason\<close> or \<open>Inr\<close> the new
  state; every caller drops the state after an error, because it works on a copy. An exception that the
  Python code does not catch is an error of the outer sum. A Python set that is sorted before use is a
  list without repetitions.
\<close>

section \<open>Definitions\<close>

type_synonym 'a answer = "(string + 'a) res"

text \<open>Continue after a step that did not refuse.\<close>

definition andthen :: "'a answer \<Rightarrow> ('a \<Rightarrow> 'b answer) \<Rightarrow> 'b answer" where
  "andthen m f = bnd m (\<lambda>r. case r of Inl reason \<Rightarrow> Inr (Inl reason) | Inr x \<Rightarrow> f x)"

definition refuse :: "string \<Rightarrow> 'a answer" where "refuse reason = Inr (Inl reason)"
definition accept :: "'a \<Rightarrow> 'a answer" where "accept x = Inr (Inr x)"

text \<open>\<open>try: m except (TypeError, ValueError): return reason\<close>\<close>

definition or_refuse :: "'a res \<Rightarrow> (py_error \<Rightarrow> bool) \<Rightarrow> string \<Rightarrow> 'a answer" where
  "or_refuse m caught reason =
     (case m of Inl e \<Rightarrow> if caught e then refuse reason else Inl e | Inr x \<Rightarrow> accept x)"

definition ANCHOR_REWARD_PREFIX :: bytes where "ANCHOR_REWARD_PREFIX = ascii ''anchorreward:''"

record branch_state =
  bs_height :: int
  bs_shard_tree :: shard_tree
  bs_fee_floors :: "(int, int) dict"
  bs_utxo_set :: utxo_set
  bs_minted_supply :: int
  bs_claimed_fruits :: "(bytes, int) dict"
  bs_confirmed_tx_ids :: "bytes set"

definition empty_branch :: branch_state where
  "empty_branch = \<lparr>bs_height = 0, bs_shard_tree = default_tree, bs_fee_floors = [], bs_utxo_set = empty_utxo_set,
     bs_minted_supply = 0, bs_claimed_fruits = [], bs_confirmed_tx_ids = {}\<rparr>"

text \<open>The constructor \<open>UTXOSet(utxos)\<close>.\<close>

fun add_utxos :: "hash_fn \<Rightarrow> utxo list \<Rightarrow> utxo_set \<Rightarrow> utxo_set res" where
  "add_utxos H [] S = Inr S"
| "add_utxos H (u # us) S = bnd (us_add H S u) (\<lambda>S. add_utxos H us S)"

definition UTXOSet :: "hash_fn \<Rightarrow> utxo list \<Rightarrow> utxo_set res" where
  "UTXOSet H utxos = add_utxos H utxos empty_utxo_set"

subsection \<open>Spending\<close>

fun spend_inputs ::
  "hash_fn \<Rightarrow> 'k ed25519 \<Rightarrow> utxo_set \<Rightarrow> tx \<Rightarrow> int \<Rightarrow> int \<Rightarrow> tx_input list \<Rightarrow> int \<Rightarrow> outpoint set \<Rightarrow> int \<Rightarrow> int answer" where
  "spend_inputs H E S t current_time_ms current_height [] input_index seen input_sum = accept input_sum"
| "spend_inputs H E S t current_time_ms current_height (inp # rest) input_index seen input_sum =
     (let outpoint = in_previous_outpoint inp in
      if outpoint \<in> seen then refuse ''duplicate_input''
      else case us_get S outpoint of
        None \<Rightarrow> refuse ''missing_input''
      | Some utxo \<Rightarrow>
          bnd (sighash H t input_index) (\<lambda>message.
          bnd (verify_utxo_spend H E utxo (in_witness inp) message (tx_sig_type t) current_time_ms current_height) (\<lambda>good.
          if \<not> good then refuse ''script_failed''
          else spend_inputs H E S t current_time_ms current_height rest (input_index + 1)
                 (insert outpoint seen) (input_sum + u_amount_matoms utxo))))"

fun remove_inputs :: "hash_fn \<Rightarrow> tx_input list \<Rightarrow> utxo_set \<Rightarrow> utxo_set res" where
  "remove_inputs H [] S = Inr S"
| "remove_inputs H (inp # rest) S =
     bnd (us_remove H S (in_previous_outpoint inp)) (\<lambda>(_, S). remove_inputs H rest S)"

definition apply_spend_tx ::
  "hash_fn \<Rightarrow> 'k ed25519 \<Rightarrow> utxo_set \<Rightarrow> tx \<Rightarrow> shard_tree \<Rightarrow> int \<Rightarrow> int \<Rightarrow> int \<Rightarrow> int \<Rightarrow> (int \<times> utxo_set) answer" where
  "apply_spend_tx H E S t tree required_shard_id fee_floor_matoms_per_kb current_time_ms current_height =
     bnd (route_tx tree (tx_id H t)) (\<lambda>shard.
     if shard \<noteq> required_shard_id then refuse ''wrong_shard''
     else
       andthen (or_refuse (check_locks (tx_locktime_ms t) (tx_lockheight t) current_time_ms current_height)
                  type_or_value_error ''tx_lock_unmatured'') (\<lambda>_.
       andthen (spend_inputs H E S t current_time_ms current_height (tx_inputs t) 0 {} 0) (\<lambda>input_sum.
       let output_sum = sum_list (map out_amount_matoms (tx_outputs t)) in
       if output_sum > input_sum then refuse ''negative_fee''
       else
         let fee_matoms = input_sum - output_sum;
             tx_size_bytes = int (length (tx_to_bytes t)) in
         if fee_matoms * BYTES_PER_KB div tx_size_bytes < fee_floor_matoms_per_kb then refuse ''below_fee_floor''
         else
           bnd (burned_fee_matoms fee_floor_matoms_per_kb tx_size_bytes) (\<lambda>burned.
           bnd (remove_inputs H (tx_inputs t) S) (\<lambda>S.
           accept (max 0 (fee_matoms - burned), S))))))"

definition utxo_from_output :: "hash_fn \<Rightarrow> tx \<Rightarrow> nat \<Rightarrow> int \<Rightarrow> utxo res" where
  "utxo_from_output H t output_index min_lockheight =
     (if output_index \<ge> length (tx_outputs t) then Inl IndexError
      else
        let output = tx_outputs t ! output_index;
            owner_pubkey_hash = (if out_template_id output = TEMPLATE_PKH then take 32 (out_payload output) else zero_bytes 32) in
        bnd (Outpoint (tx_id H t) (int output_index)) (\<lambda>op.
        UTXO op (out_amount_matoms output) (out_template_id output) owner_pubkey_hash (out_locktime_ms output)
          (max (out_lockheight output) min_lockheight) (out_payload output)))"

definition utxo_from_anchor_output :: "hash_fn \<Rightarrow> bytes \<Rightarrow> nat \<Rightarrow> tx_output \<Rightarrow> utxo res" where
  "utxo_from_anchor_output H anchor_hash output_index output =
     (let owner_pubkey_hash = (if out_template_id output = TEMPLATE_PKH then take 32 (out_payload output) else zero_bytes 32) in
      bnd (Outpoint (hash_bytes H (ANCHOR_REWARD_PREFIX @ anchor_hash)) (int output_index)) (\<lambda>op.
      UTXO op (out_amount_matoms output) (out_template_id output) owner_pubkey_hash (out_locktime_ms output)
        (out_lockheight output) (out_payload output)))"

definition output_sum_of :: "tx_output list \<Rightarrow> int res" where
  "output_sum_of outputs =
     (let matoms = sum_list (map out_amount_matoms outputs) in
      bnd (ensure (\<not> matoms > MAX_SUPPLY_MATOMS) ValueError) (\<lambda>_. Inr matoms))"

definition tx_output_sum :: "tx \<Rightarrow> int res" where
  "tx_output_sum t =
     (let matoms = sum_list (map out_amount_matoms (tx_outputs t)) in
      bnd (ensure (\<not> matoms > MAX_SUPPLY_MATOMS) ValueError) (\<lambda>_. Inr matoms))"

definition coinbase_reward_key :: "hash_fn \<Rightarrow> tx \<Rightarrow> bytes" where
  "coinbase_reward_key H t =
     (let pkh_outputs = map out_payload (filter (\<lambda>output. out_template_id output = TEMPLATE_PKH
            \<and> length (out_payload output) = HASH_LEN_BYTES) (tx_outputs t)) in
      if pkh_outputs \<noteq> [] then Min (set pkh_outputs) else tx_id H t)"

subsection \<open>The fruits of an anchor\<close>

record fruit_run =
  fr_staged :: utxo_set
  fr_spent_outpoints :: "outpoint list"
  fr_created_utxos :: "utxo list"
  fr_effective_tips :: "(bytes, int) dict"
  fr_covered_tx_ids :: "bytes set"
  fr_skipped_tx_ids :: "bytes set"

definition key_or_value_error :: "py_error \<Rightarrow> bool" where
  "key_or_value_error e \<longleftrightarrow> e = KeyError \<or> type_or_value_error e \<and> e \<noteq> TypeError"

fun create_outputs :: "hash_fn \<Rightarrow> tx \<Rightarrow> nat list \<Rightarrow> utxo_set \<Rightarrow> utxo list \<Rightarrow> (utxo_set \<times> utxo list) res" where
  "create_outputs H t [] S created = Inr (S, created)"
| "create_outputs H t (output_index # rest) S created =
     bnd (utxo_from_output H t output_index 0) (\<lambda>utxo.
     bnd (us_add H S utxo) (\<lambda>S. create_outputs H t rest S (created @ [utxo])))"

definition dict_or :: "('k, 'v) dict \<Rightarrow> 'k \<Rightarrow> 'v \<Rightarrow> 'v" where
  "dict_or d k v0 = (case dict_get d k of None \<Rightarrow> v0 | Some v \<Rightarrow> v)"

fun apply_txs ::
  "hash_fn \<Rightarrow> 'k ed25519 \<Rightarrow> shard_tree \<Rightarrow> fruit \<Rightarrow> int \<Rightarrow> int \<Rightarrow> bytes \<Rightarrow> tx list \<Rightarrow> fruit_run \<Rightarrow> fruit_run answer" where
  "apply_txs H E tree f floor_rate height fruit_hash [] r = accept r"
| "apply_txs H E tree f floor_rate height fruit_hash (t # rest) r =
     (let tid = tx_id H t;
          r = r\<lparr>fr_covered_tx_ids := insert tid (fr_covered_tx_ids r)\<rparr> in
      if (\<exists>inp \<in> set (tx_inputs t). in_previous_outpoint inp \<in> set (fr_spent_outpoints r)
            \<or> op_tx_id (in_previous_outpoint inp) \<in> fr_skipped_tx_ids r)
      then apply_txs H E tree f floor_rate height fruit_hash rest (r\<lparr>fr_skipped_tx_ids := insert tid (fr_skipped_tx_ids r)\<rparr>)
      else
        andthen (apply_spend_tx H E (fr_staged r) t tree (fh_shard_id (f_header f)) floor_rate
                   (fh_timestamp_ms (f_header f)) height) (\<lambda>(tip_matoms, S).
        andthen (or_refuse (create_outputs H t [0..<length (tx_outputs t)] S (fr_created_utxos r))
                   key_or_value_error ''duplicate_tx_outpoint'') (\<lambda>(S, created).
        apply_txs H E tree f floor_rate height fruit_hash rest
          (r\<lparr>fr_staged := S,
             fr_spent_outpoints := fold (\<lambda>inp. List.insert (in_previous_outpoint inp)) (tx_inputs t) (fr_spent_outpoints r),
             fr_created_utxos := created,
             fr_effective_tips := dict_set fruit_hash (dict_or (fr_effective_tips r) fruit_hash 0 + tip_matoms)
               (fr_effective_tips r)\<rparr>))))"

fun apply_fruits ::
  "hash_fn \<Rightarrow> 'k ed25519 \<Rightarrow> 'db rocks \<Rightarrow> 'db \<Rightarrow> shard_tree \<Rightarrow> (int, int) dict \<Rightarrow> int \<Rightarrow> bytes list \<Rightarrow> fruit_run \<Rightarrow> fruit_run answer" where
  "apply_fruits H E R db tree fee_floors height [] r = accept r"
| "apply_fruits H E R db tree fee_floors height (fruit_hash # rest) r =
     (case load_fruit H R db fruit_hash of
        None \<Rightarrow> refuse ''missing_covered_fruit''
      | Some f \<Rightarrow>
          let floor_rate = dict_or fee_floors (fh_shard_id (f_header f)) 0 in
          andthen (or_refuse (each tx_from_bytes (f_transactions f)) type_or_value_error ''malformed_fruit_tx'') (\<lambda>txs.
          andthen (apply_txs H E tree f floor_rate height fruit_hash (drop 1 txs) r) (\<lambda>r.
          apply_fruits H E R db tree fee_floors height rest r)))"

record anchor_fruits =
  af_staged :: utxo_set
  af_spent_outpoints :: "outpoint list"
  af_created_utxos :: "utxo list"
  af_effective_tips :: "(bytes, int) dict"
  af_covered_tx_ids :: "bytes list"

definition apply_anchor_fruits ::
  "hash_fn \<Rightarrow> 'k ed25519 \<Rightarrow> 'db rocks \<Rightarrow> 'db \<Rightarrow> anchor \<Rightarrow> utxo_set \<Rightarrow> shard_tree \<Rightarrow> (int, int) dict \<Rightarrow> int \<Rightarrow> anchor_fruits answer" where
  "apply_anchor_fruits H E R db a staged tree fee_floors validation_anchor_height =
     bnd (canonical_covered_fruit_order H R db a) (\<lambda>ordered.
     case ordered of
       None \<Rightarrow> refuse ''bad_covered_fruit_order''
     | Some ordered_fruit_hashes \<Rightarrow>
         andthen (apply_fruits H E R db tree fee_floors validation_anchor_height ordered_fruit_hashes
           \<lparr>fr_staged = staged, fr_spent_outpoints = [], fr_created_utxos = [], fr_effective_tips = [],
            fr_covered_tx_ids = {}, fr_skipped_tx_ids = {}\<rparr>) (\<lambda>r.
         accept \<lparr>af_staged = fr_staged r, af_spent_outpoints = sort_key outpoint_to_bytes (fr_spent_outpoints r),
                 af_created_utxos = fr_created_utxos r, af_effective_tips = fr_effective_tips r,
                 af_covered_tx_ids = sorted_list_of_set (fr_covered_tx_ids r)\<rparr>))"

subsection \<open>Rewards\<close>

type_synonym claims = "(bytes, fruit_meta) dict \<times> (bytes, tx) dict \<times> (bytes, bytes) dict"

fun collect_claims :: "hash_fn \<Rightarrow> 'db rocks \<Rightarrow> 'db \<Rightarrow> bytes list \<Rightarrow> claims \<Rightarrow> claims answer" where
  "collect_claims H R db [] c = accept c"
| "collect_claims H R db (fruit_hash # rest) (metas, coinbases, reward_keys) =
     bnd (fruit_meta_of R db fruit_hash) (\<lambda>meta.
     case meta of
       None \<Rightarrow> refuse ''missing_fruit_metadata''
     | Some meta \<Rightarrow>
         (case load_fruit H R db fruit_hash of
            None \<Rightarrow> refuse ''missing_covered_fruit''
          | Some f \<Rightarrow>
              andthen (case f_transactions f of
                         [] \<Rightarrow> Inl IndexError
                       | raw # _ \<Rightarrow> or_refuse (tx_from_bytes raw) type_or_value_error ''malformed_fruit_tx'') (\<lambda>coinbase_tx.
              collect_claims H R db rest
                (dict_set fruit_hash meta metas, dict_set fruit_hash coinbase_tx coinbases,
                 dict_set fruit_hash (coinbase_reward_key H coinbase_tx) reward_keys))))"

fun claim_outputs ::
  "hash_fn \<Rightarrow> utxo_set \<Rightarrow> tx \<Rightarrow> int \<Rightarrow> nat list \<Rightarrow> utxo list \<times> outpoint set \<Rightarrow> (utxo list \<times> outpoint set) answer" where
  "claim_outputs H staged coinbase_tx maturity_height [] st = accept st"
| "claim_outputs H staged coinbase_tx maturity_height (output_index # rest) (reward_utxos, seen) =
     bnd (utxo_from_output H coinbase_tx output_index maturity_height) (\<lambda>utxo.
     if u_outpoint utxo \<in> seen \<or> us_get staged (u_outpoint utxo) \<noteq> None then refuse ''duplicate_coinbase_outpoint''
     else claim_outputs H staged coinbase_tx maturity_height rest (reward_utxos @ [utxo], insert (u_outpoint utxo) seen))"

record claim_run =
  cr_reward_utxos :: "utxo list"
  cr_seen_outpoints :: "outpoint set"
  cr_newly_claimed :: "bytes list"
  cr_minted_increment :: int

fun claim_fruits ::
  "hash_fn \<Rightarrow> utxo_set \<Rightarrow> (bytes, int) dict \<Rightarrow> claims \<Rightarrow> (bytes, int) dict \<Rightarrow> (bytes, int) dict \<Rightarrow> int \<Rightarrow> bytes list \<Rightarrow>
   claim_run \<Rightarrow> claim_run answer" where
  "claim_fruits H staged claimed c assignments tips maturity_height [] r = accept r"
| "claim_fruits H staged claimed (metas, coinbases, reward_keys) assignments tips maturity_height (fruit_hash # rest) r =
     (if dict_get claimed fruit_hash \<noteq> None then refuse ''fruit_coinbase_already_claimed''
      else
        bnd (lookup metas fruit_hash) (\<lambda>meta.
        let realized_tip_matoms = dict_or tips fruit_hash 0 in
        bnd (lookup assignments fruit_hash) (\<lambda>assigned.
        let allowed_claim = assigned + realized_tip_matoms in
        if fm_coinbase_claim_matoms meta > allowed_claim then refuse ''coinbase_too_large''
        else
          bnd (lookup coinbases fruit_hash) (\<lambda>coinbase_tx.
          andthen (claim_outputs H staged coinbase_tx maturity_height [0..<length (tx_outputs coinbase_tx)]
                     (cr_reward_utxos r, cr_seen_outpoints r)) (\<lambda>(reward_utxos, seen).
          claim_fruits H staged claimed (metas, coinbases, reward_keys) assignments tips maturity_height rest
            \<lparr>cr_reward_utxos = reward_utxos, cr_seen_outpoints = seen,
             cr_newly_claimed = cr_newly_claimed r @ [fruit_hash],
             cr_minted_increment = cr_minted_increment r + max 0 (fm_coinbase_claim_matoms meta - realized_tip_matoms)\<rparr>)))))"

fun claim_anchor_outputs ::
  "hash_fn \<Rightarrow> utxo_set \<Rightarrow> bytes \<Rightarrow> nat \<Rightarrow> tx_output list \<Rightarrow> utxo list \<times> outpoint set \<Rightarrow> (utxo list \<times> outpoint set) answer" where
  "claim_anchor_outputs H staged anchor_hash output_index [] st = accept st"
| "claim_anchor_outputs H staged anchor_hash output_index (output # rest) (reward_utxos, seen) =
     bnd (utxo_from_anchor_output H anchor_hash output_index output) (\<lambda>utxo.
     if u_outpoint utxo \<in> seen \<or> us_get staged (u_outpoint utxo) \<noteq> None then refuse ''duplicate_anchor_reward_outpoint''
     else claim_anchor_outputs H staged anchor_hash (output_index + 1) rest
            (reward_utxos @ [utxo], insert (u_outpoint utxo) seen))"

record claimed_rewards =
  cw_reward_utxos :: "utxo list"
  cw_minted_increment :: int
  cw_newly_claimed :: "bytes list"

definition claim_anchor_rewards ::
  "hash_fn \<Rightarrow> 'db rocks \<Rightarrow> 'db \<Rightarrow> anchor \<Rightarrow> bytes \<Rightarrow> int \<Rightarrow> bytes \<Rightarrow> (bytes, int) dict \<Rightarrow> utxo_set \<Rightarrow> int \<Rightarrow> (bytes, int) dict \<Rightarrow>
   claimed_rewards answer" where
  "claim_anchor_rewards H R db a anchor_hash anchor_height anchor_target effective_tips staged minted_supply claimed_fruits =
     (if a_covered_fruit_hashes a = [] then
        accept \<lparr>cw_reward_utxos = [], cw_minted_increment = 0, cw_newly_claimed = []\<rparr>
      else
        bnd (interval_subsidy_matoms anchor_height minted_supply) (\<lambda>interval_subsidy.
        bnd (reward_pools (int (length (a_covered_fruit_hashes a))) interval_subsidy anchor_target) (\<lambda>(_, anchor_pool).
        andthen (or_refuse (output_sum_of (a_anchor_reward_outputs a)) (\<lambda>e. e = ValueError) ''anchor_reward_too_large'')
          (\<lambda>anchor_reward_claim.
        if anchor_reward_claim > anchor_pool then refuse ''anchor_reward_too_large''
        else
          andthen (collect_claims H R db (a_covered_fruit_hashes a) ([], [], [])) (\<lambda>(metas, coinbases, reward_keys).
          bnd (fruit_subsidy_assignments reward_keys interval_subsidy anchor_target) (\<lambda>assignments.
          bnd (coinbase_maturity_height anchor_height) (\<lambda>maturity_height.
          andthen (claim_fruits H staged claimed_fruits (metas, coinbases, reward_keys) assignments effective_tips maturity_height
                     (a_covered_fruit_hashes a)
                     \<lparr>cr_reward_utxos = [], cr_seen_outpoints = {}, cr_newly_claimed = [],
                      cr_minted_increment = anchor_reward_claim\<rparr>) (\<lambda>r.
          andthen (claim_anchor_outputs H staged anchor_hash 0 (a_anchor_reward_outputs a)
                     (cr_reward_utxos r, cr_seen_outpoints r)) (\<lambda>(reward_utxos, _).
          if minted_supply + cr_minted_increment r > MAX_SUPPLY_MATOMS then refuse ''supply_cap_exceeded''
          else accept \<lparr>cw_reward_utxos = reward_utxos, cw_minted_increment = cr_minted_increment r,
                       cw_newly_claimed = cr_newly_claimed r\<rparr>)))))))))"

subsection \<open>The state of a branch\<close>

definition apply_anchor_to_branch ::
  "hash_fn \<Rightarrow> 'k ed25519 \<Rightarrow> 'db rocks \<Rightarrow> 'db \<Rightarrow> anchor \<Rightarrow> bytes \<Rightarrow> int \<Rightarrow> bytes \<Rightarrow> branch_state \<Rightarrow> branch_state answer" where
  "apply_anchor_to_branch H E R db a anchor_hash anchor_height anchor_target state =
     andthen (or_refuse (deserialize_tree (a_shard_tree_bytes a)) type_or_value_error ''bad_shard_tree'') (\<lambda>next_tree.
     if map ff_shard_id (a_fee_floor_entries a) \<noteq> leaf_shard_ids next_tree then refuse ''bad_fee_floor_entries''
     else
       bnd (UTXOSet H (us_list (bs_utxo_set state))) (\<lambda>staged.
       andthen (apply_anchor_fruits H E R db a staged (bs_shard_tree state) (bs_fee_floors state) anchor_height) (\<lambda>af.
       andthen (claim_anchor_rewards H R db a anchor_hash anchor_height anchor_target (af_effective_tips af) (af_staged af)
                  (bs_minted_supply state) (bs_claimed_fruits state)) (\<lambda>cw.
       bnd (add_utxos H (cw_reward_utxos cw) (af_staged af)) (\<lambda>staged.
       accept \<lparr>bs_height = anchor_height, bs_shard_tree = next_tree,
               bs_fee_floors = fold (\<lambda>entry. dict_set (ff_shard_id entry) (ff_floor_matoms_per_kb entry)) (a_fee_floor_entries a) [],
               bs_utxo_set = staged,
               bs_minted_supply = bs_minted_supply state + cw_minted_increment cw,
               bs_claimed_fruits = fold (\<lambda>fruit_hash. dict_set fruit_hash anchor_height) (cw_newly_claimed cw) (bs_claimed_fruits state),
               bs_confirmed_tx_ids = bs_confirmed_tx_ids state \<union> set (af_covered_tx_ids af)\<rparr>)))))"

fun rebuild_loop ::
  "hash_fn \<Rightarrow> 'k ed25519 \<Rightarrow> 'db rocks \<Rightarrow> 'db \<Rightarrow> bytes list \<Rightarrow> branch_state \<Rightarrow> branch_state option res" where
  "rebuild_loop H E R db [] state = Inr (Some state)"
| "rebuild_loop H E R db (anchor_hash # rest) state =
     (case load_anchor H R db anchor_hash of
        None \<Rightarrow> Inr None
      | Some a \<Rightarrow>
          obnd (anchor_meta_of H R db anchor_hash) (\<lambda>meta.
          bnd (apply_anchor_to_branch H E R db a anchor_hash (am_height meta) (am_target meta) state) (\<lambda>r.
          case r of Inl _ \<Rightarrow> Inr None | Inr state \<Rightarrow> rebuild_loop H E R db rest state)))"

definition rebuild_anchor_branch_state ::
  "hash_fn \<Rightarrow> 'k ed25519 \<Rightarrow> 'db rocks \<Rightarrow> 'db \<Rightarrow> bytes \<Rightarrow> branch_state option res" where
  "rebuild_anchor_branch_state H E R db tip_hash =
     (case anchor_chain_hashes H R db tip_hash of
        None \<Rightarrow> Inr None
      | Some chain_hashes \<Rightarrow> rebuild_loop H E R db chain_hashes empty_branch)"

section \<open>Specification\<close>

text \<open>The value held by a set of unspent outputs, and the sum of a dictionary's values.\<close>

definition worth :: "(outpoint \<rightharpoonup> utxo) \<Rightarrow> int" where
  "worth c = (\<Sum>op \<in> dom c. u_amount_matoms (the (c op)))"

definition dict_sum :: "('k, int) dict \<Rightarrow> int" where
  "dict_sum d = sum_list (map snd d)"

text \<open>What makes a transaction applicable to a set of outputs, and the part of its fee that is burned.\<close>

definition applicable ::
  "hash_fn \<Rightarrow> 'k ed25519 \<Rightarrow> utxo_view \<Rightarrow> tx \<Rightarrow> shard_tree \<Rightarrow> int \<Rightarrow> int \<Rightarrow> int \<Rightarrow> int \<Rightarrow> bool" where
  "applicable H E view t tree shard floor_rate now height \<longleftrightarrow>
     route_tx tree (tx_id H t) = Inr shard \<and> uint64 now \<and> uint64 height \<and>
     lock_mature (tx_locktime_ms t) now \<and> lock_mature (tx_lockheight t) height \<and> distinct (input_outpoints t) \<and>
     (\<forall>i < length (tx_inputs t). spendable H E view t now height i) \<and> 0 \<le> tx_fee view t \<and> floor_rate \<le> tx_rate view t"

definition burned_part :: "int \<Rightarrow> tx \<Rightarrow> int" where
  "burned_part floor_rate t = floor_rate * int (length (tx_to_bytes t)) div BYTES_PER_KB"

text \<open>The invariant of a run over an anchor's fruits that starts with outputs worth \<open>v\<close>: the outputs and the tips
  collected so far are together worth at most \<open>v\<close>.\<close>

definition tips_ok :: "(bytes, int) dict \<Rightarrow> bool" where
  "tips_ok tips \<longleftrightarrow> dict_ok tips \<and> (\<forall>h v. dict_get tips h = Some v \<longrightarrow> 0 \<le> v)"

definition run_ok :: "hash_fn \<Rightarrow> int \<Rightarrow> fruit_run \<Rightarrow> bool" where
  "run_ok H v r \<longleftrightarrow> utxo_set_ok H (fr_staged r) \<and> tips_ok (fr_effective_tips r) \<and>
     worth (us_get (fr_staged r)) + dict_sum (fr_effective_tips r) \<le> v"

definition floors_ok :: "(int, int) dict \<Rightarrow> bool" where
  "floors_ok floors \<longleftrightarrow> (\<forall>s v. dict_get floors s = Some v \<longrightarrow> 0 \<le> v)"

text \<open>The metadata stored with a fruit records what its coinbase pays; \<open>process_fruit\<close> writes it so.\<close>

definition metas_match :: "hash_fn \<Rightarrow> 'db rocks \<Rightarrow> 'db \<Rightarrow> bool" where
  "metas_match H R db \<longleftrightarrow> (\<forall>h f m raw rest t. load_fruit H R db h = Some f \<longrightarrow> fruit_meta_of R db h = Inr (Some m) \<longrightarrow>
     f_transactions f = raw # rest \<longrightarrow> tx_from_bytes raw = Inr t \<longrightarrow>
     fm_coinbase_claim_matoms m = sum_list (map out_amount_matoms (tx_outputs t)))"

text \<open>The invariant of a branch: the indexes of its outputs agree, its tree partitions the shards, and its outputs are
  worth no more than what was minted, which is within the maximum supply.\<close>

definition branch_ok :: "hash_fn \<Rightarrow> branch_state \<Rightarrow> bool" where
  "branch_ok H st \<longleftrightarrow> utxo_set_ok H (bs_utxo_set st) \<and> floors_ok (bs_fee_floors st) \<and> tree_ok (leaf_shard_ids (bs_shard_tree st)) \<and>
     worth (us_get (bs_utxo_set st)) \<le> bs_minted_supply st \<and> bs_minted_supply st \<le> MAX_SUPPLY_MATOMS"

text \<open>A fruit whose coinbase pays 5 matoms, a store that holds it, and an anchor that covers it, for the witnesses.\<close>

definition mined_coinbase :: tx where
  "mined_coinbase = \<lparr>tx_version = 0, tx_sig_type = 0, tx_locktime_ms = 0, tx_lockheight = 0, tx_inputs = [],
     tx_outputs = [\<lparr>out_amount_matoms = 5, out_template_id = 0, out_locktime_ms = 0, out_lockheight = 0, out_payload = replicate 32 3\<rparr>]\<rparr>"

definition mined_fruit :: fruit where
  "mined_fruit =
     \<lparr>f_header = (f_header stored_fruit)\<lparr>fh_tx_merkle_root := domain_hash pad_hash DOMAIN_TX_MERKLE_ROOT
        (MERKLE_LEAF_TAG # le_bytes 4 0 @ le_bytes 4 32 @ raw_tx_id pad_hash (tx_to_bytes mined_coinbase))\<rparr>,
      f_transactions = [tx_to_bytes mined_coinbase]\<rparr>"

definition mined_db :: "storage_column \<Rightarrow> (bytes \<times> bytes) list" where
  "mined_db c =
     (if c = COLUMN_BODIES then [(tip_id, genesis_bytes), (leaf_id, serialize_fruit mined_fruit)]
      else if c = COLUMN_DAG then [(fruit_meta_key leaf_id, le_bytes 8 5 @ le_bytes 8 0),
        (anchor_meta_key tip_id, le_bytes 8 0 @ zero_bytes 32 @ le_bytes 32 1)]
      else [])"

definition covering_anchor :: anchor where
  "covering_anchor = (let empty = [MERKLE_EMPTY_TAG] @ le_bytes 4 0 in
     \<lparr>a_header = (a_header example_genesis_anchor)\<lparr>ah_parent_anchor := tip_id,
        ah_fruit_set_root := domain_hash pad_hash DOMAIN_FRUIT_SET_ROOT (MERKLE_LEAF_TAG # le_bytes 4 0 @ le_bytes 4 32 @ leaf_id)\<rparr>,
      a_covered_fruit_hashes = [leaf_id], a_parent_candidate_hashes = [], a_shard_tree_bytes = a_shard_tree_bytes example_genesis_anchor,
      a_fee_floor_entries = a_fee_floor_entries example_genesis_anchor, a_anchor_reward_outputs = [],
      a_genesis_commitment = zero_bytes 32\<rparr>)"

text \<open>An output of 20 matoms that one signature spends.\<close>

definition spend_utxo :: utxo where
  "spend_utxo = example_utxo\<lparr>u_amount_matoms := 20, u_owner_pubkey_hash := pad_hash (DOMAIN_ADDRESS # replicate 32 1)\<rparr>"

definition spend_set :: utxo_set where
  "spend_set = (case us_add pad_hash empty_utxo_set spend_utxo of Inl _ \<Rightarrow> empty_utxo_set | Inr S \<Rightarrow> S)"

section \<open>Lemmas\<close>

lemma andthen_accept: "andthen m f = Inr (Inr y) \<longleftrightarrow> (\<exists>x. m = Inr (Inr x) \<and> f x = Inr (Inr y))"
  by (cases m) (auto simp: andthen_def split: sum.splits)

lemma or_refuse_accept: "or_refuse m c reason = Inr (Inr x) \<longleftrightarrow> m = Inr x"
  by (auto simp: or_refuse_def refuse_def accept_def split: sum.splits)

lemma accept_iff [simp]: "accept x = Inr (Inr y) \<longleftrightarrow> x = y" "refuse reason \<noteq> Inr (Inr y)" "refuse reason \<noteq> Inl e" "accept x \<noteq> Inl e"
  by (auto simp: accept_def refuse_def)

lemmas answer_iff = andthen_accept or_refuse_accept bnd_Inr_iff

subsection \<open>Value\<close>

lemma worth_add: "finite (dom c) \<Longrightarrow> c k = None \<Longrightarrow> worth (c(k \<mapsto> u)) = worth c + u_amount_matoms u"
proof -
  assume "finite (dom c)" "c k = None"
  then have "worth (c(k \<mapsto> u)) = u_amount_matoms u + (\<Sum>op \<in> dom c. u_amount_matoms (the ((c(k \<mapsto> u)) op)))"
    by (simp add: worth_def domIff)
  also have "(\<Sum>op \<in> dom c. u_amount_matoms (the ((c(k \<mapsto> u)) op))) = worth c"
    unfolding worth_def using \<open>c k = None\<close> by (intro sum.cong) auto
  finally show ?thesis by (simp only: add.commute)
qed

lemma worth_delete: "finite (dom c) \<Longrightarrow> c k = Some u \<Longrightarrow> worth (c(k := None)) = worth c - u_amount_matoms u"
proof -
  assume a: "finite (dom c)" "c k = Some u"
  have "worth ((c(k := None))(k \<mapsto> u)) = worth (c(k := None)) + u_amount_matoms u" using a(1) by (intro worth_add) auto
  moreover have "(c(k := None))(k \<mapsto> u) = c" using a(2) by auto
  ultimately show ?thesis by simp
qed

lemma finite_us_get: "finite (dom (us_get S))"
  by (simp add: us_get_eq finite_dom_map_of)

lemma dict_sum_set:
  "dict_ok d \<Longrightarrow> dict_sum (dict_set k v d) = dict_sum d - dict_or d k 0 + v"
  by (induction d) (auto simp: dict_sum_def dict_or_def dom_map_of_conv_image_fst split: option.splits)

lemma dict_sum_eq: "dict_ok d \<Longrightarrow> dict_sum d = (\<Sum>k \<in> dom (dict_get d). the (dict_get d k))"
proof -
  assume d: "dict_ok d"
  then have "dict_sum d = (\<Sum>x \<in> set d. snd x)" by (simp add: dict_sum_def sum_list_distinct_conv_sum_set distinct_map)
  also have "\<dots> = (\<Sum>k \<in> fst ` set d. the (dict_get d k))"
    using d by (intro sum.reindex_cong [of fst, symmetric]) (auto simp: distinct_map)
  finally show ?thesis by (simp add: dom_map_of_conv_image_fst)
qed

subsection \<open>Building and copying a set\<close>

lemma us_add_step:
  assumes "utxo_set_ok H S" "utxo_ok u" "us_add H S u = Inr S'"
  shows "utxo_set_ok H S'" "us_get S' = (us_get S)(u_outpoint u \<mapsto> u)" "us_get S (u_outpoint u) = None"
    "worth (us_get S') = worth (us_get S) + u_amount_matoms u"
proof -
  show ok: "utxo_set_ok H S'" "us_get S' = (us_get S)(u_outpoint u \<mapsto> u)" using utxos.add_ok [OF assms] by auto
  show new: "us_get S (u_outpoint u) = None" by (rule utxos.add_fresh [OF assms(1,3)])
  show "worth (us_get S') = worth (us_get S) + u_amount_matoms u"
    unfolding ok(2) by (rule worth_add [OF finite_us_get new])
qed

lemma add_utxos_step:
  assumes "add_utxos H us S = Inr S'" "utxo_set_ok H S" "\<forall>u \<in> set us. utxo_ok u"
  shows "utxo_set_ok H S' \<and> worth (us_get S') = worth (us_get S) + sum_list (map u_amount_matoms us) \<and>
    us_get S' = us_get S ++ map_of (map (\<lambda>u. (u_outpoint u, u)) us) \<and> distinct (map u_outpoint us) \<and>
    (\<forall>u \<in> set us. us_get S (u_outpoint u) = None)"
  using assms
proof (induction us arbitrary: S)
  case (Cons u us)
  obtain S1 where S1: "us_add H S u = Inr S1" "add_utxos H us S1 = Inr S'" using Cons.prems(1) by (auto simp: bnd_Inr_iff)
  have u: "utxo_ok u" using Cons.prems(3) by simp
  note step = us_add_step [OF Cons.prems(2) u S1(1)]
  note IH = Cons.IH [OF S1(2) step(1)]
  have fresh: "u_outpoint u \<notin> u_outpoint ` set us" "\<forall>v \<in> set us. us_get S (u_outpoint v) = None"
    using IH Cons.prems(3) unfolding step(2) by (auto split: if_splits)
  have "us_get S' = us_get S ++ map_of (map (\<lambda>u. (u_outpoint u, u)) (u # us))"
    using IH Cons.prems(3) fresh unfolding step(2)
    by (auto simp: fun_eq_iff map_add_def map_of_eq_None_iff image_image split: option.splits)
  moreover have "worth (us_get S') = worth (us_get S) + sum_list (map u_amount_matoms (u # us))"
    using conjunct1 [OF conjunct2 [OF IH]] Cons.prems(3) step(4) by simp
  moreover have "utxo_set_ok H S' \<and> distinct (map u_outpoint (u # us)) \<and> (\<forall>v \<in> set (u # us). us_get S (u_outpoint v) = None)"
    using IH Cons.prems(3) step(3) fresh by simp
  ultimately show ?case by blast
qed simp

lemma us_add_total:
  assumes "utxo_set_ok H S" "us_get S (u_outpoint u) = None" "\<And>op v. us_get S op = Some v \<Longrightarrow> utxo_key H v \<noteq> utxo_key H u"
  shows "\<exists>S'. us_add H S u = Inr S'"
proof -
  have I: "utxo_index_ok H S" using assms(1) by (simp add: utxo_set_ok_def)
  have "dict_get (us_outpoint_by_key S) (utxo_key H u) \<noteq> Some op" for op
    using assms(3) utxo_index_D(4) [OF I, of "utxo_key H u" op] by (auto simp: us_get_def)
  then have "dict_get (us_outpoint_by_key S) (utxo_key H u) = None" by (cases "dict_get (us_outpoint_by_key S) (utxo_key H u)") auto
  then show ?thesis using assms(2) by (simp add: us_add_def us_get_def Let_def)
qed

lemma add_utxos_total:
  assumes "utxo_set_ok H S" "\<forall>u \<in> set us. utxo_ok u" "distinct (map u_outpoint us)" "\<forall>u \<in> set us. us_get S (u_outpoint u) = None"
    "inj_on (utxo_key H) (set us \<union> ran (us_get S))"
  shows "\<exists>S'. add_utxos H us S = Inr S'"
  using assms
proof (induction us arbitrary: S)
  case (Cons u us)
  have "utxo_key H v \<noteq> utxo_key H u" if "us_get S op = Some v" for op v
  proof
    assume k: "utxo_key H v = utxo_key H u"
    have "v = u" using inj_onD [OF Cons.prems(5) k] that by (auto simp: ran_def)
    then show False using that Cons.prems(4) utxos.content_ok [OF Cons.prems(1) that] by auto
  qed
  then obtain S1 where S1: "us_add H S u = Inr S1" using us_add_total [OF Cons.prems(1), of u] Cons.prems(4) by auto
  have u: "utxo_ok u" using Cons.prems(2) by simp
  note step = us_add_step [OF Cons.prems(1) u S1]
  have "ran (us_get S1) = insert u (ran (us_get S))" unfolding step(2) using step(3) by simp
  then have "inj_on (utxo_key H) (set us \<union> ran (us_get S1))" using Cons.prems(5) by (auto intro: inj_on_subset)
  moreover have "\<forall>v \<in> set us. us_get S1 (u_outpoint v) = None" unfolding step(2) using Cons.prems(3,4) by (auto simp: image_iff)
  ultimately have "\<exists>S'. add_utxos H us S1 = Inr S'" using Cons.IH [OF step(1)] Cons.prems(2,3) by simp
  then show ?case by (simp add: S1)
qed simp

lemma UTXOSet_copy:
  assumes S: "utxo_set_ok H S"
  shows "\<exists>S'. UTXOSet H (us_list S) = Inr S' \<and> utxo_set_ok H S' \<and> us_get S' = us_get S"
proof -
  have I: "utxo_index_ok H S" using S by (simp add: utxo_set_ok_def)
  note D = utxo_index_D [OF I]
  let ?p = "\<lambda>u. (u_outpoint u, u)"
  have el: "u \<in> set (us_list S) \<longleftrightarrow> us_get S (u_outpoint u) = Some u" for u
  proof
    assume "u \<in> set (us_list S)"
    then obtain op where "(op, u) \<in> set (us_utxos S)" by (auto simp: us_list_def)
    then have "dict_get (us_utxos S) op = Some u" using map_of_is_SomeI [OF D(1)] by simp
    then show "us_get S (u_outpoint u) = Some u" using D(2) by (simp add: us_get_def)
  next
    assume "us_get S (u_outpoint u) = Some u"
    then have "(u_outpoint u, u) \<in> set (us_utxos S)" by (simp add: us_get_def map_of_SomeD)
    then show "u \<in> set (us_list S)" by (force simp: us_list_def)
  qed
  have ok: "\<forall>u \<in> set (us_list S). utxo_ok u" using el D(3) by (auto simp: us_get_def)
  have "map u_outpoint (map snd (us_utxos S)) = map fst (us_utxos S)"
    using D(1,2) by (auto intro!: map_cong)
  then have "distinct (map u_outpoint (map snd (us_utxos S)))" using D(1) by (simp only:)
  moreover have "mset (map u_outpoint (us_list S)) = mset (map u_outpoint (map snd (us_utxos S)))" by (simp only: us_list_def mset_map mset_sort)
  ultimately have dist: "distinct (map u_outpoint (us_list S))" by (metis mset_eq_imp_distinct_iff)
  have inj: "inj_on (utxo_key H) (set (us_list S))"
    using utxo_key_unique [OF I] el by (auto simp: inj_on_def us_get_def)
  have e: "utxo_set_ok H empty_utxo_set" by (rule empty_utxo_set_ok)
  have n: "us_get empty_utxo_set = Map.empty" by (simp add: us_get_eq empty_utxo_set_def)
  obtain S' where S': "UTXOSet H (us_list S) = Inr S'"
    using add_utxos_total [OF e ok dist] inj by (auto simp: n UTXOSet_def)
  have st: "utxo_set_ok H S'" "us_get S' = us_get empty_utxo_set ++ map_of (map ?p (us_list S))"
    using add_utxos_step [OF S' [unfolded UTXOSet_def] e ok] by auto
  have "us_get S' = us_get S"
  proof
    fix op
    have "map_of (map ?p (us_list S)) op = Some u \<longleftrightarrow> us_get S op = Some u" for u
      using dist el [of u] D(2) by (auto simp: us_get_def comp_def image_iff)
    then show "us_get S' op = us_get S op" unfolding st(2) n by (metis empty_map_add not_None_eq)
  qed
  then show ?thesis using S' st(1) by blast
qed

lemma UTXOSet_of:
  assumes S: "utxo_set_ok H S" and us: "set us = ran (us_get S)" "distinct us"
  shows "\<exists>S'. UTXOSet H us = Inr S' \<and> utxo_set_ok H S' \<and> us_get S' = us_get S"
proof -
  have el: "u \<in> set us \<longleftrightarrow> us_get S (u_outpoint u) = Some u" for u
    unfolding us(1) ran_def using utxos.content_ok [OF S] by blast
  have ok: "\<forall>u \<in> set us. utxo_ok u" using el utxos.content_ok [OF S] by blast
  have inj_op: "inj_on u_outpoint (set us)" using el by (metis inj_onI option.inject)
  then have dist: "distinct (map u_outpoint us)" using us(2) by (simp add: distinct_map)
  have "utxo_index_ok H S" using S by (simp add: utxo_set_ok_def)
  then have inj: "inj_on (utxo_key H) (set us)"
    using utxo_key_unique el unfolding inj_on_def us_get_def by meson
  have e: "utxo_set_ok H empty_utxo_set" by (rule empty_utxo_set_ok)
  have n: "us_get empty_utxo_set = Map.empty" by (simp add: us_get_eq empty_utxo_set_def)
  obtain S' where S': "UTXOSet H us = Inr S'"
    using add_utxos_total [OF e ok dist] inj by (auto simp: n UTXOSet_def)
  have st: "utxo_set_ok H S'" "us_get S' = us_get empty_utxo_set ++ map_of (map (\<lambda>u. (u_outpoint u, u)) us)"
    using add_utxos_step [OF S' [unfolded UTXOSet_def] e ok] by auto
  have "us_get S' op = us_get S op" for op
  proof -
    have "map_of (map (\<lambda>u. (u_outpoint u, u)) us) op = Some u \<longleftrightarrow> us_get S op = Some u" for u
      using dist el [of u] utxos.content_ok [OF S, of op u] by (auto simp: comp_def image_iff)
    then show ?thesis unfolding st(2) n by (metis empty_map_add not_None_eq)
  qed
  then show ?thesis using S' st(1) by blast
qed

subsection \<open>Spending\<close>

lemma spend_inputs_eq:
  "spend_inputs H E S t now height ins idx seen s = assess_inputs H E [] (us_get S) t now height ins idx seen s"
  by (induction ins arbitrary: idx seen s) (simp_all add: accept_def refuse_def Let_def cong: option.case_cong if_cong)

lemma remove_inputs_step:
  assumes "utxo_set_ok H S" "distinct (map in_previous_outpoint ins)" "\<forall>i \<in> set ins. us_get S (in_previous_outpoint i) \<noteq> None"
  shows "\<exists>S'. remove_inputs H ins S = Inr S' \<and> utxo_set_ok H S' \<and>
    us_get S' = us_get S |` (- in_previous_outpoint ` set ins) \<and>
    worth (us_get S') = worth (us_get S) - sum_list (map (\<lambda>i. u_amount_matoms (the (us_get S (in_previous_outpoint i)))) ins)"
  using assms
proof (induction ins arbitrary: S)
  case (Cons i ins)
  let ?op = "in_previous_outpoint i"
  obtain u where u: "us_get S ?op = Some u" using Cons.prems(3) by auto
  obtain S1 where S1: "us_remove H S ?op = Inr (u, S1)" "utxo_set_ok H S1" "us_get S1 = (us_get S)(?op := None)"
    using utxos.remove_ok [OF Cons.prems(1) u] by blast
  have same: "us_get S1 (in_previous_outpoint j) = us_get S (in_previous_outpoint j)" if "j \<in> set ins" for j
    using Cons.prems(2) that unfolding S1(3) by (auto simp: image_iff)
  have "\<forall>j \<in> set ins. us_get S1 (in_previous_outpoint j) \<noteq> None" using same Cons.prems(3) by simp
  from Cons.IH [OF S1(2) _ this] Cons.prems(2) obtain S' where S': "remove_inputs H ins S1 = Inr S'" "utxo_set_ok H S'"
    "us_get S' = us_get S1 |` (- in_previous_outpoint ` set ins)"
    "worth (us_get S') = worth (us_get S1) - sum_list (map (\<lambda>i. u_amount_matoms (the (us_get S1 (in_previous_outpoint i)))) ins)"
    by auto
  have "sum_list (map (\<lambda>i. u_amount_matoms (the (us_get S1 (in_previous_outpoint i)))) ins) =
      sum_list (map (\<lambda>i. u_amount_matoms (the (us_get S (in_previous_outpoint i)))) ins)"
    using same by (intro arg_cong [of _ _ sum_list] map_cong) auto
  moreover have "worth (us_get S1) = worth (us_get S) - u_amount_matoms u" unfolding S1(3) by (rule worth_delete [OF finite_us_get u])
  ultimately have "worth (us_get S') = worth (us_get S) - sum_list (map (\<lambda>i. u_amount_matoms (the (us_get S (in_previous_outpoint i)))) (i # ins))"
    using S'(4) u by simp
  moreover have "us_get S' = us_get S |` (- in_previous_outpoint ` set (i # ins))"
    unfolding S'(3) S1(3) by (auto simp: restrict_map_def fun_eq_iff)
  ultimately show ?case using S1(1) S'(1,2) by simp
qed (simp add: restrict_map_def)

lemma burned_fee_eq: "0 \<le> floor_rate \<Longrightarrow> burned_fee_matoms floor_rate (int (length (tx_to_bytes t))) = Inr (burned_part floor_rate t)"
  using tx_bytes_pos [of t] by (simp add: burned_fee_matoms_def burned_part_def bnd_Inr_iff)

lemma spend_inputs_accept:
  assumes "tx_ok t"
  shows "spend_inputs H E S t now height (tx_inputs t) 0 {} 0 = Inr (Inr amount) \<longleftrightarrow>
    distinct (input_outpoints t) \<and> (\<forall>i < length (tx_inputs t). spendable H E (us_get S) t now height i) \<and>
    amount = sum_list (map (\<lambda>op. u_amount_matoms (the (us_get S op))) (input_outpoints t))"
  using assess_inputs_iff [OF assms, of "[]" "tx_inputs t" 0 H E "[]" "us_get S" now height "{}" 0 amount]
  by (simp add: spend_inputs_eq input_outpoints_def comp_def) auto

lemma spendable_present:
  assumes "\<forall>i < length (tx_inputs t). spendable H E view t now height i"
  shows "\<forall>i \<in> set (tx_inputs t). view (in_previous_outpoint i) \<noteq> None"
  using assms by (fastforce simp: in_set_conv_nth spendable_def)

lemma apply_spend_tx_accept:
  assumes "tx_ok t" "utxo_set_ok H S" "0 \<le> floor_rate"
  shows "apply_spend_tx H E S t tree shard floor_rate now height = Inr (Inr (tip, S')) \<longleftrightarrow>
    applicable H E (us_get S) t tree shard floor_rate now height \<and>
    tip = max 0 (tx_fee (us_get S) t - burned_part floor_rate t) \<and> remove_inputs H (tx_inputs t) S = Inr S'"
proof -
  let ?in = "sum_list (map (\<lambda>op. u_amount_matoms (the (us_get S op))) (input_outpoints t))"
  let ?out = "sum_list (map out_amount_matoms (tx_outputs t))"
  have "apply_spend_tx H E S t tree shard floor_rate now height = Inr (Inr (tip, S')) \<longleftrightarrow>
     route_tx tree (tx_id H t) = Inr shard \<and>
     (\<exists>u. check_locks (tx_locktime_ms t) (tx_lockheight t) now height = Inr u) \<and>
     spend_inputs H E S t now height (tx_inputs t) 0 {} 0 = Inr (Inr ?in) \<and>
     0 \<le> tx_fee (us_get S) t \<and> floor_rate \<le> tx_rate (us_get S) t \<and>
     tip = max 0 (tx_fee (us_get S) t - burned_part floor_rate t) \<and> remove_inputs H (tx_inputs t) S = Inr S'"
    unfolding apply_spend_tx_def Let_def tx_rate_def tx_fee_def
    by (auto simp: answer_iff burned_fee_eq [OF assms(3)] spend_inputs_accept [OF assms(1)] split: if_splits)
  also have "\<dots> \<longleftrightarrow> applicable H E (us_get S) t tree shard floor_rate now height \<and>
    tip = max 0 (tx_fee (us_get S) t - burned_part floor_rate t) \<and> remove_inputs H (tx_inputs t) S = Inr S'"
    using check_locks_Inr [OF assms(1), of now height] by (auto simp: applicable_def spend_inputs_accept [OF assms(1)])
  finally show ?thesis .
qed

lemma apply_spend_tx_step:
  assumes "tx_ok t" "utxo_set_ok H S" "0 \<le> floor_rate" "apply_spend_tx H E S t tree shard floor_rate now height = Inr (Inr (tip, S'))"
  shows "utxo_set_ok H S'" "us_get S' = us_get S |` (- set (input_outpoints t))" "0 \<le> tip"
    "worth (us_get S') + sum_list (map out_amount_matoms (tx_outputs t)) + tip \<le> worth (us_get S)"
proof -
  have a: "applicable H E (us_get S) t tree shard floor_rate now height"
    "tip = max 0 (tx_fee (us_get S) t - burned_part floor_rate t)" "remove_inputs H (tx_inputs t) S = Inr S'"
    using assms(4) unfolding apply_spend_tx_accept [OF assms(1-3)] by auto
  have pre: "distinct (map in_previous_outpoint (tx_inputs t))" "\<forall>i \<in> set (tx_inputs t). us_get S (in_previous_outpoint i) \<noteq> None"
    using a(1) spendable_present [of t H E "us_get S" now height] by (auto simp: applicable_def input_outpoints_def)
  from remove_inputs_step [OF assms(2) pre] a(3)
  show "utxo_set_ok H S'" "us_get S' = us_get S |` (- set (input_outpoints t))" by (auto simp: input_outpoints_def)
  have "worth (us_get S') = worth (us_get S) - sum_list (map (\<lambda>i. u_amount_matoms (the (us_get S (in_previous_outpoint i)))) (tx_inputs t))"
    using remove_inputs_step [OF assms(2) pre] a(3) by auto
  then have "worth (us_get S') + sum_list (map out_amount_matoms (tx_outputs t)) = worth (us_get S) - tx_fee (us_get S) t"
    by (simp add: tx_fee_def input_outpoints_def comp_def)
  moreover have "0 \<le> burned_part floor_rate t"
    using assms(3) by (simp add: burned_part_def BYTES_PER_KB_def pos_imp_zdiv_nonneg_iff)
  ultimately show "worth (us_get S') + sum_list (map out_amount_matoms (tx_outputs t)) + tip \<le> worth (us_get S)" "0 \<le> tip"
    using a(1,2) by (auto simp: applicable_def)
qed

subsection \<open>Outputs become unspent outputs\<close>

lemma utxo_from_output_Inr:
  "utxo_from_output H t i m = Inr u \<Longrightarrow>
   i < length (tx_outputs t) \<and> utxo_ok u \<and> u_outpoint u = \<lparr>op_tx_id = tx_id H t, op_output_index = int i\<rparr> \<and>
   u_amount_matoms u = out_amount_matoms (tx_outputs t ! i) \<and> m \<le> u_lockheight u"
  by (auto simp: utxo_from_output_def Let_def bnd_Inr_iff Outpoint_Inr_iff UTXO_Inr_iff split: if_splits)

lemma utxo_from_anchor_output_Inr:
  "utxo_from_anchor_output H h i out = Inr u \<Longrightarrow> utxo_ok u \<and> u_amount_matoms u = out_amount_matoms out"
  by (auto simp: utxo_from_anchor_output_def Let_def bnd_Inr_iff Outpoint_Inr_iff UTXO_Inr_iff)

lemma create_outputs_step:
  assumes "create_outputs H t idxs S created = Inr (S', created')" "utxo_set_ok H S"
  shows "utxo_set_ok H S' \<and> worth (us_get S') = worth (us_get S) + sum_list (map (\<lambda>i. out_amount_matoms (tx_outputs t ! i)) idxs)"
  using assms
proof (induction idxs arbitrary: S created)
  case (Cons i idxs)
  obtain u S1 where u: "utxo_from_output H t i 0 = Inr u" "us_add H S u = Inr S1"
    "create_outputs H t idxs S1 (created @ [u]) = Inr (S', created')"
    using Cons.prems(1) by (auto simp: bnd_Inr_iff)
  note U = utxo_from_output_Inr [OF u(1)]
  note step = us_add_step [OF Cons.prems(2) conjunct1 [OF conjunct2 [OF U]] u(2)]
  show ?case using Cons.IH [OF u(3) step(1)] step(4) U by simp
qed simp

lemma sum_outputs: "sum_list (map (\<lambda>i. out_amount_matoms (tx_outputs t ! i)) [0..<length (tx_outputs t)]) = sum_list (map out_amount_matoms (tx_outputs t))"
  by (rule arg_cong [of _ _ sum_list], rule nth_equalityI) simp_all

subsection \<open>The fruits of an anchor\<close>

lemma tips_ok_add:
  assumes "tips_ok tips" "0 \<le> tip"
  shows "tips_ok (dict_set h (dict_or tips h 0 + tip) tips)" "dict_sum (dict_set h (dict_or tips h 0 + tip) tips) = dict_sum tips + tip"
proof -
  have d: "dict_ok tips" using assms(1) by (simp add: tips_ok_def)
  show "dict_sum (dict_set h (dict_or tips h 0 + tip) tips) = dict_sum tips + tip" by (simp add: dict_sum_set [OF d])
  have "0 \<le> dict_or tips h 0" using assms(1) by (auto simp: dict_or_def tips_ok_def split: option.splits)
  then show "tips_ok (dict_set h (dict_or tips h 0 + tip) tips)"
    using assms unfolding tips_ok_def by (auto simp: update_conv' distinct_update)
qed

lemma apply_txs_step:
  assumes "apply_txs H E tree f floor_rate height h ts r = Inr (Inr r')" "\<forall>t \<in> set ts. tx_ok t" "0 \<le> floor_rate" "run_ok H v r"
  shows "run_ok H v r'"
  using assms(1,2,4)
proof (induction ts arbitrary: r)
  case (Cons t ts)
  let ?r = "r\<lparr>fr_covered_tx_ids := insert (tx_id H t) (fr_covered_tx_ids r)\<rparr>"
  show ?case
  proof (cases "\<exists>inp \<in> set (tx_inputs t). in_previous_outpoint inp \<in> set (fr_spent_outpoints ?r)
      \<or> op_tx_id (in_previous_outpoint inp) \<in> fr_skipped_tx_ids ?r")
    case True
    then have "apply_txs H E tree f floor_rate height h ts (?r\<lparr>fr_skipped_tx_ids := insert (tx_id H t) (fr_skipped_tx_ids ?r)\<rparr>) = Inr (Inr r')"
      using Cons.prems(1) by (simp add: Let_def)
    then show ?thesis by (rule Cons.IH) (use Cons.prems(2,3) in \<open>auto simp: run_ok_def\<close>)
  next
    case False
    obtain tip S S' created where
      s: "apply_spend_tx H E (fr_staged r) t tree (fh_shard_id (f_header f)) floor_rate (fh_timestamp_ms (f_header f)) height = Inr (Inr (tip, S))"
        "create_outputs H t [0..<length (tx_outputs t)] S (fr_created_utxos r) = Inr (S', created)"
        "apply_txs H E tree f floor_rate height h ts
          (?r\<lparr>fr_staged := S',
             fr_spent_outpoints := fold (\<lambda>inp. List.insert (in_previous_outpoint inp)) (tx_inputs t) (fr_spent_outpoints r),
             fr_created_utxos := created,
             fr_effective_tips := dict_set h (dict_or (fr_effective_tips r) h 0 + tip) (fr_effective_tips r)\<rparr>) = Inr (Inr r')"
      using Cons.prems(1) False by (auto simp: Let_def answer_iff)
    have t: "tx_ok t" and ok: "utxo_set_ok H (fr_staged r)" "tips_ok (fr_effective_tips r)"
      using Cons.prems(2,3) by (auto simp: run_ok_def)
    note spend = apply_spend_tx_step [OF t ok(1) assms(3) s(1)]
    note made = create_outputs_step [OF s(2) spend(1), unfolded sum_outputs]
    note tips = tips_ok_add [OF ok(2) spend(3), of h]
    show ?thesis
    proof (rule Cons.IH [OF s(3)])
      show "run_ok H v (?r\<lparr>fr_staged := S',
             fr_spent_outpoints := fold (\<lambda>inp. List.insert (in_previous_outpoint inp)) (tx_inputs t) (fr_spent_outpoints r),
             fr_created_utxos := created,
             fr_effective_tips := dict_set h (dict_or (fr_effective_tips r) h 0 + tip) (fr_effective_tips r)\<rparr>)"
        using made spend(4) tips Cons.prems(3) by (simp add: run_ok_def)
    qed (use Cons.prems(2) in simp)
  qed
qed simp

lemma each_tx_ok: "each tx_from_bytes raws = Inr ts \<Longrightarrow> \<forall>t \<in> set ts. tx_ok t"
proof (induction raws arbitrary: ts)
  case (Cons raw raws)
  then show ?case using tx_to_from_bytes by (auto simp: bnd_Inr_iff)
qed simp

lemma apply_fruits_step:
  assumes "apply_fruits H E R db tree floors height hs r = Inr (Inr r')" "floors_ok floors" "run_ok H v r"
  shows "run_ok H v r'"
  using assms(1,3)
proof (induction hs arbitrary: r)
  case (Cons h hs)
  obtain f ts r1 where s: "load_fruit H R db h = Some f" "each tx_from_bytes (f_transactions f) = Inr ts"
    "apply_txs H E tree f (dict_or floors (fh_shard_id (f_header f)) 0) height h (drop 1 ts) r = Inr (Inr r1)"
    "apply_fruits H E R db tree floors height hs r1 = Inr (Inr r')"
    using Cons.prems(1) by (auto simp: answer_iff Let_def split: option.splits)
  have "0 \<le> dict_or floors (fh_shard_id (f_header f)) 0"
    using assms(2) by (auto simp: dict_or_def floors_ok_def split: option.splits)
  moreover have "\<forall>t \<in> set (drop 1 ts). tx_ok t" using each_tx_ok [OF s(2)] by (auto dest: in_set_dropD)
  ultimately have "run_ok H v r1" using apply_txs_step [OF s(3)] Cons.prems(2) by simp
  then show ?case by (rule Cons.IH [OF s(4)])
qed simp

lemma apply_anchor_fruits_step:
  assumes "apply_anchor_fruits H E R db a staged tree floors height = Inr (Inr af)" "floors_ok floors" "utxo_set_ok H staged"
  shows "utxo_set_ok H (af_staged af) \<and> tips_ok (af_effective_tips af) \<and>
    worth (us_get (af_staged af)) + dict_sum (af_effective_tips af) \<le> worth (us_get staged)"
proof -
  obtain hs r where s: "apply_fruits H E R db tree floors height hs
           \<lparr>fr_staged = staged, fr_spent_outpoints = [], fr_created_utxos = [], fr_effective_tips = [],
            fr_covered_tx_ids = {}, fr_skipped_tx_ids = {}\<rparr> = Inr (Inr r)"
    "af_staged af = fr_staged r" "af_effective_tips af = fr_effective_tips r"
    using assms(1) by (auto simp: apply_anchor_fruits_def answer_iff split: option.splits)
  have "run_ok H (worth (us_get staged)) r"
    by (rule apply_fruits_step [OF s(1) assms(2)]) (use assms(3) in \<open>simp add: run_ok_def tips_ok_def dict_sum_def\<close>)
  then show ?thesis using s(2,3) by (simp add: run_ok_def)
qed

subsection \<open>Rewards\<close>

lemma claim_outputs_step:
  assumes "claim_outputs H staged t m idxs (us, seen) = Inr (Inr (us', seen'))"
  shows "\<exists>new. us' = us @ new \<and> (\<forall>u \<in> set new. utxo_ok u \<and> m \<le> u_lockheight u) \<and>
    sum_list (map u_amount_matoms new) = sum_list (map (\<lambda>i. out_amount_matoms (tx_outputs t ! i)) idxs)"
  using assms
proof (induction idxs arbitrary: us seen)
  case (Cons i idxs)
  obtain u where u: "utxo_from_output H t i m = Inr u"
    "claim_outputs H staged t m idxs (us @ [u], insert (u_outpoint u) seen) = Inr (Inr (us', seen'))"
    using Cons.prems by (auto simp: bnd_Inr_iff split: if_splits)
  from Cons.IH [OF u(2)] obtain new where "us' = us @ u # new" "\<forall>u \<in> set new. utxo_ok u \<and> m \<le> u_lockheight u"
    "sum_list (map u_amount_matoms new) = sum_list (map (\<lambda>i. out_amount_matoms (tx_outputs t ! i)) idxs)" by auto
  then show ?case using utxo_from_output_Inr [OF u(1)] by (intro exI [of _ "u # new"]) simp
qed simp

lemma claim_anchor_outputs_step:
  assumes "claim_anchor_outputs H staged h i outs (us, seen) = Inr (Inr (us', seen'))"
  shows "\<exists>new. us' = us @ new \<and> (\<forall>u \<in> set new. utxo_ok u) \<and>
    sum_list (map u_amount_matoms new) = sum_list (map out_amount_matoms outs)"
  using assms
proof (induction outs arbitrary: i us seen)
  case (Cons out outs)
  obtain u where u: "utxo_from_anchor_output H h i out = Inr u"
    "claim_anchor_outputs H staged h (i + 1) outs (us @ [u], insert (u_outpoint u) seen) = Inr (Inr (us', seen'))"
    using Cons.prems by (auto simp: bnd_Inr_iff split: if_splits)
  from Cons.IH [OF u(2)] obtain new where "us' = us @ u # new" "\<forall>u \<in> set new. utxo_ok u"
    "sum_list (map u_amount_matoms new) = sum_list (map out_amount_matoms outs)" by auto
  then show ?case using utxo_from_anchor_output_Inr [OF u(1)] by (intro exI [of _ "u # new"]) simp
qed simp

lemma claim_fruits_step:
  fixes metas coinbases tips assigned
  defines "claim \<equiv> \<lambda>h. fm_coinbase_claim_matoms (the (dict_get metas h))"
    and "pays \<equiv> \<lambda>h. sum_list (map out_amount_matoms (tx_outputs (the (dict_get coinbases h))))"
  assumes "claim_fruits H staged claimed (metas, coinbases, keys) assigned tips m hs r = Inr (Inr r')"
  shows "(\<exists>new. cr_reward_utxos r' = cr_reward_utxos r @ new \<and> (\<forall>u \<in> set new. utxo_ok u \<and> m \<le> u_lockheight u) \<and>
      sum_list (map u_amount_matoms new) = sum_list (map pays hs)) \<and>
    cr_newly_claimed r' = cr_newly_claimed r @ hs \<and>
    cr_minted_increment r' = cr_minted_increment r + sum_list (map (\<lambda>h. max 0 (claim h - dict_or tips h 0)) hs) \<and>
    (\<forall>h \<in> set hs. dict_get claimed h = None \<and> (\<exists>v. dict_get assigned h = Some v \<and> claim h \<le> v + dict_or tips h 0))"
  using assms(3)
proof (induction hs arbitrary: r)
  case (Cons h hs)
  obtain meta v t us seen where s: "dict_get claimed h = None" "dict_get metas h = Some meta" "dict_get assigned h = Some v"
    "fm_coinbase_claim_matoms meta \<le> v + dict_or tips h 0" "dict_get coinbases h = Some t"
    "claim_outputs H staged t m [0..<length (tx_outputs t)] (cr_reward_utxos r, cr_seen_outpoints r) = Inr (Inr (us, seen))"
    "claim_fruits H staged claimed (metas, coinbases, keys) assigned tips m hs
       \<lparr>cr_reward_utxos = us, cr_seen_outpoints = seen, cr_newly_claimed = cr_newly_claimed r @ [h],
        cr_minted_increment = cr_minted_increment r + max 0 (fm_coinbase_claim_matoms meta - dict_or tips h 0)\<rparr> = Inr (Inr r')"
    using Cons.prems by (auto simp: answer_iff Let_def split: if_splits)
  obtain new where new: "us = cr_reward_utxos r @ new" "\<forall>u \<in> set new. utxo_ok u \<and> m \<le> u_lockheight u"
    "sum_list (map u_amount_matoms new) = pays h"
    using claim_outputs_step [OF s(6), unfolded sum_outputs] s(5) by (auto simp: pays_def)
  have ch: "claim h = fm_coinbase_claim_matoms meta" by (simp add: claim_def s(2))
  obtain new' where new': "cr_reward_utxos r' = us @ new'" "\<forall>u \<in> set new'. utxo_ok u \<and> m \<le> u_lockheight u"
    "sum_list (map u_amount_matoms new') = sum_list (map pays hs)"
    and IH: "cr_newly_claimed r' = (cr_newly_claimed r @ [h]) @ hs"
    "cr_minted_increment r' = cr_minted_increment r + max 0 (claim h - dict_or tips h 0)
       + sum_list (map (\<lambda>h. max 0 (claim h - dict_or tips h 0)) hs)"
    "\<forall>h \<in> set hs. dict_get claimed h = None \<and> (\<exists>v. dict_get assigned h = Some v \<and> claim h \<le> v + dict_or tips h 0)"
    using Cons.IH [OF s(7)] unfolding ch by auto
  have "\<exists>new. cr_reward_utxos r' = cr_reward_utxos r @ new \<and> (\<forall>u \<in> set new. utxo_ok u \<and> m \<le> u_lockheight u) \<and>
      sum_list (map u_amount_matoms new) = sum_list (map pays (h # hs))"
    using new new' by (intro exI [of _ "new @ new'"]) auto
  then show ?case using IH s(1,3,4) ch by simp
qed simp

lemma collect_claims_step:
  assumes "collect_claims H R db hs (metas, coinbases, keys) = Inr (Inr (metas', coinbases', keys'))" "distinct hs" "metas_match H R db"
    "dict_ok keys"
  shows "(\<forall>h \<in> set hs. fm_coinbase_claim_matoms (the (dict_get metas' h)) =
       sum_list (map out_amount_matoms (tx_outputs (the (dict_get coinbases' h))))) \<and>
    (\<forall>h. h \<notin> set hs \<longrightarrow> dict_get metas' h = dict_get metas h \<and> dict_get coinbases' h = dict_get coinbases h) \<and>
    dict_ok keys' \<and> set (map fst keys') = set (map fst keys) \<union> set hs"
  using assms(1,2,4)
proof (induction hs arbitrary: metas coinbases keys)
  case (Cons h hs)
  obtain m where m: "fruit_meta_of R db h = Inr (Some m)"
    using Cons.prems(1) by (cases "fruit_meta_of R db h") (auto split: option.split_asm)
  obtain f where f: "load_fruit H R db h = Some f" using Cons.prems(1) by (cases "load_fruit H R db h") (auto simp: m)
  obtain raw rest where raw: "f_transactions f = raw # rest"
    using Cons.prems(1) by (cases "f_transactions f") (auto simp: m f andthen_def)
  obtain t where s: "tx_from_bytes raw = Inr t"
    "collect_claims H R db hs (dict_set h m metas, dict_set h t coinbases, dict_set h (coinbase_reward_key H t) keys) =
       Inr (Inr (metas', coinbases', keys'))"
    using Cons.prems(1) by (auto simp: m f raw answer_iff)
  have d: "dict_ok (dict_set h (coinbase_reward_key H t) keys)" using Cons.prems(3) by (simp add: distinct_update)
  note IH = Cons.IH [OF s(2) _ d]
  have "fm_coinbase_claim_matoms m = sum_list (map out_amount_matoms (tx_outputs t))"
    using assms(3) m f raw s(1) unfolding metas_match_def by blast
  moreover have "dict_get metas' h = Some m" "dict_get coinbases' h = Some t"
    using IH Cons.prems(2) by (auto simp: update_conv')
  moreover have "set (map fst (dict_set h (coinbase_reward_key H t) keys)) = insert h (set (map fst keys))"
    using dom_update [of h "coinbase_reward_key H t" keys] by (simp add: dom_map_of_conv_image_fst)
  ultimately show ?case using IH Cons.prems(2) by (auto simp: update_conv')
qed simp

lemma dict_part_sum:
  assumes "dict_ok d" "\<forall>k v. dict_get d k = Some v \<longrightarrow> 0 \<le> v" "distinct hs"
  shows "sum_list (map (\<lambda>h. dict_or d h 0) hs) \<le> dict_sum d"
proof -
  have pos: "0 \<le> dict_or d h 0" for h using assms(2) by (auto simp: dict_or_def split: option.splits)
  have "sum_list (map (\<lambda>h. dict_or d h 0) hs) = (\<Sum>h \<in> set hs. dict_or d h 0)"
    using assms(3) by (simp add: sum_list_distinct_conv_sum_set)
  also have "\<dots> \<le> (\<Sum>h \<in> set hs \<union> dom (dict_get d). dict_or d h 0)"
    using pos by (intro sum_mono2) (auto simp: finite_dom_map_of)
  also have "\<dots> = (\<Sum>h \<in> dom (dict_get d). dict_or d h 0)"
    by (rule sum.mono_neutral_right) (auto simp: finite_dom_map_of dict_or_def split: option.splits)
  also have "\<dots> = dict_sum d" unfolding dict_sum_eq [OF assms(1)] by (intro sum.cong) (auto simp: dict_or_def)
  finally show ?thesis .
qed

text \<open>The sums behind the claims of an anchor: what the coinbases pay is covered by the tips and the newly minted part, which
  the assigned subsidies bound.\<close>

lemma claims_arith:
  fixes claim tip assigned :: "bytes \<Rightarrow> int"
  assumes "\<forall>h \<in> set hs. claim h \<le> assigned h + tip h \<and> 0 \<le> assigned h"
  shows "sum_list (map claim hs) \<le> sum_list (map (\<lambda>h. max 0 (claim h - tip h)) hs) + sum_list (map tip hs)"
    "sum_list (map (\<lambda>h. max 0 (claim h - tip h)) hs) \<le> sum_list (map assigned hs)"
    "0 \<le> sum_list (map (\<lambda>h. max 0 (claim h - tip h)) hs)"
  using assms by (induction hs) auto

lemma claim_anchor_rewards_step:
  assumes "claim_anchor_rewards H R db a ah height target tips staged before claimed = Inr (Inr cw)"
    "distinct (a_covered_fruit_hashes a)" "metas_match H R db" "tips_ok tips" "before \<le> MAX_SUPPLY_MATOMS"
    "\<forall>out \<in> set (a_anchor_reward_outputs a). output_ok out"
  shows "(\<forall>u \<in> set (cw_reward_utxos cw). utxo_ok u) \<and>
    sum_list (map u_amount_matoms (cw_reward_utxos cw)) \<le> cw_minted_increment cw + dict_sum tips \<and>
    0 \<le> cw_minted_increment cw \<and> before + cw_minted_increment cw \<le> MAX_SUPPLY_MATOMS \<and>
    (a_covered_fruit_hashes a \<noteq> [] \<longrightarrow> (\<exists>s. interval_subsidy_matoms height before = Inr s \<and> cw_minted_increment cw \<le> s)) \<and>
    cw_newly_claimed cw = a_covered_fruit_hashes a \<and> (\<forall>h \<in> set (a_covered_fruit_hashes a). dict_get claimed h = None)"
proof (cases "a_covered_fruit_hashes a = []")
  case True
  have "0 \<le> dict_sum tips" using dict_part_sum [of tips "[]"] assms(4) by (simp add: tips_ok_def)
  then show ?thesis using assms(1,5) True by (auto simp: claim_anchor_rewards_def)
next
  case False
  let ?hs = "a_covered_fruit_hashes a"
  let ?outs = "sum_list (map out_amount_matoms (a_anchor_reward_outputs a))"
  obtain s fp pool metas coinbases keys assigned m r us seen where
    s: "interval_subsidy_matoms height before = Inr s" "reward_pools (int (length ?hs)) s target = Inr (fp, pool)" "?outs \<le> pool"
      "collect_claims H R db ?hs ([], [], []) = Inr (Inr (metas, coinbases, keys))"
      "fruit_subsidy_assignments keys s target = Inr assigned"
      "claim_fruits H staged claimed (metas, coinbases, keys) assigned tips m ?hs
        \<lparr>cr_reward_utxos = [], cr_seen_outpoints = {}, cr_newly_claimed = [], cr_minted_increment = ?outs\<rparr> = Inr (Inr r)"
      "claim_anchor_outputs H staged ah 0 (a_anchor_reward_outputs a) (cr_reward_utxos r, cr_seen_outpoints r) = Inr (Inr (us, seen))"
      "before + cr_minted_increment r \<le> MAX_SUPPLY_MATOMS"
    and cw: "cw = \<lparr>cw_reward_utxos = us, cw_minted_increment = cr_minted_increment r, cw_newly_claimed = cr_newly_claimed r\<rparr>"
    using assms(1) False by (auto simp: claim_anchor_rewards_def answer_iff output_sum_of_def Let_def split: if_splits)
  define claim where "claim = (\<lambda>h. fm_coinbase_claim_matoms (the (dict_get metas h)))"
  note col = collect_claims_step [OF s(4) assms(2,3)]
  note cf = claim_fruits_step [OF s(6)]
  have keys: "dict_ok keys" "set (map fst keys) = set ?hs" using col by auto
  have len: "length keys = length ?hs" using keys assms(2) by (metis distinct_card length_map)
  have ne: "keys \<noteq> []" using keys False by auto
  obtain fp' pool' where spec: "reward_pools (int (length keys)) s target = Inr (fp', pool')" "fp' + pool' = s"
    "dict_ok assigned" "sum_list (map snd assigned) = fp'" "\<forall>v \<in> set (map snd assigned). 0 \<le> v"
    using fruit_assignments_spec [OF keys(1) ne s(5)] by blast
  have pools: "fp + pool = s" "dict_sum assigned = fp" using spec s(2) len by (auto simp: dict_sum_def)
  have apos: "\<forall>k v. dict_get assigned k = Some v \<longrightarrow> 0 \<le> v" using spec(5) by (force dest: map_of_SomeD)
  have pays: "map (\<lambda>h. sum_list (map out_amount_matoms (tx_outputs (the (dict_get coinbases h))))) ?hs = map claim ?hs"
    using col by (simp add: claim_def)
  have bound: "\<forall>h \<in> set ?hs. claim h \<le> dict_or assigned h 0 + dict_or tips h 0 \<and> 0 \<le> dict_or assigned h 0"
    using cf apos by (fastforce simp: claim_def dict_or_def)
  note ar = claims_arith [OF bound]
  have inc: "cr_minted_increment r = ?outs + sum_list (map (\<lambda>h. max 0 (claim h - dict_or tips h 0)) ?hs)"
    using cf by (simp add: claim_def)
  obtain new where new: "cr_reward_utxos r = new" "\<forall>u \<in> set new. utxo_ok u" "sum_list (map u_amount_matoms new) = sum_list (map claim ?hs)"
    using cf unfolding pays by auto
  obtain new' where new': "us = new @ new'" "\<forall>u \<in> set new'. utxo_ok u" "sum_list (map u_amount_matoms new') = ?outs"
    using claim_anchor_outputs_step [OF s(7)] new(1) by auto
  have "0 \<le> ?outs" using assms(6) by (intro sum_list_nonneg) (auto simp: output_ok_def)
  moreover have "sum_list (map (\<lambda>h. dict_or tips h 0) ?hs) \<le> dict_sum tips"
    using dict_part_sum [OF _ _ assms(2)] assms(4) by (simp add: tips_ok_def)
  moreover have "sum_list (map (\<lambda>h. dict_or assigned h 0) ?hs) \<le> dict_sum assigned"
    using dict_part_sum [OF spec(3) apos assms(2)] .
  ultimately show ?thesis using s(1,3,8) cf new new' ar inc pools by (auto simp: cw)
qed

subsection \<open>Branches\<close>

lemma covered_distinct: "anchor_ok H a \<Longrightarrow> distinct (a_covered_fruit_hashes a)"
  by (auto simp: anchor_ok_def Anchor_def bnd_Inr_iff blk_require_hash_tuple_def card_distinct)

lemma covered_nonempty: "anchor_ok H a \<Longrightarrow> \<not> is_genesis_anchor a \<Longrightarrow> a_covered_fruit_hashes a \<noteq> []"
  by (auto simp: anchor_ok_def Anchor_def bnd_Inr_iff)

lemma dict_get_fold_set:
  "dict_get (fold (\<lambda>k. dict_set k v) ks d) = (\<lambda>k. if k \<in> set ks then Some v else dict_get d k)"
  by (induction ks arbitrary: d) (auto simp: fun_eq_iff update_conv')

lemma floors_ok_entries:
  "\<forall>e \<in> set es. fee_ok e \<Longrightarrow> floors_ok d \<Longrightarrow> floors_ok (fold (\<lambda>e. dict_set (ff_shard_id e) (ff_floor_matoms_per_kb e)) es d)"
proof (induction es arbitrary: d)
  case (Cons e es)
  have "floors_ok (dict_set (ff_shard_id e) (ff_floor_matoms_per_kb e) d)"
    using Cons.prems by (simp add: floors_ok_def fee_ok_def update_conv')
  then show ?case using Cons.IH Cons.prems(1) by simp
qed simp

lemma branch_ok_empty: "branch_ok H empty_branch"
proof -
  have "us_get empty_utxo_set = Map.empty" by (simp add: us_get_eq empty_utxo_set_def)
  then show ?thesis
    by (simp add: branch_ok_def empty_branch_def empty_utxo_set_ok floors_ok_def worth_def MAX_SUPPLY_MATOMS_def default_tree_ok)
qed

lemma apply_anchor_step:
  assumes "apply_anchor_to_branch H E R db a ah height target st = Inr (Inr st')" "branch_ok H st" "anchor_ok H a" "metas_match H R db"
  shows "branch_ok H st' \<and> bs_height st' = height \<and> bs_minted_supply st \<le> bs_minted_supply st' \<and>
    (a_covered_fruit_hashes a = [] \<longrightarrow> bs_minted_supply st' = bs_minted_supply st) \<and>
    (a_covered_fruit_hashes a \<noteq> [] \<longrightarrow> (\<exists>s. interval_subsidy_matoms height (bs_minted_supply st) = Inr s \<and>
       bs_minted_supply st' \<le> bs_minted_supply st + s)) \<and>
    (\<forall>h \<in> set (a_covered_fruit_hashes a). dict_get (bs_claimed_fruits st) h = None) \<and>
    dict_get (bs_claimed_fruits st') = (\<lambda>h. if h \<in> set (a_covered_fruit_hashes a) then Some height else dict_get (bs_claimed_fruits st) h)"
proof -
  obtain tree staged af cw S where s: "deserialize_tree (a_shard_tree_bytes a) = Inr tree"
    "UTXOSet H (us_list (bs_utxo_set st)) = Inr staged"
    "apply_anchor_fruits H E R db a staged (bs_shard_tree st) (bs_fee_floors st) height = Inr (Inr af)"
    "claim_anchor_rewards H R db a ah height target (af_effective_tips af) (af_staged af) (bs_minted_supply st) (bs_claimed_fruits st) = Inr (Inr cw)"
    "add_utxos H (cw_reward_utxos cw) (af_staged af) = Inr S"
    and st': "st' = \<lparr>bs_height = height, bs_shard_tree = tree,
               bs_fee_floors = fold (\<lambda>entry. dict_set (ff_shard_id entry) (ff_floor_matoms_per_kb entry)) (a_fee_floor_entries a) [],
               bs_utxo_set = S, bs_minted_supply = bs_minted_supply st + cw_minted_increment cw,
               bs_claimed_fruits = fold (\<lambda>fruit_hash. dict_set fruit_hash height) (cw_newly_claimed cw) (bs_claimed_fruits st),
               bs_confirmed_tx_ids = bs_confirmed_tx_ids st \<union> set (af_covered_tx_ids af)\<rparr>"
    using assms(1) by (auto simp: apply_anchor_to_branch_def answer_iff split: if_splits)
  have b: "utxo_set_ok H (bs_utxo_set st)" "floors_ok (bs_fee_floors st)" "worth (us_get (bs_utxo_set st)) \<le> bs_minted_supply st"
    "bs_minted_supply st \<le> MAX_SUPPLY_MATOMS" using assms(2) by (auto simp: branch_ok_def)
  have copy: "utxo_set_ok H staged" "us_get staged = us_get (bs_utxo_set st)" using UTXOSet_copy [OF b(1)] s(2) by auto
  note fruits = apply_anchor_fruits_step [OF s(3) b(2) copy(1)]
  have a: "\<forall>e \<in> set (a_fee_floor_entries a). fee_ok e" "\<forall>out \<in> set (a_anchor_reward_outputs a). output_ok out"
    using assms(3) by (auto simp: anchor_ok_def)
  have tips: "tips_ok (af_effective_tips af)" using fruits by simp
  note claims = claim_anchor_rewards_step [OF s(4) covered_distinct [OF assms(3)] assms(4) tips b(4) a(2)]
  have "utxo_set_ok H (af_staged af)" "\<forall>u \<in> set (cw_reward_utxos cw). utxo_ok u" using fruits claims by auto
  note added = add_utxos_step [OF s(5) this]
  have "worth (us_get S) \<le> bs_minted_supply st + cw_minted_increment cw"
    using conjunct1 [OF conjunct2 [OF added]] fruits claims b(3) by (simp add: copy(2))
  then have "branch_ok H st'"
    using conjunct1 [OF added] claims floors_ok_entries [OF a(1), of "[]"] deserialize_tree_Inr [OF s(1)]
    by (simp add: st' branch_ok_def floors_ok_def)
  moreover have "a_covered_fruit_hashes a = [] \<Longrightarrow> cw_minted_increment cw = 0"
    using s(4) by (auto simp: claim_anchor_rewards_def)
  ultimately show ?thesis using claims by (auto simp: st' dict_get_fold_set)
qed

lemma rebuild_loop_step:
  assumes "rebuild_loop H E R db hs st = Inr (Some st')" "branch_ok H st" "metas_match H R db"
  shows "branch_ok H st'"
  using assms(1,2)
proof (induction hs arbitrary: st)
  case (Cons h hs)
  obtain a where a: "load_anchor H R db h = Some a" using Cons.prems(1) by (cases "load_anchor H R db h") auto
  obtain m where m: "anchor_meta_of H R db h = Inr (Some m)"
    using Cons.prems(1) by (cases "anchor_meta_of H R db h") (auto simp: a obnd_def split: option.split_asm)
  obtain st1 where st1: "apply_anchor_to_branch H E R db a h (am_height m) (am_target m) st = Inr (Inr st1)"
    "rebuild_loop H E R db hs st1 = Inr (Some st')"
    using Cons.prems(1)
    by (cases "apply_anchor_to_branch H E R db a h (am_height m) (am_target m) st") (auto simp: a m split: sum.split_asm)
  have "anchor_ok H a" using a by (auto simp: load_anchor_Some deserialize_anchor_Inr)
  from apply_anchor_step [OF st1(1) Cons.prems(2) this assms(3)] show ?case using Cons.IH [OF st1(2)] by blast
qed simp

subsection \<open>An example\<close>

lemma mined_coinbase_ok: "tx_ok mined_coinbase"
  by code_simp

lemma mined_coinbase_decodes: "tx_from_bytes (tx_to_bytes mined_coinbase) = Inr mined_coinbase"
  using tx_from_to_bytes mined_coinbase_ok by blast

lemma mined_fruit_ok: "fruit_ok pad_hash mined_fruit"
proof -
  have "length (tx_to_bytes mined_coinbase) < 1000" by code_simp
  moreover have "tx_merkle_root pad_hash [tx_to_bytes mined_coinbase] = Inr (fh_tx_merkle_root (f_header mined_fruit))"
    by (auto simp: mined_fruit_def tx_merkle_root_def ordered_merkle_root_def merkle_require_bytes_def
        leaf_preimage_def to_bytes_ok merkle_loop.simps bnd_ensure raw_tx_id_def length_domain_hash pad_hash_digest HASH_LEN_BYTES_def)
  moreover have "fruit_header_ok (f_header mined_fruit)"
    using stored_fruit_ok by (simp add: fruit_ok_def fruit_header_ok_def mined_fruit_def length_domain_hash pad_hash_digest)
  ultimately show ?thesis by (simp add: fruit_ok_def Fruit_Inr) (simp add: mined_fruit_def)
qed

lemma mined_get: "rk_get example_rocks mined_db c k = map_of (mined_db c) k"
  by (simp add: example_rocks_def)

lemma mined_tip: "load_anchor pad_hash example_rocks mined_db tip_id = Some example_genesis_anchor"
  using example_ids genesis_decodes by (simp add: load_anchor_Some mined_get mined_db_def)

lemma mined_leaf: "load_fruit pad_hash example_rocks mined_db h = (if h = leaf_id then Some mined_fruit else None)"
proof (cases "h = leaf_id")
  case True
  then show ?thesis using example_ids mined_fruit_ok
    by (simp add: load_fruit_Some mined_get mined_db_def deserialize_fruit_Inr)
next
  case False
  have "load_fruit pad_hash example_rocks mined_db h \<noteq> Some f" for f
    using False genesis_no_fruit [of f] by (auto simp: load_fruit_Some mined_get mined_db_def)
  then show ?thesis using False by auto
qed

lemma mined_meta:
  "fruit_meta_of example_rocks mined_db leaf_id = Inr (Some \<lparr>fm_coinbase_claim_matoms = 5, fm_tip_matoms = 0\<rparr>)"
proof -
  have "encode_fruit_meta \<lparr>fm_coinbase_claim_matoms = 5, fm_tip_matoms = 0\<rparr> = Inr (le_bytes 8 5 @ le_bytes 8 0)"
    by (simp add: encode_fruit_meta_def node_u64_def U64_MAX_def)
  from fruit_meta_roundtrip [OF this] show ?thesis
    by (simp add: fruit_meta_of_def st_get_eq mined_get mined_db_def fruit_meta_key_def FRUIT_META_PREFIX_def ascii_def)
qed

lemma mined_metas_match: "metas_match pad_hash example_rocks mined_db"
proof -
  have "sum_list (map out_amount_matoms (tx_outputs mined_coinbase)) = 5" by (simp add: mined_coinbase_def)
  then show ?thesis
    by (auto simp: metas_match_def mined_leaf mined_meta mined_fruit_def mined_coinbase_decodes split: if_splits)
qed

lemma covering_anchor_ok: "anchor_ok pad_hash covering_anchor"
proof -
  have "anchor_header_ok (a_header covering_anchor)"
    using example_genesis_ok by (simp add: covering_anchor_def Let_def anchor_ok_def anchor_header_ok_def length_domain_hash pad_hash_digest example_ids)
  moreover have "\<not> is_genesis_anchor covering_anchor"
    by (simp add: is_genesis_anchor_def covering_anchor_def Let_def HASH_LEN_BYTES_def)
  then have "Anchor pad_hash covering_anchor = Inr covering_anchor"
    using example_ids(5)
    by (simp add: Anchor_def blk_require_hash_tuple_def blk_require_bytes_def bnd_ensure bnd_require_hash_len
        fruit_set_root_def parent_candidate_root_def fee_floor_set_root_def anchor_reward_root_def ordered_merkle_root_def
        merkle_require_bytes_def leaf_preimage_def to_bytes_ok merkle_loop.simps covering_anchor_def example_genesis_anchor_def Let_def zero_bytes_def
        HASH_LEN_BYTES_def SHARD_TREE_MAX_BYTES_def serialize_fee_floor_def)
  ultimately show ?thesis using example_genesis_ok by (simp add: anchor_ok_def covering_anchor_def Let_def)
qed

lemma mined_items: "map fst (st_items example_rocks mined_db COLUMN_BODIES) = [tip_id, leaf_id]"
  using tip_before_leaf example_ids(3) [symmetric] by (simp add: st_items_def example_rocks_def mined_db_def less_imp_le)

lemma mined_dag: "\<exists>dag. fruit_dag pad_hash example_rocks mined_db = Some dag"
proof -
  have hs: "stored_fruit_hashes pad_hash example_rocks mined_db = [leaf_id]"
    using example_ids by (simp add: stored_fruit_hashes_def mined_items mined_leaf)
  have ps: "fruit_parents_for_dag pad_hash example_rocks mined_db mined_fruit = Some []"
    by (simp add: fruit_parents_for_dag_def mined_fruit_def stored_fruit_def mined_tip example_genesis_anchor_def Let_def effective_parent_hashes_def
      has_bits_beyond_def example_block_fruit_def example_fruit_header_def GENESIS_PARENT_HASH_def HASH_LEN_BYTES_def)
  have "fh_timestamp_ms (f_header mined_fruit) = 1"
    by (simp add: mined_fruit_def stored_fruit_def example_block_fruit_def example_fruit_header_def)
  then have "is_ok (add_fruit empty_dag leaf_id [] (fh_timestamp_ms (f_header mined_fruit)) 1)"
    using example_ids by (simp add: add_fruit_def FruitBlock_def require_hash_tuple_def bnd_require_hash_len bnd_require_uint
        U64_MAX_def add_block_def check_parents_def empty_dag_def ensure_def)
  then show ?thesis by (auto simp: fruit_dag_def hs Let_def mined_leaf ps is_ok_iff attempt_def)
qed

lemma mined_order: "canonical_covered_fruit_order pad_hash example_rocks mined_db covering_anchor = Inr (Some [leaf_id])"
proof -
  obtain dag where dag: "fruit_dag pad_hash example_rocks mined_db = Some dag" using mined_dag by blast
  have n: "int (length (st_items example_rocks mined_db COLUMN_BODIES)) < U64_MAX"
    using arg_cong [OF mined_items, of length] by (simp add: U64_MAX_def)
  have c: "a_covered_fruit_hashes covering_anchor = [leaf_id]" by (simp add: covering_anchor_def Let_def)
  obtain order where o: "canonical_covered_fruit_order pad_hash example_rocks mined_db covering_anchor = Inr (Some order)"
    "set order = {leaf_id}" "distinct order"
    using covered_order_spec [OF example_rocks_ok n dag, of covering_anchor] by (auto simp: c mined_leaf)
  have "length order = 1" using distinct_card [OF o(3)] o(2) by simp
  then have "order = [leaf_id]" using o(2) by (cases order) auto
  then show ?thesis using o(1) by simp
qed

lemma mined_fruits:
  "apply_anchor_fruits pad_hash E example_rocks mined_db covering_anchor empty_utxo_set default_tree [] 1 =
     accept \<lparr>af_staged = empty_utxo_set, af_spent_outpoints = [], af_created_utxos = [], af_effective_tips = [], af_covered_tx_ids = []\<rparr>"
  by (simp add: apply_anchor_fruits_def mined_order mined_leaf mined_fruit_def mined_coinbase_decodes Let_def andthen_def accept_def or_refuse_def)

lemma mined_subsidy:
  "\<exists>s fp pool. interval_subsidy_matoms 1 0 = Inr s \<and> reward_pools 1 s ANCHOR_INITIAL_TARGET_LE = Inr (fp, pool) \<and> 0 \<le> pool \<and>
     (\<forall>k. length k = 32 \<longrightarrow> (\<exists>v. 5 \<le> v \<and> fruit_subsidy_assignments [(leaf_id, k)] s ANCHOR_INITIAL_TARGET_LE = Inr [(leaf_id, v)]))"
proof -
  have s: "interval_subsidy_matoms 1 0 = Inr 499429224" by code_simp
  have p: "map_sum id (\<lambda>(f, a). 5 \<le> f \<and> 0 \<le> a) (reward_pools 1 499429224 ANCHOR_INITIAL_TARGET_LE) = Inr True" by code_simp
  then obtain fp pool where fp: "reward_pools 1 499429224 ANCHOR_INITIAL_TARGET_LE = Inr (fp, pool)" "5 \<le> fp" "0 \<le> pool"
    by (cases "reward_pools 1 499429224 ANCHOR_INITIAL_TARGET_LE") auto
  have "length ANCHOR_INITIAL_TARGET_LE = 32" by code_simp
  then have "fruit_subsidy_assignments [(leaf_id, k)] 499429224 ANCHOR_INITIAL_TARGET_LE = Inr [(leaf_id, fp)]" if "length k = 32" for k
    using that fp(1) example_ids(5)
    by (simp add: fruit_subsidy_assignments_def bnd_require_nonnegative_int bnd_require_hash_len require_hash_len_def ensure_def U64_MAX_def HASH_LEN_BYTES_def)
  then show ?thesis using s fp by blast
qed

lemma mined_utxo:
  "\<exists>u. utxo_from_output pad_hash mined_coinbase 0 101 = Inr u \<and> utxo_ok u"
proof -
  have "is_ok (utxo_from_output pad_hash mined_coinbase 0 101)" by code_simp
  then show ?thesis using utxo_from_output_Inr [of pad_hash mined_coinbase 0 101] by (auto simp: is_ok_iff)
qed

lemma genesis_tree: "deserialize_tree (a_shard_tree_bytes example_genesis_anchor) = Inr default_tree"
proof -
  have "serialize_tree default_tree = Inr (a_shard_tree_bytes example_genesis_anchor)"
    by (simp add: example_genesis_anchor_def Let_def serialize_tree_def default_tree_def to_bytes_ok ROOT_SHARD_ID_def)
  from deserialize_serialize [OF default_tree_ok this] show ?thesis by (simp add: default_tree_def)
qed

lemma mined_branch:
  "\<exists>st. apply_anchor_to_branch pad_hash E example_rocks mined_db covering_anchor h 1 ANCHOR_INITIAL_TARGET_LE empty_branch = Inr (Inr st) \<and>
     bs_minted_supply st = 5 \<and> worth (us_get (bs_utxo_set st)) = 5"
proof -
  let ?a = covering_anchor
  have a: "a_covered_fruit_hashes ?a = [leaf_id]" "a_anchor_reward_outputs ?a = []" by (simp_all add: covering_anchor_def Let_def)
  obtain u where u: "utxo_from_output pad_hash mined_coinbase 0 101 = Inr u" "utxo_ok u" using mined_utxo by blast
  have amount: "u_amount_matoms u = 5" using utxo_from_output_Inr [OF u(1)] by (simp add: mined_coinbase_def)
  obtain s fp pool where s: "interval_subsidy_matoms 1 0 = Inr s" "reward_pools 1 s ANCHOR_INITIAL_TARGET_LE = Inr (fp, pool)" "0 \<le> pool"
    "\<And>k. length k = 32 \<Longrightarrow> \<exists>v. 5 \<le> v \<and> fruit_subsidy_assignments [(leaf_id, k)] s ANCHOR_INITIAL_TARGET_LE = Inr [(leaf_id, v)]"
    using mined_subsidy by blast
  have outs: "length (tx_outputs mined_coinbase) = 1" by (simp add: mined_coinbase_def)
  have key: "length (coinbase_reward_key pad_hash mined_coinbase) = 32"
    by (simp add: coinbase_reward_key_def mined_coinbase_def TEMPLATE_PKH_def HASH_LEN_BYTES_def)
  obtain v where v: "5 \<le> v" "fruit_subsidy_assignments [(leaf_id, coinbase_reward_key pad_hash mined_coinbase)] s ANCHOR_INITIAL_TARGET_LE = Inr [(leaf_id, v)]"
    using s(4) [OF key] by blast
  have claim: "claim_anchor_rewards pad_hash example_rocks mined_db ?a h 1 ANCHOR_INITIAL_TARGET_LE [] empty_utxo_set 0 [] =
      accept \<lparr>cw_reward_utxos = [u], cw_minted_increment = 5, cw_newly_claimed = [leaf_id]\<rparr>"
    using v(1) s(3)
    by (simp add: claim_anchor_rewards_def a s(1,2) output_sum_of_def Let_def or_refuse_def andthen_def accept_def mined_meta mined_leaf
        v(2) coinbase_maturity_height_def bnd_require_positive_int U64_MAX_def COINBASE_MATURITY_ANCHORS_def dict_or_def outs u(1)
        us_get_def empty_utxo_set_def MAX_SUPPLY_MATOMS_def lookup_def mined_fruit_def mined_coinbase_decodes ensure_def)
  have nil: "us_get empty_utxo_set = Map.empty" by (simp add: us_get_eq empty_utxo_set_def)
  obtain S where S: "us_add pad_hash empty_utxo_set u = Inr S"
    using us_add_total [OF empty_utxo_set_ok, of u pad_hash] by (auto simp: nil)
  have tree: "deserialize_tree (a_shard_tree_bytes ?a) = Inr default_tree"
    using genesis_tree by (simp add: covering_anchor_def Let_def)
  have "map ff_shard_id (a_fee_floor_entries ?a) = leaf_shard_ids default_tree"
    by (simp add: covering_anchor_def example_genesis_anchor_def Let_def default_tree_def ROOT_SHARD_ID_def)
  moreover have "UTXOSet pad_hash (us_list (bs_utxo_set empty_branch)) = Inr empty_utxo_set"
    by (simp add: UTXOSet_def empty_branch_def us_list_def empty_utxo_set_def)
  moreover have "worth (us_get S) = 5" using us_add_step(4) [OF empty_utxo_set_ok u(2) S] by (simp add: nil worth_def amount)
  ultimately show ?thesis
    using mined_fruits [of E] claim
    by (simp add: apply_anchor_to_branch_def tree or_refuse_def andthen_def accept_def S) (simp add: empty_branch_def S)
qed

lemma pool_tx_ok: "tx_ok pool_tx"
  unfolding pool_tx_def by code_simp

lemma spend_set_ok: "utxo_set_ok pad_hash spend_set" "us_get spend_set = [u_outpoint example_utxo \<mapsto> spend_utxo]"
proof -
  have nil: "us_get empty_utxo_set = Map.empty" by (simp add: us_get_eq empty_utxo_set_def)
  obtain S where S: "us_add pad_hash empty_utxo_set spend_utxo = Inr S"
    using us_add_total [OF empty_utxo_set_ok, of spend_utxo pad_hash] by (auto simp: nil)
  have "utxo_ok spend_utxo" by code_simp
  from us_add_step [OF empty_utxo_set_ok this S] show "utxo_set_ok pad_hash spend_set"
    "us_get spend_set = [u_outpoint example_utxo \<mapsto> spend_utxo]"
    using S by (simp_all add: spend_set_def nil) (simp add: spend_utxo_def)
qed

lemma pool_tx_applicable: "applicable pad_hash example_ed25519 (us_get spend_set) pool_tx default_tree ROOT_SHARD_ID 0 5 5"
proof -
  have ins: "tx_inputs pool_tx = [\<lparr>in_previous_outpoint = u_outpoint example_utxo, in_sequence = TX_SEQUENCE_FINAL, in_witness = replicate 96 1\<rparr>]"
    by (simp add: pool_tx_def example_tx_def)
  obtain m where m: "sighash pad_hash pool_tx 0 = Inr m" using sighash_total [of 0 pool_tx pad_hash] pool_tx_ok ins by auto
  have "spendable pad_hash example_ed25519 (us_get spend_set) pool_tx 5 5 0"
    using m pool_spend [of "u_outpoint example_utxo" m] by (simp add: spendable_def ins spend_set_ok(2) spend_utxo_def)
      (simp add: pool_tx_def example_tx_def)
  moreover have fee: "0 \<le> tx_fee (us_get spend_set) pool_tx"
    by (simp add: tx_fee_def input_outpoints_def ins spend_set_ok(2) spend_utxo_def) (simp add: pool_tx_def example_tx_def)
  moreover have "0 \<le> tx_rate (us_get spend_set) pool_tx"
    using fee tx_bytes_pos [of pool_tx] by (simp add: tx_rate_def BYTES_PER_KB_def pos_imp_zdiv_nonneg_iff)
  ultimately show ?thesis
    using root_route [OF pad_hash_digest, of pool_tx] ins
    by (simp add: applicable_def uint64_def uint_limits input_outpoints_def lock_mature_def) (simp add: pool_tx_def example_tx_def)
qed

lemma mined_rebuild: "\<exists>st. rebuild_anchor_branch_state pad_hash E example_rocks mined_db tip_id = Inr (Some st)"
proof -
  let ?a = example_genesis_anchor
  have "ancestry pad_hash example_rocks mined_db tip_id (rev [tip_id])"
    by (simp add: mined_tip) (simp add: example_genesis_anchor_def Let_def GENESIS_PARENT_HASH_def HASH_LEN_BYTES_def)
  then have chain: "anchor_chain_hashes pad_hash example_rocks mined_db tip_id = Some [tip_id]"
    using anchor_chain_iff [OF example_rocks_ok] by blast
  have "encode_anchor_meta stored_meta = Inr (le_bytes 8 0 @ zero_bytes 32 @ le_bytes 32 1)"
    by (simp add: encode_anchor_meta_def stored_meta_def node_u64_def node_u256_def zero_bytes_def HASH_LEN_BYTES_def U64_MAX_def push_bit_eq_mult)
  then have meta: "anchor_meta_of pad_hash example_rocks mined_db tip_id = Inr (Some stored_meta)"
    using anchor_meta_roundtrip
    by (simp add: anchor_meta_of_def st_get_eq mined_get mined_db_def anchor_meta_key_def ANCHOR_META_PREFIX_def fruit_meta_key_def
        FRUIT_META_PREFIX_def ascii_def)
  obtain dag where dag: "fruit_dag pad_hash example_rocks mined_db = Some dag" using mined_dag by blast
  have a: "a_covered_fruit_hashes ?a = []" by (simp add: example_genesis_anchor_def Let_def)
  have "canonical_covered_fruit_order pad_hash example_rocks mined_db ?a = Inr (Some [])"
    using covered_order_spec [OF example_rocks_ok _ dag, of ?a] arg_cong [OF mined_items, of length] by (auto simp: a U64_MAX_def)
  then have fruits: "apply_anchor_fruits pad_hash E example_rocks mined_db ?a empty_utxo_set default_tree [] height =
     accept \<lparr>af_staged = empty_utxo_set, af_spent_outpoints = [], af_created_utxos = [], af_effective_tips = [], af_covered_tx_ids = []\<rparr>" for height
    by (simp add: apply_anchor_fruits_def andthen_def accept_def)
  have "map ff_shard_id (a_fee_floor_entries ?a) = leaf_shard_ids default_tree"
    by (simp add: example_genesis_anchor_def Let_def default_tree_def ROOT_SHARD_ID_def)
  moreover have "UTXOSet pad_hash [] = Inr empty_utxo_set" "us_list empty_utxo_set = []"
    by (simp_all add: UTXOSet_def us_list_def) (simp add: empty_utxo_set_def)
  ultimately obtain st where "apply_anchor_to_branch pad_hash E example_rocks mined_db ?a tip_id (am_height stored_meta)
      (am_target stored_meta) empty_branch = Inr (Inr st)"
    using fruits by (simp add: apply_anchor_to_branch_def genesis_tree or_refuse_def andthen_def accept_def empty_branch_def claim_anchor_rewards_def a)
  then show ?thesis
    by (simp add: rebuild_anchor_branch_state_def chain mined_tip meta)
qed

section \<open>Properties\<close>

text \<open>(C5) Applying a transaction: \<open>_apply_spend_tx\<close> accepts exactly the transactions that route to the shard, whose locks
  are mature, whose inputs are distinct, present and correctly signed, and whose fee is not negative and
  reaches the floor of the shard. It then removes exactly the spent outputs; the tip is what the fee
  leaves after the burned part; and the outputs left, the new outputs and the fee add up to the value
  there was.\<close>

theorem apply_spend_tx_exact:
  assumes "tx_ok t" "utxo_set_ok H S" "0 \<le> floor_rate"
  shows "((\<exists>tip S'. apply_spend_tx H E S t tree shard floor_rate now height = Inr (Inr (tip, S'))) \<longleftrightarrow>
      applicable H E (us_get S) t tree shard floor_rate now height) \<and>
    (\<forall>tip S'. apply_spend_tx H E S t tree shard floor_rate now height = Inr (Inr (tip, S')) \<longrightarrow>
      utxo_set_ok H S' \<and> us_get S' = us_get S |` (- set (input_outpoints t)) \<and>
      tip = max 0 (tx_fee (us_get S) t - burned_part floor_rate t) \<and>
      worth (us_get S') + sum_list (map out_amount_matoms (tx_outputs t)) + tx_fee (us_get S) t = worth (us_get S))"
proof (intro conjI allI impI)
  have pre: "distinct (map in_previous_outpoint (tx_inputs t))" "\<forall>i \<in> set (tx_inputs t). us_get S (in_previous_outpoint i) \<noteq> None"
    if "applicable H E (us_get S) t tree shard floor_rate now height"
    using that spendable_present [of t H E "us_get S" now height] by (auto simp: applicable_def input_outpoints_def)
  show "(\<exists>tip S'. apply_spend_tx H E S t tree shard floor_rate now height = Inr (Inr (tip, S'))) \<longleftrightarrow>
      applicable H E (us_get S) t tree shard floor_rate now height"
    unfolding apply_spend_tx_accept [OF assms] using remove_inputs_step [OF assms(2) pre] by blast
  fix tip S'
  assume a: "apply_spend_tx H E S t tree shard floor_rate now height = Inr (Inr (tip, S'))"
  then have b: "applicable H E (us_get S) t tree shard floor_rate now height"
    "tip = max 0 (tx_fee (us_get S) t - burned_part floor_rate t)" "remove_inputs H (tx_inputs t) S = Inr S'"
    unfolding apply_spend_tx_accept [OF assms] by auto
  show "utxo_set_ok H S'" "us_get S' = us_get S |` (- set (input_outpoints t))" using apply_spend_tx_step(1,2) [OF assms a] by auto
  show "tip = max 0 (tx_fee (us_get S) t - burned_part floor_rate t)" by (rule b(2))
  have "worth (us_get S') = worth (us_get S) - sum_list (map (\<lambda>i. u_amount_matoms (the (us_get S (in_previous_outpoint i)))) (tx_inputs t))"
    using remove_inputs_step [OF assms(2) pre [OF b(1)]] b(3) by auto
  then show "worth (us_get S') + sum_list (map out_amount_matoms (tx_outputs t)) + tx_fee (us_get S) t = worth (us_get S)"
    by (simp add: tx_fee_def input_outpoints_def comp_def)
qed

theorem apply_spend_tx_exact_witness:
  "\<exists>tip S'. apply_spend_tx pad_hash example_ed25519 spend_set pool_tx default_tree ROOT_SHARD_ID 0 5 5 = Inr (Inr (tip, S')) \<and>
     us_get S' (u_outpoint example_utxo) = None"
proof -
  have "applicable pad_hash example_ed25519 (us_get spend_set) pool_tx default_tree ROOT_SHARD_ID 0 5 5" by (rule pool_tx_applicable)
  with apply_spend_tx_exact [OF pool_tx_ok spend_set_ok(1), of 0 example_ed25519 default_tree ROOT_SHARD_ID 5 5] show ?thesis
    by (auto simp: input_outpoints_def pool_tx_def example_tx_def)
qed

text \<open>(C4) An anchor creates no value beyond its subsidy. On a branch whose outputs are worth at most what was minted, a
  branch that \<open>_apply_anchor_to_branch\<close> accepts an anchor on is again such a branch: what the coinbases
  and the anchor's reward pay is covered by the tips that the covered transactions left and by the
  newly minted amount, and that amount is at most the subsidy of the interval and stays within the
  maximum supply. Every covered fruit was unclaimed before and is recorded as claimed at this height.
  The stored metadata is assumed to record what each coinbase pays.\<close>

theorem anchor_creates_no_value:
  assumes "metas_match H R db" "anchor_ok H a" "branch_ok H st"
    and "apply_anchor_to_branch H E R db a anchor_hash height target st = Inr (Inr st')"
  shows "branch_ok H st' \<and> bs_minted_supply st \<le> bs_minted_supply st' \<and>
    (a_covered_fruit_hashes a = [] \<longrightarrow> bs_minted_supply st' = bs_minted_supply st) \<and>
    (a_covered_fruit_hashes a \<noteq> [] \<longrightarrow> (\<exists>s. interval_subsidy_matoms height (bs_minted_supply st) = Inr s \<and>
       bs_minted_supply st' \<le> bs_minted_supply st + s)) \<and>
    (\<forall>h \<in> set (a_covered_fruit_hashes a). dict_get (bs_claimed_fruits st) h = None) \<and>
    dict_get (bs_claimed_fruits st') = (\<lambda>h. if h \<in> set (a_covered_fruit_hashes a) then Some height else dict_get (bs_claimed_fruits st) h)"
  using apply_anchor_step [OF assms(4,3,2,1)] by blast

theorem anchor_creates_no_value_witness:
  "\<exists>st. apply_anchor_to_branch pad_hash example_ed25519 example_rocks mined_db covering_anchor tip_id 1 ANCHOR_INITIAL_TARGET_LE empty_branch =
       Inr (Inr st) \<and> branch_ok pad_hash st \<and> worth (us_get (bs_utxo_set st)) = 5 \<and> dict_get (bs_claimed_fruits st) leaf_id = Some 1"
proof -
  obtain st where st: "apply_anchor_to_branch pad_hash example_ed25519 example_rocks mined_db covering_anchor tip_id 1 ANCHOR_INITIAL_TARGET_LE empty_branch =
       Inr (Inr st)" "worth (us_get (bs_utxo_set st)) = 5"
    using mined_branch [of example_ed25519 tip_id] by blast
  have "leaf_id \<in> set (a_covered_fruit_hashes covering_anchor)" by (simp add: covering_anchor_def Let_def)
  then show ?thesis
    using anchor_creates_no_value [OF mined_metas_match covering_anchor_ok branch_ok_empty st(1)] st by auto
qed

text \<open>The supply cap over whole branches: every state that \<open>_rebuild_anchor_branch_state\<close> returns, for any tip and
  any stored blocks, has consistent indexes, and its unspent outputs are worth no more than the minted
  supply, which is at most \<open>MAX_SUPPLY_MATOMS\<close>.\<close>

theorem rebuilt_branch_within_supply:
  assumes "metas_match H R db" "rebuild_anchor_branch_state H E R db tip = Inr (Some st)"
  shows "utxo_set_ok H (bs_utxo_set st) \<and> tree_ok (leaf_shard_ids (bs_shard_tree st)) \<and>
    worth (us_get (bs_utxo_set st)) \<le> bs_minted_supply st \<and> bs_minted_supply st \<le> MAX_SUPPLY_MATOMS"
proof -
  obtain hs where "rebuild_loop H E R db hs empty_branch = Inr (Some st)"
    using assms(2) by (auto simp: rebuild_anchor_branch_state_def split: option.splits)
  from rebuild_loop_step [OF this branch_ok_empty assms(1)] show ?thesis by (auto simp: branch_ok_def)
qed

theorem rebuilt_branch_within_supply_witness:
  "\<exists>st. rebuild_anchor_branch_state pad_hash example_ed25519 example_rocks mined_db tip_id = Inr (Some st) \<and>
     worth (us_get (bs_utxo_set st)) \<le> bs_minted_supply st"
proof -
  obtain st where "rebuild_anchor_branch_state pad_hash example_ed25519 example_rocks mined_db tip_id = Inr (Some st)"
    using mined_rebuild by blast
  with rebuilt_branch_within_supply [OF mined_metas_match this] show ?thesis by blast
qed

end
