(* ===== verification/Node.thy ===== *)
theory Node
  imports Ledger Finality
begin

text \<open>
  \<^verbatim>\<open>src/src/tensorpow/node/node.py\<close>: the handlers of a full node. A node keeps a database, the shard tree
  and the unspent outputs of its active chain, and a mempool; the handlers process raw transactions, fruits
  and anchors, restart from the database, copy another node's database, and answer queries.

  The proof-of-work verifier that the constructor takes is a parameter \<open>V\<close> (the default one is
  \<open>default_pow_verifier\<close>), and so are the clock reading \<open>now\<close> of \<open>_now_ms\<close> and the configured
  \<open>expected_genesis_hash\<close>. Each handler holds the state lock from its first access to its last, so
  it is one function of the whole state. The cache of the fruit DAG is recomputed: it is dropped whenever a
  fruit is stored. A rejected block leaves the state as it was because every check precedes the first
  write; a rejected transaction may still drop stale rows of the mempool column. The network, the event
  loop and the reading of \<^verbatim>\<open>tensorpow.toml\<close> are not modelled.
\<close>

section \<open>Definitions\<close>

definition MAX_FUTURE_DRIFT_MS :: int where "MAX_FUTURE_DRIFT_MS = 120000"

record node_result =
  nr_accepted :: bool
  nr_reason :: "string option"
  nr_object_hash :: "bytes option"

definition result_ok :: "bytes \<Rightarrow> node_result" where
  "result_ok object_hash = \<lparr>nr_accepted = True, nr_reason = None, nr_object_hash = Some object_hash\<rparr>"

definition result_reject :: "string \<Rightarrow> node_result" where
  "result_reject reason = \<lparr>nr_accepted = False, nr_reason = Some reason, nr_object_hash = None\<rparr>"

record 'db node =
  nd_db :: 'db
  nd_shard_tree :: shard_tree
  nd_utxo_set :: utxo_set
  nd_mempool :: mempool

type_synonym pow_verifier = "pow_header \<Rightarrow> bytes \<Rightarrow> bool res"

definition default_pow_verifier :: "torch \<Rightarrow> xof \<Rightarrow> string \<Rightarrow> pow_verifier" where
  "default_pow_verifier T X backend header target = verify_pow T X header target backend"

definition node_verify_pow :: "pow_verifier \<Rightarrow> pow_header \<Rightarrow> bytes \<Rightarrow> bool res" where
  "node_verify_pow V header target =
     (case V header target of
        Inl e \<Rightarrow> if type_or_value_error e \<or> e = RuntimeError \<or> e = PowBackendUnavailableError then Inr False else Inl e
      | Inr b \<Rightarrow> Inr b)"

text \<open>The checks of the two block handlers precede their first write, so a rejection is returned with the node as it was.\<close>

definition or_reject :: "'db node \<Rightarrow> (node_result \<times> 'db node) answer \<Rightarrow> (node_result \<times> 'db node) res" where
  "or_reject n m =
     bnd m (\<lambda>r. case r of Inl reason \<Rightarrow> Inr (result_reject reason, n) | Inr result \<Rightarrow> Inr result)"

subsection \<open>The mempool\<close>

definition mempool_transactions :: "'db node \<Rightarrow> tx list" where
  "mempool_transactions n = map me_tx (mp_entries_tuple (nd_mempool n))"

text \<open>The two loops of \<open>_rebuild_mempool\<close>: admit each transaction and collect the ids of those refused, then delete their
  rows.\<close>

fun readmit ::
  "hash_fn \<Rightarrow> 'k ed25519 \<Rightarrow> 'db rocks \<Rightarrow> 'db \<Rightarrow> utxo_set \<Rightarrow> tx list \<Rightarrow> mempool \<Rightarrow> bytes list \<Rightarrow> (mempool \<times> bytes list) res" where
  "readmit H E R db S [] mp stale_tx_ids = Inr (mp, stale_tx_ids)"
| "readmit H E R db S (t # rest) mp stale_tx_ids =
     bnd (anchor_height_of R db) (\<lambda>height.
     bnd (add_tx H E mp (TxObject t) None (Some (us_get S)) 0 height) (\<lambda>(result, mp).
     readmit H E R db S rest mp (if \<not> ar_accepted result then stale_tx_ids @ [tx_id H t] else stale_tx_ids)))"

fun delete_rows :: "'db rocks \<Rightarrow> storage_column \<Rightarrow> bytes list \<Rightarrow> 'db \<Rightarrow> 'db res" where
  "delete_rows R col [] db = Inr db"
| "delete_rows R col (key # rest) db = bnd (st_delete R db col key) (\<lambda>db. delete_rows R col rest db)"

definition rebuild_mempool ::
  "hash_fn \<Rightarrow> 'k ed25519 \<Rightarrow> 'db rocks \<Rightarrow> 'db \<Rightarrow> shard_tree \<Rightarrow> utxo_set \<Rightarrow> tx list \<Rightarrow> (mempool \<times> 'db) res" where
  "rebuild_mempool H E R db tree S transactions =
     bnd (Mempool (Some tree) (Some (us_get S)) (Some (stored_fee_floors R db))) (\<lambda>mp.
     bnd (readmit H E R db S transactions mp []) (\<lambda>(mp, stale_tx_ids).
     bnd (delete_rows R COLUMN_MEMPOOL stale_tx_ids db) (\<lambda>db.
     Inr (mp, db))))"

text \<open>The state that \<open>__init__\<close> and \<open>sync_from\<close> load from the database.\<close>

definition load_state :: "hash_fn \<Rightarrow> 'k ed25519 \<Rightarrow> 'db rocks \<Rightarrow> 'db \<Rightarrow> 'db node res" where
  "load_state H E R db =
     bnd (get_shard_tree R db) (\<lambda>stored.
     let tree = (case stored of None \<Rightarrow> default_tree | Some tree \<Rightarrow> tree) in
     bnd (st_utxos H R db) (\<lambda>us.
     bnd (UTXOSet H us) (\<lambda>S.
     bnd (mempool_txs R db) (\<lambda>txs.
     bnd (rebuild_mempool H E R db tree S txs) (\<lambda>(mp, db).
     Inr \<lparr>nd_db = db, nd_shard_tree = tree, nd_utxo_set = S, nd_mempool = mp\<rparr>)))))"

definition open_node :: "hash_fn \<Rightarrow> 'k ed25519 \<Rightarrow> 'db rocks \<Rightarrow> 'db \<Rightarrow> 'db node res" where
  "open_node H E R db = bnd (open_store R db) (\<lambda>db. load_state H E R db)"

definition process_raw_tx ::
  "hash_fn \<Rightarrow> 'k ed25519 \<Rightarrow> 'db rocks \<Rightarrow> 'db node \<Rightarrow> bytes \<Rightarrow> ((node_result \<times> mempool_add_result option) \<times> 'db node) res" where
  "process_raw_tx H E R n data =
     (case tx_from_bytes data of
        Inl e \<Rightarrow> if type_or_value_error e then Inr ((result_reject ''malformed_tx'', None), n) else Inl e
      | Inr t \<Rightarrow>
          if tx_inputs t = [] then Inr ((result_reject ''coinbase_not_relayable'', None), n)
          else
            bnd (rebuild_mempool H E R (nd_db n) (nd_shard_tree n) (nd_utxo_set n) (mempool_transactions n)) (\<lambda>(staged, db).
            bnd (add_tx H E staged (TxObject t) None (Some (us_get (nd_utxo_set n))) 0 0) (\<lambda>(add_result, staged).
            if \<not> ar_accepted add_result then
              Inr ((result_reject (case ar_reason add_result of None \<Rightarrow> ''mempool_rejected'' | Some reason \<Rightarrow> reason),
                    Some add_result), n\<lparr>nd_db := db\<rparr>)
            else
              bnd (put_mempool_tx H R db t) (\<lambda>db.
              Inr ((result_ok (tx_id H t), Some add_result), n\<lparr>nd_db := db, nd_mempool := staged\<rparr>)))))"

subsection \<open>Fruits\<close>

fun parents_loaded :: "hash_fn \<Rightarrow> 'db rocks \<Rightarrow> 'db \<Rightarrow> bytes list \<Rightarrow> unit answer" where
  "parents_loaded H R db [] = accept ()"
| "parents_loaded H R db (parent_hash # rest) =
     (case load_fruit H R db parent_hash of
        None \<Rightarrow> refuse ''missing_fruit_parent''
      | Some _ \<Rightarrow> parents_loaded H R db rest)"

fun after_parents :: "hash_fn \<Rightarrow> 'db rocks \<Rightarrow> 'db \<Rightarrow> int \<Rightarrow> bytes list \<Rightarrow> unit answer" where
  "after_parents H R db timestamp_ms [] = accept ()"
| "after_parents H R db timestamp_ms (parent_hash # rest) =
     (if parent_hash = GENESIS_PARENT_HASH then after_parents H R db timestamp_ms rest
      else case load_fruit H R db parent_hash of
        None \<Rightarrow> refuse ''missing_fruit_parent''
      | Some parent \<Rightarrow>
          if timestamp_ms \<le> fh_timestamp_ms (f_header parent) then refuse ''fruit_time_not_after_parent''
          else after_parents H R db timestamp_ms rest)"

definition validate_fruit_dependencies :: "hash_fn \<Rightarrow> 'db rocks \<Rightarrow> 'db \<Rightarrow> int \<Rightarrow> fruit \<Rightarrow> bytes list answer" where
  "validate_fruit_dependencies H R db now f =
     (let h = f_header f in
      if fh_timestamp_ms h > now + MAX_FUTURE_DRIFT_MS then refuse ''fruit_time_too_new''
      else case load_anchor H R db (fh_latest_anchor h) of
        None \<Rightarrow> refuse ''missing_latest_anchor''
      | Some latest_anchor \<Rightarrow>
          let parent_candidates = a_parent_candidate_hashes latest_anchor in
          andthen (or_refuse (effective_parent_hashes h parent_candidates) (\<lambda>e. type_or_value_error e \<and> e \<noteq> TypeError)
                     ''bad_parent_bitmap'') (\<lambda>effective_parents.
          let selected_parent = fh_parent_selected h in
          if selected_parent = GENESIS_PARENT_HASH \<and> has_stored_fruits H R db then refuse ''genesis_fruit_parent_not_first''
          else if selected_parent \<noteq> GENESIS_PARENT_HASH \<and> load_fruit H R db selected_parent = None then
            refuse ''missing_fruit_parent''
          else
            andthen (parents_loaded H R db (drop 1 effective_parents)) (\<lambda>_.
            andthen (after_parents H R db (fh_timestamp_ms h) effective_parents) (\<lambda>_.
            let selected_chain_timestamps = fruit_selected_chain_timestamps H R db selected_parent in
            if selected_chain_timestamps \<noteq> [] \<and> fh_timestamp_ms h \<le> median_int selected_chain_timestamps then
              refuse ''fruit_time_too_old''
            else accept parent_candidates))))"

text \<open>The loop of \<open>process_fruit\<close> over the transactions after the coinbase, on a copy of the outputs; an output that cannot be
  added raises.\<close>

fun validate_txs ::
  "hash_fn \<Rightarrow> 'k ed25519 \<Rightarrow> shard_tree \<Rightarrow> fruit \<Rightarrow> int \<Rightarrow> int \<Rightarrow> tx list \<Rightarrow> utxo_set \<Rightarrow> int \<Rightarrow> int answer" where
  "validate_txs H E tree f floor_rate height [] S tip_sum = accept tip_sum"
| "validate_txs H E tree f floor_rate height (t # rest) S tip_sum =
     andthen (apply_spend_tx H E S t tree (fh_shard_id (f_header f)) floor_rate (fh_timestamp_ms (f_header f)) height)
       (\<lambda>(tip_matoms, S).
     bnd (create_outputs H t [0..<length (tx_outputs t)] S []) (\<lambda>(S, _).
     validate_txs H E tree f floor_rate height rest S (tip_sum + tip_matoms)))"

definition check_fruit ::
  "hash_fn \<Rightarrow> 'k ed25519 \<Rightarrow> pow_verifier \<Rightarrow> 'db rocks \<Rightarrow> int \<Rightarrow> 'db node \<Rightarrow> fruit \<Rightarrow> (tx list \<times> fruit_meta) answer" where
  "check_fruit H E V R now n f =
     bnd (get_body_bytes R (nd_db n) (fruit_block_hash H f)) (\<lambda>body.
     if body \<noteq> None then refuse ''duplicate_fruit''
     else
       andthen (or_refuse (each tx_from_bytes (f_transactions f)) type_or_value_error ''malformed_fruit_tx'') (\<lambda>txs.
       if txs = [] \<or> tx_inputs (hd txs) \<noteq> [] then refuse ''missing_coinbase''
       else if (\<exists>t \<in> set (drop 1 txs). tx_inputs t = []) then refuse ''extra_coinbase''
       else
         andthen (validate_fruit_dependencies H R (nd_db n) now f) (\<lambda>parent_candidates.
         bnd (fruit_to_pow_header (f_header f) parent_candidates) (\<lambda>pow.
         bnd (node_verify_pow V pow FRUIT_TARGET_LE) (\<lambda>good.
         if \<not> good then refuse ''fruit_pow_invalid''
         else
           bnd (anchor_height_of R (nd_db n)) (\<lambda>current_anchor_height.
           let covering_anchor_height = current_anchor_height + 1;
               floor_rate = fee_floor_for_shard R (nd_db n) (fh_shard_id (f_header f)) in
           bnd (UTXOSet H (us_list (nd_utxo_set n))) (\<lambda>validation_view.
           andthen (validate_txs H E (nd_shard_tree n) f floor_rate covering_anchor_height (drop 1 txs) validation_view 0)
             (\<lambda>tip_sum.
           andthen (or_refuse (tx_output_sum (hd txs)) (\<lambda>e. e = ValueError) ''coinbase_too_large'') (\<lambda>coinbase_claim.
           bnd (minted_supply_of R (nd_db n)) (\<lambda>supply.
           bnd (interval_subsidy_matoms covering_anchor_height supply) (\<lambda>pre_anchor_subsidy_limit.
           if coinbase_claim > pre_anchor_subsidy_limit + tip_sum then refuse ''coinbase_too_large''
           else accept (txs, \<lparr>fm_coinbase_claim_matoms = coinbase_claim, fm_tip_matoms = tip_sum\<rparr>))))))))))))"

definition store_fruit ::
  "hash_fn \<Rightarrow> 'k ed25519 \<Rightarrow> 'db rocks \<Rightarrow> 'db node \<Rightarrow> fruit \<Rightarrow> tx list \<Rightarrow> fruit_meta \<Rightarrow> (node_result \<times> 'db node) res" where
  "store_fruit H E R n f txs meta =
     (let fruit_hash = fruit_block_hash H f in
      bnd (atomic_state_batch H [(fruit_hash, FruitHeaderOf (f_header f))] [(fruit_hash, FruitOf f)] [] [] []
             (map (tx_id H) txs)) (\<lambda>state_batch.
      bnd (encode_fruit_meta meta) (\<lambda>value.
      bnd (BatchPut COLUMN_DAG (fruit_meta_key fruit_hash) value) (\<lambda>meta_put.
      let db = write_batch R (nd_db n) \<lparr>sb_puts = sb_puts state_batch @ [meta_put], sb_deletes = sb_deletes state_batch\<rparr> in
      bnd (mempool_txs R db) (\<lambda>pending.
      bnd (rebuild_mempool H E R db (nd_shard_tree n) (nd_utxo_set n)
             (filter (\<lambda>t. tx_id H t \<notin> tx_id H ` set txs) pending)) (\<lambda>(mp, db).
      Inr (result_ok fruit_hash, n\<lparr>nd_db := db, nd_mempool := mp\<rparr>)))))))"

definition process_fruit ::
  "hash_fn \<Rightarrow> 'k ed25519 \<Rightarrow> pow_verifier \<Rightarrow> 'db rocks \<Rightarrow> int \<Rightarrow> 'db node \<Rightarrow> fruit \<Rightarrow> (node_result \<times> 'db node) res" where
  "process_fruit H E V R now n f =
     or_reject n (andthen (check_fruit H E V R now n f) (\<lambda>(txs, meta).
       bnd (store_fruit H E R n f txs meta) accept))"

definition process_fruit_bytes ::
  "hash_fn \<Rightarrow> 'k ed25519 \<Rightarrow> pow_verifier \<Rightarrow> 'db rocks \<Rightarrow> int \<Rightarrow> 'db node \<Rightarrow> bytes \<Rightarrow> (node_result \<times> 'db node) res" where
  "process_fruit_bytes H E V R now n data =
     (case deserialize_fruit H data of
        Inl e \<Rightarrow> if type_or_value_error e then Inr (result_reject ''malformed_fruit'', n) else Inl e
      | Inr f \<Rightarrow> process_fruit H E V R now n f)"

subsection \<open>Anchors\<close>

fun fruits_loaded :: "hash_fn \<Rightarrow> 'db rocks \<Rightarrow> 'db \<Rightarrow> string \<Rightarrow> bytes list \<Rightarrow> unit answer" where
  "fruits_loaded H R db reason [] = accept ()"
| "fruits_loaded H R db reason (fruit_hash # rest) =
     (case load_fruit H R db fruit_hash of
        None \<Rightarrow> refuse reason
      | Some _ \<Rightarrow> fruits_loaded H R db reason rest)"

definition validate_anchor_dependencies ::
  "hash_fn \<Rightarrow> pow_verifier \<Rightarrow> 'db rocks \<Rightarrow> 'db \<Rightarrow> int \<Rightarrow> bytes option \<Rightarrow> anchor \<Rightarrow> unit answer" where
  "validate_anchor_dependencies H V R db now expected_genesis_hash a =
     (let h = a_header a in
      if ah_timestamp_ms h > now + MAX_FUTURE_DRIFT_MS then refuse ''anchor_time_too_new''
      else if is_genesis_anchor a then
        if st_items R db COLUMN_BODIES \<noteq> [] then refuse ''genesis_not_first''
        else if expected_genesis_hash = None then refuse ''missing_expected_genesis_hash''
        else
          bnd (anchor_block_hash H a) (\<lambda>anchor_hash.
          if Some anchor_hash \<noteq> expected_genesis_hash then refuse ''wrong_genesis'' else accept ())
      else
        bnd (anchor_history H R db (ah_parent_anchor h) (Some ANCHOR_HISTORY_LOOKBACK)) (\<lambda>history.
        case history of
          None \<Rightarrow> refuse ''missing_anchor_parent''
        | Some history \<Rightarrow>
            if history \<noteq> [] \<and> ah_timestamp_ms h \<le> ar_timestamp_ms (last history) then refuse ''anchor_time_not_increasing''
            else if (\<exists>anchor_mtp \<in> set_option (anchor_median_time_past history). ah_timestamp_ms h \<le> anchor_mtp) then
              refuse ''anchor_time_too_old''
            else
              bnd (next_anchor_target history) (\<lambda>target.
              bnd (anchor_to_pow_header h) (\<lambda>pow.
              bnd (node_verify_pow V pow target) (\<lambda>good.
              if \<not> good then refuse ''anchor_pow_invalid''
              else
                andthen (fruits_loaded H R db ''missing_covered_fruit'' (a_covered_fruit_hashes a)) (\<lambda>_.
                andthen (fruits_loaded H R db ''missing_parent_candidate'' (a_parent_candidate_hashes a)) (\<lambda>_.
                bnd (canonical_parent_candidates H R db) (\<lambda>canonical_candidates.
                if canonical_candidates = None then refuse ''bad_parent_candidate_order''
                else if Some (a_parent_candidate_hashes a) \<noteq> canonical_candidates then refuse ''bad_parent_candidate_order''
                else accept ()))))))))"

text \<open>\<open>_active_chain_batch\<close> replaces the columns of the active state: the new rows are put, the rows that are no longer
  there are deleted. Python iterates over sets of keys in some order; here it is the order of the keys.\<close>

definition put_rows :: "storage_column \<Rightarrow> (bytes, bytes) dict \<Rightarrow> batch_put list res" where
  "put_rows col rows = each (\<lambda>(key, value). BatchPut col key value) rows"

definition drop_rows :: "storage_column \<Rightarrow> bytes list \<Rightarrow> (bytes, bytes) dict \<Rightarrow> batch_delete list res" where
  "drop_rows col existing rows = each (BatchDelete col) (filter (\<lambda>key. dict_get rows key = None) existing)"

definition utxo_rows :: "hash_fn \<Rightarrow> utxo_set \<Rightarrow> (bytes, bytes) dict" where
  "utxo_rows H S = fold (\<lambda>u. dict_set (utxo_key H u) (utxo_to_bytes u)) (us_list S) []"

definition encode_rows :: "('k \<Rightarrow> bytes res) \<Rightarrow> ('v \<Rightarrow> bytes res) \<Rightarrow> ('k \<times> 'v) list \<Rightarrow> (bytes, bytes) dict res" where
  "encode_rows enc_key enc_value entries =
     bnd (each (\<lambda>(k, v). bnd (enc_key k) (\<lambda>key. bnd (enc_value v) (\<lambda>value. Inr (key, value)))) entries) (\<lambda>pairs.
     Inr (fold (\<lambda>(key, value). dict_set key value) pairs []))"

definition active_chain_batch :: "hash_fn \<Rightarrow> 'db rocks \<Rightarrow> 'db \<Rightarrow> bytes \<Rightarrow> branch_state \<Rightarrow> storage_batch res" where
  "active_chain_batch H R db tip_hash state =
     (let utxo_by_key = utxo_rows H (bs_utxo_set state) in
      bnd (encode_rows (to_bytes 4) (to_bytes 8) (sort_key fst (bs_fee_floors state))) (\<lambda>fee_floor_by_key.
      bnd (encode_rows (\<lambda>fruit_hash. Inr (fruit_coinbase_claimed_key fruit_hash)) node_u64
             (sort_key fst (bs_claimed_fruits state))) (\<lambda>claim_by_key.
      let existing_utxo_keys = map fst (st_items R db COLUMN_UTXO);
          existing_fee_floor_keys = map fst (st_items R db COLUMN_FEE_FLOORS);
          existing_claim_keys = filter (\<lambda>key. prefix FRUIT_COINBASE_CLAIMED_PREFIX key) (map fst (st_items R db COLUMN_DAG)) in
      bnd (node_u64 (bs_height state)) (\<lambda>height.
      bnd (BatchPut COLUMN_DAG ANCHOR_HEIGHT_KEY height) (\<lambda>height_put.
      bnd (BatchPut COLUMN_DAG ANCHOR_TIP_KEY tip_hash) (\<lambda>tip_put.
      bnd (node_u64 (bs_minted_supply state)) (\<lambda>supply.
      bnd (BatchPut COLUMN_DAG MINTED_SUPPLY_KEY supply) (\<lambda>supply_put.
      bnd (serialize_tree (bs_shard_tree state)) (\<lambda>tree.
      bnd (BatchPut COLUMN_SHARD_TREE (ascii ''current'') tree) (\<lambda>tree_put.
      bnd (put_rows COLUMN_UTXO utxo_by_key) (\<lambda>utxo_puts.
      bnd (put_rows COLUMN_FEE_FLOORS fee_floor_by_key) (\<lambda>floor_puts.
      bnd (put_rows COLUMN_DAG claim_by_key) (\<lambda>claim_puts.
      bnd (drop_rows COLUMN_UTXO existing_utxo_keys utxo_by_key) (\<lambda>utxo_deletes.
      bnd (drop_rows COLUMN_FEE_FLOORS existing_fee_floor_keys fee_floor_by_key) (\<lambda>floor_deletes.
      bnd (drop_rows COLUMN_DAG existing_claim_keys claim_by_key) (\<lambda>claim_deletes.
      bnd (each (BatchDelete COLUMN_MEMPOOL) (sorted_list_of_set (bs_confirmed_tx_ids state))) (\<lambda>mempool_deletes.
      Inr \<lparr>sb_puts = [height_put, tip_put, supply_put, tree_put] @ utxo_puts @ floor_puts @ claim_puts,
           sb_deletes = utxo_deletes @ floor_deletes @ claim_deletes @ mempool_deletes\<rparr>)))))))))))))))))"

definition check_anchor ::
  "hash_fn \<Rightarrow> 'k ed25519 \<Rightarrow> pow_verifier \<Rightarrow> 'db rocks \<Rightarrow> int \<Rightarrow> bytes option \<Rightarrow> 'db \<Rightarrow> anchor \<Rightarrow> bytes \<Rightarrow>
   (branch_state \<times> anchor_meta) answer" where
  "check_anchor H E V R now expected_genesis_hash db a anchor_hash =
     bnd (get_body_bytes R db anchor_hash) (\<lambda>body.
     if body \<noteq> None then (if is_genesis_anchor a then refuse ''genesis_not_first'' else refuse ''duplicate_anchor'')
     else
       andthen (validate_anchor_dependencies H V R db now expected_genesis_hash a) (\<lambda>_.
       andthen (or_refuse (deserialize_tree (a_shard_tree_bytes a)) type_or_value_error ''bad_shard_tree'') (\<lambda>next_tree.
       if map ff_shard_id (a_fee_floor_entries a) \<noteq> leaf_shard_ids next_tree then refuse ''bad_fee_floor_entries''
       else
         bnd (anchor_position H R db a) (\<lambda>position.
         case position of
           None \<Rightarrow> refuse ''missing_anchor_parent''
         | Some (anchor_height, target, parent_cumulative_work) \<Rightarrow>
             bnd (rebuild_anchor_branch_state H E R db (ah_parent_anchor (a_header a))) (\<lambda>branch.
             case branch of
               None \<Rightarrow> refuse ''missing_anchor_parent''
             | Some state \<Rightarrow>
                 andthen (apply_anchor_to_branch H E R db a anchor_hash anchor_height target state) (\<lambda>state.
                 bnd (anchor_work_weight target) (\<lambda>work.
                 accept (state, \<lparr>am_height = anchor_height, am_target = target,
                                 am_cumulative_work = parent_cumulative_work + work\<rparr>))))))))"

definition store_anchor ::
  "hash_fn \<Rightarrow> 'k ed25519 \<Rightarrow> 'db rocks \<Rightarrow> 'db node \<Rightarrow> anchor \<Rightarrow> bytes \<Rightarrow> branch_state \<Rightarrow> anchor_meta \<Rightarrow>
   (node_result \<times> 'db node) res" where
  "store_anchor H E R n a anchor_hash state meta =
     bnd (best_anchor_tip H R (nd_db n) (Some (anchor_hash, meta))) (\<lambda>best_tip.
     bnd (BatchPut COLUMN_HEADERS anchor_hash (serialize_anchor_header (a_header a))) (\<lambda>header_put.
     bnd (serialize_anchor a) (\<lambda>body.
     bnd (BatchPut COLUMN_BODIES anchor_hash body) (\<lambda>body_put.
     bnd (encode_anchor_meta meta) (\<lambda>value.
     bnd (BatchPut COLUMN_DAG (anchor_meta_key anchor_hash) value) (\<lambda>meta_put.
     if best_tip = Some anchor_hash then
       bnd (active_chain_batch H R (nd_db n) anchor_hash state) (\<lambda>active_batch.
       let db = write_batch R (nd_db n)
                  \<lparr>sb_puts = [header_put, body_put, meta_put] @ sb_puts active_batch, sb_deletes = sb_deletes active_batch\<rparr> in
       bnd (mempool_txs R db) (\<lambda>pending.
       bnd (rebuild_mempool H E R db (bs_shard_tree state) (bs_utxo_set state) pending) (\<lambda>(mp, db).
       Inr (result_ok anchor_hash,
         \<lparr>nd_db = db, nd_shard_tree = bs_shard_tree state, nd_utxo_set = bs_utxo_set state, nd_mempool = mp\<rparr>))))
     else
       Inr (result_ok anchor_hash,
         n\<lparr>nd_db := write_batch R (nd_db n) \<lparr>sb_puts = [header_put, body_put, meta_put], sb_deletes = []\<rparr>\<rparr>)))))))"

definition process_anchor ::
  "hash_fn \<Rightarrow> 'k ed25519 \<Rightarrow> pow_verifier \<Rightarrow> 'db rocks \<Rightarrow> int \<Rightarrow> bytes option \<Rightarrow> 'db node \<Rightarrow> anchor \<Rightarrow>
   (node_result \<times> 'db node) res" where
  "process_anchor H E V R now expected_genesis_hash n a =
     or_reject n (bnd (anchor_block_hash H a) (\<lambda>anchor_hash.
       andthen (check_anchor H E V R now expected_genesis_hash (nd_db n) a anchor_hash) (\<lambda>(state, meta).
       bnd (store_anchor H E R n a anchor_hash state meta) accept)))"

definition process_anchor_bytes ::
  "hash_fn \<Rightarrow> 'k ed25519 \<Rightarrow> pow_verifier \<Rightarrow> 'db rocks \<Rightarrow> int \<Rightarrow> bytes option \<Rightarrow> 'db node \<Rightarrow> bytes \<Rightarrow>
   (node_result \<times> 'db node) res" where
  "process_anchor_bytes H E V R now expected_genesis_hash n data =
     (case deserialize_anchor H data of
        Inl e \<Rightarrow> if type_or_value_error e then Inr (result_reject ''malformed_anchor'', n) else Inl e
      | Inr a \<Rightarrow> process_anchor H E V R now expected_genesis_hash n a)"

subsection \<open>Copying another node\<close>

definition copy_batch :: "'db rocks \<Rightarrow> 'db \<Rightarrow> 'db \<Rightarrow> storage_batch res" where
  "copy_batch R source target =
     bnd (each (\<lambda>col. put_rows col (st_items R source col)) STORAGE_COLUMNS) (\<lambda>puts.
     bnd (each (\<lambda>col. drop_rows col (map fst (st_items R target col)) (st_items R source col)) STORAGE_COLUMNS) (\<lambda>deletes.
     Inr \<lparr>sb_puts = concat puts, sb_deletes = concat deletes\<rparr>))"

definition sync_from :: "hash_fn \<Rightarrow> 'k ed25519 \<Rightarrow> 'db rocks \<Rightarrow> 'db node \<Rightarrow> 'db node \<Rightarrow> 'db node res" where
  "sync_from H E R n other =
     bnd (copy_batch R (nd_db other) (nd_db n)) (\<lambda>b. load_state H E R (write_batch R (nd_db n) b))"

subsection \<open>Queries\<close>

definition node_get_block :: "'db rocks \<Rightarrow> 'db node \<Rightarrow> bytes \<Rightarrow> bytes option res" where
  "node_get_block R n block_hash = get_body_bytes R (nd_db n) block_hash"

definition get_tx :: "'db rocks \<Rightarrow> 'db node \<Rightarrow> bytes \<Rightarrow> tx option res" where
  "get_tx R n tid =
     (case mp_get (nd_mempool n) tid of
        Some t \<Rightarrow> Inr (Some t)
      | None \<Rightarrow>
          bnd (st_get R (nd_db n) COLUMN_MEMPOOL tid) (\<lambda>raw.
          case raw of None \<Rightarrow> Inr None | Some data \<Rightarrow> bnd (tx_from_bytes data) (\<lambda>t. Inr (Some t))))"

record finality_result =
  fn_block_hash :: bytes
  fn_seen :: bool
  fn_tier :: FinalityTier
  fn_satisfied_tiers :: "FinalityTier set"
  fn_blue_depth :: int
  fn_anchor_depth :: int

definition finality_result :: "bytes \<Rightarrow> bool \<Rightarrow> int \<Rightarrow> int \<Rightarrow> finality_result res" where
  "finality_result block_hash seen blue_depth_value anchor_depth_value =
     bnd (finality_tier_from_depths blue_depth_value anchor_depth_value seen) (\<lambda>tier.
     bnd (satisfied_finality_tiers blue_depth_value anchor_depth_value seen) (\<lambda>satisfied.
     Inr \<lparr>fn_block_hash = block_hash, fn_seen = seen, fn_tier = tier, fn_satisfied_tiers = satisfied,
          fn_blue_depth = blue_depth_value, fn_anchor_depth = anchor_depth_value\<rparr>))"

definition get_finality :: "hash_fn \<Rightarrow> 'db rocks \<Rightarrow> 'db node \<Rightarrow> bytes \<Rightarrow> finality_result res" where
  "get_finality H R n block_hash =
     bnd (ensure (length block_hash = HASH_LEN_BYTES) ValueError) (\<lambda>_.
     case load_fruit H R (nd_db n) block_hash of
       None \<Rightarrow> finality_result block_hash False 0 0
     | Some _ \<Rightarrow>
         (case fruit_dag H R (nd_db n) of
            None \<Rightarrow> finality_result block_hash True 0 0
          | Some dag \<Rightarrow>
              bnd (has_block dag block_hash) (\<lambda>present.
              if \<not> present then finality_result block_hash True 0 0
              else
                bnd (best_fruit_tip dag) (\<lambda>tip.
                bnd (case tip of None \<Rightarrow> Inr 0 | Some tip \<Rightarrow> bnd (blue_depth dag block_hash tip ghostdag_k) (\<lambda>(d, _). Inr d))
                  (\<lambda>blue_depth_value.
                bnd (st_get R (nd_db n) COLUMN_DAG (fruit_coinbase_claimed_key block_hash)) (\<lambda>claimed.
                bnd (anchor_height_of R (nd_db n)) (\<lambda>height.
                bnd (anchor_depth (decode_optional_u64 claimed) height) (\<lambda>anchor_depth_value.
                finality_result block_hash True blue_depth_value anchor_depth_value))))))))"

record node_status =
  ns_blocks :: nat
  ns_mempool :: nat
  ns_shard_leaves :: nat
  ns_utxos :: nat

definition node_status :: "'db rocks \<Rightarrow> 'db node \<Rightarrow> node_status" where
  "node_status R n =
     \<lparr>ns_blocks = length (st_items R (nd_db n) COLUMN_BODIES), ns_mempool = length (mp_entries (nd_mempool n)),
      ns_shard_leaves = length (leaf_shard_ids (nd_shard_tree n)), ns_utxos = length (us_utxos (nd_utxo_set n))\<rparr>"

section \<open>Specification\<close>

text \<open>What the rows of a node's database look like: the storage format is marked, the pending transactions are
  filed under their ids, the keys of fee floors are shard ids, and the metadata of a fruit was written together with a
  fruit whose coinbase pays the recorded amount.\<close>

definition claims_recorded :: "hash_fn \<Rightarrow> 'db rocks \<Rightarrow> 'db \<Rightarrow> bool" where
  "claims_recorded H R db \<longleftrightarrow> (\<forall>h v. rk_get R db COLUMN_DAG (fruit_meta_key h) = Some v \<longrightarrow>
     (\<exists>f raw rest t m. rk_get R db COLUMN_BODIES h = Some (serialize_fruit f) \<and> fruit_ok H f \<and> f_transactions f = raw # rest \<and>
        tx_from_bytes raw = Inr t \<and> decode_fruit_meta (Some v) = Some m \<and>
        fm_coinbase_claim_matoms m = sum_list (map out_amount_matoms (tx_outputs t))))"

definition rows_ok :: "hash_fn \<Rightarrow> 'db rocks \<Rightarrow> 'db \<Rightarrow> bool" where
  "rows_ok H R db \<longleftrightarrow> rk_get R db COLUMN_DAG STORAGE_META_KEY = Some STORAGE_FORMAT_BYTES \<and>
     (\<forall>k v. rk_get R db COLUMN_MEMPOOL k = Some v \<longrightarrow> (\<exists>t. tx_ok t \<and> k = tx_id H t \<and> v = tx_to_bytes t)) \<and>
     (\<forall>k v. rk_get R db COLUMN_FEE_FLOORS k = Some v \<longrightarrow> length k = 4 \<longrightarrow> shard_ok (from_le k)) \<and>
     claims_recorded H R db"

text \<open>The database describes a shard tree and a set of unspent outputs: the rows are exactly the outputs, and the recorded
  minted supply covers them and stays within the maximum.\<close>

definition supply_of :: "'db rocks \<Rightarrow> 'db \<Rightarrow> int" where
  "supply_of R db = decode_u64_or_zero (rk_get R db COLUMN_DAG MINTED_SUPPLY_KEY)"

definition outputs_stored :: "hash_fn \<Rightarrow> 'db rocks \<Rightarrow> 'db \<Rightarrow> (outpoint \<rightharpoonup> utxo) \<Rightarrow> bool" where
  "outputs_stored H R db c \<longleftrightarrow>
     (\<forall>k v. rk_get R db COLUMN_UTXO k = Some v \<longleftrightarrow> (\<exists>u \<in> ran c. utxo_key H u = k \<and> utxo_to_bytes u = v))"

definition tree_stored :: "'db rocks \<Rightarrow> 'db \<Rightarrow> shard_tree \<Rightarrow> bool" where
  "tree_stored R db tree \<longleftrightarrow>
     (case rk_get R db COLUMN_SHARD_TREE (ascii ''current'') of None \<Rightarrow> tree = default_tree | Some bs \<Rightarrow> deserialize_tree bs = Inr tree)"

definition db_ok :: "hash_fn \<Rightarrow> 'db rocks \<Rightarrow> 'db \<Rightarrow> shard_tree \<Rightarrow> utxo_set \<Rightarrow> bool" where
  "db_ok H R db tree S \<longleftrightarrow> rows_ok H R db \<and> utxo_set_ok H S \<and> outputs_stored H R db (us_get S) \<and> tree_stored R db tree \<and>
     worth (us_get S) \<le> supply_of R db \<and> supply_of R db \<le> MAX_SUPPLY_MATOMS"

definition node_ok :: "hash_fn \<Rightarrow> 'db rocks \<Rightarrow> 'db node \<Rightarrow> bool" where
  "node_ok H R n \<longleftrightarrow> db_ok H R (nd_db n) (nd_shard_tree n) (nd_utxo_set n) \<and> mempool_ok H (nd_mempool n)"

text \<open>The nodes that a sequence of handlers reaches from an empty database. The clock, the verifier and the configured
  genesis may differ from step to step.\<close>

inductive node_reachable :: "hash_fn \<Rightarrow> 'k ed25519 \<Rightarrow> 'db rocks \<Rightarrow> 'db node \<Rightarrow> bool" for H E R where
  boot: "(\<And>c k. rk_get R db c k = None) \<Longrightarrow> open_node H E R db = Inr n \<Longrightarrow> node_reachable H E R n"
| raw_tx: "node_reachable H E R n \<Longrightarrow> process_raw_tx H E R n data = Inr (r, n') \<Longrightarrow> node_reachable H E R n'"
| fruit: "node_reachable H E R n \<Longrightarrow> fruit_ok H f \<Longrightarrow> process_fruit H E V R now n f = Inr (r, n') \<Longrightarrow> node_reachable H E R n'"
| fruit_bytes: "node_reachable H E R n \<Longrightarrow> process_fruit_bytes H E V R now n data = Inr (r, n') \<Longrightarrow> node_reachable H E R n'"
| anchor: "node_reachable H E R n \<Longrightarrow> anchor_ok H a \<Longrightarrow> process_anchor H E V R now genesis n a = Inr (r, n') \<Longrightarrow>
     node_reachable H E R n'"
| anchor_bytes: "node_reachable H E R n \<Longrightarrow> process_anchor_bytes H E V R now genesis n data = Inr (r, n') \<Longrightarrow>
     node_reachable H E R n'"
| restart: "node_reachable H E R n \<Longrightarrow> open_node H E R (nd_db n) = Inr n' \<Longrightarrow> node_reachable H E R n'"
| sync: "node_reachable H E R n \<Longrightarrow> node_reachable H E R other \<Longrightarrow> sync_from H E R n other = Inr n' \<Longrightarrow>
     node_reachable H E R n'"

text \<open>What the acceptance of a block rests on. First the dependencies of a fruit whose latest anchor is \<open>a\<close>: it is not too far in
  the future, only the first fruit builds on the genesis parent, its effective parents are stored and strictly earlier,
  and it is later than the median of its selected chain. Then the dependencies of an anchor that is not a genesis.\<close>

definition fruit_dependencies_met :: "hash_fn \<Rightarrow> 'db rocks \<Rightarrow> 'db \<Rightarrow> int \<Rightarrow> fruit \<Rightarrow> anchor \<Rightarrow> bool" where
  "fruit_dependencies_met H R db now f a \<longleftrightarrow>
     fh_timestamp_ms (f_header f) \<le> now + MAX_FUTURE_DRIFT_MS \<and>
     load_anchor H R db (fh_latest_anchor (f_header f)) = Some a \<and>
     (if fh_parent_selected (f_header f) = GENESIS_PARENT_HASH then \<not> has_stored_fruits H R db
      else load_fruit H R db (fh_parent_selected (f_header f)) \<noteq> None) \<and>
     (\<exists>ps. effective_parent_hashes (f_header f) (a_parent_candidate_hashes a) = Inr ps \<and>
        (\<forall>p \<in> set (drop 1 ps). load_fruit H R db p \<noteq> None) \<and>
        (\<forall>p \<in> set ps. p \<noteq> GENESIS_PARENT_HASH \<longrightarrow>
           (\<exists>g. load_fruit H R db p = Some g \<and> fh_timestamp_ms (f_header g) < fh_timestamp_ms (f_header f)))) \<and>
     (fruit_selected_chain_timestamps H R db (fh_parent_selected (f_header f)) \<noteq> [] \<longrightarrow>
        median_int (fruit_selected_chain_timestamps H R db (fh_parent_selected (f_header f))) < fh_timestamp_ms (f_header f))"

definition anchor_dependencies_met :: "hash_fn \<Rightarrow> pow_verifier \<Rightarrow> 'db rocks \<Rightarrow> 'db \<Rightarrow> anchor \<Rightarrow> bool" where
  "anchor_dependencies_met H V R db a \<longleftrightarrow>
     (\<exists>history target pow. anchor_history H R db (ah_parent_anchor (a_header a)) (Some ANCHOR_HISTORY_LOOKBACK) = Inr (Some history) \<and>
        (history \<noteq> [] \<longrightarrow> ar_timestamp_ms (last history) < ah_timestamp_ms (a_header a)) \<and>
        (\<forall>mtp. anchor_median_time_past history = Some mtp \<longrightarrow> mtp < ah_timestamp_ms (a_header a)) \<and>
        next_anchor_target history = Inr target \<and> anchor_to_pow_header (a_header a) = Inr pow \<and> V pow target = Inr True) \<and>
     (\<forall>h \<in> set (a_covered_fruit_hashes a) \<union> set (a_parent_candidate_hashes a). load_fruit H R db h \<noteq> None) \<and>
     canonical_parent_candidates H R db = Inr (Some (a_parent_candidate_hashes a))"

definition fruit_checked :: "hash_fn \<Rightarrow> 'k ed25519 \<Rightarrow> pow_verifier \<Rightarrow> 'db rocks \<Rightarrow> int \<Rightarrow> 'db node \<Rightarrow> fruit \<Rightarrow> bool" where
  "fruit_checked H E V R now n f \<longleftrightarrow>
     (\<exists>coinbase txs a pow height view tips minted subsidy.
        rk_get R (nd_db n) COLUMN_BODIES (fruit_block_hash H f) = None \<and>
        each tx_from_bytes (f_transactions f) = Inr (coinbase # txs) \<and> tx_inputs coinbase = [] \<and> (\<forall>t \<in> set txs. tx_inputs t \<noteq> []) \<and>
        fruit_dependencies_met H R (nd_db n) now f a \<and>
        fruit_to_pow_header (f_header f) (a_parent_candidate_hashes a) = Inr pow \<and> V pow FRUIT_TARGET_LE = Inr True \<and>
        anchor_height_of R (nd_db n) = Inr height \<and> UTXOSet H (us_list (nd_utxo_set n)) = Inr view \<and>
        validate_txs H E (nd_shard_tree n) f (fee_floor_for_shard R (nd_db n) (fh_shard_id (f_header f))) (height + 1) txs view 0 =
          accept tips \<and>
        minted_supply_of R (nd_db n) = Inr minted \<and> interval_subsidy_matoms (height + 1) minted = Inr subsidy \<and>
        (\<Sum>out \<leftarrow> tx_outputs coinbase. out_amount_matoms out) \<le> min MAX_SUPPLY_MATOMS (subsidy + tips))"

definition anchor_checked ::
  "hash_fn \<Rightarrow> 'k ed25519 \<Rightarrow> pow_verifier \<Rightarrow> 'db rocks \<Rightarrow> 'db \<Rightarrow> int \<Rightarrow> bytes option \<Rightarrow> anchor \<Rightarrow> bytes \<Rightarrow> bool" where
  "anchor_checked H E V R db now genesis a h \<longleftrightarrow>
     rk_get R db COLUMN_BODIES h = None \<and> ah_timestamp_ms (a_header a) \<le> now + MAX_FUTURE_DRIFT_MS \<and>
     (if is_genesis_anchor a then st_items R db COLUMN_BODIES = [] \<and> genesis = Some h
      else anchor_dependencies_met H V R db a) \<and>
     (\<exists>tree height target work before after weight.
        deserialize_tree (a_shard_tree_bytes a) = Inr tree \<and> map ff_shard_id (a_fee_floor_entries a) = leaf_shard_ids tree \<and>
        anchor_position H R db a = Inr (Some (height, target, work)) \<and>
        rebuild_anchor_branch_state H E R db (ah_parent_anchor (a_header a)) = Inr (Some before) \<and>
        apply_anchor_to_branch H E R db a h height target before = accept after \<and> anchor_work_weight target = Inr weight)"

text \<open>A database whose only output is locked until anchor height 100, for a witness.\<close>

definition locked_utxo :: utxo where
  "locked_utxo = spend_utxo\<lparr>u_lockheight := 100\<rparr>"

definition locked_set :: utxo_set where
  "locked_set = (case us_add pad_hash empty_utxo_set locked_utxo of Inl _ \<Rightarrow> empty_utxo_set | Inr S \<Rightarrow> S)"

definition locked_db :: "storage_column \<Rightarrow> (bytes \<times> bytes) list" where
  "locked_db c =
     (if c = COLUMN_UTXO then [(utxo_key pad_hash locked_utxo, utxo_to_bytes locked_utxo)]
      else if c = COLUMN_DAG then [(STORAGE_META_KEY, STORAGE_FORMAT_BYTES), (MINTED_SUPPLY_KEY, le_bytes 8 20)]
      else [])"

section \<open>Lemmas\<close>

lemma metas_match_recorded: "claims_recorded H R db \<Longrightarrow> metas_match H R db"
proof (unfold metas_match_def, intro allI impI)
  fix h f m raw rest t
  assume c: "claims_recorded H R db" and f: "load_fruit H R db h = Some f" and m: "fruit_meta_of R db h = Inr (Some m)"
    and raw: "f_transactions f = raw # rest" and t: "tx_from_bytes raw = Inr t"
  have ne: "fruit_meta_key h \<noteq> []" by (simp add: fruit_meta_key_def FRUIT_META_PREFIX_def ascii_def)
  then obtain v where v: "rk_get R db COLUMN_DAG (fruit_meta_key h) = Some v" "decode_fruit_meta (Some v) = Some m"
    using m by (cases "rk_get R db COLUMN_DAG (fruit_meta_key h)") (auto simp: fruit_meta_of_def st_get_eq decode_fruit_meta_def)
  from c v(1) obtain f' raw' rest' t' m' where w: "rk_get R db COLUMN_BODIES h = Some (serialize_fruit f')" "fruit_ok H f'"
    "f_transactions f' = raw' # rest'" "tx_from_bytes raw' = Inr t'" "decode_fruit_meta (Some v) = Some m'"
    "fm_coinbase_claim_matoms m' = sum_list (map out_amount_matoms (tx_outputs t'))"
    unfolding claims_recorded_def by blast
  have "deserialize_fruit H (serialize_fruit f') = Inr f" using f w(1) by (auto simp: load_fruit_Some)
  moreover have "deserialize_fruit H (serialize_fruit f') = Inr f'" using w(2) by (simp add: deserialize_fruit_Inr)
  ultimately have "f' = f" by simp
  then show "fm_coinbase_claim_matoms m = sum_list (map out_amount_matoms (tx_outputs t))" using w v(2) raw t by simp
qed

subsection \<open>Writing to the database\<close>

definition col_puts :: "storage_column \<Rightarrow> batch_put list \<Rightarrow> (bytes \<times> bytes) list" where
  "col_puts c ps = map (\<lambda>p. (bp_key p, bp_value p)) (filter (\<lambda>p. bp_column p = c) ps)"

lemma put_of_col: "put_of b c k = map_of (rev (col_puts c (sb_puts b))) k"
proof -
  have "map_of (map (\<lambda>p. ((bp_column p, bp_key p), bp_value p)) ps) (c, k) = map_of (col_puts c ps) k" for ps
    by (induction ps) (auto simp: col_puts_def)
  from this [of "rev (sb_puts b)"] show ?thesis by (simp add: put_of_def rev_map col_puts_def rev_filter)
qed

lemma col_puts_append [simp]: "col_puts c (xs @ ys) = col_puts c xs @ col_puts c ys"
  by (simp add: col_puts_def)

lemma col_puts_Cons: "col_puts c (p # ps) = (if bp_column p = c then (bp_key p, bp_value p) # col_puts c ps else col_puts c ps)"
  by (simp add: col_puts_def)

lemma col_puts_rows: "put_rows col rows = Inr ps \<Longrightarrow> col_puts c ps = (if c = col then rows else [])"
  by (induction rows arbitrary: ps) (auto simp: put_rows_def bnd_Inr_iff BatchPut_Inr col_puts_def)

lemma drop_rows_set:
  "drop_rows col existing rows = Inr ds \<Longrightarrow>
   (c, k) \<in> (\<lambda>d. (bd_column d, bd_key d)) ` set ds \<longleftrightarrow> c = col \<and> k \<in> set existing \<and> dict_get rows k = None"
  unfolding drop_rows_def
proof (induction existing arbitrary: ds)
  case (Cons x xs)
  then show ?case by (auto simp: bnd_Inr_iff BatchDelete_Inr split: if_splits)
qed simp

lemma each_delete_set:
  "each (BatchDelete col) ks = Inr ds \<Longrightarrow> (c, k) \<in> (\<lambda>d. (bd_column d, bd_key d)) ` set ds \<longleftrightarrow> c = col \<and> k \<in> set ks"
  by (induction ks arbitrary: ds) (auto simp: bnd_Inr_iff BatchDelete_Inr)

lemma delete_rows_get:
  assumes "rocks_ok R" "delete_rows R col ks db = Inr db'"
  shows "rk_get R db' c k = (if c = col \<and> k \<in> set ks then None else rk_get R db c k)"
  using assms(2)
proof (induction ks arbitrary: db)
  case (Cons x xs)
  then obtain db1 where db1: "st_delete R db col x = Inr db1" "delete_rows R col xs db1 = Inr db'" by (auto simp: bnd_Inr_iff)
  then have "rk_get R db1 c k = (if c = col \<and> k = x then None else rk_get R db c k)"
    by (auto simp: st_delete_def bnd_Inr_iff BatchDelete_Inr write_batch_get [OF assms(1)] put_of_def)
  then show ?case using Cons.IH [OF db1(2)] by auto
qed simp

lemma delete_rows_total: "\<forall>k \<in> set ks. k \<noteq> [] \<Longrightarrow> \<exists>db'. delete_rows R col ks db = Inr db'"
proof (induction ks arbitrary: db)
  case (Cons x xs)
  then show ?case by (auto simp: st_delete_def BatchDelete_def require_key_ok)
qed simp

text \<open>What the rebuilding of the mempool does to the database: it drops rows of the mempool column.\<close>

definition pruned :: "'db rocks \<Rightarrow> 'db \<Rightarrow> 'db \<Rightarrow> bool" where
  "pruned R db db' \<longleftrightarrow> (\<forall>c k. rk_get R db' c k = rk_get R db c k \<or> c = COLUMN_MEMPOOL \<and> rk_get R db' c k = None)"

lemma prunedD:
  "pruned R db db' \<Longrightarrow> c \<noteq> COLUMN_MEMPOOL \<Longrightarrow> rk_get R db' c k = rk_get R db c k"
  "pruned R db db' \<Longrightarrow> rk_get R db' COLUMN_MEMPOOL k = Some v \<Longrightarrow> rk_get R db COLUMN_MEMPOOL k = Some v"
  unfolding pruned_def by (blast, metis option.distinct(1))

lemma pruned_db_ok: "pruned R db db' \<Longrightarrow> db_ok H R db tree S \<Longrightarrow> db_ok H R db' tree S"
  by (simp add: db_ok_def rows_ok_def claims_recorded_def outputs_stored_def tree_stored_def supply_of_def prunedD(1))
    (meson prunedD(2))

lemma anchor_height_total: "\<exists>h. anchor_height_of R db = Inr h"
proof -
  have "ANCHOR_HEIGHT_KEY \<noteq> []" by (simp add: ANCHOR_HEIGHT_KEY_def ascii_def)
  then show ?thesis
    by (simp add: anchor_height_of_def st_get_eq)
qed

lemma readmit_step:
  assumes H: "digest_ok H" and "\<forall>t \<in> set ts. tx_ok t" "mempool_ok H mp"
  shows "\<exists>mp' stale'. readmit H E R db S ts mp stale = Inr (mp', stale') \<and> mempool_ok H mp' \<and>
    mp_shard_tree mp' = mp_shard_tree mp \<and> set stale' \<subseteq> set stale \<union> tx_id H ` set ts"
  using assms(2,3)
proof (induction ts arbitrary: mp stale)
  case (Cons t ts)
  obtain h where h: "anchor_height_of R db = Inr h" using anchor_height_total [of R db] by blast
  have arg: "arg_ok (TxObject t)" using Cons.prems(1) by (simp add: arg_ok_def)
  have "\<exists>r mp1. add_tx H E mp (TxObject t) None (Some (us_get S)) 0 h = Inr (r, mp1) \<and> mempool_ok H mp1 \<and>
      mp_shard_tree mp1 = mp_shard_tree mp"
  proof (cases rule: add_tx_result [OF H Cons.prems(2) arg, of E None "Some (us_get S)" 0 h, case_names bad good])
    case (bad r)
    then show ?thesis using Cons.prems(2) by blast
  next
    case (good t' view s)
    from mempool_step_ok [OF H Cons.prems(2) mempool_step.step_add [OF arg good(6)]]
    show ?thesis using good(6) by (auto simp: insert_entry_def Let_def)
  qed
  then obtain r mp1 where mp1: "add_tx H E mp (TxObject t) None (Some (us_get S)) 0 h = Inr (r, mp1)" "mempool_ok H mp1"
    "mp_shard_tree mp1 = mp_shard_tree mp" by blast
  show ?case using Cons.IH [of mp1 "if \<not> ar_accepted r then stale @ [tx_id H t] else stale"] Cons.prems(1) mp1 h by auto
qed simp

lemma set_fee_floors_total:
  "\<forall>(s, f) \<in> set fs. shard_ok s \<and> 0 \<le> f \<Longrightarrow> \<exists>mp'. set_fee_floors mp fs = Inr mp'"
proof (induction fs arbitrary: mp)
  case (Cons x fs)
  obtain s f where x: "x = (s, f)" by fastforce
  obtain mp1 where "set_fee_floor mp s f = Inr mp1" using Cons.prems set_fee_floor_Inr [of mp s f] by (auto simp: x)
  then show ?case using Cons.IH [of mp1] Cons.prems by (auto simp: x)
qed simp

lemma set_fee_floors_tree: "set_fee_floors mp fs = Inr mp' \<Longrightarrow> mp_shard_tree mp' = mp_shard_tree mp"
  by (induction mp fs rule: set_fee_floors.induct) (auto simp: bnd_Inr_iff set_fee_floor_Inr)

lemma stored_floors_ok:
  assumes "rocks_ok R" "rows_ok H R db"
  shows "\<forall>(s, f) \<in> set (stored_fee_floors R db). shard_ok s \<and> 0 \<le> f"
proof -
  let ?P = "\<lambda>x :: int \<times> int. shard_ok (fst x) \<and> 0 \<le> snd x"
  have upd: "\<forall>x \<in> set (dict_set s f d). ?P x" if "shard_ok s" "0 \<le> f" "\<forall>x \<in> set d. ?P x" for s f and d :: "(int, int) dict"
    using that by (induction d) (auto split: if_splits)
  have keys: "\<forall>(k, v) \<in> set (st_items R db COLUMN_FEE_FLOORS). length k = 4 \<longrightarrow> shard_ok (from_le k)"
  proof (clarify)
    fix k v assume kv: "(k, v) \<in> set (st_items R db COLUMN_FEE_FLOORS)" "length k = 4"
    then have "k \<in> set (map fst (st_items R db COLUMN_FEE_FLOORS))" by force
    then show "shard_ok (from_le k)" using in_items [OF assms(1)] assms(2) kv(2) by (auto simp: rows_ok_def)
  qed
  have "\<forall>x \<in> set (stored_fee_floors R db). ?P x"
    unfolding stored_fee_floors_def
  proof (rule fold_invariant [where Q = "\<lambda>(k, v). length k = 4 \<longrightarrow> shard_ok (from_le k)"])
    fix x :: "bytes \<times> bytes" and s :: "(int, int) dict"
    assume "case x of (k, v) \<Rightarrow> length k = 4 \<longrightarrow> shard_ok (from_le k)" "\<forall>y \<in> set s. ?P y"
    then show "\<forall>y \<in> set ((case x of (key, value) \<Rightarrow> \<lambda>floors. if length key \<noteq> 4 \<or> length value \<noteq> 8 then floors
        else dict_set (from_le key) (from_le value) floors) s). ?P y"
      using upd [OF _ from_le_nonneg \<open>\<forall>y \<in> set s. ?P y\<close>] by (cases x) (simp, blast)
  qed (use keys in auto)
  then show ?thesis by auto
qed

lemma tx_id_nonempty: "digest_ok H \<Longrightarrow> tx_id H t \<noteq> []"
  by (simp add: tx_id_def digest_nonempty)

lemma rebuild_mempool_total:
  assumes R: "rocks_ok R" and H: "digest_ok H" and "rows_ok H R db" "tree_ok (leaf_shard_ids tree)" "\<forall>t \<in> set ts. tx_ok t"
  shows "\<exists>mp db'. rebuild_mempool H E R db tree S ts = Inr (mp, db') \<and> mempool_ok H mp \<and> mp_shard_tree mp = tree \<and> pruned R db db'"
proof -
  obtain mp where mp: "Mempool (Some tree) (Some (us_get S)) (Some (stored_fee_floors R db)) = Inr mp"
    using set_fee_floors_total [OF stored_floors_ok [OF R assms(3)]] by (auto simp: Mempool_def)
  have ok: "mempool_ok H mp" using Mempool_ok [OF _ mp] assms(4) by simp
  have tree: "mp_shard_tree mp = tree" using mp by (auto simp: Mempool_def dest: set_fee_floors_tree)
  obtain mp' stale where st: "readmit H E R db S ts mp [] = Inr (mp', stale)" "mempool_ok H mp'" "mp_shard_tree mp' = tree"
    "set stale \<subseteq> tx_id H ` set ts" using readmit_step [OF H assms(5) ok, of E R db S "[]"] tree by auto
  have "\<forall>k \<in> set stale. k \<noteq> []"
  proof
    fix k assume "k \<in> set stale"
    then obtain t where "k = tx_id H t" using st(4) by blast
    then show "k \<noteq> []" by (simp add: tx_id_nonempty [OF H])
  qed
  then obtain db' where db': "delete_rows R COLUMN_MEMPOOL stale db = Inr db'" using delete_rows_total [of stale R COLUMN_MEMPOOL db] by auto
  have "pruned R db db'" by (simp add: pruned_def delete_rows_get [OF R db'])
  moreover have "rebuild_mempool H E R db tree S ts = Inr (mp', db')" using mp st(1) db' by (simp add: rebuild_mempool_def)
  ultimately show ?thesis using st(2,3) by blast
qed

subsection \<open>Loading the state\<close>

lemma outputs_load:
  assumes R: "rocks_ok R" and H: "digest_ok H" and S: "utxo_set_ok H S" and st: "outputs_stored H R db (us_get S)"
  shows "\<exists>us S'. st_utxos H R db = Inr us \<and> UTXOSet H us = Inr S' \<and> utxo_set_ok H S' \<and> us_get S' = us_get S"
proof -
  have I: "utxo_index_ok H S" using S by (simp add: utxo_set_ok_def)
  have inj: "inj_on (utxo_key H) (ran (us_get S))"
    using utxo_key_unique [OF I] by (auto simp: inj_on_def ran_def us_get_def)
  have ok: "digest_ok H \<and> utxo_ok u" if "u \<in> ran (us_get S)" for u
    using that utxos.content_ok [OF S] H by (auto simp: ran_def)
  have get: "rk_get R db COLUMN_UTXO k = Some v \<longleftrightarrow> (\<exists>u \<in> ran (us_get S). utxo_key H u = k \<and> Inr (utxo_to_bytes u) = (Inr v :: bytes res))" for k v
    using st by (simp add: outputs_stored_def)
  obtain us where us: "each (\<lambda>(k, v). utxo_from_bytes H v (Some k)) (st_items R db COLUMN_UTXO) = Inr us"
    "set us = ran (us_get S)" "sorted_wrt (\<lambda>x y. utxo_key H x < utxo_key H y) us"
    by (rule utxo_column.load_all [OF R ok get inj])
  have "distinct (map (utxo_key H) us)" using us(3) by (simp add: strict_sorted_iff sorted_wrt_map [symmetric])
  then have "distinct us" by (simp add: distinct_map)
  from UTXOSet_of [OF S us(2) this] show ?thesis using us(1) by (auto simp: st_utxos_def)
qed

lemma each_Inr_ex:
  "\<forall>x \<in> set xs. \<exists>y. f x = Inr y \<and> P y \<Longrightarrow> \<exists>ys. each f xs = Inr ys \<and> (\<forall>y \<in> set ys. P y)"
proof (induction xs)
  case (Cons x xs)
  obtain y where y: "f x = Inr y" "P y" using Cons.prems by auto
  obtain ys where ys: "each f xs = Inr ys" "\<forall>y \<in> set ys. P y" using Cons by auto
  show ?case by (intro exI [of _ "y # ys"]) (use y ys in simp)
qed simp

lemma mempool_load:
  assumes R: "rocks_ok R" and "rows_ok H R db"
  shows "\<exists>ts. mempool_txs R db = Inr ts \<and> (\<forall>t \<in> set ts. tx_ok t)"
  unfolding mempool_txs_def
proof (rule each_Inr_ex, clarify)
  fix k v assume "(k, v) \<in> set (st_items R db COLUMN_MEMPOOL)"
  moreover have "distinct (map fst (st_items R db COLUMN_MEMPOOL))"
    using rocks_okD(2) [OF R, of db COLUMN_MEMPOOL] by (simp add: st_items_def strict_sorted_iff)
  ultimately have "rk_get R db COLUMN_MEMPOOL k = Some v"
    using rocks_okD(3) [OF R, of db COLUMN_MEMPOOL] map_of_is_SomeI by (fastforce simp: st_items_def)
  then obtain t where "tx_ok t" "v = tx_to_bytes t" using assms(2) unfolding rows_ok_def by blast
  then show "\<exists>t. tx_from_bytes v = Inr t \<and> tx_ok t" by (auto simp: tx_from_to_bytes)
qed

lemma tree_stored_ok: "tree_stored R db tree \<Longrightarrow> tree_ok (leaf_shard_ids tree)"
  by (auto simp: tree_stored_def default_tree_ok split: option.splits dest: deserialize_tree_Inr)

lemma get_stored_tree:
  "tree_stored R db tree \<Longrightarrow> \<exists>st. get_shard_tree R db = Inr st \<and> (case st of None \<Rightarrow> default_tree | Some t \<Rightarrow> t) = tree"
  by (auto simp: tree_stored_def get_shard_tree_def st_get_eq ascii_def split: option.splits)

lemma db_ok_load:
  assumes R: "rocks_ok R" and H: "digest_ok H" and db: "db_ok H R db tree S"
  shows "\<exists>n. load_state H E R db = Inr n \<and> node_ok H R n \<and> nd_shard_tree n = tree \<and> us_get (nd_utxo_set n) = us_get S \<and>
    pruned R db (nd_db n)"
proof -
  have d: "rows_ok H R db" "utxo_set_ok H S" "outputs_stored H R db (us_get S)" "tree_stored R db tree" using db by (simp_all add: db_ok_def)
  obtain st where st: "get_shard_tree R db = Inr st" "(case st of None \<Rightarrow> default_tree | Some t \<Rightarrow> t) = tree"
    using get_stored_tree [OF d(4)] by blast
  obtain us S' where us: "st_utxos H R db = Inr us" "UTXOSet H us = Inr S'" "utxo_set_ok H S'" "us_get S' = us_get S"
    using outputs_load [OF R H d(2,3)] by blast
  obtain ts where ts: "mempool_txs R db = Inr ts" "\<forall>t \<in> set ts. tx_ok t" using mempool_load [OF R d(1)] by blast
  obtain mp db' where mp: "rebuild_mempool H E R db tree S' ts = Inr (mp, db')" "mempool_ok H mp" "pruned R db db'"
    using rebuild_mempool_total [OF R H d(1) tree_stored_ok [OF d(4)] ts(2), of E S'] by blast
  have "db_ok H R db tree S'" using db us(3) unfolding db_ok_def us(4) by blast
  then have "db_ok H R db' tree S'" by (rule pruned_db_ok [OF mp(3)])
  then show ?thesis
    using st us mp ts(1) by (intro exI [of _ "\<lparr>nd_db = db', nd_shard_tree = tree, nd_utxo_set = S', nd_mempool = mp\<rparr>"])
      (simp add: load_state_def node_ok_def)
qed

lemma open_marked: "rk_get R db COLUMN_DAG STORAGE_META_KEY = Some STORAGE_FORMAT_BYTES \<Longrightarrow> open_store R db = Inr db"
  by (simp add: open_store_def st_get_eq STORAGE_META_KEY_def ascii_def)

lemmas db_keys = fruit_meta_key_def fruit_coinbase_claimed_key_def anchor_meta_key_def FRUIT_META_PREFIX_def
  FRUIT_COINBASE_CLAIMED_PREFIX_def ANCHOR_META_PREFIX_def ANCHOR_HEIGHT_KEY_def ANCHOR_TIP_KEY_def MINTED_SUPPLY_KEY_def
  STORAGE_META_KEY_def ascii_def

lemma key_distinct [simp]:
  "fruit_meta_key h = fruit_meta_key h' \<longleftrightarrow> h = h'"
  "fruit_meta_key h \<noteq> fruit_coinbase_claimed_key h'" "fruit_meta_key h \<noteq> anchor_meta_key h'" "fruit_meta_key h \<noteq> STORAGE_META_KEY"
  "fruit_meta_key h \<noteq> ANCHOR_HEIGHT_KEY" "fruit_meta_key h \<noteq> ANCHOR_TIP_KEY" "fruit_meta_key h \<noteq> MINTED_SUPPLY_KEY"
  "STORAGE_META_KEY \<noteq> anchor_meta_key h" "STORAGE_META_KEY \<noteq> fruit_coinbase_claimed_key h"
  "STORAGE_META_KEY \<noteq> ANCHOR_HEIGHT_KEY" "STORAGE_META_KEY \<noteq> ANCHOR_TIP_KEY" "STORAGE_META_KEY \<noteq> MINTED_SUPPLY_KEY"
  "MINTED_SUPPLY_KEY \<noteq> anchor_meta_key h" "MINTED_SUPPLY_KEY \<noteq> fruit_coinbase_claimed_key h"
  "MINTED_SUPPLY_KEY \<noteq> ANCHOR_HEIGHT_KEY" "MINTED_SUPPLY_KEY \<noteq> ANCHOR_TIP_KEY" "MINTED_SUPPLY_KEY \<noteq> STORAGE_META_KEY"
  "prefix FRUIT_COINBASE_CLAIMED_PREFIX (fruit_coinbase_claimed_key h)"
  "\<not> prefix FRUIT_COINBASE_CLAIMED_PREFIX (fruit_meta_key h)" "\<not> prefix FRUIT_COINBASE_CLAIMED_PREFIX STORAGE_META_KEY"
  "\<not> prefix FRUIT_COINBASE_CLAIMED_PREFIX MINTED_SUPPLY_KEY"
  by (simp_all add: db_keys)

lemma boot_ok:
  assumes R: "rocks_ok R" and empty: "\<And>c k. rk_get R db c k = None"
  obtains db' where "open_store R db = Inr db'" "db_ok H R db' default_tree empty_utxo_set" "\<And>c k. c \<noteq> COLUMN_DAG \<Longrightarrow> rk_get R db' c k = None"
proof -
  have ne: "STORAGE_META_KEY \<noteq> []" by (simp add: STORAGE_META_KEY_def ascii_def)
  obtain db' where db': "st_put R db COLUMN_DAG STORAGE_META_KEY STORAGE_FORMAT_BYTES = Inr db'"
    "\<And>c k. rk_get R db' c k = (if c = COLUMN_DAG \<and> k = STORAGE_META_KEY then Some STORAGE_FORMAT_BYTES else rk_get R db c k)"
    by (rule st_put_Inr [OF R ne, of db COLUMN_DAG STORAGE_FORMAT_BYTES]) blast
  have n: "us_get empty_utxo_set = Map.empty" by (simp add: us_get_eq empty_utxo_set_def)
  have "open_store R db = Inr db'" using db'(1) by (simp add: open_store_def st_get_eq empty STORAGE_META_KEY_def ascii_def)
  moreover have "db_ok H R db' default_tree empty_utxo_set"
    by (simp add: db_ok_def rows_ok_def claims_recorded_def outputs_stored_def tree_stored_def supply_of_def db'(2) empty n
        empty_utxo_set_ok worth_def decode_u64_or_zero_def MAX_SUPPLY_MATOMS_def)
  moreover have "c \<noteq> COLUMN_DAG \<Longrightarrow> rk_get R db' c k = None" for c k by (simp add: db'(2) empty)
  ultimately show thesis by (rule that)
qed

lemma boot_node:
  assumes "rocks_ok R" "digest_ok H" "\<And>c k. rk_get R db c k = None"
  shows "\<exists>n. open_node H E R db = Inr n \<and> node_ok H R n \<and> nd_shard_tree n = default_tree \<and> us_get (nd_utxo_set n) = Map.empty \<and>
    (\<forall>c k. c \<noteq> COLUMN_DAG \<longrightarrow> rk_get R (nd_db n) c k = None)"
proof -
  obtain db' where db': "open_store R db = Inr db'" "db_ok H R db' default_tree empty_utxo_set" "\<And>c k. c \<noteq> COLUMN_DAG \<Longrightarrow> rk_get R db' c k = None"
    by (rule boot_ok [OF assms(1,3), of H]) blast
  have e: "us_get empty_utxo_set = Map.empty" by (simp add: us_get_eq empty_utxo_set_def)
  obtain n where n: "load_state H E R db' = Inr n" "node_ok H R n" "nd_shard_tree n = default_tree"
    "us_get (nd_utxo_set n) = us_get empty_utxo_set" "pruned R db' (nd_db n)"
    using db_ok_load [OF assms(1,2) db'(2), of E] by blast
  have "c \<noteq> COLUMN_DAG \<longrightarrow> rk_get R (nd_db n) c k = None" for c k using n(5) db'(3) [of c k] unfolding pruned_def by metis
  then show ?thesis using db'(1) n by (intro exI [of _ n]) (simp add: open_node_def e)
qed

lemma restart_node:
  assumes "rocks_ok R" "digest_ok H" "node_ok H R n"
  shows "\<exists>n'. open_node H E R (nd_db n) = Inr n' \<and> node_ok H R n' \<and> nd_shard_tree n' = nd_shard_tree n \<and>
    us_get (nd_utxo_set n') = us_get (nd_utxo_set n) \<and> pruned R (nd_db n) (nd_db n')"
proof -
  have db: "db_ok H R (nd_db n) (nd_shard_tree n) (nd_utxo_set n)" using assms(3) by (simp add: node_ok_def)
  then have "open_store R (nd_db n) = Inr (nd_db n)" by (intro open_marked) (simp add: db_ok_def rows_ok_def)
  then show ?thesis using db_ok_load [OF assms(1,2) db, of E] by (simp add: open_node_def)
qed

subsection \<open>Copying another node\<close>

lemma each_concat_puts:
  "each (\<lambda>col. put_rows col (rows col)) cols = Inr ps \<Longrightarrow> distinct cols \<Longrightarrow>
   col_puts c (concat ps) = (if c \<in> set cols then rows c else [])"
  by (induction cols arbitrary: ps) (auto simp: bnd_Inr_iff col_puts_rows col_puts_def [of _ "[]"])

lemma each_concat_drops:
  "each (\<lambda>col. drop_rows col (existing col) (rows col)) cols = Inr ds \<Longrightarrow>
   (c, k) \<in> (\<lambda>d. (bd_column d, bd_key d)) ` set (concat ds) \<longleftrightarrow> c \<in> set cols \<and> k \<in> set (existing c) \<and> dict_get (rows c) k = None"
proof (induction cols arbitrary: ds)
  case (Cons x xs)
  then obtain d ds' where ds: "drop_rows x (existing x) (rows x) = Inr d" "each (\<lambda>col. drop_rows col (existing col) (rows col)) xs = Inr ds'"
    "ds = d # ds'" by (auto simp: bnd_Inr_iff)
  show ?case unfolding ds(3) concat.simps set_append image_Un Un_iff drop_rows_set [OF ds(1)] Cons.IH [OF ds(2)] by auto
qed simp

lemma all_columns: "set STORAGE_COLUMNS = UNIV" "distinct STORAGE_COLUMNS"
proof -
  have "c \<in> set STORAGE_COLUMNS" for c by (cases c) (simp_all add: STORAGE_COLUMNS_def)
  then show "set STORAGE_COLUMNS = UNIV" by blast
qed (simp add: STORAGE_COLUMNS_def)

lemma map_of_rev_distinct: "distinct (map fst xs) \<Longrightarrow> map_of (rev xs) = map_of xs"
  by (rule map_of_inject_set [THEN iffD2]) (simp_all add: rev_map [symmetric])

lemma items_map:
  assumes "rocks_ok R"
  shows "map_of (rev (st_items R db c)) = rk_get R db c" "map_of (st_items R db c) = rk_get R db c"
proof -
  have d: "distinct (map fst (rk_items R db c))" using rocks_okD(2) [OF assms, of db c] by (simp add: strict_sorted_iff)
  have "map_of (rev (rk_items R db c)) = map_of (rk_items R db c)" by (rule map_of_rev_distinct [OF d])
  then show "map_of (rev (st_items R db c)) = rk_get R db c" by (simp only: st_items_def rocks_okD(3) [OF assms])
qed (simp add: st_items_def rocks_okD(3) [OF assms])

lemma copied_get:
  assumes R: "rocks_ok R" and b: "copy_batch R source target = Inr b"
  shows "rk_get R (write_batch R target b) c k = rk_get R source c k"
proof -
  obtain puts deletes where pd: "each (\<lambda>col. put_rows col (st_items R source col)) STORAGE_COLUMNS = Inr puts"
    "each (\<lambda>col. drop_rows col (map fst (st_items R target col)) (st_items R source col)) STORAGE_COLUMNS = Inr deletes"
    "b = \<lparr>sb_puts = concat puts, sb_deletes = concat deletes\<rparr>"
    using b by (auto simp: copy_batch_def bnd_Inr_iff)
  have "put_of b c k = rk_get R source c k"
    by (simp add: put_of_col pd(3) each_concat_puts [OF pd(1) all_columns(2)] all_columns(1) items_map [OF R])
  moreover have "(c, k) \<in> (\<lambda>d. (bd_column d, bd_key d)) ` set (sb_deletes b) \<longleftrightarrow>
      rk_get R target c k \<noteq> None \<and> rk_get R source c k = None"
    using each_concat_drops [OF pd(2), of c k]
    by (simp only: pd(3) storage_batch.simps all_columns(1) UNIV_I simp_thms in_items [OF R] items_map(2) [OF R])
  ultimately show ?thesis unfolding write_batch_get [OF R] by (auto split: option.splits)
qed

lemma sync_node:
  assumes R: "rocks_ok R" and H: "digest_ok H" and "node_ok H R other" "sync_from H E R n other = Inr n'"
  shows "node_ok H R n' \<and> nd_shard_tree n' = nd_shard_tree other \<and> us_get (nd_utxo_set n') = us_get (nd_utxo_set other)"
proof -
  obtain b where b: "copy_batch R (nd_db other) (nd_db n) = Inr b" "load_state H E R (write_batch R (nd_db n) b) = Inr n'"
    using assms(4) by (auto simp: sync_from_def bnd_Inr_iff)
  have "pruned R (nd_db other) (write_batch R (nd_db n) b)" by (simp add: pruned_def copied_get [OF R b(1)])
  moreover have "db_ok H R (nd_db other) (nd_shard_tree other) (nd_utxo_set other)" using assms(3) by (simp add: node_ok_def)
  ultimately have "db_ok H R (write_batch R (nd_db n) b) (nd_shard_tree other) (nd_utxo_set other)" by (rule pruned_db_ok)
  from db_ok_load [OF R H this, of E] show ?thesis using b(2) by auto
qed

subsection \<open>Transactions\<close>

lemma pool_txs_ok:
  assumes "mempool_ok H mp" shows "\<forall>e \<in> set (mp_entries_tuple mp). tx_ok (me_tx e)"
  using assms
  by (auto simp: mempool_ok_def mp_entries_tuple_def entry_ok_def index_ok_def)

lemma staged_pool:
  assumes "rocks_ok R" "digest_ok H" "node_ok H R n"
  shows "\<exists>mp db. rebuild_mempool H E R (nd_db n) (nd_shard_tree n) (nd_utxo_set n) (mempool_transactions n) = Inr (mp, db) \<and>
    mempool_ok H mp \<and> mp_shard_tree mp = nd_shard_tree n \<and> pruned R (nd_db n) db"
proof (rule rebuild_mempool_total [OF assms(1,2)])
  show "rows_ok H R (nd_db n)" "tree_ok (leaf_shard_ids (nd_shard_tree n))"
    using assms(3) by (auto simp: node_ok_def db_ok_def dest: tree_stored_ok)
  show "\<forall>t \<in> set (mempool_transactions n). tx_ok t"
    using pool_txs_ok assms(3) by (auto simp: mempool_transactions_def node_ok_def)
qed

lemma raw_tx_node:
  assumes R: "rocks_ok R" and H: "digest_ok H" and n: "node_ok H R n"
  shows "\<exists>r n'. process_raw_tx H E R n data = Inr (r, n') \<and> node_ok H R n' \<and> nd_shard_tree n' = nd_shard_tree n \<and>
    nd_utxo_set n' = nd_utxo_set n \<and>
    (nr_accepted (fst r) \<longrightarrow> (\<exists>t mp. tx_from_bytes data = Inr t \<and> admissible H E mp t None (us_get (nd_utxo_set n)) 0 0 \<and>
       mp_get (nd_mempool n') (tx_id H t) = Some t \<and> rk_get R (nd_db n') COLUMN_MEMPOOL (tx_id H t) = Some data))"
proof (cases "tx_from_bytes data")
  case (Inl e)
  then show ?thesis using n tx_decode_caught [OF Inl] by (simp add: process_raw_tx_def result_reject_def)
next
  case (Inr t)
  have t: "tx_ok t" "tx_to_bytes t = data" using tx_to_from_bytes [OF Inr] by auto
  show ?thesis
  proof (cases "tx_inputs t = []")
    case True
    then show ?thesis using n Inr by (simp add: process_raw_tx_def result_reject_def)
  next
    case False
    obtain mp db where mp: "rebuild_mempool H E R (nd_db n) (nd_shard_tree n) (nd_utxo_set n) (mempool_transactions n) = Inr (mp, db)"
      "mempool_ok H mp" "pruned R (nd_db n) db" using staged_pool [OF R H n, of E] by blast
    have db: "db_ok H R db (nd_shard_tree n) (nd_utxo_set n)" using n pruned_db_ok [OF mp(3)] by (simp add: node_ok_def)
    have arg: "arg_ok (TxObject t)" "tx_of (TxObject t) = Some t"
      using t by (simp_all add: arg_ok_def tx_of_def tx_from_to_bytes)
    show ?thesis
    proof (cases rule: add_tx_result [OF H mp(2) arg(1), of E None "Some (us_get (nd_utxo_set n))" 0 0, case_names bad good])
      case (bad r)
      then show ?thesis using n Inr False mp db by (simp add: process_raw_tx_def result_reject_def node_ok_def)
    next
      case (good t' view s)
      have t': "t' = t" "view = us_get (nd_utxo_set n)" using good(1,3) arg(2) by (simp_all add: view_of_def)
      let ?mp = "insert_entry mp (entry_of H view t s)"
      have mp': "mempool_ok H ?mp" using mempool_step_ok [OF H mp(2) mempool_step.step_add [OF arg(1) good(6)]] by (simp add: t'(1))
      obtain db' where db': "st_put R db COLUMN_MEMPOOL (tx_id H t) (tx_to_bytes t) = Inr db'"
        "\<And>c k. rk_get R db' c k = (if c = COLUMN_MEMPOOL \<and> k = tx_id H t then Some (tx_to_bytes t) else rk_get R db c k)"
        by (rule st_put_Inr [OF R tx_id_nonempty [OF H], of db COLUMN_MEMPOOL t "tx_to_bytes t"]) blast
      have "db_ok H R db' (nd_shard_tree n) (nd_utxo_set n)"
        using db t(1) by (auto simp: db_ok_def rows_ok_def claims_recorded_def outputs_stored_def tree_stored_def supply_of_def db'(2))
      moreover have "process_raw_tx H E R n data = Inr ((result_ok (tx_id H t), Some (add_ok (tx_id H t) s (tx_fee view t) (tx_rate view t))),
          n\<lparr>nd_db := db', nd_mempool := ?mp\<rparr>)"
        using Inr False mp(1) good(6) db'(1)
        by (simp add: process_raw_tx_def t' [symmetric] put_mempool_tx_def add_ok_def)
      moreover have "mp_get ?mp (tx_id H t) = Some t" by (simp add: mp_get_def insert_entry_def entry_of_def Let_def update_conv')
      ultimately show ?thesis using mp' good(4) db'(2) t by (auto simp: node_ok_def t' Inr)
    qed
  qed
qed

subsection \<open>Fruits\<close>

lemma or_reject_Inr:
  "or_reject n m = Inr (r, n') \<longleftrightarrow> (\<exists>reason. m = Inr (Inl reason) \<and> r = result_reject reason \<and> n' = n) \<or> m = Inr (Inr (r, n'))"
  by (cases m) (auto simp: or_reject_def split: sum.splits)

lemma check_fruit_accept:
  assumes "check_fruit H E V R now n f = Inr (Inr (txs, meta))"
  shows "get_body_bytes R (nd_db n) (fruit_block_hash H f) = Inr None \<and> each tx_from_bytes (f_transactions f) = Inr txs \<and> txs \<noteq> [] \<and>
    tx_inputs (hd txs) = [] \<and> fm_coinbase_claim_matoms meta = sum_list (map out_amount_matoms (tx_outputs (hd txs))) \<and>
    (\<exists>cs pow. validate_fruit_dependencies H R (nd_db n) now f = Inr (Inr cs) \<and> fruit_to_pow_header (f_header f) cs = Inr pow \<and>
       V pow FRUIT_TARGET_LE = Inr True)"
proof -
  obtain txs' cs pow claim tips where s: "get_body_bytes R (nd_db n) (fruit_block_hash H f) = Inr None"
    "each tx_from_bytes (f_transactions f) = Inr txs'" "txs' \<noteq> []" "tx_inputs (hd txs') = []"
    "validate_fruit_dependencies H R (nd_db n) now f = Inr (Inr cs)" "fruit_to_pow_header (f_header f) cs = Inr pow"
    "node_verify_pow V pow FRUIT_TARGET_LE = Inr True" "tx_output_sum (hd txs') = Inr claim"
    "txs' = txs" "meta = \<lparr>fm_coinbase_claim_matoms = claim, fm_tip_matoms = tips\<rparr>"
    using assms unfolding check_fruit_def Let_def by (auto simp: answer_iff split: if_splits)
  have "V pow FRUIT_TARGET_LE = Inr True" using s(7) by (auto simp: node_verify_pow_def split: sum.splits if_splits)
  moreover have "claim = sum_list (map out_amount_matoms (tx_outputs (hd txs')))" using s(8) by (auto simp: tx_output_sum_def Let_def bnd_Inr_iff)
  ultimately show ?thesis using s by auto
qed

lemma store_fruit_batch:
  assumes R: "rocks_ok R" and H: "digest_ok H"
    and b: "atomic_state_batch H [(h, FruitHeaderOf hdr)] [(h, FruitOf f)] [] [] [] tids = Inr b"
    and p: "BatchPut COLUMN_DAG (fruit_meta_key h) value = Inr p"
    and db': "db' = write_batch R db \<lparr>sb_puts = sb_puts b @ [p], sb_deletes = sb_deletes b\<rparr>"
  shows "c \<noteq> COLUMN_MEMPOOL \<Longrightarrow> rk_get R db' c k =
      (if c = COLUMN_HEADERS \<and> k = h then Some (serialize_fruit_header hdr)
       else if c = COLUMN_BODIES \<and> k = h then Some (serialize_fruit f)
       else if c = COLUMN_DAG \<and> k = fruit_meta_key h then Some value else rk_get R db c k)"
    and "rk_get R db' COLUMN_MEMPOOL k = (if k \<in> set tids then None else rk_get R db COLUMN_MEMPOOL k)"
proof -
  obtain ds where b': "sb_puts b = [\<lparr>bp_column = COLUMN_HEADERS, bp_key = h, bp_value = serialize_fruit_header hdr\<rparr>,
      \<lparr>bp_column = COLUMN_BODIES, bp_key = h, bp_value = serialize_fruit f\<rparr>]" "sb_deletes b = ds"
      "each (\<lambda>tid. bnd (require_hash tid) (\<lambda>_. BatchDelete COLUMN_MEMPOOL tid)) tids = Inr ds"
    using b by (auto simp: atomic_state_batch_def bnd_Inr_iff BatchPut_Inr)
  have p': "p = \<lparr>bp_column = COLUMN_DAG, bp_key = fruit_meta_key h, bp_value = value\<rparr>" using p by (simp add: BatchPut_Inr)
  have ds: "(c, k) \<in> (\<lambda>d. (bd_column d, bd_key d)) ` set ds \<longleftrightarrow> c = COLUMN_MEMPOOL \<and> k \<in> set tids" for c k
    using b'(3) by (induction tids arbitrary: ds) (auto simp: bnd_Inr_iff BatchDelete_Inr)
  show "c \<noteq> COLUMN_MEMPOOL \<Longrightarrow> rk_get R db' c k =
      (if c = COLUMN_HEADERS \<and> k = h then Some (serialize_fruit_header hdr)
       else if c = COLUMN_BODIES \<and> k = h then Some (serialize_fruit f)
       else if c = COLUMN_DAG \<and> k = fruit_meta_key h then Some value else rk_get R db c k)"
    unfolding db' write_batch_get [OF R] storage_batch.simps b' ds by (simp add: put_of_col b' p' col_puts_def)
  show "rk_get R db' COLUMN_MEMPOOL k = (if k \<in> set tids then None else rk_get R db COLUMN_MEMPOOL k)"
    unfolding db' write_batch_get [OF R] storage_batch.simps b' ds by (simp add: put_of_col b' p' col_puts_def)
qed

lemma each_hd: "each f xs = Inr ys \<Longrightarrow> ys \<noteq> [] \<Longrightarrow> \<exists>x rest. xs = x # rest \<and> f x = Inr (hd ys)"
  by (cases xs) (auto simp: bnd_Inr_iff)

lemma stored_fruit_db:
  assumes db: "db_ok H R db tree S" and f: "fruit_ok H f" "f_transactions f = raw # rest" "tx_from_bytes raw = Inr t"
    and m: "encode_fruit_meta meta = Inr value" "fm_coinbase_claim_matoms meta = sum_list (map out_amount_matoms (tx_outputs t))"
    and new: "rk_get R db COLUMN_BODIES h = None"
    and get: "\<And>c k. c \<noteq> COLUMN_MEMPOOL \<Longrightarrow> rk_get R db' c k =
      (if c = COLUMN_HEADERS \<and> k = h then Some header
       else if c = COLUMN_BODIES \<and> k = h then Some (serialize_fruit f)
       else if c = COLUMN_DAG \<and> k = fruit_meta_key h then Some value else rk_get R db c k)"
      "\<And>k. rk_get R db' COLUMN_MEMPOOL k = (if k \<in> tids then None else rk_get R db COLUMN_MEMPOOL k)"
  shows "db_ok H R db' tree S"
proof -
  have old: "claims_recorded H R db" using db by (simp add: db_ok_def rows_ok_def)
  have "claims_recorded H R db'"
    unfolding claims_recorded_def
  proof (intro allI impI)
    fix x v assume v: "rk_get R db' COLUMN_DAG (fruit_meta_key x) = Some v"
    show "\<exists>f raw rest t m. rk_get R db' COLUMN_BODIES x = Some (serialize_fruit f) \<and> fruit_ok H f \<and> f_transactions f = raw # rest \<and>
        tx_from_bytes raw = Inr t \<and> decode_fruit_meta (Some v) = Some m \<and>
        fm_coinbase_claim_matoms m = sum_list (map out_amount_matoms (tx_outputs t))"
    proof (cases "x = h")
      case True
      then have "v = value" using v by (simp add: get)
      then show ?thesis using f m fruit_meta_roundtrip [OF m(1)] True by (auto simp: get)
    next
      case False
      then have "rk_get R db COLUMN_DAG (fruit_meta_key x) = Some v" using v by (simp add: get)
      then show ?thesis using old False by (simp add: claims_recorded_def get)
    qed
  qed
  then show ?thesis using db by (auto simp: db_ok_def rows_ok_def outputs_stored_def tree_stored_def supply_of_def get
      key_distinct(4,7) [symmetric] split: if_splits)
qed

lemma body_absent: "digest_ok H \<Longrightarrow> get_body_bytes R db (fruit_block_hash H f) = Inr b \<Longrightarrow> rk_get R db COLUMN_BODIES (fruit_block_hash H f) = b"
  by (simp add: get_body_bytes_def bnd_require_hash_len fruit_block_hash_def fruit_header_hash_def length_domain_hash st_get_eq
      digest_nonempty)

lemma fruit_node:
  assumes R: "rocks_ok R" and H: "digest_ok H" and n: "node_ok H R n" and f: "fruit_ok H f"
    and p: "process_fruit H E V R now n f = Inr (r, n')"
  shows "node_ok H R n' \<and> nd_shard_tree n' = nd_shard_tree n \<and> nd_utxo_set n' = nd_utxo_set n \<and>
    (if nr_accepted r then nr_object_hash r = Some (fruit_block_hash H f) \<and>
       rk_get R (nd_db n) COLUMN_BODIES (fruit_block_hash H f) = None \<and>
       rk_get R (nd_db n') COLUMN_BODIES (fruit_block_hash H f) = Some (serialize_fruit f)
     else n' = n)"
proof (cases "\<exists>reason. r = result_reject reason \<and> n' = n")
  case True
  then show ?thesis using n by (auto simp: result_reject_def)
next
  case False
  then obtain txs meta where c: "check_fruit H E V R now n f = Inr (Inr (txs, meta))" "store_fruit H E R n f txs meta = Inr (r, n')"
    using p unfolding process_fruit_def or_reject_Inr by (auto simp: answer_iff)
  note ck = check_fruit_accept [OF c(1)]
  let ?h = "fruit_block_hash H f"
  obtain b val put db pending mp db' where s:
    "atomic_state_batch H [(?h, FruitHeaderOf (f_header f))] [(?h, FruitOf f)] [] [] [] (map (tx_id H) txs) = Inr b"
    "encode_fruit_meta meta = Inr val" "BatchPut COLUMN_DAG (fruit_meta_key ?h) val = Inr put"
    "db = write_batch R (nd_db n) \<lparr>sb_puts = sb_puts b @ [put], sb_deletes = sb_deletes b\<rparr>"
    "mempool_txs R db = Inr pending"
    "rebuild_mempool H E R db (nd_shard_tree n) (nd_utxo_set n) (filter (\<lambda>t. tx_id H t \<notin> tx_id H ` set txs) pending) = Inr (mp, db')"
    "r = result_ok ?h" "n' = n\<lparr>nd_db := db', nd_mempool := mp\<rparr>"
    using c(2) unfolding store_fruit_def Let_def by (auto simp: bnd_Inr_iff)
  obtain raw rest where raw: "f_transactions f = raw # rest" "tx_from_bytes raw = Inr (hd txs)"
    using each_hd [of tx_from_bytes "f_transactions f" txs] ck by blast
  have new: "rk_get R (nd_db n) COLUMN_BODIES ?h = None" by (rule body_absent [OF H conjunct1 [OF ck]])
  have old: "db_ok H R (nd_db n) (nd_shard_tree n) (nd_utxo_set n)" using n by (simp add: node_ok_def)
  note get = store_fruit_batch [OF R H s(1,3,4)]
  have db: "db_ok H R db (nd_shard_tree n) (nd_utxo_set n)"
    by (rule stored_fruit_db [OF old f raw s(2) _ new get]) (use ck in simp_all)
  obtain ts where ts: "mempool_txs R db = Inr ts" "\<forall>t \<in> set ts. tx_ok t" using mempool_load [OF R] db unfolding db_ok_def by blast
  have pend: "\<forall>t \<in> set (filter (\<lambda>t. tx_id H t \<notin> tx_id H ` set txs) pending). tx_ok t" using ts s(5) by simp
  have mp: "mempool_ok H mp" "pruned R db db'"
    using rebuild_mempool_total [OF R H _ _ pend, of db "nd_shard_tree n" E "nd_utxo_set n"] db s(6)
    by (auto simp: db_ok_def dest: tree_stored_ok)
  have "db_ok H R db' (nd_shard_tree n) (nd_utxo_set n)" by (rule pruned_db_ok [OF mp(2) db])
  then show ?thesis using mp new by (simp add: s(7,8) node_ok_def result_ok_def prunedD(1) [OF mp(2)] get(1))
qed

subsection \<open>Anchors\<close>

lemma active_parts:
  assumes "active_chain_batch H R db tip st = Inr b"
  obtains floors claims height sb tree up fp cp ud fd kd md where
    "encode_rows (to_bytes 4) (to_bytes 8) (sort_key fst (bs_fee_floors st)) = Inr floors"
    "encode_rows (\<lambda>fruit_hash. Inr (fruit_coinbase_claimed_key fruit_hash)) node_u64 (sort_key fst (bs_claimed_fruits st)) = Inr claims"
    "node_u64 (bs_minted_supply st) = Inr sb" "serialize_tree (bs_shard_tree st) = Inr tree"
    "put_rows COLUMN_UTXO (utxo_rows H (bs_utxo_set st)) = Inr up" "put_rows COLUMN_FEE_FLOORS floors = Inr fp"
    "put_rows COLUMN_DAG claims = Inr cp"
    "drop_rows COLUMN_UTXO (map fst (st_items R db COLUMN_UTXO)) (utxo_rows H (bs_utxo_set st)) = Inr ud"
    "drop_rows COLUMN_FEE_FLOORS (map fst (st_items R db COLUMN_FEE_FLOORS)) floors = Inr fd"
    "drop_rows COLUMN_DAG (filter (\<lambda>key. prefix FRUIT_COINBASE_CLAIMED_PREFIX key) (map fst (st_items R db COLUMN_DAG))) claims = Inr kd"
    "each (BatchDelete COLUMN_MEMPOOL) (sorted_list_of_set (bs_confirmed_tx_ids st)) = Inr md"
    "sb_puts b = [\<lparr>bp_column = COLUMN_DAG, bp_key = ANCHOR_HEIGHT_KEY, bp_value = height\<rparr>,
       \<lparr>bp_column = COLUMN_DAG, bp_key = ANCHOR_TIP_KEY, bp_value = tip\<rparr>,
       \<lparr>bp_column = COLUMN_DAG, bp_key = MINTED_SUPPLY_KEY, bp_value = sb\<rparr>,
       \<lparr>bp_column = COLUMN_SHARD_TREE, bp_key = ascii ''current'', bp_value = tree\<rparr>] @ up @ fp @ cp"
    "sb_deletes b = ud @ fd @ kd @ md"
  using assms unfolding active_chain_batch_def Let_def bnd_Inr_iff BatchPut_Inr
  by (elim exE conjE) (rule that, auto)

lemma encode_rows_keys:
  "encode_rows ek ev xs = Inr rows \<Longrightarrow> dict_get rows k = Some v \<Longrightarrow> \<exists>x y. (x, y) \<in> set xs \<and> ek x = Inr k \<and> ev y = Inr v"
proof -
  assume "encode_rows ek ev xs = Inr rows" and k: "dict_get rows k = Some v"
  then obtain ps where ps: "each (\<lambda>(k, v). bnd (ek k) (\<lambda>key. bnd (ev v) (\<lambda>value. Inr (key, value)))) xs = Inr ps"
    "rows = fold (\<lambda>(key, value). dict_set key value) ps []" by (auto simp: encode_rows_def bnd_Inr_iff)
  have "dict_get (fold (\<lambda>(key, value). dict_set key value) ps d) k = Some v \<Longrightarrow> (k, v) \<in> set ps \<or> dict_get d k = Some v" for d ps
    by (induction ps arbitrary: d) (fastforce simp: update_conv' split: if_splits)+
  from this [of ps "[]"] have "(k, v) \<in> set ps" using k ps(2) by simp
  then show ?thesis using ps(1)
    by (induction xs arbitrary: ps) (fastforce simp: bnd_Inr_iff)+
qed

lemma dict_ok_fold_set: "dict_ok d \<Longrightarrow> dict_ok (fold (\<lambda>(key, value). dict_set key value) ps d)"
  by (induction ps arbitrary: d) (auto simp: distinct_update)

lemma encode_rows_dict_ok: "encode_rows ek ev xs = Inr rows \<Longrightarrow> dict_ok rows"
  by (auto simp: encode_rows_def bnd_Inr_iff intro!: dict_ok_fold_set)

lemma utxo_rows_get:
  assumes "utxo_set_ok H S"
  shows "dict_get (utxo_rows H S) k = Some v \<longleftrightarrow> (\<exists>u \<in> ran (us_get S). utxo_key H u = k \<and> utxo_to_bytes u = v)"
    and "dict_ok (utxo_rows H S)"
proof -
  have fold: "dict_get (fold (\<lambda>u. dict_set (utxo_key H u) (utxo_to_bytes u)) us d) k = Some v \<longleftrightarrow>
      (\<exists>u \<in> set us. utxo_key H u = k \<and> utxo_to_bytes u = v) \<or> k \<notin> utxo_key H ` set us \<and> dict_get d k = Some v"
    if "inj_on (utxo_key H) (set us)" for us d
    using that by (induction us arbitrary: d) (auto simp: update_conv' inj_on_def)
  have I: "utxo_index_ok H S" using assms by (simp add: utxo_set_ok_def)
  have el: "set (us_list S) = ran (us_get S)"
    using utxo_index_D(1) [OF I] by (auto simp: us_list_def ran_def us_get_def map_of_eq_Some_iff) force+
  have inj: "inj_on (utxo_key H) (ran (us_get S))"
    using utxo_key_unique [OF I] by (auto simp: inj_on_def ran_def us_get_def)
  show "dict_get (utxo_rows H S) k = Some v \<longleftrightarrow> (\<exists>u \<in> ran (us_get S). utxo_key H u = k \<and> utxo_to_bytes u = v)"
    using fold [of "us_list S" "[]"] inj by (simp add: utxo_rows_def el)
  have "dict_ok d \<Longrightarrow> dict_ok (fold (\<lambda>u. dict_set (utxo_key H u) (utxo_to_bytes u)) us d)" for us d
    by (induction us arbitrary: d) (auto simp: distinct_update)
  then show "dict_ok (utxo_rows H S)" by (simp add: utxo_rows_def)
qed

text \<open>The rows after an anchor was stored that becomes the tip of the active chain.\<close>

lemma active_get:
  assumes R: "rocks_ok R" and st: "active_chain_batch H R db h st = Inr b" and S: "utxo_set_ok H (bs_utxo_set st)"
    and db': "db' = write_batch R db \<lparr>sb_puts = [\<lparr>bp_column = COLUMN_HEADERS, bp_key = h, bp_value = header\<rparr>,
      \<lparr>bp_column = COLUMN_BODIES, bp_key = h, bp_value = body\<rparr>,
      \<lparr>bp_column = COLUMN_DAG, bp_key = anchor_meta_key h, bp_value = meta\<rparr>] @ sb_puts b, sb_deletes = sb_deletes b\<rparr>"
  shows "rk_get R db' COLUMN_UTXO k = dict_get (utxo_rows H (bs_utxo_set st)) k"
    and "rk_get R db' COLUMN_FEE_FLOORS k = Some v \<Longrightarrow> \<exists>s f. (s, f) \<in> set (bs_fee_floors st) \<and> to_bytes 4 s = Inr k"
    and "rk_get R db' COLUMN_BODIES k = (if k = h then Some body else rk_get R db COLUMN_BODIES k)"
    and "\<exists>bs. serialize_tree (bs_shard_tree st) = Inr bs \<and> rk_get R db' COLUMN_SHARD_TREE (ascii ''current'') = Some bs"
    and "k \<in> {STORAGE_META_KEY, fruit_meta_key x} \<Longrightarrow> rk_get R db' COLUMN_DAG k = rk_get R db COLUMN_DAG k"
    and "\<exists>bs. node_u64 (bs_minted_supply st) = Inr bs \<and> rk_get R db' COLUMN_DAG MINTED_SUPPLY_KEY = Some bs"
    and "rk_get R db' COLUMN_MEMPOOL k = Some v \<Longrightarrow> rk_get R db COLUMN_MEMPOOL k = Some v"
proof -
  obtain floors claims height sb tree up fp cp ud fd kd md where p:
    "encode_rows (to_bytes 4) (to_bytes 8) (sort_key fst (bs_fee_floors st)) = Inr floors"
    "encode_rows (\<lambda>fruit_hash. Inr (fruit_coinbase_claimed_key fruit_hash)) node_u64 (sort_key fst (bs_claimed_fruits st)) = Inr claims"
    "node_u64 (bs_minted_supply st) = Inr sb" "serialize_tree (bs_shard_tree st) = Inr tree"
    and rows: "put_rows COLUMN_UTXO (utxo_rows H (bs_utxo_set st)) = Inr up" "put_rows COLUMN_FEE_FLOORS floors = Inr fp"
    "put_rows COLUMN_DAG claims = Inr cp"
    and drops: "drop_rows COLUMN_UTXO (map fst (st_items R db COLUMN_UTXO)) (utxo_rows H (bs_utxo_set st)) = Inr ud"
    "drop_rows COLUMN_FEE_FLOORS (map fst (st_items R db COLUMN_FEE_FLOORS)) floors = Inr fd"
    "drop_rows COLUMN_DAG (filter (\<lambda>key. prefix FRUIT_COINBASE_CLAIMED_PREFIX key) (map fst (st_items R db COLUMN_DAG))) claims = Inr kd"
    "each (BatchDelete COLUMN_MEMPOOL) (sorted_list_of_set (bs_confirmed_tx_ids st)) = Inr md"
    and b: "sb_puts b = [\<lparr>bp_column = COLUMN_DAG, bp_key = ANCHOR_HEIGHT_KEY, bp_value = height\<rparr>,
       \<lparr>bp_column = COLUMN_DAG, bp_key = ANCHOR_TIP_KEY, bp_value = h\<rparr>,
       \<lparr>bp_column = COLUMN_DAG, bp_key = MINTED_SUPPLY_KEY, bp_value = sb\<rparr>,
       \<lparr>bp_column = COLUMN_SHARD_TREE, bp_key = ascii ''current'', bp_value = tree\<rparr>] @ up @ fp @ cp"
    "sb_deletes b = ud @ fd @ kd @ md"
    by (rule active_parts [OF st])
  have claims: "dict_get (rev claims) k = None" if "\<not> prefix FRUIT_COINBASE_CLAIMED_PREFIX k" for k
  proof (rule ccontr)
    assume "dict_get (rev claims) k \<noteq> None"
    then obtain v where "dict_get claims k = Some v" using map_of_rev_distinct [OF encode_rows_dict_ok [OF p(2)]] by auto
    from encode_rows_keys [OF p(2) this] show False using that by auto
  qed
  have del: "(c, k) \<in> (\<lambda>d. (bd_column d, bd_key d)) ` set (ud @ fd @ kd @ md) \<longleftrightarrow>
      c = COLUMN_UTXO \<and> rk_get R db c k \<noteq> None \<and> dict_get (utxo_rows H (bs_utxo_set st)) k = None \<or>
      c = COLUMN_FEE_FLOORS \<and> rk_get R db c k \<noteq> None \<and> dict_get floors k = None \<or>
      c = COLUMN_DAG \<and> prefix FRUIT_COINBASE_CLAIMED_PREFIX k \<and> rk_get R db c k \<noteq> None \<and> dict_get claims k = None \<or>
      c = COLUMN_MEMPOOL \<and> k \<in> set (sorted_list_of_set (bs_confirmed_tx_ids st))" for c k
    unfolding set_append image_Un Un_iff drop_rows_set [OF drops(1)] drop_rows_set [OF drops(2)] drop_rows_set [OF drops(3)]
      each_delete_set [OF drops(4)] set_filter mem_Collect_eq in_items [OF R] by blast
  note get = write_batch_get [OF R] storage_batch.simps b del put_of_col
  note cols = col_puts_Cons col_puts_rows [OF rows(1)] col_puts_rows [OF rows(2)] col_puts_rows [OF rows(3)] col_puts_def [of _ "[]"]
  show "rk_get R db' COLUMN_UTXO k = dict_get (utxo_rows H (bs_utxo_set st)) k"
    unfolding db' get
    by (simp add: cols map_of_rev_distinct [OF utxo_rows_get(2) [OF S]] split: option.split)
  show "\<exists>s f. (s, f) \<in> set (bs_fee_floors st) \<and> to_bytes 4 s = Inr k" if v: "rk_get R db' COLUMN_FEE_FLOORS k = Some v"
  proof -
    have "dict_get floors k = Some v" using v unfolding db' get
      by (simp add: cols map_of_rev_distinct [OF encode_rows_dict_ok [OF p(1)]] split: option.splits if_splits)
    from encode_rows_keys [OF p(1) this] show ?thesis by auto
  qed
  show "rk_get R db' COLUMN_BODIES k = (if k = h then Some body else rk_get R db COLUMN_BODIES k)"
    unfolding db' get by (simp add: cols)
  show "\<exists>bs. serialize_tree (bs_shard_tree st) = Inr bs \<and> rk_get R db' COLUMN_SHARD_TREE (ascii ''current'') = Some bs"
    unfolding db' get by (simp add: cols p(4))
  show "rk_get R db' COLUMN_DAG k = rk_get R db COLUMN_DAG k" if "k \<in> {STORAGE_META_KEY, fruit_meta_key x}"
    using that claims [of k] unfolding db' get by (auto simp: cols map_add_def)
  show "\<exists>bs. node_u64 (bs_minted_supply st) = Inr bs \<and> rk_get R db' COLUMN_DAG MINTED_SUPPLY_KEY = Some bs"
    using claims [of MINTED_SUPPLY_KEY] unfolding db' get by (simp add: cols p(3) map_add_def)
  show "rk_get R db COLUMN_MEMPOOL k = Some v" if "rk_get R db' COLUMN_MEMPOOL k = Some v"
    using that unfolding db' get by (simp add: cols split: if_splits)
qed

text \<open>Storing a block under a new hash keeps the recorded claims.\<close>

lemma claims_recorded_block:
  assumes "claims_recorded H R db" "rk_get R db COLUMN_BODIES h = None"
    "\<And>k. k \<noteq> h \<Longrightarrow> rk_get R db' COLUMN_BODIES k = rk_get R db COLUMN_BODIES k"
    "\<And>x. rk_get R db' COLUMN_DAG (fruit_meta_key x) = rk_get R db COLUMN_DAG (fruit_meta_key x)"
  shows "claims_recorded H R db'"
  unfolding claims_recorded_def
proof (intro allI impI)
  fix x v assume "rk_get R db' COLUMN_DAG (fruit_meta_key x) = Some v"
  then have "rk_get R db COLUMN_DAG (fruit_meta_key x) = Some v" by (simp only: assms(4))
  then obtain f raw rest t m where w: "rk_get R db COLUMN_BODIES x = Some (serialize_fruit f)" "fruit_ok H f" "f_transactions f = raw # rest"
    "tx_from_bytes raw = Inr t" "decode_fruit_meta (Some v) = Some m"
    "fm_coinbase_claim_matoms m = sum_list (map out_amount_matoms (tx_outputs t))"
    using assms(1) unfolding claims_recorded_def by blast
  have "x \<noteq> h" using w(1) assms(2) by auto
  then have "rk_get R db' COLUMN_BODIES x = Some (serialize_fruit f)" using w(1) by (simp add: assms(3))
  then show "\<exists>f raw rest t m. rk_get R db' COLUMN_BODIES x = Some (serialize_fruit f) \<and> fruit_ok H f \<and> f_transactions f = raw # rest \<and>
      tx_from_bytes raw = Inr t \<and> decode_fruit_meta (Some v) = Some m \<and>
      fm_coinbase_claim_matoms m = sum_list (map out_amount_matoms (tx_outputs t))"
    using w by blast
qed

text \<open>What the state of a branch needs for being written: its tree is one that was read, its floors are those of shards.\<close>

definition branch_storable :: "branch_state \<Rightarrow> bool" where
  "branch_storable st \<longleftrightarrow> (\<exists>bs. deserialize_tree bs = Inr (bs_shard_tree st)) \<and> (\<forall>(s, f) \<in> set (bs_fee_floors st). shard_ok s)"

lemma applied_storable:
  assumes "apply_anchor_to_branch H E R db a h height target st = Inr (Inr st')" "anchor_ok H a"
  shows "branch_storable st'"
proof -
  obtain bs where bs: "deserialize_tree bs = Inr (bs_shard_tree st')"
    and fl: "bs_fee_floors st' = fold (\<lambda>entry. dict_set (ff_shard_id entry) (ff_floor_matoms_per_kb entry)) (a_fee_floor_entries a) []"
    using assms(1) by (auto simp: apply_anchor_to_branch_def answer_iff split: if_splits)
  have upd: "\<forall>(s, f) \<in> set (dict_set s' f' d). shard_ok s" if "shard_ok s'" "\<forall>(s, f) \<in> set d. shard_ok s" for s' f' and d :: "(int, int) dict"
    using that by (induction d) (auto split: if_splits)
  have entries: "\<forall>e \<in> set (a_fee_floor_entries a). shard_ok (ff_shard_id e)" using assms(2) by (auto simp: anchor_ok_def fee_ok_def)
  have "\<forall>(s, f) \<in> set (bs_fee_floors st'). shard_ok s"
    unfolding fl
  proof (rule fold_invariant [where Q = "\<lambda>e. shard_ok (ff_shard_id e)"])
    show "\<forall>(s, f) \<in> set (dict_set (ff_shard_id e) (ff_floor_matoms_per_kb e) d). shard_ok s"
      if "shard_ok (ff_shard_id e)" "\<forall>(s, f) \<in> set d. shard_ok s" for e d by (rule upd [OF that])
  qed (use entries in simp_all)
  then show ?thesis using bs by (auto simp: branch_storable_def)
qed

lemma active_db_ok:
  assumes R: "rocks_ok R" and old: "db_ok H R db tree S" "rk_get R db COLUMN_BODIES h = None"
    and st: "branch_ok H st" "branch_storable st" and b: "active_chain_batch H R db h st = Inr b"
    and db': "db' = write_batch R db \<lparr>sb_puts = [\<lparr>bp_column = COLUMN_HEADERS, bp_key = h, bp_value = header\<rparr>,
      \<lparr>bp_column = COLUMN_BODIES, bp_key = h, bp_value = body\<rparr>,
      \<lparr>bp_column = COLUMN_DAG, bp_key = anchor_meta_key h, bp_value = meta\<rparr>] @ sb_puts b, sb_deletes = sb_deletes b\<rparr>"
  shows "db_ok H R db' (bs_shard_tree st) (bs_utxo_set st) \<and> rk_get R db' COLUMN_BODIES h = Some body"
proof -
  have S: "utxo_set_ok H (bs_utxo_set st)" and w: "worth (us_get (bs_utxo_set st)) \<le> bs_minted_supply st"
    "bs_minted_supply st \<le> MAX_SUPPLY_MATOMS" using st(1) by (auto simp: branch_ok_def)
  note get = active_get [OF R b S db']
  have o: "rows_ok H R db" using old(1) by (simp add: db_ok_def)
  have "claims_recorded H R db'"
    by (rule claims_recorded_block [of H R db h]) (use o old(2) in \<open>simp_all add: rows_ok_def get(3,5)\<close>)
  moreover have "shard_ok (from_le k)" if k: "rk_get R db' COLUMN_FEE_FLOORS k = Some v" for k v
  proof -
    obtain s f where s: "(s, f) \<in> set (bs_fee_floors st)" "to_bytes 4 s = Inr k" using get(2) [OF k] by blast
    then have "from_le k = s" by (auto simp: to_bytes_def from_le_bytes split: if_splits)
    then show ?thesis using s(1) st(2) by (auto simp: branch_storable_def)
  qed
  ultimately have "rows_ok H R db'" using o get(5) [of STORAGE_META_KEY] get(7) unfolding rows_ok_def by auto
  moreover have "outputs_stored H R db' (us_get (bs_utxo_set st))"
    by (simp add: outputs_stored_def get(1) utxo_rows_get(1) [OF S])
  moreover have "tree_stored R db' (bs_shard_tree st)"
    using get(4) st(2) deserialize_tree_Inr unfolding tree_stored_def branch_storable_def by fastforce
  moreover have "supply_of R db' = bs_minted_supply st"
    using get(6) by (auto simp: supply_of_def decode_u64_or_zero_def node_u64_def bnd_Inr_iff from_le_bytes8)
  ultimately show ?thesis using S w by (simp add: db_ok_def get(3))
qed

lemma body_get: "get_body_bytes R db h = Inr b \<Longrightarrow> length h = HASH_LEN_BYTES \<and> rk_get R db COLUMN_BODIES h = b"
  by (auto simp: get_body_bytes_def bnd_Inr_iff st_get_def)

lemma check_anchor_accept:
  assumes "check_anchor H E V R now genesis db a h = Inr (Inr (st, meta))" "anchor_ok H a" "claims_recorded H R db"
  shows "rk_get R db COLUMN_BODIES h = None \<and> branch_ok H st \<and> branch_storable st \<and> bs_height st = am_height meta \<and>
    validate_anchor_dependencies H V R db now genesis a = Inr (Inr ())"
proof -
  obtain height target work st0 w where s: "get_body_bytes R db h = Inr None"
    "validate_anchor_dependencies H V R db now genesis a = Inr (Inr ())"
    "rebuild_anchor_branch_state H E R db (ah_parent_anchor (a_header a)) = Inr (Some st0)"
    "apply_anchor_to_branch H E R db a h height target st0 = Inr (Inr st)"
    "meta = \<lparr>am_height = height, am_target = target, am_cumulative_work = work + w\<rparr>"
    using assms(1) unfolding check_anchor_def
    by (auto simp: answer_iff split: if_splits option.splits)
  have m: "metas_match H R db" by (rule metas_match_recorded [OF assms(3)])
  obtain hs where "rebuild_loop H E R db hs empty_branch = Inr (Some st0)"
    using s(3) by (auto simp: rebuild_anchor_branch_state_def split: option.splits)
  then have "branch_ok H st0" by (rule rebuild_loop_step [OF _ branch_ok_empty m])
  from apply_anchor_step [OF s(4) this assms(2) m] have "branch_ok H st" "bs_height st = height" by blast+
  then show ?thesis using s body_get [OF s(1)] applied_storable [OF s(4) assms(2)] by simp
qed

lemma stored_anchor_db:
  assumes R: "rocks_ok R" and old: "db_ok H R db tree S" "rk_get R db COLUMN_BODIES h = None"
    and db': "db' = write_batch R db \<lparr>sb_puts = [\<lparr>bp_column = COLUMN_HEADERS, bp_key = h, bp_value = header\<rparr>,
      \<lparr>bp_column = COLUMN_BODIES, bp_key = h, bp_value = body\<rparr>,
      \<lparr>bp_column = COLUMN_DAG, bp_key = anchor_meta_key h, bp_value = meta\<rparr>], sb_deletes = []\<rparr>"
  shows "db_ok H R db' tree S \<and> rk_get R db' COLUMN_BODIES h = Some body"
proof -
  have get: "rk_get R db' c k = (if c = COLUMN_HEADERS \<and> k = h then Some header else if c = COLUMN_BODIES \<and> k = h then Some body
      else if c = COLUMN_DAG \<and> k = anchor_meta_key h then Some meta else rk_get R db c k)" for c k
    unfolding db' write_batch_get [OF R] by (simp add: put_of_col col_puts_def)
  have "claims_recorded H R db'"
    by (rule claims_recorded_block [of H R db h]) (use old in \<open>simp_all add: db_ok_def rows_ok_def get\<close>)
  then show ?thesis using old(1)
    by (simp add: db_ok_def rows_ok_def outputs_stored_def tree_stored_def supply_of_def get)
qed

lemma store_anchor_node:
  assumes R: "rocks_ok R" and H: "digest_ok H" and n: "node_ok H R n" and new: "rk_get R (nd_db n) COLUMN_BODIES h = None"
    and st: "branch_ok H st" "branch_storable st" and p: "store_anchor H E R n a h st meta = Inr (r, n')"
  shows "node_ok H R n' \<and> r = result_ok h \<and> (\<exists>bs. serialize_anchor a = Inr bs \<and> rk_get R (nd_db n') COLUMN_BODIES h = Some bs) \<and>
    (\<exists>tip. best_anchor_tip H R (nd_db n) (Some (h, meta)) = Inr tip \<and>
       (if tip = Some h then nd_shard_tree n' = bs_shard_tree st \<and> nd_utxo_set n' = bs_utxo_set st
        else nd_shard_tree n' = nd_shard_tree n \<and> nd_utxo_set n' = nd_utxo_set n))"
proof -
  obtain tip body val where s: "best_anchor_tip H R (nd_db n) (Some (h, meta)) = Inr tip" "serialize_anchor a = Inr body"
    "encode_anchor_meta meta = Inr val"
    using p unfolding store_anchor_def by (auto simp: bnd_Inr_iff)
  let ?puts = "[\<lparr>bp_column = COLUMN_HEADERS, bp_key = h, bp_value = serialize_anchor_header (a_header a)\<rparr>,
      \<lparr>bp_column = COLUMN_BODIES, bp_key = h, bp_value = body\<rparr>,
      \<lparr>bp_column = COLUMN_DAG, bp_key = anchor_meta_key h, bp_value = val\<rparr>]"
  have old: "db_ok H R (nd_db n) (nd_shard_tree n) (nd_utxo_set n)" using n by (simp add: node_ok_def)
  show ?thesis
  proof (cases "tip = Some h")
    case False
    then have n': "r = result_ok h" "n' = n\<lparr>nd_db := write_batch R (nd_db n) \<lparr>sb_puts = ?puts, sb_deletes = []\<rparr>\<rparr>"
      using p s unfolding store_anchor_def by (auto simp: bnd_Inr_iff BatchPut_Inr)
    from stored_anchor_db [OF R old new refl] show ?thesis using n s False by (auto simp: n' node_ok_def)
  next
    case True
    obtain b db pending mp db' where t: "active_chain_batch H R (nd_db n) h st = Inr b"
      "db = write_batch R (nd_db n) \<lparr>sb_puts = ?puts @ sb_puts b, sb_deletes = sb_deletes b\<rparr>" "mempool_txs R db = Inr pending"
      "rebuild_mempool H E R db (bs_shard_tree st) (bs_utxo_set st) pending = Inr (mp, db')" "r = result_ok h"
      "n' = \<lparr>nd_db = db', nd_shard_tree = bs_shard_tree st, nd_utxo_set = bs_utxo_set st, nd_mempool = mp\<rparr>"
      using p s True unfolding store_anchor_def Let_def by (auto simp: bnd_Inr_iff BatchPut_Inr)
    note a = active_db_ok [OF R old new st t(1,2)]
    then have rows: "rows_ok H R db" "tree_ok (leaf_shard_ids (bs_shard_tree st))" by (auto simp: db_ok_def dest: tree_stored_ok)
    have pend: "\<forall>t \<in> set pending. tx_ok t" using mempool_load [OF R rows(1)] t(3) by auto
    have mp: "mempool_ok H mp" "pruned R db db'"
      using rebuild_mempool_total [OF R H rows pend, of E "bs_utxo_set st"] t(4) by auto
    have "db_ok H R db' (bs_shard_tree st) (bs_utxo_set st)" by (rule pruned_db_ok [OF mp(2) conjunct1 [OF a]])
    then show ?thesis using a mp(1) s True by (simp add: t(5,6) node_ok_def prunedD(1) [OF mp(2)])
  qed
qed

lemma anchor_node:
  assumes R: "rocks_ok R" and H: "digest_ok H" and n: "node_ok H R n" and a: "anchor_ok H a"
    and p: "process_anchor H E V R now genesis n a = Inr (r, n')"
  shows "node_ok H R n' \<and> (if nr_accepted r then \<exists>h bs. anchor_block_hash H a = Inr h \<and> r = result_ok h \<and> serialize_anchor a = Inr bs \<and>
       rk_get R (nd_db n) COLUMN_BODIES h = None \<and> rk_get R (nd_db n') COLUMN_BODIES h = Some bs
     else n' = n)"
proof (cases "\<exists>reason. r = result_reject reason \<and> n' = n")
  case True
  then show ?thesis using n by (auto simp: result_reject_def)
next
  case False
  then obtain h st meta where s: "anchor_block_hash H a = Inr h" "check_anchor H E V R now genesis (nd_db n) a h = Inr (Inr (st, meta))"
    "store_anchor H E R n a h st meta = Inr (r, n')"
    using p unfolding process_anchor_def or_reject_Inr by (auto simp: answer_iff)
  have "claims_recorded H R (nd_db n)" using n by (simp add: node_ok_def db_ok_def rows_ok_def)
  note c = check_anchor_accept [OF s(2) a this]
  then have "rk_get R (nd_db n) COLUMN_BODIES h = None" "branch_ok H st" "branch_storable st" by blast+
  from store_anchor_node [OF R H n this s(3)] show ?thesis using s(1) c by (auto simp: result_ok_def)
qed

subsection \<open>Reachable nodes\<close>

lemma reachable_ok:
  assumes R: "rocks_ok R" and H: "digest_ok H"
  shows "node_reachable H E R n \<Longrightarrow> node_ok H R n"
proof (induction rule: node_reachable.induct)
  case (boot db n)
  then show ?case using boot_node [OF R H boot(1), of E] by auto
next
  case (raw_tx n data r n')
  then show ?case using raw_tx_node [OF R H raw_tx.IH, of E data] by auto
next
  case (fruit n f V now r n')
  then show ?case using fruit_node [OF R H fruit.IH fruit.hyps(2,3)] by blast
next
  case (fruit_bytes n V now data r n')
  show ?case
  proof (cases "deserialize_fruit H data")
    case (Inl e)
    then show ?thesis using fruit_bytes by (auto simp: process_fruit_bytes_def split: if_splits)
  next
    case (Inr f)
    then have "process_fruit H E V R now n f = Inr (r, n')" "fruit_ok H f"
      using fruit_bytes.hyps(2) deserialize_fruit_Inr [of H data f] by (simp_all add: process_fruit_bytes_def)
    then show ?thesis using fruit_node [OF R H fruit_bytes.IH] by blast
  qed
next
  case (anchor n a V now genesis r n')
  then show ?case using anchor_node [OF R H anchor.IH anchor.hyps(2,3)] by blast
next
  case (anchor_bytes n V now genesis data r n')
  show ?case
  proof (cases "deserialize_anchor H data")
    case (Inl e)
    then show ?thesis using anchor_bytes by (auto simp: process_anchor_bytes_def split: if_splits)
  next
    case (Inr a)
    then have "process_anchor H E V R now genesis n a = Inr (r, n')" "anchor_ok H a"
      using anchor_bytes.hyps(2) deserialize_anchor_Inr [of H data a] by (simp_all add: process_anchor_bytes_def)
    then show ?thesis using anchor_node [OF R H anchor_bytes.IH] by blast
  qed
next
  case (restart n n')
  then show ?case using restart_node [OF R H restart.IH, of E] by auto
next
  case (sync n other n')
  then show ?case using sync_node [OF R H sync.IH(2) sync.hyps(3)] by blast
qed

lemma minted_supply_eq: "minted_supply_of R db = Inr (supply_of R db)"
  by (simp add: minted_supply_of_def supply_of_def st_get_eq MINTED_SUPPLY_KEY_def ascii_def)

lemma stored_again:
  assumes "rk_get R (nd_db n) COLUMN_BODIES (fruit_block_hash H f) = Some bs" "digest_ok H"
  shows "process_fruit H E V R now n f = Inr (result_reject ''duplicate_fruit'', n)"
    and "node_get_block R n (fruit_block_hash H f) = Inr (Some bs)"
proof -
  have len: "length (fruit_block_hash H f) = HASH_LEN_BYTES"
    by (simp add: fruit_block_hash_def fruit_header_hash_def length_domain_hash [OF assms(2)])
  then show g: "node_get_block R n (fruit_block_hash H f) = Inr (Some bs)"
    using assms(1) by (simp add: node_get_block_def get_body_bytes_def bnd_require_hash_len st_get_eq hash_nonempty)
  then show "process_fruit H E V R now n f = Inr (result_reject ''duplicate_fruit'', n)"
    by (simp add: process_fruit_def check_fruit_def node_get_block_def or_reject_def andthen_def refuse_def)
qed

lemma stored_anchor_again:
  assumes "rk_get R (nd_db n) COLUMN_BODIES h = Some bs" "length h = HASH_LEN_BYTES" "anchor_block_hash H a = Inr h"
  shows "process_anchor H E V R now genesis n a =
      Inr (result_reject (if is_genesis_anchor a then ''genesis_not_first'' else ''duplicate_anchor''), n)"
    and "node_get_block R n h = Inr (Some bs)"
proof -
  show g: "node_get_block R n h = Inr (Some bs)"
    using assms(1,2) by (simp add: node_get_block_def get_body_bytes_def bnd_require_hash_len st_get_eq hash_nonempty)
  then show "process_anchor H E V R now genesis n a =
      Inr (result_reject (if is_genesis_anchor a then ''genesis_not_first'' else ''duplicate_anchor''), n)"
    using assms(3) by (simp add: process_anchor_def check_anchor_def node_get_block_def or_reject_def andthen_def refuse_def)
qed

text \<open>An output with a lock cannot be spent at time and height zero.\<close>

lemma locked_not_spendable:
  assumes "uint64 (u_locktime_ms u)" "uint64 (u_lockheight u)" "u_lockheight u > 0 \<or> u_locktime_ms u > 0"
  shows "verify_utxo_spend H E u w m s 0 0 \<noteq> Inr True"
proof -
  have "check_locks (u_locktime_ms u) (u_lockheight u) 0 0 \<noteq> Inr ()"
    using assms by (auto simp: check_locks_def bnd_require_uint bnd_ensure ensure_def uint64_def)
  then show ?thesis
    unfolding verify_utxo_spend_def Let_def
    by (subst verify_template.simps) (auto simp: catch_false_def bnd_Inr_iff split: sum.splits if_splits)
qed

subsection \<open>Genesis\<close>

lemma genesis_parts:
  assumes "anchor_ok H a" "is_genesis_anchor a"
  shows "ah_parent_anchor (a_header a) = GENESIS_PARENT_HASH \<and> a_covered_fruit_hashes a = [] \<and> a_anchor_reward_outputs a = [] \<and>
    deserialize_tree (a_shard_tree_bytes a) = Inr default_tree \<and>
    a_fee_floor_entries a = [\<lparr>ff_shard_id = ROOT_SHARD_ID, ff_floor_matoms_per_kb = GENESIS_ROOT_FEE_FLOOR_MATOMS_PER_KB\<rparr>]"
proof -
  have g: "ah_parent_anchor (a_header a) = zero_bytes HASH_LEN_BYTES" "a_covered_fruit_hashes a = []" "a_anchor_reward_outputs a = []"
    "validate_genesis_empty_state (a_shard_tree_bytes a) (a_fee_floor_entries a) = Inr ()"
    using assms by (auto simp: anchor_ok_def Anchor_def bnd_Inr_iff)
  obtain e where "serialize_tree default_tree = Inr (a_shard_tree_bytes a)"
    "FeeFloorEntry ROOT_SHARD_ID GENESIS_ROOT_FEE_FLOOR_MATOMS_PER_KB = Inr e" "a_fee_floor_entries a = [e]"
    using g(4) by (auto simp: validate_genesis_empty_state_def bnd_Inr_iff)
  moreover from this(1) have "deserialize_tree (a_shard_tree_bytes a) = Inr default_tree"
    using deserialize_serialize [OF default_tree_ok] by (simp add: default_tree_def)
  ultimately show ?thesis using g by (auto simp: FeeFloorEntry_def bnd_Inr_iff GENESIS_PARENT_HASH_def)
qed

lemma no_items: "rocks_ok R \<Longrightarrow> (\<And>k. rk_get R db c k = None) \<Longrightarrow> st_items R db c = []"
  using rocks_okD(3) [of R db c] by (cases "st_items R db c") (auto simp: st_items_def fun_eq_iff split: if_splits)

definition genesis_state :: branch_state where
  "genesis_state = empty_branch\<lparr>bs_fee_floors := [(ROOT_SHARD_ID, GENESIS_ROOT_FEE_FLOOR_MATOMS_PER_KB)]\<rparr>"

lemma genesis_applies:
  assumes R: "rocks_ok R" and a: "anchor_ok H a" "is_genesis_anchor a" and none: "\<And>k. rk_get R db COLUMN_BODIES k = None"
  shows "apply_anchor_to_branch H E R db a h 0 target empty_branch = accept genesis_state"
proof -
  note g = genesis_parts [OF a]
  have i: "st_items R db COLUMN_BODIES = []" by (rule no_items [OF R none])
  have "fruit_dag H R db = Some empty_dag" by (simp add: fruit_dag_def stored_fruit_hashes_def i)
  from covered_order_spec [OF R _ this, of a] have "canonical_covered_fruit_order H R db a = Inr (Some [])"
    using g i by (auto simp: U64_MAX_def)
  then have "apply_anchor_fruits H E R db a empty_utxo_set default_tree [] 0 =
     accept \<lparr>af_staged = empty_utxo_set, af_spent_outpoints = [], af_created_utxos = [], af_effective_tips = [], af_covered_tx_ids = []\<rparr>"
    by (simp add: apply_anchor_fruits_def andthen_def accept_def)
  moreover have "UTXOSet H [] = Inr empty_utxo_set" "us_list empty_utxo_set = []"
    by (simp_all add: UTXOSet_def us_list_def) (simp add: empty_utxo_set_def)
  ultimately show ?thesis using g
    by (simp add: apply_anchor_to_branch_def or_refuse_def andthen_def accept_def empty_branch_def claim_anchor_rewards_def
        genesis_state_def default_tree_def)
qed

lemma initial_work: "\<exists>w. anchor_work_weight ANCHOR_INITIAL_TARGET_LE = Inr w \<and> 0 \<le> w \<and> w \<le> U64_MAX"
proof -
  have "require_target ANCHOR_INITIAL_TARGET_LE = Inr ()" "0 < from_le ANCHOR_INITIAL_TARGET_LE"
    using initial_target_ok by (auto simp: target_ok_def require_target_def target_limits(1))
  moreover have "0 \<le> FRUIT_TARGET_INT" by (simp add: FRUIT_TARGET_INT_def)
  ultimately show ?thesis
    by (auto simp: anchor_work_weight_def target_to_int_def min_def pos_imp_zdiv_nonneg_iff U64_MAX_def)
qed

lemma drop_rows_total: "[] \<notin> set existing \<Longrightarrow> \<exists>ds. drop_rows c existing rows = Inr ds"
proof -
  assume "[] \<notin> set existing"
  then have "\<forall>k \<in> set (filter (\<lambda>key. dict_get rows key = None) existing). \<exists>y. BatchDelete c k = Inr y \<and> True"
    by (auto simp: BatchDelete_Inr)
  from each_Inr_ex [OF this] show ?thesis by (auto simp: drop_rows_def)
qed

lemma genesis_active:
  assumes R: "rocks_ok R" and none: "\<And>c k. c \<noteq> COLUMN_DAG \<Longrightarrow> rk_get R db c k = None"
  shows "\<exists>b. active_chain_batch H R db h genesis_state = Inr b"
proof -
  have e: "encode_rows (to_bytes 4) (to_bytes 8) [(ROOT_SHARD_ID, GENESIS_ROOT_FEE_FLOOR_MATOMS_PER_KB)] =
      Inr [(le_bytes 4 ROOT_SHARD_ID, le_bytes 8 GENESIS_ROOT_FEE_FLOOR_MATOMS_PER_KB)]" "encode_rows ek ev [] = Inr []" for ek ev
    by (simp_all add: encode_rows_def ROOT_SHARD_ID_def GENESIS_ROOT_FEE_FLOOR_MATOMS_PER_KB_def to_bytes_ok)
  have u: "utxo_rows H empty_utxo_set = []" by (simp add: utxo_rows_def us_list_def empty_utxo_set_def)
  have ne: "le_bytes 4 ROOT_SHARD_ID \<noteq> []" using length_le_bytes [of 4 ROOT_SHARD_ID] by fastforce
  have i: "st_items R db COLUMN_UTXO = []" "st_items R db COLUMN_FEE_FLOORS = []" using no_items [OF R] none by simp_all
  obtain kd where kd: "drop_rows COLUMN_DAG (filter (\<lambda>key. prefix FRUIT_COINBASE_CLAIMED_PREFIX key) (map fst (st_items R db COLUMN_DAG))) [] = Inr kd"
    using drop_rows_total [of "filter (\<lambda>key. prefix FRUIT_COINBASE_CLAIMED_PREFIX key) (map fst (st_items R db COLUMN_DAG))" COLUMN_DAG "[]"]
    by (auto simp: FRUIT_COINBASE_CLAIMED_PREFIX_def ascii_def)
  have p: "BatchPut c k v = Inr \<lparr>bp_column = c, bp_key = k, bp_value = v\<rparr>" if "k \<noteq> []" for c k v using that by (simp add: BatchPut_Inr)
  have keys: "ANCHOR_HEIGHT_KEY \<noteq> []" "ANCHOR_TIP_KEY \<noteq> []" "MINTED_SUPPLY_KEY \<noteq> []" "ascii ''current'' \<noteq> []" by (simp_all add: db_keys)
  obtain tree where tree: "serialize_tree default_tree = Inr tree" using serialize_tree_eq [OF default_tree_ok] by blast
  show ?thesis
    by (simp add: active_chain_batch_def Let_def genesis_state_def empty_branch_def e u i put_rows_def drop_rows_def [of _ "[]"] kd p keys ne tree
        node_u64_def U64_MAX_def)
qed

lemma genesis_stored:
  assumes R: "rocks_ok R" and H: "digest_ok H" and n: "node_ok H R n" and none: "\<And>c k. c \<noteq> COLUMN_DAG \<Longrightarrow> rk_get R (nd_db n) c k = None"
    and a: "serialize_anchor a = Inr bs" and h: "length h = HASH_LEN_BYTES"
    and w: "anchor_work_weight ANCHOR_INITIAL_TARGET_LE = Inr w"
    and st: "branch_ok H genesis_state" "branch_storable genesis_state"
  shows "\<exists>n'. store_anchor H E R n a h genesis_state \<lparr>am_height = 0, am_target = ANCHOR_INITIAL_TARGET_LE, am_cumulative_work = w\<rparr> =
    Inr (result_ok h, n')"
proof -
  let ?m = "\<lparr>am_height = 0, am_target = ANCHOR_INITIAL_TARGET_LE, am_cumulative_work = w\<rparr>"
  have i: "st_items R (nd_db n) COLUMN_BODIES = []" using no_items [OF R] none by simp
  have tip: "best_anchor_tip H R (nd_db n) (Some (h, ?m)) = Inr (Some h)"
    by (simp add: best_anchor_tip_def i is_better_anchor_tip_def)
  have "length ANCHOR_INITIAL_TARGET_LE = HASH_LEN_BYTES" using initial_target_ok by (simp add: target_ok_def TARGET_BYTES_def)
  then obtain val where val: "encode_anchor_meta ?m = Inr val"
    using initial_work w by (auto simp: encode_anchor_meta_def node_u64_def node_u256_def U64_MAX_def push_bit_eq_mult)
  obtain b where b: "active_chain_batch H R (nd_db n) h genesis_state = Inr b" using genesis_active [OF R none] by blast
  have ne: "h \<noteq> []" "anchor_meta_key h \<noteq> []" using hash_nonempty [OF h] by (simp_all add: db_keys)
  have old: "db_ok H R (nd_db n) (nd_shard_tree n) (nd_utxo_set n)" using n by (simp add: node_ok_def)
  have new: "rk_get R (nd_db n) COLUMN_BODIES h = None" using none by simp
  let ?db = "write_batch R (nd_db n) \<lparr>sb_puts = [\<lparr>bp_column = COLUMN_HEADERS, bp_key = h, bp_value = serialize_anchor_header (a_header a)\<rparr>,
      \<lparr>bp_column = COLUMN_BODIES, bp_key = h, bp_value = bs\<rparr>,
      \<lparr>bp_column = COLUMN_DAG, bp_key = anchor_meta_key h, bp_value = val\<rparr>] @ sb_puts b, sb_deletes = sb_deletes b\<rparr>"
  have "db_ok H R ?db (bs_shard_tree genesis_state) (bs_utxo_set genesis_state)"
    using active_db_ok [OF R old new st b refl] by blast
  then have rows: "rows_ok H R ?db" "tree_ok (leaf_shard_ids (bs_shard_tree genesis_state))" by (auto simp: db_ok_def dest: tree_stored_ok)
  obtain ts where ts: "mempool_txs R ?db = Inr ts" "\<forall>t \<in> set ts. tx_ok t" using mempool_load [OF R rows(1)] by blast
  obtain mp db' where "rebuild_mempool H E R ?db (bs_shard_tree genesis_state) (bs_utxo_set genesis_state) ts = Inr (mp, db')"
    using rebuild_mempool_total [OF R H rows ts(2), of E "bs_utxo_set genesis_state"] by blast
  moreover have "BatchPut c k v = Inr \<lparr>bp_column = c, bp_key = k, bp_value = v\<rparr>" if "k \<noteq> []" for c k v using that by (simp add: BatchPut_Inr)
  ultimately show ?thesis using tip val b a ne ts(1) by (simp add: store_anchor_def Let_def)
qed

lemma genesis_accepted:
  assumes R: "rocks_ok R" and H: "digest_ok H" and n: "node_ok H R n" and none: "\<And>c k. c \<noteq> COLUMN_DAG \<Longrightarrow> rk_get R (nd_db n) c k = None"
    and a: "anchor_ok H a" "is_genesis_anchor a" "anchor_block_hash H a = Inr h" "ah_timestamp_ms (a_header a) \<le> now + MAX_FUTURE_DRIFT_MS"
  shows "\<exists>n'. process_anchor H E V R now (Some h) n a = Inr (result_ok h, n')"
proof -
  obtain bs where bs: "serialize_anchor a = Inr bs" "h = hash_bytes H bs" using a(2,3) by (auto simp: anchor_block_hash_def bnd_Inr_iff)
  have len: "length h = HASH_LEN_BYTES" using H bs(2) by (simp add: hash_bytes_def digest_ok_def)
  note g = genesis_parts [OF a(1,2)]
  obtain w where w: "anchor_work_weight ANCHOR_INITIAL_TARGET_LE = Inr w" using initial_work by blast
  have ap: "apply_anchor_to_branch H E R (nd_db n) a h 0 ANCHOR_INITIAL_TARGET_LE empty_branch = accept genesis_state"
    by (rule genesis_applies [OF R a(1,2)]) (simp add: none)
  have "metas_match H R (nd_db n)" using n by (intro metas_match_recorded) (simp add: node_ok_def db_ok_def rows_ok_def)
  from apply_anchor_step [OF ap [unfolded accept_def] branch_ok_empty a(1) this] have ok: "branch_ok H genesis_state" by blast
  have storable: "branch_storable genesis_state" by (rule applied_storable [OF ap [unfolded accept_def] a(1)])
  have body: "get_body_bytes R (nd_db n) h = Inr None"
    using len none by (simp add: get_body_bytes_def bnd_require_hash_len st_get_eq hash_nonempty)
  have i: "st_items R (nd_db n) COLUMN_BODIES = []" using no_items [OF R] none by simp
  have "validate_anchor_dependencies H V R (nd_db n) now (Some h) a = accept ()"
    using a by (simp add: validate_anchor_dependencies_def Let_def i)
  moreover have "rebuild_anchor_branch_state H E R (nd_db n) (ah_parent_anchor (a_header a)) = Inr (Some empty_branch)"
    using g by (simp add: rebuild_anchor_branch_state_def anchor_chain_hashes_def)
  ultimately have "check_anchor H E V R now (Some h) (nd_db n) a h =
      accept (genesis_state, \<lparr>am_height = 0, am_target = ANCHOR_INITIAL_TARGET_LE, am_cumulative_work = w\<rparr>)"
    using a(2) g ap w by (simp add: check_anchor_def body andthen_def accept_def or_refuse_def anchor_position_def default_tree_def)
  then show ?thesis
    using genesis_stored [OF R H n none bs(1) len w ok storable, of E] a(3)
    by (auto simp: process_anchor_def andthen_def accept_def or_reject_def)
qed

lemma fruits_loaded_accept: "fruits_loaded H R db reason hs = Inr (Inr ()) \<longleftrightarrow> (\<forall>h \<in> set hs. load_fruit H R db h \<noteq> None)"
  by (induction hs) (auto simp: accept_def refuse_def split: option.splits)

lemma node_verify_True: "node_verify_pow V pow target = Inr True \<longleftrightarrow> V pow target = Inr True"
  by (auto simp: node_verify_pow_def split: sum.splits)

lemma parents_loaded_accept: "parents_loaded H R db ps = Inr (Inr ()) \<longleftrightarrow> (\<forall>p \<in> set ps. load_fruit H R db p \<noteq> None)"
  by (induction ps) (auto split: option.splits)

lemma after_parents_accept:
  "after_parents H R db ts ps = Inr (Inr ()) \<longleftrightarrow>
     (\<forall>p \<in> set ps. p \<noteq> GENESIS_PARENT_HASH \<longrightarrow> (\<exists>g. load_fruit H R db p = Some g \<and> fh_timestamp_ms (f_header g) < ts))"
  by (induction ps) (auto split: option.splits)

lemma fruit_dependencies_exact:
  "validate_fruit_dependencies H R db now f = Inr (Inr cs) \<longleftrightarrow> (\<exists>a. fruit_dependencies_met H R db now f a \<and> cs = a_parent_candidate_hashes a)"
  unfolding validate_fruit_dependencies_def fruit_dependencies_met_def Let_def
  by (auto simp: answer_iff parents_loaded_accept after_parents_accept not_less not_le split: if_splits option.splits)

lemma anchor_dependencies_exact:
  "validate_anchor_dependencies H V R db now genesis a = Inr (Inr ()) \<longleftrightarrow>
     ah_timestamp_ms (a_header a) \<le> now + MAX_FUTURE_DRIFT_MS \<and>
     (if is_genesis_anchor a then st_items R db COLUMN_BODIES = [] \<and> (\<exists>h. anchor_block_hash H a = Inr h \<and> genesis = Some h)
      else anchor_dependencies_met H V R db a)"
proof (cases "is_genesis_anchor a")
  case True
  then show ?thesis unfolding validate_anchor_dependencies_def Let_def by (auto simp: bnd_Inr_iff split: if_splits)
next
  case False
  have "validate_anchor_dependencies H V R db now genesis a = Inr (Inr ()) \<longleftrightarrow>
      ah_timestamp_ms (a_header a) \<le> now + MAX_FUTURE_DRIFT_MS \<and> anchor_dependencies_met H V R db a" (is "?v \<longleftrightarrow> ?s")
  proof
    assume v: ?v
    obtain history where h: "anchor_history H R db (ah_parent_anchor (a_header a)) (Some ANCHOR_HISTORY_LOOKBACK) = Inr (Some history)"
      and d: "ah_timestamp_ms (a_header a) \<le> now + MAX_FUTURE_DRIFT_MS"
      using v False by (auto simp: validate_anchor_dependencies_def Let_def bnd_Inr_iff split: if_splits option.splits)
    have m: "\<not> (history \<noteq> [] \<and> ah_timestamp_ms (a_header a) \<le> ar_timestamp_ms (last history))"
      "\<not> (\<exists>mtp \<in> set_option (anchor_median_time_past history). ah_timestamp_ms (a_header a) \<le> mtp)"
      using v False h d by (auto simp: validate_anchor_dependencies_def Let_def split: if_splits)
    obtain target pow cs where p: "next_anchor_target history = Inr target" "anchor_to_pow_header (a_header a) = Inr pow"
      "node_verify_pow V pow target = Inr True" "fruits_loaded H R db ''missing_covered_fruit'' (a_covered_fruit_hashes a) = Inr (Inr ())"
      "fruits_loaded H R db ''missing_parent_candidate'' (a_parent_candidate_hashes a) = Inr (Inr ())"
      "canonical_parent_candidates H R db = Inr cs" "Some (a_parent_candidate_hashes a) = cs"
      using v False h d m by (auto simp: validate_anchor_dependencies_def Let_def answer_iff split: if_splits)
    then show ?s using h d m unfolding anchor_dependencies_met_def fruits_loaded_accept node_verify_True by (auto simp: not_le)
  next
    assume s: ?s
    then obtain history target pow where h: "anchor_history H R db (ah_parent_anchor (a_header a)) (Some ANCHOR_HISTORY_LOOKBACK) = Inr (Some history)"
      "history \<noteq> [] \<longrightarrow> ar_timestamp_ms (last history) < ah_timestamp_ms (a_header a)"
      "\<forall>mtp. anchor_median_time_past history = Some mtp \<longrightarrow> mtp < ah_timestamp_ms (a_header a)"
      "next_anchor_target history = Inr target" "anchor_to_pow_header (a_header a) = Inr pow" "V pow target = Inr True"
      unfolding anchor_dependencies_met_def by blast
    have l: "fruits_loaded H R db reason (a_covered_fruit_hashes a) = Inr (Inr ())"
      "fruits_loaded H R db reason (a_parent_candidate_hashes a) = Inr (Inr ())" for reason
      using s unfolding anchor_dependencies_met_def fruits_loaded_accept by blast+
    have m: "\<not> (history \<noteq> [] \<and> ah_timestamp_ms (a_header a) \<le> ar_timestamp_ms (last history))"
      "\<not> (\<exists>mtp \<in> set_option (anchor_median_time_past history). ah_timestamp_ms (a_header a) \<le> mtp)"
      using h(2,3) by (auto simp: not_le)
    have good: "node_verify_pow V pow target = Inr True" using h(6) by (simp add: node_verify_True)
    have "canonical_parent_candidates H R db = Inr (Some (a_parent_candidate_hashes a))" "\<not> ah_timestamp_ms (a_header a) > now + MAX_FUTURE_DRIFT_MS"
      using s by (auto simp: anchor_dependencies_met_def)
    then show ?v
      unfolding validate_anchor_dependencies_def Let_def
      by (simp add: False h(1,4,5) m good l andthen_def del: not_le not_less)
  qed
  then show ?thesis using False by simp
qed

lemma absent_body: "length h = HASH_LEN_BYTES \<Longrightarrow> get_body_bytes R db h = Inr b \<longleftrightarrow> rk_get R db COLUMN_BODIES h = b"
  by (simp add: get_body_bytes_def bnd_require_hash_len st_get_eq hash_nonempty)

lemma tx_output_sum_iff:
  "tx_output_sum t = Inr v \<longleftrightarrow> v = sum_list (map out_amount_matoms (tx_outputs t)) \<and> v \<le> MAX_SUPPLY_MATOMS"
  by (auto simp: tx_output_sum_def Let_def bnd_ensure)

lemma check_fruit_exact:
  assumes "digest_ok H"
  shows "(\<exists>x. check_fruit H E V R now n f = Inr (Inr x)) \<longleftrightarrow> fruit_checked H E V R now n f"
proof -
  have len: "length (fruit_block_hash H f) = HASH_LEN_BYTES"
    using assms by (simp add: fruit_block_hash_def fruit_header_hash_def length_domain_hash)
  note steps = check_fruit_def Let_def absent_body [OF len] fruit_dependencies_exact node_verify_True tx_output_sum_iff
  show ?thesis
  proof
    assume "\<exists>x. check_fruit H E V R now n f = Inr (Inr x)"
    then obtain txs a pow height view tips minted subsidy where s: "rk_get R (nd_db n) COLUMN_BODIES (fruit_block_hash H f) = None"
      "each tx_from_bytes (f_transactions f) = Inr txs" "txs \<noteq> []" "tx_inputs (hd txs) = []" "\<forall>t \<in> set (drop 1 txs). tx_inputs t \<noteq> []"
      "fruit_dependencies_met H R (nd_db n) now f a" "fruit_to_pow_header (f_header f) (a_parent_candidate_hashes a) = Inr pow"
      "V pow FRUIT_TARGET_LE = Inr True" "anchor_height_of R (nd_db n) = Inr height" "UTXOSet H (us_list (nd_utxo_set n)) = Inr view"
      "validate_txs H E (nd_shard_tree n) f (fee_floor_for_shard R (nd_db n) (fh_shard_id (f_header f))) (height + 1) (drop 1 txs) view 0 =
        Inr (Inr tips)" "minted_supply_of R (nd_db n) = Inr minted" "interval_subsidy_matoms (height + 1) minted = Inr subsidy"
      "sum_list (map out_amount_matoms (tx_outputs (hd txs))) \<le> MAX_SUPPLY_MATOMS"
      "sum_list (map out_amount_matoms (tx_outputs (hd txs))) \<le> subsidy + tips"
      unfolding steps answer_iff by (auto simp: answer_iff not_less fruit_dependencies_exact node_verify_True tx_output_sum_iff absent_body [OF len] split: if_splits)
    obtain c ts where c: "txs = c # ts" using s(3) by (cases txs) auto
    show "fruit_checked H E V R now n f"
      unfolding fruit_checked_def
      by (rule exI [of _ c], rule exI [of _ ts], rule exI [of _ a], rule exI [of _ pow], rule exI [of _ height], rule exI [of _ view],
          rule exI [of _ tips], rule exI [of _ minted], rule exI [of _ subsidy]) (use s in \<open>simp add: c accept_def\<close>)
  next
    assume "fruit_checked H E V R now n f"
    then obtain c txs a pow height view tips minted subsidy where s: "rk_get R (nd_db n) COLUMN_BODIES (fruit_block_hash H f) = None"
      "each tx_from_bytes (f_transactions f) = Inr (c # txs)" "tx_inputs c = []" "\<forall>t \<in> set txs. tx_inputs t \<noteq> []"
      "fruit_dependencies_met H R (nd_db n) now f a" "fruit_to_pow_header (f_header f) (a_parent_candidate_hashes a) = Inr pow"
      "V pow FRUIT_TARGET_LE = Inr True" "anchor_height_of R (nd_db n) = Inr height" "UTXOSet H (us_list (nd_utxo_set n)) = Inr view"
      "validate_txs H E (nd_shard_tree n) f (fee_floor_for_shard R (nd_db n) (fh_shard_id (f_header f))) (height + 1) txs view 0 =
        accept tips" "minted_supply_of R (nd_db n) = Inr minted" "interval_subsidy_matoms (height + 1) minted = Inr subsidy"
      "sum_list (map out_amount_matoms (tx_outputs c)) \<le> MAX_SUPPLY_MATOMS" "sum_list (map out_amount_matoms (tx_outputs c)) \<le> subsidy + tips"
      unfolding fruit_checked_def min.bounded_iff by blast
    have "validate_fruit_dependencies H R (nd_db n) now f = Inr (Inr (a_parent_candidate_hashes a))"
      using s(5) by (auto simp: fruit_dependencies_exact)
    moreover have "get_body_bytes R (nd_db n) (fruit_block_hash H f) = Inr None" using s(1) by (simp add: absent_body [OF len])
    moreover have "tx_output_sum c = Inr (sum_list (map out_amount_matoms (tx_outputs c)))" using s(13) by (simp add: tx_output_sum_iff)
    moreover have "node_verify_pow V pow FRUIT_TARGET_LE = Inr True" using s(7) by (simp add: node_verify_True)
    ultimately show "\<exists>x. check_fruit H E V R now n f = Inr (Inr x)"
      using s by (simp add: check_fruit_def Let_def or_refuse_def andthen_def accept_def)
  qed
qed

lemma check_anchor_exact:
  assumes "anchor_block_hash H a = Inr h" "length h = HASH_LEN_BYTES"
  shows "(\<exists>x. check_anchor H E V R now genesis db a h = Inr (Inr x)) \<longleftrightarrow> anchor_checked H E V R db now genesis a h"
proof
  have body: "get_body_bytes R db h = Inr (rk_get R db COLUMN_BODIES h)" by (simp add: absent_body [OF assms(2)])
  have dep: "validate_anchor_dependencies H V R db now genesis a = Inr (Inr ()) \<longleftrightarrow> ah_timestamp_ms (a_header a) \<le> now + MAX_FUTURE_DRIFT_MS \<and>
      (if is_genesis_anchor a then st_items R db COLUMN_BODIES = [] \<and> genesis = Some h else anchor_dependencies_met H V R db a)"
    unfolding anchor_dependencies_exact assms(1) by simp
  {
    assume "\<exists>x. check_anchor H E V R now genesis db a h = Inr (Inr x)"
    then show "anchor_checked H E V R db now genesis a h"
      unfolding check_anchor_def anchor_checked_def body using dep
      by (auto simp: answer_iff accept_def split: if_splits option.splits)
  next
    assume "anchor_checked H E V R db now genesis a h"
    then obtain tree height target work st st' w where s: "rk_get R db COLUMN_BODIES h = None"
      "validate_anchor_dependencies H V R db now genesis a = Inr (Inr ())"
      "deserialize_tree (a_shard_tree_bytes a) = Inr tree" "map ff_shard_id (a_fee_floor_entries a) = leaf_shard_ids tree"
      "anchor_position H R db a = Inr (Some (height, target, work))"
      "rebuild_anchor_branch_state H E R db (ah_parent_anchor (a_header a)) = Inr (Some st)"
      "apply_anchor_to_branch H E R db a h height target st = accept st'" "anchor_work_weight target = Inr w"
      unfolding anchor_checked_def dep by blast
    then show "\<exists>x. check_anchor H E V R now genesis db a h = Inr (Inr x)"
      by (simp add: check_anchor_def body or_refuse_def andthen_def accept_def)
  }
qed

lemma process_fruit_answer:
  assumes "process_fruit H E V R now n f = Inr (r, n')"
  shows "nr_accepted r \<longleftrightarrow> (\<exists>x. check_fruit H E V R now n f = Inr (Inr x))"
proof -
  have "nr_accepted r" if "store_fruit H E R n f txs meta = Inr (r, n')" for txs meta
    using that by (auto simp: store_fruit_def Let_def bnd_Inr_iff result_ok_def)
  then show ?thesis
    using assms unfolding process_fruit_def or_reject_Inr
    by (cases "check_fruit H E V R now n f") (auto simp: andthen_def bnd_Inr_iff refuse_def accept_def result_reject_def split: sum.splits)
qed

lemma process_anchor_answer:
  assumes "digest_ok H" "process_anchor H E V R now genesis n a = Inr (r, n')"
  obtains h where "anchor_block_hash H a = Inr h" "length h = HASH_LEN_BYTES"
    "nr_accepted r \<longleftrightarrow> (\<exists>x. check_anchor H E V R now genesis (nd_db n) a h = Inr (Inr x))"
proof -
  obtain h where h: "anchor_block_hash H a = Inr h" using assms(2) unfolding process_anchor_def or_reject_Inr by (auto simp: bnd_Inr_iff)
  then have len: "length h = HASH_LEN_BYTES"
    using assms(1) by (auto simp: anchor_block_hash_def hash_bytes_def digest_ok_def anchor_header_hash_def domain_hash_def bnd_Inr_iff split: if_splits)
  have "nr_accepted r" if "store_anchor H E R n a h st meta = Inr (r, n')" for st meta
    using that by (auto simp: store_anchor_def Let_def bnd_Inr_iff result_ok_def split: if_splits)
  then have "nr_accepted r \<longleftrightarrow> (\<exists>x. check_anchor H E V R now genesis (nd_db n) a h = Inr (Inr x))"
    using assms(2) h unfolding process_anchor_def or_reject_Inr
    by (cases "check_anchor H E V R now genesis (nd_db n) a h")
      (auto simp: andthen_def bnd_Inr_iff refuse_def accept_def result_reject_def split: sum.splits)
  then show ?thesis by (rule that [OF h len])
qed

subsection \<open>Examples\<close>

lemma empty_db_get: "rk_get example_rocks empty_db c k = None"
  by (simp add: example_rocks_def empty_db_def)

lemma fresh_node:
  obtains n where "node_reachable pad_hash E example_rocks n" "node_ok pad_hash example_rocks n"
    "open_node pad_hash E example_rocks empty_db = Inr n" "\<And>c k. c \<noteq> COLUMN_DAG \<Longrightarrow> rk_get example_rocks (nd_db n) c k = None"
  using boot_node [OF example_rocks_ok pad_hash_digest empty_db_get, of E] node_reachable.boot [OF empty_db_get] by metis

lemma genesis_example:
  "is_genesis_anchor example_genesis_anchor" "\<exists>h. anchor_block_hash pad_hash example_genesis_anchor = Inr h"
  "ah_timestamp_ms (a_header example_genesis_anchor) \<le> 0 + MAX_FUTURE_DRIFT_MS"
proof -
  show g: "is_genesis_anchor example_genesis_anchor"
    by (simp add: is_genesis_anchor_def example_genesis_anchor_def Let_def zero_bytes_def HASH_LEN_BYTES_def replicate_eq_replicate)
  show "\<exists>h. anchor_block_hash pad_hash example_genesis_anchor = Inr h" by (simp add: anchor_block_hash_def g genesis_bytes)
  show "ah_timestamp_ms (a_header example_genesis_anchor) \<le> 0 + MAX_FUTURE_DRIFT_MS"
    by (simp add: example_genesis_anchor_def Let_def MAX_FUTURE_DRIFT_MS_def)
qed

lemma locked_node:
  obtains n where "node_ok pad_hash example_rocks n" "us_get (nd_utxo_set n) = [u_outpoint example_utxo \<mapsto> locked_utxo]"
proof -
  have nil: "us_get empty_utxo_set = Map.empty" by (simp add: us_get_eq empty_utxo_set_def)
  obtain S where S: "us_add pad_hash empty_utxo_set locked_utxo = Inr S"
    using us_add_total [OF empty_utxo_set_ok, of locked_utxo pad_hash] by (auto simp: nil)
  have ok: "utxo_ok locked_utxo" by code_simp
  have s: "utxo_set_ok pad_hash locked_set" "us_get locked_set = [u_outpoint example_utxo \<mapsto> locked_utxo]"
    using us_add_step [OF empty_utxo_set_ok ok S] S by (simp_all add: locked_set_def nil) (simp add: locked_utxo_def spend_utxo_def)
  have get: "rk_get example_rocks locked_db c k = map_of (locked_db c) k" for c k by (simp add: example_rocks_def)
  have "worth (us_get locked_set) = 20" by (simp add: worth_def s(2) locked_utxo_def spend_utxo_def)
  moreover have "supply_of example_rocks locked_db = 20"
    by (simp add: supply_of_def get locked_db_def key_distinct(17) [symmetric] decode_u64_or_zero_def from_le_bytes)
  ultimately have "db_ok pad_hash example_rocks locked_db default_tree locked_set"
    using s(1) by (auto simp: db_ok_def rows_ok_def claims_recorded_def outputs_stored_def tree_stored_def get locked_db_def s(2)
        MAX_SUPPLY_MATOMS_def)
  from db_ok_load [OF example_rocks_ok pad_hash_digest this] show thesis using that s(2) by metis
qed

section \<open>Properties\<close>

text \<open>(C1) No sequence of handlers creates coins: on every node reached from an empty database by processing
  transactions, fruits and anchors, by restarts and by copying other nodes, the unspent outputs in memory are
  consistent, and together worth at most the minted supply on record, which is at most the maximum supply.\<close>

theorem reachable_node_within_supply:
  assumes "rocks_ok R" "digest_ok H" "node_reachable H E R n"
  shows "utxo_set_ok H (nd_utxo_set n) \<and> (\<exists>m. minted_supply_of R (nd_db n) = Inr m \<and> worth (us_get (nd_utxo_set n)) \<le> m \<and> m \<le> MAX_SUPPLY_MATOMS)"
  using reachable_ok [OF assms] by (simp add: node_ok_def db_ok_def minted_supply_eq)

theorem reachable_node_within_supply_witness:
  "\<exists>n m. node_reachable pad_hash example_ed25519 example_rocks n \<and> minted_supply_of example_rocks (nd_db n) = Inr m \<and>
     worth (us_get (nd_utxo_set n)) \<le> m"
proof -
  obtain n where n: "node_reachable pad_hash example_ed25519 example_rocks n"
    by (rule fresh_node [of example_ed25519]) blast
  from reachable_node_within_supply [OF example_rocks_ok pad_hash_digest n] show ?thesis using n by blast
qed

text \<open>(C2) A restart loses nothing: every reachable node can be opened again from its database, and then has the same
  shard tree and exactly the same unspent outputs as before; only pending transactions may be dropped.\<close>

theorem restart_restores_state:
  assumes "rocks_ok R" "digest_ok H" "node_reachable H E R n"
  shows "\<exists>n'. open_node H E R (nd_db n) = Inr n' \<and> nd_shard_tree n' = nd_shard_tree n \<and>
    us_get (nd_utxo_set n') = us_get (nd_utxo_set n) \<and>
    (\<forall>c k. c \<noteq> COLUMN_MEMPOOL \<longrightarrow> rk_get R (nd_db n') c k = rk_get R (nd_db n) c k)"
  using restart_node [OF assms(1,2) reachable_ok [OF assms], of E] prunedD(1) by metis

theorem restart_restores_state_witness:
  "\<exists>n n'. node_reachable pad_hash example_ed25519 example_rocks n \<and>
     open_node pad_hash example_ed25519 example_rocks (nd_db n) = Inr n' \<and> us_get (nd_utxo_set n') = us_get (nd_utxo_set n)"
proof -
  obtain n where n: "node_reachable pad_hash example_ed25519 example_rocks n"
    by (rule fresh_node [of example_ed25519]) blast
  from restart_restores_state [OF example_rocks_ok pad_hash_digest n] show ?thesis using n by blast
qed

text \<open>(C6) A node can start: opening an empty database succeeds, and the new node accepts every well-formed genesis anchor
  whose hash is the configured one, when its timestamp is not too far in the future; the block can then be read
  back, and a second copy of it is refused.\<close>

theorem fresh_node_accepts_genesis:
  assumes R: "rocks_ok R" and H: "digest_ok H" and "\<And>c k. rk_get R db c k = None"
    and a: "anchor_ok H a" "is_genesis_anchor a" "anchor_block_hash H a = Inr h" "ah_timestamp_ms (a_header a) \<le> now + MAX_FUTURE_DRIFT_MS"
  shows "\<exists>n n' bs. open_node H E R db = Inr n \<and> process_anchor H E V R now (Some h) n a = Inr (result_ok h, n') \<and>
    serialize_anchor a = Inr bs \<and> node_get_block R n' h = Inr (Some bs) \<and>
    process_anchor H E V R now (Some h) n' a = Inr (result_reject ''genesis_not_first'', n')"
proof -
  obtain n where n: "open_node H E R db = Inr n" "node_ok H R n" "\<And>c k. c \<noteq> COLUMN_DAG \<Longrightarrow> rk_get R (nd_db n) c k = None"
    using boot_node [OF R H assms(3), of E] by metis
  obtain n' where n': "process_anchor H E V R now (Some h) n a = Inr (result_ok h, n')"
    using genesis_accepted [OF R H n(2,3) a, of E V] by blast
  have acc: "nr_accepted (result_ok h)" "nr_object_hash (result_ok h) = Some h" by (simp_all add: result_ok_def)
  obtain bs where bs: "serialize_anchor a = Inr bs" "rk_get R (nd_db n') COLUMN_BODIES h = Some bs"
    using anchor_node [OF R H n(2) a(1) n'] acc a(3) by auto
  have "length h = HASH_LEN_BYTES"
    using a(2,3) H by (auto simp: anchor_block_hash_def bnd_Inr_iff hash_bytes_def digest_ok_def)
  note again = stored_anchor_again [OF bs(2) this a(3)]
  show ?thesis using n(1) n' bs(1) again(2) again(1) [of E V now "Some h"] a(2) by auto
qed

theorem fresh_node_accepts_genesis_witness:
  "\<exists>h n n'. open_node pad_hash example_ed25519 example_rocks empty_db = Inr n \<and>
     process_anchor pad_hash example_ed25519 (\<lambda>_ _. Inr True) example_rocks 0 (Some h) n example_genesis_anchor = Inr (result_ok h, n')"
proof -
  obtain h where h: "anchor_block_hash pad_hash example_genesis_anchor = Inr h" using genesis_example(2) by blast
  from fresh_node_accepts_genesis [OF example_rocks_ok pad_hash_digest empty_db_get example_genesis_ok genesis_example(1) h genesis_example(3)]
  show ?thesis by blast
qed

text \<open>(C3) Exactly which blocks are accepted. When \<open>process_fruit\<close> answers on a reachable node, it accepts if and only if the fruit is
  new, holds one coinbase and holds it first, is not too far in the future, names a stored anchor, builds on stored and
  strictly earlier parents (on the genesis parent only when no fruit is stored), is later than the median of its
  selected chain, has a proof of work the verifier confirms, spends outputs of the node validly, and claims at most the subsidy and its
  tips. \<open>process_anchor\<close> accepts if and only if the anchor is new, not too far in the future, and is the
  configured genesis on an empty store or meets the target, the two time rules and the rules on covered fruits and parent candidates;
  its shard tree decodes and matches its fee floors, and the state of its parent's branch is rebuilt and takes it. An
  accepted block is stored under its hash.\<close>

theorem accepted_blocks_are_checked:
  assumes R: "rocks_ok R" and H: "digest_ok H" and n: "node_reachable H E R n"
  shows "(\<forall>f r n'. fruit_ok H f \<longrightarrow> process_fruit H E V R now n f = Inr (r, n') \<longrightarrow>
      (nr_accepted r \<longleftrightarrow> fruit_checked H E V R now n f) \<and>
      (nr_accepted r \<longrightarrow> rk_get R (nd_db n') COLUMN_BODIES (fruit_block_hash H f) = Some (serialize_fruit f))) \<and>
    (\<forall>a r n'. anchor_ok H a \<longrightarrow> process_anchor H E V R now genesis n a = Inr (r, n') \<longrightarrow>
      (\<exists>h. anchor_block_hash H a = Inr h \<and> (nr_accepted r \<longleftrightarrow> anchor_checked H E V R (nd_db n) now genesis a h) \<and>
         (nr_accepted r \<longrightarrow> (\<exists>bs. serialize_anchor a = Inr bs \<and> rk_get R (nd_db n') COLUMN_BODIES h = Some bs))))"
proof (intro conjI allI impI)
  note ok = reachable_ok [OF R H n]
  fix f r n' assume f: "fruit_ok H f" "process_fruit H E V R now n f = Inr (r, n')"
  show "nr_accepted r \<longleftrightarrow> fruit_checked H E V R now n f"
    unfolding process_fruit_answer [OF f(2)] by (rule check_fruit_exact [OF H])
  show "rk_get R (nd_db n') COLUMN_BODIES (fruit_block_hash H f) = Some (serialize_fruit f)" if "nr_accepted r"
    using fruit_node [OF R H ok f] that by simp
next
  note ok = reachable_ok [OF R H n]
  fix a r n' assume a: "anchor_ok H a" "process_anchor H E V R now genesis n a = Inr (r, n')"
  obtain h where h: "anchor_block_hash H a = Inr h" "length h = HASH_LEN_BYTES"
    "nr_accepted r \<longleftrightarrow> (\<exists>x. check_anchor H E V R now genesis (nd_db n) a h = Inr (Inr x))"
    by (rule process_anchor_answer [OF H a(2)])
  have "\<exists>bs. serialize_anchor a = Inr bs \<and> rk_get R (nd_db n') COLUMN_BODIES h = Some bs" if "nr_accepted r"
    using anchor_node [OF R H ok a] that h(1) by auto
  moreover have "nr_accepted r \<longleftrightarrow> anchor_checked H E V R (nd_db n) now genesis a h" unfolding h(3) by (rule check_anchor_exact [OF h(1,2)])
  ultimately show "\<exists>h. anchor_block_hash H a = Inr h \<and> (nr_accepted r \<longleftrightarrow> anchor_checked H E V R (nd_db n) now genesis a h) \<and>
      (nr_accepted r \<longrightarrow> (\<exists>bs. serialize_anchor a = Inr bs \<and> rk_get R (nd_db n') COLUMN_BODIES h = Some bs))"
    using h(1) by blast
qed

theorem accepted_blocks_are_checked_witness:
  "\<exists>h n n'. process_anchor pad_hash example_ed25519 (\<lambda>_ _. Inr True) example_rocks 0 (Some h) n example_genesis_anchor = Inr (result_ok h, n') \<and>
     anchor_checked pad_hash example_ed25519 (\<lambda>_ _. Inr True) example_rocks (nd_db n) 0 (Some h) example_genesis_anchor h"
proof -
  obtain h where h: "anchor_block_hash pad_hash example_genesis_anchor = Inr h" using genesis_example(2) by blast
  obtain n where n: "node_reachable pad_hash example_ed25519 example_rocks n" "node_ok pad_hash example_rocks n"
    "\<And>c k. c \<noteq> COLUMN_DAG \<Longrightarrow> rk_get example_rocks (nd_db n) c k = None" by (rule fresh_node [of example_ed25519]) blast
  obtain n' where n': "process_anchor pad_hash example_ed25519 (\<lambda>_ _. Inr True) example_rocks 0 (Some h) n example_genesis_anchor = Inr (result_ok h, n')"
    using genesis_accepted [OF example_rocks_ok pad_hash_digest n(2,3) example_genesis_ok genesis_example(1) h genesis_example(3)] by blast
  from conjunct2 [OF accepted_blocks_are_checked [OF example_rocks_ok pad_hash_digest n(1)], rule_format, OF example_genesis_ok n']
  show ?thesis using n' h by (auto simp: result_ok_def)
qed

text \<open>(C7) Relayed transactions: on every reachable node \<open>process_raw_tx\<close> answers, and leaves the unspent outputs and the shard tree
  alone. When it accepts, the bytes are the encoding of a transaction that spends outputs of the node with valid
  witnesses, and the node can be asked for it afterwards; the database holds its bytes.\<close>

theorem process_raw_tx_answers:
  assumes "rocks_ok R" "digest_ok H" "node_reachable H E R n"
  shows "\<exists>r n'. process_raw_tx H E R n data = Inr (r, n') \<and> nd_shard_tree n' = nd_shard_tree n \<and> nd_utxo_set n' = nd_utxo_set n \<and>
    (nr_accepted (fst r) \<longrightarrow> (\<exists>t. tx_from_bytes data = Inr t \<and> tx_inputs t \<noteq> [] \<and>
       (\<forall>i < length (tx_inputs t). spendable H E (us_get (nd_utxo_set n)) t 0 0 i) \<and> get_tx R n' (tx_id H t) = Inr (Some t) \<and>
       st_get R (nd_db n') COLUMN_MEMPOOL (tx_id H t) = Inr (Some data)))"
proof -
  obtain r n' where n': "process_raw_tx H E R n data = Inr (r, n')" "nd_shard_tree n' = nd_shard_tree n" "nd_utxo_set n' = nd_utxo_set n"
    "nr_accepted (fst r) \<longrightarrow> (\<exists>t mp. tx_from_bytes data = Inr t \<and> admissible H E mp t None (us_get (nd_utxo_set n)) 0 0 \<and>
       mp_get (nd_mempool n') (tx_id H t) = Some t \<and> rk_get R (nd_db n') COLUMN_MEMPOOL (tx_id H t) = Some data)"
    using raw_tx_node [OF assms(1,2) reachable_ok [OF assms], of E data] by blast
  then show ?thesis
    by (intro exI [of _ r] exI [of _ n']) (auto simp: admissible_def get_tx_def st_get_eq tx_id_nonempty [OF assms(2)])
qed

theorem process_raw_tx_answers_witness:
  "\<exists>n r n'. node_reachable pad_hash example_ed25519 example_rocks n \<and>
     process_raw_tx pad_hash example_ed25519 example_rocks n (tx_to_bytes pool_tx) = Inr (r, n') \<and> nd_utxo_set n' = nd_utxo_set n"
proof -
  obtain n where n: "node_reachable pad_hash example_ed25519 example_rocks n"
    by (rule fresh_node [of example_ed25519]) blast
  from process_raw_tx_answers [OF example_rocks_ok pad_hash_digest n] show ?thesis using n by blast
qed

text \<open>(C8) Locked outputs cannot be spent by relayed transactions, however long ago their locks expired: \<open>process_raw_tx\<close> passes
  neither the time nor the anchor height to the mempool, which then checks every lock against zero. So it
  rejects each transaction with an input whose output has a nonzero lock height or lock time, whatever
  height the node has reached. Every coinbase output is of this kind: it gets the anchor height plus 100 as
  its lock height.\<close>

theorem locked_outputs_never_relayed:
  assumes "rocks_ok R" "digest_ok H" "node_ok H R n" "tx_from_bytes data = Inr t" "i < length (tx_inputs t)"
    "us_get (nd_utxo_set n) (in_previous_outpoint (tx_inputs t ! i)) = Some u" "u_lockheight u > 0 \<or> u_locktime_ms u > 0"
  shows "\<exists>r n'. process_raw_tx H E R n data = Inr (r, n') \<and> \<not> nr_accepted (fst r)"
proof -
  obtain r n' where n': "process_raw_tx H E R n data = Inr (r, n')"
    "nr_accepted (fst r) \<longrightarrow> (\<exists>t mp. tx_from_bytes data = Inr t \<and> admissible H E mp t None (us_get (nd_utxo_set n)) 0 0)"
    using raw_tx_node [OF assms(1-3), of E data] by blast
  have "utxo_set_ok H (nd_utxo_set n)" using assms(3) by (simp add: node_ok_def db_ok_def)
  from utxos.content_ok [OF this assms(6)] have "uint64 (u_locktime_ms u)" "uint64 (u_lockheight u)"
    by (auto simp: utxo_ok_def uint64_def)
  from locked_not_spendable [OF this assms(7), of H E] have "\<not> spendable H E (us_get (nd_utxo_set n)) t 0 0 i"
    using assms(6) by (auto simp: spendable_def)
  then show ?thesis using n' assms(4,5) by (auto simp: admissible_def)
qed

theorem locked_outputs_never_relayed_witness:
  "\<exists>n r n'. us_get (nd_utxo_set n) (u_outpoint example_utxo) = Some locked_utxo \<and>
     process_raw_tx pad_hash example_ed25519 example_rocks n (tx_to_bytes pool_tx) = Inr (r, n') \<and> \<not> nr_accepted (fst r)"
proof -
  obtain n where n: "node_ok pad_hash example_rocks n" "us_get (nd_utxo_set n) = [u_outpoint example_utxo \<mapsto> locked_utxo]"
    by (rule locked_node)
  have t: "tx_from_bytes (tx_to_bytes pool_tx) = Inr pool_tx" by (rule tx_from_to_bytes [OF pool_tx_ok])
  have i: "0 < length (tx_inputs pool_tx)" "in_previous_outpoint (tx_inputs pool_tx ! 0) = u_outpoint example_utxo"
    by (simp_all add: pool_tx_def example_tx_def example_utxo_def)
  have u: "us_get (nd_utxo_set n) (in_previous_outpoint (tx_inputs pool_tx ! 0)) = Some locked_utxo" by (simp add: n(2) i(2))
  have "u_lockheight locked_utxo > 0 \<or> u_locktime_ms locked_utxo > 0" by (simp add: locked_utxo_def)
  from locked_outputs_never_relayed [OF example_rocks_ok pad_hash_digest n(1) t i(1) u this, of example_ed25519] show ?thesis
    using u unfolding i(2) by blast
qed

end
