(* ===== verification/State_Sync.thy ===== *)
theory State_Sync
  imports Ledger UTXO_Merkle
begin

text \<open>
  \<^verbatim>\<open>src/src/tensorpow/state/sync.py\<close> and \<^verbatim>\<open>src/src/tensorpow/_iblt.py\<close>: differences between two sets of unspent
  outputs. A difference lists the removed outpoints and the added outputs, between the roots of the two sets,
  and carries an invertible Bloom lookup table (IBLT) of the changes that the receiver peels and compares with the
  records. When two change keys collide, the whole target set is sent instead.

  The two places that raise \<open>UTXOReconciliationError\<close> with the words that \<open>build_utxo_diff\<close> looks for have
  an error of their own, \<open>DuplicateChangeKeys\<close>. \<open>merkle_root\<close> fills the caches of the set it is called on; those of the
  arguments are dropped, those of the result are kept. The offset that the decoder advances over the payload is
  the list of the bytes not yet read.
\<close>

unbundle bit_operations_syntax

section \<open>Definitions\<close>

definition UTXO_DIFF_MAGIC :: bytes where "UTXO_DIFF_MAGIC = ascii ''TPUIBLT1''"
definition UTXO_DIFF_CHECKSUM_PREFIX :: bytes where "UTXO_DIFF_CHECKSUM_PREFIX = ascii ''TensorPoW:utxo-diff:''"
definition UTXO_IBLT_HASH_COUNT :: nat where "UTXO_IBLT_HASH_COUNT = 3"
definition UTXO_IBLT_KEY_BYTES :: nat where "UTXO_IBLT_KEY_BYTES = 8"
definition UTXO_IBLT_MIN_CELLS :: nat where "UTXO_IBLT_MIN_CELLS = UTXO_IBLT_HASH_COUNT"
definition SYNC_U16_MAX :: nat where "SYNC_U16_MAX = 65535"
definition UTXO_IBLT_CELL_BYTES :: nat where "UTXO_IBLT_CELL_BYTES = 2 + UTXO_IBLT_KEY_BYTES + 4"
definition UTXO_DIFF_HEADER_BYTES :: nat where
  "UTXO_DIFF_HEADER_BYTES = length UTXO_DIFF_MAGIC + (2 * HASH_LEN_BYTES) + (2 * 4) + 2 + 1"
definition UTXO_DIFF_FIXED_BYTES :: nat where "UTXO_DIFF_FIXED_BYTES = UTXO_DIFF_HEADER_BYTES + HASH_LEN_BYTES"
definition UTXO_DIFF_REMOVE_ENTRY_BYTES :: nat where "UTXO_DIFF_REMOVE_ENTRY_BYTES = OUTPOINT_BYTES + HASH_LEN_BYTES"
definition MAX_UTXO_DIFF_IBLT_ENTRIES :: nat where
  "MAX_UTXO_DIFF_IBLT_ENTRIES = (SYNC_U16_MAX - UTXO_IBLT_HASH_COUNT) div 2"
definition MAX_UTXO_DIFF_ENTRIES :: nat where "MAX_UTXO_DIFF_ENTRIES = 16384"
definition MAX_UTXO_DIFF_BYTES :: nat where "MAX_UTXO_DIFF_BYTES = 64 * 1024 * 1024"
definition MAX_UTXO_DIFF_ADD_BYTES :: nat where "MAX_UTXO_DIFF_ADD_BYTES = UTXO_FIXED_BYTES + TX_OUTPUT_PAYLOAD_MAX_BYTES"
definition UTXO_IBLT_POSITION_DOMAIN :: bytes where "UTXO_IBLT_POSITION_DOMAIN = ascii ''TensorPoW UTXO IBLT position''"
definition UTXO_IBLT_CHECKSUM_DOMAIN :: bytes where "UTXO_IBLT_CHECKSUM_DOMAIN = ascii ''TensorPoW UTXO IBLT checksum''"
definition UTXO_IBLT_REMOVE_DOMAIN :: bytes where "UTXO_IBLT_REMOVE_DOMAIN = ascii ''TensorPoW UTXO IBLT remove''"
definition UTXO_IBLT_ADD_DOMAIN :: bytes where "UTXO_IBLT_ADD_DOMAIN = ascii ''TensorPoW UTXO IBLT add''"

record remove_record =
  rr_outpoint :: outpoint
  rr_value_hash :: bytes

record utxo_diff =
  ud_base_root :: bytes
  ud_target_root :: bytes
  ud_removals :: "remove_record list"
  ud_additions :: "utxo list"
  ud_full_snapshot :: bool

record iblt_cell =
  ic_count :: int
  ic_key_sum :: bytes
  ic_checksum_sum :: int

definition require_diff_limits :: "int \<Rightarrow> int \<Rightarrow> unit res" where
  "require_diff_limits max_entries max_bytes =
     bnd (ensure (\<not> max_entries \<le> 0) ValueError) (\<lambda>_.
     bnd (ensure (\<not> max_bytes \<le> 0) ValueError) (\<lambda>_.
     ensure (\<not> max_entries > int MAX_UTXO_DIFF_IBLT_ENTRIES) ValueError))"

definition utxos_by_outpoint :: "utxo_set \<Rightarrow> (outpoint, utxo) dict" where
  "utxos_by_outpoint S = fold (\<lambda>u. dict_set (u_outpoint u) u) (us_list S) []"

definition diff_checksum :: "hash_fn \<Rightarrow> bytes \<Rightarrow> bytes" where
  "diff_checksum H payload = hash_bytes H (UTXO_DIFF_CHECKSUM_PREFIX @ payload)"

subsection \<open>Peeling\<close>

text \<open>\<open>peel_iblt_cells\<close> of \<^verbatim>\<open>_iblt.py\<close>, with its callbacks as arguments; \<open>left\<close> is \<open>max_iterations - iterations\<close>.\<close>

fun first_pure :: "('cell \<Rightarrow> bool res) \<Rightarrow> nat \<Rightarrow> 'cell list \<Rightarrow> nat option res" where
  "first_pure is_pure index [] = Inr None"
| "first_pure is_pure index (cell # rest) =
     bnd (is_pure cell) (\<lambda>pure. if pure then Inr (Some index) else first_pure is_pure (index + 1) rest)"

fun peel_loop ::
  "('cell \<Rightarrow> bool res) \<Rightarrow> ('cell \<Rightarrow> bool) \<Rightarrow> ('cell \<Rightarrow> bytes) \<Rightarrow> ('cell \<Rightarrow> int) \<Rightarrow> ('cell list \<Rightarrow> bytes \<Rightarrow> int \<Rightarrow> 'cell list res) \<Rightarrow>
   nat \<Rightarrow> 'cell list \<Rightarrow> (bytes \<times> int) list \<Rightarrow> (bytes \<times> int) list option res" where
  "peel_loop is_pure is_empty cell_key peel_delta apply_key 0 working peeled =
     bnd (first_pure is_pure 0 working) (\<lambda>pure_index.
     case pure_index of
       None \<Rightarrow> Inr (if (\<exists>cell \<in> set working. \<not> is_empty cell) then None else Some peeled)
     | Some _ \<Rightarrow> Inr None)"
| "peel_loop is_pure is_empty cell_key peel_delta apply_key (Suc left) working peeled =
     bnd (first_pure is_pure 0 working) (\<lambda>pure_index.
     case pure_index of
       None \<Rightarrow> Inr (if (\<exists>cell \<in> set working. \<not> is_empty cell) then None else Some peeled)
     | Some i \<Rightarrow>
         let cell = working ! i; key = cell_key cell; delta = peel_delta cell; before = cell in
         bnd (apply_key working key delta) (\<lambda>working.
         if working ! i = before \<or> \<not> is_empty (working ! i) then Inr None
         else peel_loop is_pure is_empty cell_key peel_delta apply_key left working (peeled @ [(key, delta)])))"

definition peel_iblt_cells ::
  "('cell \<Rightarrow> bool res) \<Rightarrow> ('cell \<Rightarrow> bool) \<Rightarrow> ('cell \<Rightarrow> bytes) \<Rightarrow> ('cell \<Rightarrow> int) \<Rightarrow> ('cell list \<Rightarrow> bytes \<Rightarrow> int \<Rightarrow> 'cell list res) \<Rightarrow>
   'cell list \<Rightarrow> (bytes \<times> int) list option res" where
  "peel_iblt_cells is_pure is_empty cell_key peel_delta apply_key cells =
     peel_loop is_pure is_empty cell_key peel_delta apply_key (length cells) cells []"

subsection \<open>The sketch\<close>

definition require_iblt_key :: "bytes \<Rightarrow> bytes res" where
  "require_iblt_key key = bnd (ensure (\<not> length key \<noteq> UTXO_IBLT_KEY_BYTES) ValueError) (\<lambda>_. Inr key)"

definition require_iblt_cell_count :: "nat \<Rightarrow> unit res" where
  "require_iblt_cell_count cell_count = ensure (UTXO_IBLT_MIN_CELLS \<le> cell_count \<and> cell_count \<le> SYNC_U16_MAX) ValueError"

definition xor_bytes :: "bytes \<Rightarrow> bytes \<Rightarrow> bytes res" where
  "xor_bytes left right =
     bnd (ensure (\<not> length left \<noteq> length right) ValueError) (\<lambda>_. Inr (map2 (\<lambda>l r. l XOR r) left right))"

definition iblt_checksum :: "hash_fn \<Rightarrow> bytes \<Rightarrow> int res" where
  "iblt_checksum H key =
     bnd (require_iblt_key key) (\<lambda>_. Inr (from_le (take 4 (hash_bytes H (UTXO_IBLT_CHECKSUM_DOMAIN @ key)))))"

function position_loop :: "hash_fn \<Rightarrow> bytes \<Rightarrow> nat \<Rightarrow> nat \<Rightarrow> nat list \<Rightarrow> nat list res" where
  "position_loop H key cell_count n positions =
     (if \<not> length positions < UTXO_IBLT_HASH_COUNT then Inr positions
      else
        bnd (to_bytes 2 (int n)) (\<lambda>tail.
        let digest = hash_bytes H (UTXO_IBLT_POSITION_DOMAIN @ key @ tail);
            position = nat (from_le (take 4 digest) mod int cell_count);
            positions = (if position \<notin> set positions then positions @ [position] else positions) in
        if n + 1 > SYNC_U16_MAX then Inl UTXOReconciliationError
        else position_loop H key cell_count (n + 1) positions))"
  by pat_completeness auto
termination
  by (relation "measure (\<lambda>(H, key, cell_count, n, positions). Suc SYNC_U16_MAX - n)") (auto simp: SYNC_U16_MAX_def)

declare position_loop.simps [simp del]

definition iblt_positions :: "hash_fn \<Rightarrow> bytes \<Rightarrow> nat \<Rightarrow> nat list res" where
  "iblt_positions H key cell_count =
     bnd (require_iblt_key key) (\<lambda>_.
     bnd (require_iblt_cell_count cell_count) (\<lambda>_.
     position_loop H key cell_count 0 []))"

definition update_cell :: "bytes \<Rightarrow> int \<Rightarrow> int \<Rightarrow> iblt_cell \<Rightarrow> iblt_cell res" where
  "update_cell key checksum delta cell =
     bnd (xor_bytes (ic_key_sum cell) key) (\<lambda>key_sum.
     Inr \<lparr>ic_count = ic_count cell + delta, ic_key_sum = key_sum, ic_checksum_sum = ic_checksum_sum cell XOR checksum\<rparr>)"

fun update_cells :: "bytes \<Rightarrow> int \<Rightarrow> int \<Rightarrow> nat list \<Rightarrow> iblt_cell list \<Rightarrow> iblt_cell list res" where
  "update_cells key checksum delta [] cells = Inr cells"
| "update_cells key checksum delta (cell_index # rest) cells =
     bnd (update_cell key checksum delta (cells ! cell_index)) (\<lambda>cell.
     update_cells key checksum delta rest (cells[cell_index := cell]))"

definition apply_iblt_key :: "hash_fn \<Rightarrow> iblt_cell list \<Rightarrow> bytes \<Rightarrow> int \<Rightarrow> iblt_cell list res" where
  "apply_iblt_key H cells key delta =
     bnd (require_iblt_key key) (\<lambda>_.
     bnd (ensure (delta = -1 \<or> delta = 1) ValueError) (\<lambda>_.
     bnd (iblt_checksum H key) (\<lambda>checksum.
     bnd (iblt_positions H key (length cells)) (\<lambda>positions.
     update_cells key checksum delta positions cells))))"

definition is_pure_iblt_cell :: "hash_fn \<Rightarrow> iblt_cell \<Rightarrow> bool res" where
  "is_pure_iblt_cell H cell =
     (if ic_count cell \<noteq> 1 then Inr False
      else bnd (require_iblt_key (ic_key_sum cell)) (\<lambda>_.
           bnd (iblt_checksum H (ic_key_sum cell)) (\<lambda>checksum. Inr (ic_checksum_sum cell = checksum))))"

definition is_empty_iblt_cell :: "iblt_cell \<Rightarrow> bool" where
  "is_empty_iblt_cell cell \<longleftrightarrow>
     ic_count cell = 0 \<and> ic_key_sum cell = zero_bytes UTXO_IBLT_KEY_BYTES \<and> ic_checksum_sum cell = 0"

definition peel_iblt :: "hash_fn \<Rightarrow> iblt_cell list \<Rightarrow> bytes list option res" where
  "peel_iblt H cells =
     bnd (peel_iblt_cells (is_pure_iblt_cell H) is_empty_iblt_cell ic_key_sum (\<lambda>_. -1) (apply_iblt_key H) cells) (\<lambda>peeled.
     Inr (map_option (\<lambda>ps. sort (map fst ps)) peeled))"

definition canonical_iblt_cell_count :: "nat \<Rightarrow> nat res" where
  "canonical_iblt_cell_count change_count =
     (let cell_count = max UTXO_IBLT_MIN_CELLS (change_count * 2 + UTXO_IBLT_HASH_COUNT) in
      bnd (ensure (\<not> cell_count > SYNC_U16_MAX) UTXOReconciliationError) (\<lambda>_. Inr cell_count))"

fun insert_keys :: "hash_fn \<Rightarrow> bytes list \<Rightarrow> iblt_cell list \<Rightarrow> iblt_cell list res" where
  "insert_keys H [] cells = Inr cells"
| "insert_keys H (key # rest) cells = bnd (apply_iblt_key H cells key 1) (\<lambda>cells. insert_keys H rest cells)"

definition empty_cell :: iblt_cell where
  "empty_cell = \<lparr>ic_count = 0, ic_key_sum = zero_bytes UTXO_IBLT_KEY_BYTES, ic_checksum_sum = 0\<rparr>"

definition build_iblt :: "hash_fn \<Rightarrow> bytes list \<Rightarrow> nat \<Rightarrow> iblt_cell list res" where
  "build_iblt H change_keys cell_count =
     bnd (require_iblt_cell_count cell_count) (\<lambda>_.
     bnd (ensure (distinct change_keys) DuplicateChangeKeys) (\<lambda>_.
     insert_keys H change_keys (replicate cell_count empty_cell)))"

definition change_key :: "hash_fn \<Rightarrow> bytes \<Rightarrow> bytes \<Rightarrow> bytes" where
  "change_key H prefix_bytes payload = take UTXO_IBLT_KEY_BYTES (hash_bytes H (prefix_bytes @ payload))"

definition change_keys :: "hash_fn \<Rightarrow> remove_record list \<Rightarrow> utxo list \<Rightarrow> bytes list res" where
  "change_keys H removals additions =
     (let keys = map (\<lambda>r. change_key H UTXO_IBLT_REMOVE_DOMAIN (outpoint_to_bytes (rr_outpoint r) @ rr_value_hash r)) removals @
            map (\<lambda>u. change_key H UTXO_IBLT_ADD_DOMAIN (utxo_to_bytes u)) additions in
      bnd (ensure (distinct keys) DuplicateChangeKeys) (\<lambda>_. Inr keys))"

definition encode_iblt_cell :: "iblt_cell \<Rightarrow> bytes res" where
  "encode_iblt_cell cell =
     bnd (ensure (\<not> (ic_count cell < 0 \<or> ic_count cell > int SYNC_U16_MAX)) UTXOReconciliationError) (\<lambda>_.
     bnd (require_iblt_key (ic_key_sum cell)) (\<lambda>_.
     bnd (to_bytes 2 (ic_count cell)) (\<lambda>count.
     bnd (to_bytes 4 (ic_checksum_sum cell)) (\<lambda>checksum_sum.
     Inr (count @ ic_key_sum cell @ checksum_sum)))))"

definition decode_iblt_cell :: "bytes \<Rightarrow> iblt_cell res" where
  "decode_iblt_cell data =
     bnd (ensure (\<not> length data \<noteq> UTXO_IBLT_CELL_BYTES) UTXOReconciliationError) (\<lambda>_.
     Inr \<lparr>ic_count = from_le (take 2 data), ic_key_sum = slice data 2 (2 + UTXO_IBLT_KEY_BYTES),
          ic_checksum_sum = from_le (drop (2 + UTXO_IBLT_KEY_BYTES) data)\<rparr>)"

definition validate_iblt_sketch :: "hash_fn \<Rightarrow> iblt_cell list \<Rightarrow> utxo_diff \<Rightarrow> unit res" where
  "validate_iblt_sketch H cells d =
     bnd (change_keys H (ud_removals d) (ud_additions d)) (\<lambda>keys.
     bnd (peel_iblt H cells) (\<lambda>peeled.
     ensure (peeled = Some (sort keys)) UTXOReconciliationError))"

subsection \<open>The encoding of a difference\<close>

definition require_canonical_records :: "remove_record list \<Rightarrow> utxo list \<Rightarrow> int \<Rightarrow> unit res" where
  "require_canonical_records removals additions max_entries =
     bnd (ensure (\<not> int (length removals + length additions) > max_entries) UTXOReconciliationError) (\<lambda>_.
     let removal_keys = map (\<lambda>r. outpoint_to_bytes (rr_outpoint r)) removals;
         addition_keys = map (\<lambda>u. outpoint_to_bytes (u_outpoint u)) additions in
     bnd (ensure (\<not> (sort removal_keys \<noteq> removal_keys \<or> card (set removal_keys) \<noteq> length removal_keys)) UTXOReconciliationError) (\<lambda>_.
     bnd (ensure (\<not> (sort addition_keys \<noteq> addition_keys \<or> card (set addition_keys) \<noteq> length addition_keys)) UTXOReconciliationError) (\<lambda>_.
     bnd (ensure (set removal_keys \<inter> set addition_keys = {}) UTXOReconciliationError) (\<lambda>_.
     bnd (each (\<lambda>r. require_hash (rr_value_hash r)) removals) (\<lambda>_. Inr ())))))"

definition encode_addition :: "utxo \<Rightarrow> bytes res" where
  "encode_addition u =
     (let utxo_bytes = utxo_to_bytes u in
      bnd (ensure (\<not> length utxo_bytes > MAX_UTXO_DIFF_ADD_BYTES) UTXOReconciliationError) (\<lambda>_.
      bnd (to_bytes 2 (int (length utxo_bytes))) (\<lambda>n. Inr (n @ utxo_bytes))))"

definition seal_diff :: "hash_fn \<Rightarrow> bytes \<Rightarrow> int \<Rightarrow> bytes res" where
  "seal_diff H payload max_bytes =
     (let diff = payload @ diff_checksum H payload in
      bnd (ensure (\<not> int (length diff) > max_bytes) UTXOReconciliationError) (\<lambda>_. Inr diff))"

definition encode_utxo_diff :: "hash_fn \<Rightarrow> utxo_diff \<Rightarrow> int \<Rightarrow> int \<Rightarrow> bytes res" where
  "encode_utxo_diff H d max_entries max_bytes =
     bnd (require_hash (ud_base_root d)) (\<lambda>_.
     bnd (require_hash (ud_target_root d)) (\<lambda>_.
     bnd (require_canonical_records (ud_removals d) (ud_additions d) max_entries) (\<lambda>_.
     bnd (change_keys H (ud_removals d) (ud_additions d)) (\<lambda>keys.
     bnd (canonical_iblt_cell_count (length keys)) (\<lambda>iblt_cell_count.
     bnd (build_iblt H keys iblt_cell_count) (\<lambda>iblt_cells.
     bnd (each encode_iblt_cell iblt_cells) (\<lambda>cells.
     bnd (each encode_addition (ud_additions d)) (\<lambda>adds.
     bnd (to_bytes 4 (int (length (ud_removals d)))) (\<lambda>remove_count.
     bnd (to_bytes 4 (int (length (ud_additions d)))) (\<lambda>add_count.
     bnd (to_bytes 2 (int iblt_cell_count)) (\<lambda>cell_count.
     seal_diff H (UTXO_DIFF_MAGIC @ ud_base_root d @ ud_target_root d @ remove_count @ add_count @ cell_count @
       [of_nat UTXO_IBLT_HASH_COUNT] @ concat cells @
       concat (map (\<lambda>r. outpoint_to_bytes (rr_outpoint r) @ rr_value_hash r) (ud_removals d)) @ concat adds) max_bytes)))))))))))"

definition encode_full_snapshot_diff :: "hash_fn \<Rightarrow> bytes \<Rightarrow> utxo_set \<Rightarrow> int \<Rightarrow> int \<Rightarrow> bytes res" where
  "encode_full_snapshot_diff H base_root target_set max_entries max_bytes =
     (let additions = us_list target_set in
      bnd (require_canonical_records [] additions max_entries) (\<lambda>_.
      bnd (each encode_addition additions) (\<lambda>adds.
      bnd (us_merkle_root H target_set) (\<lambda>(target_root, _).
      bnd (to_bytes 4 (int (length additions))) (\<lambda>add_count.
      seal_diff H (UTXO_DIFF_MAGIC @ base_root @ target_root @ zero_bytes 4 @ add_count @ zero_bytes 2 @ [0] @ concat adds)
        max_bytes)))))"

fun decode_cells :: "nat \<Rightarrow> bytes \<Rightarrow> iblt_cell list \<Rightarrow> (iblt_cell list \<times> bytes) res" where
  "decode_cells 0 rest cells = Inr (cells, rest)"
| "decode_cells (Suc n) rest cells =
     (if length rest < UTXO_IBLT_CELL_BYTES then Inl UTXOReconciliationError
      else bnd (decode_iblt_cell (take UTXO_IBLT_CELL_BYTES rest)) (\<lambda>cell.
           decode_cells n (drop UTXO_IBLT_CELL_BYTES rest) (cells @ [cell])))"

fun decode_removals :: "nat \<Rightarrow> bytes \<Rightarrow> remove_record list \<Rightarrow> (remove_record list \<times> bytes) res" where
  "decode_removals 0 rest removals = Inr (removals, rest)"
| "decode_removals (Suc n) rest removals =
     (if length rest < UTXO_DIFF_REMOVE_ENTRY_BYTES then Inl UTXOReconciliationError
      else bnd (outpoint_from_bytes (take OUTPOINT_BYTES rest)) (\<lambda>op.
           decode_removals n (drop UTXO_DIFF_REMOVE_ENTRY_BYTES rest)
             (removals @ [\<lparr>rr_outpoint = op, rr_value_hash = slice rest OUTPOINT_BYTES UTXO_DIFF_REMOVE_ENTRY_BYTES\<rparr>])))"

fun decode_additions :: "hash_fn \<Rightarrow> nat \<Rightarrow> bytes \<Rightarrow> utxo list \<Rightarrow> (utxo list \<times> bytes) res" where
  "decode_additions H 0 rest additions = Inr (additions, rest)"
| "decode_additions H (Suc n) rest additions =
     (if length rest < 2 then Inl UTXOReconciliationError
      else
        let utxo_len = nat (from_le (take 2 rest)); rest = drop 2 rest in
        if \<not> (UTXO_FIXED_BYTES \<le> utxo_len \<and> utxo_len \<le> MAX_UTXO_DIFF_ADD_BYTES) then Inl UTXOReconciliationError
        else if length rest < utxo_len then Inl UTXOReconciliationError
        else bnd (utxo_from_bytes H (take utxo_len rest) None) (\<lambda>u.
             decode_additions H n (drop utxo_len rest) (additions @ [u])))"

text \<open>\<open>_decode_utxo_diff\<close> after its header: \<open>rest\<close> are the bytes that follow it.\<close>

definition decode_body :: "hash_fn \<Rightarrow> bytes \<Rightarrow> bytes \<Rightarrow> nat \<Rightarrow> nat \<Rightarrow> nat \<Rightarrow> nat \<Rightarrow> bytes \<Rightarrow> int \<Rightarrow> utxo_diff res" where
  "decode_body H base_root target_root remove_count add_count iblt_cell_count iblt_hash_count rest max_entries =
     bnd (ensure (\<not> int (remove_count + add_count) > max_entries) UTXOReconciliationError) (\<lambda>_.
     let full_snapshot = (iblt_cell_count = 0 \<and> iblt_hash_count = 0) in
     bnd (ensure (\<not> (full_snapshot \<and> remove_count \<noteq> 0)) UTXOReconciliationError) (\<lambda>_.
     bnd (ensure (\<not> (\<not> full_snapshot \<and> iblt_hash_count \<noteq> UTXO_IBLT_HASH_COUNT)) UTXOReconciliationError) (\<lambda>_.
     bnd (if full_snapshot then Inr ()
          else bnd (canonical_iblt_cell_count (remove_count + add_count)) (\<lambda>canonical.
               ensure (\<not> iblt_cell_count \<noteq> canonical) UTXOReconciliationError)) (\<lambda>_.
     bnd (if full_snapshot then Inr ([], rest) else decode_cells iblt_cell_count rest []) (\<lambda>(iblt_cells, rest).
     bnd (decode_removals remove_count rest []) (\<lambda>(removals, rest).
     bnd (decode_additions H add_count rest []) (\<lambda>(additions, rest).
     bnd (ensure (rest = []) UTXOReconciliationError) (\<lambda>_.
     let decoded = \<lparr>ud_base_root = base_root, ud_target_root = target_root, ud_removals = removals, ud_additions = additions,
           ud_full_snapshot = full_snapshot\<rparr> in
     bnd (require_canonical_records removals additions max_entries) (\<lambda>_.
     bnd (if full_snapshot then Inr () else validate_iblt_sketch H iblt_cells decoded) (\<lambda>_.
     Inr decoded))))))))))"

definition decode_utxo_diff :: "hash_fn \<Rightarrow> bytes \<Rightarrow> int \<Rightarrow> int \<Rightarrow> utxo_diff res" where
  "decode_utxo_diff H diff max_entries max_bytes =
     bnd (require_diff_limits max_entries max_bytes) (\<lambda>_.
     bnd (ensure (\<not> int (length diff) > max_bytes) UTXOReconciliationError) (\<lambda>_.
     bnd (ensure (\<not> length diff < UTXO_DIFF_FIXED_BYTES) UTXOReconciliationError) (\<lambda>_.
     let payload = take (length diff - HASH_LEN_BYTES) diff; checksum = drop (length diff - HASH_LEN_BYTES) diff in
     bnd (ensure (prefix UTXO_DIFF_MAGIC payload) UTXOReconciliationError) (\<lambda>_.
     bnd (ensure (\<not> checksum \<noteq> diff_checksum H payload) UTXOReconciliationError) (\<lambda>_.
     let o1 = length UTXO_DIFF_MAGIC; o2 = o1 + HASH_LEN_BYTES; o3 = o2 + HASH_LEN_BYTES; o4 = o3 + 4; o5 = o4 + 4; o6 = o5 + 2 in
     decode_body H (slice payload o1 o2) (slice payload o2 o3) (nat (from_le (slice payload o3 o4)))
       (nat (from_le (slice payload o4 o5))) (nat (from_le (slice payload o5 o6))) (unat (payload ! o6))
       (drop (o6 + 1) payload) max_entries)))))"

subsection \<open>Building and applying a difference\<close>

fun diff_removals :: "hash_fn \<Rightarrow> (outpoint, utxo) dict \<Rightarrow> (outpoint \<times> utxo) list \<Rightarrow> remove_record list \<Rightarrow> remove_record list res" where
  "diff_removals H target_by_outpoint [] removals = Inr removals"
| "diff_removals H target_by_outpoint ((op, local_utxo) # rest) removals =
     (case dict_get target_by_outpoint op of
        None \<Rightarrow> diff_removals H target_by_outpoint rest (removals @ [\<lparr>rr_outpoint = op, rr_value_hash = value_hash H local_utxo\<rparr>])
      | Some target_utxo \<Rightarrow>
          if utxo_to_bytes target_utxo \<noteq> utxo_to_bytes local_utxo then Inl UTXOReconciliationError
          else diff_removals H target_by_outpoint rest removals)"

definition build_utxo_diff :: "hash_fn \<Rightarrow> utxo_set \<Rightarrow> utxo_set \<Rightarrow> int \<Rightarrow> int \<Rightarrow> bytes res" where
  "build_utxo_diff H local_set target_set max_entries max_bytes =
     bnd (require_diff_limits max_entries max_bytes) (\<lambda>_.
     let local_by_outpoint = utxos_by_outpoint local_set; target_by_outpoint = utxos_by_outpoint target_set;
         by_outpoint = sort_key (\<lambda>entry. outpoint_to_bytes (fst entry)) in
     bnd (diff_removals H target_by_outpoint (by_outpoint local_by_outpoint) []) (\<lambda>removals.
     let additions = map snd (filter (\<lambda>entry. dict_get local_by_outpoint (fst entry) = None) (by_outpoint target_by_outpoint)) in
     bnd (us_merkle_root H local_set) (\<lambda>(base_root, _).
     bnd (us_merkle_root H target_set) (\<lambda>(target_root, target_set).
     case encode_utxo_diff H \<lparr>ud_base_root = base_root, ud_target_root = target_root, ud_removals = removals,
            ud_additions = additions, ud_full_snapshot = False\<rparr> max_entries max_bytes of
       Inr diff \<Rightarrow> Inr diff
     | Inl e \<Rightarrow> if e \<noteq> DuplicateChangeKeys then Inl e
         else encode_full_snapshot_diff H base_root target_set max_entries max_bytes))))"

definition request_utxo_diff :: "hash_fn \<Rightarrow> bytes \<Rightarrow> (bytes \<Rightarrow> bytes res) \<Rightarrow> int \<Rightarrow> int \<Rightarrow> bytes res" where
  "request_utxo_diff H local_root peer max_entries max_bytes =
     bnd (require_hash local_root) (\<lambda>_.
     bnd (require_diff_limits max_entries max_bytes) (\<lambda>_.
     bnd (peer local_root) (\<lambda>diff.
     bnd (decode_utxo_diff H diff max_entries max_bytes) (\<lambda>decoded.
     bnd (ensure (\<not> ud_base_root decoded \<noteq> local_root) UTXOReconciliationError) (\<lambda>_. Inr diff)))))"

fun apply_removals :: "hash_fn \<Rightarrow> remove_record list \<Rightarrow> utxo_set \<Rightarrow> utxo_set res" where
  "apply_removals H [] S = Inr S"
| "apply_removals H (removal # rest) S =
     (case us_get S (rr_outpoint removal) of
        None \<Rightarrow> Inl UTXOReconciliationError
      | Some existing \<Rightarrow>
          if value_hash H existing \<noteq> rr_value_hash removal then Inl UTXOReconciliationError
          else bnd (us_remove H S (rr_outpoint removal)) (\<lambda>(_, S). apply_removals H rest S))"

fun apply_additions :: "hash_fn \<Rightarrow> utxo list \<Rightarrow> utxo_set \<Rightarrow> utxo_set res" where
  "apply_additions H [] S = Inr S"
| "apply_additions H (u # rest) S =
     (if us_contains S (u_outpoint u) then Inl UTXOReconciliationError
      else bnd (us_add H S u) (\<lambda>S. apply_additions H rest S))"

definition apply_utxo_diff :: "hash_fn \<Rightarrow> utxo_set \<Rightarrow> bytes \<Rightarrow> int \<Rightarrow> int \<Rightarrow> utxo_set res" where
  "apply_utxo_diff H local_set diff max_entries max_bytes =
     bnd (require_diff_limits max_entries max_bytes) (\<lambda>_.
     bnd (decode_utxo_diff H diff max_entries max_bytes) (\<lambda>decoded.
     bnd (us_merkle_root H local_set) (\<lambda>(local_root, local_set).
     bnd (ensure (\<not> local_root \<noteq> ud_base_root decoded) UTXOReconciliationError) (\<lambda>_.
     bnd (if ud_full_snapshot decoded then Inr empty_utxo_set
          else UTXOSet H (map snd (utxos_by_outpoint local_set))) (\<lambda>reconciled.
     bnd (apply_removals H (ud_removals decoded) reconciled) (\<lambda>reconciled.
     bnd (apply_additions H (ud_additions decoded) reconciled) (\<lambda>reconciled.
     bnd (us_merkle_root H reconciled) (\<lambda>(root, reconciled).
     bnd (ensure (\<not> root \<noteq> ud_target_root decoded) UTXOReconciliationError) (\<lambda>_.
     Inr reconciled)))))))))"

section \<open>Specification\<close>

text \<open>The difference between two sets of outputs, the keys of its changes, and the sketches that the receiver can peel.\<close>

definition diff_removed :: "hash_fn \<Rightarrow> utxo_set \<Rightarrow> utxo_set \<Rightarrow> remove_record list" where
  "diff_removed H S T = map (\<lambda>u. \<lparr>rr_outpoint = u_outpoint u, rr_value_hash = value_hash H u\<rparr>)
     (filter (\<lambda>u. us_get T (u_outpoint u) = None) (us_list S))"

definition diff_added :: "utxo_set \<Rightarrow> utxo_set \<Rightarrow> utxo list" where
  "diff_added S T = filter (\<lambda>u. us_get S (u_outpoint u) = None) (us_list T)"

definition record_keys :: "hash_fn \<Rightarrow> remove_record list \<Rightarrow> utxo list \<Rightarrow> bytes list" where
  "record_keys H removals additions =
     map (\<lambda>r. change_key H UTXO_IBLT_REMOVE_DOMAIN (outpoint_to_bytes (rr_outpoint r) @ rr_value_hash r)) removals @
     map (\<lambda>u. change_key H UTXO_IBLT_ADD_DOMAIN (utxo_to_bytes u)) additions"

definition diff_keys :: "hash_fn \<Rightarrow> utxo_set \<Rightarrow> utxo_set \<Rightarrow> bytes list" where
  "diff_keys H S T = record_keys H (diff_removed H S T) (diff_added S T)"

definition placed :: "hash_fn \<Rightarrow> bytes list \<Rightarrow> bool" where
  "placed H keys \<longleftrightarrow> (\<forall>k \<in> set keys. \<exists>ps. iblt_positions H k (length keys * 2 + 3) = Inr ps)"

definition peelable :: "hash_fn \<Rightarrow> bytes list \<Rightarrow> bool" where
  "peelable H keys \<longleftrightarrow> (\<exists>cells. build_iblt H keys (length keys * 2 + 3) = Inr cells \<and> peel_iblt H cells = Inr (Some (sort keys)))"

definition diff_ok :: "utxo_diff \<Rightarrow> bool" where
  "diff_ok d \<longleftrightarrow> length (ud_base_root d) = HASH_LEN_BYTES \<and> length (ud_target_root d) = HASH_LEN_BYTES \<and>
     (\<forall>r \<in> set (ud_removals d). outpoint_ok (rr_outpoint r) \<and> length (rr_value_hash r) = HASH_LEN_BYTES) \<and>
     (\<forall>u \<in> set (ud_additions d). utxo_ok u)"

definition diff_between :: "hash_fn \<Rightarrow> utxo_set \<Rightarrow> utxo_set \<Rightarrow> utxo_diff" where
  "diff_between H S T = \<lparr>ud_base_root = utxo_root H S, ud_target_root = utxo_root H T, ud_removals = diff_removed H S T,
     ud_additions = diff_added S T, ud_full_snapshot = False\<rparr>"

text \<open>Cells that fit their encoding, and a cell after one more key.\<close>

definition cell_ok :: "iblt_cell \<Rightarrow> bool" where
  "cell_ok c \<longleftrightarrow> length (ic_key_sum c) = UTXO_IBLT_KEY_BYTES \<and> 0 \<le> ic_checksum_sum c \<and> ic_checksum_sum c < 256 ^ 4"

definition bump :: "bytes \<Rightarrow> int \<Rightarrow> int \<Rightarrow> iblt_cell \<Rightarrow> iblt_cell" where
  "bump key checksum delta c = \<lparr>ic_count = ic_count c + delta, ic_key_sum = map2 (\<lambda>l r. l XOR r) (ic_key_sum c) key,
     ic_checksum_sum = ic_checksum_sum c XOR checksum\<rparr>"

text \<open>An example: a digest that is the end of its argument, read backwards, and sets of one and of two outputs.\<close>

definition rev_hash :: hash_fn where
  "rev_hash x = take HASH_LEN_BYTES (rev x @ zero_bytes HASH_LEN_BYTES)"

definition sync_utxo :: "int \<Rightarrow> byte \<Rightarrow> utxo" where
  "sync_utxo i b = \<lparr>u_outpoint = \<lparr>op_tx_id = zero_bytes 32, op_output_index = i\<rparr>, u_amount_matoms = 5, u_template_id = 0,
     u_owner_pubkey_hash = zero_bytes 32, u_locktime_ms = 0, u_lockheight = 0, u_payload = zero_bytes 7 @ [b]\<rparr>"

definition sync_set :: "utxo list \<Rightarrow> utxo_set" where
  "sync_set us = (case UTXOSet rev_hash us of Inr S \<Rightarrow> S | Inl _ \<Rightarrow> empty_utxo_set)"

section \<open>Lemmas\<close>

subsection \<open>The outputs of a set as a list\<close>

lemma us_list_facts:
  assumes "utxo_set_ok H S"
  shows "u \<in> set (us_list S) \<longleftrightarrow> us_get S (u_outpoint u) = Some u" "distinct (map u_outpoint (us_list S))"
    "sorted (map (\<lambda>u. outpoint_to_bytes (u_outpoint u)) (us_list S))" "u \<in> set (us_list S) \<Longrightarrow> utxo_ok u"
proof -
  have I: "utxo_index_ok H S" using assms by (simp add: utxo_set_ok_def)
  note D = utxo_index_D [OF I]
  show el: "u \<in> set (us_list S) \<longleftrightarrow> us_get S (u_outpoint u) = Some u" for u
  proof
    assume "u \<in> set (us_list S)"
    then obtain op where "(op, u) \<in> set (us_utxos S)" by (auto simp: us_list_def)
    then have "dict_get (us_utxos S) op = Some u" using map_of_is_SomeI [OF D(1)] by simp
    then show "us_get S (u_outpoint u) = Some u" using D(2) by (simp add: us_get_def)
  next
    assume "us_get S (u_outpoint u) = Some u"
    then have "(u_outpoint u, u) \<in> set (us_utxos S)" by (simp add: us_get_def map_of_SomeD)
    then show "u \<in> set (us_list S)" by (force simp: us_list_def)
  qed
  then show "u \<in> set (us_list S) \<Longrightarrow> utxo_ok u" using D(3) by (auto simp: us_get_def)
  have "map u_outpoint (map snd (us_utxos S)) = map fst (us_utxos S)" using D(1,2) by (auto intro!: map_cong)
  then have "distinct (map u_outpoint (map snd (us_utxos S)))" using D(1) by (simp only:)
  moreover have "mset (map u_outpoint (us_list S)) = mset (map u_outpoint (map snd (us_utxos S)))" by (simp only: us_list_def mset_map mset_sort)
  ultimately show "distinct (map u_outpoint (us_list S))" by (metis mset_eq_imp_distinct_iff)
  show "sorted (map (\<lambda>u. outpoint_to_bytes (u_outpoint u)) (us_list S))" by (simp add: us_list_def)
qed

lemma fold_dict_set_append:
  "distinct (map f us) \<Longrightarrow> \<forall>u \<in> set us. f u \<notin> fst ` set d \<Longrightarrow> fold (\<lambda>u. dict_set (f u) u) us d = d @ map (\<lambda>u. (f u, u)) us"
proof (induction us arbitrary: d)
  case (Cons u us)
  have "AList.update k v d = d @ [(k, v)]" if "k \<notin> fst ` set d" for k v using that by (induction d) auto
  then have "dict_set (f u) u d = d @ [(f u, u)]" using Cons.prems(2) by simp
  moreover have "\<forall>x \<in> set us. f x \<notin> fst ` set (d @ [(f u, u)])" using Cons.prems by (force simp: image_iff)
  ultimately show ?case using Cons.IH [of "d @ [(f u, u)]"] Cons.prems(1) by simp
qed simp

lemma by_outpoint_eq:
  assumes "utxo_set_ok H S"
  shows "utxos_by_outpoint S = map (\<lambda>u. (u_outpoint u, u)) (us_list S)"
    "sort_key (\<lambda>entry. outpoint_to_bytes (fst entry)) (utxos_by_outpoint S) = map (\<lambda>u. (u_outpoint u, u)) (us_list S)"
    "dict_get (utxos_by_outpoint S) = us_get S" "map snd (utxos_by_outpoint S) = us_list S"
proof -
  show m: "utxos_by_outpoint S = map (\<lambda>u. (u_outpoint u, u)) (us_list S)"
    using fold_dict_set_append [OF us_list_facts(2) [OF assms], of "[]"] by (simp add: utxos_by_outpoint_def)
  show "sort_key (\<lambda>entry. outpoint_to_bytes (fst entry)) (utxos_by_outpoint S) = map (\<lambda>u. (u_outpoint u, u)) (us_list S)"
    unfolding m using us_list_facts(3) [OF assms] by (intro sort_key_id_if_sorted) (simp add: comp_def)
  show "map snd (utxos_by_outpoint S) = us_list S" by (simp add: m comp_def)
  show "dict_get (utxos_by_outpoint S) = us_get S"
  proof
    fix op
    have "map_of (map (\<lambda>u. (u_outpoint u, u)) (us_list S)) op = Some u \<longleftrightarrow> us_get S op = Some u" for u
      using us_list_facts(1,2) [OF assms] utxos.content_ok [OF assms, of op u] by (auto simp: comp_def image_iff)
    then show "dict_get (utxos_by_outpoint S) op = us_get S op" unfolding m by (metis not_None_eq)
  qed
qed

lemma diff_removals_eq:
  assumes "\<forall>u \<in> set us. \<forall>v. dict_get D (u_outpoint u) = Some v \<longrightarrow> v = u"
  shows "diff_removals H D (map (\<lambda>u. (u_outpoint u, u)) us) acc =
    Inr (acc @ map (\<lambda>u. \<lparr>rr_outpoint = u_outpoint u, rr_value_hash = value_hash H u\<rparr>) (filter (\<lambda>u. dict_get D (u_outpoint u) = None) us))"
  using assms
proof (induction us arbitrary: acc)
  case (Cons u us)
  then show ?case by (cases "dict_get D (u_outpoint u)") simp_all
qed simp

lemma diff_removals_conflict:
  assumes "diff_removals H D (map (\<lambda>u. (u_outpoint u, u)) us) acc = Inr rs" "\<forall>u \<in> set us. utxo_ok u"
    "\<forall>op v. dict_get D op = Some v \<longrightarrow> utxo_ok v"
  shows "\<forall>u \<in> set us. \<forall>v. dict_get D (u_outpoint u) = Some v \<longrightarrow> v = u"
  using assms(1,2)
proof (induction us arbitrary: acc)
  case (Cons u us)
  have dec: "utxo_from_bytes H (utxo_to_bytes v) None = Inr v" if "utxo_ok v" for v using utxo_from_to_bytes [OF that, of H None] by simp
  have inj: "v = u" if "utxo_to_bytes v = utxo_to_bytes u" "utxo_ok v" "utxo_ok u" for v
    using dec [OF that(2)] dec [OF that(3)] unfolding that(1) by simp
  show ?case
  proof (cases "dict_get D (u_outpoint u)")
    case None
    then show ?thesis using Cons.IH Cons.prems by auto
  next
    case (Some v)
    have same: "utxo_to_bytes v = utxo_to_bytes u" and rest: "diff_removals H D (map (\<lambda>u. (u_outpoint u, u)) us) acc = Inr rs"
      using Cons.prems(1) Some by (simp_all split: if_split_asm)
    have "v = u" using inj [OF same] assms(3) Some Cons.prems(2) by simp
    then show ?thesis using Cons.IH [OF rest] Cons.prems(2) Some by simp
  qed
qed simp

subsection \<open>The encoding\<close>

lemma require_iblt_key_Inr [simp]: "require_iblt_key k = Inr k' \<longleftrightarrow> length k = 8 \<and> k' = k"
  by (auto simp: require_iblt_key_def bnd_Inr_iff UTXO_IBLT_KEY_BYTES_def)

lemma to_bytes_Inr: "to_bytes n v = Inr bs \<longleftrightarrow> 0 \<le> v \<and> v < 256 ^ n \<and> bs = le_bytes n v"
  by (auto simp: to_bytes_def)

lemma cell_roundtrip:
  assumes "encode_iblt_cell c = Inr bs"
  shows "length bs = UTXO_IBLT_CELL_BYTES" "decode_iblt_cell bs = Inr c"
proof -
  have bs: "length (ic_key_sum c) = 8" "0 \<le> ic_count c" "ic_count c < 256 ^ 2" "0 \<le> ic_checksum_sum c" "ic_checksum_sum c < 256 ^ 4"
    "bs = le_bytes 2 (ic_count c) @ ic_key_sum c @ le_bytes 4 (ic_checksum_sum c)"
    using assms by (auto simp: encode_iblt_cell_def bnd_Inr_iff to_bytes_Inr)
  show len: "length bs = UTXO_IBLT_CELL_BYTES" by (simp add: bs(1,6) UTXO_IBLT_CELL_BYTES_def UTXO_IBLT_KEY_BYTES_def)
  show "decode_iblt_cell bs = Inr c"
    using len bs(1-5) by (cases c) (simp add: decode_iblt_cell_def bs(6) slice_def UTXO_IBLT_KEY_BYTES_def UTXO_IBLT_CELL_BYTES_def from_le_bytes)
qed

lemma decode_cells_eq:
  "each encode_iblt_cell cells = Inr css \<Longrightarrow> decode_cells (length cells) (concat css @ rest) acc = Inr (acc @ cells, rest)"
proof (induction cells arbitrary: css acc)
  case (Cons c cells)
  then obtain bs css' where css: "css = bs # css'" "encode_iblt_cell c = Inr bs" "each encode_iblt_cell cells = Inr css'"
    by (auto simp: bnd_Inr_iff)
  note r = cell_roundtrip [OF css(2)]
  show ?case using Cons.IH [OF css(3), of "acc @ [c]"] by (simp add: css(1) r)
qed simp

lemma decode_removals_eq:
  assumes "\<forall>r \<in> set rs. outpoint_ok (rr_outpoint r) \<and> length (rr_value_hash r) = HASH_LEN_BYTES"
  shows "decode_removals (length rs) (concat (map (\<lambda>r. outpoint_to_bytes (rr_outpoint r) @ rr_value_hash r) rs) @ rest) acc = Inr (acc @ rs, rest)"
  using assms
proof (induction rs arbitrary: acc)
  case (Cons r rs)
  have r: "outpoint_ok (rr_outpoint r)" "length (rr_value_hash r) = HASH_LEN_BYTES" using Cons.prems by simp_all
  have len: "length (outpoint_to_bytes (rr_outpoint r)) = OUTPOINT_BYTES"
    using r(1) by (simp add: outpoint_to_bytes_def outpoint_ok_def OUTPOINT_BYTES_def)
  have eta: "\<lparr>rr_outpoint = rr_outpoint r, rr_value_hash = rr_value_hash r\<rparr> = r" by (cases r) simp
  show ?case
    using Cons.IH [of "acc @ [r]"] Cons.prems
    by (simp add: len r(2) eta UTXO_DIFF_REMOVE_ENTRY_BYTES_def outpoint_from_to_bytes [OF r(1)] slice_def)
qed simp

lemma utxo_bytes_length:
  "utxo_ok u \<Longrightarrow> UTXO_FIXED_BYTES \<le> length (utxo_to_bytes u) \<and> length (utxo_to_bytes u) \<le> MAX_UTXO_DIFF_ADD_BYTES"
  by (auto simp: utxo_ok_def utxo_to_bytes_def outpoint_to_bytes_def outpoint_ok_def MAX_UTXO_DIFF_ADD_BYTES_def UTXO_FIXED_BYTES_def
      OUTPOINT_BYTES_def)

lemma add_limit: "MAX_UTXO_DIFF_ADD_BYTES < 65536"
  by (simp add: MAX_UTXO_DIFF_ADD_BYTES_def UTXO_FIXED_BYTES_def OUTPOINT_BYTES_def TX_OUTPUT_PAYLOAD_MAX_BYTES_def HASH_LEN_BYTES_def
      U16_BYTES_def U32_BYTES_def U64_BYTES_def)

lemma encode_addition_eq: "utxo_ok u \<Longrightarrow> encode_addition u = Inr (le_bytes 2 (int (length (utxo_to_bytes u))) @ utxo_to_bytes u)"
  using utxo_bytes_length [of u] add_limit by (simp add: encode_addition_def Let_def to_bytes_ok)

lemma encode_additions_eq:
  "\<forall>u \<in> set us. utxo_ok u \<Longrightarrow> each encode_addition us = Inr (map (\<lambda>u. le_bytes 2 (int (length (utxo_to_bytes u))) @ utxo_to_bytes u) us)"
  by (rule each_Inr_all) (simp add: encode_addition_eq)

lemma decode_additions_eq:
  assumes "\<forall>u \<in> set us. utxo_ok u"
  shows "decode_additions H (length us) (concat (map (\<lambda>u. le_bytes 2 (int (length (utxo_to_bytes u))) @ utxo_to_bytes u) us) @ rest) acc =
    Inr (acc @ us, rest)"
  using assms
proof (induction us arbitrary: acc)
  case (Cons u us)
  have u: "utxo_ok u" using Cons.prems by simp
  note len = utxo_bytes_length [OF u]
  have "from_le (le_bytes 2 (int (length (utxo_to_bytes u)))) = int (length (utxo_to_bytes u))"
    using len add_limit by (intro from_le_bytes) auto
  moreover have "utxo_from_bytes H (utxo_to_bytes u) None = Inr u" using utxo_from_to_bytes [OF u, of H None] by simp
  ultimately show ?case using Cons.IH [of "acc @ [u]"] Cons.prems len by simp
qed simp

lemma decode_sealed:
  assumes H: "digest_ok H" and lim: "require_diff_limits me mb = Inr ()"
    and len: "length b = HASH_LEN_BYTES" "length t = HASH_LEN_BYTES" "rc < 256 ^ 4" "ac < 256 ^ 4" "cc < 256 ^ 2"
    and s: "seal_diff H (UTXO_DIFF_MAGIC @ b @ t @ le_bytes 4 (int rc) @ le_bytes 4 (int ac) @ le_bytes 2 (int cc) @ [hc] @ body) mb = Inr diff"
  shows "decode_utxo_diff H diff me mb = decode_body H b t rc ac cc (unat hc) body me"
proof -
  let ?p = "UTXO_DIFF_MAGIC @ b @ t @ le_bytes 4 (int rc) @ le_bytes 4 (int ac) @ le_bytes 2 (int cc) @ [hc] @ body"
  have m: "length UTXO_DIFF_MAGIC = 8" by (simp add: UTXO_DIFF_MAGIC_def ascii_def)
  have diff: "diff = ?p @ diff_checksum H ?p" "\<not> int (length diff) > mb" using s by (auto simp: seal_diff_def Let_def bnd_Inr_iff)
  have cl: "length (diff_checksum H ?p) = HASH_LEN_BYTES" using H by (simp add: diff_checksum_def hash_bytes_def digest_ok_def)
  have split: "take (length diff - HASH_LEN_BYTES) diff = ?p" "drop (length diff - HASH_LEN_BYTES) diff = diff_checksum H ?p"
    using cl unfolding diff(1) by simp_all
  have long: "\<not> length diff < UTXO_DIFF_FIXED_BYTES"
    unfolding diff(1) using len cl m by (simp add: UTXO_DIFF_FIXED_BYTES_def UTXO_DIFF_HEADER_BYTES_def)
  have dec: "from_le (le_bytes 4 (int rc)) = int rc" "from_le (le_bytes 4 (int ac)) = int ac" "from_le (le_bytes 2 (int cc)) = int cc"
    using len by (intro from_le_bytes; simp)+
  have h: "HASH_LEN_BYTES = 32" by (simp add: HASH_LEN_BYTES_def)
  have sl: "slice ?p 8 40 = b" "slice ?p 40 72 = t" "slice ?p 72 76 = le_bytes 4 (int rc)" "slice ?p 76 80 = le_bytes 4 (int ac)"
    "slice ?p 80 82 = le_bytes 2 (int cc)" "?p ! 82 = hc" "drop 83 ?p = body"
    using len(1,2) m by (simp_all add: slice_def h nth_append)
  show ?thesis
    unfolding decode_utxo_diff_def Let_def split
    using lim diff(2) long len(1,2) m by (simp only: m h) (simp add: sl [unfolded append.simps] dec h m)
qed

lemma update_cells_length: "update_cells key cs delta ps cells = Inr cells' \<Longrightarrow> length cells' = length cells"
  by (induction ps arbitrary: cells) (auto simp: bnd_Inr_iff)

lemma apply_key_length: "apply_iblt_key H cells key delta = Inr cells' \<Longrightarrow> length cells' = length cells"
  by (auto simp: apply_iblt_key_def bnd_Inr_iff update_cells_length)

lemma insert_keys_length: "insert_keys H keys cells = Inr cells' \<Longrightarrow> length cells' = length cells"
  by (induction keys arbitrary: cells) (auto simp: bnd_Inr_iff apply_key_length)

lemma cell_count_eq: "canonical_iblt_cell_count n = (if n * 2 + 3 > 65535 then Inl UTXOReconciliationError else Inr (n * 2 + 3))"
  by (simp add: canonical_iblt_cell_count_def Let_def UTXO_IBLT_MIN_CELLS_def UTXO_IBLT_HASH_COUNT_def SYNC_U16_MAX_def ensure_def max_def)

lemma limits_Inr: "require_diff_limits me mb = Inr () \<longleftrightarrow> 0 < me \<and> me \<le> 32766 \<and> 0 < mb"
  by (auto simp: require_diff_limits_def bnd_Inr_iff MAX_UTXO_DIFF_IBLT_ENTRIES_def SYNC_U16_MAX_def UTXO_IBLT_HASH_COUNT_def)

lemma change_keys_eq: "change_keys H rs us = (if distinct (record_keys H rs us) then Inr (record_keys H rs us) else Inl DuplicateChangeKeys)"
  by (simp add: change_keys_def record_keys_def Let_def ensure_def)

lemma length_record_keys [simp]: "length (record_keys H rs us) = length rs + length us"
  by (simp add: record_keys_def)

lemma decode_encoded:
  assumes H: "digest_ok H" and lim: "require_diff_limits me mb = Inr ()" and d: "diff_ok d" "\<not> ud_full_snapshot d"
    and e: "encode_utxo_diff H d me mb = Inr diff"
  defines "keys \<equiv> record_keys H (ud_removals d) (ud_additions d)"
  shows "distinct keys \<and> (\<exists>cells. build_iblt H keys (length keys * 2 + 3) = Inr cells \<and>
    decode_utxo_diff H diff me mb = bnd (peel_iblt H cells) (\<lambda>peeled. bnd (ensure (peeled = Some (sort keys)) UTXOReconciliationError) (\<lambda>_. Inr d)))"
proof -
  let ?n = "length (ud_removals d) + length (ud_additions d)"
  obtain keys' cc cells css where s: "require_canonical_records (ud_removals d) (ud_additions d) me = Inr ()"
    "change_keys H (ud_removals d) (ud_additions d) = Inr keys'" "canonical_iblt_cell_count (length keys') = Inr cc"
    "build_iblt H keys' cc = Inr cells" "each encode_iblt_cell cells = Inr css"
    using e by (auto simp: encode_utxo_diff_def bnd_Inr_iff)
  have keys: "keys' = keys" "distinct keys" using s(2) by (auto simp: change_keys_eq keys_def split: if_splits)
  have cc: "cc = ?n * 2 + 3" "cc < 65536" using s(3) by (auto simp: cell_count_eq keys(1) keys_def split: if_splits)
  have n: "int ?n \<le> me" "?n < 65536" using s(1) lim by (auto simp: require_canonical_records_def bnd_Inr_iff limits_Inr)
  have ok: "length (ud_base_root d) = HASH_LEN_BYTES" "length (ud_target_root d) = HASH_LEN_BYTES"
    "\<forall>r \<in> set (ud_removals d). outpoint_ok (rr_outpoint r) \<and> length (rr_value_hash r) = HASH_LEN_BYTES"
    "\<forall>u \<in> set (ud_additions d). utxo_ok u" using d(1) by (auto simp: diff_ok_def)
  let ?body = "concat css @ concat (map (\<lambda>r. outpoint_to_bytes (rr_outpoint r) @ rr_value_hash r) (ud_removals d)) @
    concat (map (\<lambda>u. le_bytes 2 (int (length (utxo_to_bytes u))) @ utxo_to_bytes u) (ud_additions d))"
  have cs: "length cells = cc" using insert_keys_length s(4) by (auto simp: build_iblt_def bnd_Inr_iff)
  have sealed: "seal_diff H (UTXO_DIFF_MAGIC @ ud_base_root d @ ud_target_root d @ le_bytes 4 (int (length (ud_removals d))) @
      le_bytes 4 (int (length (ud_additions d))) @ le_bytes 2 (int cc) @ [of_nat UTXO_IBLT_HASH_COUNT] @ ?body) mb = Inr diff"
    using e s ok(1,2) encode_additions_eq [OF ok(4)] cc n
    by (simp add: encode_utxo_diff_def bnd_require_hash_len to_bytes_ok keys(1) keys_def)
  have eta: "\<lparr>ud_base_root = ud_base_root d, ud_target_root = ud_target_root d, ud_removals = ud_removals d, ud_additions = ud_additions d,
      ud_full_snapshot = False\<rparr> = d" using d(2) by (cases d) simp
  have "decode_utxo_diff H diff me mb = decode_body H (ud_base_root d) (ud_target_root d) (length (ud_removals d)) (length (ud_additions d))
      cc (unat (of_nat UTXO_IBLT_HASH_COUNT :: byte)) ?body me"
    using n cc by (intro decode_sealed [OF H lim ok(1,2) _ _ _ sealed]) auto
  also have "unat (of_nat UTXO_IBLT_HASH_COUNT :: byte) = UTXO_IBLT_HASH_COUNT" by (simp add: UTXO_IBLT_HASH_COUNT_def)
  also have "decode_body H (ud_base_root d) (ud_target_root d) (length (ud_removals d)) (length (ud_additions d)) cc UTXO_IBLT_HASH_COUNT ?body me =
      bnd (validate_iblt_sketch H cells d) (\<lambda>_. Inr d)"
    using n(1) cc decode_cells_eq [OF s(5), of _ "[]"] decode_removals_eq [OF ok(3), of _ "[]"] decode_additions_eq [OF ok(4), of H "[]" "[]"] s(1)
    by (simp add: decode_body_def Let_def cell_count_eq cs [symmetric] UTXO_IBLT_HASH_COUNT_def eta)
  finally show ?thesis using s(4) keys(2) cc(1)
    by (auto simp: validate_iblt_sketch_def change_keys_eq keys_def [symmetric] keys(1) bnd_assoc) (simp_all add: keys_def)
qed

lemma canonical_Inr:
  "require_canonical_records rs us me = Inr () \<longleftrightarrow> int (length rs + length us) \<le> me \<and>
    sorted (map (\<lambda>r. outpoint_to_bytes (rr_outpoint r)) rs) \<and> distinct (map (\<lambda>r. outpoint_to_bytes (rr_outpoint r)) rs) \<and>
    sorted (map (\<lambda>u. outpoint_to_bytes (u_outpoint u)) us) \<and> distinct (map (\<lambda>u. outpoint_to_bytes (u_outpoint u)) us) \<and>
    (\<forall>r \<in> set rs. \<forall>u \<in> set us. outpoint_to_bytes (rr_outpoint r) \<noteq> outpoint_to_bytes (u_outpoint u)) \<and>
    (\<forall>r \<in> set rs. length (rr_value_hash r) = HASH_LEN_BYTES)"
proof -
  have s: "sort xs = xs \<longleftrightarrow> sorted xs" for xs :: "bytes list" by (metis sorted_sort sorted_sort_id)
  have c: "card (set xs) = length xs \<longleftrightarrow> distinct xs" for xs :: "bytes list" by (metis card_distinct distinct_card)
  have e: "(\<exists>ys. each (\<lambda>r. require_hash (rr_value_hash r)) rs = Inr ys) \<longleftrightarrow> (\<forall>r \<in> set rs. length (rr_value_hash r) = HASH_LEN_BYTES)"
    by (induction rs) (auto simp: bnd_Inr_iff require_hash_len_def)
  show ?thesis unfolding require_canonical_records_def Let_def bnd_Inr_iff ensure_Inr_iff s c using e by auto
qed

lemma decode_snapshot:
  assumes H: "digest_ok H" and lim: "require_diff_limits me mb = Inr ()" and b: "length b = HASH_LEN_BYTES"
    and T: "utxo_set_ok H T" and e: "encode_full_snapshot_diff H b T me mb = Inr diff"
  shows "decode_utxo_diff H diff me mb = Inr \<lparr>ud_base_root = b, ud_target_root = utxo_root H T, ud_removals = [], ud_additions = us_list T,
    ud_full_snapshot = True\<rparr>"
proof -
  obtain T' where T': "us_merkle_root H T = Inr (utxo_root H T, T')" by (rule us_merkle_root_eq [OF T H])
  have can: "require_canonical_records [] (us_list T) me = Inr ()" using e by (auto simp: encode_full_snapshot_diff_def bnd_Inr_iff Let_def)
  have n: "int (length (us_list T)) \<le> me" "length (us_list T) < 65536" using can lim by (auto simp: canonical_Inr limits_Inr)
  have ok: "\<forall>u \<in> set (us_list T). utxo_ok u" using us_list_facts(4) [OF T] by blast
  have z: "zero_bytes 4 = le_bytes 4 0" "zero_bytes 2 = le_bytes 2 0" by (simp_all add: zero_bytes_def eval_nat_numeral)
  let ?body = "concat (map (\<lambda>u. le_bytes 2 (int (length (utxo_to_bytes u))) @ utxo_to_bytes u) (us_list T))"
  have "seal_diff H (UTXO_DIFF_MAGIC @ b @ utxo_root H T @ le_bytes 4 (int 0) @ le_bytes 4 (int (length (us_list T))) @ le_bytes 2 (int 0) @
      [0] @ ?body) mb = Inr diff"
    using e can n by (simp add: encode_full_snapshot_diff_def Let_def encode_additions_eq [OF ok] T' to_bytes_ok z)
  then have "decode_utxo_diff H diff me mb = decode_body H b (utxo_root H T) 0 (length (us_list T)) 0 (unat (0 :: byte)) ?body me"
    using n by (intro decode_sealed [OF H lim b utxo_root_length [OF H]]) auto
  then show ?thesis using n can decode_additions_eq [OF ok, of H "[]" "[]"] by (simp add: decode_body_def Let_def)
qed

subsection \<open>Applying a difference\<close>

lemma apply_removals_step:
  "apply_removals H rs S = Inr S' \<Longrightarrow> utxo_set_ok H S \<Longrightarrow>
   utxo_set_ok H S' \<and> us_get S' = us_get S |` (- rr_outpoint ` set rs) \<and>
   (\<forall>r \<in> set rs. \<exists>u. us_get S (rr_outpoint r) = Some u \<and> rr_value_hash r = value_hash H u)"
proof (induction rs arbitrary: S)
  case (Cons r rs)
  obtain u where u: "us_get S (rr_outpoint r) = Some u" "value_hash H u = rr_value_hash r"
    using Cons.prems(1) by (auto split: option.splits if_splits)
  obtain S1 where S1: "us_remove H S (rr_outpoint r) = Inr (u, S1)" "utxo_set_ok H S1" "us_get S1 = (us_get S)(rr_outpoint r := None)"
    using utxos.remove_ok [OF Cons.prems(2) u(1)] by blast
  have rest: "apply_removals H rs S1 = Inr S'" using Cons.prems(1) u S1(1) by simp
  note ih = Cons.IH [OF rest S1(2)]
  have "us_get S' = us_get S |` (- rr_outpoint ` set (r # rs))" using ih unfolding S1(3) by (auto simp: restrict_map_def fun_eq_iff)
  moreover have "\<exists>u. us_get S (rr_outpoint x) = Some u \<and> rr_value_hash x = value_hash H u" if "x \<in> set rs" for x
    using ih that unfolding S1(3) by (auto split: if_splits)
  ultimately show ?case using ih u by auto
qed (simp add: restrict_map_def fun_eq_iff)

lemma apply_removals_total:
  "utxo_set_ok H S \<Longrightarrow> distinct (map rr_outpoint rs) \<Longrightarrow>
   \<forall>r \<in> set rs. \<exists>u. us_get S (rr_outpoint r) = Some u \<and> rr_value_hash r = value_hash H u \<Longrightarrow> \<exists>S'. apply_removals H rs S = Inr S'"
proof (induction rs arbitrary: S)
  case (Cons r rs)
  obtain u where u: "us_get S (rr_outpoint r) = Some u" "value_hash H u = rr_value_hash r" using Cons.prems(3) by auto
  obtain S1 where S1: "us_remove H S (rr_outpoint r) = Inr (u, S1)" "utxo_set_ok H S1" "us_get S1 = (us_get S)(rr_outpoint r := None)"
    using utxos.remove_ok [OF Cons.prems(1) u(1)] by blast
  have "\<exists>u. us_get S1 (rr_outpoint x) = Some u \<and> rr_value_hash x = value_hash H u" if "x \<in> set rs" for x
    using Cons.prems(2,3) that unfolding S1(3) by (auto simp: image_iff)
  then show ?case using Cons.IH [OF S1(2)] Cons.prems(2) u S1(1) by simp
qed simp

lemma apply_additions_add: "apply_additions H us S = Inr S' \<Longrightarrow> add_utxos H us S = Inr S'"
  by (induction us arbitrary: S) (auto simp: bnd_Inr_iff split: if_splits)

lemma apply_additions_eq:
  "add_utxos H us S = Inr S' \<Longrightarrow> utxo_set_ok H S \<Longrightarrow> \<forall>u \<in> set us. utxo_ok u \<Longrightarrow> apply_additions H us S = Inr S'"
proof (induction us arbitrary: S)
  case (Cons u us)
  obtain S1 where S1: "us_add H S u = Inr S1" "add_utxos H us S1 = Inr S'" using Cons.prems(1) by (auto simp: bnd_Inr_iff)
  have "us_get S (u_outpoint u) = None" by (rule utxos.add_fresh [OF Cons.prems(2) S1(1)])
  moreover have "utxo_set_ok H S1" using utxos.add_ok [OF Cons.prems(2) _ S1(1)] Cons.prems(3) by simp
  ultimately show ?case using Cons.IH [OF S1(2)] Cons.prems(3) S1(1) by (simp add: us_contains_def us_get_def)
qed simp

lemma decode_additions_ok:
  "decode_additions H n rest acc = Inr (us, rest') \<Longrightarrow> \<forall>u \<in> set acc. utxo_ok u \<Longrightarrow> \<forall>u \<in> set us. utxo_ok u"
proof (induction n arbitrary: rest acc)
  case (Suc n)
  obtain len u where u: "utxo_from_bytes H (take len (drop 2 rest)) None = Inr u"
    "decode_additions H n (drop len (drop 2 rest)) (acc @ [u]) = Inr (us, rest')"
    using Suc.prems(1) by (auto simp: Let_def bnd_Inr_iff split: if_splits)
  then show ?case using Suc.IH [OF u(2)] Suc.prems(2) utxo_to_from_bytes [OF u(1)] by auto
qed simp

lemma decoded_facts:
  assumes "decode_utxo_diff H diff me mb = Inr d"
  shows "\<forall>u \<in> set (ud_additions d). utxo_ok u" "require_canonical_records (ud_removals d) (ud_additions d) me = Inr ()"
    "ud_full_snapshot d \<Longrightarrow> ud_removals d = []"
    "\<not> ud_full_snapshot d \<Longrightarrow> distinct (record_keys H (ud_removals d) (ud_additions d))"
proof -
  obtain b t rc ac cc hc body where d: "decode_body H b t rc ac cc hc body me = Inr d"
    using assms unfolding decode_utxo_diff_def Let_def bnd_Inr_iff by blast
  then show "\<forall>u \<in> set (ud_additions d). utxo_ok u"
    using decode_additions_ok [where acc = "[]"] by (fastforce simp: decode_body_def Let_def bnd_Inr_iff)
  show "require_canonical_records (ud_removals d) (ud_additions d) me = Inr ()"
    using d by (auto simp: decode_body_def Let_def bnd_Inr_iff)
  show "ud_full_snapshot d \<Longrightarrow> ud_removals d = []" using d by (auto simp: decode_body_def Let_def bnd_Inr_iff)
  show "\<not> ud_full_snapshot d \<Longrightarrow> distinct (record_keys H (ud_removals d) (ud_additions d))"
    using d by (auto simp: decode_body_def Let_def bnd_Inr_iff validate_iblt_sketch_def change_keys_eq split: if_splits)
qed

text \<open>What the set is after a difference: the outputs that stay, and the added ones.\<close>

lemma apply_diff_steps:
  assumes H: "digest_ok H" and S: "utxo_set_ok H S" and a: "apply_utxo_diff H S diff me mb = Inr S'"
  shows "\<exists>d. decode_utxo_diff H diff me mb = Inr d \<and> ud_base_root d = utxo_root H S \<and> ud_target_root d = utxo_root H S' \<and> utxo_set_ok H S' \<and>
    us_get S' = (if ud_full_snapshot d then Map.empty else us_get S |` (- rr_outpoint ` set (ud_removals d))) ++
      map_of (map (\<lambda>u. (u_outpoint u, u)) (ud_additions d)) \<and>
    (\<forall>r \<in> set (ud_removals d). \<exists>u. us_get S (rr_outpoint r) = Some u \<and> rr_value_hash r = value_hash H u)"
proof -
  obtain S0 where S0: "us_merkle_root H S = Inr (utxo_root H S, S0)" "utxo_set_ok H S0" "us_utxos S0 = us_utxos S"
    by (rule us_merkle_root_eq [OF S H])
  obtain d R R1 R2 root where s: "decode_utxo_diff H diff me mb = Inr d" "utxo_root H S = ud_base_root d"
    "(if ud_full_snapshot d then Inr empty_utxo_set else UTXOSet H (map snd (utxos_by_outpoint S0))) = Inr R"
    "apply_removals H (ud_removals d) R = Inr R1" "apply_additions H (ud_additions d) R1 = Inr R2"
    "us_merkle_root H R2 = Inr (root, S')" "root = ud_target_root d"
    using a S0(1) by (auto simp: apply_utxo_diff_def bnd_Inr_iff split: prod.splits)
  note D = decoded_facts [OF s(1)]
  have get0: "us_get S0 = us_get S" by (simp add: us_get_def S0(3) fun_eq_iff)
  have R: "utxo_set_ok H R \<and> us_get R = (if ud_full_snapshot d then Map.empty else us_get S)"
  proof (cases "ud_full_snapshot d")
    case True
    then show ?thesis using s(3) empty_utxo_set_ok [of H] by (auto simp: us_get_eq empty_utxo_set_def)
  next
    case False
    then show ?thesis using s(3) UTXOSet_copy [OF S0(2)] by (auto simp: by_outpoint_eq(4) [OF S0(2)] get0)
  qed
  note r = apply_removals_step [OF s(4) conjunct1 [OF R]]
  note ad = add_utxos_step [OF apply_additions_add [OF s(5)] _ D(1)]
  obtain S3 where S3: "us_merkle_root H R2 = Inr (utxo_root H R2, S3)" "utxo_set_ok H S3" "us_utxos S3 = us_utxos R2"
    using us_merkle_root_eq [OF _ H] ad r by blast
  have S': "S' = S3" "root = utxo_root H R2" using s(6) S3(1) by simp_all
  have root: "utxo_root H S' = utxo_root H R2" by (simp add: utxo_root_def S' S3(3))
  have "us_get S' = us_get R2" by (simp add: us_get_def S' S3(3) fun_eq_iff)
  moreover have "us_get R2 = us_get R |` (- rr_outpoint ` set (ud_removals d)) ++ map_of (map (\<lambda>u. (u_outpoint u, u)) (ud_additions d))"
    using ad r by simp
  moreover have "us_get R |` (- rr_outpoint ` set (ud_removals d)) =
      (if ud_full_snapshot d then Map.empty else us_get S |` (- rr_outpoint ` set (ud_removals d)))"
    using R by simp
  moreover have "\<forall>r \<in> set (ud_removals d). \<exists>u. us_get S (rr_outpoint r) = Some u \<and> rr_value_hash r = value_hash H u"
    using r R D(3) by (cases "ud_full_snapshot d") simp_all
  ultimately show ?thesis using s(1,2,7) S3(2) S' root by (intro exI [of _ d]) simp
qed

subsection \<open>Building a difference\<close>

lemma no_duplicates:
  "update_cells key cs delta ps cells \<noteq> Inl DuplicateChangeKeys" "position_loop H key n m qs \<noteq> Inl DuplicateChangeKeys"
  "insert_keys H ks cells \<noteq> Inl DuplicateChangeKeys"
proof -
  show u: "update_cells key cs delta ps cells \<noteq> Inl DuplicateChangeKeys" for key cs delta ps cells
    by (induction ps arbitrary: cells) (auto simp: bnd_Inl_iff update_cell_def xor_bytes_def)
  show p: "position_loop H key n m qs \<noteq> Inl DuplicateChangeKeys" for key n m qs
    by (induction H key n m qs rule: position_loop.induct) (subst position_loop.simps, auto simp: bnd_Inl_iff to_bytes_def Let_def)
  show "insert_keys H ks cells \<noteq> Inl DuplicateChangeKeys"
    using u p by (induction ks arbitrary: cells)
      (auto simp: bnd_Inl_iff apply_iblt_key_def require_iblt_key_def iblt_checksum_def iblt_positions_def require_iblt_cell_count_def)
qed

lemma encode_duplicates:
  "encode_utxo_diff H d me mb = Inl DuplicateChangeKeys \<Longrightarrow> \<not> distinct (record_keys H (ud_removals d) (ud_additions d))"
proof
  assume e: "encode_utxo_diff H d me mb = Inl DuplicateChangeKeys" and dist: "distinct (record_keys H (ud_removals d) (ud_additions d))"
  have "require_canonical_records rs us me \<noteq> Inl DuplicateChangeKeys" for rs us
    by (auto simp: require_canonical_records_def Let_def bnd_Inl_iff dest!: each_Inl)
  moreover have "build_iblt H (record_keys H (ud_removals d) (ud_additions d)) n \<noteq> Inl DuplicateChangeKeys" for n
    using dist no_duplicates(3) by (auto simp: build_iblt_def require_iblt_cell_count_def bnd_Inl_iff)
  moreover have "each encode_iblt_cell cells \<noteq> Inl DuplicateChangeKeys" for cells
    by (auto simp: encode_iblt_cell_def require_iblt_key_def to_bytes_def bnd_Inl_iff dest!: each_Inl split: if_splits)
  moreover have "each encode_addition us \<noteq> Inl DuplicateChangeKeys" for us
    by (auto simp: encode_addition_def to_bytes_def Let_def bnd_Inl_iff dest!: each_Inl split: if_splits)
  moreover have "to_bytes n v \<noteq> Inl DuplicateChangeKeys" for n v by (simp add: to_bytes_def)
  moreover have "seal_diff H p mb \<noteq> Inl DuplicateChangeKeys" for p by (simp add: seal_diff_def Let_def bnd_Inl_iff)
  ultimately show False
    using e dist by (simp add: encode_utxo_diff_def bnd_Inl_iff change_keys_eq cell_count_eq split: if_splits)
qed

lemma diff_between_facts:
  assumes "digest_ok H" "utxo_set_ok H S" "utxo_set_ok H T"
  shows "diff_ok (diff_between H S T)" "distinct (map rr_outpoint (diff_removed H S T))" "distinct (map u_outpoint (diff_added S T))"
    "\<forall>r \<in> set (diff_removed H S T). \<exists>u. us_get S (rr_outpoint r) = Some u \<and> rr_value_hash r = value_hash H u"
    "rr_outpoint ` set (diff_removed H S T) = dom (us_get S) - dom (us_get T)"
    "u \<in> set (diff_added S T) \<longleftrightarrow> us_get T (u_outpoint u) = Some u \<and> us_get S (u_outpoint u) = None"
proof -
  note LS = us_list_facts [OF assms(2)] and LT = us_list_facts [OF assms(3)]
  have vh: "length (value_hash H u) = HASH_LEN_BYTES" for u using assms(1) by (simp add: value_hash_def length_domain_hash)
  have oo: "utxo_ok u \<Longrightarrow> outpoint_ok (u_outpoint u)" for u by (simp add: utxo_ok_def)
  show "diff_ok (diff_between H S T)"
    using LS(4) LT(4) vh oo assms(1) by (auto simp: diff_ok_def diff_between_def diff_removed_def diff_added_def utxo_root_length)
  show "distinct (map rr_outpoint (diff_removed H S T))" using LS(2) by (simp add: diff_removed_def comp_def distinct_map_filter)
  show "distinct (map u_outpoint (diff_added S T))" using LT(2) by (simp add: diff_added_def distinct_map_filter)
  show "\<forall>r \<in> set (diff_removed H S T). \<exists>u. us_get S (rr_outpoint r) = Some u \<and> rr_value_hash r = value_hash H u"
    using LS(1) by (auto simp: diff_removed_def)
  show "rr_outpoint ` set (diff_removed H S T) = dom (us_get S) - dom (us_get T)"
  proof -
    have "op \<in> rr_outpoint ` set (diff_removed H S T)" if "us_get S op = Some u" "us_get T op = None" for op u
      using that LS(1) [of u] utxos.content_ok [OF assms(2) that(1)] by (force simp: diff_removed_def)
    then show ?thesis using LS(1) by (auto simp: diff_removed_def)
  qed
  show "u \<in> set (diff_added S T) \<longleftrightarrow> us_get T (u_outpoint u) = Some u \<and> us_get S (u_outpoint u) = None"
    using LT(1) by (auto simp: diff_added_def)
qed

lemma diff_removals_error: "diff_removals H D us acc = Inl e \<Longrightarrow> e = UTXOReconciliationError"
  by (induction H D us acc rule: diff_removals.induct) (auto split: option.splits if_splits)

lemma build_diff_run:
  assumes H: "digest_ok H" and S: "utxo_set_ok H S" and T: "utxo_set_ok H T"
  shows "build_utxo_diff H S T me mb = bnd (require_diff_limits me mb) (\<lambda>_.
    if (\<forall>op u v. us_get S op = Some u \<longrightarrow> us_get T op = Some v \<longrightarrow> u = v) then
      (case encode_utxo_diff H (diff_between H S T) me mb of
         Inr diff \<Rightarrow> Inr diff
       | Inl e \<Rightarrow> if e \<noteq> DuplicateChangeKeys then Inl e else encode_full_snapshot_diff H (utxo_root H S) T me mb)
    else Inl UTXOReconciliationError)"
proof -
  obtain S' where S': "us_merkle_root H S = Inr (utxo_root H S, S')" by (rule us_merkle_root_eq [OF S H])
  obtain T' where T': "us_merkle_root H T = Inr (utxo_root H T, T')" "utxo_set_ok H T'" "us_utxos T' = us_utxos T" by (rule us_merkle_root_eq [OF T H])
  obtain T2 where T2: "us_merkle_root H T' = Inr (utxo_root H T', T2)" by (rule us_merkle_root_eq [OF T'(2) H])
  have snap: "encode_full_snapshot_diff H b T' me mb = encode_full_snapshot_diff H b T me mb" for b
    using T2 T'(1) by (simp add: encode_full_snapshot_diff_def us_list_def T'(3) utxo_root_def)
  let ?agree = "\<forall>u \<in> set (us_list S). \<forall>v. us_get T (u_outpoint u) = Some v \<longrightarrow> v = u"
  let ?run = "diff_removals H (utxos_by_outpoint T) (map (\<lambda>u. (u_outpoint u, u)) (us_list S)) []"
  have agree: "(\<forall>op u v. us_get S op = Some u \<longrightarrow> us_get T op = Some v \<longrightarrow> u = v) \<longleftrightarrow> ?agree"
    using us_list_facts(1) [OF S] utxos.content_ok [OF S] by metis
  have removals: "?run = (if ?agree then Inr (diff_removed H S T) else Inl UTXOReconciliationError)"
  proof (cases ?agree)
    case True
    then show ?thesis
      using diff_removals_eq [of "us_list S" "utxos_by_outpoint T" H "[]"] by (simp add: by_outpoint_eq(3) [OF T] diff_removed_def)
  next
    case False
    have "?run \<noteq> Inr rs" for rs
    proof
      assume r: "?run = Inr rs"
      have "\<forall>u \<in> set (us_list S). \<forall>v. dict_get (utxos_by_outpoint T) (u_outpoint u) = Some v \<longrightarrow> v = u"
        by (rule diff_removals_conflict [OF r]) (use us_list_facts(4) [OF S] utxos.content_ok [OF T] in \<open>auto simp: by_outpoint_eq(3) [OF T]\<close>)
      then show False using False by (simp add: by_outpoint_eq(3) [OF T])
    qed
    then show ?thesis using False diff_removals_error [of H _ _ "[]"] by (cases ?run) auto
  qed
  have adds: "map snd (filter (\<lambda>entry. us_get S (fst entry) = None) (map (\<lambda>u. (u_outpoint u, u)) (us_list T))) = diff_added S T"
    by (simp add: diff_added_def filter_map comp_def)
  show ?thesis
    unfolding build_utxo_diff_def Let_def by_outpoint_eq(2) [OF S] by_outpoint_eq(2) [OF T] by_outpoint_eq(3) [OF S] adds removals agree
    by (cases "require_diff_limits me mb"; cases "encode_utxo_diff H (diff_between H S T) me mb") (auto simp: S' T'(1) snap diff_between_def [symmetric])
qed

lemma build_diff_eq:
  assumes H: "digest_ok H" and S: "utxo_set_ok H S" and T: "utxo_set_ok H T"
  shows "build_utxo_diff H S T me mb = Inr diff \<longleftrightarrow>
    require_diff_limits me mb = Inr () \<and> (\<forall>op u v. us_get S op = Some u \<longrightarrow> us_get T op = Some v \<longrightarrow> u = v) \<and>
    (encode_utxo_diff H (diff_between H S T) me mb = Inr diff \<or>
     encode_utxo_diff H (diff_between H S T) me mb = Inl DuplicateChangeKeys \<and> encode_full_snapshot_diff H (utxo_root H S) T me mb = Inr diff)"
  unfolding build_diff_run [OF assms] by (auto simp: bnd_Inr_iff split: sum.splits if_splits)

lemma utxo_root_content:
  assumes "digest_ok H" "utxo_set_ok H S" "utxo_set_ok H T" "us_get S = us_get T"
  shows "utxo_root H S = utxo_root H T"
proof -
  have "fresh_items H (us_utxos S) = fresh_items H (us_utxos T)"
    using fresh_items_content [of H S T] assms by (auto simp: utxo_set_ok_def us_get_def fun_eq_iff)
  then show ?thesis by (simp add: utxo_root_def)
qed

text \<open>A decoded difference that leads from \<open>S\<close> to the contents of \<open>T\<close> is applied.\<close>

lemma apply_diff_total:
  assumes H: "digest_ok H" and S: "utxo_set_ok H S" and T: "utxo_set_ok H T" and lim: "require_diff_limits me mb = Inr ()"
    and d: "decode_utxo_diff H diff me mb = Inr d" "ud_base_root d = utxo_root H S" "ud_target_root d = utxo_root H T"
  defines "C \<equiv> (if ud_full_snapshot d then Map.empty else us_get S)"
  assumes rs: "distinct (map rr_outpoint (ud_removals d))"
      "\<forall>r \<in> set (ud_removals d). \<exists>u. C (rr_outpoint r) = Some u \<and> rr_value_hash r = value_hash H u"
    and us: "distinct (map u_outpoint (ud_additions d))"
      "\<forall>u \<in> set (ud_additions d). us_get T (u_outpoint u) = Some u \<and> (C |` (- rr_outpoint ` set (ud_removals d))) (u_outpoint u) = None"
    and goal: "C |` (- rr_outpoint ` set (ud_removals d)) ++ map_of (map (\<lambda>u. (u_outpoint u, u)) (ud_additions d)) = us_get T"
      "C |` (- rr_outpoint ` set (ud_removals d)) \<subseteq>\<^sub>m us_get T"
  shows "\<exists>S'. apply_utxo_diff H S diff me mb = Inr S' \<and> utxo_set_ok H S' \<and> us_get S' = us_get T"
proof -
  obtain S0 where S0: "us_merkle_root H S = Inr (utxo_root H S, S0)" "utxo_set_ok H S0" "us_utxos S0 = us_utxos S"
    by (rule us_merkle_root_eq [OF S H])
  have get0: "us_get S0 = us_get S" by (simp add: us_get_def S0(3) fun_eq_iff)
  obtain R where R: "(if ud_full_snapshot d then Inr empty_utxo_set else UTXOSet H (map snd (utxos_by_outpoint S0))) = Inr R"
    "utxo_set_ok H R" "us_get R = C"
  proof (cases "ud_full_snapshot d")
    case True
    have "us_get empty_utxo_set = C" by (simp add: C_def True us_get_eq empty_utxo_set_def)
    then show ?thesis using that empty_utxo_set_ok [of H] True by simp
  next
    case False
    obtain R where "UTXOSet H (us_list S0) = Inr R" "utxo_set_ok H R" "us_get R = us_get S0" using UTXOSet_copy [OF S0(2)] by blast
    then show ?thesis using that [of R] False by (simp add: C_def by_outpoint_eq(4) [OF S0(2)] get0)
  qed
  obtain R1 where R1: "apply_removals H (ud_removals d) R = Inr R1" using apply_removals_total [OF R(2) rs(1)] rs(2) R(3) by auto
  have g1: "utxo_set_ok H R1" "us_get R1 = C |` (- rr_outpoint ` set (ud_removals d))" using apply_removals_step [OF R1 R(2)] R(3) by auto
  have ok: "\<forall>u \<in> set (ud_additions d). utxo_ok u" by (rule decoded_facts(1) [OF d(1)])
  have sub: "us_get T (u_outpoint u) = Some u" if mem: "u \<in> set (ud_additions d) \<union> ran (us_get R1)" for u
  proof (cases "u \<in> set (ud_additions d)")
    case False
    then obtain op where op: "us_get R1 op = Some u" using mem unfolding ran_def by blast
    then have "us_get T op = Some u" using goal(2) unfolding g1(2) map_le_def by (metis domI)
    then show ?thesis using utxos.content_ok [OF g1(1) op] by simp
  qed (use us(2) in simp)
  have "utxo_index_ok H T" using T by (simp add: utxo_set_ok_def)
  then have inj: "inj_on (utxo_key H) (set (ud_additions d) \<union> ran (us_get R1))"
    using utxo_key_unique sub unfolding inj_on_def us_get_def by meson
  obtain R2 where add: "add_utxos H (ud_additions d) R1 = Inr R2"
    using add_utxos_total [OF g1(1) ok us(1) _ inj] us(2) g1(2) by auto
  have g2: "utxo_set_ok H R2" "us_get R2 = us_get T" using add_utxos_step [OF add g1(1) ok] goal(1) g1(2) by auto
  obtain R3 where R3: "us_merkle_root H R2 = Inr (utxo_root H R2, R3)" "utxo_set_ok H R3" "us_utxos R3 = us_utxos R2"
    by (rule us_merkle_root_eq [OF g2(1) H])
  have "us_get R3 = us_get T" using g2(2) by (simp add: us_get_def R3(3) fun_eq_iff)
  moreover have "apply_utxo_diff H S diff me mb = Inr R3"
    unfolding apply_utxo_diff_def by (simp add: lim d S0(1) R(1) R1 apply_additions_eq [OF add g1(1) ok] R3(1) utxo_root_content [OF H g2(1) T g2(2)])
  ultimately show ?thesis using R3(2) by blast
qed

lemma apply_snapshot:
  assumes H: "digest_ok H" and S: "utxo_set_ok H S" and T: "utxo_set_ok H T" and lim: "require_diff_limits me mb = Inr ()"
    and d: "decode_utxo_diff H diff me mb = Inr \<lparr>ud_base_root = utxo_root H S, ud_target_root = utxo_root H T, ud_removals = [],
      ud_additions = us_list T, ud_full_snapshot = True\<rparr>"
  shows "\<exists>S'. apply_utxo_diff H S diff me mb = Inr S' \<and> utxo_set_ok H S' \<and> us_get S' = us_get T"
proof -
  note L = us_list_facts [OF T]
  show ?thesis using L(1,2) by_outpoint_eq(1,3) [OF T] by (intro apply_diff_total [OF H S T lim d]) (auto simp: map_le_def restrict_map_def)
qed

lemma apply_between:
  assumes H: "digest_ok H" and S: "utxo_set_ok H S" and T: "utxo_set_ok H T" and lim: "require_diff_limits me mb = Inr ()"
    and agree: "\<forall>op u v. us_get S op = Some u \<longrightarrow> us_get T op = Some v \<longrightarrow> u = v"
    and d: "decode_utxo_diff H diff me mb = Inr (diff_between H S T)"
  shows "\<exists>S'. apply_utxo_diff H S diff me mb = Inr S' \<and> utxo_set_ok H S' \<and> us_get S' = us_get T"
proof -
  note F = diff_between_facts [OF H S T]
  let ?C = "us_get S |` (- rr_outpoint ` set (diff_removed H S T))"
  have C: "?C op = (if us_get T op = None then None else us_get S op)" for op
    unfolding F(5) by (auto simp: restrict_map_def)
  have le: "?C \<subseteq>\<^sub>m us_get T" unfolding map_le_def using agree by (auto simp: C split: if_splits)
  have "?C ++ map_of (map (\<lambda>u. (u_outpoint u, u)) (diff_added S T)) = us_get T"
  proof
    fix op
    let ?m = "map_of (map (\<lambda>u. (u_outpoint u, u)) (diff_added S T))"
    have m: "?m op = Some u \<longleftrightarrow> us_get T op = Some u \<and> us_get S op = None" for u
      using F(3) F(6) [of u] utxos.content_ok [OF T, of op u] by (auto simp: comp_def image_iff)
    show "(?C ++ ?m) op = us_get T op"
    proof (cases "?m op")
      case None
      then have "us_get T op = None \<or> us_get S op \<noteq> None" using m by (metis not_None_eq)
      then show ?thesis using None C [of op] agree by (auto simp: map_add_def)
    next
      case (Some u)
      then show ?thesis using m by simp
    qed
  qed
  then show ?thesis using F le C by (intro apply_diff_total [OF H S T lim d]) (auto simp: diff_between_def)
qed

lemma diff_roundtrip_cases:
  assumes H: "digest_ok H" and S: "utxo_set_ok H S" and T: "utxo_set_ok H T" and b: "build_utxo_diff H S T me mb = Inr diff"
  shows "if distinct (diff_keys H S T) \<and> \<not> peelable H (diff_keys H S T) then \<exists>e. apply_utxo_diff H S diff me mb = Inl e
    else \<exists>S'. apply_utxo_diff H S diff me mb = Inr S' \<and> utxo_set_ok H S' \<and> us_get S' = us_get T"
proof -
  have lim: "require_diff_limits me mb = Inr ()" and agree: "\<forall>op u v. us_get S op = Some u \<longrightarrow> us_get T op = Some v \<longrightarrow> u = v"
    and e: "encode_utxo_diff H (diff_between H S T) me mb = Inr diff \<or>
     encode_utxo_diff H (diff_between H S T) me mb = Inl DuplicateChangeKeys \<and> encode_full_snapshot_diff H (utxo_root H S) T me mb = Inr diff"
    using b unfolding build_diff_eq [OF H S T] by blast+
  note F = diff_between_facts [OF H S T]
  have k: "record_keys H (ud_removals (diff_between H S T)) (ud_additions (diff_between H S T)) = diff_keys H S T"
    by (simp add: diff_between_def diff_keys_def)
  from e show ?thesis
  proof
    assume enc: "encode_utxo_diff H (diff_between H S T) me mb = Inr diff"
    have "\<not> ud_full_snapshot (diff_between H S T)" by (simp add: diff_between_def)
    then obtain cells where c: "distinct (diff_keys H S T)" "build_iblt H (diff_keys H S T) (length (diff_keys H S T) * 2 + 3) = Inr cells"
      "decode_utxo_diff H diff me mb = bnd (peel_iblt H cells) (\<lambda>peeled.
         bnd (ensure (peeled = Some (sort (diff_keys H S T))) UTXOReconciliationError) (\<lambda>_. Inr (diff_between H S T)))"
      using decode_encoded [OF H lim F(1) _ enc] unfolding k by blast
    have p: "peelable H (diff_keys H S T) \<longleftrightarrow> peel_iblt H cells = Inr (Some (sort (diff_keys H S T)))" using c(2) by (simp add: peelable_def)
    show ?thesis
    proof (cases "peelable H (diff_keys H S T)")
      case True
      then have "decode_utxo_diff H diff me mb = Inr (diff_between H S T)" using c(3) by (simp add: p)
      then show ?thesis using apply_between [OF H S T lim agree] True by simp
    next
      case False
      then have "\<exists>e. decode_utxo_diff H diff me mb = Inl e" using c(3) by (cases "peel_iblt H cells") (auto simp: p bnd_ensure)
      then show ?thesis using False c(1) lim by (auto simp: apply_utxo_diff_def)
    qed
  next
    assume s: "encode_utxo_diff H (diff_between H S T) me mb = Inl DuplicateChangeKeys \<and> encode_full_snapshot_diff H (utxo_root H S) T me mb = Inr diff"
    then have "\<not> distinct (diff_keys H S T)" using encode_duplicates k by metis
    then show ?thesis using apply_snapshot [OF H S T lim] decode_snapshot [OF H lim utxo_root_length [OF H] T conjunct2 [OF s]] by simp
  qed
qed

subsection \<open>The cells of a sketch\<close>

lemma xor_bound: "0 \<le> x \<Longrightarrow> x < 256 ^ 4 \<Longrightarrow> 0 \<le> y \<Longrightarrow> y < 256 ^ 4 \<Longrightarrow> 0 \<le> x XOR y \<and> x XOR y < (256 ^ 4 :: int)"
  using XOR_upper [of x 32 y] by simp

lemma bump_ok: "cell_ok c \<Longrightarrow> length key = UTXO_IBLT_KEY_BYTES \<Longrightarrow> 0 \<le> cs \<Longrightarrow> cs < 256 ^ 4 \<Longrightarrow> cell_ok (bump key cs delta c)"
  using xor_bound [of "ic_checksum_sum c" cs] by (simp add: cell_ok_def bump_def)

lemma update_cells_eq:
  "distinct ps \<Longrightarrow> \<forall>p \<in> set ps. p < length cells \<Longrightarrow> \<forall>c \<in> set cells. length (ic_key_sum c) = length key \<Longrightarrow>
   update_cells key cs delta ps cells = Inr (map (\<lambda>i. if i \<in> set ps then bump key cs delta (cells ! i) else cells ! i) [0..<length cells])"
proof (induction ps arbitrary: cells)
  case (Cons p ps)
  have p: "p < length cells" using Cons.prems(2) by simp
  then have u: "update_cell key cs delta (cells ! p) = Inr (bump key cs delta (cells ! p))"
    using Cons.prems(3) by (simp add: update_cell_def xor_bytes_def bump_def)
  let ?cells = "cells[p := bump key cs delta (cells ! p)]"
  have l: "length (ic_key_sum (bump key cs delta (cells ! p))) = length key" using Cons.prems(3) p by (simp add: bump_def)
  then have "\<forall>c \<in> set ?cells. length (ic_key_sum c) = length key" using Cons.prems(3) set_update_subset_insert [of cells p] by fastforce
  then have "update_cells key cs delta ps ?cells =
      Inr (map (\<lambda>i. if i \<in> set ps then bump key cs delta (?cells ! i) else ?cells ! i) [0..<length ?cells])"
    using Cons.IH [of ?cells] Cons.prems(1,2) by simp
  moreover have "map (\<lambda>i. if i \<in> set ps then bump key cs delta (?cells ! i) else ?cells ! i) [0..<length ?cells] =
      map (\<lambda>i. if i \<in> set (p # ps) then bump key cs delta (cells ! i) else cells ! i) [0..<length cells]"
    using Cons.prems(1) p by (auto simp: nth_list_update)
  ultimately show ?case by (simp add: u)
qed (simp add: map_nth)

lemma position_loop_facts:
  "position_loop H key n m qs = Inr ps \<Longrightarrow> distinct qs \<Longrightarrow> \<forall>q \<in> set qs. q < n \<Longrightarrow> length qs \<le> 3 \<Longrightarrow> 0 < n \<Longrightarrow>
   distinct ps \<and> (\<forall>p \<in> set ps. p < n) \<and> length ps = 3"
proof (induction H key n m qs rule: position_loop.induct)
  case (1 H key n m qs)
  show ?case
  proof (cases "length qs < UTXO_IBLT_HASH_COUNT")
    case False
    then show ?thesis using 1 by (subst (asm) (2) position_loop.simps) (simp add: UTXO_IBLT_HASH_COUNT_def)
  next
    case True
    obtain tail where t: "to_bytes 2 (int m) = Inr tail" using 1(2) True by (subst (asm) position_loop.simps) (auto simp: bnd_Inr_iff)
    define q where "q = nat (from_le (take 4 (hash_bytes H (UTXO_IBLT_POSITION_DOMAIN @ key @ tail))) mod int n)"
    define qs' where "qs' = (if q \<notin> set qs then qs @ [q] else qs)"
    have "position_loop H key n m qs = (if m + 1 > SYNC_U16_MAX then Inl UTXOReconciliationError else position_loop H key n (m + 1) qs')"
      by (subst position_loop.simps) (simp add: True t Let_def q_def qs'_def)
    then have rest: "position_loop H key n (m + 1) qs' = Inr ps" and lim: "\<not> m + 1 > SYNC_U16_MAX" using 1(2) by (auto split: if_splits)
    have "q < n" using 1(6) by (simp add: q_def nat_less_iff)
    then have "distinct qs'" "\<forall>q \<in> set qs'. q < n" "length qs' \<le> 3" using 1(3,4,5) True by (auto simp: qs'_def UTXO_IBLT_HASH_COUNT_def)
    then show ?thesis using 1(1) [OF _ t refl q_def qs'_def lim rest] True 1(6) by simp
  qed
qed

lemma positions_facts:
  "iblt_positions H key n = Inr ps \<Longrightarrow> distinct ps \<and> (\<forall>p \<in> set ps. p < n) \<and> length ps = 3"
  using position_loop_facts [of H key n 0 "[]" ps]
  by (auto simp: iblt_positions_def require_iblt_cell_count_def bnd_Inr_iff UTXO_IBLT_MIN_CELLS_def UTXO_IBLT_HASH_COUNT_def)

lemma checksum_bounds:
  assumes "digest_ok H" "iblt_checksum H key = Inr cs"
  shows "0 \<le> cs" "cs < 256 ^ 4"
proof -
  have c: "cs = from_le (take 4 (hash_bytes H (UTXO_IBLT_CHECKSUM_DOMAIN @ key)))" using assms(2) by (auto simp: iblt_checksum_def bnd_Inr_iff)
  show "0 \<le> cs" by (simp add: c)
  have "length (take 4 (hash_bytes H (UTXO_IBLT_CHECKSUM_DOMAIN @ key))) = 4"
    using assms(1) by (simp add: hash_bytes_def digest_ok_def HASH_LEN_BYTES_def)
  then show "cs < 256 ^ 4" unfolding c by (rule from_le_less')
qed

lemma apply_key_eq:
  assumes H: "digest_ok H" and c: "\<forall>c \<in> set cells. cell_ok c" and key: "length key = UTXO_IBLT_KEY_BYTES"
    and ps: "iblt_positions H key (length cells) = Inr ps" and d: "delta = -1 \<or> delta = 1"
  shows "\<exists>cells'. apply_iblt_key H cells key delta = Inr cells' \<and> length cells' = length cells \<and> (\<forall>c \<in> set cells'. cell_ok c) \<and>
    (\<forall>i < length cells. ic_count (cells' ! i) = ic_count (cells ! i) + (if i \<in> set ps then delta else 0))"
proof -
  obtain cs where cs: "iblt_checksum H key = Inr cs" using key by (auto simp: iblt_checksum_def require_iblt_key_def)
  note b = checksum_bounds [OF H cs] and P = positions_facts [OF ps]
  let ?cells = "map (\<lambda>i. if i \<in> set ps then bump key cs delta (cells ! i) else cells ! i) [0..<length cells]"
  have "apply_iblt_key H cells key delta = Inr ?cells"
    using update_cells_eq [of ps cells key] P c key d by (simp add: apply_iblt_key_def require_iblt_key_def cs ps cell_ok_def)
  moreover have "\<forall>c \<in> set ?cells. cell_ok c" using c bump_ok [OF _ key b] by auto
  ultimately show ?thesis by (simp add: bump_def)
qed

lemma insert_keys_eq:
  assumes "digest_ok H" "\<forall>c \<in> set cells. cell_ok c" "\<forall>k \<in> set keys. length k = UTXO_IBLT_KEY_BYTES"
    "\<forall>k \<in> set keys. iblt_positions H k (length cells) = Inr (pos k)"
  shows "\<exists>cells'. insert_keys H keys cells = Inr cells' \<and> length cells' = length cells \<and> (\<forall>c \<in> set cells'. cell_ok c) \<and>
    (\<forall>i < length cells. ic_count (cells' ! i) = ic_count (cells ! i) + int (length (filter (\<lambda>k. i \<in> set (pos k)) keys)))"
  using assms(2-4)
proof (induction keys arbitrary: cells)
  case (Cons k keys)
  obtain cells1 where 1: "apply_iblt_key H cells k 1 = Inr cells1" "length cells1 = length cells" "\<forall>c \<in> set cells1. cell_ok c"
    "\<forall>i < length cells. ic_count (cells1 ! i) = ic_count (cells ! i) + (if i \<in> set (pos k) then 1 else 0)"
    using apply_key_eq [OF assms(1) Cons.prems(1), of k "pos k" 1] Cons.prems(2,3) by auto
  obtain cells2 where "insert_keys H keys cells1 = Inr cells2" "length cells2 = length cells1" "\<forall>c \<in> set cells2. cell_ok c"
    "\<forall>i < length cells1. ic_count (cells2 ! i) = ic_count (cells1 ! i) + int (length (filter (\<lambda>k. i \<in> set (pos k)) keys))"
    using Cons.IH [OF 1(3)] Cons.prems(2,3) 1(2) by auto
  then show ?case using 1 by (intro exI [of _ cells2]) simp
qed simp

lemma build_iblt_eq:
  assumes "digest_ok H" "\<forall>k \<in> set keys. length k = UTXO_IBLT_KEY_BYTES" "\<forall>k \<in> set keys. iblt_positions H k n = Inr (pos k)"
    "distinct keys" "3 \<le> n" "n \<le> 65535"
  shows "\<exists>cells. build_iblt H keys n = Inr cells \<and> length cells = n \<and> (\<forall>c \<in> set cells. cell_ok c) \<and>
    (\<forall>i < n. ic_count (cells ! i) = int (length (filter (\<lambda>k. i \<in> set (pos k)) keys)))"
proof -
  have "\<forall>c \<in> set (replicate n empty_cell). cell_ok c" by (simp add: cell_ok_def empty_cell_def zero_bytes_def)
  then show ?thesis
    using insert_keys_eq [OF assms(1) _ assms(2), of "replicate n empty_cell" pos] assms(3-6)
    by (auto simp: build_iblt_def require_iblt_cell_count_def UTXO_IBLT_MIN_CELLS_def UTXO_IBLT_HASH_COUNT_def SYNC_U16_MAX_def empty_cell_def)
qed

text \<open>A sketch without a cell of count 1 is stuck.\<close>

lemma first_pure_None: "\<forall>c \<in> set cells. ic_count c \<noteq> 1 \<Longrightarrow> first_pure (is_pure_iblt_cell H) i cells = Inr None"
  by (induction cells arbitrary: i) (auto simp: is_pure_iblt_cell_def)

lemma peel_stuck:
  assumes "\<forall>c \<in> set cells. ic_count c \<noteq> 1" "c \<in> set cells" "ic_count c \<noteq> 0"
  shows "peel_iblt H cells = Inr None"
proof -
  have "\<not> is_empty_iblt_cell c" using assms(3) by (simp add: is_empty_iblt_cell_def)
  then show ?thesis using first_pure_None [OF assms(1), of H 0] assms(2)
    by (cases "length cells") (auto simp: peel_iblt_def peel_iblt_cells_def)
qed

lemma first_pure_Some:
  "\<exists>c \<in> set cells. is_pure c = Inr True \<Longrightarrow> \<forall>c \<in> set cells. \<exists>b. is_pure c = Inr b \<Longrightarrow>
   \<exists>i < length cells. first_pure is_pure j cells = Inr (Some (j + i)) \<and> is_pure (cells ! i) = Inr True"
proof (induction cells arbitrary: j)
  case (Cons c cells)
  show ?case
  proof (cases "is_pure c = Inr True")
    case False
    then have c: "is_pure c = Inr False" using Cons.prems(2) by auto
    then obtain i where "i < length cells" "first_pure is_pure (j + 1) cells = Inr (Some (j + 1 + i))" "is_pure (cells ! i) = Inr True"
      using Cons.IH [of "j + 1"] Cons.prems by auto
    then show ?thesis using c by (intro exI [of _ "Suc i"]) simp
  qed auto
qed simp

text \<open>The sketch of one change peels.\<close>

lemma map2_xor_self: "map2 (\<lambda>l r. l XOR r) xs xs = replicate (length xs) (0 :: byte)"
  by (induction xs) auto

lemma map2_xor_zero: "length xs = n \<Longrightarrow> map2 (\<lambda>l r. l XOR r) (replicate n (0 :: byte)) xs = xs"
  by (induction xs arbitrary: n) auto

lemma peel_loop_once:
  assumes "first_pure is_pure 0 working = Inr (Some i)" "working ! i = c" "apply_key working (cell_key c) (delta c) = Inr rest"
    "rest ! i \<noteq> c" "is_empty (rest ! i)" "first_pure is_pure 0 rest = Inr None" "\<forall>x \<in> set rest. is_empty x"
  shows "peel_loop is_pure is_empty cell_key delta apply_key (Suc (Suc n)) working [] = Inr (Some [(cell_key c, delta c)])"
  using assms by (simp add: Let_def)

lemma single_peels:
  assumes H: "digest_ok H" and key: "length k = UTXO_IBLT_KEY_BYTES" and ps: "iblt_positions H k 5 = Inr ps"
  shows "peelable H [k]"
proof -
  obtain cs where cs: "iblt_checksum H k = Inr cs" using key by (auto simp: iblt_checksum_def require_iblt_key_def)
  note P = positions_facts [OF ps]
  have full: "bump k cs 1 empty_cell = \<lparr>ic_count = 1, ic_key_sum = k, ic_checksum_sum = cs\<rparr>" (is "_ = ?full")
    using key by (simp add: bump_def empty_cell_def zero_bytes_def map2_xor_zero)
  have empty: "bump k cs (-1) ?full = empty_cell"
    using key by (simp add: bump_def empty_cell_def zero_bytes_def map2_xor_self)
  have ee: "is_empty_iblt_cell empty_cell" by (simp add: is_empty_iblt_cell_def empty_cell_def)
  have len: "length (ic_key_sum empty_cell) = length k" using key by (simp add: empty_cell_def zero_bytes_def)
  have ap: "apply_iblt_key H cells k delta = Inr (map (\<lambda>i. if i \<in> set ps then bump k cs delta (cells ! i) else cells ! i) [0..<5])"
    if "length cells = 5" "\<forall>c \<in> set cells. length (ic_key_sum c) = length k" "delta = -1 \<or> delta = 1" for cells delta
    using update_cells_eq [of ps cells k] P key that by (simp add: apply_iblt_key_def require_iblt_key_def cs ps)
  let ?cells = "map (\<lambda>i. if i \<in> set ps then ?full else empty_cell) [0..<5]"
  have "apply_iblt_key H (replicate 5 empty_cell) k 1 = Inr ?cells" using len by (subst ap) (auto simp: full)
  then have b: "build_iblt H [k] 5 = Inr ?cells"
    by (simp add: build_iblt_def require_iblt_cell_count_def UTXO_IBLT_MIN_CELLS_def UTXO_IBLT_HASH_COUNT_def SYNC_U16_MAX_def)
  have all: "map (\<lambda>i. if i \<in> set ps then bump k cs (-1) (?cells ! i) else ?cells ! i) [0..<5] = replicate 5 empty_cell"
    by (intro nth_equalityI) (auto simp: empty)
  have kl: "\<forall>c \<in> set ?cells. length (ic_key_sum c) = length k" using len by auto
  have off: "apply_iblt_key H ?cells k (-1) = Inr (replicate 5 empty_cell)"
    using ap [OF _ kl, of "-1"] unfolding all by simp
  have pure: "is_pure_iblt_cell H ?full = Inr True" "is_pure_iblt_cell H empty_cell = Inr False"
    using cs key by (auto simp: is_pure_iblt_cell_def empty_cell_def require_iblt_key_def)
  obtain p where p: "p \<in> set ps" "p < 5" using P by (cases ps) auto
  then have "?full \<in> set ?cells" by (auto simp: image_iff)
  moreover have al: "\<forall>c \<in> set ?cells. \<exists>b. is_pure_iblt_cell H c = Inr b" using pure by auto
  ultimately have "\<exists>i < length ?cells. first_pure (is_pure_iblt_cell H) 0 ?cells = Inr (Some (0 + i)) \<and> is_pure_iblt_cell H (?cells ! i) = Inr True"
    using pure(1) by (intro first_pure_Some) blast+
  then obtain i where i: "i < 5" "first_pure (is_pure_iblt_cell H) 0 ?cells = Inr (Some i)" "is_pure_iblt_cell H (?cells ! i) = Inr True"
    by (elim exE conjE) simp
  then have at: "?cells ! i = ?full" using pure by (auto split: if_splits)
  have none: "first_pure (is_pure_iblt_cell H) 0 (replicate 5 empty_cell) = Inr None" by (rule first_pure_None) (simp add: empty_cell_def)
  have ne: "empty_cell \<noteq> ?full" by (simp add: empty_cell_def)
  have at0: "replicate 5 empty_cell ! i = empty_cell" using i(1) by simp
  have "peel_loop (is_pure_iblt_cell H) is_empty_iblt_cell ic_key_sum (\<lambda>_. -1) (apply_iblt_key H) (Suc (Suc 3)) ?cells [] = Inr (Some [(ic_key_sum ?full, -1)])"
    by (rule peel_loop_once [OF i(2) at _ _ _ none]) (use off ne ee in \<open>simp_all add: at0\<close>)
  moreover have "length ?cells = Suc (Suc 3)" by simp
  ultimately have "peel_iblt H ?cells = Inr (Some [k])" unfolding peel_iblt_def peel_iblt_cells_def by simp
  then show ?thesis using b by (simp add: peelable_def)
qed

lemma twins_stuck:
  assumes H: "digest_ok H" and keys: "keys = [k, l]" "k \<noteq> l" "length k = UTXO_IBLT_KEY_BYTES" "length l = UTXO_IBLT_KEY_BYTES"
    and ps: "iblt_positions H k 7 = Inr ps" "iblt_positions H l 7 = Inr qs" "set ps = set qs"
  shows "\<exists>cells. build_iblt H keys 7 = Inr cells \<and> peel_iblt H cells = Inr None"
proof -
  obtain cells where c: "build_iblt H keys 7 = Inr cells" "length cells = 7"
    "\<forall>i < 7. ic_count (cells ! i) = int (length (filter (\<lambda>x. i \<in> set (if x = k then ps else qs)) keys))"
    using build_iblt_eq [OF H, of keys 7 "\<lambda>x. if x = k then ps else qs"] keys ps(1,2) by auto
  have n: "ic_count (cells ! i) = (if i \<in> set ps then 2 else 0)" if "i < 7" for i using c(3) that keys ps(3) by simp
  have one: "\<forall>x \<in> set cells. ic_count x \<noteq> 1" using n c(2) by (auto simp: in_set_conv_nth split: if_splits)
  obtain p where p: "p \<in> set ps" "p < 7" using positions_facts [OF ps(1)] by (cases ps) auto
  have "cells ! p \<in> set cells" "ic_count (cells ! p) \<noteq> 0" using n p c(2) by simp_all
  then have "peel_iblt H cells = Inr None" by (rule peel_stuck [OF one])
  then show ?thesis using c(1) by blast
qed

subsection \<open>Differences within the default limits are encoded\<close>

lemma length_concat_le: "\<forall>x \<in> set xs. length (f x) \<le> n \<Longrightarrow> length (concat (map f xs)) \<le> length xs * n"
  by (induction xs) auto

lemma encode_cells_total:
  assumes "\<forall>c \<in> set cells. cell_ok c \<and> 0 \<le> ic_count c \<and> ic_count c \<le> int SYNC_U16_MAX"
  shows "\<exists>css. each encode_iblt_cell cells = Inr css \<and> length (concat css) = length cells * UTXO_IBLT_CELL_BYTES"
  using assms
proof (induction cells)
  case (Cons c cells)
  have "\<exists>bs. encode_iblt_cell c = Inr bs"
    using Cons.prems by (simp add: encode_iblt_cell_def cell_ok_def require_iblt_key_def to_bytes_ok SYNC_U16_MAX_def)
  then obtain bs where bs: "encode_iblt_cell c = Inr bs" by blast
  moreover obtain css where "each encode_iblt_cell cells = Inr css" "length (concat css) = length cells * UTXO_IBLT_CELL_BYTES"
    using Cons by auto
  ultimately show ?case using cell_roundtrip(1) [OF bs] by simp
qed simp

lemma body_bounds:
  assumes "\<forall>r \<in> set rs. outpoint_ok (rr_outpoint r) \<and> length (rr_value_hash r) = HASH_LEN_BYTES" "\<forall>u \<in> set us. utxo_ok u"
  shows "length (concat (map (\<lambda>r. outpoint_to_bytes (rr_outpoint r) @ rr_value_hash r) rs)) \<le> length rs * 68"
    "length (concat (map (\<lambda>u. le_bytes 2 (int (length (utxo_to_bytes u))) @ utxo_to_bytes u) us)) \<le> length us * 2200"
proof -
  show "length (concat (map (\<lambda>r. outpoint_to_bytes (rr_outpoint r) @ rr_value_hash r) rs)) \<le> length rs * 68"
    using assms(1) by (intro length_concat_le) (auto simp: outpoint_to_bytes_def outpoint_ok_def HASH_LEN_BYTES_def U32_BYTES_def)
  have "MAX_UTXO_DIFF_ADD_BYTES \<le> 2198"
    by (simp add: MAX_UTXO_DIFF_ADD_BYTES_def UTXO_FIXED_BYTES_def OUTPOINT_BYTES_def TX_OUTPUT_PAYLOAD_MAX_BYTES_def HASH_LEN_BYTES_def
        U16_BYTES_def U32_BYTES_def U64_BYTES_def)
  then show "length (concat (map (\<lambda>u. le_bytes 2 (int (length (utxo_to_bytes u))) @ utxo_to_bytes u) us)) \<le> length us * 2200"
    using assms(2) utxo_bytes_length by (intro length_concat_le) force
qed

lemma seal_total:
  "digest_ok H \<Longrightarrow> int (length p) + 32 \<le> mb \<Longrightarrow> seal_diff H p mb = Inr (p @ diff_checksum H p)"
  by (simp add: seal_diff_def Let_def diff_checksum_def hash_bytes_def digest_ok_def HASH_LEN_BYTES_def)

lemma limits_default: "require_diff_limits (int MAX_UTXO_DIFF_ENTRIES) (int MAX_UTXO_DIFF_BYTES) = Inr ()"
  by (simp add: limits_Inr MAX_UTXO_DIFF_ENTRIES_def MAX_UTXO_DIFF_BYTES_def)

lemma encode_total:
  assumes H: "digest_ok H" and d: "diff_ok d" and can: "require_canonical_records (ud_removals d) (ud_additions d) (int MAX_UTXO_DIFF_ENTRIES) = Inr ()"
  defines "keys \<equiv> record_keys H (ud_removals d) (ud_additions d)"
  assumes dist: "distinct keys" and pos: "\<forall>k \<in> set keys. iblt_positions H k (length keys * 2 + 3) = Inr (pos k)"
  shows "\<exists>diff. encode_utxo_diff H d (int MAX_UTXO_DIFF_ENTRIES) (int MAX_UTXO_DIFF_BYTES) = Inr diff"
proof -
  let ?n = "length keys"
  have n: "?n = length (ud_removals d) + length (ud_additions d)" "?n \<le> 16384" using can by (simp_all add: keys_def canonical_Inr MAX_UTXO_DIFF_ENTRIES_def)
  have ok: "length (ud_base_root d) = HASH_LEN_BYTES" "length (ud_target_root d) = HASH_LEN_BYTES"
    "\<forall>r \<in> set (ud_removals d). outpoint_ok (rr_outpoint r) \<and> length (rr_value_hash r) = HASH_LEN_BYTES"
    "\<forall>u \<in> set (ud_additions d). utxo_ok u" using d by (auto simp: diff_ok_def)
  have kl: "\<forall>k \<in> set keys. length k = UTXO_IBLT_KEY_BYTES"
    using H by (auto simp: keys_def record_keys_def change_key_def hash_bytes_def digest_ok_def HASH_LEN_BYTES_def UTXO_IBLT_KEY_BYTES_def)
  obtain cells where c: "build_iblt H keys (?n * 2 + 3) = Inr cells" "length cells = ?n * 2 + 3" "\<forall>c \<in> set cells. cell_ok c"
    "\<forall>i < ?n * 2 + 3. ic_count (cells ! i) = int (length (filter (\<lambda>k. i \<in> set (pos k)) keys))"
    using build_iblt_eq [OF H kl pos dist] n(2) by auto
  have "\<forall>c \<in> set cells. cell_ok c \<and> 0 \<le> ic_count c \<and> ic_count c \<le> int SYNC_U16_MAX"
  proof
    fix x
    assume x: "x \<in> set cells"
    then obtain i where "i < ?n * 2 + 3" "x = cells ! i" using c(2) by (auto simp: in_set_conv_nth)
    then have "ic_count x = int (length (filter (\<lambda>k. i \<in> set (pos k)) keys))" using c(4) by simp
    moreover have "length (filter (\<lambda>k. i \<in> set (pos k)) keys) \<le> 65535" by (rule le_trans [OF length_filter_le]) (use n(2) in simp)
    ultimately show "cell_ok x \<and> 0 \<le> ic_count x \<and> ic_count x \<le> int SYNC_U16_MAX" using c(3) x by (simp add: SYNC_U16_MAX_def)
  qed
  then obtain css where css: "each encode_iblt_cell cells = Inr css" "length (concat css) = length cells * UTXO_IBLT_CELL_BYTES"
    using encode_cells_total by blast
  have m: "length UTXO_DIFF_MAGIC = 8" by (simp add: UTXO_DIFF_MAGIC_def ascii_def)
  note b = body_bounds [OF ok(3,4)]
  have c1: "build_iblt H keys (length (ud_removals d) * 2 + length (ud_additions d) * 2 + 3) = Inr cells" using c(1) by (simp add: n(1))
  show ?thesis
    using can ok(1,2) n b m css(2) c(2)
    by (simp add: encode_utxo_diff_def bnd_require_hash_len change_keys_eq keys_def [symmetric] dist cell_count_eq c1 css(1) encode_additions_eq [OF ok(4)]
        to_bytes_ok seal_total [OF H] HASH_LEN_BYTES_def MAX_UTXO_DIFF_BYTES_def UTXO_IBLT_CELL_BYTES_def UTXO_IBLT_KEY_BYTES_def)
qed

lemma outpoint_bytes_inj: "outpoint_ok x \<Longrightarrow> outpoint_ok y \<Longrightarrow> outpoint_to_bytes x = outpoint_to_bytes y \<Longrightarrow> x = y"
  by (metis outpoint_from_to_bytes sum.inject(2))

lemma sorted_distinct_outpoints:
  assumes "utxo_set_ok H S"
  shows "sorted (map (\<lambda>u. outpoint_to_bytes (u_outpoint u)) (filter P (us_list S)))" "distinct (map (\<lambda>u. outpoint_to_bytes (u_outpoint u)) (filter P (us_list S)))"
proof -
  note L = us_list_facts [OF assms]
  show "sorted (map (\<lambda>u. outpoint_to_bytes (u_outpoint u)) (filter P (us_list S)))" using L(3) by (rule sorted_filter)
  have "inj_on (\<lambda>u. outpoint_to_bytes (u_outpoint u)) (set (us_list S))"
    using L(1,4) outpoint_bytes_inj unfolding inj_on_def utxo_ok_def by (metis option.inject)
  then have "distinct (map (\<lambda>u. outpoint_to_bytes (u_outpoint u)) (us_list S))" using L(2) by (simp add: distinct_map)
  then show "distinct (map (\<lambda>u. outpoint_to_bytes (u_outpoint u)) (filter P (us_list S)))" by (rule distinct_map_filter)
qed

lemma between_canonical:
  assumes H: "digest_ok H" and S: "utxo_set_ok H S" and T: "utxo_set_ok H T"
    and n: "length (diff_keys H S T) \<le> n"
  shows "require_canonical_records (diff_removed H S T) (diff_added S T) (int n) = Inr ()"
proof -
  note F = diff_between_facts [OF H S T]
  have r: "map (\<lambda>r. outpoint_to_bytes (rr_outpoint r)) (diff_removed H S T) =
      map (\<lambda>u. outpoint_to_bytes (u_outpoint u)) (filter (\<lambda>u. us_get T (u_outpoint u) = None) (us_list S))" by (simp add: diff_removed_def)
  have ok: "\<forall>r \<in> set (diff_removed H S T). outpoint_ok (rr_outpoint r) \<and> length (rr_value_hash r) = HASH_LEN_BYTES"
      "\<forall>u \<in> set (diff_added S T). outpoint_ok (u_outpoint u)"
    using F(1) by (simp_all add: diff_ok_def diff_between_def utxo_ok_def)
  have "outpoint_to_bytes (rr_outpoint r) \<noteq> outpoint_to_bytes (u_outpoint u)" if "r \<in> set (diff_removed H S T)" "u \<in> set (diff_added S T)" for r u
  proof
    assume "outpoint_to_bytes (rr_outpoint r) = outpoint_to_bytes (u_outpoint u)"
    then have "rr_outpoint r = u_outpoint u" using ok that outpoint_bytes_inj by blast
    then show False using F(4) F(6) [of u] that by force
  qed
  then show ?thesis unfolding canonical_Inr r using sorted_distinct_outpoints [OF S] sorted_distinct_outpoints [OF T] ok(1) n
    by (simp add: diff_added_def diff_keys_def)
qed

lemma between_keys: "record_keys H (ud_removals (diff_between H S T)) (ud_additions (diff_between H S T)) = diff_keys H S T"
  by (simp add: diff_between_def diff_keys_def)

lemma build_compact:
  assumes H: "digest_ok H" and S: "utxo_set_ok H S" and T: "utxo_set_ok H T"
    and agree: "\<forall>op u v. us_get S op = Some u \<longrightarrow> us_get T op = Some v \<longrightarrow> u = v"
    and n: "length (diff_keys H S T) \<le> MAX_UTXO_DIFF_ENTRIES" and dist: "distinct (diff_keys H S T)" and pos: "placed H (diff_keys H S T)"
  shows "\<exists>diff. build_utxo_diff H S T (int MAX_UTXO_DIFF_ENTRIES) (int MAX_UTXO_DIFF_BYTES) = Inr diff"
proof -
  let ?d = "diff_between H S T"
  have can: "require_canonical_records (ud_removals ?d) (ud_additions ?d) (int MAX_UTXO_DIFF_ENTRIES) = Inr ()"
    using between_canonical [OF H S T n] by (simp add: diff_between_def)
  obtain pos where "\<forall>k \<in> set (diff_keys H S T). iblt_positions H k (length (diff_keys H S T) * 2 + 3) = Inr (pos k)"
    using pos unfolding placed_def by metis
  then obtain diff where "encode_utxo_diff H ?d (int MAX_UTXO_DIFF_ENTRIES) (int MAX_UTXO_DIFF_BYTES) = Inr diff"
    using encode_total [OF H diff_between_facts(1) [OF H S T] can] dist unfolding between_keys by blast
  then show ?thesis unfolding build_diff_eq [OF H S T] using agree limits_default by blast
qed

lemma encode_collision:
  assumes H: "digest_ok H" and S: "utxo_set_ok H S" and T: "utxo_set_ok H T"
    and n: "length (diff_keys H S T) \<le> MAX_UTXO_DIFF_ENTRIES" and dist: "\<not> distinct (diff_keys H S T)"
  shows "encode_utxo_diff H (diff_between H S T) (int MAX_UTXO_DIFF_ENTRIES) mb = Inl DuplicateChangeKeys"
proof -
  have "require_canonical_records (ud_removals (diff_between H S T)) (ud_additions (diff_between H S T)) (int MAX_UTXO_DIFF_ENTRIES) = Inr ()"
    using between_canonical [OF H S T n] by (simp add: diff_between_def)
  then show ?thesis using dist unfolding encode_utxo_diff_def change_keys_eq between_keys
    by (simp add: bnd_require_hash_len) (simp add: diff_between_def utxo_root_length [OF H])
qed

lemma snapshot_encoded:
  assumes H: "digest_ok H" and T: "utxo_set_ok H T"
  shows "if length (us_list T) \<le> MAX_UTXO_DIFF_ENTRIES
    then \<exists>diff. encode_full_snapshot_diff H (utxo_root H S) T (int MAX_UTXO_DIFF_ENTRIES) (int MAX_UTXO_DIFF_BYTES) = Inr diff
    else encode_full_snapshot_diff H (utxo_root H S) T (int MAX_UTXO_DIFF_ENTRIES) mb = Inl UTXOReconciliationError"
proof (cases "length (us_list T) \<le> MAX_UTXO_DIFF_ENTRIES")
  case True
  have ok: "\<forall>u \<in> set (us_list T). utxo_ok u" using us_list_facts(4) [OF T] by blast
  have cT: "require_canonical_records [] (us_list T) (int MAX_UTXO_DIFF_ENTRIES) = Inr ()"
    using sorted_distinct_outpoints [OF T, of "\<lambda>_. True"] True by (simp add: canonical_Inr)
  obtain T' where T': "us_merkle_root H T = Inr (utxo_root H T, T')" by (rule us_merkle_root_eq [OF T H])
  have m: "length UTXO_DIFF_MAGIC = 8" by (simp add: UTXO_DIFF_MAGIC_def ascii_def)
  have "\<exists>diff. encode_full_snapshot_diff H (utxo_root H S) T (int MAX_UTXO_DIFF_ENTRIES) (int MAX_UTXO_DIFF_BYTES) = Inr diff"
    using True body_bounds(2) [of "[]", OF _ ok] m
    by (simp add: encode_full_snapshot_diff_def Let_def cT [unfolded MAX_UTXO_DIFF_ENTRIES_def, simplified] encode_additions_eq [OF ok] T' to_bytes_ok
        seal_total [OF H] utxo_root_length [OF H] HASH_LEN_BYTES_def MAX_UTXO_DIFF_BYTES_def MAX_UTXO_DIFF_ENTRIES_def zero_bytes_def)
  then show ?thesis using True by simp
next
  case False
  then have "require_canonical_records [] (us_list T) (int MAX_UTXO_DIFF_ENTRIES) = Inl UTXOReconciliationError"
    by (simp add: require_canonical_records_def bnd_ensure)
  then show ?thesis using False by (simp add: encode_full_snapshot_diff_def Let_def)
qed

text \<open>Where no difference is built.\<close>

lemma position_loop_error: "position_loop H key n m qs = Inl e \<Longrightarrow> m \<le> SYNC_U16_MAX \<Longrightarrow> e = UTXOReconciliationError"
proof (induction H key n m qs rule: position_loop.induct)
  case (1 H key n m qs)
  have t: "to_bytes 2 (int m) = Inr (le_bytes 2 (int m))" using 1(3) by (intro to_bytes_ok) (simp_all add: SYNC_U16_MAX_def)
  define q where "q = nat (from_le (take 4 (hash_bytes H (UTXO_IBLT_POSITION_DOMAIN @ key @ le_bytes 2 (int m)))) mod int n)"
  define qs' where "qs' = (if q \<notin> set qs then qs @ [q] else qs)"
  have eq: "position_loop H key n m qs = (if \<not> length qs < UTXO_IBLT_HASH_COUNT then Inr qs
      else if m + 1 > SYNC_U16_MAX then Inl UTXOReconciliationError else position_loop H key n (m + 1) qs')"
    by (subst position_loop.simps) (simp add: t Let_def q_def qs'_def)
  show ?case
  proof (cases "length qs < UTXO_IBLT_HASH_COUNT \<and> \<not> m + 1 > SYNC_U16_MAX")
    case True
    then have "position_loop H key n (m + 1) qs' = Inl e" using 1(2) eq by simp
    then show ?thesis using 1(1) [OF _ t refl q_def qs'_def] True by simp
  next
    case False
    then show ?thesis using 1(2) eq by (auto split: if_splits)
  qed
qed

lemma insert_keys_unplaced:
  assumes H: "digest_ok H"
  shows "\<forall>c \<in> set cells. cell_ok c \<Longrightarrow> \<forall>k \<in> set keys. length k = UTXO_IBLT_KEY_BYTES \<Longrightarrow> 3 \<le> length cells \<Longrightarrow> length cells \<le> 65535 \<Longrightarrow>
    \<exists>k \<in> set keys. \<forall>ps. iblt_positions H k (length cells) \<noteq> Inr ps \<Longrightarrow> insert_keys H keys cells = Inl UTXOReconciliationError"
proof (induction keys arbitrary: cells)
  case (Cons k keys)
  have k: "length k = UTXO_IBLT_KEY_BYTES" using Cons.prems(2) by simp
  show ?case
  proof (cases "iblt_positions H k (length cells)")
    case (Inl e)
    have "position_loop H k (length cells) 0 [] = Inl e"
      using Inl k Cons.prems(3,4) by (auto simp: iblt_positions_def require_iblt_key_def require_iblt_cell_count_def UTXO_IBLT_MIN_CELLS_def
          UTXO_IBLT_HASH_COUNT_def SYNC_U16_MAX_def bnd_ensure)
    then have "e = UTXOReconciliationError" by (rule position_loop_error) simp
    then show ?thesis using k Inl by (simp add: apply_iblt_key_def require_iblt_key_def iblt_checksum_def)
  next
    case (Inr ps)
    obtain cells1 where 1: "apply_iblt_key H cells k 1 = Inr cells1" "length cells1 = length cells" "\<forall>c \<in> set cells1. cell_ok c"
      using apply_key_eq [OF H Cons.prems(1) k Inr, of 1] by auto
    have "\<exists>k \<in> set keys. \<forall>ps. iblt_positions H k (length cells1) \<noteq> Inr ps" using Cons.prems(5) Inr 1(2) by auto
    then show ?thesis using Cons.IH [OF 1(3)] Cons.prems(2-4) 1(1,2) by simp
  qed
qed simp

lemma key_lengths: "digest_ok H \<Longrightarrow> \<forall>k \<in> set (diff_keys H S T). length k = UTXO_IBLT_KEY_BYTES"
  by (auto simp: diff_keys_def record_keys_def change_key_def hash_bytes_def digest_ok_def HASH_LEN_BYTES_def UTXO_IBLT_KEY_BYTES_def)

lemma encode_refused:
  assumes H: "digest_ok H" and S: "utxo_set_ok H S" and T: "utxo_set_ok H T"
    and no: "length (diff_keys H S T) > MAX_UTXO_DIFF_ENTRIES \<or> distinct (diff_keys H S T) \<and> \<not> placed H (diff_keys H S T)"
  shows "encode_utxo_diff H (diff_between H S T) (int MAX_UTXO_DIFF_ENTRIES) mb = Inl UTXOReconciliationError"
proof (cases "length (diff_keys H S T) > MAX_UTXO_DIFF_ENTRIES")
  case True
  have "length (diff_removed H S T) + length (diff_added S T) > MAX_UTXO_DIFF_ENTRIES" using True by (simp add: diff_keys_def)
  then have "require_canonical_records (diff_removed H S T) (diff_added S T) (int MAX_UTXO_DIFF_ENTRIES) = Inl UTXOReconciliationError"
    by (simp add: require_canonical_records_def bnd_ensure)
  then show ?thesis by (simp add: encode_utxo_diff_def bnd_require_hash_len diff_between_def utxo_root_length [OF H])
next
  case False
  then have d: "distinct (diff_keys H S T)" "\<not> placed H (diff_keys H S T)" using no by simp_all
  let ?n = "length (diff_keys H S T)"
  have n: "?n \<le> 16384" using False by (simp add: MAX_UTXO_DIFF_ENTRIES_def)
  have can: "require_canonical_records (ud_removals (diff_between H S T)) (ud_additions (diff_between H S T)) (int MAX_UTXO_DIFF_ENTRIES) = Inr ()"
    using between_canonical [OF H S T, of MAX_UTXO_DIFF_ENTRIES] False by (simp add: diff_between_def)
  have "\<forall>c \<in> set (replicate (?n * 2 + 3) empty_cell). cell_ok c" by (simp add: cell_ok_def empty_cell_def zero_bytes_def)
  then have "insert_keys H (diff_keys H S T) (replicate (?n * 2 + 3) empty_cell) = Inl UTXOReconciliationError"
    using d(2) n key_lengths [OF H, of S T] by (intro insert_keys_unplaced [OF H]) (auto simp: placed_def)
  then have "build_iblt H (diff_keys H S T) (?n * 2 + 3) = Inl UTXOReconciliationError"
    using d(1) n by (simp add: build_iblt_def require_iblt_cell_count_def UTXO_IBLT_MIN_CELLS_def UTXO_IBLT_HASH_COUNT_def SYNC_U16_MAX_def)
  then show ?thesis using can n d(1) unfolding encode_utxo_diff_def change_keys_eq between_keys cell_count_eq
    by (simp add: bnd_require_hash_len) (simp add: diff_between_def utxo_root_length [OF H])
qed

subsection \<open>The example\<close>

lemma rev_hash_digest: "digest_ok rev_hash"
  by (auto simp: digest_ok_def rev_hash_def zero_bytes_def min_def)

lemma sync_set_ok:
  assumes "is_ok (UTXOSet rev_hash us)" "\<forall>u \<in> set us. utxo_ok u"
  shows "utxo_set_ok rev_hash (sync_set us)"
proof -
  obtain S where S: "UTXOSet rev_hash us = Inr S" using assms(1) by (auto simp: is_ok_iff)
  show ?thesis using add_utxos_step [OF S [unfolded UTXOSet_def] empty_utxo_set_ok assms(2)] by (simp add: sync_set_def S)
qed

lemma sync_one: "utxo_set_ok rev_hash (sync_set [sync_utxo 1 1])" 
  by (rule sync_set_ok) code_simp+

lemma sync_two: "utxo_set_ok rev_hash (sync_set [sync_utxo 1 1, sync_utxo 2 2])"
  by (rule sync_set_ok) code_simp+

lemma sync_keys:
  "diff_keys rev_hash empty_utxo_set (sync_set [sync_utxo 1 1]) = [[1, 0, 0, 0, 0, 0, 0, 0]]"
  "diff_keys rev_hash empty_utxo_set (sync_set [sync_utxo 1 1, sync_utxo 2 2]) = [[1, 0, 0, 0, 0, 0, 0, 0], [2, 0, 0, 0, 0, 0, 0, 0]]"
  by code_simp+

lemma sync_sizes:
  "length (us_list (sync_set [sync_utxo 1 1])) = 1" "length (us_list (sync_set [sync_utxo 1 1, sync_utxo 2 2])) = 2"
  by code_simp+

lemma position_step:
  "length qs < 3 \<Longrightarrow> m < 65535 \<Longrightarrow> position_loop H key n m qs = position_loop H key n (Suc m)
     (let q = nat (from_le (take 4 (hash_bytes H (UTXO_IBLT_POSITION_DOMAIN @ key @ le_bytes 2 (int m)))) mod int n) in
      if q \<notin> set qs then qs @ [q] else qs)"
  by (subst position_loop.simps) (simp add: to_bytes_ok Let_def UTXO_IBLT_HASH_COUNT_def SYNC_U16_MAX_def)

lemma position_done: "length qs = 3 \<Longrightarrow> position_loop H key n m qs = Inr qs"
  by (subst position_loop.simps) (simp add: UTXO_IBLT_HASH_COUNT_def)

lemma position_step_rev:
  assumes "length key = 8" "length qs < 3" "m < 65535"
  shows "position_loop rev_hash key n m qs = position_loop rev_hash key n (Suc m)
     (let q = nat (from_le (rev (le_bytes 2 (int m)) @ take 2 (rev key)) mod int n) in if q \<notin> set qs then qs @ [q] else qs)"
proof -
  have "take 4 (hash_bytes rev_hash (UTXO_IBLT_POSITION_DOMAIN @ key @ le_bytes 2 (int m))) = rev (le_bytes 2 (int m)) @ take 2 (rev key)"
    using assms(1) by (simp add: hash_bytes_def rev_hash_def HASH_LEN_BYTES_def)
  then show ?thesis using position_step [OF assms(2,3), of rev_hash key n] by simp
qed

lemma sync_positions:
  "iblt_positions rev_hash [1, 0, 0, 0, 0, 0, 0, 0] 5 = Inr [0, 1, 2]"
  "iblt_positions rev_hash [1, 0, 0, 0, 0, 0, 0, 0] 7 = Inr [0, 4, 1]"
  "iblt_positions rev_hash [2, 0, 0, 0, 0, 0, 0, 0] 7 = Inr [0, 4, 1]"
proof -
  have le: "le_bytes 2 0 = [0, 0]" "le_bytes 2 1 = [1, 0]" "le_bytes 2 2 = [2, 0]" by code_simp+
  show "iblt_positions rev_hash [1, 0, 0, 0, 0, 0, 0, 0] 5 = Inr [0, 1, 2]"
    "iblt_positions rev_hash [1, 0, 0, 0, 0, 0, 0, 0] 7 = Inr [0, 4, 1]"
    "iblt_positions rev_hash [2, 0, 0, 0, 0, 0, 0, 0] 7 = Inr [0, 4, 1]"
  by (simp_all add: iblt_positions_def require_iblt_key_def require_iblt_cell_count_def UTXO_IBLT_KEY_BYTES_def UTXO_IBLT_MIN_CELLS_def
      UTXO_IBLT_HASH_COUNT_def SYNC_U16_MAX_def position_step_rev position_done le Let_def)
qed

lemma stuck_diff:
  assumes H: "digest_ok H" and S: "utxo_set_ok H S" and T: "utxo_set_ok H T" and b: "build_utxo_diff H S T me mb = Inr diff"
    and dist: "distinct (diff_keys H S T)"
    and cells: "build_iblt H (diff_keys H S T) (length (diff_keys H S T) * 2 + 3) = Inr cells" "peel_iblt H cells = Inr None"
  shows "apply_utxo_diff H S diff me mb = Inl UTXOReconciliationError"
proof -
  have lim: "require_diff_limits me mb = Inr ()"
    and e: "encode_utxo_diff H (diff_between H S T) me mb = Inr diff \<or> encode_utxo_diff H (diff_between H S T) me mb = Inl DuplicateChangeKeys"
    using b unfolding build_diff_eq [OF H S T] by blast+
  have k: "record_keys H (ud_removals (diff_between H S T)) (ud_additions (diff_between H S T)) = diff_keys H S T"
    by (simp add: diff_between_def diff_keys_def)
  have "encode_utxo_diff H (diff_between H S T) me mb = Inr diff" using e encode_duplicates [of H "diff_between H S T"] dist unfolding k by blast
  moreover have "\<not> ud_full_snapshot (diff_between H S T)" by (simp add: diff_between_def)
  ultimately have "decode_utxo_diff H diff me mb = Inl UTXOReconciliationError"
    using decode_encoded [OF H lim diff_between_facts(1) [OF H S T]] cells unfolding k by (auto simp: bnd_ensure)
  then show ?thesis by (simp add: apply_utxo_diff_def lim)
qed

section \<open>Properties\<close>

text \<open>(C9) What becomes of the difference between any two consistent sets, under the default limits. \<open>build_utxo_diff\<close> raises
  \<open>UTXOReconciliationError\<close> when the sets disagree on an outpoint they share, when they differ by more than 16384 outputs, when a change
  key has no three distinct positions, and when change keys collide and the target has more than 16384 outputs.
  In all other cases it returns a difference. If the change keys collide (the whole target is then sent) or the
  sketch of the changes peels, \<open>request_utxo_diff\<close> passes the difference on, and \<open>apply_utxo_diff\<close> returns a
  consistent set with exactly the contents of the target; otherwise \<open>apply_utxo_diff\<close> raises.\<close>

theorem diff_sync_complete:
  assumes H: "digest_ok H" and S: "utxo_set_ok H S" and T: "utxo_set_ok H T"
  defines "me \<equiv> int MAX_UTXO_DIFF_ENTRIES" and "mb \<equiv> int MAX_UTXO_DIFF_BYTES" and "keys \<equiv> diff_keys H S T"
  defines "agree \<equiv> (\<forall>op u v. us_get S op = Some u \<longrightarrow> us_get T op = Some v \<longrightarrow> u = v)"
  shows "if \<not> agree \<or> length keys > MAX_UTXO_DIFF_ENTRIES \<or> (distinct keys \<and> \<not> placed H keys) \<or>
      (\<not> distinct keys \<and> length (us_list T) > MAX_UTXO_DIFF_ENTRIES)
    then build_utxo_diff H S T me mb = Inl UTXOReconciliationError
    else \<exists>diff. build_utxo_diff H S T me mb = Inr diff \<and>
      (if distinct keys \<and> \<not> peelable H keys then \<exists>e. apply_utxo_diff H S diff me mb = Inl e
       else request_utxo_diff H (utxo_root H S) (\<lambda>_. build_utxo_diff H S T me mb) me mb = Inr diff \<and>
         (\<exists>S'. apply_utxo_diff H S diff me mb = Inr S' \<and> utxo_set_ok H S' \<and> us_get S' = us_get T))"
    (is "if ?no then _ else _")
proof (cases ?no)
  case True
  have "build_utxo_diff H S T me mb = Inl UTXOReconciliationError"
  proof (cases "agree \<and> length keys \<le> MAX_UTXO_DIFF_ENTRIES \<and> \<not> distinct keys")
    case True
    then have "encode_full_snapshot_diff H (utxo_root H S) T me mb = Inl UTXOReconciliationError"
      using \<open>?no\<close> snapshot_encoded [OF H T, of S mb] by (auto simp: me_def split: if_splits)
    then show ?thesis using True encode_collision [OF H S T, of mb] limits_default
      by (simp add: build_diff_run [OF H S T] agree_def [symmetric] me_def mb_def keys_def)
  next
    case False
    then have "\<not> agree \<or> length keys > MAX_UTXO_DIFF_ENTRIES \<or> (distinct keys \<and> \<not> placed H keys)" using \<open>?no\<close> by auto
    then have "\<not> agree \<or> encode_utxo_diff H (diff_between H S T) me mb = Inl UTXOReconciliationError"
      using encode_refused [OF H S T, of mb] by (auto simp: keys_def me_def)
    then show ?thesis using limits_default unfolding build_diff_run [OF H S T] agree_def [symmetric] me_def mb_def by auto
  qed
  then show ?thesis using True by simp
next
  case False
  then have ag: agree and n: "length keys \<le> MAX_UTXO_DIFF_ENTRIES" by auto
  obtain diff where b: "build_utxo_diff H S T me mb = Inr diff"
  proof (cases "distinct keys")
    case True
    then show ?thesis using that build_compact [OF H S T ag [unfolded agree_def]] n False unfolding me_def mb_def keys_def by blast
  next
    case dup: False
    then obtain diff where "encode_full_snapshot_diff H (utxo_root H S) T me mb = Inr diff"
      using snapshot_encoded [OF H T, of S mb] False by (auto simp: me_def mb_def split: if_splits)
    then have "build_utxo_diff H S T me mb = Inr diff"
      using ag encode_collision [OF H S T, of mb] limits_default dup n
      unfolding build_diff_run [OF H S T] agree_def [symmetric] me_def mb_def keys_def by simp
    then show ?thesis by (rule that)
  qed
  have req: "request_utxo_diff H (utxo_root H S) (\<lambda>_. build_utxo_diff H S T me mb) me mb = Inr diff" if "apply_utxo_diff H S diff me mb = Inr S'" for S'
    using apply_diff_steps [OF H S that] limits_default
    by (auto simp: request_utxo_diff_def b [unfolded me_def mb_def] bnd_require_hash_len utxo_root_length [OF H] me_def mb_def)
  have "if distinct keys \<and> \<not> peelable H keys then \<exists>e. apply_utxo_diff H S diff me mb = Inl e
      else request_utxo_diff H (utxo_root H S) (\<lambda>_. build_utxo_diff H S T me mb) me mb = Inr diff \<and>
        (\<exists>S'. apply_utxo_diff H S diff me mb = Inr S' \<and> utxo_set_ok H S' \<and> us_get S' = us_get T)"
    using diff_roundtrip_cases [OF H S T b] req unfolding keys_def by (auto split: if_splits)
  then show ?thesis using False b by auto
qed

theorem diff_sync_complete_witness:
  "\<exists>diff S'. build_utxo_diff rev_hash empty_utxo_set (sync_set [sync_utxo 1 1]) (int MAX_UTXO_DIFF_ENTRIES) (int MAX_UTXO_DIFF_BYTES) = Inr diff \<and>
     apply_utxo_diff rev_hash empty_utxo_set diff (int MAX_UTXO_DIFF_ENTRIES) (int MAX_UTXO_DIFF_BYTES) = Inr S' \<and>
     us_get S' = us_get (sync_set [sync_utxo 1 1])"
proof -
  have a: "\<forall>op u v. us_get empty_utxo_set op = Some u \<longrightarrow> us_get (sync_set [sync_utxo 1 1]) op = Some v \<longrightarrow> u = v"
    by (simp add: us_get_def empty_utxo_set_def)
  have p: "peelable rev_hash [[1, 0, 0, 0, 0, 0, 0, 0]]"
    by (rule single_peels [OF rev_hash_digest _ sync_positions(1)]) (simp add: UTXO_IBLT_KEY_BYTES_def)
  show ?thesis
    using diff_sync_complete [OF rev_hash_digest empty_utxo_set_ok sync_one] a p sync_positions(1)
    by (auto simp: sync_keys sync_sizes MAX_UTXO_DIFF_ENTRIES_def placed_def)
qed

text \<open>(C10) A difference that is accepted, whoever made it, was decoded between the root of the local set and the root of the result; the
  result is consistent and holds the local outputs without the removed ones (none for a snapshot) and the added ones, and every
  removal named an output of the local set with its value hash.\<close>

theorem apply_utxo_diff_sound:
  assumes "digest_ok H" "utxo_set_ok H S" "apply_utxo_diff H S diff me mb = Inr S'"
  shows "\<exists>d. decode_utxo_diff H diff me mb = Inr d \<and> ud_base_root d = utxo_root H S \<and> ud_target_root d = utxo_root H S' \<and> utxo_set_ok H S' \<and>
    us_get S' = (if ud_full_snapshot d then Map.empty else us_get S |` (- rr_outpoint ` set (ud_removals d))) ++
      map_of (map (\<lambda>u. (u_outpoint u, u)) (ud_additions d)) \<and>
    (\<forall>r \<in> set (ud_removals d). \<exists>u. us_get S (rr_outpoint r) = Some u \<and> rr_value_hash r = value_hash H u)"
  by (rule apply_diff_steps [OF assms])

theorem apply_utxo_diff_sound_witness:
  "\<exists>diff S' d. apply_utxo_diff rev_hash empty_utxo_set diff (int MAX_UTXO_DIFF_ENTRIES) (int MAX_UTXO_DIFF_BYTES) = Inr S' \<and>
     decode_utxo_diff rev_hash diff (int MAX_UTXO_DIFF_ENTRIES) (int MAX_UTXO_DIFF_BYTES) = Inr d \<and> ud_target_root d = utxo_root rev_hash S' \<and>
     us_get S' = us_get (sync_set [sync_utxo 1 1])"
proof -
  note E = empty_utxo_set_ok and T = sync_one and H = rev_hash_digest
  have "\<forall>op u v. us_get empty_utxo_set op = Some u \<longrightarrow> us_get (sync_set [sync_utxo 1 1]) op = Some v \<longrightarrow> u = v"
    by (simp add: us_get_def empty_utxo_set_def)
  then obtain diff where b: "build_utxo_diff rev_hash empty_utxo_set (sync_set [sync_utxo 1 1]) (int MAX_UTXO_DIFF_ENTRIES) (int MAX_UTXO_DIFF_BYTES) = Inr diff"
    using build_compact [OF H E T] sync_positions(1) by (auto simp: sync_keys MAX_UTXO_DIFF_ENTRIES_def placed_def)
  have p: "peelable rev_hash [[1, 0, 0, 0, 0, 0, 0, 0]]"
    by (rule single_peels [OF H _ sync_positions(1)]) (simp add: UTXO_IBLT_KEY_BYTES_def)
  obtain S' where a: "apply_utxo_diff rev_hash empty_utxo_set diff (int MAX_UTXO_DIFF_ENTRIES) (int MAX_UTXO_DIFF_BYTES) = Inr S'"
      "us_get S' = us_get (sync_set [sync_utxo 1 1])"
    using diff_roundtrip_cases [OF H E T b] p unfolding sync_keys by auto
  then show ?thesis using apply_utxo_diff_sound [OF H E a(1)] by blast
qed

text \<open>(C11) The sender does not check that its sketch peels. When two sets differ by two changes with distinct keys at the same
  three of the seven cells, every cell has count 0 or 2, and the difference that \<open>build_utxo_diff\<close> returns is refused by
  \<open>apply_utxo_diff\<close>, on every attempt.\<close>

theorem twin_changes_refused:
  assumes H: "digest_ok H" and S: "utxo_set_ok H S" and T: "utxo_set_ok H T" and b: "build_utxo_diff H S T me mb = Inr diff"
    and keys: "diff_keys H S T = [k, l]" "k \<noteq> l"
    and ps: "iblt_positions H k 7 = Inr ps" "iblt_positions H l 7 = Inr qs" "set ps = set qs"
  shows "apply_utxo_diff H S diff me mb = Inl UTXOReconciliationError"
proof -
  have len: "length k = UTXO_IBLT_KEY_BYTES" "length l = UTXO_IBLT_KEY_BYTES"
    using ps by (auto simp: iblt_positions_def bnd_Inr_iff UTXO_IBLT_KEY_BYTES_def)
  show ?thesis using twins_stuck [OF H keys(1) keys(2) len ps] stuck_diff [OF H S T b] keys by auto
qed

theorem twin_changes_refused_witness:
  "\<exists>diff. build_utxo_diff rev_hash empty_utxo_set (sync_set [sync_utxo 1 1, sync_utxo 2 2]) (int MAX_UTXO_DIFF_ENTRIES) (int MAX_UTXO_DIFF_BYTES) = Inr diff \<and>
     apply_utxo_diff rev_hash empty_utxo_set diff (int MAX_UTXO_DIFF_ENTRIES) (int MAX_UTXO_DIFF_BYTES) = Inl UTXOReconciliationError"
proof -
  note E = empty_utxo_set_ok and T = sync_two and H = rev_hash_digest
  have "\<forall>op u v. us_get empty_utxo_set op = Some u \<longrightarrow> us_get (sync_set [sync_utxo 1 1, sync_utxo 2 2]) op = Some v \<longrightarrow> u = v"
    by (simp add: us_get_def empty_utxo_set_def)
  then obtain diff where b: "build_utxo_diff rev_hash empty_utxo_set (sync_set [sync_utxo 1 1, sync_utxo 2 2]) (int MAX_UTXO_DIFF_ENTRIES) (int MAX_UTXO_DIFF_BYTES) = Inr diff"
    using build_compact [OF H E T] sync_positions(2,3) by (auto simp: sync_keys MAX_UTXO_DIFF_ENTRIES_def placed_def)
  show ?thesis using twin_changes_refused [OF H E T b sync_keys(2) _ sync_positions(2,3)] b by auto
qed

end
