(* ===== verification/Spec2Isabelle.thy ===== *)
theory Spec2Isabelle
  imports Shard_Tree UTXO_Merkle Rewards Finality Pow_Miner Mempool Node State_Sync
begin

text \<open>
  A verification development for TensorPoW, a proof-of-work block-DAG whose work is integer matrix
  multiplication (Python sources under \<^verbatim>\<open>src/src/tensorpow\<close>).

  \<^bold>\<open>The program.\<close> Miners produce two kinds of blocks. A \<^emph>\<open>fruit\<close> carries transactions, names its parents in the DAG of
  fruits and the latest anchor it knows. An \<^emph>\<open>anchor\<close> covers a set of fruits, names its parent
  anchor, commits to the shard tree and the fee floors, and pays rewards. A node stores blocks in
  RocksDB, orders the fruits by GHOSTDAG, chooses the anchor chain with most work, applies the
  transactions of the covered fruits to the set of unspent outputs, and keeps a mempool of pending
  transactions that are checked against that set. Everything a header commits to is a hash with a
  domain byte; state is committed to by a sparse Merkle tree over the unspent outputs.

  \<^bold>\<open>Which theory models which part\<close> (in dependency order; the names of definitions follow the code).
  \<^item> \<open>TP_Prelude\<close>: exceptions as values of \<open>py_error + 'a\<close> (\<open>bnd\<close>, \<open>ensure\<close>, \<open>each\<close>, \<open>wrap_error\<close>), bytes,
    little-endian integers, dictionaries as association lists, the byte reader, and the lemmas on them.
  \<^item> \<open>Hashing\<close> (\<^verbatim>\<open>crypto/hash.py\<close>), \<open>Signatures\<close> (\<^verbatim>\<open>crypto/signatures.py\<close>).
  \<^item> \<open>Shard_Tree\<close> (\<^verbatim>\<open>mempool/shard_tree.py\<close>): the leaves form a partition, routing, splits and merges, wire format.
  \<^item> \<open>UTXO_State\<close>, \<open>UTXO_Merkle\<close> (\<^verbatim>\<open>state/utxo.py\<close>): outputs and their bytes, the set with its indexes and caches, the
    sparse Merkle tree and its proofs. The locale \<open>utxo_store\<close> is the interface the ledger relies on.
  \<^item> \<open>Transaction\<close>, \<open>Script\<close> (\<^verbatim>\<open>tx/transaction.py\<close>, \<^verbatim>\<open>tx/script.py\<close>): encoding, signature hashes, the stack
    interpreter, the output templates.
  \<^item> \<open>Pow_Kernel\<close>, \<open>Pow_Challenge\<close>, \<open>Pow_Miner\<close> (\<^verbatim>\<open>pow/kernel.py\<close>, \<^verbatim>\<open>pow/challenge.py\<close>, \<^verbatim>\<open>pow/verify.py\<close>,
    \<^verbatim>\<open>pow/miner.py\<close>).
  \<^item> \<open>Anchor_DAA\<close>, \<open>Rewards\<close>, \<open>Ghostdag\<close>, \<open>Finality\<close> (\<^verbatim>\<open>consensus/anchor_daa.py\<close>, \<^verbatim>\<open>consensus/rewards.py\<close>,
    \<^verbatim>\<open>consensus/ghostdag.py\<close>, \<^verbatim>\<open>consensus/finality.py\<close>).
  \<^item> \<open>Ordered_Merkle\<close>, \<open>Headers\<close>, \<open>Blocks\<close> (\<^verbatim>\<open>chain/merkle.py\<close>, \<^verbatim>\<open>chain/headers.py\<close>, \<^verbatim>\<open>chain/blocks.py\<close>).
  \<^item> \<open>Mempool\<close> (\<^verbatim>\<open>mempool/mempool.py\<close>): admission, eviction, selection, fee floors.
  \<^item> \<open>Storage\<close> (\<^verbatim>\<open>storage/rocksdb.py\<close>): batches, columns, typed access. The locale \<open>typed_column\<close> states what a column
    promises and is interpreted on every column.
  \<^item> \<open>Chain_Store\<close>, \<open>Ledger\<close>, \<open>Node\<close> (\<^verbatim>\<open>node/node.py\<close>): reading the stored blocks; the state of an anchor branch; the
    handlers that process transactions, fruits and anchors, synchronisation and finality queries.
  \<^item> \<open>State_Sync\<close> (\<^verbatim>\<open>state/sync.py\<close>, \<^verbatim>\<open>_iblt.py\<close>): differences between two sets of unspent outputs, with the sketch of their changes.

  \<^bold>\<open>What the lemmas show.\<close> Codecs accept exactly the canonical encodings of valid values and raise only their documented
  errors (with the exceptions listed as findings of the manifest). Roots and headers bind their
  contents unless two of finitely many named strings collide under the hash. The shard check accepts
  exactly the partitions. The script interpreter ends within its limits on every input. The product of
  the work kernel never exceeds its accumulator, so every backend whose matrix call computes modulo \<open>2 ^ 32\<close> is exact and
  verification answers what the header and the target define. The
  colouring of the DAG is the greedy one over the mathematical anticone, and the ancestor cache is the
  transitive closure of the parent relation. The mempool keeps its indexes consistent from any
  reachable state. An anchor creates no value beyond its subsidy, so the unspent outputs of every
  branch are worth at most the minted supply and the maximum supply is never exceeded; every reachable
  node has this property, and its stored outputs are those it holds in memory, so a restart restores
  them. A fresh node accepts the configured genesis; the accepted blocks are exactly those that pass the listed checks; the relay of
  transactions rejects every input with a lock, even an expired one (a finding of the manifest). An accepted
  difference between two sets of outputs leads to the root it names; which differences are built is characterised, and a built one
  is accepted and gives the target exactly when its sketch peels or its change keys collide; the sender does not check the
  former (a finding of the manifest).

  \<^bold>\<open>Parameters and hypotheses.\<close> Code that is not in the repository is a parameter: BLAKE3 (a function \<open>H\<close>; \<open>digest_ok\<close> says
  that digests have 32 bytes; collisions are never excluded but appear in the conclusions), its
  extendable output (\<open>xof_ok\<close>), Ed25519 (a record of its operations), PyTorch (a record of its matrix
  products per device, each of which may raise; \<open>int32_matmul_ok\<close> is the documented product of int32
  matrices on the CPU, \<open>kernel_exact\<close> that the call of one backend computes modulo \<open>2 ^ 32\<close>; nothing is assumed of the private \<open>_int_mm\<close> otherwise), RocksDB (a record with a
  read, a listing and an atomic write; \<open>rocks_ok\<close>: a read after a write sees the last operation on the
  key, a listing is sorted and agrees with reads). Each has a concrete instance for the witnesses
  (\<open>pad_hash\<close>, \<open>example_ed25519\<close>, \<open>example_rocks\<close>, ...). The clock, the proof-of-work verifier that a
  node is built with and its expected genesis hash are arguments of the handlers.

  \<^bold>\<open>Conventions.\<close> An exception is the class that is raised, without its message. Checks of Python types are discharged by
  the types of the model. A dataclass is a record with a constructor function that performs
  \<open>__post_init__\<close>. Python integers are \<open>int\<close>; bytes are lists of \<open>8 word\<close>; where the code bounds an
  integer the bound is checked as in the code. A dictionary is an association list without repeated
  keys, in insertion order; a set that is iterated is iterated in sorted order, which is what the code
  does wherever the order matters. Mutated objects are passed and returned.

  \<^bold>\<open>Termination.\<close> Loops are structural recursion or \<open>function\<close>s with a termination proof; no definition has fuel. The two
  walks over stored anchors are unbounded loops of the code and partial functions here; \<open>chain_walk_returns\<close> and
  \<open>history_walk_returns\<close> show that they return on every database, because they stop when a hash repeats. The nonce
  search is bounded by its range.

  \<^bold>\<open>Not modelled\<close>, and why.
  \<^item> \<^verbatim>\<open>net/*\<close> (libp2p transport, Erlay, Graphene, Turbine, data availability sampling): network protocols over
    asynchronous I/O and third-party coding libraries.
  \<^item> \<^verbatim>\<open>rpc/server.py\<close>, \<^verbatim>\<open>cli/*\<close>, \<^verbatim>\<open>launch_policy.py\<close> and \<^verbatim>\<open>scripts/\<close>: an HTTP server, command lines and release
    tooling around the node.
  \<^item> \<^verbatim>\<open>wallet/wallet.py\<close>, \<^verbatim>\<open>crypto/address.py\<close>: key files, encryption and address text, outside consensus.
  \<^item> \<^verbatim>\<open>codec/*\<close>, \<^verbatim>\<open>genesis.py\<close>: transaction compression and the creation of the
    genesis file; consensus checks none of their outputs except through the decoders modelled here.
  \<^item> In modelled files: \<open>compute_k\<close> (decimal logarithms; the node uses the constant \<open>DYNAMIC_K_MIN\<close>),
    \<open>estimate_finality_seconds\<close> (floats, for display), key generation (randomness), the configuration
    file, start and stop of the node, locks between threads (each handler holds the one lock of the node
    for its whole run, so handlers are atomic steps), database maintenance.
\<close>

end
